(* ===== verification/Prelude.thy ===== *)
theory Prelude
  imports Main "HOL-Library.Word"
begin

text \<open>
  Shared vocabulary of the development: fixed-width integers, bytes and text, results,
  decimal printing and parsing of the Rust standard library, UTF-8 decoding at a byte
  offset, and the lemma collections the component theories extend.

  A Rust \<open>&str\<close> or \<open>Vec<u8>\<close> is a \<open>string\<close>: the list of its bytes, one \<open>char\<close> per byte,
  so a byte offset of the code is a list index of the model.  A Rust \<open>char\<close> read out of a
  text is the list of the bytes that encode it.  A \<open>Result<T, E>\<close> is \<open>'e + 'a\<close>, with \<open>Inl\<close>
  for the error; \<open>usize\<close> is \<open>nat\<close>.
\<close>

section \<open>Machine integers and results\<close>

type_synonym u8 = "8 word"
type_synonym u16 = "16 word"
type_synonym u32 = "32 word"
type_synonym u64 = "64 word"
type_synonym i64 = "64 word"
type_synonym bytes = string

named_theorems scan_simps \<open>position arithmetic of the scanners\<close>
named_theorems parse_rules \<open>progress and frame rules of the parser steps\<close>

text \<open>The \<open>?\<close> operator on a result, and the sequence of fallible steps over a list.\<close>

fun rbind :: "'e + 'a \<Rightarrow> ('a \<Rightarrow> 'e + 'b) \<Rightarrow> 'e + 'b" where
  "rbind (Inl e) f = Inl e"
| "rbind (Inr x) f = f x"

fun rmap :: "('a \<Rightarrow> 'e + 'b) \<Rightarrow> 'a list \<Rightarrow> 'e + 'b list" where
  "rmap f [] = Inr []"
| "rmap f (x # xs) = rbind (f x) (\<lambda>y. rbind (rmap f xs) (\<lambda>ys. Inr (y # ys)))"

definition map_error :: "('e \<Rightarrow> 'f) \<Rightarrow> 'e + 'a \<Rightarrow> 'f + 'a" where
  "map_error f r = (case r of Inl e \<Rightarrow> Inl (f e) | Inr x \<Rightarrow> Inr x)"

lemma map_error_Inr_iff: "map_error f r = Inr x \<longleftrightarrow> r = Inr x"
  by (cases r) (simp_all add: map_error_def)

lemma rbind_Inr_iff: "rbind r f = Inr y \<longleftrightarrow> (\<exists>x. r = Inr x \<and> f x = Inr y)"
  by (cases r) auto

lemma rmap_Inr_iff: "rmap f xs = Inr ys \<longleftrightarrow> list_all2 (\<lambda>x y. f x = Inr y) xs ys"
  by (induction xs arbitrary: ys) (auto simp: rbind_Inr_iff list_all2_Cons1)

lemma rmap_length: "rmap f xs = Inr ys \<Longrightarrow> length ys = length xs"
  by (auto simp: rmap_Inr_iff dest: list_all2_lengthD)

section \<open>Characters\<close>

abbreviation dquote :: char where "dquote \<equiv> CHR 0x22"
abbreviation squote :: char where "squote \<equiv> CHR 0x27"
abbreviation backslash :: char where "backslash \<equiv> CHR 0x5C"
abbreviation newline :: char where "newline \<equiv> CHR 0x0A"
abbreviation tabchar :: char where "tabchar \<equiv> CHR 0x09"
abbreviation creturn :: char where "creturn \<equiv> CHR 0x0D"
abbreviation nulchar :: char where "nulchar \<equiv> CHR 0x00"

definition is_digit :: "char \<Rightarrow> bool" where
  "is_digit c \<longleftrightarrow> 48 \<le> (of_char c :: nat) \<and> (of_char c :: nat) \<le> 57"

definition is_ascii_alphabetic :: "char \<Rightarrow> bool" where
  "is_ascii_alphabetic c \<longleftrightarrow>
     (65 \<le> (of_char c :: nat) \<and> (of_char c :: nat) \<le> 90) \<or>
     (97 \<le> (of_char c :: nat) \<and> (of_char c :: nat) \<le> 122)"

definition is_ascii_alphanumeric :: "char \<Rightarrow> bool" where
  "is_ascii_alphanumeric c \<longleftrightarrow> is_ascii_alphabetic c \<or> is_digit c"

text \<open>
  The first character of a text: its UTF-8 length is decided by the lead byte, as
  \<open>chars().next()\<close> and \<open>len_utf8\<close> do.
\<close>

definition utf8_len :: "char \<Rightarrow> nat" where
  "utf8_len c =
     (let b = (of_char c :: nat) in
      if b < 128 then 1 else if b < 224 then 2 else if b < 240 then 3 else 4)"

fun first_char :: "string \<Rightarrow> string option" where
  "first_char [] = None"
| "first_char (c # cs) = Some (c # take (utf8_len c - 1) cs)"

text \<open>\<open>char::is_whitespace\<close>: the Unicode \<open>White_Space\<close> property, on the encoded character.\<close>

definition is_ascii_space :: "char \<Rightarrow> bool" where
  "is_ascii_space c \<longleftrightarrow>
     (9 \<le> (of_char c :: nat) \<and> (of_char c :: nat) \<le> 13) \<or> (of_char c :: nat) = 32"

definition is_whitespace :: "string \<Rightarrow> bool" where
  "is_whitespace ch \<longleftrightarrow>
     (case map (of_char :: char \<Rightarrow> nat) ch of
        [b] \<Rightarrow> (9 \<le> b \<and> b \<le> 13) \<or> b = 32
      | [b, c] \<Rightarrow> b = 194 \<and> (c = 133 \<or> c = 160)
      | [b, c, d] \<Rightarrow>
          (b = 225 \<and> c = 154 \<and> d = 128) \<or>
          (b = 226 \<and> c = 128 \<and> (128 \<le> d \<and> d \<le> 138 \<or> d = 168 \<or> d = 169 \<or> d = 175)) \<or>
          (b = 226 \<and> c = 129 \<and> d = 159) \<or>
          (b = 227 \<and> c = 128 \<and> d = 128)
      | _ \<Rightarrow> False)"

lemma utf8_len_pos [simp]: "0 < utf8_len c"
  by (simp add: utf8_len_def Let_def)

lemma first_char_None [simp]: "first_char s = None \<longleftrightarrow> s = []"
  by (cases s) auto

lemma first_char_length:
  "first_char s = Some ch \<Longrightarrow> 0 < length ch \<and> length ch \<le> length s"
  by (cases s) auto

lemma first_char_drop:
  assumes "first_char (drop p s) = Some ch"
  shows "p < length s" "0 < length ch" "p + length ch \<le> length s"
proof -
  have "drop p s \<noteq> []" using assms by (cases "drop p s") auto
  then show "p < length s" by simp
  then show "0 < length ch" "p + length ch \<le> length s"
    using first_char_length [OF assms] by auto
qed

lemma first_char_measure [scan_simps]:
  "first_char (drop p s) = Some ch \<Longrightarrow> length s - (p + length ch) < length s - p"
  using first_char_drop [of p s ch] by linarith

lemma first_char_take: "first_char s = Some ch \<Longrightarrow> ch = take (length ch) s"
  by (cases s) (auto simp: min_def)

lemma first_char_prefix: "first_char s = Some ch \<Longrightarrow> \<exists>t. s = ch @ t"
  by (cases s) (auto, metis append_take_drop_id)

lemma first_char_hd: "first_char s = Some ch \<Longrightarrow> hd ch = hd s \<and> ch \<noteq> []"
  by (cases s) auto

lemma first_char_ascii: "(of_char c :: nat) < 128 \<Longrightarrow> first_char (c # cs) = Some [c]"
  by (simp add: utf8_len_def)

section \<open>Searching in texts\<close>

text \<open>\<open>starts_with\<close> and \<open>find\<close>: the offset of the first occurrence of a pattern.\<close>

fun starts_with :: "string \<Rightarrow> string \<Rightarrow> bool" where
  "starts_with s [] = True"
| "starts_with [] (p # ps) = False"
| "starts_with (c # s) (p # ps) = (c = p \<and> starts_with s ps)"

fun find_sub :: "string \<Rightarrow> string \<Rightarrow> nat option" where
  "find_sub p [] = (if p = [] then Some 0 else None)"
| "find_sub p (c # s) =
     (if starts_with (c # s) p then Some 0 else map_option Suc (find_sub p s))"

lemma starts_with_iff: "starts_with s p \<longleftrightarrow> (\<exists>t. s = p @ t)"
  by (induction s p rule: starts_with.induct) auto

lemma starts_with_length: "starts_with s p \<Longrightarrow> length p \<le> length s"
  by (auto simp: starts_with_iff)

lemma find_sub_Some:
  "find_sub p s = Some n \<Longrightarrow> n + length p \<le> length s \<and> starts_with (drop n s) p"
  by (induction p s arbitrary: n rule: find_sub.induct)
    (auto split: if_splits dest: starts_with_length)

lemma find_sub_first: "find_sub p s = Some n \<Longrightarrow> i < n \<Longrightarrow> \<not> starts_with (drop i s) p"
proof (induction p s arbitrary: n i rule: find_sub.induct)
  case (1 p)
  then show ?case by (auto split: if_splits)
next
  case (2 p c s)
  then show ?case by (cases i) (auto split: if_splits)
qed

lemma find_sub_None: "find_sub p s = None \<Longrightarrow> \<not> starts_with (drop i s) p"
proof (induction p s arbitrary: i rule: find_sub.induct)
  case (1 p)
  then show ?case by (cases p) auto
next
  case (2 p c s)
  then show ?case by (cases i) (auto split: if_splits)
qed

section \<open>Decimal numbers\<close>

definition digit_char :: "nat \<Rightarrow> char" where
  "digit_char d = char_of (48 + d)"

definition digit_val :: "char \<Rightarrow> nat" where
  "digit_val c = of_char c - 48"

function nat_string :: "nat \<Rightarrow> string" where
  "nat_string n =
     (if n < 10 then [digit_char n] else nat_string (n div 10) @ [digit_char (n mod 10)])"
  by pat_completeness auto
termination
  by (relation "measure id") auto

declare nat_string.simps [simp del]

definition int_string :: "int \<Rightarrow> string" where
  "int_string i = (if i < 0 then CHR ''-'' # nat_string (nat (- i)) else nat_string (nat i))"

fun digits_val :: "nat \<Rightarrow> string \<Rightarrow> nat option" where
  "digits_val acc [] = Some acc"
| "digits_val acc (c # cs) =
     (if is_digit c then digits_val (10 * acc + digit_val c) cs else None)"

definition parse_nat :: "string \<Rightarrow> nat option" where
  "parse_nat s = (if s = [] then None else digits_val 0 s)"

text \<open>
  \<open>str::parse::<i64>\<close> and \<open>str::parse::<u64>\<close>: an optional sign (a minus sign only for the
  signed type), at least one digit, and an error when the value does not fit.
\<close>

definition parse_i64 :: "string \<Rightarrow> i64 option" where
  "parse_i64 s =
     (case s of
        [] \<Rightarrow> None
      | c # r \<Rightarrow>
          if c = CHR ''-'' then
            (case parse_nat r of
               None \<Rightarrow> None
             | Some n \<Rightarrow> if n \<le> 2 ^ 63 then Some (word_of_int (- int n)) else None)
          else
            (case parse_nat (if c = CHR ''+'' then r else s) of
               None \<Rightarrow> None
             | Some n \<Rightarrow> if n < 2 ^ 63 then Some (word_of_int (int n)) else None))"

definition parse_u64 :: "string \<Rightarrow> u64 option" where
  "parse_u64 s =
     (case s of
        [] \<Rightarrow> None
      | c # r \<Rightarrow>
          (case parse_nat (if c = CHR ''+'' then r else s) of
             None \<Rightarrow> None
           | Some n \<Rightarrow> if n < 2 ^ 64 then Some (word_of_int (int n)) else None))"

definition i64_max :: i64 where "i64_max = 0x7FFFFFFFFFFFFFFF"

definition i64_string :: "i64 \<Rightarrow> string" where
  "i64_string i = int_string (sint i)"

definition u64_string :: "u64 \<Rightarrow> string" where
  "u64_string u = nat_string (unat u)"

lemma digit_char_val [simp]: "d < 10 \<Longrightarrow> digit_val (digit_char d) = d"
  by (simp add: digit_val_def digit_char_def)

lemma is_digit_digit_char [simp]: "d < 10 \<Longrightarrow> is_digit (digit_char d)"
  by (simp add: is_digit_def digit_char_def)

lemma digit_val_less: "is_digit c \<Longrightarrow> digit_val c < 10"
  by (auto simp: is_digit_def digit_val_def)

lemma digit_char_digit_val [simp]: "is_digit c \<Longrightarrow> digit_char (digit_val c) = c"
  by (simp add: is_digit_def digit_char_def digit_val_def)

lemma nat_string_not_Nil [simp]: "nat_string n \<noteq> []"
  by (subst nat_string.simps) simp

lemma nat_string_digits: "\<forall>c \<in> set (nat_string n). is_digit c"
proof (induction n rule: nat_string.induct)
  case (1 n)
  then show ?case by (subst nat_string.simps) auto
qed

lemma digits_val_append:
  "digits_val acc (xs @ ys) = Option.bind (digits_val acc xs) (\<lambda>a. digits_val a ys)"
  by (induction xs arbitrary: acc) auto

lemma digits_val_nat_string: "digits_val 0 (nat_string n) = Some n"
proof (induction n rule: nat_string.induct)
  case (1 n)
  show ?case
  proof (cases "n < 10")
    case True
    then show ?thesis by (subst nat_string.simps) simp
  next
    case False
    with "1.IH" have "digits_val 0 (nat_string (n div 10)) = Some (n div 10)" by simp
    with False show ?thesis
      by (subst nat_string.simps) (simp add: digits_val_append)
  qed
qed

lemma parse_nat_string [simp]: "parse_nat (nat_string n) = Some n"
  by (simp add: parse_nat_def digits_val_nat_string)

lemma nat_string_inject [simp]: "nat_string m = nat_string n \<longleftrightarrow> m = n"
  by (metis digits_val_nat_string option.inject)

lemma digits_val_Some_iff: "digits_val acc s = None \<longleftrightarrow> (\<exists>c \<in> set s. \<not> is_digit c)"
  by (induction s arbitrary: acc) auto

lemma sint_i64_of_nat [simp]: "k < 2 ^ 63 \<Longrightarrow> sint (word_of_nat k :: i64) = int k"
proof -
  assume k: "k < 2 ^ 63"
  have "sint (word_of_int (int k) :: i64) = signed_take_bit 63 (int k)"
    unfolding sint_sbintrunc' by simp
  also have "\<dots> = int k" using k by (intro signed_take_bit_int_eq_self) auto
  finally show ?thesis by simp
qed

lemma sint_uminus_nonneg: "0 \<le> sint (n :: i64) \<Longrightarrow> sint (- n) = - sint n"
proof -
  assume n: "0 \<le> sint n"
  have "sint (- n) = sint (word_of_int (- sint n) :: i64)" by simp
  also have "\<dots> = signed_take_bit 63 (- sint n)" unfolding sint_sbintrunc' by simp
  also have "\<dots> = - sint n" using n sint_lt [of n] by (intro signed_take_bit_int_eq_self) auto
  finally show ?thesis .
qed

end
