(* ===== verification/F64.thy ===== *)
theory F64
  imports Prelude
begin

text \<open>
  The IEEE-754 double, as far as the lexer, the parser and the wire format use it: reading a
  decimal literal (\<open>str::parse::<f64>\<close>, round to nearest, ties to even), negation, and the
  shortest decimal that reads back (\<open>Display\<close>).  A finite value is a sign, a significand and
  a binary exponent.
\<close>

datatype f64 = Finite bool nat int | Infinite bool | NotANumber

function bit_length :: "nat \<Rightarrow> nat" where
  "bit_length n = (if n = 0 then 0 else Suc (bit_length (n div 2)))"
  by pat_completeness auto
termination
  by (relation "measure id") auto

declare bit_length.simps [simp del]

text \<open>\<open>num / den\<close> compared with \<open>2 ^ k\<close>, and the exponent of its leading bit.\<close>

definition at_least_pow2 :: "nat \<Rightarrow> nat \<Rightarrow> int \<Rightarrow> bool" where
  "at_least_pow2 num den k = (den * 2 ^ nat k \<le> num * 2 ^ nat (- k))"

definition leading_exp :: "nat \<Rightarrow> nat \<Rightarrow> int" where
  "leading_exp num den =
     (let k = int (bit_length num) - int (bit_length den)
      in if at_least_pow2 num den k then k else k - 1)"

text \<open>Division rounded to nearest, ties to even.\<close>

definition div_round :: "nat \<Rightarrow> nat \<Rightarrow> nat" where
  "div_round n d =
     (let q = n div d; r = n mod d
      in if d < 2 * r \<or> (d = 2 * r \<and> odd q) then Suc q else q)"

definition f64_round :: "nat \<Rightarrow> nat \<Rightarrow> f64" where
  "f64_round num den =
     (if num = 0 then Finite False 0 (-1074)
      else
        (let e = max (leading_exp num den - 52) (-1074);
             q = div_round (num * 2 ^ nat (- e)) (den * 2 ^ nat e);
             m = (if q = 2 ^ 53 then 2 ^ 52 else q);
             e' = (if q = 2 ^ 53 then e + 1 else e)
         in if 971 < e' then Infinite False else Finite False m e'))"

text \<open>The value of \<open>digits . digits\<close>, the only form the lexer hands to the conversion.\<close>

definition parse_f64_decimal :: "string \<Rightarrow> f64 option" where
  "parse_f64_decimal s =
     (let ip = takeWhile is_digit s; rest = dropWhile is_digit s
      in (case rest of
            [] \<Rightarrow> None
          | c # fp \<Rightarrow>
              if c = CHR ''.'' \<and> ip \<noteq> [] \<and> fp \<noteq> [] then
                map_option (\<lambda>n. f64_round n (10 ^ length fp)) (parse_nat (ip @ fp))
              else None))"

fun f64_neg :: "f64 \<Rightarrow> f64" where
  "f64_neg (Finite s m e) = Finite (\<not> s) m e"
| "f64_neg (Infinite s) = Infinite (\<not> s)"
| "f64_neg NotANumber = NotANumber"

text \<open>
  \<open>Display\<close>: the fewest decimal digits that read back as the same value and, among those,
  the nearest to it; never an exponent, and no fraction for an integer.
\<close>

definition f64_num :: "nat \<Rightarrow> int \<Rightarrow> nat" where "f64_num m e = m * 2 ^ nat e"
definition f64_den :: "int \<Rightarrow> nat" where "f64_den e = 2 ^ nat (- e)"

text \<open>The decimal position of the leading digit: the largest \<open>k\<close> with \<open>10 ^ k \<le> num / den\<close>.\<close>

fun lead10_search :: "nat \<Rightarrow> int \<Rightarrow> nat \<Rightarrow> nat \<Rightarrow> int" where
  "lead10_search 0 k num den = k"
| "lead10_search (Suc n) k num den =
     (if den * 10 ^ nat k \<le> num * 10 ^ nat (- k) then k else lead10_search n (k - 1) num den)"

definition lead10 :: "nat \<Rightarrow> nat \<Rightarrow> int" where
  "lead10 num den = lead10_search 640 309 num den"

definition reads_back :: "nat \<Rightarrow> int \<Rightarrow> nat \<Rightarrow> int \<Rightarrow> bool" where
  "reads_back m e c p = (f64_round (c * 10 ^ nat p) (10 ^ nat (- p)) = Finite False m e)"

fun shortest_search :: "nat \<Rightarrow> nat \<Rightarrow> nat \<Rightarrow> int \<Rightarrow> int \<Rightarrow> nat \<times> int" where
  "shortest_search 0 d m e k = (m, 0)"
| "shortest_search (Suc n) d m e k =
     (let p = k - int d;
          num = f64_num m e * 10 ^ nat (- p); den = f64_den e * 10 ^ nat p;
          c = num div den; r = num mod den
      in if reads_back m e c p \<and> \<not> (reads_back m e (Suc c) p \<and> den \<le> 2 * r) then (c, p)
         else if reads_back m e (Suc c) p then
           (if Suc c mod 10 = 0 then (Suc c div 10, p + 1) else (Suc c, p))
         else shortest_search n (Suc d) m e k)"

definition place_point :: "nat \<Rightarrow> int \<Rightarrow> string" where
  "place_point c p =
     (let ds = nat_string c in
      if 0 \<le> p then ds @ replicate (nat p) (CHR ''0'')
      else
        (let k = nat (- p) in
         if k < length ds then take (length ds - k) ds @ CHR ''.'' # drop (length ds - k) ds
         else ''0.'' @ replicate (k - length ds) (CHR ''0'') @ ds))"

fun f64_string :: "f64 \<Rightarrow> string" where
  "f64_string (Finite s m e) =
     (if s then ''-'' else '''') @
     (if m = 0 then ''0''
      else (case shortest_search 18 0 m e (lead10 (f64_num m e) (f64_den e)) of
              (c, p) \<Rightarrow> place_point c p))"
| "f64_string (Infinite s) = (if s then ''-'' else '''') @ ''inf''"
| "f64_string NotANumber = ''NaN''"

lemma f64_neg_neg [simp]: "f64_neg (f64_neg x) = x"
  by (cases x) auto

text \<open>The rounded quotient is within half a unit of the exact one.\<close>

lemma div_round_near:
  assumes "0 < d"
  shows "2 * n \<le> (2 * div_round n d + 1) * d \<and> 2 * div_round n d * d \<le> 2 * n + d"
proof -
  obtain q r where n: "n = q * d + r" and r: "r < d" and q: "n div d = q" "n mod d = r"
    using assms by (metis div_mod_decomp mod_less_divisor)
  have dr: "div_round n d = (if d < 2 * r \<or> (d = 2 * r \<and> odd q) then Suc q else q)"
    by (simp add: div_round_def q Let_def)
  show ?thesis
    unfolding dr unfolding n using r by (auto simp: algebra_simps)
qed

lemma div_round_exact: "0 < d \<Longrightarrow> div_round (q * d) d = q"
  by (simp add: div_round_def)

end
