(* ===== verification/Ast.thy ===== *)
theory Ast
  imports F64
begin

text \<open>
  Source spans, parse errors and the abstract syntax tree (\<open>crates/parser/src/lib.rs\<close> and
  \<open>crates/parser/src/ast.rs\<close>).  Names keep the source's constructors; where two enums share
  one, or HOL has it already, the constructor carries a short prefix of its enum.
\<close>

section \<open>Spans and errors (lib.rs)\<close>

record span =
  sp_start :: nat
  sp_end :: nat

definition mk_span :: "nat \<Rightarrow> nat \<Rightarrow> span" where
  "mk_span s e = \<lparr>sp_start = s, sp_end = e\<rparr>"

type_synonym 'a spanned = "'a \<times> span"

record parse_error =
  pe_span :: span
  pe_message :: string

definition mk_error :: "span \<Rightarrow> string \<Rightarrow> parse_error" where
  "mk_error s m = \<lparr>pe_span = s, pe_message = m\<rparr>"

lemma mk_span_simps [simp]: "sp_start (mk_span s e) = s" "sp_end (mk_span s e) = e"
  by (simp_all add: mk_span_def)

lemma mk_error_simps [simp]: "pe_span (mk_error s m) = s" "pe_message (mk_error s m) = m"
  by (simp_all add: mk_error_def)

section \<open>Expressions, literals and interpolated strings (ast.rs)\<close>

datatype var_type =
    VString | VStringArray | VInt | VIntArray | VFloat | VFloatArray | VBool | VBoolArray

datatype sort_direction = Asc | Desc

datatype binary_op =
    Add | Sub | Mul | Div | Mod
  | Eq | NotEq | Lt | Gt | LtEq | GtEq
  | And | Or

datatype unary_op = UNot | UNeg

datatype expr =
    ELiteral literal
  | EVariable string
  | EBinary "expr \<times> span" binary_op "expr \<times> span"
  | EUnary unary_op "expr \<times> span"
  | EUnique
and literal =
    LString string_literal
  | LStringArray "(string_literal \<times> span) list"
  | LInt i64
  | LIntArray "i64 list"
  | LFloat f64
  | LFloatArray "f64 list"
  | LBool bool
  | LBoolArray "bool list"
  | LNull
and string_literal = StringLiteral "string_part list"
and string_part =
    Text string
  | Interpolation "expr \<times> span"

fun sl_parts :: "string_literal \<Rightarrow> string_part list" where
  "sl_parts (StringLiteral ps) = ps"

section \<open>Statements (ast.rs)\<close>

record var_decl =
  vd_name :: "string spanned"
  vd_type :: "var_type spanned"
  vd_default :: "literal spanned option"

datatype faker_value = FLiteral string_literal | FSpread string

datatype faker_source = FArray "faker_value spanned list" | FVariable string

record faker_decl =
  fd_name :: "string spanned"
  fd_source :: faker_source

record column_ref =
  cr_table :: string
  cr_column :: string

record relation_decl =
  rd_from :: "column_ref spanned"
  rd_to :: "column_ref spanned"

datatype anonymize_target = AFaker "string spanned" | ANull

record anonymize_rule =
  ar_column :: "string spanned"
  ar_target :: anonymize_target

record anonymize_block =
  ab_table :: "string spanned"
  ab_rules :: "anonymize_rule spanned list"

datatype table_pattern = PExact "string spanned" | PRegex "string spanned"

record order_by_clause =
  ob_column :: "string spanned"
  ob_direction :: "sort_direction option"

datatype limit_value = LimLiteral i64 | LimVariable string

record aggregate_block =
  ag_name :: "string spanned"
  ag_root :: "string spanned"
  ag_where :: "string_literal spanned option"
  ag_order_by :: "order_by_clause option"
  ag_limit :: "limit_value spanned option"
  ag_exclude_tables :: "table_pattern list"
  ag_root_only :: bool

record get_function_def =
  gf_name :: "string spanned"
  gf_params :: "var_decl spanned list"
  gf_aggregate :: "string spanned"
  gf_where :: "string_literal spanned option"
  gf_order_by :: "order_by_clause option"
  gf_limit :: "limit_value spanned option"
  gf_exclude_tables :: "table_pattern list"
  gf_root_only :: bool

record preserve_stmt =
  pv_table :: "string spanned"
  pv_where :: "string_literal spanned"

datatype ast_value = AvLiteral literal | AvVariable string | AvExpr expr

record assignment =
  as_column :: "string spanned"
  as_value :: "ast_value spanned"

record set_block =
  sb_table :: "string spanned"
  sb_match :: "assignment spanned list"
  sb_assignments :: "assignment spanned list"

record after_block =
  af_statements :: "string spanned list"

datatype statement_kind =
    SImport "string spanned"
  | SVar var_decl
  | SFaker faker_decl
  | SRelation relation_decl
  | SIgnoreRelation relation_decl
  | SAnonymize anonymize_block
  | SExclude table_pattern
  | SIgnore table_pattern
  | SFull "table_pattern list"
  | SAggregate aggregate_block
  | SGet get_function_def
  | SPreserve preserve_stmt
  | SSet set_block
  | SAfter after_block

record statement =
  st_attribute :: "expr spanned option"
  st_kind :: statement_kind

record program =
  pg_statements :: "statement spanned list"

end
