(* ===== verification/Lexer.thy ===== *)
theory Lexer
  imports Ast
begin

text \<open>
  The hand-written scanner (\<open>crates/parser/src/lexer.rs\<close>).  The \<open>lexer\<close> record is the
  \<open>Lexer\<close> struct; each method is a function on it.  The inner \<open>while\<close> loops, which only move
  the position, are functions from a source and a position to a position; \<open>run\<close> is the token
  loop.  Positions are byte offsets.

  The lemmas show that every step moves forward (so the loop ends), that token spans are
  ordered and inside the source, and that each token spells the slice its span covers.
\<close>

section \<open>Tokens\<close>

datatype (plugins only: code) token =
    TInt i64 | TFloat f64 | TBool bool
  | TString string | TMultilineString string | TRegex string
  | TIdent string
  | TImport | TVar | TFaker | TRelation | TAnonymize | TExcludeData | TIgnoreTable
  | TIgnoreRelation | TAggregate | TGet | TPreserve | TSet | TAfter | TRoot | TWhere
  | TOrder | TBy | TLimit | TFull | TExclude | TRootOnly | TMatch | TWhen | TNull
  | TTypeString | TTypeInt | TTypeFloat | TTypeBool
  | TAsc | TDesc
  | TArrow | TSpread | TEq | TNotEq | TLtEq | TGtEq | TAnd | TOr | TLt | TGt | TNot
  | TPlus | TMinus | TStar | TSlash | TPercent | TAssign
  | TLBrace | TRBrace | TLBracket | TRBracket | TLParen | TRParen
  | TColon | TComma | TDot | THash | TDollar

definition bool_string :: "bool \<Rightarrow> string" where
  "bool_string b = (if b then ''true'' else ''false'')"

text \<open>\<open>Display\<close> of a token.\<close>

fun token_display :: "token \<Rightarrow> string" where
  "token_display (TInt n) = i64_string n"
| "token_display (TFloat x) = f64_string x"
| "token_display (TBool b) = bool_string b"
| "token_display (TString s) = [dquote] @ s @ [dquote]"
| "token_display (TMultilineString s) =
     [dquote, dquote, dquote] @ s @ [dquote, dquote, dquote]"
| "token_display (TRegex s) = ''/'' @ s @ ''/''"
| "token_display (TIdent s) = s"
| "token_display TImport = ''import''"
| "token_display TVar = ''var''"
| "token_display TFaker = ''faker''"
| "token_display TRelation = ''relation''"
| "token_display TAnonymize = ''anonymize''"
| "token_display TExcludeData = ''exclude_data''"
| "token_display TIgnoreTable = ''ignore_table''"
| "token_display TIgnoreRelation = ''ignore_relation''"
| "token_display TAggregate = ''aggregate''"
| "token_display TGet = ''get''"
| "token_display TPreserve = ''preserve''"
| "token_display TSet = ''set''"
| "token_display TAfter = ''after''"
| "token_display TRoot = ''root''"
| "token_display TWhere = ''where''"
| "token_display TOrder = ''order''"
| "token_display TBy = ''by''"
| "token_display TLimit = ''limit''"
| "token_display TFull = ''full''"
| "token_display TExclude = ''exclude''"
| "token_display TRootOnly = ''root_only''"
| "token_display TMatch = ''match''"
| "token_display TWhen = ''when''"
| "token_display TNull = ''null''"
| "token_display TTypeString = ''string''"
| "token_display TTypeInt = ''int''"
| "token_display TTypeFloat = ''float''"
| "token_display TTypeBool = ''bool''"
| "token_display TAsc = ''asc''"
| "token_display TDesc = ''desc''"
| "token_display TArrow = ''->''"
| "token_display TSpread = ''...''"
| "token_display TEq = ''==''"
| "token_display TNotEq = ''!=''"
| "token_display TLtEq = ''<=''"
| "token_display TGtEq = ''>=''"
| "token_display TAnd = ''&&''"
| "token_display TOr = ''||''"
| "token_display TLt = ''<''"
| "token_display TGt = ''>''"
| "token_display TNot = ''!''"
| "token_display TPlus = ''+''"
| "token_display TMinus = ''-''"
| "token_display TStar = ''*''"
| "token_display TSlash = ''/''"
| "token_display TPercent = ''%''"
| "token_display TAssign = ''=''"
| "token_display TLBrace = ''{''"
| "token_display TRBrace = ''}''"
| "token_display TLBracket = ''[''"
| "token_display TRBracket = '']''"
| "token_display TLParen = ''(''"
| "token_display TRParen = '')''"
| "token_display TColon = '':''"
| "token_display TComma = '',''"
| "token_display TDot = ''.''"
| "token_display THash = ''#''"
| "token_display TDollar = ''$''"

section \<open>The scanner\<close>

record lex_options =
  regex_literals :: bool

definition default_lex_options :: lex_options where
  "default_lex_options = \<lparr>regex_literals = True\<rparr>"

record lexer =
  lx_source :: string
  lx_pos :: nat
  lx_opts :: lex_options
  lx_tokens :: "token spanned list"
  lx_errors :: "parse_error list"

definition slice :: "string \<Rightarrow> nat \<Rightarrow> nat \<Rightarrow> string" where
  "slice src s e = take (e - s) (drop s src)"

definition lx_rest :: "lexer \<Rightarrow> string" where
  "lx_rest l = drop (lx_pos l) (lx_source l)"

definition lx_peek_char :: "lexer \<Rightarrow> string option" where
  "lx_peek_char l = first_char (lx_rest l)"

definition lx_error :: "span \<Rightarrow> string \<Rightarrow> lexer \<Rightarrow> lexer" where
  "lx_error sp msg l = l\<lparr>lx_errors := lx_errors l @ [mk_error sp msg]\<rparr>"

definition lx_push :: "token \<Rightarrow> nat \<Rightarrow> lexer \<Rightarrow> lexer" where
  "lx_push tok start l = l\<lparr>lx_tokens := lx_tokens l @ [(tok, mk_span start (lx_pos l))]\<rparr>"

text \<open>Whitespace and \<open>//\<close> comments: the end of the trivia that starts at a position.\<close>

function ws_end :: "string \<Rightarrow> nat \<Rightarrow> nat" where
  "ws_end src p =
     (case first_char (drop p src) of
        Some c \<Rightarrow> if is_whitespace c then ws_end src (p + length c) else p
      | None \<Rightarrow> p)"
  by pat_completeness auto
termination
  by (relation "measure (\<lambda>(src, p). length src - p)") (auto simp: scan_simps)

declare ws_end.simps [simp del]

definition comment_end :: "string \<Rightarrow> nat \<Rightarrow> nat option" where
  "comment_end src p =
     (if starts_with (drop p src) ''//'' then
        (case find_sub [newline] (drop p src) of
           Some n \<Rightarrow> Some (p + n + 1)
         | None \<Rightarrow> Some (length src))
      else None)"

lemma ws_end_ge: "p \<le> ws_end src p"
proof (induction src p rule: ws_end.induct)
  case (1 src p)
  then show ?case
    by (subst ws_end.simps) (auto split: option.split)
qed

lemma ws_end_le: "p \<le> length src \<Longrightarrow> ws_end src p \<le> length src"
proof (induction src p rule: ws_end.induct)
  case (1 src p)
  then show ?case
    by (subst ws_end.simps) (auto split: option.split dest: first_char_drop)
qed

lemma comment_end_bounds:
  assumes "comment_end src p = Some q"
  shows "p < q \<and> q \<le> length src"
proof -
  have sw: "starts_with (drop p src) ''//''"
    using assms by (auto simp: comment_end_def split: if_splits)
  then have "p < length src" by (cases "p < length src") auto
  then show ?thesis
    using assms sw by (auto simp: comment_end_def split: option.splits dest!: find_sub_Some)
qed

lemma ws_end_measure: "ws_end src p \<noteq> p \<Longrightarrow> length src - ws_end src p < length src - p"
proof -
  assume ne: "ws_end src p \<noteq> p"
  then have "p < length src"
    by (rule contrapos_np) (subst ws_end.simps, simp)
  moreover have "p < ws_end src p" using ws_end_ge [of p src] ne by simp
  ultimately show ?thesis by linarith
qed

lemma comment_end_measure:
  "comment_end src (ws_end src p) = Some q \<Longrightarrow> length src - q < length src - p"
  using comment_end_bounds [of src "ws_end src p" q] ws_end_ge [of p src] by linarith

function trivia_end :: "string \<Rightarrow> nat \<Rightarrow> nat" where
  "trivia_end src p =
     (let p1 = ws_end src p in
      case comment_end src p1 of
        Some p2 \<Rightarrow> trivia_end src p2
      | None \<Rightarrow> if p1 = p then p1 else trivia_end src p1)"
  by pat_completeness auto
termination
  by (relation "measure (\<lambda>(src, p). length src - p)")
    (auto simp: ws_end_measure comment_end_measure)

declare trivia_end.simps [simp del]

lemma trivia_end_bounds:
  "p \<le> trivia_end src p \<and> (p \<le> length src \<longrightarrow> trivia_end src p \<le> length src)"
proof (induction src p rule: trivia_end.induct)
  case (1 src p)
  show ?case
  proof (cases "comment_end src (ws_end src p)")
    case None
    then show ?thesis
      using "1.IH"(1) [OF refl None] ws_end_ge [of p src] ws_end_le [of p src]
      by (subst (1 2) trivia_end.simps) (auto simp: Let_def)
  next
    case (Some q)
    then show ?thesis
      using "1.IH"(2) [OF refl Some] ws_end_ge [of p src] comment_end_bounds [OF Some]
      by (subst (1 2) trivia_end.simps) (auto simp: Let_def)
  qed
qed

definition skip_trivia :: "lexer \<Rightarrow> lexer" where
  "skip_trivia l = l\<lparr>lx_pos := trivia_end (lx_source l) (lx_pos l)\<rparr>"

text \<open>\<open>"""raw content"""\<close>: no escape processing.\<close>

abbreviation tripleq :: string where "tripleq \<equiv> [dquote, dquote, dquote]"

definition multiline_string :: "nat \<Rightarrow> lexer \<Rightarrow> lexer" where
  "multiline_string start l =
     (let body_start = start + 3; src = lx_source l in
      case find_sub tripleq (drop body_start src) of
        Some n \<Rightarrow>
          lx_push (TMultilineString (slice src body_start (body_start + n))) start
            (l\<lparr>lx_pos := body_start + n + 3\<rparr>)
      | None \<Rightarrow>
          lx_error (mk_span start (length src))
            (''unterminated multiline string: missing closing '' @ tripleq)
            (l\<lparr>lx_pos := length src\<rparr>))"

text \<open>
  \<open>"content"\<close>: the loop looks for the closing quote, stepping over any escaped character.
  The result is the position it stops at and whether that is a closing quote.
\<close>

function string_scan :: "string \<Rightarrow> nat \<Rightarrow> nat \<times> bool" where
  "string_scan src p =
     (case first_char (drop p src) of
        None \<Rightarrow> (p, False)
      | Some c \<Rightarrow>
          if c = [dquote] then (p, True)
          else if c = [backslash] then
            (case first_char (drop (p + 1) src) of
               Some e \<Rightarrow> string_scan src (p + 1 + length e)
             | None \<Rightarrow> string_scan src (p + 1))
          else string_scan src (p + length c))"
  by pat_completeness auto
termination
  by (relation "measure (\<lambda>(src, p). length src - p)")
    (auto simp: scan_simps dest: first_char_drop)

declare string_scan.simps [simp del]

definition lex_string :: "nat \<Rightarrow> lexer \<Rightarrow> lexer" where
  "lex_string start l =
     (case string_scan (lx_source l) (start + 1) of
        (p, True) \<Rightarrow>
          lx_push (TString (slice (lx_source l) (start + 1) p)) start (l\<lparr>lx_pos := p + 1\<rparr>)
      | (p, False) \<Rightarrow>
          lx_error (mk_span start p) (''unterminated string: missing closing '' @ [squote, dquote, squote])
            (l\<lparr>lx_pos := p\<rparr>))"

text \<open>Integer or float, never signed.\<close>

function digits_end :: "string \<Rightarrow> nat \<Rightarrow> nat" where
  "digits_end src p =
     (if p < length src \<and> is_digit (src ! p) then digits_end src (p + 1) else p)"
  by pat_completeness auto
termination
  by (relation "measure (\<lambda>(src, p). length src - p)") auto

declare digits_end.simps [simp del]

definition number :: "nat \<Rightarrow> lexer \<Rightarrow> lexer" where
  "number start l =
     (let src = lx_source l; p = digits_end src start in
      if p < length src \<and> src ! p = CHR ''.'' \<and> p + 1 < length src \<and> is_digit (src ! (p + 1)) then
        (let q = digits_end src (p + 1); text = slice src start q in
         lx_push (TFloat (the (parse_f64_decimal text))) start (l\<lparr>lx_pos := q\<rparr>))
      else
        (let text = slice src start p; l1 = l\<lparr>lx_pos := p\<rparr> in
         case parse_i64 text of
           Some n \<Rightarrow> lx_push (TInt n) start l1
         | None \<Rightarrow>
             lx_push (TInt i64_max) start
               (lx_error (mk_span start p)
                  (''integer literal '' @ [squote] @ text @ [squote] @
                   '' is out of range for a 64-bit integer'') l1)))"

text \<open>A backtick-quoted identifier.\<close>

definition backtick_ident :: "nat \<Rightarrow> lexer \<Rightarrow> lexer" where
  "backtick_ident start l =
     (let src = lx_source l in
      case find_sub ''`'' (drop (start + 1) src) of
        Some n \<Rightarrow>
          if n = 0 then
            lx_error (mk_span start (start + 2)) ''empty backtick identifier''
              (l\<lparr>lx_pos := start + 2\<rparr>)
          else
            lx_push (TIdent (slice src (start + 1) (start + 1 + n))) start
              (l\<lparr>lx_pos := start + 1 + n + 1\<rparr>)
      | None \<Rightarrow>
          lx_error (mk_span start (length src))
            (''unterminated backtick identifier: missing closing '' @ [squote, CHR 0x60, squote])
            (l\<lparr>lx_pos := length src\<rparr>))"

text \<open>
  \<open>/pattern/\<close> or division: the loop over the characters after the slash, which ends at the
  next slash (a close when the pattern is not empty) or at whitespace.
\<close>

function regex_close :: "string \<Rightarrow> nat \<Rightarrow> nat \<Rightarrow> nat option" where
  "regex_close src start at =
     (case first_char (drop at src) of
        None \<Rightarrow> None
      | Some c \<Rightarrow>
          if c = ''/'' then (if start + 1 < at then Some at else None)
          else if is_whitespace c then None
          else regex_close src start (at + length c))"
  by pat_completeness auto
termination
  by (relation "measure (\<lambda>(src, start, at). length src - at)") (auto simp: scan_simps)

declare regex_close.simps [simp del]

definition slash_or_regex :: "nat \<Rightarrow> lexer \<Rightarrow> lexer" where
  "slash_or_regex start l =
     (case (if regex_literals (lx_opts l) then regex_close (lx_source l) start (start + 1)
            else None) of
        Some close \<Rightarrow>
          lx_push (TRegex (slice (lx_source l) (start + 1) close)) start
            (l\<lparr>lx_pos := close + 1\<rparr>)
      | None \<Rightarrow> lx_push TSlash start (l\<lparr>lx_pos := start + 1\<rparr>))"

section \<open>Words and operators\<close>

function ident_end :: "string \<Rightarrow> nat \<Rightarrow> nat" where
  "ident_end src p =
     (if p < length src \<and> (is_ascii_alphanumeric (src ! p) \<or> src ! p = CHR ''_'')
      then ident_end src (p + 1) else p)"
  by pat_completeness auto
termination
  by (relation "measure (\<lambda>(src, p). length src - p)") auto

declare ident_end.simps [simp del]

definition keyword_table :: "(string \<times> token) list" where
  "keyword_table =
     [(''import'', TImport), (''var'', TVar), (''faker'', TFaker), (''relation'', TRelation),
      (''anonymize'', TAnonymize), (''exclude_data'', TExcludeData),
      (''ignore_table'', TIgnoreTable), (''ignore_relation'', TIgnoreRelation),
      (''aggregate'', TAggregate), (''get'', TGet), (''preserve'', TPreserve), (''set'', TSet),
      (''after'', TAfter), (''root'', TRoot), (''where'', TWhere), (''order'', TOrder),
      (''by'', TBy), (''limit'', TLimit), (''full'', TFull), (''exclude'', TExclude),
      (''root_only'', TRootOnly), (''match'', TMatch), (''when'', TWhen), (''null'', TNull),
      (''string'', TTypeString), (''int'', TTypeInt), (''float'', TTypeFloat),
      (''bool'', TTypeBool), (''asc'', TAsc), (''desc'', TDesc),
      (''true'', TBool True), (''false'', TBool False)]"

definition word_token :: "string \<Rightarrow> token" where
  "word_token text = (case map_of keyword_table text of Some t \<Rightarrow> t | None \<Rightarrow> TIdent text)"

definition ident_or_keyword :: "nat \<Rightarrow> lexer \<Rightarrow> lexer" where
  "ident_or_keyword start l =
     (let p = ident_end (lx_source l) (lx_pos l); text = slice (lx_source l) start p
      in lx_push (word_token text) start (l\<lparr>lx_pos := p\<rparr>))"

definition multi_ops :: "(string \<times> token) list" where
  "multi_ops =
     [(''->'', TArrow), (''...'', TSpread), (''=='', TEq), (''!='', TNotEq), (''<='', TLtEq),
      (''>='', TGtEq), (''&&'', TAnd), (''||'', TOr)]"

definition single_ops :: "(string \<times> token) list" where
  "single_ops =
     [(''<'', TLt), (''>'', TGt), (''!'', TNot), (''+'', TPlus), (''-'', TMinus),
      (''*'', TStar), (''%'', TPercent), (''='', TAssign), (''{'', TLBrace), (''}'', TRBrace),
      (''['', TLBracket), ('']'', TRBracket), (''('', TLParen), ('')'', TRParen),
      ('':'', TColon), ('','', TComma), (''.'', TDot), (''#'', THash), (''$'', TDollar)]"

definition operator_or_punct :: "nat \<Rightarrow> string \<Rightarrow> lexer \<Rightarrow> lexer" where
  "operator_or_punct start c l =
     (case List.find (\<lambda>(pat, tok). starts_with (lx_rest l) pat) multi_ops of
        Some (pat, tok) \<Rightarrow> lx_push tok start (l\<lparr>lx_pos := start + length pat\<rparr>)
      | None \<Rightarrow>
          (let l1 = l\<lparr>lx_pos := start + length c\<rparr> in
           case map_of single_ops c of
             Some tok \<Rightarrow> lx_push tok start l1
           | None \<Rightarrow>
               lx_error (mk_span start (lx_pos l1))
                 (''unexpected character '' @ [squote] @ c @ [squote]) l1))"

section \<open>The token loop\<close>

definition lex_token :: "string \<Rightarrow> lexer \<Rightarrow> lexer" where
  "lex_token c l =
     (let start = lx_pos l in
      if c = [dquote] \<and> starts_with (lx_rest l) tripleq then multiline_string start l
      else if c = [dquote] then lex_string start l
      else if length c = 1 \<and> is_digit (hd c) then number start l
      else if c = ''`'' then backtick_ident start l
      else if c = ''/'' then slash_or_regex start l
      else if length c = 1 \<and> (is_ascii_alphabetic (hd c) \<or> hd c = CHR ''_'') then
        ident_or_keyword start l
      else operator_or_punct start c l)"

subsection \<open>What a token spells\<close>

text \<open>
  The lexical grammar: which slices of the source a token may stand for.  \<open>rx\<close> says whether
  regex literals are enabled.
\<close>

fun spells :: "bool \<Rightarrow> token \<Rightarrow> string \<Rightarrow> bool" where
  "spells rx (TInt n) s =
     (s \<noteq> [] \<and> (\<forall>c \<in> set s. is_digit c) \<and>
      n = (case parse_i64 s of Some m \<Rightarrow> m | None \<Rightarrow> i64_max))"
| "spells rx (TFloat x) s = (parse_f64_decimal s = Some x)"
| "spells rx (TString r) s = (s = [dquote] @ r @ [dquote])"
| "spells rx (TMultilineString r) s = (s = tripleq @ r @ tripleq)"
| "spells rx (TRegex r) s = (rx \<and> r \<noteq> [] \<and> s = ''/'' @ r @ ''/'')"
| "spells rx (TIdent r) s =
     (r \<noteq> [] \<and>
      ((s = r \<and> (\<forall>c \<in> set r. is_ascii_alphanumeric c \<or> c = CHR ''_'') \<and>
        map_of keyword_table r = None) \<or> s = ''`'' @ r @ ''`''))"
| "spells rx t s = (s = token_display t)"

definition lex_step :: "lexer \<Rightarrow> lexer \<Rightarrow> bool" where
  "lex_step l l' \<longleftrightarrow>
     lx_source l' = lx_source l \<and> lx_opts l' = lx_opts l \<and>
     lx_pos l < lx_pos l' \<and> lx_pos l' \<le> length (lx_source l) \<and>
     ((\<exists>m. lx_tokens l' = lx_tokens l \<and>
           lx_errors l' = lx_errors l @ [mk_error (mk_span (lx_pos l) (lx_pos l')) m]) \<or>
      (\<exists>t. lx_tokens l' = lx_tokens l @ [(t, mk_span (lx_pos l) (lx_pos l'))] \<and>
           spells (regex_literals (lx_opts l)) t (slice (lx_source l) (lx_pos l) (lx_pos l')) \<and>
           (lx_errors l' = lx_errors l \<or>
            (\<exists>m. t = TInt i64_max \<and>
                 lx_errors l' = lx_errors l @ [mk_error (mk_span (lx_pos l) (lx_pos l')) m]))))"

lemma slice_starts: "starts_with (drop a src) p \<Longrightarrow> slice src a (a + length p) = p"
  by (auto simp: starts_with_iff slice_def)

lemma slice_append: "a \<le> b \<Longrightarrow> b \<le> c \<Longrightarrow> slice src a c = slice src a b @ slice src b c"
proof -
  assume "a \<le> b" "b \<le> c"
  then have "c - a = (b - a) + (c - b)" and "drop b src = drop (b - a) (drop a src)" by simp_all
  then show ?thesis by (metis slice_def take_add)
qed

lemma slice_Cons:
  assumes "a < c" "c \<le> length src"
  shows "slice src a c = src ! a # slice src (Suc a) c"
proof -
  have "drop a src = src ! a # drop (Suc a) src" using assms by (simp add: Cons_nth_drop_Suc)
  moreover have "c - a = Suc (c - Suc a)" using assms by simp
  ultimately show ?thesis by (simp add: slice_def)
qed

lemma slice_empty [simp]: "slice src a a = []"
  by (simp add: slice_def)

lemma slice_Suc: "a < length src \<Longrightarrow> slice src a (Suc a) = [src ! a]"
  by (simp add: slice_Cons)

lemma length_slice [simp]: "a \<le> b \<Longrightarrow> b \<le> length src \<Longrightarrow> length (slice src a b) = b - a"
  by (simp add: slice_def)

lemma nth_slice: "a + i < b \<Longrightarrow> b \<le> length src \<Longrightarrow> slice src a b ! i = src ! (a + i)"
  by (simp add: slice_def)

lemma set_slice:
  assumes "b \<le> length src" "x \<in> set (slice src a b)"
  shows "\<exists>i. a \<le> i \<and> i < b \<and> x = src ! i"
proof -
  obtain k where k: "k < length (slice src a b)" "x = slice src a b ! k"
    using assms(2) by (auto simp: in_set_conv_nth)
  then have "k < b - a" by (simp add: slice_def)
  then have "a + k < b" by simp
  then show ?thesis using k(2) assms(1) by (intro exI [of _ "a + k"]) (simp add: nth_slice)
qed

lemma starts_with_Cons_nth:
  "starts_with (drop a src) (c # p) \<longleftrightarrow> a < length src \<and> src ! a = c \<and> starts_with (drop (Suc a) src) p"
  by (cases "a < length src") (auto simp: Cons_nth_drop_Suc [symmetric])

lemma peek_ascii:
  assumes "first_char (drop p src) = Some c" and "length c = 1"
  shows "p < length src" and "c = [src ! p]"
proof -
  show p: "p < length src" using assms by (auto dest: first_char_drop)
  then have "hd (drop p src) = src ! p" by (rule hd_drop_conv_nth)
  with first_char_hd [OF assms(1)] assms(2) show "c = [src ! p]" by (cases c) auto
qed

text \<open>Every scanner, started at a character, is such a step.\<close>

lemma lex_step_push:
  assumes "lx_pos l < p" "p \<le> length (lx_source l)"
    and "spells (regex_literals (lx_opts l)) t (slice (lx_source l) (lx_pos l) p)"
  shows "lex_step l (lx_push t (lx_pos l) (l\<lparr>lx_pos := p\<rparr>))"
  using assms by (simp add: lex_step_def lx_push_def)

lemma lex_step_error:
  assumes "lx_pos l < p" "p \<le> length (lx_source l)"
  shows "lex_step l (lx_error (mk_span (lx_pos l) p) m (l\<lparr>lx_pos := p\<rparr>))"
  using assms by (auto simp: lex_step_def lx_error_def)

lemma find_sub_slice:
  assumes "find_sub p (drop a src) = Some n" "a \<le> length src"
  shows "slice src (a + n) (a + n + length p) = p" "a + n + length p \<le> length src"
proof -
  have "n + length p \<le> length (drop a src)" "starts_with (drop n (drop a src)) p"
    using find_sub_Some [OF assms(1)] by blast+
  then show "slice src (a + n) (a + n + length p) = p" "a + n + length p \<le> length src"
    using slice_starts [of "a + n" src p] assms(2) by (auto simp: add.commute)
qed

lemma starts_with_bound: "starts_with (drop a src) p \<Longrightarrow> p \<noteq> [] \<Longrightarrow> a + length p \<le> length src"
  using starts_with_length [of "drop a src" p] by (cases "a \<le> length src") auto

lemma multiline_string_step:
  assumes "starts_with (lx_rest l) tripleq"
  shows "lex_step l (multiline_string (lx_pos l) l)"
proof -
  let ?p = "lx_pos l" and ?src = "lx_source l"
  have b: "?p + 3 \<le> length ?src" and o: "slice ?src ?p (?p + 3) = tripleq"
    using starts_with_bound [of ?p ?src tripleq] slice_starts [of ?p ?src tripleq] assms
    by (simp_all add: lx_rest_def numeral_3_eq_3)
  show ?thesis
  proof (cases "find_sub tripleq (drop (?p + 3) ?src)")
    case None
    then show ?thesis using b by (auto simp: multiline_string_def Let_def intro!: lex_step_error)
  next
    case (Some n)
    from find_sub_slice [OF Some b]
    have c: "slice ?src (?p + 3 + n) (?p + 3 + n + 3) = tripleq" "?p + 3 + n + 3 \<le> length ?src"
      by simp_all
    have "slice ?src ?p (?p + 3 + n + 3) =
        tripleq @ slice ?src (?p + 3) (?p + 3 + n) @ tripleq"
      using slice_append [of ?p "?p + 3" "?p + 3 + n + 3" ?src] o c(1)
        slice_append [of "?p + 3" "?p + 3 + n" "?p + 3 + n + 3" ?src] by simp
    then have "lex_step l (lx_push (TMultilineString (slice ?src (?p + 3) (?p + 3 + n))) ?p
        (l\<lparr>lx_pos := ?p + 3 + n + 3\<rparr>))"
      using c(2) by (intro lex_step_push) simp_all
    then show ?thesis using Some by (simp add: multiline_string_def Let_def)
  qed
qed

lemma string_scan_bounds:
  "string_scan src p = (q, b) \<Longrightarrow> p \<le> q \<and> (p \<le> length src \<longrightarrow> q \<le> length src) \<and>
     (b \<longrightarrow> q < length src \<and> src ! q = dquote)"
proof (induction src p arbitrary: q b rule: string_scan.induct)
  case (1 src p)
  show ?case
  proof (cases "first_char (drop p src)")
    case None
    then show ?thesis using "1.prems" by (simp add: string_scan.simps)
  next
    case (Some c)
    note fc = first_char_drop [OF Some]
    show ?thesis
    proof (cases "c = [dquote]")
      case True
      then show ?thesis using "1.prems" Some peek_ascii [of p src c]
        by (subst (asm) string_scan.simps) auto
    next
      case nq: False
      show ?thesis
      proof (cases "c = [backslash]")
        case bs: True
        show ?thesis
        proof (cases "first_char (drop (p + 1) src)")
          case None
          then have "string_scan src (p + 1) = (q, b)"
            using "1.prems" Some bs by (subst (asm) string_scan.simps) simp
          from "1.IH"(1) [OF Some nq bs None this] show ?thesis using fc by auto
        next
          case e: (Some e)
          then have "string_scan src (p + 1 + length e) = (q, b)"
            using "1.prems" Some bs by (subst (asm) string_scan.simps) simp
          from "1.IH"(2) [OF Some nq bs e this] show ?thesis using fc first_char_drop [OF e] by auto
        qed
      next
        case nb: False
        then have "string_scan src (p + length c) = (q, b)"
          using "1.prems" Some nq by (subst (asm) string_scan.simps) simp
        from "1.IH"(3) [OF Some nq nb this] show ?thesis using fc by auto
      qed
    qed
  qed
qed

lemma lex_string_step:
  assumes "lx_peek_char l = Some [dquote]"
  shows "lex_step l (lex_string (lx_pos l) l)"
proof -
  let ?p = "lx_pos l" and ?src = "lx_source l"
  have p: "?p < length ?src" and d: "?src ! ?p = dquote"
    using peek_ascii [of ?p ?src "[dquote]"] assms by (simp_all add: lx_peek_char_def lx_rest_def)
  obtain q b where s: "string_scan ?src (Suc ?p) = (q, b)" by (cases "string_scan ?src (Suc ?p)")
  note bd = string_scan_bounds [OF s]
  show ?thesis
  proof (cases b)
    case True
    with bd have q: "Suc ?p \<le> q" "q < length ?src" "?src ! q = dquote" by auto
    then have "slice ?src ?p (Suc q) = dquote # slice ?src (Suc ?p) q @ [dquote]"
      using p d slice_append [of ?p "Suc ?p" "Suc q" ?src] slice_append [of "Suc ?p" q "Suc q" ?src]
      by (simp add: slice_Suc)
    then show ?thesis using True s q lex_step_push [of l "Suc q"] by (simp add: lex_string_def)
  next
    case False
    then show ?thesis using s bd p lex_step_error [of l q] by (simp add: lex_string_def)
  qed
qed

lemma between_Suc: "p \<le> i \<Longrightarrow> i = p \<or> p + 1 \<le> (i::nat)"
  by linarith

lemma digits_end_step:
  "digits_end src p = (if p < length src \<and> is_digit (src ! p) then digits_end src (p + 1) else p)"
  by (rule digits_end.simps)

lemma digits_end_ge: "p \<le> digits_end src p"
  by (induction src p rule: digits_end.induct) (subst digits_end.simps, auto)

lemma digits_end_le: "p \<le> length src \<Longrightarrow> digits_end src p \<le> length src"
  by (induction src p rule: digits_end.induct) (subst digits_end.simps, auto)

lemma digits_end_digit: "p \<le> i \<Longrightarrow> i < digits_end src p \<Longrightarrow> is_digit (src ! i)"
proof (induction src p rule: digits_end.induct)
  case (1 src p)
  show ?case
  proof (cases "p < length src \<and> is_digit (src ! p)")
    case True
    then have "digits_end src p = digits_end src (p + 1)" by (subst digits_end.simps) simp
    then show ?thesis using "1.IH" True "1.prems" between_Suc [of p i] by auto
  next
    case False
    then have "digits_end src p = p" by (subst digits_end.simps) auto
    then show ?thesis using "1.prems" by simp
  qed
qed

lemma ident_end_ge: "p \<le> ident_end src p"
  by (induction src p rule: ident_end.induct) (subst ident_end.simps, auto)

lemma ident_end_le: "p \<le> length src \<Longrightarrow> ident_end src p \<le> length src"
  by (induction src p rule: ident_end.induct) (subst ident_end.simps, auto)

lemma ident_end_char:
  "p \<le> i \<Longrightarrow> i < ident_end src p \<Longrightarrow> is_ascii_alphanumeric (src ! i) \<or> src ! i = CHR ''_''"
proof (induction src p rule: ident_end.induct)
  case (1 src p)
  let ?ok = "p < length src \<and> (is_ascii_alphanumeric (src ! p) \<or> src ! p = CHR ''_'')"
  show ?case
  proof (cases ?ok)
    case True
    then have "ident_end src p = ident_end src (p + 1)" by (subst ident_end.simps) simp
    then show ?thesis using "1.IH" True "1.prems" between_Suc [of p i] by auto
  next
    case False
    then have "ident_end src p = p" by (subst ident_end.simps) auto
    then show ?thesis using "1.prems" by simp
  qed
qed

lemma regex_close_bounds:
  "regex_close src start at = Some q \<Longrightarrow> at \<le> q \<and> q < length src \<and> src ! q = CHR ''/'' \<and> start + 1 < q"
proof (induction src start at rule: regex_close.induct)
  case (1 src start at)
  then obtain c where c: "first_char (drop at src) = Some c"
    by (subst (asm) (2) regex_close.simps) (auto split: option.splits)
  show ?case
  proof (cases "c = ''/''")
    case True
    then show ?thesis using "1.prems" c peek_ascii [of at src c]
      by (subst (asm) regex_close.simps) (auto split: if_splits)
  next
    case False
    then have "regex_close src start (at + length c) = Some q" "\<not> is_whitespace c"
      using "1.prems" c unfolding regex_close.simps [of src start at]
      by (auto split: if_splits)
    from "1.IH" [OF c False this(2,1)] show ?thesis by simp
  qed
qed

lemma peek_first_char: "lx_peek_char l = first_char (drop (lx_pos l) (lx_source l))"
  by (simp add: lx_peek_char_def lx_rest_def)

lemma parse_f64_decimal_digits:
  assumes "\<forall>c \<in> set ip. is_digit c" "\<forall>c \<in> set fp. is_digit c" "ip \<noteq> []" "fp \<noteq> []"
  shows "\<exists>x. parse_f64_decimal (ip @ CHR ''.'' # fp) = Some x"
proof -
  have "\<not> is_digit (CHR ''.'')" by (simp add: is_digit_def)
  then have "takeWhile is_digit (ip @ CHR ''.'' # fp) = ip"
    "dropWhile is_digit (ip @ CHR ''.'' # fp) = CHR ''.'' # fp"
    using assms(1) by (simp_all add: takeWhile_append2 dropWhile_append2)
  moreover have "digits_val 0 (ip @ fp) \<noteq> None"
    using assms by (simp add: digits_val_Some_iff) blast
  ultimately show ?thesis using assms(3,4) by (auto simp: parse_f64_decimal_def parse_nat_def)
qed

lemma number_step:
  assumes "lx_peek_char l = Some [d]" "is_digit d"
  shows "lex_step l (number (lx_pos l) l)"
proof -
  let ?p = "lx_pos l" and ?src = "lx_source l"
  let ?q = "digits_end ?src ?p" and ?r = "digits_end ?src (digits_end ?src ?p + 1)"
  have p: "?p < length ?src" and d: "is_digit (?src ! ?p)"
    using peek_ascii [of ?p ?src "[d]"] assms by (simp_all add: peek_first_char)
  have pq: "?p < ?q" and qs: "?q \<le> length ?src"
    using p d digits_end_ge [of "?p + 1" ?src] digits_end_le [of ?p ?src]
    by (simp_all add: digits_end.simps [of ?src ?p])
  have digs: "\<forall>c \<in> set (slice ?src ?p ?q). is_digit c"
    using set_slice [OF qs] digits_end_digit by blast
  show ?thesis
  proof (cases "?q < length ?src \<and> ?src ! ?q = CHR ''.'' \<and> ?q + 1 < length ?src \<and> is_digit (?src ! (?q + 1))")
    case True
    then have r: "?q < ?r" "?r \<le> length ?src"
      using digits_end_ge [of "?q + 1" ?src] digits_end_le [of "?q + 1" ?src] by auto
    have q1: "?q + 1 < ?r"
      using True digits_end_ge [of "?q + 2" ?src] by (subst digits_end.simps) simp
    moreover have "\<exists>x. parse_f64_decimal (slice ?src ?p ?r) = Some x"
    proof -
      have "slice ?src ?p ?r = slice ?src ?p ?q @ CHR ''.'' # slice ?src (?q + 1) ?r"
        using True pq r slice_append [of ?p ?q ?r ?src] by (simp add: slice_Cons)
      moreover have "slice ?src ?p ?q \<noteq> []" "slice ?src (?q + 1) ?r \<noteq> []"
        using pq qs r q1 by (auto simp: slice_def)
      moreover have "\<forall>c \<in> set (slice ?src (?q + 1) ?r). is_digit c"
        using set_slice [OF r(2)] digits_end_digit by blast
      ultimately show ?thesis using digs by (simp add: parse_f64_decimal_digits)
    qed
    ultimately show ?thesis
      using True pq r by (auto simp: number_def Let_def intro!: lex_step_push)
  next
    case False
    have ne: "slice ?src ?p ?q \<noteq> []" using pq qs by (auto simp: slice_def)
    show ?thesis
    proof (cases "parse_i64 (slice ?src ?p ?q)")
      case None
      then show ?thesis using False pq qs digs ne
        by (auto simp: number_def Let_def lex_step_def lx_push_def lx_error_def)
    next
      case (Some n)
      then have "lex_step l (lx_push (TInt n) ?p (l\<lparr>lx_pos := ?q\<rparr>))"
        using pq qs digs ne by (intro lex_step_push) simp_all
      then show ?thesis using False Some by (auto simp: number_def Let_def)
    qed
  qed
qed

lemma backtick_step:
  assumes "lx_peek_char l = Some ''`''"
  shows "lex_step l (backtick_ident (lx_pos l) l)"
proof -
  let ?p = "lx_pos l" and ?src = "lx_source l"
  have p: "?p < length ?src" and d: "?src ! ?p = CHR ''`''"
    using peek_ascii [of ?p ?src "''`''"] assms by (simp_all add: peek_first_char)
  show ?thesis
  proof (cases "find_sub ''`'' (drop (?p + 1) ?src)")
    case None
    then show ?thesis using p by (auto simp: backtick_ident_def Let_def intro!: lex_step_error)
  next
    case (Some n)
    from find_sub_slice [OF Some] p
    have c: "slice ?src (?p + 1 + n) (?p + 1 + n + 1) = ''`''" "?p + 1 + n + 1 \<le> length ?src"
      by simp_all
    have "slice ?src ?p (?p + 1 + n + 1) = ''`'' @ slice ?src (?p + 1) (?p + 1 + n) @ ''`''"
      using slice_append [of ?p "?p + 1" "?p + 1 + n + 1" ?src] c(1) p d
        slice_append [of "?p + 1" "?p + 1 + n" "?p + 1 + n + 1" ?src] by (simp add: slice_Suc)
    moreover have "0 < n \<Longrightarrow> slice ?src (?p + 1) (?p + 1 + n) \<noteq> []"
      using c(2) by (auto simp: slice_def)
    ultimately show ?thesis using Some c(2) lex_step_error [of l "?p + 2"]
        lex_step_push [of l "?p + 1 + n + 1" "TIdent (slice ?src (?p + 1) (?p + 1 + n))"]
      by (simp add: backtick_ident_def)
  qed
qed

lemma slash_step:
  assumes "lx_peek_char l = Some ''/''"
  shows "lex_step l (slash_or_regex (lx_pos l) l)"
proof -
  let ?p = "lx_pos l" and ?src = "lx_source l"
  have p: "?p < length ?src" and d: "?src ! ?p = CHR ''/''"
    using peek_ascii [of ?p ?src "''/''"] assms by (simp_all add: peek_first_char)
  have slash: "lex_step l (lx_push TSlash ?p (l\<lparr>lx_pos := ?p + 1\<rparr>))"
    using p d by (intro lex_step_push) (simp_all add: slice_Suc)
  show ?thesis
  proof (cases "if regex_literals (lx_opts l) then regex_close ?src ?p (?p + 1) else None")
    case None
    then show ?thesis using slash by (simp add: slash_or_regex_def)
  next
    case (Some q)
    then have rx: "regex_literals (lx_opts l)" and c: "regex_close ?src ?p (?p + 1) = Some q"
      by (auto split: if_splits)
    from regex_close_bounds [OF c] have q: "?p + 1 < q" "q < length ?src" "?src ! q = CHR ''/''" by auto
    then have "slice ?src ?p (q + 1) = ''/'' @ slice ?src (?p + 1) q @ ''/''"
      using p d slice_append [of ?p "?p + 1" "q + 1" ?src] slice_append [of "?p + 1" q "q + 1" ?src]
      by (simp add: slice_Suc)
    moreover have "slice ?src (?p + 1) q \<noteq> []" using q by (auto simp: slice_def)
    ultimately show ?thesis using Some rx q
        lex_step_push [of l "q + 1" "TRegex (slice ?src (?p + 1) q)"]
      by (simp add: slash_or_regex_def)
  qed
qed

lemma word_token_spells:
  "r \<noteq> [] \<Longrightarrow> \<forall>c \<in> set r. is_ascii_alphanumeric c \<or> c = CHR ''_'' \<Longrightarrow> spells rx (word_token r) r"
  by (auto simp: word_token_def split: option.split dest!: map_of_SomeD)
    (auto simp: keyword_table_def bool_string_def)

lemma ident_step:
  assumes "lx_peek_char l = Some [d]" "is_ascii_alphabetic d \<or> d = CHR ''_''"
  shows "lex_step l (ident_or_keyword (lx_pos l) l)"
proof -
  let ?p = "lx_pos l" and ?src = "lx_source l"
  let ?q = "ident_end ?src ?p"
  have p: "?p < length ?src" and d: "is_ascii_alphabetic (?src ! ?p) \<or> ?src ! ?p = CHR ''_''"
    using peek_ascii [of ?p ?src "[d]"] assms by (simp_all add: peek_first_char)
  have pq: "?p < ?q" and qs: "?q \<le> length ?src"
    using p d ident_end_ge [of "?p + 1" ?src] ident_end_le [of ?p ?src]
    by (subst ident_end.simps, auto simp: is_ascii_alphanumeric_def) 
  have "\<forall>c \<in> set (slice ?src ?p ?q). is_ascii_alphanumeric c \<or> c = CHR ''_''"
    using set_slice [OF qs] ident_end_char by blast
  moreover have "slice ?src ?p ?q \<noteq> []" using pq qs by (auto simp: slice_def)
  ultimately show ?thesis using pq qs
    by (simp add: ident_or_keyword_def Let_def lex_step_push word_token_spells)
qed

lemma op_spells: "(pat, tok) \<in> set multi_ops \<or> (pat, tok) \<in> set single_ops \<Longrightarrow> spells rx tok pat"
  by (auto simp: multi_ops_def single_ops_def)

lemma operator_step:
  assumes "lx_peek_char l = Some c"
  shows "lex_step l (operator_or_punct (lx_pos l) c l)"
proof -
  let ?p = "lx_pos l" and ?src = "lx_source l"
  note fc = first_char_drop [OF assms [unfolded peek_first_char]]
  have sl: "slice ?src ?p (?p + length c) = c"
    using first_char_take [OF assms [unfolded peek_first_char]] by (simp add: slice_def)
  show ?thesis
  proof (cases "List.find (\<lambda>(pat, tok). starts_with (lx_rest l) pat) multi_ops")
    case (Some pt)
    obtain pat tok where [simp]: "pt = (pat, tok)" by force
    have m: "(pat, tok) \<in> set multi_ops" "starts_with (drop ?p ?src) pat"
      using Some nth_mem by (fastforce simp: find_Some_iff lx_rest_def)+
    then have "pat \<noteq> []" by (auto simp: multi_ops_def)
    with m show ?thesis using Some starts_with_bound [OF m(2)] slice_starts [OF m(2)]
      by (auto simp: operator_or_punct_def intro!: lex_step_push op_spells)
  next
    case None
    then show ?thesis
      using fc sl lex_step_error [of l "?p + length c"]
      by (auto simp: operator_or_punct_def Let_def split: option.split dest!: map_of_SomeD
          intro!: lex_step_push op_spells)
  qed
qed

lemma lex_token_step:
  assumes "lx_peek_char l = Some c"
  shows "lex_step l (lex_token c l)"
proof -
  have one: "length c = 1 \<Longrightarrow> c = [hd c]" by (cases c) auto
  show ?thesis
    unfolding lex_token_def Let_def
    using assms one multiline_string_step lex_string_step number_step [of l "hd c"] backtick_step
      slash_step ident_step [of l "hd c"] operator_step
    by auto
qed

lemma lex_step_measure:
  "lex_step l l' \<Longrightarrow> length (lx_source l') - lx_pos l' < length (lx_source l) - lx_pos l"
  by (auto simp: lex_step_def)

lemma skip_trivia_simps [simp]:
  "lx_source (skip_trivia l) = lx_source l" "lx_opts (skip_trivia l) = lx_opts l"
  "lx_tokens (skip_trivia l) = lx_tokens l" "lx_errors (skip_trivia l) = lx_errors l"
  "lx_pos (skip_trivia l) = trivia_end (lx_source l) (lx_pos l)"
  by (simp_all add: skip_trivia_def)

text \<open>The loop of \<open>run\<close>: it ends because every token moves the position forward.\<close>

function run :: "lexer \<Rightarrow> lexer" where
  "run l =
     (let l1 = skip_trivia l in
      case lx_peek_char l1 of
        None \<Rightarrow> l1
      | Some c \<Rightarrow> run (lex_token c l1))"
  by pat_completeness auto
termination
proof (relation "measure (\<lambda>l. length (lx_source l) - lx_pos l)")
  fix l l1 c
  assume l1: "l1 = skip_trivia l" and c: "lx_peek_char l1 = Some c"
  have "length (lx_source (lex_token c l1)) - lx_pos (lex_token c l1)
      < length (lx_source l1) - lx_pos l1"
    by (rule lex_step_measure [OF lex_token_step [OF c]])
  also have "\<dots> \<le> length (lx_source l) - lx_pos l"
    using trivia_end_bounds [of "lx_pos l" "lx_source l"] by (simp add: l1 diff_le_mono2)
  finally show "(lex_token c l1, l) \<in> measure (\<lambda>l. length (lx_source l) - lx_pos l)" by simp
qed simp

declare run.simps [simp del]

definition lexer_new :: "string \<Rightarrow> lex_options \<Rightarrow> lexer" where
  "lexer_new src opts =
     \<lparr>lx_source = src, lx_pos = 0, lx_opts = opts, lx_tokens = [], lx_errors = []\<rparr>"

definition lex_with_options ::
  "string \<Rightarrow> lex_options \<Rightarrow> token spanned list \<times> parse_error list" where
  "lex_with_options src opts =
     (let l = run (lexer_new src opts) in (lx_tokens l, lx_errors l))"

definition lex :: "string \<Rightarrow> token spanned list \<times> parse_error list" where
  "lex src = lex_with_options src default_lex_options"

definition token_as_ident :: "token \<Rightarrow> string option" where
  "token_as_ident t =
     (case t of
        TIdent s \<Rightarrow> Some s
      | TBool b \<Rightarrow> None
      | _ \<Rightarrow> if (\<exists>(k, t') \<in> set keyword_table. t' = t) then Some (token_display t) else None)"

section \<open>What the lexer returns\<close>

text \<open>
  The invariant of the loop: the spans found so far are ordered, disjoint and inside the part
  already read, every token spells its slice, and every byte read is inside a token, inside
  an error, or trivia.
\<close>

definition in_span :: "nat \<Rightarrow> span \<Rightarrow> bool" where
  "in_span p sp \<longleftrightarrow> sp_start sp \<le> p \<and> p < sp_end sp"

definition accounted :: "string \<Rightarrow> token spanned list \<Rightarrow> parse_error list \<Rightarrow> nat \<Rightarrow> bool" where
  "accounted src toks errs p \<longleftrightarrow>
     (\<exists>t \<in> set toks. in_span p (snd t)) \<or> (\<exists>e \<in> set errs. in_span p (pe_span e)) \<or>
     (\<exists>a \<le> p. p < trivia_end src a)"

definition tokens_ok :: "bool \<Rightarrow> string \<Rightarrow> nat \<Rightarrow> token spanned list \<Rightarrow> bool" where
  "tokens_ok rx src n toks \<longleftrightarrow>
     sorted_wrt (\<lambda>a b. sp_end (snd a) \<le> sp_start (snd b)) toks \<and>
     (\<forall>(t, sp) \<in> set toks.
        sp_start sp < sp_end sp \<and> sp_end sp \<le> n \<and>
        spells rx t (slice src (sp_start sp) (sp_end sp)))"

definition errors_ok :: "nat \<Rightarrow> parse_error list \<Rightarrow> bool" where
  "errors_ok n errs \<longleftrightarrow>
     (\<forall>e \<in> set errs. sp_start (pe_span e) < sp_end (pe_span e) \<and> sp_end (pe_span e) \<le> n)"

definition lexer_inv :: "lexer \<Rightarrow> bool" where
  "lexer_inv l \<longleftrightarrow>
     lx_pos l \<le> length (lx_source l) \<and>
     tokens_ok (regex_literals (lx_opts l)) (lx_source l) (lx_pos l) (lx_tokens l) \<and>
     errors_ok (lx_pos l) (lx_errors l) \<and>
     (\<forall>p < lx_pos l. accounted (lx_source l) (lx_tokens l) (lx_errors l) p)"

lemma accounted_mono:
  "accounted src ts es p \<Longrightarrow> set ts \<subseteq> set ts' \<Longrightarrow> set es \<subseteq> set es' \<Longrightarrow> accounted src ts' es' p"
  by (auto simp: accounted_def)

lemma tokens_ok_mono: "tokens_ok rx src n ts \<Longrightarrow> n \<le> m \<Longrightarrow> tokens_ok rx src m ts"
  by (fastforce simp: tokens_ok_def)

lemma tokens_ok_snoc:
  assumes "tokens_ok rx src n ts" "n < m" "spells rx t (slice src n m)"
  shows "tokens_ok rx src m (ts @ [(t, mk_span n m)])"
  using assms by (fastforce simp: tokens_ok_def sorted_wrt_append)

lemma errors_ok_mono: "errors_ok n es \<Longrightarrow> n \<le> m \<Longrightarrow> errors_ok m es"
  by (fastforce simp: errors_ok_def)

lemma errors_ok_snoc: "errors_ok n es \<Longrightarrow> n < m \<Longrightarrow> errors_ok m (es @ [mk_error (mk_span n m) msg])"
  by (fastforce simp: errors_ok_def)

lemma lexer_inv_trivia: "lexer_inv l \<Longrightarrow> lexer_inv (skip_trivia l)"
proof -
  assume inv: "lexer_inv l"
  have b: "lx_pos l \<le> trivia_end (lx_source l) (lx_pos l)"
    using trivia_end_bounds [of "lx_pos l" "lx_source l"] by simp
  have "accounted (lx_source l) (lx_tokens l) (lx_errors l) p"
    if "p < trivia_end (lx_source l) (lx_pos l)" for p
    using inv that by (cases "p < lx_pos l") (auto simp: lexer_inv_def accounted_def not_less)
  then show ?thesis
    using inv b trivia_end_bounds [of "lx_pos l" "lx_source l"]
    by (auto simp: lexer_inv_def intro: tokens_ok_mono errors_ok_mono)
qed

lemma lexer_inv_step:
  assumes inv: "lexer_inv l" and st: "lex_step l l'"
  shows "lexer_inv l'"
proof -
  note st' = st [unfolded lex_step_def]
  have pos: "lx_pos l < lx_pos l'" "lx_source l' = lx_source l" "lx_opts l' = lx_opts l"
    "lx_pos l' \<le> length (lx_source l)" using st' by auto
  have grow: "set (lx_tokens l) \<subseteq> set (lx_tokens l')" "set (lx_errors l) \<subseteq> set (lx_errors l')"
    using st' by auto
  have old: "accounted (lx_source l) (lx_tokens l') (lx_errors l') p" if "p < lx_pos l" for p
    by (rule accounted_mono [OF _ grow]) (use inv that in \<open>simp add: lexer_inv_def\<close>)
  have new: "accounted (lx_source l) (lx_tokens l') (lx_errors l') p"
    if "lx_pos l \<le> p" "p < lx_pos l'" for p
    using st' that by (auto simp: accounted_def in_span_def)
  have acc: "accounted (lx_source l) (lx_tokens l') (lx_errors l') p" if "p < lx_pos l'" for p
    using old new that by (cases "p < lx_pos l") auto
  have "tokens_ok (regex_literals (lx_opts l)) (lx_source l) (lx_pos l') (lx_tokens l')"
    using inv st'
    by (auto simp: lexer_inv_def simp del: spells.simps intro: tokens_ok_snoc tokens_ok_mono)
  moreover have "errors_ok (lx_pos l') (lx_errors l')"
    using inv st' by (auto simp: lexer_inv_def intro: errors_ok_snoc errors_ok_mono)
  ultimately show ?thesis using pos acc by (simp add: lexer_inv_def)
qed

lemma run_inv: "lexer_inv l \<Longrightarrow> lexer_inv (run l)"
proof (induction l rule: run.induct)
  case (1 l)
  show ?case
    using "1.IH" [OF refl] lexer_inv_step lexer_inv_trivia [OF "1.prems"] lex_token_step
    by (subst run.simps) (auto simp: Let_def split: option.split)
qed

lemma run_frame: "lx_source (run l) = lx_source l \<and> lx_opts (run l) = lx_opts l"
proof (induction l rule: run.induct)
  case (1 l)
  then show ?case
    using lex_token_step [of "skip_trivia l"]
    by (subst (1 2) run.simps) (auto simp: Let_def lex_step_def split: option.split)
qed

lemma run_end: "lexer_inv l \<Longrightarrow> lx_pos (run l) = length (lx_source l)"
proof (induction l rule: run.induct)
  case (1 l)
  show ?case
  proof (cases "lx_peek_char (skip_trivia l)")
    case None
    then have "length (lx_source l) \<le> trivia_end (lx_source l) (lx_pos l)"
      by (simp add: peek_first_char)
    then show ?thesis using None lexer_inv_trivia [OF "1.prems"]
      by (subst run.simps) (simp add: Let_def lexer_inv_def)
  next
    case (Some c)
    from "1.IH" [OF refl Some] lexer_inv_step lexer_inv_trivia [OF "1.prems"] lex_token_step [OF Some]
    show ?thesis using Some by (subst run.simps) (auto simp: Let_def lex_step_def)
  qed
qed

lemma lexer_inv_new: "lexer_inv (lexer_new src opts)"
  by (simp add: lexer_inv_def lexer_new_def tokens_ok_def errors_ok_def)

lemma lexer_result:
  "case lex_with_options src opts of (toks, errs) \<Rightarrow>
     tokens_ok (regex_literals opts) src (length src) toks \<and> errors_ok (length src) errs \<and>
     list_all (accounted src toks errs) [0..<length src]"
proof -
  let ?l = "run (lexer_new src opts)"
  have "lx_source ?l = src" "lx_opts ?l = opts" "lx_pos ?l = length src"
    using run_frame [of "lexer_new src opts"] run_end [OF lexer_inv_new [of src opts]]
    by (simp_all add: lexer_new_def)
  then show ?thesis
    using run_inv [OF lexer_inv_new [of src opts]]
    by (simp add: lex_with_options_def Let_def lexer_inv_def list_all_iff)
qed

text \<open>C3: whatever the source and the options, the lexer stops and its result accounts for every byte of the
  source: token spans are non-empty, in order, disjoint and inside the source, every token
  spells exactly the slice under its span (so there is no regex token when regex literals are
  off), every error has a non-empty span inside the source, and a byte outside all of them is
  whitespace or comment.\<close>

theorem lex_sound:
  "case lex_with_options src opts of (toks, errs) \<Rightarrow>
     tokens_ok (regex_literals opts) src (length src) toks \<and> errors_ok (length src) errs \<and>
     list_all (accounted src toks errs) [0..<length src]"
  by (rule lexer_result)

lemma spells_int_nonneg: "spells rx (TInt n) s \<Longrightarrow> 0 \<le> sint n"
proof -
  assume sp: "spells rx (TInt n) s"
  show ?thesis
  proof (cases "parse_i64 s")
    case None
    then show ?thesis using sp by (simp add: i64_max_def)
  next
    case (Some m)
    then obtain k where "k < 2 ^ 63" "m = word_of_int (int k)"
      using sp by (cases s) (auto simp: parse_i64_def is_digit_def split: if_splits option.splits)
    then show ?thesis using sp Some sint_i64_of_nat [of k] by simp
  qed
qed

text \<open>An integer token of any lexed text is never negative as a signed 64-bit value, so
  negating it in the parser is always in range.\<close>

lemma lex_int_nonneg:
  "list_all (\<lambda>(t, sp). case t of TInt n \<Rightarrow> 0 \<le> sint n \<and> sint (- n) = - sint n | _ \<Rightarrow> True)
     (fst (lex_with_options src opts))"
proof -
  have "0 \<le> sint n \<and> sint (- n) = - sint n"
    if "(TInt n, sp) \<in> set (fst (lex_with_options src opts))" for n sp
  proof -
    have "spells (regex_literals opts) (TInt n) (slice src (sp_start sp) (sp_end sp))"
      using lexer_result [where src = src and opts = opts] that
      by (auto simp: tokens_ok_def split: prod.splits simp del: spells.simps)
    then show ?thesis using spells_int_nonneg sint_uminus_nonneg by blast
  qed
  then show ?thesis by (auto simp: list_all_iff split: token.split)
qed

end
