(* ===== verification/LexerPrint.thy ===== *)
theory LexerPrint
  imports Lexer
begin

text \<open>
  The lexer reads back what \<open>Display\<close> of its tokens prints: the lemmas on each scanner started
  at a printed token, and the round trip for a list of tokens.
\<close>

text \<open>Scanning depends only on the rest of the source.\<close>

lemma digits_end_takeWhile: "digits_end src p = p + length (takeWhile is_digit (drop p src))"
proof (induction src p rule: digits_end.induct)
  case (1 src p)
  show ?case
  proof (cases "p < length src")
    case True
    then show ?thesis using 1
      by (subst digits_end.simps) (auto simp flip: Cons_nth_drop_Suc)
  qed (subst digits_end.simps, simp)
qed

lemma ident_end_takeWhile:
  "ident_end src p =
     p + length (takeWhile (\<lambda>c. is_ascii_alphanumeric c \<or> c = CHR ''_'') (drop p src))"
proof (induction src p rule: ident_end.induct)
  case (1 src p)
  show ?case
  proof (cases "p < length src")
    case True
    then show ?thesis using 1
      by (subst ident_end.simps) (auto simp flip: Cons_nth_drop_Suc)
  qed (subst ident_end.simps, simp)
qed

lemma first_char_append:
  assumes "first_char (drop p s) = Some c" "p + length c < length s"
  shows "first_char (drop p (s @ t)) = Some c"
proof -
  obtain d ds where d: "drop p s = d # ds" using assms(1) by (cases "drop p s") auto
  then have "length ds = length s - p - 1" by (metis length_drop length_Cons diff_Suc_1 diff_diff_left)
  moreover have "p < length s" using assms(2) by simp
  ultimately show ?thesis using assms d by (auto simp: min_def split: if_splits)
qed

lemma string_scan_first: "string_scan s p = (q, True) \<Longrightarrow> \<exists>c. first_char (drop p s) = Some c"
  by (cases "first_char (drop p s)") (auto simp: string_scan.simps [of s p])

lemma regex_close_first: "regex_close s a p = Some q \<Longrightarrow> \<exists>c. first_char (drop p s) = Some c"
  by (cases "first_char (drop p s)") (auto simp: regex_close.simps [of s a p])

lemma string_scan_append:
  "string_scan s p = (q, True) \<Longrightarrow> string_scan (s @ t) p = (q, True)"
proof (induction s p rule: string_scan.induct)
  case (1 s p)
  obtain c where c: "first_char (drop p s) = Some c" using string_scan_first [OF "1.prems"] by blast
  show ?case
  proof (cases "c = [dquote]")
    case True
    then have "q = p" using "1.prems" c by (simp add: string_scan.simps [of s p])
    then have "first_char (drop p (s @ t)) = Some [dquote]"
      using c True by (cases "drop p s") (auto simp: utf8_len_def)
    then show ?thesis using True \<open>q = p\<close> by (simp add: string_scan.simps [of "s @ t" p])
  next
    case nq: False
    show ?thesis
    proof (cases "c = [backslash]")
      case bs: True
      show ?thesis
      proof (cases "first_char (drop (p + 1) s)")
        case None
        then have r: "string_scan s (p + 1) = (q, True)"
          using "1.prems" c bs by (simp add: string_scan.simps [of s p])
        with None string_scan_bounds [OF r] show ?thesis by simp
      next
        case e: (Some e)
        then have r: "string_scan s (p + 1 + length e) = (q, True)"
          using "1.prems" c bs by (simp add: string_scan.simps [of s p])
        have "first_char (drop p (s @ t)) = Some c" "first_char (drop (p + 1) (s @ t)) = Some e"
          using string_scan_bounds [OF r] first_char_append [OF c] first_char_append [OF e] bs by auto
        then show ?thesis using "1.IH"(2) [OF c nq bs e r] bs
          by (simp add: string_scan.simps [of "s @ t" p])
      qed
    next
      case nb: False
      then have r: "string_scan s (p + length c) = (q, True)"
        using "1.prems" c nq by (simp add: string_scan.simps [of s p])
      have "first_char (drop p (s @ t)) = Some c"
        using string_scan_bounds [OF r] first_char_append [OF c] by auto
      then show ?thesis using "1.IH"(3) [OF c nq nb r] nq nb
        by (simp add: string_scan.simps [of "s @ t" p])
    qed
  qed
qed

lemma string_scan_shift:
  "string_scan (pre @ s) (length pre + p) =
     (length pre + fst (string_scan s p), snd (string_scan s p))"
proof (induction s p rule: string_scan.induct)
  case (1 s p)
  note unf = string_scan.simps [of "pre @ s" "length pre + p"] string_scan.simps [of s p]
  show ?case
  proof (cases "first_char (drop p s)")
    case None
    then show ?thesis by (simp add: unf)
  next
    case c: (Some c)
    show ?thesis
    proof (cases "c = [backslash]")
      case True
      then show ?thesis using c "1.IH"(1,2) [OF c]
        by (cases "first_char (drop (Suc p) s)") (simp_all add: unf add.assoc)
    next
      case False
      then show ?thesis using c "1.IH"(3) [OF c] by (simp add: unf add.assoc)
    qed
  qed
qed

lemma regex_close_append:
  "regex_close s a p = Some q \<Longrightarrow> regex_close (s @ t) a p = Some q"
proof (induction s a p rule: regex_close.induct)
  case (1 s a p)
  obtain c where c: "first_char (drop p s) = Some c" using regex_close_first [OF "1.prems"] by blast
  show ?case
  proof (cases "c = ''/''")
    case True
    then have "first_char (drop p (s @ t)) = Some ''/''"
      using c True by (cases "drop p s") (auto simp: utf8_len_def)
    then show ?thesis using True "1.prems" c
      by (simp add: regex_close.simps [of "s @ t" a p] regex_close.simps [of s a p])
  next
    case False
    then have r: "regex_close s a (p + length c) = Some q" and w: "\<not> is_whitespace c"
      using "1.prems" c unfolding regex_close.simps [of s a p] by (auto split: if_splits)
    have "first_char (drop p (s @ t)) = Some c"
      using regex_close_bounds [OF r] first_char_append [OF c] by auto
    then show ?thesis using "1.IH" [OF c False w r] False w
      by (simp add: regex_close.simps [of "s @ t" a p])
  qed
qed

lemma regex_close_shift:
  "regex_close (pre @ s) (length pre + a) (length pre + p) =
     map_option (\<lambda>q. length pre + q) (regex_close s a p)"
proof (induction s a p rule: regex_close.induct)
  case (1 s a p)
  note unf = regex_close.simps [of "pre @ s" "length pre + a" "length pre + p"]
    regex_close.simps [of s a p]
  show ?case
  proof (cases "first_char (drop p s)")
    case None
    then show ?thesis by (simp add: unf)
  next
    case c: (Some c)
    then show ?thesis using "1.IH" [OF c] by (simp add: unf add.assoc)
  qed
qed

lemma starts_with_take: "starts_with s p \<longleftrightarrow> take (length p) s = p"
  by (auto simp: starts_with_iff) (metis append_take_drop_id)

lemma find_sub_append: "find_sub p s = Some n \<Longrightarrow> find_sub p (s @ t) = Some n"
proof (induction p s arbitrary: n rule: find_sub.induct)
  case (1 p)
  then show ?case by (cases t) (auto split: if_splits)
next
  case (2 p c s)
  show ?case
  proof (cases "starts_with (c # s) p")
    case True
    then obtain u where "c # s = p @ u" by (auto simp: starts_with_iff)
    then have "c # s @ t = p @ (u @ t)" by (metis append_Cons append_assoc)
    then have "starts_with (c # s @ t) p" unfolding starts_with_iff by blast
    then show ?thesis using True 2 by simp
  next
    case False
    then obtain m where m: "find_sub p s = Some m" "n = Suc m" using 2 by auto
    then have "\<not> starts_with (c # s @ t) p"
    proof -
      have "length p \<le> length s" using find_sub_Some [OF m(1)] by linarith
      then have "take (length p) (c # s @ t) = take (length p) (c # s)" by (cases p) auto
      then show ?thesis using False by (simp add: starts_with_take)
    qed
    then show ?thesis using m "2.IH" [OF False m(1)] by simp
  qed
qed


text \<open>
  The tokens whose display the lexer reads back, for a setting of regex literals: no sign
  (\<open>-1\<close> is two tokens), and bodies that do not end their own literal early.
\<close>

fun printable :: "bool \<Rightarrow> token \<Rightarrow> bool" where
  "printable rx (TInt n) = (0 \<le> sint n)"
| "printable rx (TFloat x) = False"
| "printable rx (TString s) = (string_scan (s @ [dquote]) 0 = (length s, True))"
| "printable rx (TMultilineString s) = (find_sub tripleq (s @ tripleq) = Some (length s))"
| "printable rx (TRegex s) =
     (rx \<and> regex_close (''/'' @ s @ ''/'') 0 1 = Some (Suc (length s)))"
| "printable rx (TIdent s) =
     (s \<noteq> [] \<and> (is_ascii_alphabetic (hd s) \<or> hd s = CHR ''_'') \<and>
      (\<forall>c \<in> set s. is_ascii_alphanumeric c \<or> c = CHR ''_'') \<and> map_of keyword_table s = None)"
| "printable rx t = True"

text \<open>A lexer whose rest is the display of \<open>t\<close>, a space and \<open>post\<close>.\<close>

definition at_display :: "lexer \<Rightarrow> token \<Rightarrow> string \<Rightarrow> bool" where
  "at_display l t post \<longleftrightarrow>
     (\<exists>pre. lx_source l = pre @ token_display t @ '' '' @ post \<and> lx_pos l = length pre)"

definition after_display :: "lexer \<Rightarrow> token \<Rightarrow> lexer" where
  "after_display l t =
     l\<lparr>lx_pos := lx_pos l + length (token_display t),
       lx_tokens := lx_tokens l @ [(t, mk_span (lx_pos l) (lx_pos l + length (token_display t)))]\<rparr>"

lemma at_display_rest: "at_display l t post \<Longrightarrow> lx_rest l = token_display t @ '' '' @ post"
  by (auto simp: at_display_def lx_rest_def)

lemma push_after_display:
  "a = lx_pos l \<Longrightarrow> p = a + length (token_display t) \<Longrightarrow>
     lx_push t a (l\<lparr>lx_pos := p\<rparr>) = after_display l t"
  by (simp add: lx_push_def after_display_def)

lemma slice_pre: "slice (pre @ s @ t) (length pre) (length pre + length s) = s"
  by (simp add: slice_def)

lemma lex_int:
  assumes "at_display l (TInt n) post" "0 \<le> sint n" "lx_peek_char l = Some c"
  shows "lex_token c l = after_display l (TInt n)"
proof -
  obtain pre where src: "lx_source l = pre @ i64_string n @ '' '' @ post" "lx_pos l = length pre"
    using assms(1) by (auto simp: at_display_def)
  define s where "s = nat_string (nat (sint n))"
  have s: "i64_string n = s" using assms(2) by (simp add: i64_string_def int_string_def s_def)
  have dig: "\<forall>c \<in> set s. is_digit c" "s \<noteq> []" by (simp_all add: s_def nat_string_digits)
  have de: "digits_end (lx_source l) (lx_pos l) = lx_pos l + length s"
    using dig by (simp add: digits_end_takeWhile src s takeWhile_append2 is_digit_def)
  have lt: "nat (sint n) < 2 ^ 63" using sint_lt [of n] assms(2) by (simp add: nat_less_iff)
  obtain d ds where d: "s = d # ds" using dig(2) by (cases s) auto
  have "is_digit d" using dig d by simp
  then have dq: "(of_char d :: nat) < 128" and nd: "d \<noteq> dquote" "d \<noteq> CHR ''-''" "d \<noteq> CHR ''+''"
    by (auto simp: is_digit_def)
  have "parse_nat s = Some (nat (sint n))" by (simp add: s_def)
  then have "parse_i64 s = Some n"
    using lt nd assms(2) by (simp add: parse_i64_def d)
  then have num: "number (lx_pos l) l = after_display l (TInt n)"
    using de s src slice_pre [of pre s "'' '' @ post"]
    by (simp add: number_def Let_def push_after_display nth_append)
  from dq have "c = [d]"
    using assms(3) by (simp add: peek_first_char src s d first_char_ascii del: first_char.simps)
  then show ?thesis using num \<open>is_digit d\<close> nd by (simp add: lex_token_def)
qed

lemma lex_word:
  assumes "at_display l t post" "word_token (token_display t) = t"
    and "token_display t = d # ds" "is_ascii_alphabetic d \<or> d = CHR ''_''"
    and "\<forall>c \<in> set (token_display t). is_ascii_alphanumeric c \<or> c = CHR ''_''"
    and "lx_peek_char l = Some c"
  shows "lex_token c l = after_display l t"
proof -
  obtain pre where src: "lx_source l = pre @ token_display t @ '' '' @ post" "lx_pos l = length pre"
    using assms(1) by (auto simp: at_display_def)
  have sp: "\<not> is_ascii_alphanumeric (CHR '' '')"
    by (simp add: is_ascii_alphanumeric_def is_ascii_alphabetic_def is_digit_def)
  have ie: "ident_end (lx_source l) (lx_pos l) = lx_pos l + length (token_display t)"
    using assms(5) sp by (simp add: ident_end_takeWhile src takeWhile_append2)
  have iw: "ident_or_keyword (lx_pos l) l = after_display l t"
    using ie assms(2) src slice_pre [of pre "token_display t" "'' '' @ post"]
    by (simp add: ident_or_keyword_def Let_def push_after_display)
  have d: "(of_char d :: nat) < 128" "d \<noteq> dquote" "\<not> is_digit d" "d \<noteq> CHR ''`''" "d \<noteq> CHR ''/''"
    using assms(4) by (auto simp: is_ascii_alphabetic_def is_digit_def)
  then have "c = [d]"
    using assms(6) by (simp add: peek_first_char src assms(3) first_char_ascii del: first_char.simps)
  then show ?thesis using iw d assms(4) by (simp add: lex_token_def)
qed

lemma lex_string_lit:
  assumes "at_display l (TString s) post" "printable rx (TString s)" "lx_peek_char l = Some c"
  shows "lex_token c l = after_display l (TString s)"
proof -
  obtain pre where src: "lx_source l = pre @ ([dquote] @ s @ [dquote]) @ '' '' @ post"
    "lx_pos l = length pre"
    using assms(1) by (auto simp: at_display_def)
  have eq: "lx_source l = (pre @ [dquote]) @ ((s @ [dquote]) @ '' '' @ post)" by (simp add: src)
  have "string_scan ((s @ [dquote]) @ '' '' @ post) 0 = (length s, True)"
    using assms(2) by (simp only: printable.simps string_scan_append)
  then have sc: "string_scan (lx_source l) (lx_pos l + 1) = (lx_pos l + 1 + length s, True)"
    using string_scan_shift [of "pre @ [dquote]" "(s @ [dquote]) @ '' '' @ post" 0]
    by (simp add: eq src(2) del: append_assoc)
  have sl: "slice (lx_source l) (lx_pos l + 1) (lx_pos l + 1 + length s) = s"
    using slice_pre [of "pre @ [dquote]" s "[dquote] @ '' '' @ post"] by (simp add: src)
  have ls: "lex_string (lx_pos l) l = after_display l (TString s)"
    using sc sl by (simp add: lex_string_def push_after_display)
  have nt: "\<not> starts_with (lx_rest l) tripleq"
  proof
    assume "starts_with (lx_rest l) tripleq"
    then have "starts_with (s @ [dquote] @ '' '' @ post) [dquote, dquote]"
      by (simp add: lx_rest_def src)
    then obtain u where "s = dquote # u" by (cases s) auto
    then show False using assms(2) by (simp add: string_scan.simps utf8_len_def)
  qed
  have "c = [dquote]"
    using assms(3) by (simp add: peek_first_char src utf8_len_def)
  then show ?thesis using ls nt by (simp add: lex_token_def)
qed

lemma lex_multiline:
  assumes "at_display l (TMultilineString s) post" "printable rx (TMultilineString s)"
    "lx_peek_char l = Some c"
  shows "lex_token c l = after_display l (TMultilineString s)"
proof -
  obtain pre where src: "lx_source l = pre @ (tripleq @ s @ tripleq) @ '' '' @ post"
    "lx_pos l = length pre"
    using assms(1) by (auto simp: at_display_def)
  have "find_sub tripleq ((s @ tripleq) @ '' '' @ post) = Some (length s)"
    using assms(2) by (simp only: printable.simps find_sub_append)
  then have fs: "find_sub tripleq (drop (lx_pos l + 3) (lx_source l)) = Some (length s)"
    by (simp add: src)
  have sl: "slice (lx_source l) (lx_pos l + 3) (lx_pos l + 3 + length s) = s"
    using slice_pre [of "pre @ tripleq" s "tripleq @ '' '' @ post"]
    by (simp add: src numeral_3_eq_3)
  have ls: "multiline_string (lx_pos l) l = after_display l (TMultilineString s)"
    using fs sl by (simp add: multiline_string_def Let_def push_after_display)
  have "c = [dquote]"
    using assms(3) by (simp add: peek_first_char src utf8_len_def)
  then show ?thesis using ls by (simp add: lex_token_def lx_rest_def src)
qed

lemma lex_regex_lit:
  assumes "at_display l (TRegex s) post" "printable rx (TRegex s)" "rx = regex_literals (lx_opts l)"
    "lx_peek_char l = Some c"
  shows "lex_token c l = after_display l (TRegex s)"
proof -
  obtain pre where src: "lx_source l = pre @ (''/'' @ s @ ''/'') @ '' '' @ post"
    "lx_pos l = length pre"
    using assms(1) by (auto simp: at_display_def)
  have "regex_close ((''/'' @ s @ ''/'') @ '' '' @ post) 0 1 = Some (Suc (length s))"
    using assms(2) by (simp only: printable.simps regex_close_append)
  then have rc: "regex_close (lx_source l) (lx_pos l) (lx_pos l + 1) = Some (lx_pos l + 1 + length s)"
    using regex_close_shift [of pre "(''/'' @ s @ ''/'') @ '' '' @ post" 0 1]
    by (simp add: src del: append_assoc)
  have sl: "slice (lx_source l) (lx_pos l + 1) (lx_pos l + 1 + length s) = s"
    using slice_pre [of "pre @ ''/''" s "''/'' @ '' '' @ post"] by (simp add: src)
  have ls: "slash_or_regex (lx_pos l) l = after_display l (TRegex s)"
    using rc sl assms(2,3) by (simp add: slash_or_regex_def push_after_display)
  have "c = ''/''"
    using assms(4) by (simp add: peek_first_char src utf8_len_def)
  then show ?thesis using ls by (simp add: lex_token_def is_digit_def)
qed

definition op_tokens :: "token list" where
  "op_tokens = map snd multi_ops @ map snd single_ops"

lemma find_multi:
  "list_all (\<lambda>(pat, tok). token_display tok = pat) (multi_ops @ single_ops)"
  "list_all (\<lambda>(pat, tok). \<forall>post. List.find (\<lambda>(p, _). starts_with (pat @ '' '' @ post) p) multi_ops = Some (pat, tok)) multi_ops"
  "list_all (\<lambda>(pat, tok). \<forall>post. List.find (\<lambda>(p, _). starts_with (pat @ '' '' @ post) p) multi_ops = None) single_ops"
  "list_all (\<lambda>(pat, tok). map_of single_ops pat = Some tok \<and> length pat = 1) single_ops"
  by (simp_all add: multi_ops_def single_ops_def)

lemma op_first:
  "list_all (\<lambda>(pat, tok). pat \<noteq> [] \<and> (of_char (hd pat) :: nat) < 128 \<and> hd pat \<noteq> dquote \<and>
      \<not> is_digit (hd pat) \<and> hd pat \<noteq> CHR ''`'' \<and> hd pat \<noteq> CHR ''/'' \<and>
      \<not> is_ascii_alphabetic (hd pat) \<and> hd pat \<noteq> CHR ''_'') (multi_ops @ single_ops)"
  by code_simp

lemma lex_op:
  assumes "at_display l t post" "t \<in> set op_tokens" "lx_peek_char l = Some c"
  shows "lex_token c l = after_display l t"
proof -
  have "t \<in> snd ` (set multi_ops \<union> set single_ops)"
    using assms(2) by (simp add: op_tokens_def image_Un)
  then obtain pt where p: "pt \<in> set multi_ops \<union> set single_ops" "t = snd pt" by blast
  define pat where "pat = fst pt"
  have pt: "(pat, t) \<in> set multi_ops \<or> (pat, t) \<in> set single_ops"
    using p by (cases pt) (auto simp: pat_def)
  have pd: "token_display t = pat" using pt find_multi(1) by (auto simp: list_all_iff)
  have r: "lx_rest l = pat @ '' '' @ post" using at_display_rest [OF assms(1)] pd by simp
  have h: "pat \<noteq> []" "(of_char (hd pat) :: nat) < 128" "hd pat \<noteq> dquote"
      "\<not> is_digit (hd pat)" "hd pat \<noteq> CHR ''`''" "hd pat \<noteq> CHR ''/''"
      "\<not> is_ascii_alphabetic (hd pat)" "hd pat \<noteq> CHR ''_''"
    using pt op_first by (auto simp: list_all_iff)
  have c: "c = [hd pat]"
    using assms(3) r h(1,2) by (cases pat) (auto simp: lx_peek_char_def first_char_ascii simp del: first_char.simps)
  have "operator_or_punct (lx_pos l) c l = after_display l t"
    using pt
  proof
    assume m: "(pat, t) \<in> set multi_ops"
    then have "List.find (\<lambda>(p, _). starts_with (pat @ '' '' @ post) p) multi_ops = Some (pat, t)"
      using find_multi(2) by (auto simp: list_all_iff)
    then show ?thesis using pd r by (simp add: operator_or_punct_def push_after_display)
  next
    assume m: "(pat, t) \<in> set single_ops"
    then have "List.find (\<lambda>(p, _). starts_with (pat @ '' '' @ post) p) multi_ops = None"
      "map_of single_ops pat = Some t" "length pat = 1"
      using find_multi(3,4) by (auto simp: list_all_iff)
    moreover from this(3) have "c = pat" using c by (cases pat) auto
    ultimately show ?thesis using pd r by (simp add: operator_or_punct_def push_after_display)
  qed
  then show ?thesis using c h by (simp add: lex_token_def)
qed

definition word_tokens :: "token list" where
  "word_tokens = map snd keyword_table"

lemma token_cases:
  "t \<in> set word_tokens \<or> t \<in> set op_tokens \<or> t = TSlash \<or> (\<exists>n. t = TInt n) \<or> (\<exists>x. t = TFloat x) \<or>
   (\<exists>s. t = TString s \<or> t = TMultilineString s \<or> t = TRegex s \<or> t = TIdent s)"
  by (cases t) (auto simp: word_tokens_def op_tokens_def keyword_table_def multi_ops_def single_ops_def)

lemma word_displays:
  "list_all (\<lambda>t. word_token (token_display t) = t \<and> token_display t \<noteq> [] \<and>
     is_ascii_alphabetic (hd (token_display t)) \<and>
     list_all (\<lambda>c. is_ascii_alphanumeric c \<or> c = CHR ''_'') (token_display t)) word_tokens"
  by code_simp

lemma lex_slash:
  assumes "at_display l TSlash post" "lx_peek_char l = Some c"
  shows "lex_token c l = after_display l TSlash"
proof -
  obtain pre where src: "lx_source l = pre @ ''/'' @ '' '' @ post" "lx_pos l = length pre"
    using assms(1) by (auto simp: at_display_def)
  have rc: "regex_close (lx_source l) (lx_pos l) (lx_pos l + 1) = None"
    by (subst regex_close.simps) (simp add: src utf8_len_def is_whitespace_def)
  have "c = ''/''"
    using assms(2) by (simp add: peek_first_char src utf8_len_def)
  then show ?thesis using rc
    by (auto simp add: Let_def lex_token_def slash_or_regex_def push_after_display is_digit_def)
qed

lemma lex_printable:
  assumes "at_display l t post" "printable (regex_literals (lx_opts l)) t" "lx_peek_char l = Some c"
  shows "lex_token c l = after_display l t"
proof -
  have word: ?thesis if w: "word_token (token_display t) = t" "token_display t \<noteq> []"
      "is_ascii_alphabetic (hd (token_display t)) \<or> hd (token_display t) = CHR ''_''"
      "\<forall>c \<in> set (token_display t). is_ascii_alphanumeric c \<or> c = CHR ''_''"
    using lex_word [OF assms(1) w(1) _ _ w(4) assms(3)] w(2,3)
    by (cases "token_display t") auto
  consider "t \<in> set word_tokens" | "t \<in> set op_tokens" | "t = TSlash" | n where "t = TInt n"
    | s where "t = TString s" | s where "t = TMultilineString s" | s where "t = TRegex s"
    | s where "t = TIdent s"
    using token_cases [of t] assms(2) by auto
  then show ?thesis
  proof cases
    case 1
    then show ?thesis using word word_displays by (auto simp: list_all_iff)
  next
    case 2
    then show ?thesis using lex_op assms by blast
  next
    case 3
    then show ?thesis using lex_slash assms by blast
  next
    case 4
    then show ?thesis using lex_int assms by simp
  next
    case 5
    then show ?thesis using lex_string_lit [of l _ post "regex_literals (lx_opts l)"] assms by simp
  next
    case 6
    then show ?thesis using lex_multiline [of l _ post "regex_literals (lx_opts l)"] assms by simp
  next
    case 7
    then show ?thesis using lex_regex_lit [of l _ post "regex_literals (lx_opts l)"] assms by simp
  next
    case 8
    then show ?thesis using word assms(2) by (simp add: word_token_def)
  qed
qed

text \<open>A display starts with a character that is not trivia.\<close>

definition no_trivia :: "string \<Rightarrow> bool" where
  "no_trivia s \<longleftrightarrow>
     (s = [] \<or> (\<exists>c. first_char s = Some c \<and> \<not> is_whitespace c \<and> \<not> starts_with s ''//''))"

lemma trivia_end_none: "no_trivia (drop p src) \<Longrightarrow> trivia_end src p = p"
proof -
  assume n: "no_trivia (drop p src)"
  then have w: "ws_end src p = p" by (subst ws_end.simps) (auto simp: no_trivia_def)
  moreover have "comment_end src p = None" using n by (auto simp: no_trivia_def comment_end_def)
  ultimately show ?thesis by (subst trivia_end.simps) simp
qed

lemma trivia_end_space:
  assumes "drop p src = CHR '' '' # s" "no_trivia s"
  shows "trivia_end src p = Suc p"
proof -
  have d: "drop (Suc p) src = s" using assms(1) by (metis drop_Suc list.sel(3) tl_drop)
  have w1: "ws_end src (Suc p) = Suc p" using assms(2) by (subst ws_end.simps) (auto simp: no_trivia_def d)
  have w: "ws_end src p = Suc p"
    using w1 by (subst ws_end.simps) (simp add: assms(1) utf8_len_def is_whitespace_def)
  have "comment_end src (Suc p) = None" using assms(2) by (auto simp: no_trivia_def comment_end_def d)
  then show ?thesis using w trivia_end_none [of "Suc p" src] assms(2) d
    by (subst trivia_end.simps) simp
qed

lemma no_trivia_ascii:
  "(of_char c :: nat) < 128 \<Longrightarrow> \<not> is_ascii_space c \<Longrightarrow> c \<noteq> CHR ''/'' \<Longrightarrow> no_trivia (c # s)"
  by (auto simp: no_trivia_def first_char_ascii is_whitespace_def is_ascii_space_def simp del: first_char.simps)

lemma simple_displays:
  "list_all (\<lambda>t. token_display t \<noteq> [] \<and> (of_char (hd (token_display t)) :: nat) < 128 \<and>
     \<not> is_ascii_space (hd (token_display t)) \<and> hd (token_display t) \<noteq> CHR ''/'') (word_tokens @ op_tokens)"
  by code_simp

lemma no_trivia_display:
  assumes "printable rx t"
  shows "no_trivia (token_display t @ '' '' @ post)"
proof -
  have start: "no_trivia (token_display t @ '' '' @ post)"
    if "token_display t \<noteq> []" "(of_char (hd (token_display t)) :: nat) < 128"
      "\<not> is_ascii_space (hd (token_display t))" "hd (token_display t) \<noteq> CHR ''/''"
    using that no_trivia_ascii by (cases "token_display t") auto
  consider "t \<in> set (word_tokens @ op_tokens)" | "t = TSlash" | n where "t = TInt n"
    | s where "t = TString s \<or> t = TMultilineString s" | s where "t = TRegex s" | s where "t = TIdent s"
    using token_cases [of t] assms by auto
  then show ?thesis
  proof cases
    case 1
    then show ?thesis using start simple_displays by (auto simp: list_all_iff)
  next
    case 2
    then show ?thesis by (auto simp: no_trivia_def utf8_len_def is_whitespace_def)
  next
    case (3 n)
    have "is_digit (hd (nat_string (nat (sint n))))"
      using nat_string_digits hd_in_set nat_string_not_Nil by blast
    moreover have d: "token_display t = nat_string (nat (sint n))"
      using 3 assms by (simp add: i64_string_def int_string_def)
    ultimately show ?thesis
      by (intro start) (auto simp: d is_digit_def is_ascii_space_def)
  next
    case (4 s)
    then show ?thesis by (auto simp: no_trivia_def utf8_len_def is_whitespace_def)
  next
    case (5 s)
    then have "regex_close (''/'' @ s @ ''/'') 0 1 \<noteq> None" using assms by simp
    then have "\<not> starts_with (s @ ''/'') ''/''"
      by (subst (asm) regex_close.simps, cases s) (auto simp: utf8_len_def split: if_splits)
    then have "\<not> starts_with (s @ ''/ '' @ post) ''/''" by (cases s) auto
    then show ?thesis using 5
      by (auto simp: no_trivia_def utf8_len_def is_whitespace_def)
  next
    case (6 s)
    then show ?thesis using assms
      by (intro start) (auto simp: is_ascii_alphabetic_def is_ascii_space_def)
  qed
qed

definition print_tokens :: "token list \<Rightarrow> string" where
  "print_tokens ts = concat (map (\<lambda>t. token_display t @ '' '') ts)"

lemma run_print_tokens:
  assumes "\<forall>t \<in> set ts. printable (regex_literals (lx_opts l)) t"
    and "lx_source l = pre @ sp @ print_tokens ts" "sp = [] \<or> sp = '' ''" "lx_pos l = length pre"
  shows "map fst (lx_tokens (run l)) = map fst (lx_tokens l) @ ts \<and> lx_errors (run l) = lx_errors l"
  using assms
proof (induction ts arbitrary: l pre sp)
  case Nil
  have "no_trivia ''''" by (simp add: no_trivia_def)
  then have "trivia_end (lx_source l) (lx_pos l) = length (lx_source l)"
    using Nil trivia_end_none [of "lx_pos l"] trivia_end_space [of "lx_pos l" "lx_source l" "[]"]
    by (auto simp: print_tokens_def)
  then show ?case by (subst (1 2) run.simps) (simp add: peek_first_char)
next
  case (Cons t ts)
  let ?post = "print_tokens ts"
  have pt: "printable (regex_literals (lx_opts l)) t" using Cons.prems(1) by simp
  have src: "lx_source l = (pre @ sp) @ token_display t @ '' '' @ ?post"
    using Cons.prems(2) by (simp add: print_tokens_def)
  have te: "trivia_end (lx_source l) (lx_pos l) = length (pre @ sp)"
    using no_trivia_display [OF pt, of ?post] Cons.prems(3,4)
      trivia_end_none [of "lx_pos l" "lx_source l"]
      trivia_end_space [of "lx_pos l" "lx_source l" "token_display t @ '' '' @ ?post"]
    by (auto simp: src)
  let ?l1 = "skip_trivia l"
  have ad: "at_display ?l1 t ?post"
    unfolding at_display_def using src te by (intro exI [of _ "pre @ sp"]) simp
  obtain c where c: "lx_peek_char ?l1 = Some c"
    using at_display_rest [OF ad] by (cases "lx_peek_char ?l1") (auto simp: lx_peek_char_def)
  have lt: "lex_token c ?l1 = after_display ?l1 t"
    using lex_printable [OF ad _ c] pt by simp
  have r: "run l = run (after_display ?l1 t)"
    by (subst run.simps) (simp add: Let_def c lt)
  have "map fst (lx_tokens (run (after_display ?l1 t))) = map fst (lx_tokens (after_display ?l1 t)) @ ts \<and>
      lx_errors (run (after_display ?l1 t)) = lx_errors (after_display ?l1 t)"
  proof (rule Cons.IH)
    show "lx_source (after_display ?l1 t) = (pre @ sp @ token_display t) @ '' '' @ ?post"
      using src by (simp add: after_display_def)
  qed (use Cons.prems te in \<open>simp_all add: after_display_def\<close>)
  then show ?case by (simp add: r) (simp add: after_display_def)
qed

text \<open>C2: printing a list of tokens, each followed by a space, and lexing the text gives
  back exactly those tokens and no error, for every token whose display is a literal of the
  language (no negative or floating-point number, bodies that do not close their own literal).\<close>

theorem lex_print_tokens:
  assumes "\<forall>t \<in> set ts. printable (regex_literals opts) t"
  shows "case lex_with_options (print_tokens ts) opts of (toks, errs) \<Rightarrow>
     map fst toks = ts \<and> errs = []"
  using run_print_tokens [of ts "lexer_new (print_tokens ts) opts" "[]" "[]"] assms
  by (simp add: lex_with_options_def Let_def lexer_new_def)

definition sample_tokens :: "token list" where
  "sample_tokens =
     [TVar, TIdent ''rate'', TColon, TTypeInt, TAssign, TInt 10, TSlash, TInt 3, TGtEq,
      TString [CHR ''a'', backslash, dquote], TMultilineString ''x y'', TRegex ''^b.*$'', TBool True]"

theorem lex_print_tokens_witness:
  "case lex_with_options (print_tokens sample_tokens) default_lex_options of (toks, errs) \<Rightarrow>
     map fst toks = sample_tokens \<and> errs = []"
proof (rule lex_print_tokens)
  show "\<forall>t \<in> set sample_tokens. printable (regex_literals default_lex_options) t" by code_simp
qed

end
