(* ===== verification/Cursor.thy ===== *)
theory Cursor
  imports Lexer
begin

text \<open>
  The parser's state and its cursor primitives (\<open>crates/parser/src/parser.rs\<close>, the struct
  \<open>Parser\<close> and the methods before \<open>program\<close>).  A method \<open>fn f(&mut self) -> Result<T, _>\<close> is a
  function from the state to an outcome and the new state; the state is returned on errors
  too, because recovery continues from where a failed statement stopped.

  Loops and the expression recursion take fuel, and \<open>NoFuel\<close> is the outcome of a body that was
  not given enough.  The judgement \<open>safe m p\<close> says that \<open>m\<close>, started in \<open>p\<close>, returns, leaves the
  token stream alone, moves the cursor forward only and within the stream, and only appends
  errors.  Every method is proved safe, so \<open>NoFuel\<close> never occurs.
\<close>

section \<open>Outcomes and the parser state\<close>

datatype ('e, 'a) outcome = Done 'a | Fail 'e | NoFuel

record parser =
  ps_tokens :: "token spanned list"
  ps_pos :: nat
  ps_eoi :: span
  ps_errors :: "parse_error list"
  ps_interp :: bool

definition parser_new :: "token spanned list \<Rightarrow> span \<Rightarrow> parser" where
  "parser_new toks eoi =
     \<lparr>ps_tokens = toks, ps_pos = 0, ps_eoi = eoi, ps_errors = [], ps_interp = False\<rparr>"

type_synonym 'a pm = "parser \<Rightarrow> (parse_error, 'a) outcome \<times> parser"

definition pret :: "'a \<Rightarrow> 'a pm" where "pret x p = (Done x, p)"
definition pfail :: "parse_error \<Rightarrow> 'a pm" where "pfail e p = (Fail e, p)"
definition pfuel :: "'a pm" where "pfuel p = (NoFuel, p)"
definition pget :: "(parser \<Rightarrow> 'a) \<Rightarrow> 'a pm" where "pget f p = (Done (f p), p)"

definition pbind :: "'a pm \<Rightarrow> ('a \<Rightarrow> 'b pm) \<Rightarrow> 'b pm" where
  "pbind m f p =
     (case m p of
        (Done x, p') \<Rightarrow> f x p'
      | (Fail e, p') \<Rightarrow> (Fail e, p')
      | (NoFuel, p') \<Rightarrow> (NoFuel, p'))"

text \<open>
  A loop whose body returns \<open>Inl\<close> to go round again and \<open>Inr\<close> to leave.  Its fuel is one more
  than the number of tokens that are left.
\<close>

fun ploop_fuel :: "nat \<Rightarrow> ('a \<Rightarrow> ('a + 'b) pm) \<Rightarrow> 'a \<Rightarrow> 'b pm" where
  "ploop_fuel 0 step a = pfuel"
| "ploop_fuel (Suc n) step a =
     pbind (step a) (\<lambda>r. case r of Inl a' \<Rightarrow> ploop_fuel n step a' | Inr b \<Rightarrow> pret b)"

definition remaining :: "parser \<Rightarrow> nat" where
  "remaining p = length (ps_tokens p) - ps_pos p"

definition ploop :: "('a \<Rightarrow> ('a + 'b) pm) \<Rightarrow> 'a \<Rightarrow> 'b pm" where
  "ploop step a p = ploop_fuel (Suc (remaining p)) step a p"

section \<open>Cursor primitives\<close>

definition at_end :: "parser \<Rightarrow> bool" where
  "at_end p \<longleftrightarrow> length (ps_tokens p) \<le> ps_pos p"

definition tok_at :: "parser \<Rightarrow> nat \<Rightarrow> token option" where
  "tok_at p i = (if i < length (ps_tokens p) then Some (fst (ps_tokens p ! i)) else None)"

definition peek :: "parser \<Rightarrow> token option" where
  "peek p = tok_at p (ps_pos p)"

definition peek2 :: "parser \<Rightarrow> token option" where
  "peek2 p = tok_at p (ps_pos p + 1)"

definition cur_span :: "parser \<Rightarrow> span" where
  "cur_span p =
     (if ps_pos p < length (ps_tokens p) then snd (ps_tokens p ! ps_pos p) else ps_eoi p)"

definition prev_end :: "parser \<Rightarrow> nat" where
  "prev_end p =
     (if ps_pos p = 0 then sp_start (cur_span p)
      else sp_end (snd (ps_tokens p ! (ps_pos p - 1))))"

definition padvance :: "nat \<Rightarrow> unit pm" where
  "padvance n p = (Done (), p\<lparr>ps_pos := ps_pos p + n\<rparr>)"

definition bump :: "parser \<Rightarrow> parser" where
  "bump p = (if peek p = None then p else p\<lparr>ps_pos := ps_pos p + 1\<rparr>)"

definition eat :: "token \<Rightarrow> bool pm" where
  "eat t p =
     (if peek p = Some t then (Done True, p\<lparr>ps_pos := ps_pos p + 1\<rparr>) else (Done False, p))"

definition quoted :: "string \<Rightarrow> string" where
  "quoted s = [squote] @ s @ [squote]"

definition found :: "parser \<Rightarrow> string" where
  "found p =
     (case peek p of
        Some t \<Rightarrow> quoted (token_display t)
      | None \<Rightarrow> ''end of input'')"

definition err_here :: "string \<Rightarrow> parser \<Rightarrow> parse_error" where
  "err_here expected p =
     mk_error (cur_span p) (''found '' @ found p @ '', expected '' @ expected)"

definition perr_here :: "string \<Rightarrow> 'a pm" where
  "perr_here expected p = pfail (err_here expected p) p"

definition expect :: "token \<Rightarrow> string \<Rightarrow> span pm" where
  "expect t expected p =
     (if peek p = Some t then (Done (cur_span p), p\<lparr>ps_pos := ps_pos p + 1\<rparr>)
      else perr_here expected p)"

text \<open>The payload of a token that carries one.\<close>

definition as_ident :: "token \<Rightarrow> string option" where
  "as_ident t = (case t of TIdent s \<Rightarrow> Some s | _ \<Rightarrow> None)"
definition as_string :: "token \<Rightarrow> string option" where
  "as_string t = (case t of TString s \<Rightarrow> Some s | _ \<Rightarrow> None)"
definition as_multiline :: "token \<Rightarrow> string option" where
  "as_multiline t = (case t of TMultilineString s \<Rightarrow> Some s | _ \<Rightarrow> None)"
definition as_regex :: "token \<Rightarrow> string option" where
  "as_regex t = (case t of TRegex s \<Rightarrow> Some s | _ \<Rightarrow> None)"
definition as_int :: "token \<Rightarrow> i64 option" where
  "as_int t = (case t of TInt n \<Rightarrow> Some n | _ \<Rightarrow> None)"
definition as_float :: "token \<Rightarrow> f64 option" where
  "as_float t = (case t of TFloat x \<Rightarrow> Some x | _ \<Rightarrow> None)"
definition as_bool :: "token \<Rightarrow> bool option" where
  "as_bool t = (case t of TBool b \<Rightarrow> Some b | _ \<Rightarrow> None)"

definition peek_as :: "(token \<Rightarrow> 'a option) \<Rightarrow> parser \<Rightarrow> 'a option" where
  "peek_as f p = Option.bind (peek p) f"

text \<open>Take the payload of the next token and its span, when it has the wanted form.\<close>

definition take_as :: "(token \<Rightarrow> 'a option) \<Rightarrow> string \<Rightarrow> 'a spanned pm" where
  "take_as f what p =
     (case peek_as f p of
        Some x \<Rightarrow> (Done (x, cur_span p), p\<lparr>ps_pos := ps_pos p + 1\<rparr>)
      | None \<Rightarrow> perr_here what p)"

definition expect_ident :: "string \<Rightarrow> string spanned pm" where
  "expect_ident what = take_as as_ident what"

text \<open>
  \<open>let start = self.cur_span(); ...; (x, Span::new(start.start, self.prev_end()))\<close>, the pattern
  of every node that covers several tokens.
\<close>

definition spanned :: "'a pm \<Rightarrow> 'a spanned pm" where
  "spanned m =
     pbind (pget cur_span) (\<lambda>start.
     pbind m (\<lambda>x.
     pbind (pget prev_end) (\<lambda>e.
     pret (x, mk_span (sp_start start) e))))"

definition starts_statement :: "token \<Rightarrow> bool" where
  "starts_statement t \<longleftrightarrow>
     t \<in> {THash, TImport, TVar, TFaker, TRelation, TIgnoreRelation, TAnonymize, TExcludeData,
           TIgnoreTable, TFull, TAggregate, TGet, TPreserve, TSet, TAfter}"

function skip_to_statement :: "parser \<Rightarrow> parser" where
  "skip_to_statement p =
     (case peek p of
        None \<Rightarrow> p
      | Some t \<Rightarrow>
          if starts_statement t then p else skip_to_statement (p\<lparr>ps_pos := ps_pos p + 1\<rparr>))"
  by pat_completeness auto
termination
  by (relation "measure remaining") (auto simp: remaining_def peek_def tok_at_def split: if_splits)

declare skip_to_statement.simps [simp del]

definition synchronize :: "parser \<Rightarrow> parser" where
  "synchronize p = skip_to_statement (bump p)"

text \<open>A comma-separated list up to, not including, its closing token; a trailing comma is allowed.\<close>

definition sep_list :: "token \<Rightarrow> 'a pm \<Rightarrow> 'a list pm" where
  "sep_list close item =
     ploop (\<lambda>acc.
       pbind item (\<lambda>x.
       pbind (eat TComma) (\<lambda>more.
       pget (\<lambda>p. if \<not> more \<or> peek p = Some close then Inr (acc @ [x]) else Inl (acc @ [x]))))) []"

text \<open>At least one item, then \<open>while self.eat(&Token::Comma)\<close>; no trailing comma.\<close>

definition comma_list :: "'a pm \<Rightarrow> 'a list pm" where
  "comma_list item =
     pbind item (\<lambda>x.
     ploop (\<lambda>acc.
       pbind (eat TComma) (\<lambda>more.
       if more then pbind item (\<lambda>y. pret (Inl (acc @ [y]))) else pret (Inr acc))) [x])"

text \<open>\<open>while let Some(Token::Ident(_)) = self.peek()\<close>.\<close>

definition ident_list :: "'a pm \<Rightarrow> 'a list pm" where
  "ident_list item =
     ploop (\<lambda>acc p.
       if peek_as as_ident p \<noteq> None then pbind item (\<lambda>y. pret (Inl (acc @ [y]))) p
       else pret (Inr acc) p) []"

section \<open>Frame and progress\<close>

definition wf_parser :: "parser \<Rightarrow> bool" where
  "wf_parser p \<longleftrightarrow> ps_pos p \<le> length (ps_tokens p)"

definition pframe :: "parser \<Rightarrow> parser \<Rightarrow> bool" where
  "pframe p p' \<longleftrightarrow>
     ps_tokens p' = ps_tokens p \<and> ps_eoi p' = ps_eoi p \<and> ps_interp p' = ps_interp p \<and>
     ps_pos p \<le> ps_pos p' \<and> ps_pos p' \<le> length (ps_tokens p) \<and>
     (\<exists>es. ps_errors p' = ps_errors p @ es)"

definition safe :: "'a pm \<Rightarrow> parser \<Rightarrow> bool" where
  "safe m p \<longleftrightarrow> (wf_parser p \<longrightarrow> fst (m p) \<noteq> NoFuel \<and> pframe p (snd (m p)))"

definition advances :: "'a pm \<Rightarrow> parser \<Rightarrow> bool" where
  "advances m p \<longleftrightarrow> (\<forall>x p'. m p = (Done x, p') \<longrightarrow> ps_pos p < ps_pos p')"

lemma pframe_refl [simp]: "wf_parser p \<Longrightarrow> pframe p p"
  by (simp add: pframe_def wf_parser_def)

lemma pframe_trans: "pframe p q \<Longrightarrow> pframe q r \<Longrightarrow> pframe p r"
  by (auto simp: pframe_def)

lemma pframe_wf: "pframe p q \<Longrightarrow> wf_parser q"
  by (auto simp: pframe_def wf_parser_def)

lemma peek_Some: "peek p = Some t \<Longrightarrow> ps_pos p < length (ps_tokens p)"
  by (auto simp: peek_def tok_at_def split: if_splits)

lemma pframe_advance: "peek p \<noteq> None \<Longrightarrow> pframe p (p\<lparr>ps_pos := Suc (ps_pos p)\<rparr>)"
  by (auto simp: pframe_def dest: peek_Some)

lemma safeD: "safe m p \<Longrightarrow> wf_parser p \<Longrightarrow> m p = (r, p') \<Longrightarrow> r \<noteq> NoFuel \<and> pframe p p'"
  by (simp add: safe_def)

lemma safe_pret [parse_rules]: "safe (pret x) p"
  by (simp add: safe_def pret_def)

lemma safe_pget [parse_rules]: "safe (pget f) p"
  by (simp add: safe_def pget_def)

lemma safe_pfail [parse_rules]: "safe (pfail e) p"
  by (simp add: safe_def pfail_def)

lemma safe_perr_here [parse_rules]: "safe (perr_here e) p"
  by (simp add: safe_def pfail_def perr_here_def)

lemma safe_padvance [parse_rules]: "peek p \<noteq> None \<Longrightarrow> safe (padvance 1) p"
  by (simp add: safe_def padvance_def pframe_advance)

lemma safe_eat [parse_rules]: "safe (eat t) p"
  by (simp add: safe_def eat_def pframe_advance)

lemma safe_expect [parse_rules]: "safe (expect t e) p"
  by (simp add: safe_def expect_def pframe_advance perr_here_def pfail_def)

lemma peek_as_Some: "peek_as f p = Some x \<Longrightarrow> peek p \<noteq> None"
  by (cases "peek p") (auto simp: peek_as_def)

lemma safe_take_as [parse_rules]: "safe (take_as f e) p"
  by (auto simp: safe_def take_as_def pframe_advance perr_here_def pfail_def peek_as_Some
      split: option.split)

lemma safe_expect_ident [parse_rules]: "safe (expect_ident e) p"
  by (simp add: expect_ident_def safe_take_as)

lemma safe_pbind [parse_rules]:
  assumes "safe m p" "\<And>x q. m p = (Done x, q) \<Longrightarrow> pframe p q \<Longrightarrow> safe (f x) q"
  shows "safe (pbind m f) p"
proof (cases "m p")
  case (Pair r q)
  show ?thesis
  proof (cases r)
    case (Done x)
    with Pair have m: "m p = (Done x, q)" by simp
    have "pframe p (snd (f x q)) \<and> fst (f x q) \<noteq> NoFuel" if "wf_parser p"
    proof -
      have "pframe p q" using assms(1) that m by (simp add: safe_def)
      then show ?thesis
        using assms(2) [OF m] pframe_wf pframe_trans by (auto simp: safe_def)
    qed
    then show ?thesis using m by (simp add: safe_def pbind_def)
  qed (use assms(1) Pair in \<open>auto simp: safe_def pbind_def\<close>)
qed

lemma safe_if_fun [parse_rules]:
  "(c p \<Longrightarrow> safe a p) \<Longrightarrow> (\<not> c p \<Longrightarrow> safe b p) \<Longrightarrow> safe (\<lambda>p. if c p then a p else b p) p"
  by (simp add: safe_def)

lemma safe_if [parse_rules]: "(c \<Longrightarrow> safe a p) \<Longrightarrow> (\<not> c \<Longrightarrow> safe b p) \<Longrightarrow> safe (if c then a else b) p"
  by simp

lemma safe_option_fun [parse_rules]:
  "(f p = None \<Longrightarrow> safe a p) \<Longrightarrow> (\<And>x. f p = Some x \<Longrightarrow> safe (b x) p) \<Longrightarrow>
     safe (\<lambda>p. case f p of None \<Rightarrow> a p | Some x \<Rightarrow> b x p) p"
  by (simp add: safe_def split: option.split)

lemma safe_spanned [parse_rules]: "safe m p \<Longrightarrow> safe (spanned m) p"
  unfolding spanned_def by (intro parse_rules) (simp_all add: pget_def)

lemma pbind_Done:
  "pbind m f p = (Done y, q) \<longleftrightarrow> (\<exists>x p'. m p = (Done x, p') \<and> f x p' = (Done y, q))"
  by (auto simp: pbind_def split: prod.splits outcome.splits)

lemma pret_Done: "pret x p = (Done y, q) \<longleftrightarrow> y = x \<and> q = p"
  by (auto simp: pret_def)

lemma pget_Done: "pget f p = (Done y, q) \<longleftrightarrow> y = f p \<and> q = p"
  by (auto simp: pget_def)

lemma eat_Done:
  "eat t p = (Done b, q) \<longleftrightarrow>
     (if peek p = Some t then b \<and> q = p\<lparr>ps_pos := ps_pos p + 1\<rparr> else \<not> b \<and> q = p)"
  by (auto simp: eat_def)

lemma expect_Done:
  "expect t e p = (Done s, q) \<longleftrightarrow>
     peek p = Some t \<and> s = cur_span p \<and> q = p\<lparr>ps_pos := ps_pos p + 1\<rparr>"
  by (auto simp: expect_def perr_here_def pfail_def)

lemma take_as_Done:
  "take_as f e p = (Done r, q) \<longleftrightarrow>
     (\<exists>x. peek_as f p = Some x \<and> r = (x, cur_span p) \<and> q = p\<lparr>ps_pos := ps_pos p + 1\<rparr>)"
  by (auto simp: take_as_def perr_here_def pfail_def split: option.split)

lemma perr_here_not_Done [simp]: "perr_here e p \<noteq> (Done x, q)"
  by (simp add: perr_here_def pfail_def)

lemmas done_simps = pbind_Done pret_Done pget_Done eat_Done expect_Done take_as_Done

lemma advances_pbind_left:
  assumes "advances m p" "\<And>x q. m p = (Done x, q) \<Longrightarrow> safe (f x) q" "safe m p" "wf_parser p"
  shows "advances (pbind m f) p"
  unfolding advances_def
proof (intro allI impI)
  fix y q
  assume "pbind m f p = (Done y, q)"
  then obtain x p' where m: "m p = (Done x, p')" "f x p' = (Done y, q)" by (auto simp: pbind_Done)
  have "pframe p p'" using safeD [OF assms(3,4) m(1)] by simp
  then have "pframe p' q" using safeD [OF assms(2) [OF m(1)] _ m(2)] pframe_wf by blast
  then show "ps_pos p < ps_pos q" using m(1) assms(1) by (fastforce simp: advances_def pframe_def)
qed

text \<open>A loop is safe when its body is and every further round consumes a token.\<close>

lemma ploop_fuel_safe:
  assumes "wf_parser p" "remaining p < n"
    and "\<And>a q. pframe p q \<Longrightarrow> safe (step a) q"
    and "\<And>a q a' q'. pframe p q \<Longrightarrow> step a q = (Done (Inl a'), q') \<Longrightarrow> ps_pos q < ps_pos q'"
  shows "safe (ploop_fuel n step a) p"
  using assms
proof (induction n arbitrary: a p)
  case 0
  then show ?case by simp
next
  case (Suc n)
  have "safe (case r of Inl a' \<Rightarrow> ploop_fuel n step a' | Inr b \<Rightarrow> pret b) q"
    if st: "step a p = (Done r, q)" "pframe p q" for r q
  proof (cases r)
    case (Inl a')
    have lt: "ps_pos p < ps_pos q" using Suc.prems(4) [of p a a' q] Suc.prems(1) st Inl by simp
    then have "remaining q < n"
      using Suc.prems(2) that(2) by (auto simp: remaining_def pframe_def)
    then have "safe (ploop_fuel n step a') q"
      using Suc.prems(3,4) pframe_trans [OF st(2)] pframe_wf [OF st(2)]
      by (intro Suc.IH) blast+
    then show ?thesis by (simp add: Inl)
  qed (simp add: safe_pret)
  then show ?case
    using Suc.prems(1,3) by (auto intro!: safe_pbind)
qed

lemma safe_ploop:
  assumes "\<And>a q. pframe p q \<Longrightarrow> safe (step a) q"
    and "\<And>a q a' q'. pframe p q \<Longrightarrow> step a q = (Done (Inl a'), q') \<Longrightarrow> ps_pos q < ps_pos q'"
  shows "safe (ploop step a) p"
proof -
  have "safe (ploop_fuel (Suc (remaining p)) step a) p" if "wf_parser p"
    using assms that by (intro ploop_fuel_safe) auto
  then show ?thesis by (auto simp: safe_def ploop_def)
qed

lemma safe_sep_list:
  assumes "\<And>q. pframe p q \<Longrightarrow> safe item q"
  shows "safe (sep_list close item) p"
  unfolding sep_list_def
proof (rule safe_ploop)
  fix a a' q q'
  assume q: "pframe p q"
    and "pbind item (\<lambda>x. pbind (eat TComma) (\<lambda>more.
       pget (\<lambda>p. if \<not> more \<or> peek p = Some close then Inr (a @ [x]) else Inl (a @ [x])))) q
       = (Done (Inl a'), q')"
  then obtain x q1 where "item q = (Done x, q1)" "q' = q1\<lparr>ps_pos := ps_pos q1 + 1\<rparr>"
    by (auto simp: done_simps split: if_splits)
  moreover from this have "pframe q q1" using assms [OF q] q pframe_wf by (blast dest: safeD)
  ultimately show "ps_pos q < ps_pos q'" by (simp add: pframe_def)
qed (intro parse_rules assms)

lemma safe_comma_list:
  assumes "\<And>q. pframe p q \<Longrightarrow> safe item q" "wf_parser p"
  shows "safe (comma_list item) p"
proof -
  let ?step = "\<lambda>acc. pbind (eat TComma) (\<lambda>more.
    if more then pbind item (\<lambda>y. pret (Inl (acc @ [y]))) else pret (Inr acc))"
  have st: "safe (?step a) q" if "pframe p q" for a q
    using assms(1) pframe_trans [OF that] by (intro parse_rules) blast
  have adv: "ps_pos q < ps_pos q'" if q: "pframe p q" and d: "?step a q = (Done (Inl a'), q')" for a a' q q'
  proof -
    let ?q2 = "q\<lparr>ps_pos := ps_pos q + 1\<rparr>"
    from d obtain y where i: "item ?q2 = (Done y, q')" "peek q \<noteq> None"
      by (auto simp: done_simps split: if_splits)
    then have f: "pframe q ?q2" using pframe_advance by simp
    then have "safe item ?q2" using assms(1) q pframe_trans by blast
    then have "pframe ?q2 q'" using i pframe_wf [OF f] by (blast dest: safeD)
    then show "ps_pos q < ps_pos q'" by (simp add: pframe_def)
  qed
  have "safe (ploop ?step a) q" if q: "pframe p q" for a q
    using st adv pframe_trans [OF q] by (intro safe_ploop) blast+
  then show ?thesis
    using assms unfolding comma_list_def by (intro safe_pbind) simp_all
qed

lemma safe_ident_list:
  assumes "\<And>q. pframe p q \<Longrightarrow> safe item q"
    and "\<And>q. pframe p q \<Longrightarrow> advances item q"
  shows "safe (ident_list item) p"
  unfolding ident_list_def
proof (rule safe_ploop)
  fix a q a' q'
  assume "pframe p q"
    "(if peek_as as_ident q \<noteq> None then pbind item (\<lambda>y. pret (Inl (a @ [y]))) q
      else pret (Inr a) q) = (Done (Inl a'), q')"
  then show "ps_pos q < ps_pos q'"
    using assms(2) by (auto simp: done_simps advances_def split: if_splits)
qed (intro parse_rules assms)

text \<open>Recovery moves forward and stops at the end or at a token that starts a statement.\<close>

lemma skip_to_statement_frame:
  "wf_parser p \<Longrightarrow> pframe p (skip_to_statement p) \<and>
     (case peek (skip_to_statement p) of None \<Rightarrow> True | Some t \<Rightarrow> starts_statement t)"
proof (induction p rule: skip_to_statement.induct)
  case (1 p)
  show ?case
  proof (cases "peek p")
    case None
    then show ?thesis using 1 by (subst (1 2) skip_to_statement.simps) simp
  next
    case (Some t)
    have f: "pframe p (p\<lparr>ps_pos := Suc (ps_pos p)\<rparr>)" using Some pframe_advance by simp
    show ?thesis
    proof (cases "starts_statement t")
      case True
      then show ?thesis using 1 Some by (subst (1 2) skip_to_statement.simps) simp
    next
      case False
      then show ?thesis
        using "1.IH" [OF Some False] pframe_wf [OF f] pframe_trans [OF f] Some
        by (subst (1 2) skip_to_statement.simps) simp
    qed
  qed
qed

lemma synchronize_frame:
  assumes "wf_parser p"
  shows "pframe p (synchronize p)"
    and "case peek (synchronize p) of None \<Rightarrow> True | Some t \<Rightarrow> starts_statement t"
    and "\<not> at_end p \<Longrightarrow> ps_pos p < ps_pos (synchronize p)"
proof -
  have b: "pframe p (bump p)" using assms pframe_advance by (auto simp: bump_def)
  note s = skip_to_statement_frame [OF pframe_wf [OF b]]
  show "pframe p (synchronize p)" using s pframe_trans [OF b] by (simp add: synchronize_def)
  show "case peek (synchronize p) of None \<Rightarrow> True | Some t \<Rightarrow> starts_statement t"
    using s by (simp add: synchronize_def)
  assume "\<not> at_end p"
  then have "ps_pos (bump p) = Suc (ps_pos p)" by (simp add: bump_def peek_def tok_at_def at_end_def)
  then show "ps_pos p < ps_pos (synchronize p)" using s by (auto simp: synchronize_def pframe_def)
qed

end
