(* ===== verification/ExprParser.thy ===== *)
theory ExprParser
  imports Cursor
begin

text \<open>
  Expressions by precedence climbing, literals (\<open>crates/parser/src/parser.rs\<close>, from \<open>literal\<close>
  on) and interpolated strings (\<open>crates/parser/src/interpolation.rs\<close>).

  The two files are mutually recursive: a string literal holds interpolations, an
  interpolation is lexed and parsed as an expression.  Inside an interpolation a nested string
  is taken raw, so the recursion is only one level deep.  The expression parser is a function
  of the string-literal parser it uses, \<open>string_literal_at d\<close> ties the knot \<open>d\<close> levels deep and
  runs out of fuel below that; \<open>string_literal\<close> takes two levels and never does.

  The recursion of expressions through parentheses and unary operators has fuel one more than
  the number of tokens left.
\<close>

section \<open>Operators\<close>

definition or_op :: "token \<Rightarrow> binary_op option" where
  "or_op t = (if t = TOr then Some Or else None)"

definition and_op :: "token \<Rightarrow> binary_op option" where
  "and_op t = (if t = TAnd then Some And else None)"

definition equality_op :: "token \<Rightarrow> binary_op option" where
  "equality_op t = (if t = TEq then Some Eq else if t = TNotEq then Some NotEq else None)"

definition comparison_op :: "token \<Rightarrow> binary_op option" where
  "comparison_op t =
     (if t = TLt then Some Lt else if t = TGt then Some Gt
      else if t = TLtEq then Some LtEq else if t = TGtEq then Some GtEq else None)"

definition additive_op :: "token \<Rightarrow> binary_op option" where
  "additive_op t = (if t = TPlus then Some Add else if t = TMinus then Some Sub else None)"

definition multiplicative_op :: "token \<Rightarrow> binary_op option" where
  "multiplicative_op t =
     (if t = TStar then Some Mul else if t = TSlash then Some Div
      else if t = TPercent then Some Mod else None)"

definition unary_op_of :: "token \<Rightarrow> unary_op option" where
  "unary_op_of t = (if t = TNot then Some UNot else if t = TMinus then Some UNeg else None)"

section \<open>Expressions\<close>

text \<open>A raw string literal (no interpolation, no escape decoding).\<close>

definition string_raw :: "string \<Rightarrow> string spanned pm" where
  "string_raw what = take_as as_string what"

type_synonym string_parser = "string \<Rightarrow> string_literal spanned pm"

definition var_name :: "string pm" where
  "var_name =
     (\<lambda>p. if ps_interp p
          then pbind (take_as token_as_ident (''a variable name after '' @ quoted ''$'')) (\<lambda>(name, _). pret name) p
          else pbind (expect_ident (''a variable name after '' @ quoted ''$'')) (\<lambda>(name, _). pret name) p)"

definition primary_expr :: "string_parser \<Rightarrow> expr spanned pm \<Rightarrow> expr spanned pm" where
  "primary_expr sl expr =
     (\<lambda>p. if peek p = Some TDollar then
            spanned (pbind (padvance 1) (\<lambda>_. pbind var_name (\<lambda>name. pret (EVariable name)))) p
          else if peek p = Some (TIdent ''unique'') \<and> ps_interp p \<and> peek2 p = Some TLParen then
            spanned (pbind (padvance 2) (\<lambda>_.
              pbind (expect TRParen (quoted '')'' @ '' to close unique()'')) (\<lambda>_. pret EUnique))) p
          else if peek_as as_int p \<noteq> None then
            pbind (take_as as_int '''') (\<lambda>(n, sp). pret (ELiteral (LInt n), sp)) p
          else if peek_as as_float p \<noteq> None then
            pbind (take_as as_float '''') (\<lambda>(x, sp). pret (ELiteral (LFloat x), sp)) p
          else if peek_as as_bool p \<noteq> None then
            pbind (take_as as_bool '''') (\<lambda>(b, sp). pret (ELiteral (LBool b), sp)) p
          else if peek_as as_string p \<noteq> None then
            (if ps_interp p then
               pbind (string_raw ''a string'') (\<lambda>(s, sp).
                 pret (ELiteral (LString (StringLiteral [Text s])), sp)) p
             else
               pbind (sl ''a string'') (\<lambda>(lit, sp). pret (ELiteral (LString lit), sp)) p)
          else if peek p = Some TLParen then
            spanned (pbind (padvance 1) (\<lambda>_.
              pbind expr (\<lambda>(inner, _).
              pbind (expect TRParen (quoted '')'' @ '' to close the expression'')) (\<lambda>_. pret inner)))) p
          else perr_here ''an expression ($variable, literal, or parentheses)'' p)"

definition binary_node :: "expr spanned \<Rightarrow> binary_op \<Rightarrow> expr spanned \<Rightarrow> expr spanned" where
  "binary_node lhs op rhs =
     (EBinary lhs op rhs, mk_span (sp_start (snd lhs)) (sp_end (snd rhs)))"

definition binary_level ::
  "expr spanned pm \<Rightarrow> (token \<Rightarrow> binary_op option) \<Rightarrow> expr spanned pm" where
  "binary_level nxt op_of =
     pbind nxt (\<lambda>lhs0.
     ploop (\<lambda>lhs p.
       case peek_as op_of p of
         None \<Rightarrow> pret (Inr lhs) p
       | Some op \<Rightarrow>
           pbind (padvance 1) (\<lambda>_. pbind nxt (\<lambda>rhs. pret (Inl (binary_node lhs op rhs)))) p) lhs0)"

definition multiplicative_expr :: "expr spanned pm \<Rightarrow> expr spanned pm" where
  "multiplicative_expr unary = binary_level unary multiplicative_op"
definition additive_expr :: "expr spanned pm \<Rightarrow> expr spanned pm" where
  "additive_expr unary = binary_level (multiplicative_expr unary) additive_op"
definition comparison_expr :: "expr spanned pm \<Rightarrow> expr spanned pm" where
  "comparison_expr unary = binary_level (additive_expr unary) comparison_op"
definition equality_expr :: "expr spanned pm \<Rightarrow> expr spanned pm" where
  "equality_expr unary = binary_level (comparison_expr unary) equality_op"
definition and_expr :: "expr spanned pm \<Rightarrow> expr spanned pm" where
  "and_expr unary = binary_level (equality_expr unary) and_op"
definition or_expr :: "expr spanned pm \<Rightarrow> expr spanned pm" where
  "or_expr unary = binary_level (and_expr unary) or_op"

fun unary_expr :: "string_parser \<Rightarrow> nat \<Rightarrow> expr spanned pm" where
  "unary_expr sl 0 = pfuel"
| "unary_expr sl (Suc n) =
     (\<lambda>p. case peek_as unary_op_of p of
            Some op \<Rightarrow>
              pbind (pget (\<lambda>p. sp_start (cur_span p))) (\<lambda>start.
              pbind (padvance 1) (\<lambda>_.
              pbind (unary_expr sl n) (\<lambda>inner.
              pret (EUnary op inner, mk_span start (sp_end (snd inner)))))) p
          | None \<Rightarrow> primary_expr sl (or_expr (unary_expr sl n)) p)"

definition expr_with :: "string_parser \<Rightarrow> expr spanned pm" where
  "expr_with sl p = or_expr (unary_expr sl (Suc (remaining p))) p"

text \<open>A whole token stream as one expression, for the inside of an interpolation.\<close>

definition parse_expr_tokens ::
  "string_parser \<Rightarrow> token spanned list \<Rightarrow> span \<Rightarrow> (parse_error, expr spanned) outcome" where
  "parse_expr_tokens sl toks eoi =
     fst (pbind (expr_with sl) (\<lambda>e p.
       if \<not> at_end p then perr_here ''expected end of expression'' p else pret e p)
       ((parser_new toks eoi)\<lparr>ps_interp := True\<rparr>))"

section \<open>Interpolated strings\<close>

record interp_error =
  ie_message :: string
  ie_span :: span

definition mk_interp_error :: "string \<Rightarrow> span \<Rightarrow> interp_error" where
  "mk_interp_error m s = \<lparr>ie_message = m, ie_span = s\<rparr>"

lemma first_char_shorter: "first_char s = Some c \<Longrightarrow> length s - length c < length s"
  using first_char_length [of s c] by linarith

text \<open>\<open>char_indices\<close>: the characters of a text with their byte offsets.\<close>

function char_indices :: "nat \<Rightarrow> string \<Rightarrow> (nat \<times> string) list" where
  "char_indices i s =
     (case first_char s of
        None \<Rightarrow> []
      | Some c \<Rightarrow> (i, c) # char_indices (i + length c) (drop (length c) s))"
  by pat_completeness auto
termination
  by (relation "measure (\<lambda>(i, s). length s)") (auto simp: first_char_shorter)

declare char_indices.simps [simp del]

definition trim :: "string \<Rightarrow> string" where
  "trim s =
     concat (rev (dropWhile is_whitespace (rev (dropWhile is_whitespace
       (map snd (char_indices 0 s))))))"

definition bare_ident_hint :: "string \<Rightarrow> string" where
  "bare_ident_hint input =
     (let trimmed = trim input in
      if trimmed \<noteq> [] \<and> (is_ascii_alphabetic (hd trimmed) \<or> hd trimmed = CHR ''_'') \<and>
         list_all (\<lambda>c. is_ascii_alphanumeric c \<or> c = CHR ''_'') trimmed
      then '' (did you mean {$'' @ trimmed @ ''}?)''
      else '''')"

definition adjust :: "nat \<Rightarrow> span \<Rightarrow> span" where
  "adjust offset sp = mk_span (offset + sp_start sp) (offset + sp_end sp)"

definition parse_interpolation_expr ::
  "string_parser \<Rightarrow> string \<Rightarrow> nat \<Rightarrow> (interp_error, expr spanned) outcome" where
  "parse_interpolation_expr sl input offset =
     (case lex_with_options input \<lparr>regex_literals = False\<rparr> of
        (toks, e # es) \<Rightarrow>
          Fail (mk_interp_error (''invalid interpolation: '' @ pe_message e) (adjust offset (pe_span e)))
      | (toks, []) \<Rightarrow>
          if toks = [] then
            Fail (mk_interp_error
              (''empty interpolation (write '' @ [backslash] @ ''{ for a literal brace)'')
              (mk_span offset (offset + length input)))
          else
            (case parse_expr_tokens sl toks (mk_span (length input) (length input)) of
               Done (e, sp) \<Rightarrow> Done (e, adjust offset sp)
             | Fail e \<Rightarrow>
                 Fail (mk_interp_error
                   (''invalid interpolation: '' @ pe_message e @ bare_ident_hint input)
                   (adjust offset (pe_span e)))
             | NoFuel \<Rightarrow> NoFuel))"

text \<open>The inner loop: the offset of the brace that closes depth \<open>d\<close>, and the characters after it.\<close>

fun brace_scan :: "nat \<Rightarrow> (nat \<times> string) list \<Rightarrow> (nat \<times> (nat \<times> string) list) option" where
  "brace_scan d [] = None"
| "brace_scan d ((j, c) # cs) =
     (if c = ''{'' then brace_scan (d + 1) cs
      else if c = ''}'' then (if d = 1 then Some (j, cs) else brace_scan (d - 1) cs)
      else brace_scan d cs)"

lemma brace_scan_shorter: "brace_scan d cs = Some (j, cs') \<Longrightarrow> length cs' < length cs"
  by (induction d cs rule: brace_scan.induct) (fastforce split: if_splits)+

definition flush_text :: "string \<Rightarrow> string_part list \<Rightarrow> string_part list" where
  "flush_text text parts = (if text = [] then parts else parts @ [Text text])"

definition escape_char :: "string \<Rightarrow> string" where
  "escape_char c =
     (if c = [backslash] then [backslash]
      else if c = [dquote] then [dquote]
      else if c = ''n'' then [newline]
      else if c = ''t'' then [tabchar]
      else if c = ''{'' then ''{''
      else [backslash] @ c)"

definition unclosed_error :: "nat \<Rightarrow> nat \<Rightarrow> interp_error" where
  "unclosed_error s e =
     mk_interp_error
       (''unclosed interpolation: missing '' @ [squote] @ ''}'' @ [squote] @ '' (write '' @
        [backslash] @ ''{ for a literal brace)'') (mk_span s e)"

text \<open>
  The outer loop over the characters; \<open>interp\<close> parses the inside of an interpolation.  The
  result is the pending text, the parts and the errors, and \<open>None\<close> if \<open>interp\<close> had no fuel.
\<close>

function interp_loop ::
  "(string \<Rightarrow> nat \<Rightarrow> (interp_error, expr spanned) outcome) \<Rightarrow> string \<Rightarrow> nat \<Rightarrow>
     (nat \<times> string) list \<Rightarrow> string \<Rightarrow> string_part list \<Rightarrow> interp_error list \<Rightarrow>
     (string \<times> string_part list \<times> interp_error list) option" where
  "interp_loop interp input base [] text parts errs = Some (text, parts, errs)"
| "interp_loop interp input base ((i, c) # cs) text parts errs =
     (if c = [backslash] then
        (case cs of
           [] \<Rightarrow> Some (text @ [backslash], parts, errs)
         | (_, e) # cs' \<Rightarrow> interp_loop interp input base cs' (text @ escape_char e) parts errs)
      else if c = ''{'' then
        (case brace_scan 1 cs of
           None \<Rightarrow>
             Some (text, parts, errs @ [unclosed_error (base + i) (base + length input)])
         | Some (j, cs') \<Rightarrow>
             (case interp (slice input (i + 1) j) (base + i + 1) of
                Done e \<Rightarrow>
                  interp_loop interp input base cs' [] (flush_text text parts @ [Interpolation e]) errs
              | Fail err \<Rightarrow>
                  interp_loop interp input base cs' [] (flush_text text parts) (errs @ [err])
              | NoFuel \<Rightarrow> None))
      else interp_loop interp input base cs (text @ c) parts errs)"
  by pat_completeness auto
termination
  by (relation "measure (\<lambda>(interp, input, base, cs, text, parts, errs). length cs)")
    (auto dest: brace_scan_shorter)

definition parse_interpolated_with ::
  "string_parser \<Rightarrow> string \<Rightarrow> nat \<Rightarrow> (interp_error list, string_literal) outcome" where
  "parse_interpolated_with sl input base =
     (case interp_loop (parse_interpolation_expr sl) input base (char_indices 0 input) [] [] [] of
        None \<Rightarrow> NoFuel
      | Some (text, parts, errs) \<Rightarrow>
          (let parts1 = flush_text text parts;
               parts2 = (if parts1 = [] then [Text ''''] else parts1)
           in if errs = [] then Done (StringLiteral parts2) else Fail errs))"

text \<open>
  \<open>string_literal\<close>: the errors of a malformed interpolation are recorded and parsing goes on
  with an empty literal.
\<close>

fun string_literal_at :: "nat \<Rightarrow> string_parser" where
  "string_literal_at 0 what = pfuel"
| "string_literal_at (Suc d) what =
     pbind (take_as as_string what) (\<lambda>(s, sp) p.
       case parse_interpolated_with (string_literal_at d) s (sp_start sp + 1) of
         Done lit \<Rightarrow> pret (lit, sp) p
       | Fail errs \<Rightarrow>
           (Done (StringLiteral [], sp),
            p\<lparr>ps_errors := ps_errors p @ map (\<lambda>e. mk_error (ie_span e) (ie_message e)) errs\<rparr>)
       | NoFuel \<Rightarrow> pfuel p)"

definition string_literal :: string_parser where
  "string_literal what = string_literal_at 2 what"

definition parse_interpolated_string ::
  "string \<Rightarrow> nat \<Rightarrow> (interp_error list, string_literal) outcome" where
  "parse_interpolated_string input base = parse_interpolated_with (string_literal_at 1) input base"

definition expr :: "expr spanned pm" where
  "expr = expr_with string_literal"

section \<open>Values and literals\<close>

definition signed_number :: "literal pm" where
  "signed_number =
     pbind (eat TMinus) (\<lambda>negative p.
       case peek_as as_int p of
         Some n \<Rightarrow> pbind (padvance 1) (\<lambda>_. pret (LInt (if negative then - n else n))) p
       | None \<Rightarrow>
           (case peek_as as_float p of
              Some x \<Rightarrow>
                pbind (padvance 1) (\<lambda>_. pret (LFloat (if negative then f64_neg x else x))) p
            | None \<Rightarrow> perr_here ''a number'' p))"

datatype array_kind = KStr | KInt | KFloat | KBool

definition array_kind_of :: "parser \<Rightarrow> array_kind option" where
  "array_kind_of p =
     (let neg = (peek p = Some TMinus); t2 = peek2 p in
      if peek_as as_string p \<noteq> None then Some KStr
      else if peek_as as_bool p \<noteq> None then Some KBool
      else if peek_as as_int p \<noteq> None \<or> neg \<and> Option.bind t2 as_int \<noteq> None then Some KInt
      else if peek_as as_float p \<noteq> None \<or> neg \<and> Option.bind t2 as_float \<noteq> None then Some KFloat
      else None)"

definition bool_element :: "bool pm" where
  "bool_element = pbind (take_as as_bool ''a bool array element'') (\<lambda>(b, _). pret b)"

definition int_element :: "i64 pm" where
  "int_element =
     pbind signed_number (\<lambda>l.
       case l of LInt n \<Rightarrow> pret n | _ \<Rightarrow> perr_here ''an int array element'')"

definition float_element :: "f64 pm" where
  "float_element =
     pbind signed_number (\<lambda>l.
       case l of LFloat x \<Rightarrow> pret x | _ \<Rightarrow> perr_here ''a float array element'')"

definition pmap :: "('a \<Rightarrow> 'b) \<Rightarrow> 'a pm \<Rightarrow> 'b pm" where
  "pmap f m = pbind m (\<lambda>x. pret (f x))"

definition array_literal :: "literal pm" where
  "array_literal =
     pbind (expect TLBracket (quoted ''['')) (\<lambda>_.
     pbind (eat TRBracket) (\<lambda>empty.
     if empty then pret (LStringArray [])
     else (\<lambda>p.
       case array_kind_of p of
         None \<Rightarrow> perr_here ''an array element (string, number, or bool)'' p
       | Some k \<Rightarrow>
           pbind
             (case k of
                KStr \<Rightarrow> pmap LStringArray (sep_list TRBracket (string_literal ''a string array element''))
              | KBool \<Rightarrow> pmap LBoolArray (sep_list TRBracket bool_element)
              | KInt \<Rightarrow> pmap LIntArray (sep_list TRBracket int_element)
              | KFloat \<Rightarrow> pmap LFloatArray (sep_list TRBracket float_element))
             (\<lambda>lit.
           pbind (expect TRBracket (quoted '']'' @ '' to close the array'')) (\<lambda>_. pret lit)) p)))"

definition starts_number :: "parser \<Rightarrow> bool" where
  "starts_number p \<longleftrightarrow>
     peek_as as_int p \<noteq> None \<or> peek_as as_float p \<noteq> None \<or> peek p = Some TMinus"

definition literal :: "literal spanned pm" where
  "literal =
     spanned (\<lambda>p.
       if peek p = Some TLBracket then array_literal p
       else if peek_as as_string p \<noteq> None then
         pmap (\<lambda>(lit, _). LString lit) (string_literal ''a string'') p
       else if peek_as as_bool p \<noteq> None then
         pmap (\<lambda>(b, _). LBool b) (take_as as_bool '''') p
       else if peek p = Some TNull then pbind (padvance 1) (\<lambda>_. pret LNull) p
       else if starts_number p then signed_number p
       else perr_here ''a literal value'' p)"

definition val :: "ast_value spanned pm" where
  "val =
     spanned (\<lambda>p.
       if peek p = Some TDollar then
         pbind (padvance 1) (\<lambda>_.
         pbind (expect_ident (''a variable name after '' @ quoted ''$'')) (\<lambda>(v, _). pret (AvVariable v))) p
       else if peek_as as_string p \<noteq> None then
         pmap (\<lambda>(lit, _). AvLiteral (LString lit)) (string_literal ''a string'') p
       else if peek_as as_bool p \<noteq> None then
         pmap (\<lambda>(b, _). AvLiteral (LBool b)) (take_as as_bool '''') p
       else if starts_number p then pmap AvLiteral signed_number p
       else perr_here ''a value ($variable, string, number, or bool)'' p)"

section \<open>The expression parser returns and moves forward\<close>

lemma remaining_less:
  assumes "pframe p q" "ps_pos p < ps_pos q"
  shows "remaining q < remaining p"
  using assms by (auto simp: remaining_def pframe_def)

lemma remaining_le: "pframe p q \<Longrightarrow> remaining q \<le> remaining p"
  by (auto simp: remaining_def pframe_def)

lemma pframe_interp: "pframe p q \<Longrightarrow> ps_interp q = ps_interp p"
  by (simp add: pframe_def)

lemma padvance_Done: "padvance n p = (Done x, q) \<longleftrightarrow> q = p\<lparr>ps_pos := ps_pos p + n\<rparr>"
  by (auto simp: padvance_def)

lemma safe_binary_level:
  assumes "\<And>q. pframe p q \<Longrightarrow> safe nxt q" "wf_parser p"
  shows "safe (binary_level nxt op_of) p"
proof -
  let ?step = "\<lambda>lhs p. case peek_as op_of p of None \<Rightarrow> pret (Inr lhs) p
    | Some op \<Rightarrow> pbind (padvance 1) (\<lambda>_. pbind nxt (\<lambda>rhs. pret (Inl (binary_node lhs op rhs)))) p"
  have st: "safe (?step a) q" if "pframe p q" for a q
    using assms(1) pframe_trans [OF that] by (intro parse_rules) (auto simp: peek_as_Some)
  have adv: "ps_pos q < ps_pos q'" if q: "pframe p q" and d: "?step a q = (Done (Inl a'), q')" for a a' q q'
  proof -
    let ?q2 = "q\<lparr>ps_pos := ps_pos q + 1\<rparr>"
    from d obtain y where i: "nxt ?q2 = (Done y, q')"
      by (auto simp: done_simps padvance_Done split: option.splits)
    have "peek_as op_of q \<noteq> None" using d by (auto simp: pret_Done split: option.splits)
    then have "peek q \<noteq> None" by (auto dest: peek_as_Some)
    then have f: "pframe q ?q2" using pframe_advance by simp
    then have "safe nxt ?q2" using assms(1) q pframe_trans by blast
    then have "pframe ?q2 q'" using i pframe_wf [OF f] by (blast dest: safeD)
    then show "ps_pos q < ps_pos q'" by (simp add: pframe_def)
  qed
  have "safe (ploop ?step a) q" if q: "pframe p q" for a q
    using st adv pframe_trans [OF q] by (intro safe_ploop) blast+
  then show ?thesis
    using assms unfolding binary_level_def by (intro safe_pbind) simp_all
qed

lemma safe_or_expr:
  assumes "\<And>q. pframe p q \<Longrightarrow> safe unary q" "wf_parser p"
  shows "safe (or_expr unary) p"
proof -
  have lift: "\<And>q. pframe p q \<Longrightarrow> safe (binary_level nxt op) q" if "\<And>q. pframe p q \<Longrightarrow> safe nxt q" for nxt op
    using that pframe_trans pframe_wf by (intro safe_binary_level) blast+
  show ?thesis
    unfolding or_expr_def and_expr_def equality_expr_def comparison_expr_def additive_expr_def
      multiplicative_expr_def
    by (intro lift) (use assms in simp_all)
qed

lemma safe_case_prod [parse_rules]: "safe (f (fst x) (snd x)) p \<Longrightarrow> safe (case x of (a, b) \<Rightarrow> f a b) p"
  by (cases x) simp

lemma safe_padvance2 [parse_rules]: "peek2 p \<noteq> None \<Longrightarrow> safe (padvance 2) p"
  by (auto simp: safe_def padvance_def pframe_def peek2_def tok_at_def split: if_splits)

lemma safe_var_name [parse_rules]: "safe var_name p"
  unfolding var_name_def by (intro parse_rules)

lemma safe_primary:
  assumes sl: "\<And>q w. pframe p q \<Longrightarrow> \<not> ps_interp p \<Longrightarrow> safe (sl w) q"
    and ex: "\<And>q. pframe p q \<Longrightarrow> ps_pos p < ps_pos q \<Longrightarrow> safe sub q"
    and wf: "wf_parser p"
  shows "safe (primary_expr sl sub) p"
  unfolding primary_expr_def string_raw_def
  by (intro parse_rules sl ex) (simp_all add: padvance_Done wf)

lemma safe_unary:
  assumes "\<And>q w. pframe p q \<Longrightarrow> \<not> ps_interp p \<Longrightarrow> safe (sl w) q"
    and "remaining p < n" "wf_parser p"
  shows "safe (unary_expr sl n) p"
  using assms
proof (induction n arbitrary: p)
  case 0
  then show ?case by simp
next
  case (Suc n)
  have sub: "safe (unary_expr sl n) q" if q: "pframe p q" "ps_pos p < ps_pos q" for q
    using Suc.prems(1) pframe_trans [OF q(1)] remaining_less [OF q] Suc.prems(2) pframe_wf [OF q(1)]
      pframe_interp [OF q(1)]
    by (intro Suc.IH) auto
  have ors: "safe (or_expr (unary_expr sl n)) q" if q: "pframe p q" "ps_pos p < ps_pos q" for q
    using sub q pframe_trans [OF q(1)] pframe_wf [OF q(1)]
    by (intro safe_or_expr) (auto simp: pframe_def)
  have prim: "safe (primary_expr sl (or_expr (unary_expr sl n))) p"
    by (rule safe_primary) (auto intro: Suc.prems ors)
  have opc: "safe (pbind (pget (\<lambda>p. sp_start (cur_span p))) (\<lambda>start. pbind (padvance 1) (\<lambda>_.
      pbind (unary_expr sl n) (\<lambda>inner. pret (EUnary op inner, mk_span start (sp_end (snd inner))))))) p"
    if "peek p \<noteq> None" for op
    using that by (intro parse_rules sub) (auto simp: padvance_Done pget_Done)
  show ?case
    unfolding unary_expr.simps by (rule safe_option_fun, rule prim, rule opc) (rule peek_as_Some)
qed

lemma safe_expr_with:
  assumes "\<And>q w. pframe p q \<Longrightarrow> \<not> ps_interp p \<Longrightarrow> safe (sl w) q" "wf_parser p"
  shows "safe (expr_with sl) p"
proof -
  have "safe (unary_expr sl (Suc (remaining p))) q" if q: "pframe p q" for q
    using assms(1) pframe_trans [OF q] pframe_interp [OF q] remaining_le [OF q] pframe_wf [OF q]
    by (intro safe_unary) auto
  then have "safe (or_expr (unary_expr sl (Suc (remaining p)))) p"
    using assms(2) by (intro safe_or_expr) auto
  then show ?thesis by (simp add: safe_def expr_with_def)
qed

lemma parse_expr_tokens_fuel: "parse_expr_tokens sl toks eoi \<noteq> NoFuel"
proof -
  let ?p = "(parser_new toks eoi)\<lparr>ps_interp := True\<rparr>"
  have wf: "wf_parser ?p" by (simp add: wf_parser_def parser_new_def)
  have "safe (pbind (expr_with sl) (\<lambda>e p.
       if \<not> at_end p then perr_here w p else pret e p)) ?p" for w
    using wf by (intro parse_rules safe_expr_with) simp_all
  then show ?thesis using wf by (simp add: safe_def parse_expr_tokens_def)
qed

lemma parse_interpolation_fuel: "parse_interpolation_expr sl input off \<noteq> NoFuel"
  by (auto simp: parse_interpolation_expr_def parse_expr_tokens_fuel
      split: prod.split list.split outcome.split)

lemma interp_loop_fuel:
  "(\<And>s n. interp s n \<noteq> NoFuel) \<Longrightarrow> interp_loop interp input base cs text parts errs \<noteq> None"
  by (induction interp input base cs "text" parts errs rule: interp_loop.induct)
    (auto split: option.split outcome.split list.split)

lemma parse_interpolated_fuel: "parse_interpolated_with sl input base \<noteq> NoFuel"
  using interp_loop_fuel [of "parse_interpolation_expr sl", OF parse_interpolation_fuel]
  by (auto simp: parse_interpolated_with_def Let_def split: option.split)

lemma pframe_errors:
  "wf_parser p \<Longrightarrow> pframe p (p\<lparr>ps_errors := ps_errors p @ es\<rparr>)"
  by (simp add: pframe_def wf_parser_def)

lemma safe_string_literal_at: "safe (string_literal_at (Suc d) what) p"
proof -
  have "safe (\<lambda>p. case parse_interpolated_with (string_literal_at d) s n of
         Done lit \<Rightarrow> pret (lit, sp) p
       | Fail errs \<Rightarrow>
           (Done (StringLiteral [], sp),
            p\<lparr>ps_errors := ps_errors p @ map (\<lambda>e. mk_error (ie_span e) (ie_message e)) errs\<rparr>)
       | NoFuel \<Rightarrow> pfuel p) q" for s n sp q
    using parse_interpolated_fuel [of "string_literal_at d" s n]
    by (auto simp: safe_def pret_def pframe_errors split: outcome.split)
  then show ?thesis by (auto intro!: parse_rules simp: split_beta)
qed

lemma safe_string_literal [parse_rules]: "safe (string_literal what) p"
  using safe_string_literal_at [of 1] by (simp add: string_literal_def safe_def numeral_2_eq_2)

lemma safe_expr [parse_rules]: "wf_parser p \<Longrightarrow> safe expr p"
  unfolding expr_def by (intro safe_expr_with safe_string_literal)

lemma safe_pmap [parse_rules]: "safe m p \<Longrightarrow> safe (pmap f m) p"
  unfolding pmap_def by (intro parse_rules)

lemma safe_signed_number [parse_rules]: "safe signed_number p"
  unfolding signed_number_def by (intro parse_rules) (auto simp: peek_as_Some)

lemma safe_elements [parse_rules]:
  "safe bool_element p" "safe int_element p" "safe float_element p"
  unfolding bool_element_def int_element_def float_element_def
  by (intro parse_rules) (auto split: literal.split intro!: parse_rules)

lemma safe_array_literal [parse_rules]: "safe array_literal p"
  unfolding array_literal_def
  by (intro parse_rules) (auto split: array_kind.split intro!: parse_rules safe_sep_list)

lemma safe_literal [parse_rules]: "safe literal p"
  unfolding literal_def by (intro parse_rules) auto

lemma safe_val [parse_rules]: "safe val p"
  unfolding val_def by (intro parse_rules) auto

end
