(* ===== verification/StmtParser.thy ===== *)
theory StmtParser
  imports ExprParser
begin

text \<open>
  Statements, error recovery and the entry points (\<open>crates/parser/src/parser.rs\<close> from
  \<open>program\<close> to \<open>after_stmt\<close>, and \<open>parse\<close> of \<open>crates/parser/src/lib.rs\<close>).  The methods that are
  entered with their keyword still under the cursor begin by stepping over it, as the code
  does.
\<close>

section \<open>Pieces shared by several statements\<close>

definition scalar_type :: "token \<Rightarrow> var_type option" where
  "scalar_type t =
     (if t = TTypeString then Some VString else if t = TTypeInt then Some VInt
      else if t = TTypeFloat then Some VFloat else if t = TTypeBool then Some VBool else None)"

fun array_type :: "var_type \<Rightarrow> var_type" where
  "array_type VString = VStringArray"
| "array_type VInt = VIntArray"
| "array_type VFloat = VFloatArray"
| "array_type VBool = VBoolArray"
| "array_type t = t"

definition var_type_p :: "var_type spanned pm" where
  "var_type_p =
     spanned (
       pbind (take_as scalar_type ''a type (string, int, float, or bool)'') (\<lambda>(scalar, _).
       pbind (eat TLBracket) (\<lambda>arr.
       if arr then
         pbind (expect TRBracket (quoted '']'' @ '' to close the array type'')) (\<lambda>_.
         pret (array_type scalar))
       else pret scalar)))"

definition var_decl_p :: "var_decl pm" where
  "var_decl_p =
     pbind (expect_ident ''a variable name'') (\<lambda>name.
     pbind (expect TColon (quoted '':'' @ '' after the variable name'')) (\<lambda>_.
     pbind var_type_p (\<lambda>ty.
     pbind (eat TAssign) (\<lambda>has.
     if has then
       pbind literal (\<lambda>d. pret \<lparr>vd_name = name, vd_type = ty, vd_default = Some d\<rparr>)
     else pret \<lparr>vd_name = name, vd_type = ty, vd_default = None\<rparr>))))"

definition column_ref_p :: "column_ref spanned pm" where
  "column_ref_p =
     spanned (
       pbind (expect_ident ''a table name'') (\<lambda>(table, _).
       pbind (expect TDot (quoted ''.'' @ '' between table and column'')) (\<lambda>_.
       pbind (expect_ident ''a column name'') (\<lambda>(column, _).
       pret \<lparr>cr_table = table, cr_column = column\<rparr>))))"

definition table_pattern_p :: "table_pattern pm" where
  "table_pattern_p =
     (\<lambda>p. case peek_as as_regex p of
            Some s \<Rightarrow> pmap PRegex (take_as as_regex '''') p
          | None \<Rightarrow>
              if peek_as as_ident p \<noteq> None then pmap PExact (expect_ident ''a table name'') p
              else perr_here ''a table name or /regex/ pattern'' p)"

definition table_pattern_list :: "table_pattern list pm" where
  "table_pattern_list = comma_list table_pattern_p"

definition assignment_p :: "assignment spanned pm" where
  "assignment_p =
     spanned (
       pbind (expect_ident ''a column name'') (\<lambda>column.
       pbind (expect TAssign (quoted ''='' @ '' after the column name'')) (\<lambda>_.
       pbind val (\<lambda>v. pret \<lparr>as_column = column, as_value = v\<rparr>))))"

section \<open>The clauses of aggregate and get bodies\<close>

definition where_clause_p :: "string_literal spanned option pm" where
  "where_clause_p =
     pbind (eat TWhere) (\<lambda>b.
       if b then pmap Some (string_literal (''a condition string after '' @ quoted ''where''))
       else pret None)"

definition direction_p :: "sort_direction option pm" where
  "direction_p =
     (\<lambda>p. if peek p = Some TAsc then pbind (padvance 1) (\<lambda>_. pret (Some Asc)) p
          else if peek p = Some TDesc then pbind (padvance 1) (\<lambda>_. pret (Some Desc)) p
          else pret None p)"

definition order_by_p :: "order_by_clause option pm" where
  "order_by_p =
     pbind (eat TOrder) (\<lambda>b.
       if b then
         pbind (expect TBy (quoted ''by'' @ '' after '' @ quoted ''order'')) (\<lambda>_.
         pbind (expect_ident (''a column name after '' @ quoted ''order by'')) (\<lambda>column.
         pbind direction_p (\<lambda>d. pret (Some \<lparr>ob_column = column, ob_direction = d\<rparr>))))
       else pret None)"

definition limit_value_p :: "limit_value pm" where
  "limit_value_p =
     (\<lambda>p. case peek_as as_int p of
            Some n \<Rightarrow> pbind (padvance 1) (\<lambda>_. pret (LimLiteral n)) p
          | None \<Rightarrow>
              if peek p = Some TDollar then
                pbind (padvance 1) (\<lambda>_.
                pbind (expect_ident (''a variable name after '' @ quoted ''$'')) (\<lambda>(v, _).
                pret (LimVariable v))) p
              else perr_here (''a number or $variable after '' @ quoted ''limit'') p)"

definition limit_p :: "limit_value spanned option pm" where
  "limit_p =
     pbind (eat TLimit) (\<lambda>b. if b then pmap Some (spanned limit_value_p) else pret None)"

definition exclude_p :: "table_pattern list pm" where
  "exclude_p = pbind (eat TExclude) (\<lambda>b. if b then table_pattern_list else pret [])"

record query_clauses =
  qc_where :: "string_literal spanned option"
  qc_order_by :: "order_by_clause option"
  qc_limit :: "limit_value spanned option"
  qc_exclude_tables :: "table_pattern list"
  qc_root_only :: bool

definition query_clauses_p :: "query_clauses pm" where
  "query_clauses_p =
     pbind where_clause_p (\<lambda>w.
     pbind order_by_p (\<lambda>ob.
     pbind limit_p (\<lambda>l.
     pbind exclude_p (\<lambda>ex.
     pbind (eat TRootOnly) (\<lambda>ro.
     pret \<lparr>qc_where = w, qc_order_by = ob, qc_limit = l, qc_exclude_tables = ex,
           qc_root_only = ro\<rparr>)))))"

section \<open>The statements\<close>

definition import_stmt :: "statement_kind pm" where
  "import_stmt =
     pbind (padvance 1) (\<lambda>_.
     pmap SImport (string_raw (''a file path string after '' @ quoted ''import'')))"

definition var_stmt :: "statement_kind pm" where
  "var_stmt = pbind (padvance 1) (\<lambda>_. pmap SVar var_decl_p)"

definition faker_value_p :: "faker_value spanned pm" where
  "faker_value_p =
     spanned (
       pbind (eat TSpread) (\<lambda>b.
       if b then
         pbind (expect TDollar (quoted ''$'' @ '' after '' @ quoted ''...'')) (\<lambda>_.
         pbind (expect_ident (''a variable name after '' @ quoted ''...$'')) (\<lambda>(v, _).
         pret (FSpread v)))
       else
         pbind (string_literal ''a string value or ...$variable'') (\<lambda>(lit, _).
         pret (FLiteral lit))))"

definition faker_source_p :: "faker_source pm" where
  "faker_source_p =
     pbind (eat TDollar) (\<lambda>b.
     if b then
       pbind (expect_ident (''a variable name after '' @ quoted ''$'')) (\<lambda>(v, _). pret (FVariable v))
     else (\<lambda>p.
       if peek p = Some TLBracket then
         pbind (padvance 1) (\<lambda>_.
         pbind (\<lambda>p. if peek p \<noteq> Some TRBracket then sep_list TRBracket faker_value_p p
                     else pret [] p) (\<lambda>vals.
         pbind (expect TRBracket (quoted '']'' @ '' to close the faker value list'')) (\<lambda>_.
         pret (FArray vals)))) p
       else perr_here (quoted ''['' @ '' or '' @ quoted ''$'' @ '' after the faker name'') p))"

definition faker_stmt :: "statement_kind pm" where
  "faker_stmt =
     pbind (padvance 1) (\<lambda>_.
     pbind (expect_ident ''a faker pool name'') (\<lambda>name.
     pbind faker_source_p (\<lambda>src.
     pret (SFaker \<lparr>fd_name = name, fd_source = src\<rparr>))))"

definition relation_stmt :: "bool \<Rightarrow> statement_kind pm" where
  "relation_stmt ignore =
     pbind (padvance 1) (\<lambda>_.
     pbind column_ref_p (\<lambda>from.
     pbind (expect TArrow (quoted ''->'' @ '' between the relation columns'')) (\<lambda>_.
     pbind column_ref_p (\<lambda>to.
     pret (let d = \<lparr>rd_from = from, rd_to = to\<rparr> in
           if ignore then SIgnoreRelation d else SRelation d)))))"

definition anonymize_target_p :: "anonymize_target pm" where
  "anonymize_target_p =
     (\<lambda>p. if peek p = Some TNull then pbind (padvance 1) (\<lambda>_. pret ANull) p
          else if peek_as as_ident p \<noteq> None then pmap AFaker (expect_ident ''a faker name'') p
          else perr_here (quoted ''null'' @ '' or a faker name after '' @ quoted ''->'') p)"

definition anonymize_rule_p :: "anonymize_rule spanned pm" where
  "anonymize_rule_p =
     spanned (
       pbind (expect_ident ''a column name'') (\<lambda>column.
       pbind (expect TArrow (quoted ''->'' @ '' after the column name'')) (\<lambda>_.
       pbind anonymize_target_p (\<lambda>t.
       pret \<lparr>ar_column = column, ar_target = t\<rparr>))))"

definition anonymize_stmt :: "statement_kind pm" where
  "anonymize_stmt =
     pbind (padvance 1) (\<lambda>_.
     pbind (expect_ident (''a table name after '' @ quoted ''anonymize'')) (\<lambda>table.
     pbind (expect TLBrace (quoted ''{'' @ '' to open the anonymize block'')) (\<lambda>_.
     pbind (ident_list anonymize_rule_p) (\<lambda>rules.
     pbind (expect TRBrace (quoted ''}'' @ '' to close the anonymize block'')) (\<lambda>_.
     pret (SAnonymize \<lparr>ab_table = table, ab_rules = rules\<rparr>))))))"

definition aggregate_stmt :: "statement_kind pm" where
  "aggregate_stmt =
     pbind (padvance 1) (\<lambda>_.
     pbind (expect_ident ''an aggregate name'') (\<lambda>name.
     pbind (expect TLBrace (quoted ''{'' @ '' to open the aggregate block'')) (\<lambda>_.
     pbind (expect TRoot (quoted ''root'' @ '' as the first clause of an aggregate'')) (\<lambda>_.
     pbind (expect_ident ''the root table name'') (\<lambda>root.
     pbind query_clauses_p (\<lambda>qc.
     pbind (expect TRBrace (quoted ''}'' @ '' to close the aggregate block'')) (\<lambda>_.
     pret (SAggregate
       \<lparr>ag_name = name, ag_root = root, ag_where = qc_where qc, ag_order_by = qc_order_by qc,
        ag_limit = qc_limit qc, ag_exclude_tables = qc_exclude_tables qc,
        ag_root_only = qc_root_only qc\<rparr>))))))))"

definition get_stmt :: "statement_kind pm" where
  "get_stmt =
     pbind (padvance 1) (\<lambda>_.
     pbind (expect_ident ''a get function name'') (\<lambda>name.
     pbind (expect TLParen (quoted ''('' @ '' after the get function name'')) (\<lambda>_.
     pbind (\<lambda>p. if peek p \<noteq> Some TRParen then sep_list TRParen (spanned var_decl_p) p
                 else pret [] p) (\<lambda>params.
     pbind (expect TRParen (quoted '')'' @ '' to close the parameter list'')) (\<lambda>_.
     pbind (expect TLBrace (quoted ''{'' @ '' to open the get function body'')) (\<lambda>_.
     pbind (expect_ident ''the aggregate name to fetch'') (\<lambda>aggregate.
     pbind query_clauses_p (\<lambda>qc.
     pbind (expect TRBrace (quoted ''}'' @ '' to close the get function body'')) (\<lambda>_.
     pret (SGet
       \<lparr>gf_name = name, gf_params = params, gf_aggregate = aggregate, gf_where = qc_where qc,
        gf_order_by = qc_order_by qc, gf_limit = qc_limit qc,
        gf_exclude_tables = qc_exclude_tables qc, gf_root_only = qc_root_only qc\<rparr>))))))))))"

definition preserve_stmt_p :: "statement_kind pm" where
  "preserve_stmt_p =
     pbind (padvance 1) (\<lambda>_.
     pbind (expect_ident (''a table name after '' @ quoted ''preserve'')) (\<lambda>table.
     pbind (expect TWhere (quoted ''where'' @ '' after the table name'')) (\<lambda>_.
     pbind (string_literal (''a condition string after '' @ quoted ''where'')) (\<lambda>w.
     pret (SPreserve \<lparr>pv_table = table, pv_where = w\<rparr>)))))"

definition set_stmt :: "statement_kind pm" where
  "set_stmt =
     pbind (padvance 1) (\<lambda>_.
     pbind (expect_ident (''a table name after '' @ quoted ''set'')) (\<lambda>table.
     pbind (expect TLBrace (quoted ''{'' @ '' to open the set block'')) (\<lambda>_.
     pbind (expect TMatch (quoted ''match'' @ '' as the first clause of a set block'')) (\<lambda>_.
     pbind (comma_list assignment_p) (\<lambda>m.
     pbind (ident_list assignment_p) (\<lambda>as.
     pbind (expect TRBrace (quoted ''}'' @ '' to close the set block'')) (\<lambda>_.
     pret (SSet \<lparr>sb_table = table, sb_match = m, sb_assignments = as\<rparr>))))))))"

definition as_sql_string :: "token \<Rightarrow> string option" where
  "as_sql_string t = (case as_multiline t of Some s \<Rightarrow> Some s | None \<Rightarrow> as_string t)"

definition after_stmt :: "statement_kind pm" where
  "after_stmt =
     pbind (padvance 1) (\<lambda>_.
     pbind (expect TLBrace (quoted ''{'' @ '' to open the after block'')) (\<lambda>_.
     pbind (ploop (\<lambda>acc p.
       if peek_as as_sql_string p \<noteq> None then
         pbind (take_as as_sql_string '''') (\<lambda>s. pret (Inl (acc @ [s]))) p
       else pret (Inr acc) p) []) (\<lambda>ss.
     pbind (expect TRBrace (quoted ''}'' @ '' to close the after block'')) (\<lambda>_.
     pret (SAfter \<lparr>af_statements = ss\<rparr>)))))"

definition statement_kind_p :: "statement_kind pm" where
  "statement_kind_p =
     (\<lambda>p. if peek p = Some TImport then import_stmt p
          else if peek p = Some TVar then var_stmt p
          else if peek p = Some TFaker then faker_stmt p
          else if peek p = Some TRelation then relation_stmt False p
          else if peek p = Some TIgnoreRelation then relation_stmt True p
          else if peek p = Some TAnonymize then anonymize_stmt p
          else if peek p = Some TExcludeData then
            pbind (padvance 1) (\<lambda>_. pmap SExclude table_pattern_p) p
          else if peek p = Some TIgnoreTable then
            pbind (padvance 1) (\<lambda>_. pmap SIgnore table_pattern_p) p
          else if peek p = Some TFull then
            pbind (padvance 1) (\<lambda>_. pmap SFull table_pattern_list) p
          else if peek p = Some TAggregate then aggregate_stmt p
          else if peek p = Some TGet then get_stmt p
          else if peek p = Some TPreserve then preserve_stmt_p p
          else if peek p = Some TSet then set_stmt p
          else if peek p = Some TAfter then after_stmt p
          else perr_here
            (''a statement (import, var, faker, relation, ignore_relation, anonymize, '' @
             ''exclude_data, ignore_table, full, aggregate, get, preserve, set, or after)'') p)"

text \<open>\<open>#[when(expr)]\<close>\<close>

definition attribute_p :: "expr spanned pm" where
  "attribute_p =
     pbind (expect THash (quoted ''#'')) (\<lambda>_.
     pbind (expect TLBracket (quoted ''['' @ '' after '' @ quoted ''#'')) (\<lambda>_.
     pbind (expect TWhen (quoted ''when'')) (\<lambda>_.
     pbind (expect TLParen (quoted ''('' @ '' after '' @ quoted ''when'')) (\<lambda>_.
     pbind expr (\<lambda>e.
     pbind (expect TRParen (quoted '')'' @ '' to close the when condition'')) (\<lambda>_.
     pbind (expect TRBracket (quoted '']'' @ '' to close the attribute'')) (\<lambda>_.
     pret e)))))))"

definition statement_p :: "statement pm" where
  "statement_p =
     pbind (\<lambda>p. if peek p = Some THash then pmap Some attribute_p p else pret None p) (\<lambda>attr.
     pbind statement_kind_p (\<lambda>k.
     pret \<lparr>st_attribute = attr, st_kind = k\<rparr>))"

section \<open>The program and the entry points\<close>

text \<open>One round of the loop of \<open>program\<close>: a statement, or an error and a resynchronisation.\<close>

definition program_step :: "statement spanned list \<Rightarrow> (statement spanned list + program) pm" where
  "program_step acc =
     (\<lambda>p. if at_end p then pret (Inr \<lparr>pg_statements = acc\<rparr>) p
          else
            (case statement_p p of
               (Done s, p') \<Rightarrow>
                 pret (Inl (acc @ [(s, mk_span (sp_start (cur_span p)) (prev_end p'))])) p'
             | (Fail e, p') \<Rightarrow>
                 pret (Inl acc) (synchronize (p'\<lparr>ps_errors := ps_errors p' @ [e]\<rparr>))
             | (NoFuel, p') \<Rightarrow> pfuel p'))"

definition program_p :: "program pm" where
  "program_p = ploop program_step []"

definition parse_tokens ::
  "token spanned list \<Rightarrow> span \<Rightarrow> (parse_error, program) outcome \<times> parse_error list" where
  "parse_tokens toks eoi = (case program_p (parser_new toks eoi) of (r, p) \<Rightarrow> (r, ps_errors p))"

definition parse :: "string \<Rightarrow> (parse_error list, program) outcome" where
  "parse source =
     (case lex source of
        (toks, errors) \<Rightarrow>
          (case parse_tokens toks (mk_span (length source) (length source)) of
             (Done prog, parse_errors) \<Rightarrow>
               if errors @ parse_errors = [] then Done prog else Fail (errors @ parse_errors)
           | (_, _) \<Rightarrow> NoFuel))"

section \<open>Every method returns and moves forward\<close>

lemma safe_pieces [parse_rules]:
  "safe var_type_p p" "safe var_decl_p p" "safe column_ref_p p" "safe assignment_p p"
  unfolding var_type_p_def var_decl_p_def column_ref_p_def assignment_p_def
  by (intro parse_rules)+

lemma safe_table_pattern [parse_rules]: "safe table_pattern_p p"
  unfolding table_pattern_p_def by (intro parse_rules)

lemma safe_table_pattern_list [parse_rules]: "safe table_pattern_list p"
  unfolding table_pattern_list_def
  using safe_comma_list [of p table_pattern_p] safe_table_pattern by (auto simp: safe_def)

lemma safe_clauses [parse_rules]:
  "safe where_clause_p p" "safe direction_p p" "safe order_by_p p" "safe limit_value_p p"
  "safe limit_p p" "safe exclude_p p" "safe query_clauses_p p"
proof -
  show w [parse_rules]: "safe where_clause_p p" for p
    unfolding where_clause_p_def by (intro parse_rules)
  show d [parse_rules]: "safe direction_p p" for p
    unfolding direction_p_def by (intro parse_rules) simp_all
  show o [parse_rules]: "safe order_by_p p" for p
    unfolding order_by_p_def by (intro parse_rules)
  show lv [parse_rules]: "safe limit_value_p p" for p
    unfolding limit_value_p_def by (intro parse_rules) (auto dest: peek_as_Some)
  show l [parse_rules]: "safe limit_p p" for p
    unfolding limit_p_def by (intro parse_rules)
  show e [parse_rules]: "safe exclude_p p" for p
    unfolding exclude_p_def by (intro parse_rules)
  show "safe query_clauses_p p"
    unfolding query_clauses_p_def by (intro parse_rules)
qed

lemma safe_faker_value [parse_rules]: "safe faker_value_p p"
  unfolding faker_value_p_def by (intro parse_rules)

lemma safe_faker_source [parse_rules]: "safe faker_source_p p"
  unfolding faker_source_p_def by (intro parse_rules safe_sep_list) simp_all

lemma safe_anonymize_target [parse_rules]: "safe anonymize_target_p p"
  unfolding anonymize_target_p_def by (intro parse_rules) simp_all

lemma safe_anonymize_rule [parse_rules]: "safe anonymize_rule_p p"
  unfolding anonymize_rule_p_def by (intro parse_rules)

text \<open>A method that steps over its first token advances.\<close>

lemma padvance_bind:
  assumes "\<And>q. safe m q" "peek p \<noteq> None"
  shows "safe (pbind (padvance 1) (\<lambda>_. m)) p" and "advances (pbind (padvance 1) (\<lambda>_. m)) p"
proof -
  show "safe (pbind (padvance 1) (\<lambda>_. m)) p"
    by (intro parse_rules assms)
  show "advances (pbind (padvance 1) (\<lambda>_. m)) p"
    unfolding advances_def
  proof (intro allI impI)
    fix x q
    assume "pbind (padvance 1) (\<lambda>_. m) p = (Done x, q)"
    then have m: "m (p\<lparr>ps_pos := Suc (ps_pos p)\<rparr>) = (Done x, q)"
      by (simp add: pbind_Done padvance_Done)
    have f: "pframe p (p\<lparr>ps_pos := Suc (ps_pos p)\<rparr>)" by (rule pframe_advance [OF assms(2)])
    show "ps_pos p < ps_pos q"
      using safeD [OF assms(1) pframe_wf [OF f] m] by (simp add: pframe_def)
  qed
qed

lemma take_as_advances: "(\<And>x q. safe (f x) q) \<Longrightarrow> wf_parser p \<Longrightarrow> advances (pbind (take_as g e) f) p"
  by (rule advances_pbind_left) (auto simp: advances_def take_as_Done safe_take_as)

lemma advances_spanned: "advances m p \<Longrightarrow> advances (spanned m) p"
  by (auto simp: advances_def spanned_def done_simps)

lemma rule_advances: "wf_parser p \<Longrightarrow> advances anonymize_rule_p p"
  unfolding anonymize_rule_p_def expect_ident_def
  by (intro advances_spanned take_as_advances parse_rules)

lemma assignment_advances: "wf_parser p \<Longrightarrow> advances assignment_p p"
  unfolding assignment_p_def expect_ident_def
  by (intro advances_spanned take_as_advances parse_rules)

lemma safe_rules [parse_rules]: "safe (ident_list anonymize_rule_p) p"
proof -
  have "safe (ident_list anonymize_rule_p) p" if "wf_parser p"
    using pframe_wf rule_advances by (intro safe_ident_list parse_rules) blast
  then show ?thesis by (simp add: safe_def)
qed

lemma safe_assignments [parse_rules]:
  "safe (ident_list assignment_p) p" "safe (comma_list assignment_p) p"
proof -
  have "safe (ident_list assignment_p) p" if "wf_parser p"
    using pframe_wf assignment_advances by (intro safe_ident_list parse_rules) blast
  then show "safe (ident_list assignment_p) p" by (simp add: safe_def)
  show "safe (comma_list assignment_p) p"
    using safe_comma_list [of p assignment_p] safe_pieces by (auto simp: safe_def)
qed

lemma safe_after_loop [parse_rules]:
  "safe (ploop (\<lambda>acc p. if peek_as as_sql_string p \<noteq> None
       then pbind (take_as as_sql_string '''') (\<lambda>s. pret (Inl (acc @ [s]))) p
       else pret (Inr acc) p) a) p"
  by (rule safe_ploop) (intro parse_rules, auto simp: done_simps split: if_splits)

lemma stmt_safe:
  assumes "peek p \<noteq> None"
  shows "safe import_stmt p" "safe var_stmt p" "safe faker_stmt p" "safe (relation_stmt i) p"
    "safe anonymize_stmt p" "safe aggregate_stmt p" "safe get_stmt p" "safe preserve_stmt_p p"
    "safe set_stmt p" "safe after_stmt p"
  unfolding import_stmt_def var_stmt_def faker_stmt_def relation_stmt_def anonymize_stmt_def
    aggregate_stmt_def get_stmt_def preserve_stmt_p_def set_stmt_def after_stmt_def string_raw_def
  by (rule padvance_bind(1) [OF _ assms]; intro parse_rules safe_sep_list)+

lemma stmt_advances:
  assumes "peek p \<noteq> None"
  shows "advances import_stmt p" "advances var_stmt p" "advances faker_stmt p"
    "advances (relation_stmt i) p" "advances anonymize_stmt p" "advances aggregate_stmt p"
    "advances get_stmt p" "advances preserve_stmt_p p" "advances set_stmt p" "advances after_stmt p"
  unfolding import_stmt_def var_stmt_def faker_stmt_def relation_stmt_def anonymize_stmt_def
    aggregate_stmt_def get_stmt_def preserve_stmt_p_def set_stmt_def after_stmt_def string_raw_def
  by (rule padvance_bind(2) [OF _ assms]; intro parse_rules safe_sep_list)+

lemma pattern_stmt:
  assumes "peek p \<noteq> None"
  shows "safe (pbind (padvance 1) (\<lambda>_. pmap f table_pattern_p)) p"
    "advances (pbind (padvance 1) (\<lambda>_. pmap f table_pattern_p)) p"
    "safe (pbind (padvance 1) (\<lambda>_. pmap g table_pattern_list)) p"
    "advances (pbind (padvance 1) (\<lambda>_. pmap g table_pattern_list)) p"
  by (rule padvance_bind [OF _ assms]; intro parse_rules)+

lemma advances_if: "(c p \<Longrightarrow> advances a p) \<Longrightarrow> (\<not> c p \<Longrightarrow> advances b p) \<Longrightarrow>
    advances (\<lambda>p. if c p then a p else b p) p"
  by (simp add: advances_def)

lemma safe_statement_kind [parse_rules]: "safe statement_kind_p p"
  unfolding statement_kind_p_def
  by (intro safe_if_fun stmt_safe pattern_stmt safe_perr_here) simp_all

lemma advances_statement_kind: "advances statement_kind_p p"
  unfolding statement_kind_p_def
  by (intro advances_if stmt_advances pattern_stmt) (simp_all add: advances_def)

lemma safe_attribute [parse_rules]: "safe attribute_p p"
  unfolding attribute_p_def by (intro parse_rules) (auto dest: pframe_wf)

lemma safe_statement [parse_rules]: "safe statement_p p"
  unfolding statement_p_def by (intro parse_rules)

lemma advances_statement: "wf_parser p \<Longrightarrow> advances statement_p p"
  unfolding advances_def
proof (intro allI impI)
  fix x q
  assume wf: "wf_parser p" and "statement_p p = (Done x, q)"
  then obtain a p1 k where
    a: "(\<lambda>p. if peek p = Some THash then pmap Some attribute_p p else pret None p) p = (Done a, p1)"
    and k: "statement_kind_p p1 = (Done k, q)"
    by (auto simp: statement_p_def done_simps)
  have "safe (\<lambda>p. if peek p = Some THash then pmap Some attribute_p p else pret None p) p"
    by (intro parse_rules)
  from safeD [OF this wf a] have "ps_pos p \<le> ps_pos p1" by (simp add: pframe_def)
  then show "ps_pos p < ps_pos q" using advances_statement_kind k by (fastforce simp: advances_def)
qed

lemma program_step_cases:
  assumes "wf_parser p"
  shows "safe (program_step acc) p"
    and "program_step acc p = (Done (Inl acc'), q) \<Longrightarrow> ps_pos p < ps_pos q"
proof -
  obtain r p' where st: "statement_p p = (r, p')" by (cases "statement_p p")
  have s: "r \<noteq> NoFuel" "pframe p p'" using safeD [OF safe_statement assms st] by auto
  let ?p2 = "\<lambda>e. p'\<lparr>ps_errors := ps_errors p' @ [e]\<rparr>"
  have wf2: "wf_parser (?p2 e)" and f2: "pframe p (?p2 e)" for e
    using s(2) by (auto simp: pframe_def wf_parser_def)
  note sy = synchronize_frame [OF wf2]
  show "safe (program_step acc) p"
    using s st pframe_trans [OF f2 sy(1)] assms
    by (cases r) (auto simp: safe_def program_step_def pret_def)
  assume d: "program_step acc p = (Done (Inl acc'), q)"
  then have na: "\<not> at_end p" by (auto simp: program_step_def pret_def split: if_splits)
  show "ps_pos p < ps_pos q"
  proof (cases r)
    case (Done x)
    then have "q = p'" using d st na by (simp add: program_step_def pret_def)
    then show ?thesis using advances_statement [OF assms] st Done by (auto simp: advances_def)
  next
    case (Fail e)
    then have q: "q = synchronize (?p2 e)" using d st na by (simp add: program_step_def pret_def)
    have le: "ps_pos p \<le> ps_pos p'" using s(2) by (simp add: pframe_def)
    show ?thesis
    proof (cases "at_end (?p2 e)")
      case True
      then have "ps_pos p < ps_pos p'" using na s(2) by (simp add: at_end_def pframe_def)
      then show ?thesis using sy(1) [of e] q by (simp add: pframe_def)
    next
      case False
      then show ?thesis using sy(3) [of e] q le by simp
    qed
  qed (use s in simp)
qed

lemma program_safe: "safe program_p p"
proof -
  have "safe program_p p" if "wf_parser p"
    unfolding program_p_def using program_step_cases pframe_wf by (intro safe_ploop) blast+
  then show ?thesis by (simp add: safe_def)
qed

section \<open>What parsing returns\<close>

lemma ploop_fuel_Done:
  "ploop_fuel n step a p = (Done b, q) \<Longrightarrow> \<exists>a' p'. step a' p' = (Done (Inr b), q)"
proof (induction n arbitrary: a p)
  case (Suc n)
  then obtain r p1 where r: "step a p = (Done r, p1)"
    "(case r of Inl a' \<Rightarrow> ploop_fuel n step a' | Inr b \<Rightarrow> pret b) p1 = (Done b, q)"
    by (auto simp: pbind_Done)
  then show ?case using Suc.IH by (cases r) (auto simp: pret_Done)
qed (simp add: pfuel_def)

lemma ploop_fuel_Fail:
  "ploop_fuel n step a p = (Fail e, q) \<Longrightarrow> \<exists>a' p'. fst (step a' p') = Fail e"
proof (induction n arbitrary: a p)
  case (Suc n)
  show ?case
  proof (cases "step a p")
    case (Pair r p1)
    show ?thesis
    proof (cases r)
      case (Done x)
      then show ?thesis using Suc Pair by (cases x) (auto simp: pbind_def pret_def)
    next
      case (Fail e')
      then show ?thesis using Suc.prems Pair by (intro exI [of _ a] exI [of _ p]) (simp add: pbind_def)
    next
      case NoFuel
      then show ?thesis using Suc.prems Pair by (simp add: pbind_def)
    qed
  qed
qed (simp add: pfuel_def)

lemma ploop_Done: "ploop step a p = (Done b, q) \<Longrightarrow> \<exists>a' p'. step a' p' = (Done (Inr b), q)"
  unfolding ploop_def by (rule ploop_fuel_Done)

lemma ploop_Fail: "ploop step a p = (Fail e, q) \<Longrightarrow> \<exists>a' p'. fst (step a' p') = Fail e"
  unfolding ploop_def by (rule ploop_fuel_Fail)

lemma program_step_not_Fail: "fst (program_step acc p) \<noteq> Fail e"
  by (auto simp: program_step_def pret_def pfuel_def split: prod.split outcome.split)

lemma program_step_Inr: "program_step acc p = (Done (Inr b), q) \<Longrightarrow> at_end q"
  by (auto simp: program_step_def pret_def pfuel_def split: prod.splits outcome.splits if_splits)

lemma wf_parser_new: "wf_parser (parser_new toks eoi)"
  by (simp add: wf_parser_def parser_new_def)

lemma program_Done:
  "\<exists>prog q. program_p (parser_new toks eoi) = (Done prog, q) \<and> at_end q \<and>
     pframe (parser_new toks eoi) q"
proof -
  obtain r q where r: "program_p (parser_new toks eoi) = (r, q)" by (cases "program_p (parser_new toks eoi)")
  have s: "r \<noteq> NoFuel" "pframe (parser_new toks eoi) q"
    using safeD [OF program_safe wf_parser_new r] by auto
  have "r \<noteq> Fail e" for e
    using r program_step_not_Fail by (auto simp: program_p_def dest!: ploop_Fail)
  then obtain prog where p: "r = Done prog" using s by (cases r) auto
  then have "at_end q"
    using r by (auto simp: program_p_def dest!: ploop_Done program_step_Inr)
  then show ?thesis using r p s by blast
qed

text \<open>The statements of a program cover successive pieces of the token stream.\<close>

definition spans_chain :: "nat \<Rightarrow> span list \<Rightarrow> nat \<Rightarrow> bool" where
  "spans_chain lo sps hi \<longleftrightarrow>
     sorted_wrt (\<lambda>a b. sp_end a \<le> sp_start b) sps \<and>
     (\<forall>sp \<in> set sps. lo \<le> sp_start sp \<and> sp_start sp < sp_end sp \<and> sp_end sp \<le> hi)"

text \<open>The end of the last token before the cursor.\<close>

definition consumed_to :: "parser \<Rightarrow> nat" where
  "consumed_to p = (if ps_pos p = 0 then 0 else sp_end (snd (ps_tokens p ! (ps_pos p - 1))))"

definition stream_ok :: "nat \<Rightarrow> token spanned list \<Rightarrow> bool" where
  "stream_ok n toks \<longleftrightarrow>
     sorted_wrt (\<lambda>a b. sp_end (snd a) \<le> sp_start (snd b)) toks \<and>
     (\<forall>t \<in> set toks. sp_start (snd t) < sp_end (snd t) \<and> sp_end (snd t) \<le> n)"

lemma stream_span:
  assumes "stream_ok n toks" "i < j" "j \<le> length toks"
  shows "sp_start (snd (toks ! i)) < sp_end (snd (toks ! (j - 1)))"
    and "sp_end (snd (toks ! (j - 1))) \<le> n"
    and "j < k \<Longrightarrow> k \<le> length toks \<Longrightarrow> sp_end (snd (toks ! (j - 1))) \<le> sp_start (snd (toks ! (k - 1)))"
proof -
  have el: "sp_start (snd (toks ! k)) < sp_end (snd (toks ! k)) \<and> sp_end (snd (toks ! k)) \<le> n"
    if "k < length toks" for k
    using assms(1) that by (auto simp: stream_ok_def)
  have so: "sp_end (snd (toks ! a)) \<le> sp_start (snd (toks ! b))" if "a < b" "b < length toks" for a b
    using assms(1) that sorted_wrt_nth_less by (fastforce simp: stream_ok_def)
  show "sp_start (snd (toks ! i)) < sp_end (snd (toks ! (j - 1)))"
  proof (cases "i = j - 1")
    case True
    then show ?thesis using el [of i] assms by simp
  next
    case False
    then have "i < j - 1" "j - 1 < length toks" using assms by auto
    then show ?thesis using so [of i "j - 1"] el [of i] el [of "j - 1"] by linarith
  qed
  show "sp_end (snd (toks ! (j - 1))) \<le> n" using el [of "j - 1"] assms by simp
  show "sp_end (snd (toks ! (j - 1))) \<le> sp_start (snd (toks ! (k - 1)))"
    if "j < k" "k \<le> length toks" using so [of "j - 1" "k - 1"] that assms by simp
qed

lemma consumed_mono:
  assumes "stream_ok n (ps_tokens p)" "pframe p q"
  shows "consumed_to p \<le> consumed_to q \<and> consumed_to q \<le> n"
proof -
  have q: "consumed_to q \<le> n"
    using assms stream_span(2) [OF assms(1), of 0 "ps_pos q"] by (auto simp: consumed_to_def pframe_def)
  show ?thesis
  proof (cases "ps_pos p = 0 \<or> ps_pos p = ps_pos q")
    case True
    then show ?thesis using q assms(2) by (auto simp: consumed_to_def pframe_def)
  next
    case False
    then have "ps_pos p < ps_pos q" "0 < ps_pos p" "ps_pos q \<le> length (ps_tokens p)"
      using assms(2) by (auto simp: pframe_def)
    then show ?thesis
      using stream_span(3) [OF assms(1), of 0 "ps_pos p" "ps_pos q"]
        stream_span(1) [OF assms(1), of "ps_pos q - 1" "ps_pos q"] q assms(2)
      by (auto simp: consumed_to_def pframe_def)
  qed
qed

lemma spans_chain_snoc:
  "spans_chain lo sps m \<Longrightarrow> m \<le> s \<Longrightarrow> lo \<le> m \<Longrightarrow> s < e \<Longrightarrow> spans_chain lo (sps @ [mk_span s e]) e"
  by (fastforce simp: spans_chain_def sorted_wrt_append)

lemma spans_chain_mono: "spans_chain lo sps m \<Longrightarrow> m \<le> m' \<Longrightarrow> spans_chain lo sps m'"
  by (fastforce simp: spans_chain_def)

lemma program_step_spans:
  assumes "stream_ok n (ps_tokens p)" "wf_parser p" "spans_chain 0 (map snd acc) (consumed_to p)"
    and "program_step acc p = (Done (Inl acc'), q)"
  shows "spans_chain 0 (map snd acc') (consumed_to q)"
proof -
  have na: "\<not> at_end p" using assms(4) by (auto simp: program_step_def pret_def split: if_splits)
  have fr: "pframe p q"
    using safeD [OF program_step_cases(1) [OF assms(2)] assms(2,4)] by simp
  obtain r p' where st: "statement_p p = (r, p')" by (cases "statement_p p")
  show ?thesis
  proof (cases r)
    case (Done s)
    then have q: "q = p'" and acc': "acc' = acc @ [(s, mk_span (sp_start (cur_span p)) (prev_end q))]"
      using assms(4) st na by (auto simp: program_step_def pret_def)
    have lt: "ps_pos p < ps_pos q" using program_step_cases(2) [OF assms(2,4)] .
    have le: "ps_pos q \<le> length (ps_tokens p)" and tq: "ps_tokens q = ps_tokens p" using fr by (auto simp: pframe_def)
    have cs: "cur_span p = snd (ps_tokens p ! ps_pos p)" using lt le by (simp add: cur_span_def)
    have pe: "prev_end q = consumed_to q" using lt by (simp add: prev_end_def consumed_to_def)
    have "consumed_to p \<le> sp_start (cur_span p)"
      using stream_span(3) [OF assms(1), of 0 "ps_pos p" "Suc (ps_pos p)"] lt le
      by (auto simp: consumed_to_def cs)
    moreover have "sp_start (cur_span p) < consumed_to q"
      using stream_span(1) [OF assms(1) lt le] lt tq by (simp add: consumed_to_def cs)
    ultimately show ?thesis using spans_chain_snoc [OF assms(3)] by (simp add: acc' pe)
  next
    case (Fail e)
    then have "acc' = acc" using assms(4) st na by (simp add: program_step_def pret_def)
    then show ?thesis using assms(3) consumed_mono [OF assms(1) fr] spans_chain_mono by blast
  next
    case NoFuel
    then show ?thesis using assms(4) st na by (simp add: program_step_def pfuel_def)
  qed
qed

lemma program_loop_spans:
  "ploop_fuel k program_step acc p = (Done prog, q) \<Longrightarrow> stream_ok n (ps_tokens p) \<Longrightarrow> wf_parser p \<Longrightarrow>
     spans_chain 0 (map snd acc) (consumed_to p) \<Longrightarrow>
     spans_chain 0 (map snd (pg_statements prog)) n"
proof (induction k arbitrary: acc p)
  case (Suc k)
  then obtain r p1 where r: "program_step acc p = (Done r, p1)"
    "(case r of Inl a' \<Rightarrow> ploop_fuel k program_step a' | Inr b \<Rightarrow> pret b) p1 = (Done prog, q)"
    by (auto simp: pbind_Done)
  have fr: "pframe p p1"
    using safeD [OF program_step_cases(1) [OF Suc.prems(3)] Suc.prems(3) r(1)] by simp
  show ?case
  proof (cases r)
    case (Inl acc')
    have "ps_tokens p1 = ps_tokens p" using fr by (simp add: pframe_def)
    then show ?thesis
      using r Inl Suc.prems program_step_spans [OF Suc.prems(2-4)] pframe_wf [OF fr]
      by (intro Suc.IH [of acc' p1]) auto
  next
    case (Inr b)
    then have "b = prog" using r(2) by (simp add: pret_Done)
    moreover have "pg_statements b = acc"
      using r(1) Inr by (auto simp: program_step_def pret_def pfuel_def split: prod.splits outcome.splits if_splits)
    ultimately show ?thesis
      using Suc.prems(4) consumed_mono [OF Suc.prems(2) pframe_refl [OF Suc.prems(3)]] spans_chain_mono by blast
  qed
qed (simp add: pfuel_def)

lemma lex_stream_ok: "stream_ok (length src) (fst (lex src))"
  using lexer_result [where src = src and opts = default_lex_options]
  by (fastforce simp: lex_def tokens_ok_def stream_ok_def split: prod.splits)

lemma parse_cases:
  "(\<exists>prog. parse src = Done prog \<and> spans_chain 0 (map snd (pg_statements prog)) (length src) \<and>
      snd (lex src) = [] \<and> parse_tokens (fst (lex src)) (mk_span (length src) (length src)) = (Done prog, [])) \<or>
   (\<exists>errs. parse src = Fail errs \<and> errs \<noteq> [])"
proof -
  obtain toks errs where l: "lex src = (toks, errs)" by (cases "lex src")
  let ?eoi = "mk_span (length src) (length src)"
  obtain prog q where p: "program_p (parser_new toks ?eoi) = (Done prog, q)"
    using program_Done [of toks ?eoi] by blast
  have "spans_chain 0 (map snd (pg_statements prog)) (length src)"
  proof (rule program_loop_spans)
    show "ploop_fuel (Suc (remaining (parser_new toks ?eoi))) program_step [] (parser_new toks ?eoi) = (Done prog, q)"
      using p unfolding program_p_def ploop_def .
    show "stream_ok (length src) (ps_tokens (parser_new toks ?eoi))"
      using lex_stream_ok [of src] l by (simp add: parser_new_def)
  qed (simp_all add: wf_parser_new spans_chain_def)
  then show ?thesis using l p by (auto simp: parse_def parse_tokens_def)
qed

text \<open>The parser returns for every token stream, having read it to the end: neither the
  statement loop nor any nested loop or recursion runs out of fuel, and errors do not stop it.\<close>

lemma parse_tokens_total:
  "\<exists>prog errs. parse_tokens toks eoi = (Done prog, errs) \<and>
     at_end (snd (program_p (parser_new toks eoi)))"
  using program_Done [of toks eoi] by (auto simp: parse_tokens_def)

text \<open>C1: parsing a source gives either a program, whose statements have non-empty spans in source
  order, disjoint and inside the source, and then neither the lexer nor the parser reported an
  error; or a non-empty list of errors.\<close>

theorem parse_result:
  "case parse src of
     Done prog \<Rightarrow>
       spans_chain 0 (map snd (pg_statements prog)) (length src) \<and> snd (lex src) = [] \<and>
       parse_tokens (fst (lex src)) (mk_span (length src) (length src)) = (Done prog, [])
   | Fail errs \<Rightarrow> errs \<noteq> []
   | NoFuel \<Rightarrow> False"
  using parse_cases [of src] by auto

text \<open>Recovery after a failed statement keeps the tokens and the errors reported so far, always
  moves the cursor forward when there is input left, and stops at the end of the input or at a
  token that can start a statement.\<close>

lemma synchronize_progress:
  assumes "wf_parser p"
  shows "pframe p (synchronize p) \<and> (at_end p \<or> ps_pos p < ps_pos (synchronize p)) \<and>
     (case peek (synchronize p) of None \<Rightarrow> True | Some t \<Rightarrow> starts_statement t)"
  using synchronize_frame [OF assms] by blast

lemma synchronize_progress_witness:
  "let p = parser_new [(TVar, mk_span 0 3), (TComma, mk_span 3 4), (TGet, mk_span 5 8)] (mk_span 8 8)
   in wf_parser p \<and> peek (synchronize p) = Some TGet \<and>
      pframe p (synchronize p) \<and> (at_end p \<or> ps_pos p < ps_pos (synchronize p)) \<and>
      (case peek (synchronize p) of None \<Rightarrow> True | Some t \<Rightarrow> starts_statement t)"
proof -
  let ?p = "parser_new [(TVar, mk_span 0 3), (TComma, mk_span 3 4), (TGet, mk_span 5 8)] (mk_span 8 8)"
  have "wf_parser ?p" by (rule wf_parser_new)
  moreover have "peek (synchronize ?p) = Some TGet" by code_simp
  ultimately show ?thesis using synchronize_progress [of ?p] by (simp add: Let_def)
qed

end
