(* ===== verification/Framing.thy ===== *)
theory Framing
  imports Prelude
begin

text \<open>
  The wire framing and the version handshake (\<open>crates/protocol/src/framing.rs\<close> and
  \<open>crates/protocol/src/handshake.rs\<close>): little-endian integers, length-prefixed messages, the
  buffered \<open>MessageWriter\<close>, raw data chunks and the preamble.

  A reader is the list of bytes still to come; a read returns its value and the rest.  The
  writer below a \<open>MessageWriter\<close> is described by the interface \<open>sink\<close>; the code's own
  implementation of \<open>Write\<close>, the \<open>BufEncoder\<close> over a byte vector, is an instance.  The bincode
  codec is not part of this repository: its encoder and decoder are parameters, and
  \<open>codec_ok\<close> is the documented law that decoding an encoded message gives it back and reports
  the length of the encoding.
\<close>

section \<open>Little-endian integers\<close>

fun le_bytes :: "nat \<Rightarrow> nat \<Rightarrow> bytes" where
  "le_bytes 0 n = []"
| "le_bytes (Suc k) n = char_of (n mod 256) # le_bytes k (n div 256)"

fun le_nat :: "bytes \<Rightarrow> nat" where
  "le_nat [] = 0"
| "le_nat (b # bs) = of_char b + 256 * le_nat bs"

definition u16_to_le :: "u16 \<Rightarrow> bytes" where "u16_to_le x = le_bytes 2 (unat x)"
definition u16_from_le :: "bytes \<Rightarrow> u16" where "u16_from_le bs = word_of_nat (le_nat bs)"
definition u32_to_le :: "u32 \<Rightarrow> bytes" where "u32_to_le x = le_bytes 4 (unat x)"
definition u32_from_le :: "bytes \<Rightarrow> u32" where "u32_from_le bs = word_of_nat (le_nat bs)"

lemma length_le_bytes [simp]: "length (le_bytes k n) = k"
  by (induction k arbitrary: n) auto

lemma le_nat_le_bytes: "le_nat (le_bytes k n) = n mod 256 ^ k"
  by (induction k arbitrary: n) (auto simp: mod_mult2_eq)

lemma le_nat_less: "le_nat bs < 256 ^ length bs"
proof (induction bs)
  case (Cons b bs)
  have "(of_char b :: nat) < 256" by (rule nat_of_char_less_256)
  then have "of_char b + 256 * le_nat bs < 256 * 256 ^ length bs" using Cons by linarith
  then show ?case by simp
qed simp

lemma le_bytes_le_nat: "le_bytes (length bs) (le_nat bs) = bs"
proof (induction bs)
  case (Cons b bs)
  have "(of_char b :: nat) < 256" by (rule nat_of_char_less_256)
  then have "(of_char b + 256 * le_nat bs) mod 256 = (of_char b :: nat)"
    "(of_char b + 256 * le_nat bs) div 256 = le_nat bs" by simp_all
  then show ?case using Cons by simp
qed simp

text \<open>
  What the framing layer relies on: a codec with a fixed width, whose two directions are
  inverse to each other.
\<close>

locale fixed_codec =
  fixes enc :: "'a \<Rightarrow> bytes" and dec :: "bytes \<Rightarrow> 'a" and width :: nat
  assumes enc_length: "length (enc x) = width"
    and dec_enc: "dec (enc x) = x"
    and enc_dec: "length bs = width \<Longrightarrow> enc (dec bs) = bs"
begin

lemma enc_inject: "enc x = enc y \<longleftrightarrow> x = y"
  using dec_enc by metis

lemma prefix_read: "dec (take width (enc x @ rest)) = x" "drop width (enc x @ rest) = rest"
  using enc_length [of x] dec_enc [of x] by simp_all

lemma stream_inject: "enc x @ r = enc y @ s \<longleftrightarrow> x = y \<and> r = s"
  using enc_length enc_inject by (metis append_eq_append_conv)

end

interpretation le16: fixed_codec u16_to_le u16_from_le 2
proof
  fix x :: u16 and bs :: bytes
  show "length (u16_to_le x) = 2" by (simp add: u16_to_le_def)
  have "unat x < 256 ^ 2" using unsigned_less [of x] by simp
  then show "u16_from_le (u16_to_le x) = x"
    by (simp add: u16_to_le_def u16_from_le_def le_nat_le_bytes)
  assume "length bs = 2"
  then show "u16_to_le (u16_from_le bs) = bs"
    using le_nat_less [of bs] le_bytes_le_nat [of bs]
    by (simp add: u16_to_le_def u16_from_le_def unat_of_nat take_bit_eq_mod)
qed

interpretation le32: fixed_codec u32_to_le u32_from_le 4
proof
  fix x :: u32 and bs :: bytes
  show "length (u32_to_le x) = 4" by (simp add: u32_to_le_def)
  have "unat x < 256 ^ 4" using unsigned_less [of x] by simp
  then show "u32_from_le (u32_to_le x) = x"
    by (simp add: u32_to_le_def u32_from_le_def le_nat_le_bytes)
  assume "length bs = 4"
  then show "u32_to_le (u32_from_le bs) = bs"
    using le_nat_less [of bs] le_bytes_le_nat [of bs]
    by (simp add: u32_to_le_def u32_from_le_def unat_of_nat take_bit_eq_mod)
qed

section \<open>Reading and writing\<close>

datatype io_error = UnexpectedEof | InvalidData string | WriteFailed

definition read_exact :: "nat \<Rightarrow> bytes \<Rightarrow> io_error + bytes \<times> bytes" where
  "read_exact n bs = (if length bs < n then Inl UnexpectedEof else Inr (take n bs, drop n bs))"

definition RAW_CHUNK_FLAG :: u32 where "RAW_CHUNK_FLAG = 0x80000000"

definition max_read :: nat where "max_read = 100 * 1024 * 1024"

type_synonym 'm encoder = "'m \<Rightarrow> string + bytes"
type_synonym 'm decoder = "bytes \<Rightarrow> string + 'm \<times> nat"

definition codec_ok :: "'m encoder \<Rightarrow> 'm decoder \<Rightarrow> bool" where
  "codec_ok enc dec \<longleftrightarrow> (\<forall>m bs. enc m = Inr bs \<longrightarrow> dec bs = Inr (m, length bs))"

text \<open>\<open>as u32\<close> keeps the low 32 bits.\<close>

definition as_u32 :: "nat \<Rightarrow> u32" where "as_u32 n = word_of_nat n"

lemma unat_as_u32: "n < 2 ^ 32 \<Longrightarrow> unat (as_u32 n) = n"
  by (simp add: as_u32_def unat_of_nat take_bit_eq_mod)

text \<open>\<open>write_message\<close>, as the bytes it writes.\<close>

definition message_frame :: "'m encoder \<Rightarrow> 'm \<Rightarrow> io_error + bytes" where
  "message_frame enc m =
     (case enc m of
        Inl e \<Rightarrow> Inl (InvalidData e)
      | Inr encoded \<Rightarrow> Inr (u32_to_le (as_u32 (length encoded)) @ encoded))"

definition read_message :: "'m decoder \<Rightarrow> bytes \<Rightarrow> io_error + 'm \<times> bytes" where
  "read_message dec r =
     rbind (read_exact 4 r) (\<lambda>(len_bytes, r1).
     let len = unat (u32_from_le len_bytes) in
     if max_read < len then
       Inl (InvalidData (''Message too large: '' @ nat_string len @ '' bytes''))
     else
       rbind (read_exact len r1) (\<lambda>(buffer, r2).
       case dec buffer of
         Inl e \<Rightarrow> Inl (InvalidData e)
       | Inr (m, _) \<Rightarrow> Inr (m, r2)))"

section \<open>Data stream messages\<close>

datatype data_message_type = DmSchema | DmDataChunk | DmTableEnd | DmAggregateEnd | DmError

fun data_type_byte :: "data_message_type \<Rightarrow> char" where
  "data_type_byte DmSchema = char_of (1 :: nat)"
| "data_type_byte DmDataChunk = char_of (2 :: nat)"
| "data_type_byte DmTableEnd = char_of (3 :: nat)"
| "data_type_byte DmAggregateEnd = char_of (4 :: nat)"
| "data_type_byte DmError = char_of (5 :: nat)"

definition data_type_of_byte :: "char \<Rightarrow> io_error + data_message_type" where
  "data_type_of_byte b =
     (let n = (of_char b :: nat) in
      if n = 1 then Inr DmSchema else if n = 2 then Inr DmDataChunk
      else if n = 3 then Inr DmTableEnd else if n = 4 then Inr DmAggregateEnd
      else if n = 5 then Inr DmError
      else Inl (InvalidData (''Unknown message type: '' @ nat_string n)))"

definition write_data_message :: "data_message_type \<Rightarrow> bytes \<Rightarrow> bytes" where
  "write_data_message t payload =
     u32_to_le (as_u32 (1 + length payload)) @ [data_type_byte t] @ payload"

definition read_data_message_header ::
  "bytes \<Rightarrow> io_error + (data_message_type \<times> nat) \<times> bytes" where
  "read_data_message_header r =
     rbind (read_exact 4 r) (\<lambda>(len_bytes, r1).
     let len = unat (u32_from_le len_bytes) in
     if len = 0 then Inl (InvalidData ''Empty data message'')
     else if max_read < len then
       Inl (InvalidData (''Data message too large: '' @ nat_string len @ '' bytes''))
     else
       rbind (read_exact 1 r1) (\<lambda>(b, r2).
       rbind (data_type_of_byte (hd b)) (\<lambda>t. Inr ((t, len - 1), r2))))"

section \<open>The buffered writer\<close>

record 'w message_writer =
  mw_inner :: 'w
  mw_buf :: bytes
  mw_capacity :: nat

definition mw_with_capacity :: "nat \<Rightarrow> 'w \<Rightarrow> 'w message_writer" where
  "mw_with_capacity cap inner = \<lparr>mw_inner = inner, mw_buf = [], mw_capacity = cap\<rparr>"

text \<open>The operations of the inner writer: \<open>write_all\<close> and \<open>flush\<close>.\<close>

type_synonym 'w write_all = "'w \<Rightarrow> bytes \<Rightarrow> io_error + 'w"
type_synonym 'w flusher = "'w \<Rightarrow> io_error + 'w"

text \<open>
  \<open>encode_into_buf\<close>: four zero bytes, the encoding appended behind them, then the length
  written over the zeros.
\<close>

definition overwrite :: "bytes \<Rightarrow> nat \<Rightarrow> bytes \<Rightarrow> bytes" where
  "overwrite buf pos bs = take pos buf @ bs @ drop (pos + length bs) buf"

definition encode_into_buf :: "'m encoder \<Rightarrow> 'm \<Rightarrow> 'w message_writer \<Rightarrow> io_error + 'w message_writer" where
  "encode_into_buf enc m w =
     (let len_pos = length (mw_buf w); buf1 = mw_buf w @ replicate 4 (char_of (0 :: nat)) in
      case enc m of
        Inl e \<Rightarrow> Inl (InvalidData e)
      | Inr encoded \<Rightarrow>
          (let buf2 = buf1 @ encoded; msg_len = as_u32 (length buf2 - len_pos - 4) in
           Inr (w\<lparr>mw_buf := overwrite buf2 len_pos (u32_to_le msg_len)\<rparr>)))"

definition encode_message :: "'m encoder \<Rightarrow> 'm \<Rightarrow> 'w message_writer \<Rightarrow> io_error + bytes \<times> 'w message_writer" where
  "encode_message enc m w =
     rbind (encode_into_buf enc m (w\<lparr>mw_buf := []\<rparr>)) (\<lambda>w1. Inr (mw_buf w1, w1))"

definition flush_buf :: "'w write_all \<Rightarrow> 'w message_writer \<Rightarrow> io_error + 'w message_writer" where
  "flush_buf wa w =
     (if mw_buf w \<noteq> [] then
        rbind (wa (mw_inner w) (mw_buf w)) (\<lambda>i. Inr (w\<lparr>mw_inner := i, mw_buf := []\<rparr>))
      else Inr w)"

definition mw_flush :: "'w write_all \<Rightarrow> 'w flusher \<Rightarrow> 'w message_writer \<Rightarrow> io_error + 'w message_writer" where
  "mw_flush wa fl w =
     rbind (flush_buf wa w) (\<lambda>w1. rbind (fl (mw_inner w1)) (\<lambda>i. Inr (w1\<lparr>mw_inner := i\<rparr>)))"

definition write_message_noflush ::
  "'w write_all \<Rightarrow> 'm encoder \<Rightarrow> 'm \<Rightarrow> 'w message_writer \<Rightarrow> io_error + 'w message_writer" where
  "write_message_noflush wa enc m w =
     rbind (encode_into_buf enc m w) (\<lambda>w1.
     if mw_capacity w1 \<le> length (mw_buf w1) then flush_buf wa w1 else Inr w1)"

definition mw_write_message ::
  "'w write_all \<Rightarrow> 'w flusher \<Rightarrow> 'm encoder \<Rightarrow> 'm \<Rightarrow> 'w message_writer \<Rightarrow>
     io_error + 'w message_writer" where
  "mw_write_message wa fl enc m w = rbind (write_message_noflush wa enc m w) (mw_flush wa fl)"

definition write_preencoded ::
  "'w write_all \<Rightarrow> bytes \<Rightarrow> 'w message_writer \<Rightarrow> io_error + 'w message_writer" where
  "write_preencoded wa bs w =
     (if length (mw_buf w) + length bs \<le> mw_capacity w then Inr (w\<lparr>mw_buf := mw_buf w @ bs\<rparr>)
      else
        rbind (flush_buf wa w) (\<lambda>w1.
        if length bs \<le> mw_capacity w1 then Inr (w1\<lparr>mw_buf := mw_buf w1 @ bs\<rparr>)
        else rbind (wa (mw_inner w1) bs) (\<lambda>i. Inr (w1\<lparr>mw_inner := i\<rparr>))))"

text \<open>\<open>BufEncoder\<close>: a \<open>Write\<close> that appends to a byte vector and never fails.\<close>

definition buf_write_all :: "bytes \<Rightarrow> bytes \<Rightarrow> io_error + bytes" where
  "buf_write_all buf bs = Inr (buf @ bs)"

definition buf_flush :: "bytes \<Rightarrow> io_error + bytes" where
  "buf_flush buf = Inr buf"

section \<open>Raw data chunks\<close>

definition RAW_CHUNK_HEADER_LEN :: nat where "RAW_CHUNK_HEADER_LEN = 4 + 2 + 2"

record data_chunk =
  dc_table_id :: u16
  dc_row_count :: u16
  dc_tsv_data :: bytes

definition decode_data_chunk :: "bytes \<Rightarrow> io_error + data_chunk" where
  "decode_data_chunk buf =
     (if length buf < 4 then Inl (InvalidData ''Data chunk too short'')
      else
        Inr \<lparr>dc_table_id = u16_from_le [buf ! 0, buf ! 1],
             dc_row_count = u16_from_le [buf ! 2, buf ! 3],
             dc_tsv_data = drop 4 buf\<rparr>)"

section \<open>The handshake\<close>

definition PROTOCOL_MAGIC :: bytes where "PROTOCOL_MAGIC = ''JIBS''"
definition PROTOCOL_VERSION :: u32 where "PROTOCOL_VERSION = 2"
definition PREAMBLE_LEN :: nat where "PREAMBLE_LEN = 8"

definition encode_preamble :: bytes where
  "encode_preamble = PROTOCOL_MAGIC @ u32_to_le PROTOCOL_VERSION"

datatype handshake_error = BadMagic bytes | VersionMismatch u32

definition validate_preamble :: "bytes \<Rightarrow> handshake_error + unit" where
  "validate_preamble buf =
     (let magic = take 4 buf; peer = u32_from_le (drop 4 buf) in
      if magic \<noteq> PROTOCOL_MAGIC then Inl (BadMagic magic)
      else if peer \<noteq> PROTOCOL_VERSION then Inl (VersionMismatch peer)
      else Inr ())"

definition write_preamble :: "'w write_all \<Rightarrow> 'w flusher \<Rightarrow> 'w \<Rightarrow> io_error + 'w" where
  "write_preamble wa fl w = rbind (wa w encode_preamble) fl"

definition read_preamble :: "bytes \<Rightarrow> io_error + bytes \<times> bytes" where
  "read_preamble r = read_exact PREAMBLE_LEN r"

section \<open>Frames are read back\<close>

lemma read_exact_append: "length bs = n \<Longrightarrow> read_exact n (bs @ rest) = Inr (bs, rest)"
  by (simp add: read_exact_def)

lemma read_exact_Inr: "read_exact n r = Inr (bs, r') \<longleftrightarrow> r = bs @ r' \<and> length bs = n"
  by (auto simp: read_exact_def split: if_splits)

lemmas framing_defs = message_frame_def read_message_def rbind.simps Let_def

text \<open>A message written by \<open>write_message\<close> is read back by \<open>read_message\<close>, which leaves exactly
  the bytes that follow the frame, whenever its encoding is at most the 100 MB the reader
  accepts; for any codec that decodes its own encodings.\<close>

lemma message_roundtrip:
  assumes "codec_ok enc dec" "enc m = Inr encoded" "length encoded \<le> max_read"
  shows "\<exists>frame. message_frame enc m = Inr frame \<and>
     read_message dec (frame @ rest) = Inr (m, rest)"
proof -
  have "length encoded < 2 ^ 32" using assms(3) by (simp add: max_read_def)
  then have u: "unat (as_u32 (length encoded)) = length encoded" by (rule unat_as_u32)
  have d: "dec encoded = Inr (m, length encoded)" using assms(1,2) by (simp add: codec_ok_def)
  let ?l = "u32_to_le (as_u32 (length encoded))"
  have "read_message dec ((?l @ encoded) @ rest) = Inr (m, rest)"
    using assms(3) u d read_exact_append [of ?l 4 "encoded @ rest"] le32.dec_enc
      read_exact_append [of encoded "length encoded" rest]
    by (simp add: read_message_def Let_def le32.enc_length)
  then show ?thesis using assms(2) by (simp add: message_frame_def)
qed

text \<open>A codec for the witnesses: a message is its own encoding.\<close>

definition identity_encode :: "bytes encoder" where "identity_encode m = Inr m"
definition identity_decode :: "bytes decoder" where "identity_decode bs = Inr (bs, length bs)"

lemma identity_codec: "codec_ok identity_encode identity_decode"
  by (simp add: codec_ok_def identity_encode_def identity_decode_def)

lemma message_roundtrip_witness:
  "\<exists>frame. message_frame identity_encode ''abc'' = Inr frame \<and>
     read_message identity_decode (frame @ ''rest'') = Inr (''abc'', ''rest'')"
  by (rule message_roundtrip [OF identity_codec, of "''abc''" "''abc''"])
    (simp_all add: identity_encode_def max_read_def)

lemma data_type_roundtrip: "data_type_of_byte (data_type_byte t) = Inr t"
  by (cases t) (simp_all add: data_type_of_byte_def Let_def)

lemma data_type_of_byte_Inr: "data_type_of_byte b = Inr t \<Longrightarrow> b = data_type_byte t"
proof -
  assume t: "data_type_of_byte b = Inr t"
  have k: "b = char_of n" if "(of_char b :: nat) = n" for n using that char_of_char by metis
  show ?thesis using t by (auto simp: data_type_of_byte_def Let_def dest: k split: if_splits)
qed

text \<open>The header of a data stream message is accepted exactly when it is one that
  \<open>write_data_message\<close> writes for a payload within the limit: the type and the payload length
  come back, and the reader stands at the first payload byte.\<close>

lemma data_message_header:
  "read_data_message_header r = Inr ((t, n), rest) \<longleftrightarrow>
     n + 1 \<le> max_read \<and> r = u32_to_le (as_u32 (1 + n)) @ [data_type_byte t] @ rest"
proof
  assume "read_data_message_header r = Inr ((t, n), rest)"
  then obtain lb r1 b r2 where
    l: "read_exact 4 r = Inr (lb, r1)" and
    nz: "unat (u32_from_le lb) \<noteq> 0" "unat (u32_from_le lb) \<le> max_read" and
    b: "read_exact 1 r1 = Inr (b, r2)" and
    t: "data_type_of_byte (hd b) = Inr t" "n = unat (u32_from_le lb) - 1" "rest = r2"
    by (auto simp: read_data_message_header_def Let_def rbind_Inr_iff split: if_splits)
  have "length lb = 4" using l by (simp add: read_exact_Inr)
  then have "u32_to_le (u32_from_le lb) = lb" by (rule le32.enc_dec)
  moreover have "as_u32 (1 + n) = u32_from_le lb" using t(2) nz(1) by (simp add: as_u32_def)
  moreover have "b = [data_type_byte t]"
    using b data_type_of_byte_Inr [OF t(1)] by (cases b) (auto simp: read_exact_Inr)
  ultimately show "n + 1 \<le> max_read \<and> r = u32_to_le (as_u32 (1 + n)) @ [data_type_byte t] @ rest"
    using l b nz t by (auto simp: read_exact_Inr)
next
  assume a: "n + 1 \<le> max_read \<and> r = u32_to_le (as_u32 (1 + n)) @ [data_type_byte t] @ rest"
  then have "unat (as_u32 (1 + n)) = 1 + n" by (intro unat_as_u32) (simp add: max_read_def)
  then show "read_data_message_header r = Inr ((t, n), rest)"
    using a le32.enc_length le32.dec_enc data_type_roundtrip
    by (simp add: read_data_message_header_def read_exact_append read_exact_def Let_def)
qed

text \<open>The preamble check accepts exactly this side's preamble among all byte strings of the
  preamble's length, reports a wrong magic before looking at the version, and otherwise
  reports the version the peer sent.\<close>

lemma validate_preamble_iff:
  assumes "length buf = PREAMBLE_LEN"
  shows "(validate_preamble buf = Inr () \<longleftrightarrow> buf = encode_preamble) \<and>
     (\<forall>magic. validate_preamble buf = Inl (BadMagic magic) \<longleftrightarrow>
        magic = take 4 buf \<and> magic \<noteq> PROTOCOL_MAGIC) \<and>
     (\<forall>v. validate_preamble buf = Inl (VersionMismatch v) \<longleftrightarrow>
        v \<noteq> PROTOCOL_VERSION \<and> buf = PROTOCOL_MAGIC @ u32_to_le v)"
proof -
  have s: "buf = take 4 buf @ drop 4 buf" by simp
  have l: "length (drop 4 buf) = 4" "length PROTOCOL_MAGIC = 4" "length (take 4 buf) = 4"
    using assms by (simp_all add: PREAMBLE_LEN_def PROTOCOL_MAGIC_def)
  have e: "u32_to_le (u32_from_le (drop 4 buf)) = drop 4 buf" by (rule le32.enc_dec [OF l(1)])
  have eq: "buf = PROTOCOL_MAGIC @ u32_to_le v \<longleftrightarrow>
      take 4 buf = PROTOCOL_MAGIC \<and> u32_from_le (drop 4 buf) = v" for v
    using s e l le32.dec_enc [of v] by (metis append_eq_append_conv)
  show ?thesis
    using eq by (auto simp: validate_preamble_def Let_def encode_preamble_def)
qed

lemma validate_preamble_iff_witness:
  "(validate_preamble encode_preamble = Inr () \<longleftrightarrow> encode_preamble = encode_preamble) \<and>
     (\<forall>magic. validate_preamble encode_preamble = Inl (BadMagic magic) \<longleftrightarrow>
        magic = take 4 encode_preamble \<and> magic \<noteq> PROTOCOL_MAGIC) \<and>
     (\<forall>v. validate_preamble encode_preamble = Inl (VersionMismatch v) \<longleftrightarrow>
        v \<noteq> PROTOCOL_VERSION \<and> encode_preamble = PROTOCOL_MAGIC @ u32_to_le v)"
  by (rule validate_preamble_iff)
    (simp add: PREAMBLE_LEN_def encode_preamble_def PROTOCOL_MAGIC_def le32.enc_length)

section \<open>The buffered writer delivers every byte in order\<close>

text \<open>
  The interface of the inner writer: a successful \<open>write_all\<close> appends to what has been
  written, a \<open>flush\<close> changes nothing a reader sees.
\<close>

locale sink =
  fixes wa :: "'w write_all" and fl :: "'w flusher" and contents :: "'w \<Rightarrow> bytes"
  assumes write_all_contents: "wa w bs = Inr w' \<Longrightarrow> contents w' = contents w @ bs"
    and flush_contents: "fl w = Inr w' \<Longrightarrow> contents w' = contents w"
begin

definition delivered :: "'w message_writer \<Rightarrow> bytes" where
  "delivered w = contents (mw_inner w) @ mw_buf w"

lemma flush_buf_delivered:
  "flush_buf wa w = Inr w' \<Longrightarrow>
     delivered w' = delivered w \<and> mw_buf w' = [] \<and> mw_capacity w' = mw_capacity w"
  by (auto simp: flush_buf_def delivered_def rbind_Inr_iff write_all_contents split: if_splits)

lemma mw_flush_delivered:
  "mw_flush wa fl w = Inr w' \<Longrightarrow> delivered w' = delivered w \<and> mw_buf w' = []"
  by (auto simp: mw_flush_def rbind_Inr_iff flush_contents delivered_def
      dest!: flush_buf_delivered)

lemma encode_into_buf_delivered:
  "encode_into_buf enc m w = Inr w' \<Longrightarrow>
     \<exists>frame. message_frame enc m = Inr frame \<and> w' = w\<lparr>mw_buf := mw_buf w @ frame\<rparr>"
  by (auto simp: encode_into_buf_def message_frame_def Let_def overwrite_def le32.enc_length
      split: sum.splits)

lemma noflush_delivered:
  "write_message_noflush wa enc m w = Inr w' \<Longrightarrow>
     \<exists>frame. message_frame enc m = Inr frame \<and> delivered w' = delivered w @ frame"
proof -
  assume "write_message_noflush wa enc m w = Inr w'"
  then obtain w1 where w1: "encode_into_buf enc m w = Inr w1"
    "(if mw_capacity w1 \<le> length (mw_buf w1) then flush_buf wa w1 else Inr w1) = Inr w'"
    by (auto simp: write_message_noflush_def rbind_Inr_iff)
  from encode_into_buf_delivered [OF w1(1)] obtain frame where
    f: "message_frame enc m = Inr frame" "w1 = w\<lparr>mw_buf := mw_buf w @ frame\<rparr>" by blast
  have "delivered w' = delivered w1"
    using w1(2) flush_buf_delivered [of w1 w'] by (auto split: if_splits)
  then show ?thesis using f by (simp add: delivered_def)
qed

lemma write_message_delivered:
  "mw_write_message wa fl enc m w = Inr w' \<Longrightarrow>
     \<exists>frame. message_frame enc m = Inr frame \<and> delivered w' = delivered w @ frame \<and> mw_buf w' = []"
  unfolding mw_write_message_def rbind_Inr_iff
  using noflush_delivered mw_flush_delivered by metis

lemma preencoded_delivered:
  "write_preencoded wa bs w = Inr w' \<Longrightarrow> delivered w' = delivered w @ bs"
proof (cases "length (mw_buf w) + length bs \<le> mw_capacity w")
  case True
  then show "write_preencoded wa bs w = Inr w' \<Longrightarrow> ?thesis"
    by (auto simp: write_preencoded_def delivered_def)
next
  case False
  assume "write_preencoded wa bs w = Inr w'"
  then obtain w1 where w1: "flush_buf wa w = Inr w1"
    "(if length bs \<le> mw_capacity w1 then Inr (w1\<lparr>mw_buf := mw_buf w1 @ bs\<rparr>)
      else rbind (wa (mw_inner w1) bs) (\<lambda>i. Inr (w1\<lparr>mw_inner := i\<rparr>))) = Inr w'"
    using False by (auto simp: write_preencoded_def rbind_Inr_iff)
  then show ?thesis
    using flush_buf_delivered [OF w1(1)]
    by (auto simp: delivered_def rbind_Inr_iff write_all_contents split: if_splits)
qed

lemma preencoded_bounded:
  "write_preencoded wa bs w = Inr w' \<Longrightarrow> length (mw_buf w) \<le> mw_capacity w \<Longrightarrow>
     length (mw_buf w') \<le> mw_capacity w'"
  by (auto simp: write_preencoded_def rbind_Inr_iff split: if_splits dest!: flush_buf_delivered)

end

interpretation vec: sink buf_write_all buf_flush "\<lambda>buf. buf"
  by unfold_locales (auto simp: buf_write_all_def buf_flush_def)

text \<open>What a sequence of writer calls does, and what it sends.\<close>

datatype 'm writer_op = WMessage 'm | WMessageNoflush 'm | WPreencoded bytes | WFlush

fun run_op :: "'w write_all \<Rightarrow> 'w flusher \<Rightarrow> 'm encoder \<Rightarrow> 'm writer_op \<Rightarrow> 'w message_writer \<Rightarrow>
    io_error + 'w message_writer" where
  "run_op wa fl enc (WMessage m) w = mw_write_message wa fl enc m w"
| "run_op wa fl enc (WMessageNoflush m) w = write_message_noflush wa enc m w"
| "run_op wa fl enc (WPreencoded bs) w = write_preencoded wa bs w"
| "run_op wa fl enc WFlush w = mw_flush wa fl w"

fun run_ops :: "'w write_all \<Rightarrow> 'w flusher \<Rightarrow> 'm encoder \<Rightarrow> 'm writer_op list \<Rightarrow> 'w message_writer \<Rightarrow>
    io_error + 'w message_writer" where
  "run_ops wa fl enc [] w = Inr w"
| "run_ops wa fl enc (op # ops) w = rbind (run_op wa fl enc op w) (run_ops wa fl enc ops)"

fun op_bytes :: "'m encoder \<Rightarrow> 'm writer_op \<Rightarrow> bytes" where
  "op_bytes enc (WMessage m) = (case message_frame enc m of Inr f \<Rightarrow> f | Inl e \<Rightarrow> [])"
| "op_bytes enc (WMessageNoflush m) = (case message_frame enc m of Inr f \<Rightarrow> f | Inl e \<Rightarrow> [])"
| "op_bytes enc (WPreencoded bs) = bs"
| "op_bytes enc WFlush = []"

context sink
begin

lemma run_op_delivered:
  "run_op wa fl enc op w = Inr w' \<Longrightarrow> delivered w' = delivered w @ op_bytes enc op"
  by (cases op)
    (auto dest!: write_message_delivered noflush_delivered preencoded_delivered mw_flush_delivered)

lemma run_ops_delivered:
  "run_ops wa fl enc ops w = Inr w' \<Longrightarrow>
     delivered w' = delivered w @ concat (map (op_bytes enc) ops)"
  by (induction ops arbitrary: w) (auto simp: rbind_Inr_iff dest!: run_op_delivered)

end

lemma vec_run_ops:
  "run_ops buf_write_all buf_flush enc ops w = Inr w' \<Longrightarrow>
     mw_inner w' @ mw_buf w' = mw_inner w @ mw_buf w @ concat (map (op_bytes enc) ops)"
  using vec.run_ops_delivered [of enc ops w w'] by (simp add: vec.delivered_def)

text \<open>C8: whatever the capacity and the sequence of messages, pre-encoded frames and flushes, after
  a final flush a \<open>MessageWriter\<close> over a byte vector has delivered exactly the concatenation of
  the frames, in call order, and its buffer is empty.\<close>

theorem message_writer_delivers:
  assumes "run_ops buf_write_all buf_flush enc (ops @ [WFlush]) (mw_with_capacity cap []) = Inr w"
  shows "mw_inner w = concat (map (op_bytes enc) ops) \<and> mw_buf w = []"
proof -
  have split: "run_ops wa fl enc (xs @ ys) w = rbind (run_ops wa fl enc xs w) (run_ops wa fl enc ys)"
    for wa fl xs ys and w :: "bytes message_writer"
  proof (induction xs arbitrary: w)
    case (Cons x xs)
    then show ?case by (cases "run_op wa fl enc x w") auto
  qed simp
  have "mw_buf w = []"
    using assms vec.mw_flush_delivered by (auto simp: split rbind_Inr_iff)
  then show ?thesis
    using vec_run_ops [OF assms] by (simp add: mw_with_capacity_def)
qed

theorem message_writer_delivers_witness:
  "\<exists>w. run_ops buf_write_all buf_flush identity_encode
         ([WMessageNoflush ''ab'', WPreencoded ''0123456789'', WMessage ''c''] @ [WFlush])
         (mw_with_capacity 8 []) = Inr w \<and>
       mw_inner w = concat (map (op_bytes identity_encode)
         [WMessageNoflush ''ab'', WPreencoded ''0123456789'', WMessage ''c'']) \<and> mw_buf w = []"
proof -
  let ?ops = "[WMessageNoflush ''ab'', WPreencoded ''0123456789'', WMessage ''c'']"
  have "\<exists>w. run_ops buf_write_all buf_flush identity_encode (?ops @ [WFlush]) (mw_with_capacity 8 []) = Inr w"
    by (simp add: identity_encode_def mw_with_capacity_def write_message_noflush_def
        encode_into_buf_def Let_def overwrite_def flush_buf_def buf_write_all_def buf_flush_def
        write_preencoded_def mw_write_message_def mw_flush_def le32.enc_length)
  then show ?thesis using message_writer_delivers [of identity_encode ?ops 8] by blast
qed

end
