(* ===== verification/Plan.thy ===== *)
theory Plan
  imports F64
begin

text \<open>
  The data both sides of the protocol share: the execution plan and the schema descriptions
  (\<open>crates/protocol/src/plan.rs\<close>) and the messages (\<open>crates/protocol/src/messages.rs\<close>).  A hash
  set is a set, a hash map a partial map; \<open>Vec\<close> is a list.  Field names carry a short prefix
  of their struct.
\<close>

section \<open>Values and the plan (plan.rs)\<close>

datatype compression_mode = CNone | CZstd | CAuto

definition default_compression :: compression_mode where "default_compression = CAuto"

datatype plan_value =
    PvString string | PvStringArray "string list"
  | PvInt i64 | PvIntArray "i64 list"
  | PvFloat f64 | PvFloatArray "f64 list"
  | PvBool bool | PvBoolArray "bool list"
  | PvNull

fun join :: "string \<Rightarrow> string list \<Rightarrow> string" where
  "join sep [] = []"
| "join sep [x] = x"
| "join sep (x # y # ys) = x @ sep @ join sep (y # ys)"

definition format_array :: "('a \<Rightarrow> string) \<Rightarrow> 'a list \<Rightarrow> string" where
  "format_array f xs = ''['' @ join '', '' (map f xs) @ '']''"

definition show_bool :: "bool \<Rightarrow> string" where
  "show_bool b = (if b then ''true'' else ''false'')"

fun as_string_value :: "plan_value \<Rightarrow> string" where
  "as_string_value (PvString s) = s"
| "as_string_value (PvInt i) = i64_string i"
| "as_string_value (PvFloat f) = f64_string f"
| "as_string_value (PvBool b) = show_bool b"
| "as_string_value PvNull = ''NULL''"
| "as_string_value (PvStringArray xs) = format_array (\<lambda>s. s) xs"
| "as_string_value (PvIntArray xs) = format_array i64_string xs"
| "as_string_value (PvFloatArray xs) = format_array f64_string xs"
| "as_string_value (PvBoolArray xs) = format_array show_bool xs"

fun value_as_int :: "plan_value \<Rightarrow> i64 option" where
  "value_as_int (PvInt i) = Some i"
| "value_as_int _ = None"

fun value_as_bool :: "plan_value \<Rightarrow> bool option" where
  "value_as_bool (PvBool b) = Some b"
| "value_as_bool _ = None"

fun value_as_string_array :: "plan_value \<Rightarrow> string list option" where
  "value_as_string_array (PvStringArray xs) = Some xs"
| "value_as_string_array _ = None"

fun value_as_int_array :: "plan_value \<Rightarrow> i64 list option" where
  "value_as_int_array (PvIntArray xs) = Some xs"
| "value_as_int_array _ = None"

fun value_as_float_array :: "plan_value \<Rightarrow> f64 list option" where
  "value_as_float_array (PvFloatArray xs) = Some xs"
| "value_as_float_array _ = None"

fun value_as_bool_array :: "plan_value \<Rightarrow> bool list option" where
  "value_as_bool_array (PvBoolArray xs) = Some xs"
| "value_as_bool_array _ = None"

record relation =
  from_table :: string
  from_column :: string
  to_table :: string
  to_column :: string

datatype plan_direction = DirAsc | DirDesc

record resolved_aggregate =
  ra_name :: string
  ra_root_table :: string
  ra_where :: "string option"
  ra_order_by :: "string option"
  ra_direction :: "plan_direction option"
  ra_limit :: "i64 option"
  ra_exclude_tables :: "string list"
  ra_exclude_patterns :: "string list"
  ra_root_only :: bool

record preserve_rule =
  pr_table :: string
  pr_where :: string

datatype plan_target = ToFaker string | ToNull

record plan_anonymize_rule =
  an_column :: string
  an_target :: plan_target

record plan_assignment =
  pa_column :: string
  pa_value :: plan_value

record set_rule =
  sr_table :: string
  sr_match :: "plan_assignment list"
  sr_assignments :: "plan_assignment list"

record execution_plan =
  variables :: "string \<rightharpoonup> plan_value"
  relations :: "relation list"
  aggregates :: "resolved_aggregate list"
  excluded_tables :: "string set"
  excluded_patterns :: "string list"
  ignored_tables :: "string set"
  ignored_patterns :: "string list"
  ignored_relations :: "relation list"
  anonymization :: "string \<rightharpoonup> plan_anonymize_rule list"
  fakers :: "string \<rightharpoonup> string list"
  preserves :: "preserve_rule list"
  sets :: "set_rule list"
  full_tables :: "string set"
  full_patterns :: "string list"
  after_statements :: "string list"
  aggregates_only :: bool

definition empty_plan :: execution_plan where
  "empty_plan =
     \<lparr>variables = Map.empty, relations = [], aggregates = [], excluded_tables = {},
      excluded_patterns = [], ignored_tables = {}, ignored_patterns = [],
      ignored_relations = [], anonymization = Map.empty, fakers = Map.empty, preserves = [],
      sets = [], full_tables = {}, full_patterns = [], after_statements = [],
      aggregates_only = False\<rparr>"

section \<open>Tables and columns (plan.rs)\<close>

record table_info =
  ti_name :: string
  ti_table_id :: u16
  ti_estimated_rows :: u64
  ti_primary_key :: "string list"

record column_flags =
  cf_unsigned :: bool
  cf_zerofill :: bool
  cf_binary :: bool
  cf_auto_increment :: bool

record column_def =
  cd_name :: string
  cd_type_name :: string
  cd_full_type :: string
  cd_max_length :: "u64 option"
  cd_nullable :: bool
  cd_is_primary_key :: bool
  cd_charset :: "string option"
  cd_collation :: "string option"
  cd_flags :: column_flags

definition is_binary_type :: "column_def \<Rightarrow> bool" where
  "is_binary_type c \<longleftrightarrow>
     cd_type_name c \<in> {''BINARY'', ''VARBINARY'', ''TINYBLOB'', ''BLOB'', ''MEDIUMBLOB'',
                        ''LONGBLOB'', ''BIT''}"

record foreign_key_def =
  fk_table :: string
  fk_constraint :: string
  fk_columns :: "string list"
  fk_ref_table :: string
  fk_ref_columns :: "string list"
  fk_update_rule :: string
  fk_delete_rule :: string

record index_column =
  ic_name :: string
  ic_prefix_len :: "u32 option"
  ic_descending :: bool
  ic_expression :: "string option"

datatype index_kind = BTree | Fulltext | Spatial | Hash

record index_def =
  ix_name :: string
  ix_columns :: "index_column list"
  ix_unique :: bool
  ix_kind :: index_kind

record table_options =
  to_engine :: "string option"
  to_charset :: "string option"
  to_collation :: "string option"
  to_row_format :: "string option"

section \<open>Messages (messages.rs)\<close>

record query_timing =
  qt_table :: string
  qt_column :: string
  qt_num_values :: u32
  qt_query_ms :: u64
  qt_iterate_ms :: u64
  qt_rows :: u64

record server_metrics =
  sm_query_time_ms :: u64
  sm_iterate_time_ms :: u64
  sm_serialize_time_ms :: u64
  sm_write_time_ms :: u64
  sm_rows_sent :: u64
  sm_bytes_sent :: u64
  sm_dedup_time_ms :: u64
  sm_aggregate_wall_ms :: u64
  sm_full_tables_wall_ms :: u64
  sm_aggregate_serialize_ms :: u64
  sm_aggregate_write_ms :: u64
  sm_compress_time_ms :: u64
  sm_aggregate_compress_ms :: u64
  sm_schema_cache_time_ms :: u64
  sm_message_count :: u64
  sm_total_compressed_bytes :: u64
  sm_aggregate_interlevel_dedup_ms :: u64
  sm_query_timings :: "query_timing list"

datatype table_disposition = TdAggregate | TdFull | TdEmpty | TdExcluded

record aggregate_root_count =
  arc_aggregate :: string
  arc_matching_rows :: u64

datatype client_message =
    Credentials string
  | Init execution_plan compression_mode u32 bool bool
  | Start
  | Interrupt
  | Shutdown

datatype server_message =
    Ready "table_info list" compression_mode
  | Schema u16 "column_def list" "index_def list" table_options
  | Data u16 u16 bytes
  | TableDone u16 u64 "server_metrics option"
  | SmDone "(u16 \<times> table_disposition) list" "server_metrics option" "foreign_key_def list"
  | SmError string bool
  | DryRunReport "(u16 \<times> table_disposition) list" "aggregate_root_count list"

end
