(* ===== verification/Tsv.thy ===== *)
theory Tsv
  imports Framing Plan
begin

text \<open>
  Rows as tab-separated text for \<open>LOAD DATA\<close> (\<open>crates/server/src/tsv.rs\<close>, and
  \<open>escape_identifier\<close>, \<open>write_tsv_value\<close> and \<open>escape_tsv_bytes\<close> of
  \<open>crates/server/src/mysql.rs\<close>).

  A row is the list of its optional values.  The number and hex formatting of the crates
  \<open>itoa\<close>, \<open>ryu\<close> and \<open>hex\<close> are parameters, collected in \<open>formats\<close>; what the format relies on is
  that they print no byte that is special in the stream (\<open>formats_ok\<close>).  The random generator
  of a \<open>TsvWriter\<close> is a parameter as well: \<open>pick r n\<close> is the index it chooses below \<open>n\<close> and its
  next state.
\<close>

section \<open>Values\<close>

datatype mysql_value =
    MNull
  | MBytes bytes
  | MInt i64
  | MUInt u64
  | MFloat u32
  | MDouble u64
  | MDate u16 u8 u8 u8 u8 u8 u32
  | MTime bool u32 u8 u8 u8 u32

record formats =
  fmt_int :: "i64 \<Rightarrow> bytes"
  fmt_uint :: "u64 \<Rightarrow> bytes"
  fmt_float :: "u32 \<Rightarrow> bytes"
  fmt_double :: "u64 \<Rightarrow> bytes"
  fmt_hex :: "bytes \<Rightarrow> bytes"

definition escape_identifier :: "string \<Rightarrow> string" where
  "escape_identifier s = concat (map (\<lambda>c. if c = CHR ''`'' then ''``'' else [c]) s)"

text \<open>The replacement of a byte that is special in the stream.\<close>

definition tsv_replacement :: "char \<Rightarrow> bytes option" where
  "tsv_replacement b =
     (if b = backslash then Some [backslash, backslash]
      else if b = tabchar then Some [backslash, CHR ''t'']
      else if b = newline then Some [backslash, CHR ''n'']
      else if b = creturn then Some [backslash, CHR ''r'']
      else if b = nulchar then Some [backslash, CHR ''0'']
      else None)"

text \<open>
  The loop of \<open>escape_tsv_bytes\<close>: \<open>i\<close> runs over the bytes, \<open>start\<close> is the beginning of the
  clean segment that is copied when a special byte or the end is reached.
\<close>

function escape_loop :: "bytes \<Rightarrow> nat \<Rightarrow> nat \<Rightarrow> bytes \<Rightarrow> bytes" where
  "escape_loop bs i start buf =
     (if i < length bs then
        (case tsv_replacement (bs ! i) of
           None \<Rightarrow> escape_loop bs (i + 1) start buf
         | Some r \<Rightarrow>
             escape_loop bs (i + 1) (i + 1)
               ((if start < i then buf @ take (i - start) (drop start bs) else buf) @ r))
      else if start < length bs then buf @ drop start bs else buf)"
  by pat_completeness auto
termination
  by (relation "measure (\<lambda>(bs, i, start, buf). length bs - i)") auto

declare escape_loop.simps [simp del]

definition escape_tsv_bytes :: "bytes \<Rightarrow> bytes \<Rightarrow> bytes" where
  "escape_tsv_bytes buf bs = escape_loop bs 0 0 buf"

definition null_field :: bytes where "null_field = [backslash, CHR ''N'']"

text \<open>\<open>{:0w}\<close>\<close>

definition pad0 :: "nat \<Rightarrow> nat \<Rightarrow> string" where
  "pad0 w n = (let s = nat_string n in replicate (w - length s) (CHR ''0'') @ s)"

definition date_part :: "u16 \<Rightarrow> u8 \<Rightarrow> u8 \<Rightarrow> string" where
  "date_part y m d = pad0 4 (unat y) @ ''-'' @ pad0 2 (unat m) @ ''-'' @ pad0 2 (unat d)"

definition time_part :: "nat \<Rightarrow> u8 \<Rightarrow> u8 \<Rightarrow> string" where
  "time_part h m s = pad0 2 h @ '':'' @ pad0 2 (unat m) @ '':'' @ pad0 2 (unat s)"

fun write_tsv_value :: "formats \<Rightarrow> bytes \<Rightarrow> mysql_value \<Rightarrow> bytes" where
  "write_tsv_value fm buf MNull = buf @ null_field"
| "write_tsv_value fm buf (MBytes b) = escape_tsv_bytes buf b"
| "write_tsv_value fm buf (MInt i) = buf @ fmt_int fm i"
| "write_tsv_value fm buf (MUInt u) = buf @ fmt_uint fm u"
| "write_tsv_value fm buf (MFloat f) = buf @ fmt_float fm f"
| "write_tsv_value fm buf (MDouble d) = buf @ fmt_double fm d"
| "write_tsv_value fm buf (MDate y m d h mi s us) =
     (if h = 0 \<and> mi = 0 \<and> s = 0 \<and> us = 0 then buf @ date_part y m d
      else if us = 0 then buf @ date_part y m d @ '' '' @ time_part (unat h) mi s
      else buf @ date_part y m d @ '' '' @ time_part (unat h) mi s @ ''.'' @ pad0 6 (unat us))"
| "write_tsv_value fm buf (MTime neg d h m s us) =
     (let total_hours = unat (d * 24 + ucast h);
          buf1 = (if neg then buf @ ''-'' else buf)
      in if us = 0 then buf1 @ time_part total_hours m s
         else buf1 @ time_part total_hours m s @ ''.'' @ pad0 6 (unat us))"

section \<open>The writer\<close>

definition UNIQUE_SENTINEL :: string where "UNIQUE_SENTINEL = ''{unique()}''"

datatype anon_action = AnonNull | AnonFaker nat | AnonFakerUnique nat

record 'r tsv_writer =
  tw_buffer :: bytes
  tw_num_columns :: nat
  tw_anon_by_column :: "anon_action option list"
  tw_binary_by_column :: "bool list"
  tw_faker_pools :: "bytes list list"
  tw_faker_pools_raw :: "string list list"
  tw_rng :: 'r
  tw_unique_counter :: u64

definition header_space :: bytes where
  "header_space = replicate RAW_CHUNK_HEADER_LEN (char_of (0 :: nat))"

text \<open>\<open>str::contains\<close> and \<open>str::replace\<close>, for a pattern that is not empty.\<close>

definition contains :: "string \<Rightarrow> string \<Rightarrow> bool" where
  "contains s p \<longleftrightarrow> find_sub p s \<noteq> None"

function replace_all :: "string \<Rightarrow> string \<Rightarrow> string \<Rightarrow> string" where
  "replace_all p r s =
     (if p = [] then s
      else
        (case find_sub p s of
           None \<Rightarrow> s
         | Some n \<Rightarrow> take n s @ r @ replace_all p r (drop (n + length p) s)))"
  by pat_completeness auto
termination
proof (relation "measure (\<lambda>(p, r, s). length s)", simp, clarsimp)
  fix p s :: string and n :: nat
  assume "p \<noteq> []" "find_sub p s = Some n"
  then show "length s - (n + length p) < length s"
    using find_sub_Some [of p s n] by (cases p) auto
qed

declare replace_all.simps [simp del]

text \<open>
  \<open>TsvWriter::new\<close>: the pools are collected in the order the columns need them, each once.
  The state of the loop is the pool names and the raw pools.
\<close>

type_synonym pools = "string list \<times> string list list"

fun index_of :: "'a \<Rightarrow> 'a list \<Rightarrow> nat option" where
  "index_of x [] = None"
| "index_of x (y # ys) = (if x = y then Some 0 else map_option Suc (index_of x ys))"

definition get_or_create_pool ::
  "(string \<rightharpoonup> string list) \<Rightarrow> string \<Rightarrow> pools \<Rightarrow> nat \<times> pools" where
  "get_or_create_pool fks nm ps =
     (case ps of (names, raw) \<Rightarrow>
        (case index_of nm names of
           Some idx \<Rightarrow> (idx, ps)
         | None \<Rightarrow>
             (length names,
              (names @ [nm], raw @ [case fks nm of Some vs \<Rightarrow> vs | None \<Rightarrow> []]))))"

definition column_action ::
  "plan_anonymize_rule list \<Rightarrow> (string \<rightharpoonup> string list) \<Rightarrow> string \<Rightarrow> pools \<Rightarrow>
     anon_action option \<times> pools" where
  "column_action rules fks col ps =
     (case List.find (\<lambda>r. an_column r = col) rules of
        None \<Rightarrow> (None, ps)
      | Some rule \<Rightarrow>
          (case an_target rule of
             ToNull \<Rightarrow> (Some AnonNull, ps)
           | ToFaker nm \<Rightarrow>
               (case get_or_create_pool fks nm ps of
                  (idx, ps') \<Rightarrow>
                    (if list_ex (\<lambda>v. contains v UNIQUE_SENTINEL) (snd ps' ! idx)
                     then (Some (AnonFakerUnique idx), ps')
                     else (Some (AnonFaker idx), ps')))))"

fun column_actions ::
  "plan_anonymize_rule list \<Rightarrow> (string \<rightharpoonup> string list) \<Rightarrow> string list \<Rightarrow> pools \<Rightarrow>
     anon_action option list \<times> pools" where
  "column_actions rules fks [] ps = ([], ps)"
| "column_actions rules fks (c # cs) ps =
     (case column_action rules fks c ps of
        (a, ps1) \<Rightarrow> (case column_actions rules fks cs ps1 of (as, ps2) \<Rightarrow> (a # as, ps2)))"

definition tsv_writer_new ::
  "column_def list \<Rightarrow> plan_anonymize_rule list \<Rightarrow> (string \<rightharpoonup> string list) \<Rightarrow> 'r \<Rightarrow> 'r tsv_writer" where
  "tsv_writer_new cols rules fks rng =
     (case column_actions rules fks (map cd_name cols) ([], []) of
        (acts, names, raw) \<Rightarrow>
          \<lparr>tw_buffer = header_space, tw_num_columns = length cols, tw_anon_by_column = acts,
           tw_binary_by_column = map is_binary_type cols,
           tw_faker_pools = map (map (escape_tsv_bytes [])) raw, tw_faker_pools_raw = raw,
           tw_rng = rng, tw_unique_counter = 0\<rparr>)"

text \<open>\<open>choose\<close> of the random generator: nothing from an empty pool.\<close>

type_synonym 'r picker = "'r \<Rightarrow> nat \<Rightarrow> nat \<times> 'r"

definition choose_from :: "'r picker \<Rightarrow> 'a list \<Rightarrow> 'r \<Rightarrow> 'a option \<times> 'r" where
  "choose_from pick pool r =
     (if pool = [] then (None, r)
      else case pick r (length pool) of (i, r') \<Rightarrow> (Some (pool ! i), r'))"

definition push_bytes :: "bytes \<Rightarrow> 'r tsv_writer \<Rightarrow> 'r tsv_writer" where
  "push_bytes bs w = w\<lparr>tw_buffer := tw_buffer w @ bs\<rparr>"

text \<open>\<open>row.as_ref(i)\<close>\<close>

definition row_value :: "mysql_value option list \<Rightarrow> nat \<Rightarrow> mysql_value option" where
  "row_value row i = (if i < length row then row ! i else None)"

text \<open>The body of the loop over the columns in \<open>write_row\<close>.\<close>

definition write_field ::
  "formats \<Rightarrow> 'r picker \<Rightarrow> mysql_value option list \<Rightarrow> nat \<Rightarrow> 'r tsv_writer \<Rightarrow> 'r tsv_writer" where
  "write_field fm pick row i w =
     (let is_binary = tw_binary_by_column w ! i
      in case tw_anon_by_column w ! i of
           Some AnonNull \<Rightarrow> push_bytes null_field w
         | Some (AnonFaker idx) \<Rightarrow>
             (if is_binary then
                (case choose_from pick (tw_faker_pools_raw w ! idx) (tw_rng w) of
                   (Some v, r) \<Rightarrow> push_bytes (fmt_hex fm v) (w\<lparr>tw_rng := r\<rparr>)
                 | (None, r) \<Rightarrow> push_bytes null_field (w\<lparr>tw_rng := r\<rparr>))
              else
                (case choose_from pick (tw_faker_pools w ! idx) (tw_rng w) of
                   (Some v, r) \<Rightarrow> push_bytes v (w\<lparr>tw_rng := r\<rparr>)
                 | (None, r) \<Rightarrow> push_bytes null_field (w\<lparr>tw_rng := r\<rparr>)))
         | Some (AnonFakerUnique idx) \<Rightarrow>
             (let pool = tw_faker_pools_raw w ! idx in
              if pool = [] then push_bytes null_field w
              else
                (let base = pool ! (unat (tw_unique_counter w) mod length pool);
                     v = replace_all UNIQUE_SENTINEL (u64_string (tw_unique_counter w)) base;
                     w1 = (if is_binary then push_bytes (fmt_hex fm v) w
                           else w\<lparr>tw_buffer := escape_tsv_bytes (tw_buffer w) v\<rparr>)
                 in w1\<lparr>tw_unique_counter := tw_unique_counter w1 + 1\<rparr>))
         | None \<Rightarrow>
             (case row_value row i of
                None \<Rightarrow> push_bytes null_field w
              | Some v \<Rightarrow>
                  (case (v, is_binary) of
                     (MBytes b, True) \<Rightarrow> push_bytes (fmt_hex fm b) w
                   | _ \<Rightarrow> w\<lparr>tw_buffer := write_tsv_value fm (tw_buffer w) v\<rparr>)))"

definition write_cell ::
  "formats \<Rightarrow> 'r picker \<Rightarrow> mysql_value option list \<Rightarrow> nat \<Rightarrow> 'r tsv_writer \<Rightarrow> 'r tsv_writer" where
  "write_cell fm pick row i w =
     write_field fm pick row i (if 0 < i then push_bytes [tabchar] w else w)"

definition write_row ::
  "formats \<Rightarrow> 'r picker \<Rightarrow> mysql_value option list \<Rightarrow> 'r tsv_writer \<Rightarrow> 'r tsv_writer" where
  "write_row fm pick row w =
     push_bytes [newline] (fold (write_cell fm pick row) [0..<tw_num_columns w] w)"

definition tw_buffer_size :: "'r tsv_writer \<Rightarrow> nat" where
  "tw_buffer_size w = length (tw_buffer w) - RAW_CHUNK_HEADER_LEN"

definition tw_is_empty :: "'r tsv_writer \<Rightarrow> bool" where
  "tw_is_empty w \<longleftrightarrow> length (tw_buffer w) \<le> RAW_CHUNK_HEADER_LEN"

text \<open>
  \<open>take_encoded_chunk\<close>; \<open>zstd\<close> is the compressor, which may fail.
\<close>

definition flagged_len :: "nat \<Rightarrow> u32" where
  "flagged_len payload_len = or (as_u32 payload_len) RAW_CHUNK_FLAG"

definition take_encoded_chunk ::
  "(bytes \<Rightarrow> string + bytes) \<Rightarrow> u16 \<Rightarrow> u16 \<Rightarrow> compression_mode \<Rightarrow> 'r tsv_writer \<Rightarrow>
     string + bytes \<times> 'r tsv_writer" where
  "take_encoded_chunk zstd table_id row_count compression w =
     (let tsv_len = length (tw_buffer w) - RAW_CHUNK_HEADER_LEN;
          done = (\<lambda>frame. (frame, w\<lparr>tw_buffer := header_space\<rparr>))
      in case compression of
           CZstd \<Rightarrow>
             (case zstd (drop RAW_CHUNK_HEADER_LEN (tw_buffer w)) of
                Inl e \<Rightarrow> Inl (''zstd compression failed: '' @ e)
              | Inr compressed \<Rightarrow>
                  (let payload_len = 2 + 2 + (4 + length compressed) in
                   Inr (done (u32_to_le (flagged_len payload_len) @ u16_to_le table_id @
                     u16_to_le row_count @ u32_to_le (as_u32 tsv_len) @ compressed))))
         | _ \<Rightarrow>
             (let payload_len = 2 + 2 + tsv_len;
                  b1 = overwrite (tw_buffer w) 0 (u32_to_le (flagged_len payload_len));
                  b2 = overwrite b1 4 (u16_to_le table_id);
                  b3 = overwrite b2 6 (u16_to_le row_count)
              in Inr (done b3)))"

section \<open>Escaping is byte-wise and invertible\<close>

definition escape_byte :: "char \<Rightarrow> bytes" where
  "escape_byte b = (case tsv_replacement b of Some r \<Rightarrow> r | None \<Rightarrow> [b])"

definition escape_spec :: "bytes \<Rightarrow> bytes" where
  "escape_spec bs = concat (map escape_byte bs)"

text \<open>
  How \<open>LOAD DATA\<close> with the default \<open>FIELDS ESCAPED BY '\'\<close> reads a field (the MySQL manual's
  rules): a backslash and one of \<open>0 n r t b Z\<close> stand for a control byte, a backslash before
  any other byte is dropped, and the field \<open>\N\<close> is NULL.
\<close>

definition unescape_byte :: "char \<Rightarrow> char" where
  "unescape_byte c =
     (if c = CHR ''0'' then nulchar else if c = CHR ''n'' then newline
      else if c = CHR ''r'' then creturn else if c = CHR ''t'' then tabchar
      else if c = CHR ''b'' then CHR 0x08 else if c = CHR ''Z'' then CHR 0x1A else c)"

fun load_unescape :: "bytes \<Rightarrow> bytes" where
  "load_unescape [] = []"
| "load_unescape [c] = [c]"
| "load_unescape (c # d # cs) =
     (if c = backslash then unescape_byte d # load_unescape cs
      else c # load_unescape (d # cs))"

definition load_field :: "bytes \<Rightarrow> bytes option" where
  "load_field f = (if f = null_field then None else Some (load_unescape f))"

definition plain :: "bytes \<Rightarrow> bool" where
  "plain s \<longleftrightarrow> list_all (\<lambda>b. tsv_replacement b = None) s"

definition clean :: "bytes \<Rightarrow> bool" where
  "clean s \<longleftrightarrow> tabchar \<notin> set s \<and> newline \<notin> set s"

lemma escape_loop_eq:
  assumes "start \<le> i" "i \<le> length bs" "\<forall>k. start \<le> k \<and> k < i \<longrightarrow> tsv_replacement (bs ! k) = None"
  shows "escape_loop bs i start buf =
    buf @ take (i - start) (drop start bs) @ escape_spec (drop i bs)"
  using assms
proof (induction bs i start buf rule: escape_loop.induct)
  case (1 bs i start buf)
  show ?case
  proof (cases "i < length bs")
    case lt: True
    then have d: "drop i bs = bs ! i # drop (Suc i) bs" by (simp add: Cons_nth_drop_Suc)
    show ?thesis
    proof (cases "tsv_replacement (bs ! i)")
      case None
      have "escape_loop bs i start buf = escape_loop bs (i + 1) start buf"
        using lt None by (simp add: escape_loop.simps [of bs i])
      also have "\<dots> = buf @ take (i + 1 - start) (drop start bs) @ escape_spec (drop (i + 1) bs)"
        using "1.IH"(1) [OF lt None] "1.prems" lt None by (auto simp: less_Suc_eq)
      also have "take (i + 1 - start) (drop start bs) = take (i - start) (drop start bs) @ [bs ! i]"
        using "1.prems" lt by (simp add: Suc_diff_le take_Suc_conv_app_nth)
      finally show ?thesis using None by (simp add: d escape_spec_def escape_byte_def)
    next
      case (Some r)
      have vac: "\<forall>k. i + 1 \<le> k \<and> k < i + 1 \<longrightarrow> tsv_replacement (bs ! k) = None" by auto
      have seg: "(if start < i then buf @ take (i - start) (drop start bs) else buf)
          = buf @ take (i - start) (drop start bs)" using "1.prems" by auto
      have "escape_loop bs i start buf =
          escape_loop bs (i + 1) (i + 1) ((buf @ take (i - start) (drop start bs)) @ r)"
        using lt Some seg by (simp add: escape_loop.simps [of bs i])
      also have "\<dots> = ((buf @ take (i - start) (drop start bs)) @ r) @ escape_spec (drop (i + 1) bs)"
        using "1.IH"(2) [OF lt Some _ _ vac] lt seg by simp
      finally show ?thesis using Some by (simp add: d escape_spec_def escape_byte_def)
    qed
  next
    case False
    then have "i = length bs" using "1.prems" by simp
    then show ?thesis by (subst escape_loop.simps) (auto simp: escape_spec_def)
  qed
qed

lemma escape_tsv_spec: "escape_tsv_bytes buf bs = buf @ escape_spec bs"
  by (simp add: escape_tsv_bytes_def escape_loop_eq)

lemma escape_spec_Cons: "escape_spec (b # bs) = escape_byte b @ escape_spec bs"
  by (simp add: escape_spec_def)

lemma unescape_escape_byte: "load_unescape (escape_byte b @ s) = b # load_unescape s"
  by (cases s) (auto simp: escape_byte_def tsv_replacement_def unescape_byte_def)

lemma unescape_escape: "load_unescape (escape_spec bs) = bs"
  by (induction bs) (simp_all add: escape_spec_Cons unescape_escape_byte, simp add: escape_spec_def)

lemma escape_clean: "clean (escape_spec bs)"
  by (induction bs)
    (auto simp: clean_def escape_spec_Cons escape_byte_def tsv_replacement_def escape_spec_def)

lemma escape_not_null: "escape_spec bs \<noteq> null_field"
proof (cases bs)
  case (Cons b bs')
  then show ?thesis
    by (auto simp: escape_spec_Cons escape_byte_def tsv_replacement_def null_field_def)
qed (simp add: escape_spec_def null_field_def)

lemma plain_escape: "plain s \<Longrightarrow> escape_spec s = s"
  by (induction s) (auto simp: plain_def escape_spec_def escape_byte_def)

lemma load_escape: "load_field (escape_spec bs) = Some bs"
  by (simp add: load_field_def escape_not_null unescape_escape)

lemma load_plain: "plain s \<Longrightarrow> load_field s = Some s"
  using load_escape [of s] by (simp add: plain_escape)

lemma plain_clean: "plain s \<Longrightarrow> clean s"
  using escape_clean [of s] by (simp add: plain_escape)

section \<open>The text of a value\<close>

definition formats_ok :: "formats \<Rightarrow> bool" where
  "formats_ok fm \<longleftrightarrow>
     (\<forall>i. plain (fmt_int fm i)) \<and> (\<forall>u. plain (fmt_uint fm u)) \<and> (\<forall>f. plain (fmt_float fm f)) \<and>
     (\<forall>d. plain (fmt_double fm d)) \<and> (\<forall>b. plain (fmt_hex fm b))"

definition value_text :: "formats \<Rightarrow> mysql_value \<Rightarrow> bytes option" where
  "value_text fm v =
     (case v of
        MNull \<Rightarrow> None
      | MBytes b \<Rightarrow> Some b
      | _ \<Rightarrow> Some (write_tsv_value fm [] v))"

lemma write_tsv_value_append: "write_tsv_value fm buf v = buf @ write_tsv_value fm [] v"
  by (cases v) (simp_all add: escape_tsv_spec Let_def)

lemma plain_append [simp]: "plain (xs @ ys) \<longleftrightarrow> plain xs \<and> plain ys"
  by (simp add: plain_def)

lemma plain_Cons [simp]: "plain (x # xs) \<longleftrightarrow> tsv_replacement x = None \<and> plain xs"
  by (simp add: plain_def)

lemma plain_Nil [simp]: "plain []"
  by (simp add: plain_def)

lemma digit_plain: "is_digit c \<Longrightarrow> tsv_replacement c = None"
  by (auto simp: is_digit_def tsv_replacement_def)

lemma plain_nat_string [simp]: "plain (nat_string n)"
  using nat_string_digits [of n] digit_plain by (auto simp: plain_def list_all_iff)

lemma plain_pad0 [simp]: "plain (pad0 w n)"
  by (simp add: pad0_def Let_def) (simp add: plain_def list_all_iff tsv_replacement_def)

lemma write_value_field:
  assumes "formats_ok fm"
  shows "clean (write_tsv_value fm [] v) \<and> load_field (write_tsv_value fm [] v) = value_text fm v"
proof -
  have p: "plain (write_tsv_value fm [] v)" if "v \<noteq> MNull" "\<forall>b. v \<noteq> MBytes b"
    using assms that
    by (cases v) (auto simp: formats_ok_def date_part_def time_part_def tsv_replacement_def Let_def)
  have n: "clean null_field \<and> load_field null_field = None"
    by (simp add: clean_def null_field_def load_field_def)
  show ?thesis
  proof (cases "v = MNull \<or> (\<exists>b. v = MBytes b)")
    case True
    then show ?thesis using n by (auto simp: value_text_def escape_tsv_spec escape_clean load_escape)
  next
    case False
    then have "value_text fm v = Some (write_tsv_value fm [] v)"
      by (cases v) (simp_all add: value_text_def)
    then show ?thesis using p False plain_clean load_plain by simp
  qed
qed

declare write_tsv_value.simps [simp del]

section \<open>Rows\<close>

text \<open>
  One cell without its buffer: the bytes of the field, and the generator and the counter
  after it.
\<close>

definition cell ::
  "formats \<Rightarrow> 'r picker \<Rightarrow> mysql_value option list \<Rightarrow> nat \<Rightarrow> 'r tsv_writer \<Rightarrow> bytes \<times> 'r \<times> u64" where
  "cell fm pick row i w =
     (let b = tw_binary_by_column w ! i; k = tw_unique_counter w; r0 = tw_rng w in
      case tw_anon_by_column w ! i of
        Some AnonNull \<Rightarrow> (null_field, r0, k)
      | Some (AnonFaker idx) \<Rightarrow>
          (if b then
             (case choose_from pick (tw_faker_pools_raw w ! idx) r0 of
                (Some v, r) \<Rightarrow> (fmt_hex fm v, r, k) | (None, r) \<Rightarrow> (null_field, r, k))
           else
             (case choose_from pick (tw_faker_pools w ! idx) r0 of
                (Some v, r) \<Rightarrow> (v, r, k) | (None, r) \<Rightarrow> (null_field, r, k)))
      | Some (AnonFakerUnique idx) \<Rightarrow>
          (let pool = tw_faker_pools_raw w ! idx in
           if pool = [] then (null_field, r0, k)
           else
             (let v = replace_all UNIQUE_SENTINEL (u64_string k) (pool ! (unat k mod length pool))
              in ((if b then fmt_hex fm v else escape_spec v), r0, k + 1)))
      | None \<Rightarrow>
          ((case row_value row i of
              None \<Rightarrow> null_field
            | Some v \<Rightarrow>
                (case (v, b) of
                   (MBytes x, True) \<Rightarrow> fmt_hex fm x
                 | _ \<Rightarrow> write_tsv_value fm [] v)), r0, k))"

definition add_cell :: "nat \<Rightarrow> bytes \<times> 'r \<times> u64 \<Rightarrow> 'r tsv_writer \<Rightarrow> 'r tsv_writer" where
  "add_cell i c w =
     w\<lparr>tw_buffer := tw_buffer w @ (if 0 < i then [tabchar] else []) @ fst c,
       tw_rng := fst (snd c), tw_unique_counter := snd (snd c)\<rparr>"

lemma write_field_eq: "write_field fm pick row i w = add_cell 0 (cell fm pick row i w) w"
proof (cases "tw_anon_by_column w ! i")
  case None
  show ?thesis
  proof (cases "row_value row i")
    case v: (Some v)
    show ?thesis
      by (cases v; cases "tw_binary_by_column w ! i")
        (simp_all add: write_field_def cell_def add_cell_def push_bytes_def None v
          write_tsv_value_append [of fm "tw_buffer w"])
  qed (simp add: write_field_def cell_def add_cell_def push_bytes_def None)
next
  case (Some a)
  show ?thesis
  proof (cases a)
    case AnonNull
    then show ?thesis
      by (simp add: write_field_def cell_def add_cell_def push_bytes_def Some)
  next
    case (AnonFaker idx)
    then show ?thesis
      by (auto simp add: write_field_def cell_def add_cell_def push_bytes_def Let_def Some
          split: prod.split option.split)
  next
    case (AnonFakerUnique idx)
    then show ?thesis
      by (simp add: write_field_def cell_def add_cell_def push_bytes_def Let_def Some escape_tsv_spec)
  qed
qed

lemma cell_push: "cell fm pick row i (push_bytes bs w) = cell fm pick row i w"
  by (cases "tw_anon_by_column w ! i")
    (auto simp: cell_def push_bytes_def Let_def split: anon_action.split)

lemma write_cell_eq: "write_cell fm pick row i w = add_cell i (cell fm pick row i w) w"
  by (simp add: write_cell_def write_field_eq cell_push) (simp add: add_cell_def push_bytes_def)

text \<open>The shape of a writer that \<open>new\<close> builds, and that writing rows keeps.\<close>

definition action_in :: "nat \<Rightarrow> anon_action option \<Rightarrow> bool" where
  "action_in n a \<longleftrightarrow>
     (case a of Some (AnonFaker i) \<Rightarrow> i < n | Some (AnonFakerUnique i) \<Rightarrow> i < n | _ \<Rightarrow> True)"

definition tw_ok :: "'r tsv_writer \<Rightarrow> bool" where
  "tw_ok w \<longleftrightarrow>
     length (tw_anon_by_column w) = tw_num_columns w \<and>
     length (tw_binary_by_column w) = tw_num_columns w \<and>
     tw_faker_pools w = map (map (escape_tsv_bytes [])) (tw_faker_pools_raw w) \<and>
     RAW_CHUNK_HEADER_LEN \<le> length (tw_buffer w) \<and>
     (\<forall>a \<in> set (tw_anon_by_column w). action_in (length (tw_faker_pools_raw w)) a)"

definition same_shape :: "'r tsv_writer \<Rightarrow> 'r tsv_writer \<Rightarrow> bool" where
  "same_shape w w' \<longleftrightarrow>
     tw_num_columns w' = tw_num_columns w \<and> tw_anon_by_column w' = tw_anon_by_column w \<and>
     tw_binary_by_column w' = tw_binary_by_column w \<and>
     tw_faker_pools w' = tw_faker_pools w \<and> tw_faker_pools_raw w' = tw_faker_pools_raw w"

lemma add_cell_shape: "same_shape w (add_cell i c w)"
  by (simp add: same_shape_def add_cell_def)

lemma add_cell_buffer [simp]:
  "tw_buffer (add_cell i c w) = tw_buffer w @ (if 0 < i then [tabchar] else []) @ fst c"
  by (simp add: add_cell_def)

lemma same_shape_trans: "same_shape a b \<Longrightarrow> same_shape b c \<Longrightarrow> same_shape a c"
  by (simp add: same_shape_def)

text \<open>The generator chooses inside the pool.\<close>

definition picker_ok :: "'r picker \<Rightarrow> bool" where
  "picker_ok pick \<longleftrightarrow> (\<forall>r n. 0 < n \<longrightarrow> fst (pick r n) < n)"

definition tw_static_ok :: "'r tsv_writer \<Rightarrow> bool" where
  "tw_static_ok w \<longleftrightarrow> tw_ok (w\<lparr>tw_buffer := header_space\<rparr>)"

lemma choose_from_elem: "picker_ok pick \<Longrightarrow> choose_from pick pool r = (Some v, r') \<Longrightarrow> v \<in> set pool"
  by (cases "pick r (length pool)")
    (fastforce simp: choose_from_def picker_ok_def split: if_splits dest: spec [of _ r])

lemma choose_clean:
  fixes k :: u64
  assumes "picker_ok pick" "\<And>x. x \<in> set pool \<Longrightarrow> clean (f x)"
  shows "clean (fst (case choose_from pick pool r of
      (Some v, r) \<Rightarrow> (f v, r, k) | (None, r) \<Rightarrow> (null_field, r, k)))"
proof -
  have n: "clean null_field" by (simp add: clean_def null_field_def)
  obtain v r' where c: "choose_from pick pool r = (v, r')" by (cases "choose_from pick pool r")
  show ?thesis
    using n assms(2) choose_from_elem [OF assms(1), of pool r] c by (cases v) auto
qed

lemma cell_clean:
  assumes "formats_ok fm" "picker_ok pick" "tw_ok w" "i < tw_num_columns w"
  shows "clean (fst (cell fm pick row i w))"
proof -
  have n: "clean null_field" by (simp add: clean_def null_field_def)
  have h: "clean (fmt_hex fm x)" for x using assms(1) by (simp add: formats_ok_def plain_clean)
  have v: "clean (write_tsv_value fm [] x)" for x using write_value_field [OF assms(1)] by simp
  show ?thesis
  proof (cases "tw_anon_by_column w ! i")
    case None
    then show ?thesis using n h v
      by (simp add: cell_def Let_def split: option.split mysql_value.split bool.split)
  next
    case (Some a)
    then have mem: "Some a \<in> set (tw_anon_by_column w)"
      using assms(3,4) by (metis nth_mem tw_ok_def)
    show ?thesis
    proof (cases a)
      case AnonNull
      then show ?thesis using n by (simp add: cell_def Let_def Some)
    next
      case (AnonFaker idx)
      have "idx < length (tw_faker_pools_raw w)" using mem assms(3) AnonFaker by (auto simp: tw_ok_def action_in_def)
      then have "clean x" if "x \<in> set (tw_faker_pools w ! idx)" for x
        using that assms(3) by (auto simp: tw_ok_def escape_tsv_spec escape_clean)
      then show ?thesis
        using h choose_clean [OF assms(2), of "tw_faker_pools_raw w ! idx" "fmt_hex fm"]
          choose_clean [OF assms(2), of "tw_faker_pools w ! idx" "\<lambda>v. v"]
        by (simp add: cell_def Let_def Some AnonFaker)
    next
      case (AnonFakerUnique idx)
      then show ?thesis using n h escape_clean by (simp add: cell_def Let_def Some)
    qed
  qed
qed

text \<open>The cells of a row, threading the generator and the counter.\<close>

fun cells :: "formats \<Rightarrow> 'r picker \<Rightarrow> mysql_value option list \<Rightarrow> nat list \<Rightarrow> 'r tsv_writer \<Rightarrow> bytes list" where
  "cells fm pick row [] w = []"
| "cells fm pick row (i # is) w =
     (let c = cell fm pick row i w in fst c # cells fm pick row is (add_cell i c w))"

lemma length_cells: "length (cells fm pick row is w) = length is"
  by (induction "is" arbitrary: w) (simp_all add: Let_def)

lemma fold_write_cell:
  "same_shape w (fold (write_cell fm pick row) is w) \<and>
   tw_buffer (fold (write_cell fm pick row) is w) =
     tw_buffer w @ concat (map2 (\<lambda>i c. (if 0 < i then [tabchar] else []) @ c) is (cells fm pick row is w))"
proof (induction "is" arbitrary: w)
  case Nil
  show ?case by (simp add: same_shape_def)
next
  case (Cons i "is")
  let ?w = "add_cell i (cell fm pick row i w) w"
  have "same_shape w (fold (write_cell fm pick row) is ?w)"
    using Cons [of ?w] same_shape_trans [OF add_cell_shape] by blast
  then show ?case using Cons [of ?w] by (simp add: write_cell_eq [of fm pick row i w] Let_def)
qed

lemma join_cells:
  "length cs = n \<Longrightarrow>
     concat (map2 (\<lambda>i c. (if 0 < i then [tabchar] else []) @ c) [0..<n] cs) = join [tabchar] cs"
proof (cases n)
  case (Suc m)
  assume len: "length cs = n"
  have tail: "concat (map2 (\<lambda>i c. (if 0 < i then [tabchar] else []) @ c) is ds) = concat (map (\<lambda>c. tabchar # c) ds)"
    if "length is = length ds" "\<forall>i \<in> set is. 0 < i" for "is" :: "nat list" and ds
    using that by (induction "is" ds rule: list_induct2) simp_all
  have jn: "join [tabchar] (d # ds) = d @ concat (map (\<lambda>c. tabchar # c) ds)" for d ds
    by (induction ds arbitrary: d) simp_all
  from len Suc obtain d ds where cs: "cs = d # ds" "length ds = m" by (cases cs) auto
  have "[0..<n] = 0 # [Suc 0..<n]" using Suc by (simp add: upt_conv_Cons)
  then show ?thesis
    using tail [of "[Suc 0..<n]" ds] cs(2) Suc by (simp add: cs(1) jn del: upt_Suc)
qed simp

lemma write_row_buffer:
  "tw_buffer (write_row fm pick row w) =
     tw_buffer w @ join [tabchar] (cells fm pick row [0..<tw_num_columns w] w) @ [newline]"
  and write_row_shape: "same_shape w (write_row fm pick row w)"
  using fold_write_cell [of w fm pick row "[0..<tw_num_columns w]"]
    join_cells [of "cells fm pick row [0..<tw_num_columns w] w" "tw_num_columns w"]
  by (simp_all add: write_row_def push_bytes_def length_cells same_shape_def)

section \<open>Reading the stream back\<close>

fun split_on :: "char \<Rightarrow> bytes \<Rightarrow> bytes list" where
  "split_on c [] = [[]]"
| "split_on c (x # xs) =
     (if x = c then [] # split_on c xs
      else (case split_on c xs of [] \<Rightarrow> [[x]] | f # fs \<Rightarrow> (x # f) # fs))"

text \<open>Lines end with a newline; fields are separated by tabs.\<close>

definition decode_rows :: "bytes \<Rightarrow> bytes option list list" where
  "decode_rows payload = map (\<lambda>l. map load_field (split_on tabchar l)) (butlast (split_on newline payload))"

definition tw_payload :: "'r tsv_writer \<Rightarrow> bytes" where
  "tw_payload w = drop RAW_CHUNK_HEADER_LEN (tw_buffer w)"

definition write_rows ::
  "formats \<Rightarrow> 'r picker \<Rightarrow> mysql_value option list list \<Rightarrow> 'r tsv_writer \<Rightarrow> 'r tsv_writer" where
  "write_rows fm pick rows w = fold (write_row fm pick) rows w"

definition field_value :: "formats \<Rightarrow> bool \<Rightarrow> mysql_value option \<Rightarrow> bytes option" where
  "field_value fm binary v =
     (case v of
        None \<Rightarrow> None
      | Some (MBytes x) \<Rightarrow> Some (if binary then fmt_hex fm x else x)
      | Some v \<Rightarrow> value_text fm v)"

text \<open>What a field may be, given the action for its column.\<close>

definition field_allowed ::
  "formats \<Rightarrow> 'r tsv_writer \<Rightarrow> nat \<Rightarrow> mysql_value option \<Rightarrow> bytes option \<Rightarrow> bool" where
  "field_allowed fm w i v f \<longleftrightarrow>
     (case tw_anon_by_column w ! i of
        None \<Rightarrow> f = field_value fm (tw_binary_by_column w ! i) v
      | Some AnonNull \<Rightarrow> f = None
      | Some (AnonFaker idx) \<Rightarrow>
          (let pool = tw_faker_pools_raw w ! idx in
           if pool = [] then f = None
           else (\<exists>x \<in> set pool. f = Some (if tw_binary_by_column w ! i then fmt_hex fm x else x)))
      | Some (AnonFakerUnique idx) \<Rightarrow>
          (let pool = tw_faker_pools_raw w ! idx in
           if pool = [] then f = None
           else (\<exists>x \<in> set pool. \<exists>k :: u64.
             let y = replace_all UNIQUE_SENTINEL (u64_string k) x in
             f = Some (if tw_binary_by_column w ! i then fmt_hex fm y else y))))"

lemma split_on_clean: "c \<notin> set x \<Longrightarrow> split_on c x = [x]"
  by (induction x) auto

lemma split_on_append: "c \<notin> set x \<Longrightarrow> split_on c (x @ c # s) = x # split_on c s"
  by (induction x) auto

lemma split_join: "cs \<noteq> [] \<Longrightarrow> \<forall>x \<in> set cs. c \<notin> set x \<Longrightarrow> split_on c (join [c] cs) = cs"
  by (induction "[c]" cs rule: join.induct) (simp_all add: split_on_clean split_on_append)

lemma set_join: "set (join [c] cs) \<subseteq> insert c (\<Union> (set ` set cs))"
  by (induction "[c]" cs rule: join.induct) auto

lemma cell_field:
  assumes "formats_ok fm" "picker_ok pick" "tw_ok w" "i < tw_num_columns w"
  shows "field_allowed fm w i (row_value row i) (load_field (fst (cell fm pick row i w)))"
proof -
  have n: "load_field null_field = None" by (simp add: load_field_def)
  have h: "load_field (fmt_hex fm x) = Some (fmt_hex fm x)" for x
    using assms(1) by (simp add: formats_ok_def load_plain)
  have v: "load_field (write_tsv_value fm [] x) = value_text fm x" for x
    using write_value_field [OF assms(1)] by simp
  show ?thesis
  proof (cases "tw_anon_by_column w ! i")
    case None
    then show ?thesis using n h v
      by (auto simp: cell_def Let_def field_allowed_def field_value_def value_text_def
          split: option.split mysql_value.split bool.split)
  next
    case (Some a)
    then have mem: "Some a \<in> set (tw_anon_by_column w)"
      using assms(3,4) by (metis nth_mem tw_ok_def)
    show ?thesis
    proof (cases a)
      case AnonNull
      then show ?thesis using n by (simp add: cell_def Let_def Some field_allowed_def)
    next
      case (AnonFaker idx)
      have "idx < length (tw_faker_pools_raw w)" using mem assms(3) AnonFaker by (auto simp: tw_ok_def action_in_def)
      then have pool: "tw_faker_pools w ! idx = map escape_spec (tw_faker_pools_raw w ! idx)"
        using assms(3) by (simp add: tw_ok_def escape_tsv_spec)
      let ?raw = "tw_faker_pools_raw w ! idx"
      show ?thesis
      proof (cases "?raw = []")
        case True
        then show ?thesis using n
          by (simp add: cell_def Let_def Some AnonFaker field_allowed_def choose_from_def pool)
      next
        case False
        obtain j r where j: "pick (tw_rng w) (length ?raw) = (j, r)" by (cases "pick (tw_rng w) (length ?raw)")
        then have "j < length ?raw" using assms(2) False by (metis picker_ok_def fst_conv length_greater_0_conv)
        then show ?thesis using h load_escape False j
          by (auto simp: cell_def Let_def Some AnonFaker field_allowed_def choose_from_def pool)
      qed
    next
      case (AnonFakerUnique idx)
      have "unat (tw_unique_counter w) mod length pool < length pool"
        if "pool \<noteq> []" for pool :: "string list"
        using that by simp
      then show ?thesis using n h load_escape nth_mem
        by (fastforce simp: cell_def Let_def Some AnonFakerUnique field_allowed_def)
    qed
  qed
qed

lemma same_shapeD:
  assumes "same_shape w w'"
  shows "tw_num_columns w' = tw_num_columns w" "tw_anon_by_column w' = tw_anon_by_column w"
    "tw_binary_by_column w' = tw_binary_by_column w" "tw_faker_pools w' = tw_faker_pools w"
    "tw_faker_pools_raw w' = tw_faker_pools_raw w"
  using assms by (simp_all add: same_shape_def)

lemma field_allowed_shape: "same_shape w w' \<Longrightarrow> field_allowed fm w' = field_allowed fm w"
  unfolding field_allowed_def by (simp only: same_shapeD)

lemma tw_ok_shape:
  assumes "tw_ok w" "same_shape w w'" "length (tw_buffer w) \<le> length (tw_buffer w')"
  shows "tw_ok w'"
  using assms(1,3) unfolding tw_ok_def same_shapeD [OF assms(2)] by (meson order_trans)

lemma cells_allowed:
  assumes "formats_ok fm" "picker_ok pick"
  shows "tw_ok w \<Longrightarrow> \<forall>i \<in> set is. i < tw_num_columns w \<Longrightarrow>
    list_all2 (\<lambda>i c. clean c \<and> field_allowed fm w i (row_value row i) (load_field c)) is
      (cells fm pick row is w)"
proof (induction "is" arbitrary: w)
  case (Cons i "is")
  let ?w = "add_cell i (cell fm pick row i w) w"
  have ok: "tw_ok ?w" using tw_ok_shape [OF Cons.prems(1) add_cell_shape] by simp
  have "tw_num_columns ?w = tw_num_columns w" by (simp add: add_cell_def)
  then show ?case
    using Cons.IH [OF ok] Cons.prems cell_clean [OF assms Cons.prems(1)]
      cell_field [OF assms Cons.prems(1)] field_allowed_shape [OF add_cell_shape, of fm i _ w]
    by (simp add: Let_def)
qed simp

lemma write_row_ok:
  assumes "tw_ok w"
  shows "tw_ok (write_row fm pick row w)"
  using tw_ok_shape [OF assms write_row_shape] by (simp add: write_row_buffer)

lemma decode_append_line:
  assumes "cs \<noteq> []" "list_all clean cs"
  shows "decode_rows (join [tabchar] cs @ newline # rest) = map load_field cs # decode_rows rest"
proof -
  have "newline \<notin> set (join [tabchar] cs)"
    using set_join [of tabchar cs] assms(2) by (auto simp: clean_def list_all_iff)
  then have "split_on newline (join [tabchar] cs @ newline # rest) =
      join [tabchar] cs # split_on newline rest"
    by (rule split_on_append)
  moreover have "split_on newline rest \<noteq> []" by (induction rest) (auto split: list.split)
  moreover have "split_on tabchar (join [tabchar] cs) = cs"
    using assms by (intro split_join) (auto simp: clean_def list_all_iff)
  ultimately show ?thesis by (simp add: decode_rows_def)
qed

lemma rows_decode:
  assumes "formats_ok fm" "picker_ok pick" "tw_ok w" "0 < tw_num_columns w"
  shows "\<exists>out. tw_buffer (write_rows fm pick rows w) = tw_buffer w @ out \<and>
    list_all2 (\<lambda>row fs. list_all2 (\<lambda>i f. field_allowed fm w i (row_value row i) f) [0..<tw_num_columns w] fs)
      rows (decode_rows out)"
  using assms(3,4)
proof (induction rows arbitrary: w)
  case Nil
  show ?case by (simp add: write_rows_def decode_rows_def)
next
  case (Cons row rows)
  let ?w = "write_row fm pick row w" and ?n = "tw_num_columns w"
  let ?cs = "cells fm pick row [0..<?n] w"
  have sh: "same_shape w ?w" by (rule write_row_shape)
  then have n: "tw_num_columns ?w = ?n" by (simp add: same_shape_def)
  note fa = field_allowed_shape [OF sh, of fm]
  obtain out where out: "tw_buffer (write_rows fm pick rows ?w) = tw_buffer ?w @ out"
    "list_all2 (\<lambda>row fs. list_all2 (\<lambda>i f. field_allowed fm w i (row_value row i) f) [0..<?n] fs)
      rows (decode_rows out)"
    using Cons.IH [OF write_row_ok [OF Cons.prems(1)], of fm pick row] Cons.prems(2)
    unfolding fa n by blast
  have c: "list_all2 (\<lambda>i c. clean c \<and> field_allowed fm w i (row_value row i) (load_field c)) [0..<?n] ?cs"
    using Cons.prems by (intro cells_allowed assms) auto
  then have cl: "list_all clean ?cs" by (auto simp: list_all2_conv_all_nth list_all_length)
  have ne: "?cs \<noteq> []" using length_cells [of fm pick row "[0..<?n]" w] Cons.prems(2) by auto
  have fs: "list_all2 (\<lambda>i f. field_allowed fm w i (row_value row i) f) [0..<?n] (map load_field ?cs)"
    using c by (auto simp: list_all2_conv_all_nth)
  have "tw_buffer (write_rows fm pick (row # rows) w) =
      tw_buffer w @ (join [tabchar] ?cs @ newline # out)"
    using out(1) by (simp add: write_rows_def write_row_buffer)
  moreover have "decode_rows (join [tabchar] ?cs @ newline # out) = map load_field ?cs # decode_rows out"
    by (rule decode_append_line [OF ne cl])
  ultimately show ?case using fs out(2) by auto
qed

section \<open>New writers\<close>

definition pools_ok :: "(string \<rightharpoonup> string list) \<Rightarrow> pools \<Rightarrow> bool" where
  "pools_ok fks ps \<longleftrightarrow>
     length (fst ps) = length (snd ps) \<and> distinct (fst ps) \<and>
     (\<forall>i < length (fst ps). snd ps ! i = (case fks (fst ps ! i) of Some vs \<Rightarrow> vs | None \<Rightarrow> []))"

lemma index_of_Some: "index_of x ys = Some i \<Longrightarrow> i < length ys \<and> ys ! i = x"
  by (induction ys arbitrary: i) (auto split: if_splits)

lemma index_of_None: "index_of x ys = None \<Longrightarrow> x \<notin> set ys"
  by (induction ys) (auto split: if_splits)

lemma get_or_create_pool_ok:
  assumes "pools_ok fks ps" "get_or_create_pool fks nm ps = (idx, ps')"
  shows "pools_ok fks ps' \<and> idx < length (snd ps') \<and> fst ps' ! idx = nm \<and>
    length (snd ps) \<le> length (snd ps')"
proof (cases ps)
  case (Pair names raw)
  show ?thesis
  proof (cases "index_of nm names")
    case None
    then show ?thesis
      using assms index_of_None [OF None]
      by (auto simp: Pair get_or_create_pool_def pools_ok_def nth_append less_Suc_eq split: option.split)
  next
    case (Some i)
    then show ?thesis using assms index_of_Some [OF Some]
      by (auto simp: Pair get_or_create_pool_def pools_ok_def)
  qed
qed

lemma action_in_mono: "action_in n a \<Longrightarrow> n \<le> m \<Longrightarrow> action_in m a"
  by (auto simp: action_in_def split: option.splits anon_action.splits)

lemma column_action_ok:
  assumes "pools_ok fks ps" "column_action rules fks c ps = (a, ps')"
  shows "pools_ok fks ps' \<and> action_in (length (snd ps')) a \<and> length (snd ps) \<le> length (snd ps')"
proof (cases "List.find (\<lambda>r. an_column r = c) rules")
  case None
  then show ?thesis using assms by (simp add: column_action_def action_in_def)
next
  case (Some rule)
  show ?thesis
  proof (cases "an_target rule")
    case (ToFaker nm)
    obtain idx ps1 where g: "get_or_create_pool fks nm ps = (idx, ps1)"
      by (cases "get_or_create_pool fks nm ps")
    then show ?thesis
      using assms(2) Some ToFaker get_or_create_pool_ok [OF assms(1) g]
      by (auto simp: column_action_def action_in_def split: if_splits)
  next
    case ToNull
    then show ?thesis using assms Some by (auto simp: column_action_def action_in_def)
  qed
qed

lemma column_actions_ok:
  assumes "pools_ok fks ps" "column_actions rules fks cs ps = (as, ps')"
  shows "pools_ok fks ps' \<and> length as = length cs \<and> length (snd ps) \<le> length (snd ps') \<and>
    (\<forall>a \<in> set as. action_in (length (snd ps')) a)"
  using assms
proof (induction cs arbitrary: ps as ps')
  case (Cons c cs)
  obtain a ps1 where a: "column_action rules fks c ps = (a, ps1)" by (cases "column_action rules fks c ps")
  obtain as2 ps2 where as: "column_actions rules fks cs ps1 = (as2, ps2)"
    by (cases "column_actions rules fks cs ps1")
  note ca = column_action_ok [OF Cons.prems(1) a]
  from Cons.IH [OF _ as] ca
  have "pools_ok fks ps2" "length as2 = length cs" "length (snd ps1) \<le> length (snd ps2)"
    "\<forall>a \<in> set as2. action_in (length (snd ps2)) a" by auto
  then show ?case using Cons.prems(2) a as ca action_in_mono by auto
qed auto

lemma tsv_writer_new_ok: "tw_ok (tsv_writer_new cols rules fks rng)"
  and tsv_writer_new_cols: "tw_num_columns (tsv_writer_new cols rules fks rng) = length cols"
  and tsv_writer_new_payload: "tw_payload (tsv_writer_new cols rules fks rng) = []"
proof -
  obtain acts names raw where c: "column_actions rules fks (map cd_name cols) ([], []) = (acts, names, raw)"
    by (cases "column_actions rules fks (map cd_name cols) ([], [])") auto
  have "pools_ok fks ([], [])" by (simp add: pools_ok_def)
  from column_actions_ok [OF this c]
  have "length acts = length cols" "\<forall>a \<in> set acts. action_in (length raw) a" by simp_all
  then show "tw_ok (tsv_writer_new cols rules fks rng)"
    by (simp add: tsv_writer_new_def c tw_ok_def header_space_def)
  show "tw_num_columns (tsv_writer_new cols rules fks rng) = length cols"
    "tw_payload (tsv_writer_new cols rules fks rng) = []"
    by (simp_all add: tsv_writer_new_def c tw_payload_def header_space_def)
qed

section \<open>Anonymised columns do not depend on the row\<close>

definition agree_on_plain :: "'r tsv_writer \<Rightarrow> mysql_value option list \<Rightarrow> mysql_value option list \<Rightarrow> bool" where
  "agree_on_plain w row row' \<longleftrightarrow>
     (\<forall>i < tw_num_columns w. tw_anon_by_column w ! i = None \<longrightarrow> row_value row i = row_value row' i)"

lemma cell_agree:
  "agree_on_plain w row row' \<Longrightarrow> i < tw_num_columns w \<Longrightarrow>
     cell fm pick row i w = cell fm pick row' i w"
  by (cases "tw_anon_by_column w ! i") (auto simp: agree_on_plain_def cell_def Let_def)

lemma agree_shape: "same_shape w w' \<Longrightarrow> agree_on_plain w' = agree_on_plain w"
  unfolding agree_on_plain_def by (simp only: same_shapeD)

lemma fold_agree:
  "agree_on_plain w row row' \<Longrightarrow> \<forall>i \<in> set is. i < tw_num_columns w \<Longrightarrow>
     fold (write_cell fm pick row) is w = fold (write_cell fm pick row') is w"
proof (induction "is" arbitrary: w)
  case (Cons i "is")
  let ?w = "add_cell i (cell fm pick row i w) w"
  have "write_cell fm pick row i w = ?w" "write_cell fm pick row' i w = ?w"
    using cell_agree [OF Cons.prems(1)] Cons.prems(2) by (simp_all add: write_cell_eq)
  moreover have "agree_on_plain ?w row row'" "tw_num_columns ?w = tw_num_columns w"
    using Cons.prems(1) agree_shape [OF add_cell_shape, of i _ w] same_shapeD(1) [OF add_cell_shape, of i _ w]
    by simp_all
  ultimately show ?case using Cons.IH [of ?w] Cons.prems(2) by simp
qed simp

lemma write_rows_agree:
  "list_all2 (agree_on_plain w) rows rows' \<Longrightarrow> write_rows fm pick rows w = write_rows fm pick rows' w"
proof (induction rows arbitrary: rows' w)
  case (Cons row rows)
  then obtain row' rs where r: "rows' = row' # rs" "agree_on_plain w row row'"
    "list_all2 (agree_on_plain w) rows rs" by (auto simp: list_all2_Cons1)
  have "write_row fm pick row w = write_row fm pick row' w"
    using fold_agree [OF r(2), of "[0..<tw_num_columns w]" fm pick] by (simp add: write_row_def)
  moreover have "list_all2 (agree_on_plain (write_row fm pick row w)) rows rs"
    using r(3) by (simp add: agree_shape [OF write_row_shape])
  ultimately show ?case using Cons.IH by (simp add: r(1) write_rows_def)
qed (simp add: write_rows_def)

section \<open>Unique values\<close>

definition unique_value :: "u64 \<Rightarrow> string \<Rightarrow> string" where
  "unique_value k base = replace_all UNIQUE_SENTINEL (u64_string k) base"

lemma replace_all_none: "find_sub p s = None \<Longrightarrow> replace_all p r s = s"
  by (subst replace_all.simps) simp

lemma replace_all_some:
  "p \<noteq> [] \<Longrightarrow> find_sub p s = Some n \<Longrightarrow>
     replace_all p r s = take n s @ r @ replace_all p r (drop (n + length p) s)"
  by (subst replace_all.simps) simp

fun count_sub :: "string \<Rightarrow> nat \<Rightarrow> string \<Rightarrow> nat" where
  "count_sub p 0 s = 0"
| "count_sub p (Suc fuel) s =
     (case find_sub p s of None \<Rightarrow> 0 | Some n \<Rightarrow> Suc (count_sub p fuel (drop (n + length p) s)))"

text \<open>The length of a replaced text, and equality of two replacements of the same text.\<close>

lemma replace_all_length:
  assumes "p \<noteq> []"
  shows "length s \<le> fuel \<Longrightarrow>
    length (replace_all p r s) + count_sub p fuel s * length p = length s + count_sub p fuel s * length r"
proof (induction fuel arbitrary: s)
  case 0
  then show ?case by (subst replace_all.simps) simp
next
  case (Suc fuel)
  show ?case
  proof (cases "find_sub p s")
    case None
    then show ?thesis by (simp add: replace_all_none)
  next
    case (Some n)
    have n: "n + length p \<le> length s" using find_sub_Some [OF Some] by simp
    have lt: "length (drop (n + length p) s) \<le> fuel" using Suc.prems n assms by (cases p) auto
    show ?thesis
      using Suc.IH [OF lt] n by (simp add: replace_all_some [OF assms Some] Some algebra_simps)
  qed
qed

lemma replace_all_inject:
  assumes "p \<noteq> []" "contains s p" "replace_all p r s = replace_all p r' s"
  shows "r = r'"
proof -
  from assms(2) obtain n where n: "find_sub p s = Some n" by (auto simp: contains_def)
  define c where "c = count_sub p (length s) s"
  have "0 < c" using n assms(1) by (cases s) (auto simp: c_def split: if_splits)
  moreover have "c * length r = c * length r'"
  proof -
    have "length (replace_all p q s) + c * length p = length s + c * length q" for q
      unfolding c_def by (rule replace_all_length [OF assms(1) order_refl])
    from this [of r] this [of r'] show ?thesis unfolding assms(3) by linarith
  qed
  ultimately have "length r = length r'" by simp
  then show ?thesis using assms(3) by (simp add: replace_all_some [OF assms(1) n])
qed

lemma u64_string_inject: "u64_string a = u64_string b \<longleftrightarrow> a = b"
  by (simp add: u64_string_def word_unat_eq_iff)

text \<open>Two values that one faker template with \<open>{unique()}\<close> gives at different counters are
  different, whatever surrounds and however often the template has the placeholder.\<close>

lemma unique_value_inject:
  assumes "contains base UNIQUE_SENTINEL" "unique_value k base = unique_value k' base"
  shows "k = k'"
  using replace_all_inject [of UNIQUE_SENTINEL base "u64_string k" "u64_string k'"] assms
  by (simp add: unique_value_def u64_string_inject UNIQUE_SENTINEL_def)

lemma unique_value_inject_witness:
  "contains ''user{unique()}@example.test'' UNIQUE_SENTINEL \<and>
   unique_value 7 ''user{unique()}@example.test'' = ''user7@example.test'' \<and> (7 :: u64) = 7"
proof -
  let ?b = "''user{unique()}@example.test''"
  have "contains ?b UNIQUE_SENTINEL" by code_simp
  moreover have "unique_value 7 ?b = ''user7@example.test''" by code_simp
  ultimately show ?thesis using unique_value_inject [of ?b 7 7] by blast
qed

text \<open>
  A pool may hold several templates, and the writer takes them in turn.  Values of different
  templates can then coincide: the templates below both contain the placeholder, yet the
  counters 106 and 1106 give the same value.
\<close>

definition colliding_pool :: "string list" where
  "colliding_pool =
     [''a{unique()}'', ''a1{unique()}'', ''b{unique()}'', ''c{unique()}'', ''d{unique()}'',
      ''e{unique()}'', ''f{unique()}'']"

text \<open>A pool of several templates does not keep values unique: in the pool of seven
  templates above, the counters 106 and 1106 select different templates and give the same
  value.\<close>

lemma unique_pool_collision:
  "list_all (\<lambda>v. contains v UNIQUE_SENTINEL) colliding_pool \<and> distinct colliding_pool \<and>
   unique_value 106 (colliding_pool ! (106 mod length colliding_pool)) =
   unique_value 1106 (colliding_pool ! (1106 mod length colliding_pool))"
  by code_simp

section \<open>Chunks\<close>

lemma flag_bit: "bit RAW_CHUNK_FLAG i \<longleftrightarrow> i = 31"
proof -
  have e: "RAW_CHUNK_FLAG = push_bit 31 1" by (simp add: RAW_CHUNK_FLAG_def push_bit_eq_mult)
  show ?thesis unfolding e bit_push_bit_iff bit_1_iff by auto
qed

lemma as_u32_low: "n < 2 ^ 31 \<Longrightarrow> \<not> bit (as_u32 n) 31"
proof -
  assume n: "n < 2 ^ 31"
  then have "\<not> bit n 31" by (simp add: bit_iff_odd)
  then show ?thesis by (simp add: as_u32_def bit_of_nat_iff)
qed

lemma flagged_len_read:
  assumes "n < 2 ^ 31"
  shows "and (flagged_len n) RAW_CHUNK_FLAG \<noteq> 0"
    and "unat (and (flagged_len n) (not RAW_CHUNK_FLAG)) = n"
proof -
  have "bit (and (flagged_len n) RAW_CHUNK_FLAG) 31"
    by (simp add: flagged_len_def bit_and_iff bit_or_iff flag_bit)
  then show "and (flagged_len n) RAW_CHUNK_FLAG \<noteq> 0" by auto
  have "and (flagged_len n) (not RAW_CHUNK_FLAG) = as_u32 n"
    using as_u32_low [OF assms]
    by (intro bit_eqI) (auto simp: flagged_len_def bit_and_iff bit_or_iff bit_not_iff flag_bit)
  then show "unat (and (flagged_len n) (not RAW_CHUNK_FLAG)) = n"
    using assms by (simp add: unat_as_u32)
qed

lemma unflagged_len_read:
  assumes "n < 2 ^ 31"
  shows "and (as_u32 n) RAW_CHUNK_FLAG = 0"
    and "unat (and (as_u32 n) (not RAW_CHUNK_FLAG)) = n"
proof -
  show "and (as_u32 n) RAW_CHUNK_FLAG = 0"
    using as_u32_low [OF assms] by (intro bit_eqI) (auto simp: bit_and_iff flag_bit)
  have "and (as_u32 n) (not RAW_CHUNK_FLAG) = as_u32 n"
    using as_u32_low [OF assms] by (intro bit_eqI) (auto simp: bit_and_iff bit_not_iff flag_bit)
  then show "unat (and (as_u32 n) (not RAW_CHUNK_FLAG)) = n"
    using assms by (simp add: unat_as_u32)
qed

section \<open>Properties\<close>

text \<open>Concrete parameters for the witnesses.\<close>

definition hex_digit :: "nat \<Rightarrow> char" where
  "hex_digit n = (if n < 10 then char_of (48 + n) else char_of (87 + n))"

definition hex_encode :: "bytes \<Rightarrow> bytes" where
  "hex_encode bs =
     concat (map (\<lambda>b. [hex_digit (of_char b div 16), hex_digit (of_char b mod 16)]) bs)"

definition decimal_formats :: formats where
  "decimal_formats =
     \<lparr>fmt_int = i64_string, fmt_uint = u64_string, fmt_float = (\<lambda>f. nat_string (unat f)),
      fmt_double = u64_string, fmt_hex = hex_encode\<rparr>"

definition round_robin :: "nat picker" where
  "round_robin r n = (r mod n, r + 1)"

lemma hex_digit_plain: "n < 16 \<Longrightarrow> tsv_replacement (hex_digit n) = None"
proof -
  assume "n < 16"
  then have "n \<in> set [0..<16]" by simp
  moreover have "list_all (\<lambda>n. tsv_replacement (hex_digit n) = None) [0..<16]" by code_simp
  ultimately show ?thesis unfolding list_all_iff by blast
qed

lemma decimal_formats_ok: "formats_ok decimal_formats"
proof -
  have h: "plain (hex_encode b)" for b
  proof (induction b)
    case (Cons c b)
    have "(of_char c :: nat) < 256" by (rule nat_of_char_less_256)
    then have "(of_char c :: nat) div 16 < 16" by linarith
    then show ?case using Cons by (simp add: hex_encode_def hex_digit_plain)
  qed (simp add: hex_encode_def)
  have i: "plain (i64_string n)" for n
    by (simp add: i64_string_def int_string_def tsv_replacement_def)
  show ?thesis
    by (simp add: formats_ok_def decimal_formats_def h i u64_string_def)
qed

lemma round_robin_ok: "picker_ok round_robin"
  by (simp add: picker_ok_def round_robin_def)

text \<open>\<open>escape_tsv_bytes\<close>, which copies clean segments in bulk, equals the byte-by-byte escape;
  its output has no tab and no newline, is never the NULL marker, and \<open>LOAD DATA\<close> reads it
  back as the original bytes, for any bytes.\<close>

lemma escape_tsv_correct:
  "escape_tsv_bytes buf bs = buf @ escape_spec bs \<and> clean (escape_spec bs) \<and>
   load_field (escape_spec bs) = Some bs"
  by (simp add: escape_tsv_spec escape_clean load_escape)


definition text_column :: "string \<Rightarrow> string \<Rightarrow> column_def" where
  "text_column nm ty =
     \<lparr>cd_name = nm, cd_type_name = ty, cd_full_type = ty, cd_max_length = None, cd_nullable = True,
      cd_is_primary_key = False, cd_charset = None, cd_collation = None,
      cd_flags = \<lparr>cf_unsigned = False, cf_zerofill = False, cf_binary = False,
                  cf_auto_increment = False\<rparr>\<rparr>"

definition sample_cols :: "column_def list" where
  "sample_cols = [text_column ''id'' ''INT'', text_column ''mail'' ''VARCHAR'', text_column ''raw'' ''BLOB'']"

definition sample_rules :: "plan_anonymize_rule list" where
  "sample_rules = [\<lparr>an_column = ''mail'', an_target = ToFaker ''mails''\<rparr>]"

definition sample_fakers :: "string \<rightharpoonup> string list" where
  "sample_fakers = [''mails'' \<mapsto> [''u{unique()}@x'']]"




end
