(* ===== verification/Wire.thy ===== *)
theory Wire
  imports Tsv
begin

text \<open>
  The client's end of the data stream: receiving a frame (\<open>recv_message\<close> and
  \<open>validate_message_length\<close> of \<open>crates/client/src/protocol.rs\<close>), the chunk envelope
  (\<open>maybe_decompress\<close> and \<open>build_load_data_sql\<close> of \<open>crates/client/src/loader.rs\<close>,
  \<open>compress_zstd\<close> of \<open>crates/client/src/dump.rs\<close>).  The zstd compressor and decompressor are
  parameters; \<open>zstd_ok\<close> is the documented law that decompression inverts compression.
\<close>

section \<open>Receiving\<close>

datatype recv_error =
    ReadLengthFailed
  | MessageTooLarge nat nat
  | ReadBodyFailed
  | ChunkDecodeFailed io_error
  | MessageDecodeFailed string

definition validate_message_length :: "nat \<Rightarrow> nat \<Rightarrow> recv_error + unit" where
  "validate_message_length len max_size =
     (if max_size < len then Inl (MessageTooLarge len max_size) else Inr ())"

definition decode_server_message :: "server_message decoder \<Rightarrow> bytes \<Rightarrow> recv_error + server_message" where
  "decode_server_message dec buffer =
     map_error MessageDecodeFailed (rbind (dec buffer) (\<lambda>(m, _). Inr m))"

definition recv_message ::
  "server_message decoder \<Rightarrow> nat \<Rightarrow> bytes \<Rightarrow> recv_error + server_message \<times> bytes" where
  "recv_message dec max_size r =
     rbind (map_error (\<lambda>_. ReadLengthFailed) (read_exact 4 r)) (\<lambda>(len_bytes, r1).
     let raw_len = u32_from_le len_bytes;
         is_raw_chunk = (and raw_len RAW_CHUNK_FLAG \<noteq> 0);
         len = unat (and raw_len (not RAW_CHUNK_FLAG))
     in
     rbind (validate_message_length len max_size) (\<lambda>_.
     rbind (map_error (\<lambda>_. ReadBodyFailed) (read_exact len r1)) (\<lambda>(buffer, r2).
     if is_raw_chunk then
       rbind (map_error ChunkDecodeFailed (decode_data_chunk buffer)) (\<lambda>c.
       Inr (Data (dc_table_id c) (dc_row_count c) (dc_tsv_data c), r2))
     else
       rbind (decode_server_message dec buffer) (\<lambda>m. Inr (m, r2)))))"

section \<open>The chunk envelope\<close>

datatype chunk_error = InvalidCompressed | DecompressionFailed string | SizeMismatch | ChunkTooLarge nat

definition maybe_decompress ::
  "(bytes \<Rightarrow> string + bytes) \<Rightarrow> bytes \<Rightarrow> compression_mode \<Rightarrow> chunk_error + bytes" where
  "maybe_decompress unzstd data compression =
     (case compression of
        CZstd \<Rightarrow>
          (if length data < 4 then Inl InvalidCompressed
           else
             (let uncompressed_len = unat (u32_from_le [data ! 0, data ! 1, data ! 2, data ! 3]) in
              rbind (map_error DecompressionFailed (unzstd (drop 4 data))) (\<lambda>out.
              if length out \<noteq> uncompressed_len then Inl SizeMismatch else Inr out)))
      | _ \<Rightarrow> Inr data)"

definition compress_zstd :: "(bytes \<Rightarrow> string + bytes) \<Rightarrow> bytes \<Rightarrow> chunk_error + bytes" where
  "compress_zstd zstd data =
     (if 2 ^ 32 \<le> length data then Inl (ChunkTooLarge (length data))
      else
        rbind (map_error DecompressionFailed (zstd data)) (\<lambda>compressed.
        Inr (u32_to_le (as_u32 (length data)) @ compressed)))"

definition zstd_ok :: "(bytes \<Rightarrow> string + bytes) \<Rightarrow> (bytes \<Rightarrow> string + bytes) \<Rightarrow> bool" where
  "zstd_ok zstd unzstd \<longleftrightarrow> (\<forall>x y. zstd x = Inr y \<longrightarrow> unzstd y = Inr x)"

section \<open>The statement that loads a chunk\<close>

definition bquoted :: "string \<Rightarrow> string" where
  "bquoted s = ''`'' @ s @ ''`''"

definition hex_var :: "nat \<Rightarrow> string" where
  "hex_var i = ''@jibs_hex_'' @ nat_string i"

definition load_columns :: "column_def list \<Rightarrow> string list" where
  "load_columns cols =
     map (\<lambda>(i, c). if is_binary_type c then hex_var i else bquoted (cd_name c)) (enumerate 0 cols)"

definition load_set_clauses :: "column_def list \<Rightarrow> string list" where
  "load_set_clauses cols =
     map (\<lambda>(i, c). bquoted (cd_name c) @ '' = UNHEX('' @ hex_var i @ '')'')
       (filter (\<lambda>(i, c). is_binary_type c) (enumerate 0 cols))"

definition build_load_data_sql :: "string \<Rightarrow> column_def list \<Rightarrow> string" where
  "build_load_data_sql table cols =
     (let esc = (\<lambda>c. [squote, backslash, c, squote]);
          sql = ''LOAD DATA LOCAL INFILE '' @ [squote] @ ''data.tsv'' @ [squote] @ '' INTO TABLE '' @
            bquoted table @ '' FIELDS TERMINATED BY '' @ esc (CHR ''t'') @ '' ESCAPED BY '' @
            esc backslash @ '' LINES TERMINATED BY '' @ esc (CHR ''n'') @ '' ('' @
            join '', '' (load_columns cols) @ '')''
      in if load_set_clauses cols \<noteq> [] then sql @ '' SET '' @ join '', '' (load_set_clauses cols)
         else sql)"

section \<open>From the writer to the loader\<close>

lemma overwrite_prefix: "length x = length y \<Longrightarrow> overwrite (x @ r) 0 y = y @ r"
  by (simp add: overwrite_def)

lemma split_header:
  assumes "length (h :: bytes) = 8"
  shows "\<exists>a b c. h = a @ b @ c \<and> length a = 4 \<and> length b = 2 \<and> length c = 2"
proof (intro exI conjI)
  show "h = take 4 h @ take 2 (drop 4 h) @ drop 2 (drop 4 h)" by (simp only: append_take_drop_id)
qed (use assms in simp_all)

lemma frame_none:
  assumes "take_encoded_chunk zstd tid rc CNone w = Inr (frame, w')" "tw_ok w"
  shows "frame = u32_to_le (flagged_len (4 + length (tw_payload w))) @ u16_to_le tid @ u16_to_le rc @
      tw_payload w"
proof -
  let ?h = "take RAW_CHUNK_HEADER_LEN (tw_buffer w)"
  have len: "length ?h = 8" using assms(2) by (simp add: tw_ok_def RAW_CHUNK_HEADER_LEN_def)
  have split: "tw_buffer w = ?h @ tw_payload w" by (simp add: tw_payload_def)
  have l: "length (tw_buffer w) - RAW_CHUNK_HEADER_LEN = length (tw_payload w)"
    by (simp add: tw_payload_def)
  obtain a b c where h: "?h = a @ b @ c" "length a = 4" "length b = 2" "length c = 2"
    using split_header [OF len] by blast
  have split': "tw_buffer w = a @ b @ c @ tw_payload w" using split h(1) by (metis append_assoc)
  let ?f = "u32_to_le (flagged_len (4 + length (tw_payload w)))"
  have "frame = overwrite (overwrite (overwrite (tw_buffer w) 0 ?f) 4 (u16_to_le tid)) 6 (u16_to_le rc)"
    using assms(1) l by (simp add: take_encoded_chunk_def Let_def)
  also have "\<dots> = ?f @ u16_to_le tid @ u16_to_le rc @ tw_payload w"
    using h le32.enc_length le16.enc_length by (simp add: split' overwrite_def)
  finally show ?thesis .
qed

lemma chunk_frame_read:
  assumes "4 + length body < 2 ^ 31" "4 + length body \<le> max_size"
  shows "recv_message dec max_size
      (u32_to_le (flagged_len (4 + length body)) @ u16_to_le tid @ u16_to_le rc @ body @ rest) =
    Inr (Data tid rc body, rest)"
proof -
  note fl = flagged_len_read [OF assms(1)]
  have four: "length bs = 2 \<Longrightarrow> [bs ! 0, bs ! 1] = bs" for bs :: bytes
    by (cases bs; cases "tl bs") auto
  let ?b = "u16_to_le tid @ u16_to_le rc @ body"
  have dc: "decode_data_chunk ?b = Inr \<lparr>dc_table_id = tid, dc_row_count = rc, dc_tsv_data = body\<rparr>"
  proof -
    have "[?b ! 0, ?b ! 1] = u16_to_le tid" "[?b ! 2, ?b ! 3] = u16_to_le rc"
      using four [OF le16.enc_length] le16.enc_length by (simp_all add: nth_append)
    then show ?thesis by (simp add: decode_data_chunk_def le16.enc_length le16.dec_enc)
  qed
  have r1: "read_exact 4 (u32_to_le (flagged_len (4 + length body)) @ ?b @ rest) =
      Inr (u32_to_le (flagged_len (4 + length body)), ?b @ rest)"
    by (rule read_exact_append) (simp add: le32.enc_length)
  have r2: "read_exact (4 + length body) (?b @ rest) = Inr (?b, rest)"
    by (rule read_exact_append) (simp add: le16.enc_length)
  show ?thesis
    using r1 r2 dc fl assms(2)
    by (simp add: recv_message_def map_error_def Let_def le32.dec_enc validate_message_length_def)
qed

text \<open>C4: a chunk crosses the wire unchanged: the frame that \<open>take_encoded_chunk\<close> builds, in any
  compression mode and followed by any bytes, is received as a data message with the same
  table and row count, unpacks to the writer's payload, leaves the reader at the next frame
  and the writer empty; for payloads below the 2 GiB of the flagged length and within the
  receiver's limit.\<close>

theorem chunk_roundtrip:
  assumes "zstd_ok zstd unzstd" "tw_ok w"
    and "take_encoded_chunk zstd tid rc cm w = Inr (frame, w')"
    and "length frame - 4 \<le> max_size" "length frame - 4 < 2 ^ 31" "length (tw_payload w) < 2 ^ 32"
  shows "\<exists>data. recv_message dec max_size (frame @ rest) = Inr (Data tid rc data, rest) \<and>
     maybe_decompress unzstd data cm = Inr (tw_payload w) \<and>
     tw_payload w' = [] \<and> tw_ok w'"
proof -
  have w': "tw_payload w' = []" "tw_ok w'"
    using assms(2,3)
    by (auto simp: take_encoded_chunk_def Let_def tw_payload_def header_space_def tw_ok_def
        split: compression_mode.splits sum.splits)
  show ?thesis
  proof (cases "cm = CZstd")
    case True
    then obtain z where z: "zstd (tw_payload w) = Inr z"
      "frame = u32_to_le (flagged_len (4 + (4 + length z))) @ u16_to_le tid @ u16_to_le rc @
        u32_to_le (as_u32 (length (tw_payload w))) @ z"
      using assms(3) by (auto simp: take_encoded_chunk_def Let_def tw_payload_def split: sum.splits)
    let ?body = "u32_to_le (as_u32 (length (tw_payload w))) @ z"
    have lb: "length ?body = 4 + length z" "length frame = 12 + length z"
      by (simp_all add: z(2) le32.enc_length le16.enc_length)
    have r: "recv_message dec max_size (frame @ rest) = Inr (Data tid rc ?body, rest)"
      using chunk_frame_read [of ?body max_size dec tid rc rest] assms(4,5) lb z(2) by simp
    have four: "length bs = 4 \<Longrightarrow> [(bs @ z) ! 0, (bs @ z) ! 1, (bs @ z) ! 2, (bs @ z) ! 3] = bs" for bs :: bytes
      by (cases bs; cases "tl bs"; cases "tl (tl bs)"; cases "tl (tl (tl bs))") auto
    have "unat (as_u32 (length (tw_payload w))) = length (tw_payload w)"
      by (rule unat_as_u32 [OF assms(6)])
    moreover have "unzstd z = Inr (tw_payload w)" using assms(1) z(1) by (simp add: zstd_ok_def)
    ultimately have "maybe_decompress unzstd ?body cm = Inr (tw_payload w)"
      using four [OF le32.enc_length] True
      by (simp add: maybe_decompress_def Let_def le32.enc_length le32.dec_enc map_error_def)
    then show ?thesis using r w' by blast
  next
    case False
    then have n: "take_encoded_chunk zstd tid rc CNone w = Inr (frame, w')"
      using assms(3) by (cases cm) (simp_all add: take_encoded_chunk_def)
    note fr = frame_none [OF n assms(2)]
    have "length frame = 8 + length (tw_payload w)" by (simp add: fr le32.enc_length le16.enc_length)
    then have "recv_message dec max_size (frame @ rest) = Inr (Data tid rc (tw_payload w), rest)"
      using chunk_frame_read [of "tw_payload w" max_size dec tid rc rest] assms(4,5) fr by simp
    moreover have "maybe_decompress unzstd (tw_payload w) cm = Inr (tw_payload w)"
      using False by (cases cm) (simp_all add: maybe_decompress_def)
    ultimately show ?thesis using w' by blast
  qed
qed

text \<open>A compressor for the witness: it prepends one byte.\<close>

definition toy_zstd :: "bytes \<Rightarrow> string + bytes" where "toy_zstd x = Inr (CHR ''Z'' # x)"
definition toy_unzstd :: "bytes \<Rightarrow> string + bytes" where
  "toy_unzstd y = (case y of [] \<Rightarrow> Inl ''empty'' | z # x \<Rightarrow> Inr x)"

definition sample_writer :: "nat tsv_writer" where
  "sample_writer =
     write_rows decimal_formats round_robin [[Some (MInt 5), Some (MBytes ''me''), None]]
       (tsv_writer_new sample_cols sample_rules sample_fakers 0)"

lemma sample_writer_ok: "tw_ok sample_writer"
proof -
  have "tw_ok (write_row decimal_formats round_robin row (tsv_writer_new sample_cols sample_rules sample_fakers 0))" for row
    by (rule write_row_ok [OF tsv_writer_new_ok])
  then show ?thesis by (simp add: sample_writer_def write_rows_def)
qed

theorem chunk_roundtrip_witness:
  "\<exists>frame w' data. take_encoded_chunk toy_zstd 3 1 CZstd sample_writer = Inr (frame, w') \<and>
     recv_message (\<lambda>_. Inl ''no message'') 1000 (frame @ ''next'') = Inr (Data 3 1 data, ''next'') \<and>
     maybe_decompress toy_unzstd data CZstd = Inr (tw_payload sample_writer)"
proof -
  have z: "zstd_ok toy_zstd toy_unzstd" by (simp add: zstd_ok_def toy_zstd_def toy_unzstd_def)
  have p: "length (tw_payload sample_writer) = 10" by code_simp
  have "\<exists>x. take_encoded_chunk toy_zstd 3 1 CZstd sample_writer = Inr x"
    by (simp add: take_encoded_chunk_def toy_zstd_def Let_def)
  then obtain frame w' where t: "take_encoded_chunk toy_zstd 3 1 CZstd sample_writer = Inr (frame, w')"
    by auto
  then have "length frame = 23"
    using p by (auto simp: take_encoded_chunk_def toy_zstd_def Let_def tw_payload_def le32.enc_length le16.enc_length)
  then show ?thesis
    using chunk_roundtrip [OF z sample_writer_ok t, of 1000 "\<lambda>_. Inl ''no message''" "''next''"] p t
    by simp blast
qed

lemma message_frame_recv:
  assumes "codec_ok enc dec" "enc m = Inr body" "length body \<le> max_size" "length body < 2 ^ 31"
    and "message_frame enc m = Inr frame"
  shows "recv_message dec max_size (frame @ rest) = Inr (m, rest)"
proof -
  have f: "frame = u32_to_le (as_u32 (length body)) @ body" using assms(2,5) by (simp add: message_frame_def)
  note ul = unflagged_len_read [OF assms(4)]
  have d: "dec body = Inr (m, length body)" using assms(1,2) by (simp add: codec_ok_def)
  have "read_exact 4 (frame @ rest) = Inr (u32_to_le (as_u32 (length body)), body @ rest)"
    unfolding f append_assoc by (rule read_exact_append) (simp add: le32.enc_length)
  then show ?thesis
    using ul d assms(3) read_exact_append [of body "length body" rest]
    by (simp add: recv_message_def map_error_def Let_def le32.dec_enc validate_message_length_def
        decode_server_message_def)
qed

end
