(* ===== verification/Dump.thy ===== *)
theory Dump
  imports Wire
begin

text \<open>
  The \<open>.jibsdump\<close> file (\<open>crates/client/src/dump.rs\<close>): a preamble and a sequence of
  length-prefixed records that ends with a terminator.  The writer works over any \<open>sink\<close>; the
  reader is the list of bytes still to come, and bincode is a parameter as in the framing
  layer.  The lemmas show that a reader gets back the records that were written, and that a
  file cut anywhere before its end never yields the terminator.
\<close>

section \<open>Records and the writer\<close>

definition DUMP_MAGIC :: bytes where "DUMP_MAGIC = ''JIBSDUMP''"
definition FORMAT_VERSION :: u16 where "FORMAT_VERSION = 3"
definition DUMP_PREAMBLE_LEN :: nat where "DUMP_PREAMBLE_LEN = 10"

datatype dump_record =
    DrManifest "preserve_rule list"
  | DrTable string "column_def list" "index_def list" table_options "plan_anonymize_rule list option"
  | DrChunk string compression_mode u16 bytes
  | DrTableEnd string u64
  | DrPostProcess "set_rule list" "string list"
  | DrForeignKeys "foreign_key_def list"
  | DrEnd

text \<open>\<open>write_message_noflush\<close> of the framing layer: the length, then the encoding.\<close>

definition put_message :: "'w write_all \<Rightarrow> 'm encoder \<Rightarrow> 'm \<Rightarrow> 'w \<Rightarrow> io_error + 'w" where
  "put_message wa enc m w =
     (case enc m of
        Inl e \<Rightarrow> Inl (InvalidData e)
      | Inr encoded \<Rightarrow>
          rbind (wa w (u32_to_le (as_u32 (length encoded)))) (\<lambda>w1. wa w1 encoded))"

definition dump_new :: "'w write_all \<Rightarrow> 'w \<Rightarrow> io_error + 'w" where
  "dump_new wa w = rbind (wa w DUMP_MAGIC) (\<lambda>w1. wa w1 (u16_to_le FORMAT_VERSION))"

definition write_manifest ::
  "'w write_all \<Rightarrow> dump_record encoder \<Rightarrow> preserve_rule list \<Rightarrow> 'w \<Rightarrow> io_error + 'w" where
  "write_manifest wa enc ps w = (if ps = [] then Inr w else put_message wa enc (DrManifest ps) w)"

definition write_table where
  "write_table wa enc nm cols idxs opts rules w = put_message wa enc (DrTable nm cols idxs opts rules) w"

datatype dump_error = DumpIo io_error | DumpChunk chunk_error

definition write_chunk ::
  "'w write_all \<Rightarrow> dump_record encoder \<Rightarrow> (bytes \<Rightarrow> string + bytes) \<Rightarrow> string \<Rightarrow> compression_mode \<Rightarrow>
     u16 \<Rightarrow> bytes \<Rightarrow> 'w \<Rightarrow> dump_error + 'w" where
  "write_chunk wa enc zstd table incoming row_count data w =
     rbind (case incoming of CZstd \<Rightarrow> Inr data | _ \<Rightarrow> map_error DumpChunk (compress_zstd zstd data))
       (\<lambda>data'. map_error DumpIo (put_message wa enc (DrChunk table CZstd row_count data') w))"

definition write_table_end where
  "write_table_end wa enc table row_count w = put_message wa enc (DrTableEnd table row_count) w"

definition write_post_process ::
  "'w write_all \<Rightarrow> dump_record encoder \<Rightarrow> set_rule list \<Rightarrow> string list \<Rightarrow> 'w \<Rightarrow> io_error + 'w" where
  "write_post_process wa enc ss afters w =
     (if ss = [] \<and> afters = [] then Inr w else put_message wa enc (DrPostProcess ss afters) w)"

definition write_foreign_keys where
  "write_foreign_keys wa enc fks w = put_message wa enc (DrForeignKeys fks) w"

definition dump_finish :: "'w write_all \<Rightarrow> 'w flusher \<Rightarrow> dump_record encoder \<Rightarrow> 'w \<Rightarrow> io_error + 'w" where
  "dump_finish wa fl enc w = rbind (put_message wa enc DrEnd w) fl"

section \<open>The reader\<close>

datatype dump_read_error =
    HeaderTooShort | BadDumpMagic | UnsupportedVersion u16
  | TruncatedLength | RecordTooLarge nat nat | TruncatedBody nat | RecordDecode string

datatype read_outcome = RoFull | RoEof | RoPartial

text \<open>
  \<open>read_full\<close>: the loop reads until the buffer is full or a read returns nothing; over a
  byte list it takes what is left.
\<close>

definition read_full :: "nat \<Rightarrow> bytes \<Rightarrow> read_outcome \<times> bytes \<times> bytes" where
  "read_full n r =
     (let got = take n r in
      (if length got = n then RoFull else if got = [] then RoEof else RoPartial, got, drop n r))"

definition open_dump :: "bytes \<Rightarrow> dump_read_error + bytes" where
  "open_dump r =
     rbind (map_error (\<lambda>_. HeaderTooShort) (read_exact DUMP_PREAMBLE_LEN r)) (\<lambda>(pre, r1).
     if take 8 pre \<noteq> DUMP_MAGIC then Inl BadDumpMagic
     else
       (let version = u16_from_le [pre ! 8, pre ! 9] in
        if version \<noteq> FORMAT_VERSION then Inl (UnsupportedVersion version) else Inr r1))"

definition next_record ::
  "dump_record decoder \<Rightarrow> nat \<Rightarrow> bytes \<Rightarrow> dump_read_error + dump_record option \<times> bytes" where
  "next_record dec max_size r =
     (case read_full 4 r of
        (RoEof, _, r1) \<Rightarrow> Inr (None, r1)
      | (RoPartial, _, _) \<Rightarrow> Inl TruncatedLength
      | (RoFull, len_bytes, r1) \<Rightarrow>
          (let len = unat (u32_from_le len_bytes) in
           if max_size < len then Inl (RecordTooLarge len max_size)
           else
             (case read_full len r1 of
                (RoFull, buf, r2) \<Rightarrow>
                  rbind (map_error RecordDecode (dec buf)) (\<lambda>(rec, _). Inr (Some rec, r2))
              | _ \<Rightarrow> Inl (TruncatedBody len))))"

text \<open>A consumer's loop over the records: what it saw, and how it ended.\<close>

datatype dump_end = CleanEof | ReadFailed dump_read_error

function read_records ::
  "dump_record decoder \<Rightarrow> nat \<Rightarrow> bytes \<Rightarrow> dump_record list \<times> dump_end" where
  "read_records dec max_size r =
     (case next_record dec max_size r of
        Inl e \<Rightarrow> ([], ReadFailed e)
      | Inr (None, r1) \<Rightarrow> ([], CleanEof)
      | Inr (Some rec, r1) \<Rightarrow>
          (case read_records dec max_size r1 of (recs, e) \<Rightarrow> (rec # recs, e)))"
  by pat_completeness auto
termination
proof (relation "measure (\<lambda>(dec, max_size, r). length r)", simp, clarsimp)
  fix dec max_size r rec r1
  assume "next_record dec max_size r = Inr (Some rec, r1)"
  then show "length r1 < length r"
    by (auto simp: next_record_def read_full_def Let_def rbind_Inr_iff map_error_def
        split: prod.splits read_outcome.splits if_splits sum.splits)
qed

declare read_records.simps [simp del]

section \<open>Round trip and truncation\<close>

definition record_frame :: "dump_record encoder \<Rightarrow> dump_record \<Rightarrow> bytes" where
  "record_frame enc rec = (case message_frame enc rec of Inr f \<Rightarrow> f | Inl e \<Rightarrow> [])"

text \<open>The records a reader accepts: encodable, and small enough.\<close>

definition record_fits :: "dump_record encoder \<Rightarrow> nat \<Rightarrow> dump_record \<Rightarrow> bool" where
  "record_fits enc max_size rec \<longleftrightarrow>
     (case enc rec of Inl e \<Rightarrow> False | Inr bs \<Rightarrow> length bs \<le> max_size \<and> length bs < 2 ^ 32)"

context sink
begin

lemma put_message_contents:
  "put_message wa enc m w = Inr w' \<Longrightarrow>
     \<exists>frame. message_frame enc m = Inr frame \<and> contents w' = contents w @ frame"
  by (auto simp: put_message_def message_frame_def rbind_Inr_iff write_all_contents split: sum.splits)

lemma put_record_contents:
  "put_message wa enc rec w = Inr w' \<Longrightarrow> contents w' = contents w @ record_frame enc rec"
  by (auto simp: record_frame_def dest!: put_message_contents)

lemma dump_new_contents:
  "dump_new wa w = Inr w' \<Longrightarrow> contents w' = contents w @ DUMP_MAGIC @ u16_to_le FORMAT_VERSION"
  by (auto simp: dump_new_def rbind_Inr_iff write_all_contents)

lemma dump_finish_contents:
  "dump_finish wa fl enc w = Inr w' \<Longrightarrow> contents w' = contents w @ record_frame enc DrEnd"
  by (auto simp: dump_finish_def rbind_Inr_iff flush_contents dest!: put_record_contents)

end

lemma record_frame_eq:
  "record_fits enc max_size rec \<Longrightarrow>
     \<exists>bs. enc rec = Inr bs \<and> record_frame enc rec = u32_to_le (as_u32 (length bs)) @ bs \<and>
       unat (as_u32 (length bs)) = length bs \<and> length bs \<le> max_size"
  by (auto simp: record_fits_def record_frame_def message_frame_def unat_as_u32 split: sum.splits)

lemma next_record_frame:
  assumes "codec_ok enc dec" "record_fits enc max_size rec"
  shows "next_record dec max_size (record_frame enc rec @ rest) = Inr (Some rec, rest)"
proof -
  obtain bs where bs: "enc rec = Inr bs" "record_frame enc rec = u32_to_le (as_u32 (length bs)) @ bs"
    "unat (as_u32 (length bs)) = length bs" "length bs \<le> max_size"
    using record_frame_eq [OF assms(2)] by blast
  have "dec bs = Inr (rec, length bs)" using assms(1) bs(1) by (simp add: codec_ok_def)
  then show ?thesis using bs
    by (simp add: next_record_def read_full_def Let_def le32.enc_length le32.dec_enc map_error_def)
qed

lemma next_record_cut:
  assumes "record_fits enc max_size rec" "n < length (record_frame enc rec)" "0 < n"
  shows "\<exists>e. next_record dec max_size (take n (record_frame enc rec)) = Inl e"
proof -
  obtain bs where bs: "record_frame enc rec = u32_to_le (as_u32 (length bs)) @ bs"
    "unat (as_u32 (length bs)) = length bs"
    using record_frame_eq [OF assms(1)] by blast
  have ne: "u32_to_le x \<noteq> []" for x using le32.enc_length [of x] by auto
  show "\<exists>e. next_record dec max_size (take n (record_frame enc rec)) = Inl e"
  proof (cases "n < 4")
    case True
    then show ?thesis using assms(3) bs ne
      by (auto simp: next_record_def read_full_def le32.enc_length)
  next
    case False
    then have "take 4 (take n (record_frame enc rec)) = u32_to_le (as_u32 (length bs))"
      "drop 4 (take n (record_frame enc rec)) = take (n - 4) bs"
      by (simp_all add: bs(1) le32.enc_length min_def)
    moreover have "n - 4 < length bs" using assms(2) False by (simp add: bs(1) le32.enc_length)
    ultimately show ?thesis using bs(2)
      by (auto simp: next_record_def read_full_def Let_def le32.enc_length le32.dec_enc)
  qed
qed

definition frames :: "dump_record encoder \<Rightarrow> dump_record list \<Rightarrow> bytes" where
  "frames enc recs = concat (map (record_frame enc) recs)"

lemma read_frames:
  assumes "codec_ok enc dec" "list_all (record_fits enc max_size) recs"
  shows "read_records dec max_size (frames enc recs @ tail) =
    (recs @ fst (read_records dec max_size tail), snd (read_records dec max_size tail))"
  using assms(2)
proof (induction recs)
  case Nil
  then show ?case by (simp add: frames_def)
next
  case (Cons rec recs)
  have "next_record dec max_size (record_frame enc rec @ (frames enc recs @ tail)) =
      Inr (Some rec, frames enc recs @ tail)"
    using Cons.prems by (intro next_record_frame assms(1)) simp
  then show ?case
    using Cons by (subst read_records.simps) (simp add: frames_def split_beta)
qed

lemma read_records_empty: "read_records dec max_size [] = ([], CleanEof)"
  by (subst read_records.simps) (simp add: next_record_def read_full_def)

lemma frames_cut:
  assumes "codec_ok enc dec"
  shows "list_all (record_fits enc max_size) recs \<Longrightarrow> n < length (frames enc recs) \<Longrightarrow>
    \<exists>k e. read_records dec max_size (take n (frames enc recs)) = (take k recs, e) \<and> k < length recs"
proof (induction recs arbitrary: n)
  case (Cons rec recs)
  let ?f = "record_frame enc rec"
  have fr: "frames enc (rec # recs) = ?f @ frames enc recs" by (simp add: frames_def)
  show ?case
  proof (cases "n < length ?f")
    case True
    then have t: "take n (frames enc (rec # recs)) = take n ?f" by (simp add: fr)
    show ?thesis
    proof (cases "n = 0")
      case True
      then show ?thesis by (intro exI [of _ 0]) (simp add: read_records_empty)
    next
      case False
      then obtain e where "next_record dec max_size (take n ?f) = Inl e"
        using next_record_cut [of enc max_size rec n dec] \<open>n < length ?f\<close> Cons.prems(1) by auto
      then have "read_records dec max_size (take n ?f) = ([], ReadFailed e)"
        by (subst read_records.simps) simp
      then show ?thesis unfolding t by (intro exI [of _ 0]) simp
    qed
  next
    case False
    then have t: "take n (frames enc (rec # recs)) = ?f @ take (n - length ?f) (frames enc recs)"
      by (simp add: fr)
    have lt: "n - length ?f < length (frames enc recs)" using Cons.prems(2) False by (simp add: fr)
    then obtain k e where k: "read_records dec max_size (take (n - length ?f) (frames enc recs)) = (take k recs, e)"
      "k < length recs" using Cons.IH [OF _ lt] Cons.prems(1) by auto
    have "next_record dec max_size (?f @ take (n - length ?f) (frames enc recs)) =
        Inr (Some rec, take (n - length ?f) (frames enc recs))"
      using Cons.prems(1) by (intro next_record_frame assms) simp
    then show ?thesis unfolding t
      using k by (subst read_records.simps) (auto intro: exI [of _ "Suc k"])
  qed
qed (simp add: frames_def)

section \<open>Whole dumps\<close>

text \<open>The writer's calls, in any order, on a byte vector.\<close>

datatype dump_op =
    DoManifest "preserve_rule list"
  | DoTable string "column_def list" "index_def list" table_options "plan_anonymize_rule list option"
  | DoChunk string compression_mode u16 bytes
  | DoTableEnd string u64
  | DoPostProcess "set_rule list" "string list"
  | DoForeignKeys "foreign_key_def list"

fun run_dump_op where
  "run_dump_op wa enc zstd (DoManifest ps) w = map_error DumpIo (write_manifest wa enc ps w)"
| "run_dump_op wa enc zstd (DoTable nm cols idxs opts rules) w =
     map_error DumpIo (write_table wa enc nm cols idxs opts rules w)"
| "run_dump_op wa enc zstd (DoChunk t cm n data) w = write_chunk wa enc zstd t cm n data w"
| "run_dump_op wa enc zstd (DoTableEnd t n) w = map_error DumpIo (write_table_end wa enc t n w)"
| "run_dump_op wa enc zstd (DoPostProcess ss afters) w =
     map_error DumpIo (write_post_process wa enc ss afters w)"
| "run_dump_op wa enc zstd (DoForeignKeys fks) w = map_error DumpIo (write_foreign_keys wa enc fks w)"

fun run_dump_ops where
  "run_dump_ops wa enc zstd [] w = Inr w"
| "run_dump_ops wa enc zstd (op # ops) w =
     rbind (run_dump_op wa enc zstd op w) (run_dump_ops wa enc zstd ops)"

text \<open>A complete dump: the preamble, the calls, the terminator.\<close>

definition write_dump ::
  "dump_record encoder \<Rightarrow> (bytes \<Rightarrow> string + bytes) \<Rightarrow> dump_op list \<Rightarrow> dump_error + bytes" where
  "write_dump enc zstd ops =
     rbind (map_error DumpIo (dump_new buf_write_all [])) (\<lambda>w.
     rbind (run_dump_ops buf_write_all enc zstd ops w) (\<lambda>w1.
     map_error DumpIo (dump_finish buf_write_all buf_flush enc w1)))"

text \<open>The record a call leaves in the file, if any.\<close>

fun op_record :: "(bytes \<Rightarrow> string + bytes) \<Rightarrow> dump_op \<Rightarrow> dump_record option" where
  "op_record zstd (DoManifest ps) = (if ps = [] then None else Some (DrManifest ps))"
| "op_record zstd (DoTable nm cols idxs opts rules) = Some (DrTable nm cols idxs opts rules)"
| "op_record zstd (DoChunk t cm n data) =
     (case (if cm = CZstd then Inr data else compress_zstd zstd data) of
        Inl e \<Rightarrow> None
      | Inr data' \<Rightarrow> Some (DrChunk t CZstd n data'))"
| "op_record zstd (DoTableEnd t n) = Some (DrTableEnd t n)"
| "op_record zstd (DoPostProcess ss afters) =
     (if ss = [] \<and> afters = [] then None else Some (DrPostProcess ss afters))"
| "op_record zstd (DoForeignKeys fks) = Some (DrForeignKeys fks)"

definition op_records :: "(bytes \<Rightarrow> string + bytes) \<Rightarrow> dump_op list \<Rightarrow> dump_record list" where
  "op_records zstd ops = concat (map (\<lambda>op. case op_record zstd op of None \<Rightarrow> [] | Some r \<Rightarrow> [r]) ops)"

lemma map_error_Inr: "map_error f r = Inr x \<longleftrightarrow> r = Inr x"
  by (simp add: map_error_def split: sum.split)

lemma run_dump_op_contents:
  "run_dump_op buf_write_all enc zstd op w = Inr w' \<Longrightarrow>
     w' = w @ frames enc (case op_record zstd op of None \<Rightarrow> [] | Some r \<Rightarrow> [r])"
  by (cases op)
    (auto simp: map_error_Inr rbind_Inr_iff write_manifest_def write_table_def write_chunk_def
      write_table_end_def write_post_process_def write_foreign_keys_def frames_def
      split: if_splits compression_mode.splits dest!: vec.put_record_contents)

lemma frames_append: "frames enc (xs @ ys) = frames enc xs @ frames enc ys"
  by (simp add: frames_def)

lemma run_dump_ops_contents:
  "run_dump_ops buf_write_all enc zstd ops w = Inr w' \<Longrightarrow> w' = w @ frames enc (op_records zstd ops)"
proof (induction ops arbitrary: w)
  case Nil
  then show ?case by (simp add: frames_def op_records_def)
next
  case (Cons op ops)
  then obtain w1 where w1: "run_dump_op buf_write_all enc zstd op w = Inr w1"
    "run_dump_ops buf_write_all enc zstd ops w1 = Inr w'" by (auto simp: rbind_Inr_iff)
  have "op_records zstd (op # ops) = (case op_record zstd op of None \<Rightarrow> [] | Some r \<Rightarrow> [r]) @ op_records zstd ops"
    by (simp add: op_records_def)
  then show ?case using Cons.IH [OF w1(2)] run_dump_op_contents [OF w1(1)] by (simp add: frames_append)
qed

lemma write_dump_contents:
  "write_dump enc zstd ops = Inr dmp \<Longrightarrow>
     dmp = (DUMP_MAGIC @ u16_to_le FORMAT_VERSION) @ frames enc (op_records zstd ops @ [DrEnd])"
  by (auto simp: write_dump_def rbind_Inr_iff map_error_Inr frames_def
      dest!: vec.dump_new_contents run_dump_ops_contents vec.dump_finish_contents)

lemma open_dump_written: "open_dump ((DUMP_MAGIC @ u16_to_le FORMAT_VERSION) @ rest) = Inr rest"
proof -
  have two: "length bs = 2 \<Longrightarrow> [bs ! 0, bs ! 1] = bs" for bs :: bytes
    by (cases bs; cases "tl bs") auto
  have "read_exact DUMP_PREAMBLE_LEN ((DUMP_MAGIC @ u16_to_le FORMAT_VERSION) @ rest) =
      Inr (DUMP_MAGIC @ u16_to_le FORMAT_VERSION, rest)"
    by (rule read_exact_append) (simp add: DUMP_MAGIC_def DUMP_PREAMBLE_LEN_def le16.enc_length)
  moreover have "[(DUMP_MAGIC @ u16_to_le FORMAT_VERSION) ! 8, (DUMP_MAGIC @ u16_to_le FORMAT_VERSION) ! 9]
      = u16_to_le FORMAT_VERSION"
    using two [OF le16.enc_length [of FORMAT_VERSION]] by (simp add: DUMP_MAGIC_def)
  ultimately show ?thesis
    by (simp add: open_dump_def map_error_def Let_def le16.dec_enc) (simp add: DUMP_MAGIC_def)
qed

text \<open>C7: a dump written by any sequence of writer calls opens, and reading it to the end gives the
  records of those calls in order, then exactly one terminator, and a clean end of file; every
  data chunk is stored compressed.\<close>

theorem dump_roundtrip:
  assumes "codec_ok enc dec" "write_dump enc zstd ops = Inr dmp"
    and "list_all (record_fits enc max_size) (op_records zstd ops @ [DrEnd])"
  shows "\<exists>rest. open_dump dmp = Inr rest \<and>
     read_records dec max_size rest = (op_records zstd ops @ [DrEnd], CleanEof)"
proof -
  note f = write_dump_contents [OF assms(2)]
  have "read_records dec max_size (frames enc (op_records zstd ops @ [DrEnd]) @ []) =
      (op_records zstd ops @ [DrEnd], CleanEof)"
    using read_frames [OF assms(1,3), of "[]"] by (simp add: read_records_empty)
  then show ?thesis using f open_dump_written by simp
qed

text \<open>A dump that was cut short anywhere is never mistaken for a complete one: for every strict
  prefix of the file, either it does not open, or reading it gives a strict prefix of the
  records, without the terminator.\<close>

lemma dump_truncation:
  assumes "codec_ok enc dec" "write_dump enc zstd ops = Inr dmp"
    and "list_all (record_fits enc max_size) (op_records zstd ops @ [DrEnd])"
    and "n < length dmp"
  shows "(\<exists>e. open_dump (take n dmp) = Inl e) \<or>
     (\<exists>rest k. open_dump (take n dmp) = Inr rest \<and> k \<le> length (op_records zstd ops) \<and>
        fst (read_records dec max_size rest) = take k (op_records zstd ops))"
proof (cases "n < DUMP_PREAMBLE_LEN")
  case True
  then have "length (take n dmp) < DUMP_PREAMBLE_LEN" by simp
  then have "open_dump (take n dmp) = Inl HeaderTooShort"
    unfolding open_dump_def read_exact_def by (simp add: map_error_def del: length_take)
  then show ?thesis by blast
next
  case False
  let ?pre = "DUMP_MAGIC @ u16_to_le FORMAT_VERSION"
  let ?recs = "op_records zstd ops @ [DrEnd]"
  have lp: "length ?pre = DUMP_PREAMBLE_LEN"
    by (simp add: DUMP_MAGIC_def DUMP_PREAMBLE_LEN_def le16.enc_length)
  note f = write_dump_contents [OF assms(2)]
  have t: "take n dmp = ?pre @ take (n - length ?pre) (frames enc ?recs)"
    unfolding f using False lp by simp
  have "n - length ?pre < length (frames enc ?recs)" using assms(4) False lp f by simp
  from frames_cut [OF assms(1,3) this] obtain k e where
    k: "read_records dec max_size (take (n - length ?pre) (frames enc ?recs)) = (take k ?recs, e)"
    "k < length ?recs" by blast
  have "open_dump (take n dmp) = Inr (take (n - length ?pre) (frames enc ?recs))"
    unfolding t by (rule open_dump_written)
  moreover have "take k ?recs = take k (op_records zstd ops)" "k \<le> length (op_records zstd ops)"
    using k(2) by simp_all
  ultimately show ?thesis using k(1) by (metis fst_conv)
qed

text \<open>
  A codec for the witnesses, on the records of the sample dump: a table-end record is one byte
  and the terminator another; nothing else is encodable.
\<close>

definition sample_encode :: "dump_record encoder" where
  "sample_encode rec =
     (case rec of
        DrTableEnd t n \<Rightarrow> if t = [] \<and> n = 0 then Inr ''T'' else Inl ''unsupported''
      | DrEnd \<Rightarrow> Inr ''E''
      | _ \<Rightarrow> Inl ''unsupported'')"

definition sample_decode :: "dump_record decoder" where
  "sample_decode bs =
     (if bs = ''T'' then Inr (DrTableEnd [] 0, 1)
      else if bs = ''E'' then Inr (DrEnd, 1) else Inl ''bad record'')"

lemma sample_codec: "codec_ok sample_encode sample_decode"
  by (auto simp: codec_ok_def sample_encode_def sample_decode_def split: dump_record.splits if_splits)

definition sample_ops :: "dump_op list" where
  "sample_ops = [DoManifest [], DoTableEnd [] 0, DoTableEnd [] 0]"

lemma sample_dump:
  "\<exists>dmp. write_dump sample_encode toy_zstd sample_ops = Inr dmp \<and> length dmp = 25"
  "list_all (record_fits sample_encode 100) (op_records toy_zstd sample_ops @ [DrEnd])"
proof -
  show "list_all (record_fits sample_encode 100) (op_records toy_zstd sample_ops @ [DrEnd])"
    by (simp add: op_records_def sample_ops_def record_fits_def sample_encode_def)
  have "\<exists>dmp. write_dump sample_encode toy_zstd sample_ops = Inr dmp"
    by (simp add: write_dump_def dump_new_def buf_write_all_def map_error_def sample_ops_def
        write_manifest_def write_table_end_def put_message_def sample_encode_def dump_finish_def
        buf_flush_def)
  then obtain dmp where f: "write_dump sample_encode toy_zstd sample_ops = Inr dmp" by blast
  have "length dmp = 25"
    using write_dump_contents [OF f]
    by (simp add: DUMP_MAGIC_def le16.enc_length frames_def op_records_def sample_ops_def
        record_frame_def message_frame_def sample_encode_def le32.enc_length)
  then show "\<exists>dmp. write_dump sample_encode toy_zstd sample_ops = Inr dmp \<and> length dmp = 25"
    using f by blast
qed

theorem dump_roundtrip_witness:
  "\<exists>dmp rest. write_dump sample_encode toy_zstd sample_ops = Inr dmp \<and> open_dump dmp = Inr rest \<and>
     read_records sample_decode 100 rest = (op_records toy_zstd sample_ops @ [DrEnd], CleanEof)"
proof -
  obtain dmp where f: "write_dump sample_encode toy_zstd sample_ops = Inr dmp"
    using sample_dump(1) by blast
  show ?thesis using dump_roundtrip [OF sample_codec f sample_dump(2)] f by blast
qed

lemma dump_truncation_witness:
  "\<exists>dmp. write_dump sample_encode toy_zstd sample_ops = Inr dmp \<and> 24 < length dmp \<and>
     ((\<exists>e. open_dump (take 24 dmp) = Inl e) \<or>
      (\<exists>rest k. open_dump (take 24 dmp) = Inr rest \<and> k \<le> length (op_records toy_zstd sample_ops) \<and>
         fst (read_records sample_decode 100 rest) = take k (op_records toy_zstd sample_ops)))"
proof -
  obtain dmp where f: "write_dump sample_encode toy_zstd sample_ops = Inr dmp" "length dmp = 25"
    using sample_dump(1) by blast
  then have "24 < length dmp" by simp
  from dump_truncation [OF sample_codec f(1) sample_dump(2) this] f show ?thesis by auto
qed

end
