(* ===== verification/Walk.thy ===== *)
theory Walk
  imports Plan "HOL-Library.Multiset"
begin

text \<open>
  The static analysis of the relation graph (\<open>crates/server/src/traversal.rs\<close>, relation graph
  helpers and static graph analysis): which tables an aggregate could touch, and the dry-run
  report that is computed from it.

  Regular expressions are a parameter: \<open>rx p\<close> compiles a pattern to its matcher or fails.  Hash
  sets are sets; the index of relations by table is the list of the relations of that table in
  plan order, which is what grouping them in a hash map of vectors gives.  The queue of the
  walk is a stack whose top is the head of the list.

  \<open>reach\<close> is the reachability the walk is meant to compute.  The lemmas show that it computes
  exactly that, whatever the order of the relations, and that it always ends.
\<close>

section \<open>Errors (error.rs)\<close>

datatype server_error =
    SeIo string
  | SeMySql string
  | SeProtocol string
  | SeNotFound string
  | SeInvalidData string
  | SeConfig string

fun se_is_recoverable :: "server_error \<Rightarrow> bool" where
  "se_is_recoverable (SeIo _) = True"
| "se_is_recoverable (SeMySql _) = True"
| "se_is_recoverable (SeProtocol _) = False"
| "se_is_recoverable (SeNotFound _) = False"
| "se_is_recoverable (SeInvalidData _) = False"
| "se_is_recoverable (SeConfig _) = False"

fun se_display :: "server_error \<Rightarrow> string" where
  "se_display (SeIo e) = ''IO error: '' @ e"
| "se_display (SeMySql e) = ''MySQL error: '' @ e"
| "se_display (SeProtocol e) = ''Protocol error: '' @ e"
| "se_display (SeNotFound e) = ''Not found: '' @ e"
| "se_display (SeInvalidData e) = ''Invalid data: '' @ e"
| "se_display (SeConfig e) = ''Configuration error: '' @ e"

section \<open>Relations of a table\<close>

type_synonym regex_engine = "string \<Rightarrow> string + (string \<Rightarrow> bool)"

definition relations_by_source :: "relation list \<Rightarrow> string \<Rightarrow> relation list" where
  "relations_by_source rels t = filter (\<lambda>r. from_table r = t) rels"

definition relations_by_target :: "relation list \<Rightarrow> string \<Rightarrow> relation list" where
  "relations_by_target rels t = filter (\<lambda>r. to_table r = t) rels"

definition get_forward_relations ::
  "string \<Rightarrow> relation list \<Rightarrow> string set \<Rightarrow> string set \<Rightarrow> relation list" where
  "get_forward_relations table rels all_tables exclude_tables =
     filter (\<lambda>r. from_table r \<in> all_tables \<and> to_table r \<in> all_tables \<and> to_table r \<notin> exclude_tables)
       (relations_by_source rels table)"

definition get_backward_relations ::
  "string \<Rightarrow> relation list \<Rightarrow> string set \<Rightarrow> string set \<Rightarrow> relation list" where
  "get_backward_relations table rels all_tables exclude_tables =
     filter (\<lambda>r. from_table r \<in> all_tables \<and> to_table r \<in> all_tables \<and> from_table r \<notin> exclude_tables)
       (relations_by_target rels table)"

section \<open>The static walk\<close>

definition compile_pattern ::
  "regex_engine \<Rightarrow> string \<Rightarrow> string \<Rightarrow> server_error + (string \<Rightarrow> bool)" where
  "compile_pattern rx agg p =
     (case rx p of
        Inl e \<Rightarrow>
          Inl (SeConfig (''Invalid exclude pattern /'' @ p @ ''/ in aggregate '' @ [squote] @ agg @
            [squote] @ '': '' @ e))
      | Inr m \<Rightarrow> Inr m)"

definition expand_exclude_patterns ::
  "regex_engine \<Rightarrow> resolved_aggregate \<Rightarrow> string set \<Rightarrow> server_error + string set" where
  "expand_exclude_patterns rx agg table_names =
     (let exclude = set (ra_exclude_tables agg) in
      if ra_exclude_patterns agg = [] then Inr exclude
      else
        rbind (rmap (compile_pattern rx (ra_name agg)) (ra_exclude_patterns agg)) (\<lambda>regexes.
        Inr (exclude \<union> {t \<in> table_names. list_ex (\<lambda>re. re t) regexes})))"

text \<open>The strongest capability a table was explored with, and the tables still to visit.\<close>

type_synonym walk_state = "(string \<rightharpoonup> bool) \<times> (string \<times> bool) list"

definition should_visit :: "(string \<rightharpoonup> bool) \<Rightarrow> string \<Rightarrow> bool \<Rightarrow> bool" where
  "should_visit explored t backward =
     (case explored t of None \<Rightarrow> True | Some had_backward \<Rightarrow> backward \<and> \<not> had_backward)"

definition visit :: "(string \<Rightarrow> bool) \<Rightarrow> bool \<Rightarrow> string \<Rightarrow> walk_state \<Rightarrow> walk_state" where
  "visit ok backward t st =
     (case st of (explored, queue) \<Rightarrow>
        if ok t \<and> should_visit explored t backward
        then (explored(t \<mapsto> backward), (t, backward) # queue) else st)"

definition walk_step ::
  "relation list \<Rightarrow> (string \<Rightarrow> bool) \<Rightarrow> string \<Rightarrow> bool \<Rightarrow> walk_state \<Rightarrow> walk_state" where
  "walk_step rels ok table can_go_backward st =
     (let st1 = fold (\<lambda>r. visit ok False (to_table r)) (relations_by_source rels table) st in
      if can_go_backward then
        fold (\<lambda>r. visit ok True (from_table r)) (relations_by_target rels table) st1
      else st1)"

text \<open>What is left to explore, which every round of the walk decreases.\<close>

definition related_tables :: "relation list \<Rightarrow> string set" where
  "related_tables rels = from_table ` set rels \<union> to_table ` set rels"

definition rank :: "bool option \<Rightarrow> nat" where
  "rank c = (case c of None \<Rightarrow> 0 | Some False \<Rightarrow> 1 | Some True \<Rightarrow> 2)"

definition walk_measure :: "relation list \<Rightarrow> walk_state \<Rightarrow> nat" where
  "walk_measure rels st =
     (\<Sum>t \<in> related_tables rels. 2 - rank (fst st t)) + length (snd st)"

lemma finite_related [simp]: "finite (related_tables rels)"
  by (simp add: related_tables_def)

lemma visit_measure:
  assumes "t \<in> related_tables rels"
  shows "walk_measure rels (visit ok b t st) \<le> walk_measure rels st"
proof -
  obtain ex q where st: "st = (ex, q)" by (cases st)
  show ?thesis
  proof (cases "ok t \<and> should_visit ex t b")
    case True
    then have r: "rank (ex t) < rank (Some b)" "rank (Some b) \<le> 2"
      by (auto simp: should_visit_def rank_def split: option.splits bool.splits)
    have "(\<Sum>x \<in> related_tables rels. 2 - rank ((ex(t \<mapsto> b)) x)) <
        (\<Sum>x \<in> related_tables rels. 2 - rank (ex x))"
      using assms r by (intro sum_strict_mono_ex1) (auto intro!: bexI [of _ t])
    then show ?thesis using True by (simp add: st visit_def walk_measure_def)
  qed (auto simp: st visit_def)
qed

lemma fold_visit_measure:
  assumes "\<forall>r \<in> set rs. f r \<in> related_tables rels"
  shows "walk_measure rels (fold (\<lambda>r. visit ok b (f r)) rs st) \<le> walk_measure rels st"
  using assms
proof (induction rs arbitrary: st)
  case (Cons r rs)
  then show ?case using visit_measure [of "f r" rels ok b st] le_trans by fastforce
qed simp

lemma walk_step_measure: "walk_measure rels (walk_step rels ok t b st) \<le> walk_measure rels st"
proof -
  let ?s = "fold (\<lambda>r. visit ok False (to_table r)) (relations_by_source rels t) st"
  have "walk_measure rels ?s \<le> walk_measure rels st"
    by (rule fold_visit_measure) (auto simp: relations_by_source_def related_tables_def)
  moreover have "walk_measure rels (fold (\<lambda>r. visit ok True (from_table r)) (relations_by_target rels t) ?s)
      \<le> walk_measure rels ?s"
    by (rule fold_visit_measure) (auto simp: relations_by_target_def related_tables_def)
  ultimately show ?thesis by (auto simp: walk_step_def Let_def)
qed

function walk ::
  "relation list \<Rightarrow> (string \<Rightarrow> bool) \<Rightarrow> walk_state \<Rightarrow> string set \<Rightarrow> string set" where
  "walk rels ok st potential =
     (case st of
        (explored, []) \<Rightarrow> potential
      | (explored, (table, can_go_backward) # queue) \<Rightarrow>
          walk rels ok (walk_step rels ok table can_go_backward (explored, queue))
            (insert table potential))"
  by pat_completeness auto
termination
proof (relation "measure (\<lambda>(rels, ok, st, pot). walk_measure rels st)", simp, clarsimp)
  fix rels ok ex t b q
  have "walk_measure rels (walk_step rels ok t b (ex, q)) \<le> walk_measure rels (ex, q)"
    by (rule walk_step_measure)
  also have "\<dots> < walk_measure rels (ex, (t, b) # q)" by (simp add: walk_measure_def)
  finally show "walk_measure rels (walk_step rels ok t b (ex, q)) < walk_measure rels (ex, (t, b) # q)" .
qed

declare walk.simps [simp del]

text \<open>The tables one aggregate adds to the potential ones.\<close>

definition importable_target :: "execution_plan \<Rightarrow> string set \<Rightarrow> string set \<Rightarrow> string \<Rightarrow> bool" where
  "importable_target plan importable exclude t \<longleftrightarrow>
     t \<in> importable \<and> t \<notin> full_tables plan \<and> t \<notin> exclude"

definition aggregate_potential ::
  "regex_engine \<Rightarrow> execution_plan \<Rightarrow> string set \<Rightarrow> resolved_aggregate \<Rightarrow> string set \<Rightarrow>
     server_error + string set" where
  "aggregate_potential rx plan importable agg potential =
     rbind (expand_exclude_patterns rx agg importable) (\<lambda>expanded.
     let exclude = expanded \<union> excluded_tables plan; root = ra_root_table agg in
     if ra_root_only agg then
       Inr (if root \<in> importable then insert root potential else potential)
     else
       Inr (walk (relations plan) (importable_target plan importable exclude)
         (if root \<in> importable then ([root \<mapsto> True], [(root, True)]) else (Map.empty, []))
         potential))"

fun potential_loop ::
  "regex_engine \<Rightarrow> execution_plan \<Rightarrow> string set \<Rightarrow> resolved_aggregate list \<Rightarrow> string set \<Rightarrow>
     server_error + string set" where
  "potential_loop rx plan importable [] potential = Inr potential"
| "potential_loop rx plan importable (agg # aggs) potential =
     rbind (aggregate_potential rx plan importable agg potential)
       (potential_loop rx plan importable aggs)"

definition compute_potential_aggregate_tables ::
  "regex_engine \<Rightarrow> execution_plan \<Rightarrow> string set \<Rightarrow> server_error + string set" where
  "compute_potential_aggregate_tables rx plan importable =
     potential_loop rx plan importable (aggregates plan) {}"

section \<open>The walk computes reachability\<close>

text \<open>
  Tables are reached with or without the capability to go on backwards: a table reached
  through a backward relation (or a root) has it, a table reached through a forward relation
  does not.
\<close>

inductive reach ::
  "relation list \<Rightarrow> (string \<Rightarrow> bool) \<Rightarrow> (string \<times> bool) set \<Rightarrow> string \<Rightarrow> bool \<Rightarrow> bool"
  for rels ok start where
  reach_start: "(t, c) \<in> start \<Longrightarrow> reach rels ok start t c"
| reach_forward:
    "reach rels ok start (from_table r) c \<Longrightarrow> r \<in> set rels \<Longrightarrow> ok (to_table r) \<Longrightarrow>
       reach rels ok start (to_table r) False"
| reach_backward:
    "reach rels ok start (to_table r) True \<Longrightarrow> r \<in> set rels \<Longrightarrow> ok (from_table r) \<Longrightarrow>
       reach rels ok start (from_table r) True"

lemma should_visit_upd [simp]:
  "should_visit (ex(t \<mapsto> b)) u c = (if u = t then c \<and> \<not> b else should_visit ex u c)"
  "should_visit (\<lambda>a. if a = t then Some b else ex a) u c =
     (if u = t then c \<and> \<not> b else should_visit ex u c)"
  by (simp_all add: should_visit_def)

lemma visit_simps [simp]:
  "ok t \<and> should_visit ex t b \<Longrightarrow> visit ok b t (ex, q) = (ex(t \<mapsto> b), (t, b) # q)"
  "\<not> (ok t \<and> should_visit ex t b) \<Longrightarrow> visit ok b t (ex, q) = (ex, q)"
  by (auto simp: visit_def)

lemma fold_visit_explored:
  "fst (fold (\<lambda>r. visit ok b (f r)) rs (ex, q)) t =
     (if (\<exists>r \<in> set rs. f r = t) \<and> ok t \<and> should_visit ex t b then Some b else ex t)"
proof (induction rs arbitrary: ex q)
  case (Cons r rs)
  show ?case
    by (cases "ok (f r) \<and> should_visit ex (f r) b") (auto simp: Cons.IH)
qed simp

lemma fold_visit_queue:
  "set (snd (fold (\<lambda>r. visit ok b (f r)) rs (ex, q))) =
     set q \<union> {(t, b) | t. (\<exists>r \<in> set rs. f r = t) \<and> ok t \<and> should_visit ex t b}"
proof (induction rs arbitrary: ex q)
  case (Cons r rs)
  show ?case
    by (cases "ok (f r) \<and> should_visit ex (f r) b") (auto simp: Cons.IH split: if_splits)
qed simp

definition forward_new :: "relation list \<Rightarrow> (string \<Rightarrow> bool) \<Rightarrow> (string \<rightharpoonup> bool) \<Rightarrow> string \<Rightarrow> string \<Rightarrow> bool" where
  "forward_new rels ok ex t u \<longleftrightarrow>
     (\<exists>r \<in> set rels. from_table r = t \<and> to_table r = u) \<and> ok u \<and> ex u = None"

definition backward_new :: "relation list \<Rightarrow> (string \<Rightarrow> bool) \<Rightarrow> (string \<rightharpoonup> bool) \<Rightarrow> string \<Rightarrow> string \<Rightarrow> bool" where
  "backward_new rels ok ex t u \<longleftrightarrow>
     (\<exists>r \<in> set rels. to_table r = t \<and> from_table r = u) \<and> ok u \<and> ex u \<noteq> Some True"

lemma forward_fold:
  assumes "fold (\<lambda>r. visit ok False (to_table r)) (relations_by_source rels t) (ex, q) = (ex1, q1)"
  shows "ex1 u = (if forward_new rels ok ex t u then Some False else ex u)"
    and "set q1 = set q \<union> {(u, False) | u. forward_new rels ok ex t u}"
    and "should_visit ex1 u True \<longleftrightarrow> ex u \<noteq> Some True"
proof -
  have f: "((\<exists>r \<in> set (relations_by_source rels t). to_table r = v) \<and> ok v \<and> should_visit ex v False)
      = forward_new rels ok ex t v" for v
    by (auto simp: forward_new_def relations_by_source_def should_visit_def split: option.splits)
  have e: "ex1 v = (if forward_new rels ok ex t v then Some False else ex v)" for v
    using fold_visit_explored [of ok False to_table "relations_by_source rels t" ex q v]
    by (simp add: assms f)
  then show "ex1 u = (if forward_new rels ok ex t u then Some False else ex u)" .
  show "set q1 = set q \<union> {(u, False) | u. forward_new rels ok ex t u}"
    using fold_visit_queue [of ok False to_table "relations_by_source rels t" ex q]
    by (simp add: assms f)
  show "should_visit ex1 u True \<longleftrightarrow> ex u \<noteq> Some True"
    by (auto simp: should_visit_def e forward_new_def split: option.splits)
qed

lemma walk_step_explored:
  "fst (walk_step rels ok t c (ex, q)) u =
     (if c \<and> backward_new rels ok ex t u then Some True
      else if forward_new rels ok ex t u then Some False else ex u)"
proof -
  obtain ex1 q1 where s: "fold (\<lambda>r. visit ok False (to_table r)) (relations_by_source rels t) (ex, q) = (ex1, q1)"
    by fastforce
  have "((\<exists>r \<in> set (relations_by_target rels t). from_table r = u) \<and> ok u \<and> should_visit ex1 u True)
      = backward_new rels ok ex t u"
    by (auto simp: backward_new_def relations_by_target_def forward_fold [OF s])
  then show ?thesis
    using forward_fold(1) [OF s, of u] by (simp add: walk_step_def s Let_def fold_visit_explored)
qed

lemma walk_step_queue:
  "set (snd (walk_step rels ok t c (ex, q))) =
     set q \<union> {(u, False) | u. forward_new rels ok ex t u} \<union>
     {(u, True) | u. c \<and> backward_new rels ok ex t u}"
proof -
  obtain ex1 q1 where s: "fold (\<lambda>r. visit ok False (to_table r)) (relations_by_source rels t) (ex, q) = (ex1, q1)"
    by fastforce
  have "((\<exists>r \<in> set (relations_by_target rels t). from_table r = u) \<and> ok u \<and> should_visit ex1 u True)
      = backward_new rels ok ex t u" for u
    by (auto simp: backward_new_def relations_by_target_def forward_fold [OF s])
  then show ?thesis
    using forward_fold(2) [OF s] by (simp add: walk_step_def s Let_def fold_visit_queue)
qed

text \<open>
  The invariant: everything explored is reachable and is either still on the queue or closed
  under the relations; \<open>pot\<close> holds what has been taken off the queue.
\<close>

definition closed_at :: "relation list \<Rightarrow> (string \<Rightarrow> bool) \<Rightarrow> (string \<rightharpoonup> bool) \<Rightarrow> string \<Rightarrow> bool \<Rightarrow> bool" where
  "closed_at rels ok ex t c \<longleftrightarrow>
     (\<forall>r \<in> set rels. from_table r = t \<longrightarrow> ok (to_table r) \<longrightarrow> ex (to_table r) \<noteq> None) \<and>
     (c \<longrightarrow> (\<forall>r \<in> set rels. to_table r = t \<longrightarrow> ok (from_table r) \<longrightarrow> ex (from_table r) = Some True))"

definition walk_inv ::
  "relation list \<Rightarrow> (string \<Rightarrow> bool) \<Rightarrow> (string \<times> bool) set \<Rightarrow> string set \<Rightarrow> walk_state \<Rightarrow> string set \<Rightarrow> bool" where
  "walk_inv rels ok start P st pot \<longleftrightarrow>
     (case st of (ex, q) \<Rightarrow>
        (\<forall>(t, c) \<in> set q. reach rels ok start t c) \<and>
        (\<forall>t c. ex t = Some c \<longrightarrow> (t, c) \<in> set q \<or> t \<in> pot \<and> closed_at rels ok ex t c) \<and>
        (\<forall>(t, c) \<in> start. ex t \<noteq> None \<and> (c \<longrightarrow> ex t = Some True)) \<and>
        P \<subseteq> pot \<and> (\<forall>t \<in> pot. t \<in> P \<or> (\<exists>c. reach rels ok start t c)))"

lemma closed_at_step:
  "closed_at rels ok ex t c \<Longrightarrow> closed_at rels ok (fst (walk_step rels ok u d (ex, q))) t c"
  by (auto simp: closed_at_def walk_step_explored forward_new_def)

lemma closed_at_new: "closed_at rels ok (fst (walk_step rels ok t c (ex, q))) t c"
  by (auto simp: closed_at_def walk_step_explored forward_new_def backward_new_def)

lemma walk_inv_step:
  assumes "walk_inv rels ok start P (ex, (t, c) # q) pot"
  shows "walk_inv rels ok start P (walk_step rels ok t c (ex, q)) (insert t pot)"
proof -
  obtain ex' q' where s: "walk_step rels ok t c (ex, q) = (ex', q')" by fastforce
  have r: "reach rels ok start t c" using assms by (auto simp: walk_inv_def)
  have e: "ex' u = (if c \<and> backward_new rels ok ex t u then Some True
      else if forward_new rels ok ex t u then Some False else ex u)" for u
    using walk_step_explored [of rels ok t c ex q u] by (simp add: s)
  have q: "set q' = set q \<union> {(u, False) | u. forward_new rels ok ex t u} \<union>
     {(u, True) | u. c \<and> backward_new rels ok ex t u}"
    using walk_step_queue [of rels ok t c ex q] by (simp add: s)
  have new: "forward_new rels ok ex t u \<Longrightarrow> reach rels ok start u False"
    "c \<and> backward_new rels ok ex t u \<Longrightarrow> reach rels ok start u True" for u
    using r by (auto simp: forward_new_def backward_new_def intro: reach.intros)
  have old: "closed_at rels ok ex u d \<Longrightarrow> closed_at rels ok ex' u d" for u d
    using closed_at_step [of rels ok ex u d t c q] by (simp add: s)
  have now: "closed_at rels ok ex' t c" using closed_at_new [of rels ok t c ex q] by (simp add: s)
  have cl: "(u, d) \<in> set q' \<or> u \<in> insert t pot \<and> closed_at rels ok ex' u d" if "ex' u = Some d" for u d
  proof (cases "c \<and> backward_new rels ok ex t u \<or> forward_new rels ok ex t u")
    case True
    then show ?thesis using that by (auto simp: e q split: if_splits)
  next
    case False
    then have "ex u = Some d" using that by (auto simp: e split: if_splits)
    then have "(u, d) = (t, c) \<or> (u, d) \<in> set q \<or> u \<in> pot \<and> closed_at rels ok ex u d"
      using assms by (auto simp: walk_inv_def)
    then show ?thesis using now old [of u d] by (auto simp: q)
  qed
  have st: "ex' u \<noteq> None \<and> (d \<longrightarrow> ex' u = Some True)" if "(u, d) \<in> start" for u d
    using that assms by (auto simp: e walk_inv_def forward_new_def)
  have "\<forall>(u, d) \<in> set q'. reach rels ok start u d"
    using assms new by (auto simp: q walk_inv_def)
  then show ?thesis
    using assms r cl st unfolding s walk_inv_def by auto
qed

lemma walk_correct:
  "walk_inv rels ok start P st pot \<Longrightarrow>
     walk rels ok st pot = P \<union> {t. \<exists>c. reach rels ok start t c}"
proof (induction rels ok st pot rule: walk.induct)
  case (1 rels ok st pot)
  obtain ex q where st: "st = (ex, q)" by (cases st)
  show ?case
  proof (cases q)
    case Nil
    have "ex t \<noteq> None \<and> (c \<longrightarrow> ex t = Some True)" if "reach rels ok start t c" for t c
      using that
    proof induction
      case (reach_start t c)
      then show ?case using "1.prems" by (auto simp: walk_inv_def st)
    next
      case (reach_forward r c)
      then obtain d where "ex (from_table r) = Some d" by auto
      then show ?case using "1.prems" reach_forward by (auto simp: walk_inv_def st Nil closed_at_def)
    next
      case (reach_backward r)
      then show ?case using "1.prems" by (auto simp: walk_inv_def st Nil closed_at_def)
    qed
    then show ?thesis
      using "1.prems" by (subst walk.simps) (auto simp: st Nil walk_inv_def)
  next
    case (Cons p q')
    obtain t c where p: "p = (t, c)" by (cases p)
    have "walk_inv rels ok start P (walk_step rels ok t c (ex, q')) (insert t pot)"
      using walk_inv_step "1.prems" by (simp add: st Cons p)
    then show ?thesis
      using "1.IH" by (subst walk.simps) (simp add: st Cons p)
  qed
qed

section \<open>The potential tables of a plan\<close>

text \<open>What the aggregates of a plan may touch, for the exclude set of each.\<close>

definition walk_start :: "string set \<Rightarrow> string \<Rightarrow> (string \<times> bool) set" where
  "walk_start importable root = (if root \<in> importable then {(root, True)} else {})"

definition reaches ::
  "execution_plan \<Rightarrow> string set \<Rightarrow> resolved_aggregate \<Rightarrow> string set \<Rightarrow> string \<Rightarrow> bool \<Rightarrow> bool" where
  "reaches plan importable agg exclude =
     (if ra_root_only agg then (\<lambda>t c. (t, c) \<in> walk_start importable (ra_root_table agg))
      else
        reach (relations plan) (importable_target plan importable exclude)
          (walk_start importable (ra_root_table agg)))"

definition potential_spec ::
  "regex_engine \<Rightarrow> execution_plan \<Rightarrow> string set \<Rightarrow> resolved_aggregate \<Rightarrow> string set" where
  "potential_spec rx plan importable agg =
     {t. \<exists>e c. expand_exclude_patterns rx agg importable = Inr e \<and>
        reaches plan importable agg (e \<union> excluded_tables plan) t c}"

lemma aggregate_potential_spec:
  "aggregate_potential rx plan importable agg potential =
     rbind (expand_exclude_patterns rx agg importable)
       (\<lambda>_. Inr (potential \<union> potential_spec rx plan importable agg))"
proof (cases "expand_exclude_patterns rx agg importable")
  case (Inr e)
  let ?ok = "importable_target plan importable (e \<union> excluded_tables plan)"
  let ?start = "walk_start importable (ra_root_table agg)"
  have "walk (relations plan) ?ok
      (if ra_root_table agg \<in> importable then ([ra_root_table agg \<mapsto> True], [(ra_root_table agg, True)])
       else (Map.empty, [])) potential = potential \<union> {t. \<exists>c. reach (relations plan) ?ok ?start t c}"
    by (rule walk_correct) (auto simp: walk_inv_def walk_start_def intro: reach_start split: if_splits)
  then show ?thesis
    using Inr by (auto simp: aggregate_potential_def potential_spec_def reaches_def walk_start_def Let_def)
qed (simp add: aggregate_potential_def)

lemma potential_loop_spec:
  "potential_loop rx plan importable aggs potential =
     rbind (rmap (\<lambda>agg. expand_exclude_patterns rx agg importable) aggs)
       (\<lambda>_. Inr (potential \<union> (\<Union>agg \<in> set aggs. potential_spec rx plan importable agg)))"
proof (induction aggs arbitrary: potential)
  case (Cons agg aggs)
  show ?case
    by (cases "expand_exclude_patterns rx agg importable";
        cases "rmap (\<lambda>agg. expand_exclude_patterns rx agg importable) aggs")
      (auto simp: aggregate_potential_spec Cons.IH)
qed simp

text \<open>C11: the static walk computes exactly the tables that some aggregate can reach: from an
  importable root forwards through foreign keys and, from tables that were not reached
  forwards only, backwards as well, never through a full, excluded or non-importable table.  It
  ends for every relation graph, also a cyclic one, and fails only with the error of the first
  exclude pattern that does not compile.\<close>

theorem potential_tables_exact:
  "compute_potential_aggregate_tables rx plan importable =
     rbind (rmap (\<lambda>agg. expand_exclude_patterns rx agg importable) (aggregates plan))
       (\<lambda>_. Inr (\<Union>agg \<in> set (aggregates plan). potential_spec rx plan importable agg))"
  by (simp add: compute_potential_aggregate_tables_def potential_loop_spec)

section \<open>The dry run\<close>

text \<open>
  \<open>counter\<close> is the result of the row count of a table under a condition.  The report is computed
  for the tables in the order the server lists them and then sorted by table id.  Looking up
  the id of a table that has none is a panic, which is told apart from a returned error.
\<close>

datatype failure = Failed server_error | Panicked

definition lift_err :: "server_error + 'a \<Rightarrow> failure + 'a" where
  "lift_err r = (case r of Inl e \<Rightarrow> Inl (Failed e) | Inr x \<Rightarrow> Inr x)"

lemma lift_err_Inr [simp]: "lift_err r = Inr x \<longleftrightarrow> r = Inr x"
  by (cases r) (auto simp: lift_err_def)

definition table_id_of :: "(string \<rightharpoonup> u16) \<Rightarrow> string \<Rightarrow> failure + u16" where
  "table_id_of table_ids t = (case table_ids t of None \<Rightarrow> Inl Panicked | Some i \<Rightarrow> Inr i)"

lemma table_id_of_Inr [simp]: "table_id_of ids t = Inr i \<longleftrightarrow> ids t = Some i"
  by (auto simp: table_id_of_def split: option.split)

definition dry_disposition :: "execution_plan \<Rightarrow> string set \<Rightarrow> string \<Rightarrow> table_disposition" where
  "dry_disposition plan potential t =
     (if t \<in> excluded_tables plan then TdExcluded
      else if t \<in> potential then TdAggregate
      else TdFull)"

definition dry_selected :: "execution_plan \<Rightarrow> string set \<Rightarrow> string \<Rightarrow> bool" where
  "dry_selected plan potential t \<longleftrightarrow>
     t \<notin> ignored_tables plan \<and> \<not> (aggregates_only plan \<and> t \<notin> potential)"

definition not_importable_error :: "resolved_aggregate \<Rightarrow> server_error" where
  "not_importable_error agg =
     SeConfig (''Aggregate '' @ [squote] @ ra_name agg @ [squote] @ '' root table '' @ [squote] @
       ra_root_table agg @ [squote] @ '' is not importable '' @
       ''(it is ignored via ignore_table or does not exist)'')"

definition root_count ::
  "(string \<Rightarrow> string option \<Rightarrow> server_error + u64) \<Rightarrow> string set \<Rightarrow> resolved_aggregate \<Rightarrow>
     server_error + aggregate_root_count" where
  "root_count counter importable agg =
     (if ra_root_table agg \<notin> importable then Inl (not_importable_error agg)
      else
        rbind (counter (ra_root_table agg) (ra_where agg)) (\<lambda>n.
        Inr \<lparr>arc_aggregate = ra_name agg, arc_matching_rows = n\<rparr>))"

definition compute_dry_run_report ::
  "regex_engine \<Rightarrow> (string \<Rightarrow> string option \<Rightarrow> server_error + u64) \<Rightarrow> server_error + string list \<Rightarrow>
     execution_plan \<Rightarrow> (string \<rightharpoonup> u16) \<Rightarrow>
     failure + (u16 \<times> table_disposition) list \<times> aggregate_root_count list" where
  "compute_dry_run_report rx counter all_table_names plan table_ids =
     rbind (lift_err all_table_names) (\<lambda>names.
     rbind (lift_err (compute_potential_aggregate_tables rx plan (dom table_ids))) (\<lambda>potential.
     rbind (rmap (\<lambda>t. rbind (table_id_of table_ids t) (\<lambda>i. Inr (i, dry_disposition plan potential t)))
         (filter (dry_selected plan potential) names)) (\<lambda>dispositions.
     rbind (lift_err (rmap (root_count counter (dom table_ids)) (aggregates plan))) (\<lambda>counts.
     Inr (sort_key fst dispositions, counts)))))"

text \<open>A dry run reports every selected table once, with the class an import would give it, in the
  order of the table ids, and a count for every aggregate in plan order; it panics or fails
  only before it has a report.\<close>

lemma dry_run_report:
  assumes "compute_dry_run_report rx counter names plan table_ids = Inr (ds, counts)"
  shows "\<exists>ts potential. names = Inr ts \<and>
     compute_potential_aggregate_tables rx plan (dom table_ids) = Inr potential \<and>
     sorted (map fst ds) \<and>
     mset ds = image_mset (\<lambda>t. (the (table_ids t), dry_disposition plan potential t))
       (filter_mset (dry_selected plan potential) (mset ts)) \<and>
     list_all2 (\<lambda>agg c. arc_aggregate c = ra_name agg \<and> ra_root_table agg \<in> dom table_ids \<and>
        counter (ra_root_table agg) (ra_where agg) = Inr (arc_matching_rows c))
       (aggregates plan) counts"
proof -
  obtain ts potential dsp where t: "names = Inr ts"
    and p: "compute_potential_aggregate_tables rx plan (dom table_ids) = Inr potential"
    and d: "list_all2 (\<lambda>t d. \<exists>i. table_ids t = Some i \<and> (i, dry_disposition plan potential t) = d)
        (filter (dry_selected plan potential) ts) dsp"
    and c: "list_all2 (\<lambda>agg c. root_count counter (dom table_ids) agg = Inr c) (aggregates plan) counts"
    and ds: "ds = sort_key fst dsp"
    using assms by (auto simp: compute_dry_run_report_def rbind_Inr_iff rmap_Inr_iff)
  have "dsp = map (\<lambda>t. (the (table_ids t), dry_disposition plan potential t))
      (filter (dry_selected plan potential) ts)"
    using d by (induction rule: list_all2_induct) auto
  then have "mset ds = image_mset (\<lambda>t. (the (table_ids t), dry_disposition plan potential t))
       (filter_mset (dry_selected plan potential) (mset ts))"
    by (simp add: ds)
  moreover have "list_all2 (\<lambda>agg c. arc_aggregate c = ra_name agg \<and> ra_root_table agg \<in> dom table_ids \<and>
        counter (ra_root_table agg) (ra_where agg) = Inr (arc_matching_rows c)) (aggregates plan) counts"
    using c by (rule list_all2_mono) (auto simp: root_count_def rbind_Inr_iff split: if_splits)
  ultimately show ?thesis using t p by (auto simp: ds)
qed

definition sample_aggregate :: resolved_aggregate where
  "sample_aggregate =
     \<lparr>ra_name = ''agg'', ra_root_table = ''a'', ra_where = None, ra_order_by = None,
      ra_direction = None, ra_limit = None, ra_exclude_tables = [], ra_exclude_patterns = [],
      ra_root_only = True\<rparr>"

definition sample_plan :: execution_plan where
  "sample_plan = empty_plan\<lparr>aggregates := [sample_aggregate], excluded_tables := {''c''}\<rparr>"

definition sample_ids :: "string \<rightharpoonup> u16" where
  "sample_ids = [''a'' \<mapsto> 2, ''b'' \<mapsto> 1, ''c'' \<mapsto> 0]"

lemmas sample_defs = sample_plan_def sample_aggregate_def sample_ids_def empty_plan_def

lemma sample_report:
  "compute_dry_run_report Inl (\<lambda>t w. Inr 3) (Inr [''a'', ''b'', ''c'']) sample_plan sample_ids =
     Inr ([(0, TdExcluded), (1, TdFull), (2, TdAggregate)],
       [\<lparr>arc_aggregate = ''agg'', arc_matching_rows = 3\<rparr>])"
  by (simp add: compute_dry_run_report_def compute_potential_aggregate_tables_def sample_defs
      aggregate_potential_def expand_exclude_patterns_def Let_def dry_selected_def
      dry_disposition_def table_id_of_def root_count_def lift_err_def word_le_nat_alt)

lemma dry_run_report_witness:
  "sorted (map fst [(0 :: u16, TdExcluded), (1, TdFull), (2, TdAggregate)])"
  using dry_run_report [OF sample_report] by blast

end
