(* ===== verification/Dedup.thy ===== *)
theory Dedup
  imports Tsv
begin

text \<open>
  Deduplication keys (\<open>crates/server/src/traversal.rs\<close>, utility functions): rows are told apart
  by a compact key of their primary key, foreign key values by a compact key of the value.  The
  text protocol of MySQL returns numbers as strings, the binary protocol returns them typed, so
  keys are taken after a normalisation that reads canonical decimal strings as numbers.

  The lemmas show which values share a key and which rows do: the keys separate exactly the
  normalised values, whatever the bytes.
\<close>

section \<open>Keys\<close>

datatype compact_key = KInt i64 | KUInt u64 | KBytes bytes | KNull

definition parse_i64_canonical :: "string \<Rightarrow> i64 option" where
  "parse_i64_canonical s =
     Option.bind (parse_i64 s) (\<lambda>i. if i64_string i = s then Some i else None)"

definition parse_u64_canonical :: "string \<Rightarrow> u64 option" where
  "parse_u64_canonical s =
     Option.bind (parse_u64 s) (\<lambda>u. if u64_string u = s then Some u else None)"

definition normalize_value :: "mysql_value \<Rightarrow> mysql_value" where
  "normalize_value v =
     (case v of
        MBytes b \<Rightarrow>
          (case parse_i64_canonical b of
             Some i \<Rightarrow> MInt i
           | None \<Rightarrow>
               (case parse_u64_canonical b of
                  Some u \<Rightarrow> MUInt u
                | None \<Rightarrow> v))
      | MUInt u \<Rightarrow> if u \<le> i64_max then MInt u else v
      | _ \<Rightarrow> v)"

definition u64_to_le :: "u64 \<Rightarrow> bytes" where "u64_to_le w = le_bytes 8 (unat w)"
definition u64_from_le :: "bytes \<Rightarrow> u64" where "u64_from_le bs = word_of_nat (le_nat bs)"
definition byte_from :: "bytes \<Rightarrow> u8" where "byte_from bs = word_of_nat (le_nat bs)"
definition byte_of :: "u8 \<Rightarrow> bytes" where "byte_of w = [char_of (unat w)]"
definition tag :: "nat \<Rightarrow> bytes" where "tag n = [char_of n]"

text \<open>The bytes \<open>serialize_pk\<close> pushes for one normalised value.\<close>

fun serialize_normal :: "mysql_value \<Rightarrow> bytes" where
  "serialize_normal MNull = tag 0"
| "serialize_normal (MInt i) = tag 1 @ u64_to_le i"
| "serialize_normal (MUInt u) = tag 2 @ u64_to_le u"
| "serialize_normal (MBytes b) = tag 3 @ u32_to_le (as_u32 (length b)) @ b"
| "serialize_normal (MFloat f) = tag 4 @ u32_to_le f"
| "serialize_normal (MDouble d) = tag 5 @ u64_to_le d"
| "serialize_normal (MDate y m d h mi s us) =
     tag 6 @ u16_to_le y @ byte_of m @ byte_of d @ byte_of h @ byte_of mi @ byte_of s @ u32_to_le us"
| "serialize_normal (MTime neg d h m s us) =
     tag 7 @ tag (if neg then 1 else 0) @ u32_to_le d @ byte_of h @ byte_of m @ byte_of s @
     u32_to_le us"

definition serialize_pk :: "mysql_value list \<Rightarrow> bytes" where
  "serialize_pk pk = concat (map (\<lambda>v. serialize_normal (normalize_value v)) pk)"

definition value_to_compact_key :: "mysql_value \<Rightarrow> compact_key" where
  "value_to_compact_key v =
     (case v of
        MInt i \<Rightarrow> KInt i
      | MUInt u \<Rightarrow> if u \<le> i64_max then KInt u else KUInt u
      | MBytes b \<Rightarrow>
          (case parse_i64_canonical b of
             Some i \<Rightarrow> KInt i
           | None \<Rightarrow>
               (case parse_u64_canonical b of
                  Some u \<Rightarrow> KUInt u
                | None \<Rightarrow> KBytes b))
      | MNull \<Rightarrow> KNull
      | _ \<Rightarrow> KBytes (serialize_pk [v]))"

section \<open>Rows\<close>

text \<open>A row: the names of its columns and its cells.\<close>

record mysql_row =
  r_columns :: "string list"
  r_values :: "mysql_value option list"

definition get_opt :: "mysql_row \<Rightarrow> string \<Rightarrow> mysql_value option" where
  "get_opt row col = Option.bind (index_of col (r_columns row)) (row_value (r_values row))"

definition or_null :: "mysql_value option \<Rightarrow> mysql_value" where
  "or_null v = (case v of Some x \<Rightarrow> x | None \<Rightarrow> MNull)"

definition extract_pk_from_row :: "mysql_row \<Rightarrow> string list \<Rightarrow> mysql_value list" where
  "extract_pk_from_row row pk_columns = map (\<lambda>col. or_null (get_opt row col)) pk_columns"

definition row_pk_key :: "mysql_row \<Rightarrow> string list \<Rightarrow> compact_key" where
  "row_pk_key row pk_columns =
     (if length pk_columns = 1 then value_to_compact_key (or_null (get_opt row (hd pk_columns)))
      else if pk_columns = [] then KBytes (serialize_pk (map or_null (r_values row)))
      else KBytes (serialize_pk (extract_pk_from_row row pk_columns)))"

text \<open>The filter of \<open>dedupe_values\<close>, with the set of keys seen so far.\<close>

fun dedupe_loop :: "compact_key set \<Rightarrow> mysql_value list \<Rightarrow> mysql_value list" where
  "dedupe_loop seen [] = []"
| "dedupe_loop seen (v # vs) =
     (if value_to_compact_key v \<in> seen then dedupe_loop seen vs
      else v # dedupe_loop (insert (value_to_compact_key v) seen) vs)"

definition dedupe_values :: "mysql_value list \<Rightarrow> mysql_value list" where
  "dedupe_values vs = dedupe_loop {} vs"

section \<open>Canonical decimals\<close>

lemma hd_nat_string: "\<exists>c r. nat_string n = c # r \<and> is_digit c"
  using nat_string_digits [of n] nat_string_not_Nil [of n] by (cases "nat_string n") auto

lemma parse_i64_string [simp]: "parse_i64 (i64_string i) = Some i"
proof (cases "sint i < 0")
  case True
  have "nat (- sint i) \<le> 2 ^ 63" using sint_ge [of i] by simp
  then show ?thesis using True
    by (simp add: parse_i64_def i64_string_def int_string_def)
next
  case False
  obtain c r where n: "nat_string (nat (sint i)) = c # r" "is_digit c"
    using hd_nat_string by blast
  have "c \<noteq> CHR ''-''" "c \<noteq> CHR ''+''" using n(2) by (auto simp: is_digit_def)
  moreover have "nat (sint i) < 2 ^ 63" using sint_lt [of i] False by simp
  moreover have "parse_nat (c # r) = Some (nat (sint i))" using n(1) by (metis parse_nat_string)
  ultimately show ?thesis using False n
    by (simp add: parse_i64_def i64_string_def int_string_def)
qed

lemma parse_u64_string [simp]: "parse_u64 (u64_string u) = Some u"
proof -
  obtain c r where n: "nat_string (unat u) = c # r" "is_digit c" using hd_nat_string by blast
  have "c \<noteq> CHR ''+''" using n(2) by (auto simp: is_digit_def)
  moreover have "parse_nat (c # r) = Some (unat u)" using n(1) by (metis parse_nat_string)
  moreover have "unat u < 2 ^ 64" using unsigned_less [of u] by simp
  ultimately show ?thesis using n by (simp add: parse_u64_def u64_string_def)
qed

lemma parse_i64_canonical_iff: "parse_i64_canonical s = Some i \<longleftrightarrow> s = i64_string i"
  by (auto simp: parse_i64_canonical_def bind_eq_Some_conv split: if_splits)

lemma parse_u64_canonical_iff: "parse_u64_canonical s = Some u \<longleftrightarrow> s = u64_string u"
  by (auto simp: parse_u64_canonical_def bind_eq_Some_conv split: if_splits)

section \<open>The serialisation of a key separates its values\<close>

interpretation le64: fixed_codec u64_to_le u64_from_le 8
proof
  fix x :: u64 and bs :: bytes
  show "length (u64_to_le x) = 8" by (simp add: u64_to_le_def)
  have "unat x < 256 ^ 8" using unsigned_less [of x] by simp
  then show "u64_from_le (u64_to_le x) = x"
    by (simp add: u64_to_le_def u64_from_le_def le_nat_le_bytes)
  assume "length bs = 8"
  then show "u64_to_le (u64_from_le bs) = bs"
    using le_nat_less [of bs] le_bytes_le_nat [of bs]
    by (simp add: u64_to_le_def u64_from_le_def unat_of_nat take_bit_eq_mod)
qed

lemma byte_of_le: "byte_of w = le_bytes 1 (unat w)"
  by (simp add: byte_of_def)

interpretation le8: fixed_codec byte_of byte_from 1
proof
  fix x :: u8 and bs :: bytes
  show "length (byte_of x) = 1" by (simp add: byte_of_def)
  have "unat x < 256 ^ 1" using unsigned_less [of x] by simp
  then show "byte_from (byte_of x) = x"
    by (simp add: byte_of_le byte_from_def le_nat_le_bytes del: le_bytes.simps)
  assume "length bs = 1"
  then show "byte_of (byte_from bs) = bs"
    using le_nat_less [of bs] le_bytes_le_nat [of bs]
    by (simp add: byte_of_le byte_from_def unat_of_nat take_bit_eq_mod del: le_bytes.simps)
qed

lemmas codec_inject =
  le8.stream_inject le16.stream_inject le32.stream_inject le64.stream_inject
  le8.stream_inject [of _ "[]" _ "[]", simplified]

lemma tag_inject: "m < 256 \<Longrightarrow> n < 256 \<Longrightarrow> tag m @ r = tag n @ s \<longleftrightarrow> m = n \<and> r = s"
  by (simp add: tag_def char_of_eq_iff take_bit_eq_mod)

definition value_fits :: "mysql_value \<Rightarrow> bool" where
  "value_fits v = (case v of MBytes b \<Rightarrow> length b < 2 ^ 32 | _ \<Rightarrow> True)"

lemma as_u32_inject: "m < 2 ^ 32 \<Longrightarrow> n < 2 ^ 32 \<Longrightarrow> as_u32 m = as_u32 n \<longleftrightarrow> m = n"
  by (metis unat_as_u32)

fun value_tag :: "mysql_value \<Rightarrow> nat" where
  "value_tag MNull = 0" | "value_tag (MInt i) = 1" | "value_tag (MUInt u) = 2"
| "value_tag (MBytes b) = 3" | "value_tag (MFloat f) = 4" | "value_tag (MDouble d) = 5"
| "value_tag (MDate y m d h mi s us) = 6" | "value_tag (MTime neg d h m s us) = 7"

lemma serialize_normal_tag: "\<exists>r. serialize_normal v = tag (value_tag v) @ r \<and> value_tag v < 8"
  by (cases v) auto

lemma serialize_normal_inject:
  assumes "value_fits v" "value_fits w"
  shows "serialize_normal v @ r = serialize_normal w @ s \<longleftrightarrow> v = w \<and> r = s"
proof (cases "value_tag v = value_tag w")
  case False
  obtain rv rw where "serialize_normal v = tag (value_tag v) @ rv" "value_tag v < 8"
    "serialize_normal w = tag (value_tag w) @ rw" "value_tag w < 8"
    using serialize_normal_tag by meson
  then have "serialize_normal v @ r \<noteq> serialize_normal w @ s"
    using False by (simp add: tag_inject)
  then show ?thesis using False by auto
next
  case True
  then show ?thesis using assms
    by (cases v; cases w) (auto simp: tag_inject codec_inject value_fits_def as_u32_inject)
qed

lemma normalize_fits: "value_fits v \<Longrightarrow> value_fits (normalize_value v)"
  by (cases v) (auto simp: value_fits_def normalize_value_def split: option.splits)

lemma serialize_pk_Cons: "serialize_pk (v # vs) = serialize_normal (normalize_value v) @ serialize_pk vs"
  by (simp add: serialize_pk_def)

lemma serialize_pk_Nil [simp]: "serialize_pk [] = []"
  by (simp add: serialize_pk_def)

lemma serialize_normal_not_Nil [simp]: "serialize_normal v \<noteq> []"
  using serialize_normal_tag [of v] by (auto simp: tag_def)

text \<open>The serialised form of a primary key determines its normalised values, also for keys of
  different lengths: no two different keys run together into the same bytes, for cells below the
  4 GiB of their length prefix.\<close>

lemma serialize_pk_inject:
  assumes "list_all value_fits vs" "list_all value_fits ws"
  shows "serialize_pk vs = serialize_pk ws \<longleftrightarrow> map normalize_value vs = map normalize_value ws"
  using assms
proof (induction vs arbitrary: ws)
  case Nil
  then show ?case by (cases ws) (simp_all add: serialize_pk_Cons)
next
  case (Cons v vs)
  then show ?case
    by (cases ws) (simp_all add: serialize_pk_Cons serialize_normal_inject normalize_fits)
qed

lemma digit_char_7: "digit_char 7 = CHR ''7''"
  by code_simp

lemma sample_keys:
  "i64_string 7 = ''7''" "parse_i64_canonical ''a'' = None" "parse_u64_canonical ''a'' = None"
  "parse_i64_canonical ''b'' = None" "parse_u64_canonical ''b'' = None"
  by (simp_all add: i64_string_def int_string_def nat_string.simps digit_char_7
      parse_i64_canonical_def parse_u64_canonical_def parse_i64_def parse_u64_def parse_nat_def
      is_digit_def)

lemma normalize_samples:
  "normalize_value (MBytes ''7'') = MInt 7" "normalize_value (MBytes ''a'') = MBytes ''a''"
  "normalize_value (MBytes ''b'') = MBytes ''b''" "normalize_value (MInt i) = MInt i"
  using parse_i64_canonical_iff [of "''7''" 7] sample_keys by (simp_all add: normalize_value_def)

lemma serialize_pk_inject_witness:
  "serialize_pk [MInt 1, MBytes ''a''] \<noteq> serialize_pk [MInt 1, MBytes ''b''] \<and>
   serialize_pk [MBytes ''7''] = serialize_pk [MInt 7]"
  using serialize_pk_inject [of "[MInt 1, MBytes ''a'']" "[MInt 1, MBytes ''b'']"]
    serialize_pk_inject [of "[MBytes ''7'']" "[MInt 7]"]
  by (simp add: value_fits_def normalize_samples)

section \<open>Which values share a key\<close>

lemma i64_string_inject [simp]: "i64_string i = i64_string j \<longleftrightarrow> i = j"
  by (metis parse_i64_string option.inject)

declare u64_string_inject [simp]

lemma sint_uint_small: "uint (u :: i64) < 2 ^ 63 \<Longrightarrow> sint u = uint u"
proof -
  assume "uint u < 2 ^ 63"
  then have "int (unat u) < int (2 ^ 63)" by simp
  then have "unat u < 2 ^ 63" by (simp only: of_nat_less_iff)
  then show ?thesis using sint_i64_of_nat [of "unat u"] by simp
qed

lemma sint_nonneg_uint: "0 \<le> sint (u :: i64) \<Longrightarrow> uint u = sint u"
  using sint_lt [of u] by (simp add: uint_sint take_bit_int_eq_self)

lemma i64_max_sint: "u \<le> i64_max \<longleftrightarrow> 0 \<le> sint u"
proof
  assume "u \<le> i64_max"
  then have "uint u < 2 ^ 63" by (simp add: word_le_def i64_max_def)
  then show "0 \<le> sint u" by (simp add: sint_uint_small)
next
  assume "0 \<le> sint u"
  then have "uint u < 2 ^ 63" using sint_nonneg_uint [of u] sint_lt [of u] by simp
  then show "u \<le> i64_max" by (simp add: word_le_def i64_max_def)
qed

lemma sint_eq_uint_iff: "sint (i :: i64) = uint u \<longleftrightarrow> i = u \<and> u \<le> i64_max"
proof
  assume eq: "sint i = uint u"
  then have "uint i = uint u" using sint_nonneg_uint [of i] by simp
  then have "i = u" by (simp only: word_uint_eq_iff)
  then show "i = u \<and> u \<le> i64_max" using eq by (simp add: i64_max_sint)
qed (simp add: i64_max_sint sint_nonneg_uint)

lemma small_u64_string: "u \<le> i64_max \<Longrightarrow> u64_string u = i64_string u"
  using sint_nonneg_uint [of u]
  by (simp add: i64_max_sint u64_string_def i64_string_def int_string_def flip: nat_uint_eq)

text \<open>The key is a function of the normalised value.\<close>

definition key_of_normal :: "mysql_value \<Rightarrow> compact_key" where
  "key_of_normal v =
     (case v of
        MInt i \<Rightarrow> KInt i | MUInt u \<Rightarrow> KUInt u | MBytes b \<Rightarrow> KBytes b | MNull \<Rightarrow> KNull
      | _ \<Rightarrow> KBytes (serialize_normal v))"

lemma key_normal: "value_to_compact_key v = key_of_normal (normalize_value v)"
  by (cases v) (auto simp: value_to_compact_key_def key_of_normal_def normalize_value_def
      serialize_pk_def split: option.splits)

definition typed :: "mysql_value \<Rightarrow> bool" where
  "typed v \<longleftrightarrow> \<not> (case v of MInt _ \<Rightarrow> True | MUInt _ \<Rightarrow> True | MBytes _ \<Rightarrow> True | MNull \<Rightarrow> True | _ \<Rightarrow> False)"

lemma typed_normal: "typed (normalize_value v) = typed v"
  by (cases v) (auto simp: typed_def normalize_value_def split: option.splits)

lemma typed_fits: "typed v \<Longrightarrow> value_fits v"
  by (cases v) (auto simp: typed_def value_fits_def)

lemma key_of_normal_inject:
  assumes "typed v = typed w"
  shows "key_of_normal v = key_of_normal w \<longleftrightarrow> v = w"
proof (cases "typed v")
  case True
  then have "key_of_normal v = KBytes (serialize_normal v)" "key_of_normal w = KBytes (serialize_normal w)"
    using assms by (cases v; cases w; simp add: typed_def key_of_normal_def)+
  then show ?thesis
    using serialize_normal_inject [of v w "[]" "[]"] typed_fits assms True by simp
next
  case False
  then show ?thesis
    using assms by (cases v; cases w; simp add: typed_def key_of_normal_def)
qed

lemma compact_key_normal:
  "typed v = typed w \<Longrightarrow>
     value_to_compact_key v = value_to_compact_key w \<longleftrightarrow> normalize_value v = normalize_value w"
  by (simp add: key_normal key_of_normal_inject typed_normal)

lemma i64_u64_string: "i64_string i = u64_string u \<longleftrightarrow> i = u \<and> u \<le> i64_max"
proof
  assume eq: "i64_string i = u64_string u"
  obtain c r where "u64_string u = c # r" "is_digit c"
    using hd_nat_string [of "unat u"] by (auto simp: u64_string_def)
  with eq have "0 \<le> sint i"
    by (auto simp: i64_string_def int_string_def is_digit_def split: if_splits)
  then have i: "i \<le> i64_max" by (simp add: i64_max_sint)
  then have "u64_string i = u64_string u" using eq by (simp add: small_u64_string)
  then show "i = u \<and> u \<le> i64_max" using i by simp
qed (simp add: small_u64_string)

lemma normalize_MInt_iff: "normalize_value (MBytes b) = MInt i \<longleftrightarrow> b = i64_string i"
  by (auto simp: normalize_value_def parse_i64_canonical_iff split: option.splits)
    (metis option.distinct(1) parse_i64_canonical_iff)+

lemma normalize_MUInt_iff:
  "normalize_value (MBytes b) = MUInt u \<longleftrightarrow> b = u64_string u \<and> \<not> u \<le> i64_max"
proof (cases "parse_i64_canonical b")
  case None
  then have "b \<noteq> i64_string u" using parse_i64_canonical_iff [of b u] by simp
  then show ?thesis
    using None by (auto simp: normalize_value_def parse_u64_canonical_iff small_u64_string split: option.split)
      (metis option.distinct(1) parse_u64_canonical_iff)
next
  case (Some i)
  then have "normalize_value (MBytes b) = MInt i" "b = i64_string i"
    by (simp_all add: normalize_value_def) (simp add: parse_i64_canonical_iff)
  then show ?thesis by (auto simp: i64_u64_string)
qed

lemma normalize_MBytes_iff: "normalize_value (MBytes a) = MBytes b \<Longrightarrow> a = b"
  by (auto simp: normalize_value_def split: option.splits)

lemma normalize_MBytes_inject: "normalize_value (MBytes a) = normalize_value (MBytes b) \<longleftrightarrow> a = b"
proof
  assume eq: "normalize_value (MBytes a) = normalize_value (MBytes b)"
  consider (i) i where "normalize_value (MBytes a) = MInt i"
    | (u) u where "normalize_value (MBytes a) = MUInt u" | (b) "normalize_value (MBytes a) = MBytes a"
    by (cases "parse_i64_canonical a"; cases "parse_u64_canonical a") (auto simp: normalize_value_def)
  then show "a = b"
    using eq normalize_MInt_iff normalize_MUInt_iff normalize_MBytes_iff by cases metis+
qed simp


text \<open>A date has one key when the row came over the text protocol and another when it came
  over the binary protocol, whatever text it has there: a row whose key is a date is not
  recognised when it is reached a second time over the other protocol.\<close>

lemma date_keys_differ:
  "value_to_compact_key (MDate y m d h mi s us) \<noteq>
     value_to_compact_key (MBytes (write_tsv_value fm [] (MDate y m d h mi s us)))"
proof -
  obtain c r where t: "write_tsv_value fm [] (MDate y m d h mi s us) = c # r" "is_digit c"
  proof -
    obtain c r where "pad0 4 (unat y) = c # r" "is_digit c"
      using hd_nat_string [of "unat y"]
      by (cases "4 - length (nat_string (unat y))") (auto simp: pad0_def Let_def is_digit_def)
    then show ?thesis
      by (intro that [of c "tl (write_tsv_value fm [] (MDate y m d h mi s us))"])
        (simp_all add: write_tsv_value.simps date_part_def)
  qed
  have "c \<noteq> char_of (6 :: nat)" using t(2) by (auto simp: is_digit_def)
  then show ?thesis
    by (auto simp: value_to_compact_key_def serialize_pk_def normalize_value_def tag_def t(1)
        split: option.splits)
qed

section \<open>Which rows and which values are kept\<close>

text \<open>Two rows of a table share a key exactly when their primary keys have the same normalised
  values; rows of a table without a primary key exactly when all their cells do.\<close>

lemma row_pk_key_iff:
  assumes "length pks \<noteq> 1"
    and "list_all value_fits (map or_null (r_values r)) \<and> list_all value_fits (map or_null (r_values r'))"
  shows "row_pk_key r pks = row_pk_key r' pks \<longleftrightarrow>
     (if pks = [] then
        map (normalize_value \<circ> or_null) (r_values r) = map (normalize_value \<circ> or_null) (r_values r')
      else map normalize_value (extract_pk_from_row r pks) =
        map normalize_value (extract_pk_from_row r' pks))"
proof -
  have cell: "value_fits (or_null (get_opt x c))" if "list_all value_fits (map or_null (r_values x))" for x c
    using that
    by (cases "get_opt x c")
      (auto simp: get_opt_def row_value_def or_null_def value_fits_def bind_eq_Some_conv list_all_iff
        split: option.splits if_splits intro: nth_mem)
  then have "list_all value_fits (extract_pk_from_row r pks)"
    "list_all value_fits (extract_pk_from_row r' pks)"
    using assms(2) by (auto simp: extract_pk_from_row_def list_all_iff)
  then show ?thesis
    using assms by (simp add: row_pk_key_def serialize_pk_inject)
qed

lemma row_pk_key_single:
  "row_pk_key r [c] = value_to_compact_key (or_null (get_opt r c))"
  by (simp add: row_pk_key_def)

lemma dedupe_loop_spec:
  "distinct (map value_to_compact_key (dedupe_loop seen vs)) \<and>
   value_to_compact_key ` set (dedupe_loop seen vs) = value_to_compact_key ` set vs - seen \<and>
   set (dedupe_loop seen vs) \<subseteq> set vs"
  by (induction seen vs rule: dedupe_loop.induct) auto

lemma dedupe_loop_first:
  "k \<notin> seen \<Longrightarrow>
     List.find (\<lambda>v. value_to_compact_key v = k) (dedupe_loop seen vs) =
     List.find (\<lambda>v. value_to_compact_key v = k) vs"
  by (induction seen vs rule: dedupe_loop.induct) auto

text \<open>Deduplication keeps one value for every key, the first one given, and no key twice.\<close>

lemma dedupe_values_spec:
  "distinct (map value_to_compact_key (dedupe_values vs)) \<and>
   value_to_compact_key ` set (dedupe_values vs) = value_to_compact_key ` set vs \<and>
   set (dedupe_values vs) \<subseteq> set vs \<and>
   List.find (\<lambda>v. value_to_compact_key v = k) (dedupe_values vs) =
     List.find (\<lambda>v. value_to_compact_key v = k) vs"
  using dedupe_loop_spec [of "{}" vs] dedupe_loop_first [of k "{}" vs]
  by (simp add: dedupe_values_def)

text \<open>Two rows of a table without a primary key, one from each protocol.\<close>

definition text_row :: mysql_row where
  "text_row = \<lparr>r_columns = [''a'', ''b''], r_values = [Some (MBytes ''7''), None]\<rparr>"
definition binary_row :: mysql_row where
  "binary_row = \<lparr>r_columns = [''a'', ''b''], r_values = [Some (MInt 7), Some MNull]\<rparr>"

lemma row_pk_key_iff_witness: "row_pk_key text_row [] = row_pk_key binary_row []"
  using row_pk_key_iff [of "[]" text_row binary_row]
  by (simp add: text_row_def binary_row_def or_null_def value_fits_def normalize_samples)

end
