(* ===== verification/Stream.thy ===== *)
theory Stream
  imports Wire Walk Dedup
begin

text \<open>
  Streaming tables (\<open>crates/server/src/traversal.rs\<close>): the channel to the writer thread, chunks of
  rows, and \<open>stream_full_table_to_channel\<close>.

  The database is a parameter: the record \<open>db\<close> holds what the connection answers to each
  request, where a query may fail at once or at any row of its result.  The answers do not
  change while a table is streamed.  The channel is the list of messages sent and the number
  after which the receiver is gone, if ever.  A step returns its result and the new state, also
  when it fails, because messages that were sent before a failure stay sent.  Timings are not
  modelled.
\<close>

section \<open>Steps that may fail\<close>

type_synonym ('s, 'a) srv = "'s \<Rightarrow> (server_error + 'a) \<times> 's"

definition sret :: "'a \<Rightarrow> ('s, 'a) srv" where "sret x s = (Inr x, s)"
definition slift :: "server_error + 'a \<Rightarrow> ('s, 'a) srv" where "slift r s = (r, s)"

definition sbind :: "('s, 'a) srv \<Rightarrow> ('a \<Rightarrow> ('s, 'b) srv) \<Rightarrow> ('s, 'b) srv" where
  "sbind m f s = (case m s of (Inl e, s') \<Rightarrow> (Inl e, s') | (Inr x, s') \<Rightarrow> f x s')"

named_theorems srv_rules \<open>successful runs of the server's steps\<close>

lemma sret_Inr [srv_rules]: "sret x s = (Inr y, s') \<longleftrightarrow> y = x \<and> s' = s"
  by (auto simp: sret_def)

lemma slift_Inr [srv_rules]: "slift r s = (Inr y, s') \<longleftrightarrow> r = Inr y \<and> s' = s"
  by (auto simp: slift_def)

lemma sbind_Inr [srv_rules]:
  "sbind m f s = (Inr y, s'') \<longleftrightarrow> (\<exists>x s'. m s = (Inr x, s') \<and> f x s' = (Inr y, s''))"
  by (auto simp: sbind_def split: prod.splits sum.splits)

section \<open>The database and the channel\<close>

record db =
  db_columns :: "string \<Rightarrow> server_error + column_def list"
  db_indexes :: "string \<Rightarrow> server_error + index_def list"
  db_options :: "string \<Rightarrow> server_error + table_options"
  db_primary_key :: "string \<Rightarrow> string list option"
  db_query :: "string \<Rightarrow> server_error + (server_error + mysql_row) list"
  db_exec :: "string \<Rightarrow> mysql_value list \<Rightarrow> server_error + (server_error + mysql_row) list"

datatype channel_message = EncodedChunk bytes | Control server_message

record channel =
  ch_sent :: "channel_message list"
  ch_limit :: "nat option"

definition channel_open :: "channel \<Rightarrow> bool" where
  "channel_open ch = (case ch_limit ch of None \<Rightarrow> True | Some n \<Rightarrow> length (ch_sent ch) < n)"

definition ch_send :: "channel_message \<Rightarrow> (channel, unit) srv" where
  "ch_send m ch =
     (if channel_open ch then (Inr (), ch\<lparr>ch_sent := ch_sent ch @ [m]\<rparr>)
      else (Inl (SeProtocol ''Channel closed''), ch))"

section \<open>Chunks\<close>

definition CHUNK_ROW_LIMIT :: nat where "CHUNK_ROW_LIMIT = 10000"
definition CHUNK_BYTE_LIMIT :: nat where "CHUNK_BYTE_LIMIT = 1024 * 1024"

text \<open>What the writers of a run share: value formats, random choice, compressor, compression mode.\<close>

record 'r stream_env =
  se_formats :: formats
  se_pick :: "'r picker"
  se_zstd :: "bytes \<Rightarrow> string + bytes"
  se_compression :: compression_mode

definition send_chunk ::
  "'r stream_env \<Rightarrow> u16 \<Rightarrow> 'r tsv_writer \<Rightarrow> u16 \<Rightarrow> (channel, 'r tsv_writer) srv" where
  "send_chunk env table_id w chunk_row_count =
     (if tw_is_empty w then sret w
      else
        sbind (slift (map_error SeProtocol
          (take_encoded_chunk (se_zstd env) table_id chunk_row_count (se_compression env) w)))
          (\<lambda>(encoded, w').
        sbind (ch_send (EncodedChunk encoded)) (\<lambda>_. sret w')))"

text \<open>Write a row and send the chunk when it is full; the state of the chunk is the writer and the
  number of rows in it.\<close>

definition emit_row ::
  "'r stream_env \<Rightarrow> u16 \<Rightarrow> mysql_row \<Rightarrow> 'r tsv_writer \<times> u16 \<Rightarrow> (channel, 'r tsv_writer \<times> u16) srv" where
  "emit_row env table_id row chunk =
     (case chunk of (w, n) \<Rightarrow>
        (let w1 = write_row (se_formats env) (se_pick env) (r_values row) w; n1 = n + 1 in
         if of_nat CHUNK_ROW_LIMIT \<le> n1 \<or> CHUNK_BYTE_LIMIT \<le> tw_buffer_size w1
         then sbind (send_chunk env table_id w1 n1) (\<lambda>w2. sret (w2, 0))
         else sret (w1, n1)))"

definition flush_rows ::
  "'r stream_env \<Rightarrow> u16 \<Rightarrow> 'r tsv_writer \<times> u16 \<Rightarrow> (channel, 'r tsv_writer) srv" where
  "flush_rows env table_id chunk =
     (case chunk of (w, n) \<Rightarrow> if 0 < n then send_chunk env table_id w n else sret w)"

fun stream_rows ::
  "'r stream_env \<Rightarrow> u16 \<Rightarrow> (server_error + mysql_row) list \<Rightarrow> 'r tsv_writer \<times> u16 \<Rightarrow> u64 \<Rightarrow>
     (channel, ('r tsv_writer \<times> u16) \<times> u64) srv" where
  "stream_rows env table_id [] chunk done_rows = sret (chunk, done_rows)"
| "stream_rows env table_id (Inl e # rows) chunk done_rows = slift (Inl e)"
| "stream_rows env table_id (Inr row # rows) chunk done_rows =
     sbind (emit_row env table_id row chunk) (\<lambda>chunk'.
     stream_rows env table_id rows chunk' (done_rows + 1))"

text \<open>The result is the state of the random generator after the table.\<close>

definition stream_full_table_to_channel ::
  "'r stream_env \<Rightarrow> db \<Rightarrow> string \<Rightarrow> u16 \<Rightarrow> column_def list \<Rightarrow> plan_anonymize_rule list \<Rightarrow>
     (string \<rightharpoonup> string list) \<Rightarrow> 'r \<Rightarrow> (channel, 'r) srv" where
  "stream_full_table_to_channel env db table table_id columns anon fks rng =
     sbind (slift (db_indexes db table)) (\<lambda>indexes.
     sbind (slift (db_options db table)) (\<lambda>options.
     let w = tsv_writer_new columns anon fks rng in
     sbind (ch_send (Control (Schema table_id columns indexes options))) (\<lambda>_.
     sbind (slift (db_query db (''SELECT * FROM '' @ bquoted table))) (\<lambda>rows.
     sbind (stream_rows env table_id rows (w, 0) 0) (\<lambda>(chunk, total_rows).
     sbind (flush_rows env table_id chunk) (\<lambda>w'.
     sbind (ch_send (Control (TableDone table_id total_rows None))) (\<lambda>_.
     sret (tw_rng w'))))))))"

section \<open>The query for the root of an aggregate\<close>

definition build_root_query :: "resolved_aggregate \<Rightarrow> string" where
  "build_root_query agg =
     ''SELECT * FROM '' @ bquoted (ra_root_table agg) @
     (case ra_where agg of Some c \<Rightarrow> '' WHERE '' @ c | None \<Rightarrow> '''') @
     (case ra_order_by agg of
        Some c \<Rightarrow> '' ORDER BY `'' @ c @ ''`'' @
          (case ra_direction agg of
             Some DirAsc \<Rightarrow> '' ASC'' | Some DirDesc \<Rightarrow> '' DESC'' | None \<Rightarrow> '''')
      | None \<Rightarrow> '''') @
     (case ra_limit agg of Some n \<Rightarrow> '' LIMIT '' @ i64_string n | None \<Rightarrow> '''')"

section \<open>What a chunk frame holds\<close>

text \<open>The frame of a payload, as a function of the payload alone.\<close>

definition chunk_frame ::
  "(bytes \<Rightarrow> string + bytes) \<Rightarrow> u16 \<Rightarrow> u16 \<Rightarrow> compression_mode \<Rightarrow> bytes \<Rightarrow> string + bytes" where
  "chunk_frame zstd tid rc cm payload =
     rbind (case cm of
         CZstd \<Rightarrow> rbind (map_error (\<lambda>e. ''zstd compression failed: '' @ e) (zstd payload))
           (\<lambda>z. Inr (u32_to_le (as_u32 (length payload)) @ z))
       | _ \<Rightarrow> Inr payload) (\<lambda>body.
     Inr (u32_to_le (flagged_len (4 + length body)) @ u16_to_le tid @ u16_to_le rc @ body))"

lemma take_encoded_chunk_eq:
  assumes "tw_ok w"
  shows "take_encoded_chunk zstd tid rc cm w =
     rbind (chunk_frame zstd tid rc cm (tw_payload w)) (\<lambda>f. Inr (f, w\<lparr>tw_buffer := header_space\<rparr>))"
proof (cases "cm = CZstd")
  case True
  then show ?thesis
    by (cases "zstd (tw_payload w)")
      (simp_all add: chunk_frame_def take_encoded_chunk_def tw_payload_def Let_def map_error_def le32.enc_length)
next
  case False
  obtain f w' where t: "take_encoded_chunk zstd tid rc CNone w = Inr (f, w')"
    by (simp add: take_encoded_chunk_def Let_def)
  then have "w' = w\<lparr>tw_buffer := header_space\<rparr>" by (simp add: take_encoded_chunk_def Let_def)
  moreover have "take_encoded_chunk zstd tid rc cm w = take_encoded_chunk zstd tid rc CNone w"
    using False by (cases cm) (simp_all add: take_encoded_chunk_def)
  moreover have "chunk_frame zstd tid rc cm (tw_payload w) = Inr f"
    using frame_none [OF t assms] False by (cases cm) (simp_all add: chunk_frame_def)
  ultimately show ?thesis using t by simp
qed

section \<open>Rows do not depend on the buffer\<close>

definition tw_core :: "'r tsv_writer \<Rightarrow> 'r tsv_writer" where
  "tw_core w = w\<lparr>tw_buffer := []\<rparr>"

definition row_line :: "formats \<Rightarrow> 'r picker \<Rightarrow> mysql_value option list \<Rightarrow> 'r tsv_writer \<Rightarrow> bytes" where
  "row_line fm pick row w = tw_buffer (write_row fm pick row (tw_core w))"

lemma cell_buffer: "cell fm pick row i (w\<lparr>tw_buffer := b\<rparr>) = cell fm pick row i w"
  by (cases "tw_anon_by_column w ! i") (auto simp: cell_def Let_def split: anon_action.split)

lemma fold_write_cell_buffer:
  "fold (write_cell fm pick row) is (w\<lparr>tw_buffer := b @ tw_buffer w\<rparr>) =
     (fold (write_cell fm pick row) is w)\<lparr>tw_buffer := b @ tw_buffer (fold (write_cell fm pick row) is w)\<rparr>"
proof (induction "is" arbitrary: w)
  case (Cons i "is")
  have "write_cell fm pick row i (w\<lparr>tw_buffer := b @ tw_buffer w\<rparr>) =
      (write_cell fm pick row i w)\<lparr>tw_buffer := b @ tw_buffer (write_cell fm pick row i w)\<rparr>"
    by (simp add: write_cell_eq cell_buffer add_cell_def)
  then show ?case using Cons.IH [of "write_cell fm pick row i w"] by simp
qed simp

lemma write_row_prefix:
  "write_row fm pick row (w\<lparr>tw_buffer := b @ tw_buffer w\<rparr>) =
     (write_row fm pick row w)\<lparr>tw_buffer := b @ tw_buffer (write_row fm pick row w)\<rparr>"
  by (simp add: write_row_def push_bytes_def fold_write_cell_buffer)

lemma write_row_line:
  "tw_buffer (write_row fm pick row w) = tw_buffer w @ row_line fm pick row w"
  "tw_core (write_row fm pick row w) = tw_core (write_row fm pick row (tw_core w))"
  using write_row_prefix [of fm pick row "tw_buffer w" "tw_core w"]
  by (simp_all add: tw_core_def row_line_def)

text \<open>The lines of several rows, written one after the other.\<close>

definition row_lines :: "formats \<Rightarrow> 'r picker \<Rightarrow> mysql_value option list list \<Rightarrow> 'r tsv_writer \<Rightarrow> bytes" where
  "row_lines fm pick rows w = tw_buffer (write_rows fm pick rows (tw_core w))"

lemma write_rows_prefix:
  "write_rows fm pick rows (w\<lparr>tw_buffer := b @ tw_buffer w\<rparr>) =
     (write_rows fm pick rows w)\<lparr>tw_buffer := b @ tw_buffer (write_rows fm pick rows w)\<rparr>"
proof (induction rows arbitrary: w)
  case (Cons row rows)
  then show ?case using Cons.IH [of "write_row fm pick row w"] by (simp add: write_rows_def write_row_prefix)
qed (simp add: write_rows_def)

lemma row_lines_Nil [simp]: "row_lines fm pick [] w = []"
  by (simp add: row_lines_def write_rows_def tw_core_def)

lemma row_lines_Cons:
  "row_lines fm pick (row # rows) w =
     row_line fm pick row w @ row_lines fm pick rows (write_row fm pick row w)"
proof -
  let ?w = "write_row fm pick row (tw_core w)"
  have "write_rows fm pick (row # rows) (tw_core w) = write_rows fm pick rows ?w"
    by (simp add: write_rows_def)
  moreover have "?w = (tw_core ?w)\<lparr>tw_buffer := tw_buffer ?w @ tw_buffer (tw_core ?w)\<rparr>"
    by (simp add: tw_core_def)
  ultimately show ?thesis
    using write_rows_prefix [of fm pick rows "tw_buffer ?w" "tw_core ?w"] write_row_line(2) [of fm pick row w]
    by (simp add: row_lines_def row_line_def)
qed

lemma tw_core_simps [simp]:
  "tw_core (tw_core w) = tw_core w" "tw_core (w\<lparr>tw_buffer := b\<rparr>) = tw_core w"
  "row_line fm pick row (tw_core w) = row_line fm pick row w"
  "row_lines fm pick rows (tw_core w) = row_lines fm pick rows w"
  by (simp_all add: tw_core_def row_line_def row_lines_def)

lemma core_lines: "tw_core w = tw_core w' \<Longrightarrow> row_lines fm pick rows w = row_lines fm pick rows w'"
  by (simp add: row_lines_def)

lemma core_write_row:
  "tw_core w = tw_core w' \<Longrightarrow> tw_core (write_row fm pick row w) = tw_core (write_row fm pick row w')"
  using write_row_line(2) by metis

lemma core_write_rows:
  "tw_core w = tw_core w' \<Longrightarrow> tw_core (write_rows fm pick rows w) = tw_core (write_rows fm pick rows w')"
proof (induction rows arbitrary: w w')
  case (Cons row rows)
  show ?case
    using Cons.IH [OF core_write_row [OF Cons.prems, of fm pick row]] by (simp add: write_rows_def)
qed (simp add: write_rows_def)

section \<open>What a stream of rows sends\<close>

definition chunk_ok :: "'r stream_env \<Rightarrow> u16 \<Rightarrow> bytes \<Rightarrow> u16 \<times> bytes \<Rightarrow> bool" where
  "chunk_ok env tid frame part \<longleftrightarrow>
     chunk_frame (se_zstd env) tid (fst part) (se_compression env) (snd part) = Inr frame \<and>
     0 < unat (fst part) \<and> unat (fst part) \<le> CHUNK_ROW_LIMIT"

definition sent_chunks :: "'r stream_env \<Rightarrow> u16 \<Rightarrow> channel \<Rightarrow> channel \<Rightarrow> (u16 \<times> bytes) list \<Rightarrow> bool" where
  "sent_chunks env tid ch ch' parts \<longleftrightarrow>
     (\<exists>frames. ch' = ch\<lparr>ch_sent := ch_sent ch @ map EncodedChunk frames\<rparr> \<and>
        list_all2 (chunk_ok env tid) frames parts)"

definition part_rows :: "(u16 \<times> bytes) list \<Rightarrow> nat" where
  "part_rows parts = sum_list (map (unat \<circ> fst) parts)"

definition part_bytes :: "(u16 \<times> bytes) list \<Rightarrow> bytes" where
  "part_bytes parts = concat (map snd parts)"

lemma part_simps [simp]:
  "part_rows [] = 0" "part_bytes [] = []" "part_rows (xs @ ys) = part_rows xs + part_rows ys"
  "part_bytes (xs @ ys) = part_bytes xs @ part_bytes ys" "part_rows [(n, p)] = unat n"
  "part_bytes [(n, p)] = p"
  by (simp_all add: part_rows_def part_bytes_def)

lemma sent_none [simp]: "sent_chunks env tid ch ch []"
  by (simp add: sent_chunks_def)

lemma sent_one:
  "chunk_ok env tid f p \<Longrightarrow> sent_chunks env tid ch (ch\<lparr>ch_sent := ch_sent ch @ [EncodedChunk f]\<rparr>) [p]"
  unfolding sent_chunks_def by (intro exI [of _ "[f]"]) simp

lemma sent_append:
  assumes "sent_chunks env tid ch ch' ps" "sent_chunks env tid ch' ch'' qs"
  shows "sent_chunks env tid ch ch'' (ps @ qs)"
proof -
  obtain fs gs where "ch' = ch\<lparr>ch_sent := ch_sent ch @ map EncodedChunk fs\<rparr>" "list_all2 (chunk_ok env tid) fs ps"
    "ch'' = ch'\<lparr>ch_sent := ch_sent ch' @ map EncodedChunk gs\<rparr>" "list_all2 (chunk_ok env tid) gs qs"
    using assms by (auto simp: sent_chunks_def)
  then show ?thesis
    unfolding sent_chunks_def by (intro exI [of _ "fs @ gs"]) (simp add: list_all2_appendI)
qed

text \<open>The state between two rows: as many rows as \<open>n\<close> says are in the writer, and few enough.\<close>

definition chunk_state :: "'r tsv_writer \<times> u16 \<Rightarrow> bool" where
  "chunk_state chunk \<longleftrightarrow>
     (case chunk of (w, n) \<Rightarrow>
        tw_ok w \<and> unat n < CHUNK_ROW_LIMIT \<and> (tw_payload w = [] \<longleftrightarrow> n = 0))"

lemma header_length [simp]: "length header_space = RAW_CHUNK_HEADER_LEN"
  by (simp add: header_space_def)

lemma tw_empty_payload: "tw_is_empty w \<longleftrightarrow> tw_payload w = []"
  by (simp add: tw_is_empty_def tw_payload_def)

lemma fresh_writer [simp]:
  "tw_payload (w\<lparr>tw_buffer := header_space\<rparr>) = []"
  "tw_ok w \<Longrightarrow> tw_ok (w\<lparr>tw_buffer := header_space\<rparr>)"
  by (simp_all add: tw_payload_def tw_ok_def)

lemma send_chunk_Inr:
  assumes "tw_ok w" "tw_payload w \<noteq> []" "send_chunk env tid w n ch = (Inr w', ch')"
  shows "\<exists>f. chunk_frame (se_zstd env) tid n (se_compression env) (tw_payload w) = Inr f \<and>
     ch' = ch\<lparr>ch_sent := ch_sent ch @ [EncodedChunk f]\<rparr> \<and> w' = w\<lparr>tw_buffer := header_space\<rparr>"
  using assms
  by (auto simp: send_chunk_def tw_empty_payload srv_rules map_error_Inr_iff take_encoded_chunk_eq
      rbind_Inr_iff ch_send_def split: if_splits)

lemma write_row_payload:
  assumes "tw_ok w"
  shows "tw_payload (write_row fm pick row w) = tw_payload w @ row_line fm pick row w"
    and "tw_ok (write_row fm pick row w)" and "row_line fm pick row w \<noteq> []"
proof -
  show "tw_payload (write_row fm pick row w) = tw_payload w @ row_line fm pick row w"
    using assms by (simp add: tw_payload_def write_row_line tw_ok_def)
  show "tw_ok (write_row fm pick row w)" by (rule write_row_ok [OF assms])
  have "row_line fm pick row w = join [tabchar] (cells fm pick row [0..<tw_num_columns (tw_core w)] (tw_core w)) @ [newline]"
    using write_row_buffer [of fm pick row "tw_core w"] by (simp add: row_line_def) (simp add: tw_core_def)
  then show "row_line fm pick row w \<noteq> []" by simp
qed

lemma emit_row_Inr:
  assumes "chunk_state (w, n)" "emit_row env tid row (w, n) ch = (Inr (w', n'), ch')"
  shows "\<exists>parts. sent_chunks env tid ch ch' parts \<and> chunk_state (w', n') \<and>
     part_bytes parts @ tw_payload w' =
       tw_payload w @ row_line (se_formats env) (se_pick env) (r_values row) w \<and>
     part_rows parts + unat n' = Suc (unat n) \<and>
     tw_core w' = tw_core (write_row (se_formats env) (se_pick env) (r_values row) w)"
proof -
  let ?w = "write_row (se_formats env) (se_pick env) (r_values row) w"
  have ok: "tw_ok w" "unat n < CHUNK_ROW_LIMIT" using assms(1) by (auto simp: chunk_state_def)
  note wr = write_row_payload [OF ok(1), of "se_formats env" "se_pick env" "r_values row"]
  have n1: "unat (n + 1) = Suc (unat n)"
    using ok(2) by (simp add: unat_word_ariths CHUNK_ROW_LIMIT_def)
  have lim: "of_nat CHUNK_ROW_LIMIT \<le> n + 1 \<longleftrightarrow> Suc (unat n) = CHUNK_ROW_LIMIT"
    using ok(2) n1 by (auto simp: word_le_nat_alt CHUNK_ROW_LIMIT_def)
  show ?thesis
  proof (cases "of_nat CHUNK_ROW_LIMIT \<le> n + 1 \<or> CHUNK_BYTE_LIMIT \<le> tw_buffer_size ?w")
    case True
    then obtain w2 where s: "send_chunk env tid ?w (n + 1) ch = (Inr w2, ch')" "w' = w2" "n' = 0"
      using assms(2) by (auto simp: emit_row_def Let_def srv_rules)
    obtain f where f: "chunk_frame (se_zstd env) tid (n + 1) (se_compression env) (tw_payload ?w) = Inr f"
      "ch' = ch\<lparr>ch_sent := ch_sent ch @ [EncodedChunk f]\<rparr>" "w2 = ?w\<lparr>tw_buffer := header_space\<rparr>"
      using send_chunk_Inr [OF wr(2) _ s(1)] wr by auto
    have "chunk_ok env tid f (n + 1, tw_payload ?w)"
      using f(1) n1 ok(2) by (simp add: chunk_ok_def)
    then have "sent_chunks env tid ch ch' [(n + 1, tw_payload ?w)]" unfolding f(2) by (rule sent_one)
    then show ?thesis
      using wr n1 f(3) s(2,3) by (intro exI [of _ "[(n + 1, tw_payload ?w)]"])
        (simp add: chunk_state_def CHUNK_ROW_LIMIT_def)
  next
    case False
    then have s: "ch' = ch" "w' = ?w" "n' = n + 1"
      using assms(2) by (auto simp: emit_row_def Let_def srv_rules)
    have "Suc (unat n) < CHUNK_ROW_LIMIT" using False lim ok(2) by simp
    moreover have "n + 1 \<noteq> 0" using n1 by (metis unat_0 Zero_not_Suc)
    ultimately show ?thesis
      using wr n1 s by (intro exI [of _ "[]"]) (simp add: chunk_state_def)
  qed
qed

lemma flush_rows_Inr:
  assumes "chunk_state (w, n)" "flush_rows env tid (w, n) ch = (Inr w', ch')"
  shows "\<exists>parts. sent_chunks env tid ch ch' parts \<and> tw_payload w' = [] \<and> tw_ok w' \<and>
     part_bytes parts = tw_payload w \<and> part_rows parts = unat n \<and> tw_core w' = tw_core w"
proof (cases "n = 0")
  case True
  then show ?thesis
    using assms by (intro exI [of _ "[]"]) (auto simp: flush_rows_def chunk_state_def srv_rules)
next
  case False
  then have w: "tw_ok w" "tw_payload w \<noteq> []" "unat n \<le> CHUNK_ROW_LIMIT" "0 < unat n"
    using assms(1) by (auto simp: chunk_state_def unat_gt_0)
  have "send_chunk env tid w n ch = (Inr w', ch')"
    using assms(2) False by (simp add: flush_rows_def word_neq_0_conv)
  then obtain f where f: "chunk_frame (se_zstd env) tid n (se_compression env) (tw_payload w) = Inr f"
    "ch' = ch\<lparr>ch_sent := ch_sent ch @ [EncodedChunk f]\<rparr>" "w' = w\<lparr>tw_buffer := header_space\<rparr>"
    using send_chunk_Inr [OF w(1,2)] by blast
  have "sent_chunks env tid ch ch' [(n, tw_payload w)]"
    unfolding f(2) by (rule sent_one) (simp add: chunk_ok_def f(1) w)
  then show ?thesis using f(3) w by (intro exI [of _ "[(n, tw_payload w)]"]) simp
qed

lemma stream_rows_Inr:
  "chunk_state (w, n) \<Longrightarrow> stream_rows env tid rows (w, n) k ch = (Inr ((w', n'), k'), ch') \<Longrightarrow>
     \<exists>rs parts. rows = map Inr rs \<and> sent_chunks env tid ch ch' parts \<and> chunk_state (w', n') \<and>
       part_bytes parts @ tw_payload w' =
         tw_payload w @ row_lines (se_formats env) (se_pick env) (map r_values rs) w \<and>
       part_rows parts + unat n' = unat n + length rs \<and> k' = k + of_nat (length rs) \<and>
       tw_core w' = tw_core (write_rows (se_formats env) (se_pick env) (map r_values rs) w)"
proof (induction rows arbitrary: w n k ch)
  case Nil
  then show ?case
    by (intro exI [of _ "[]"]) (auto simp: srv_rules write_rows_def)
next
  case (Cons r rows)
  obtain row where r: "r = Inr row" using Cons.prems(2) by (cases r) (auto simp: srv_rules)
  obtain w1 n1 ch1 where e: "emit_row env tid row (w, n) ch = (Inr (w1, n1), ch1)"
    and s: "stream_rows env tid rows (w1, n1) (k + 1) ch1 = (Inr ((w', n'), k'), ch')"
    using Cons.prems(2) by (auto simp: r srv_rules)
  let ?w = "write_row (se_formats env) (se_pick env) (r_values row) w"
  obtain ps where ps: "sent_chunks env tid ch ch1 ps" "chunk_state (w1, n1)"
    "part_bytes ps @ tw_payload w1 = tw_payload w @ row_line (se_formats env) (se_pick env) (r_values row) w"
    "part_rows ps + unat n1 = Suc (unat n)" "tw_core w1 = tw_core ?w"
    using emit_row_Inr [OF Cons.prems(1) e] by blast
  obtain rs qs where qs: "rows = map Inr rs" "sent_chunks env tid ch1 ch' qs" "chunk_state (w', n')"
    "part_bytes qs @ tw_payload w' =
       tw_payload w1 @ row_lines (se_formats env) (se_pick env) (map r_values rs) w1"
    "part_rows qs + unat n' = unat n1 + length rs" "k' = k + 1 + of_nat (length rs)"
    "tw_core w' = tw_core (write_rows (se_formats env) (se_pick env) (map r_values rs) w1)"
    using Cons.IH [OF ps(2) s] by blast
  have l: "row_lines (se_formats env) (se_pick env) (map r_values rs) w1 =
      row_lines (se_formats env) (se_pick env) (map r_values rs) ?w"
    by (rule core_lines [OF ps(5)])
  have c: "tw_core (write_rows fm pick xs w1) = tw_core (write_rows fm pick xs ?w)" for fm pick xs
    by (rule core_write_rows [OF ps(5)])
  show ?case
    using qs ps r l c sent_append [OF ps(1) qs(2)]
    by (intro exI [of _ "row # rs"] exI [of _ "ps @ qs"])
      (auto simp: row_lines_Cons write_rows_def)
qed

lemma new_writer_buffer: "tw_buffer (tsv_writer_new cols anon fks rng) = header_space"
  by (simp add: tsv_writer_new_def split: prod.split)

lemma fresh_lines:
  "tw_payload (write_rows fm pick rows (tsv_writer_new cols anon fks rng)) =
     row_lines fm pick rows (tsv_writer_new cols anon fks rng)"
proof -
  let ?w = "tsv_writer_new cols anon fks rng"
  have "(tw_core ?w)\<lparr>tw_buffer := header_space @ tw_buffer (tw_core ?w)\<rparr> = ?w"
    by (simp add: tw_core_def new_writer_buffer [symmetric])
  then have "tw_buffer (write_rows fm pick rows ?w) = header_space @ row_lines fm pick rows ?w"
    using write_rows_prefix [of fm pick rows header_space "tw_core ?w"] by (simp add: row_lines_def)
  then show ?thesis by (simp add: tw_payload_def)
qed

lemma new_writer_payload: "tw_payload (tsv_writer_new cols anon fks rng) = []"
  by (simp add: tw_payload_def new_writer_buffer)

lemma new_chunk_state: "chunk_state (tsv_writer_new cols anon fks rng, 0)"
  by (simp add: chunk_state_def CHUNK_ROW_LIMIT_def new_writer_payload tsv_writer_new_ok)

text \<open>C12: a full table that is streamed without failure is announced by its schema, followed by chunks
  of at most 10000 rows, none of them empty, and closed by its row count; the chunks hold all
  rows of the table in order: their payloads, put together, are the lines the writer makes of
  the rows, wherever the chunks were cut.\<close>

theorem full_table_stream:
  assumes "stream_full_table_to_channel env db table tid cols anon fks rng ch = (Inr rng', ch')"
  shows "\<exists>rows idx opts frames parts.
     db_query db (''SELECT * FROM '' @ bquoted table) = Inr (map Inr rows) \<and>
     ch_sent ch' = ch_sent ch @ Control (Schema tid cols idx opts) # map EncodedChunk frames @
       [Control (TableDone tid (of_nat (length rows)) None)] \<and>
     list_all2 (chunk_ok env tid) frames parts \<and> part_rows parts = length rows \<and>
     part_bytes parts = tw_payload (write_rows (se_formats env) (se_pick env) (map r_values rows)
       (tsv_writer_new cols anon fks rng))"
proof -
  let ?w = "tsv_writer_new cols anon fks rng"
  obtain idx opts rs ch1 w n k ch2 w2 ch3
    where q: "db_query db (''SELECT * FROM '' @ bquoted table) = Inr rs"
      and c1: "ch_send (Control (Schema tid cols idx opts)) ch = (Inr (), ch1)"
      and s: "stream_rows env tid rs (?w, 0) 0 ch1 = (Inr ((w, n), k), ch2)"
      and f: "flush_rows env tid (w, n) ch2 = (Inr w2, ch3)"
      and c4: "ch_send (Control (TableDone tid k None)) ch3 = (Inr (), ch')"
    using assms by (auto simp: stream_full_table_to_channel_def srv_rules Let_def)
  obtain rows ps where r: "rs = map Inr rows" "sent_chunks env tid ch1 ch2 ps" "chunk_state (w, n)"
    "part_bytes ps @ tw_payload w = tw_payload ?w @ row_lines (se_formats env) (se_pick env) (map r_values rows) ?w"
    "part_rows ps + unat n = length rows" "k = of_nat (length rows)"
    using stream_rows_Inr [OF new_chunk_state s] by auto
  obtain qs where f2: "sent_chunks env tid ch2 ch3 qs" "part_bytes qs = tw_payload w" "part_rows qs = unat n"
    using flush_rows_Inr [OF r(3) f] by blast
  obtain frames where fr: "ch3 = ch1\<lparr>ch_sent := ch_sent ch1 @ map EncodedChunk frames\<rparr>"
    "list_all2 (chunk_ok env tid) frames (ps @ qs)"
    using sent_append [OF r(2) f2(1)] by (auto simp: sent_chunks_def)
  note new_writer_payload [of cols anon fks rng]
  then show ?thesis
    using q c1 c4 r fr f2
    by (intro exI [of _ rows] exI [of _ idx] exI [of _ opts] exI [of _ frames] exI [of _ "ps @ qs"])
      (auto simp: ch_send_def fresh_lines split: if_splits)
qed

section \<open>A failing stream\<close>

definition only_chunks :: "channel \<Rightarrow> channel \<Rightarrow> bool" where
  "only_chunks ch ch' \<longleftrightarrow> (\<exists>frames. ch_sent ch' = ch_sent ch @ map EncodedChunk frames)"

lemma only_chunks_refl [simp]: "only_chunks ch ch"
  by (simp add: only_chunks_def)

lemma only_chunks_trans: "only_chunks a b \<Longrightarrow> only_chunks b c \<Longrightarrow> only_chunks a c"
  unfolding only_chunks_def by (metis append_assoc map_append)

lemma send_chunk_only: "only_chunks ch (snd (send_chunk env tid w n ch))"
proof -
  have "only_chunks ch (ch\<lparr>ch_sent := ch_sent ch @ [EncodedChunk f]\<rparr>)" for f
    unfolding only_chunks_def by (intro exI [of _ "[f]"]) simp
  then show ?thesis
    by (auto simp: send_chunk_def sbind_def sret_def slift_def ch_send_def split: sum.split)
qed

lemma emit_row_only: "only_chunks ch (snd (emit_row env tid row chunk ch))"
proof -
  obtain w n where c: "chunk = (w, n)" by (cases chunk)
  let ?w = "write_row (se_formats env) (se_pick env) (r_values row) w"
  obtain x ch1 where s: "send_chunk env tid ?w (n + 1) ch = (x, ch1)" by fastforce
  then have "only_chunks ch ch1" using send_chunk_only [of ch env tid ?w "n + 1"] by simp
  then show ?thesis
    by (cases x) (auto simp: emit_row_def c Let_def sbind_def sret_def s)
qed

lemma stream_rows_only: "only_chunks ch (snd (stream_rows env tid rows chunk k ch))"
proof (induction env tid rows chunk k arbitrary: ch rule: stream_rows.induct)
  case (3 env tid row rows chunk k)
  obtain x ch1 where e: "emit_row env tid row chunk ch = (x, ch1)" by fastforce
  then have "only_chunks ch ch1" using emit_row_only [of ch env tid row chunk] by simp
  then show ?case using "3.IH" e by (cases x) (auto simp: sbind_def intro: only_chunks_trans)
qed (simp_all add: sret_def slift_def)

lemma flush_rows_only: "only_chunks ch (snd (flush_rows env tid chunk ch))"
  using send_chunk_only by (auto simp: flush_rows_def sret_def split: prod.split)

text \<open>C13: a table whose stream fails, because of the database, the compressor or a reader that is gone,
  is never reported as done: at most its schema and chunks were sent.\<close>

theorem failed_table_not_done:
  assumes "fst (stream_full_table_to_channel env db table tid cols anon fks rng ch) = Inl e"
  shows "\<exists>msgs. ch_sent (snd (stream_full_table_to_channel env db table tid cols anon fks rng ch)) =
       ch_sent ch @ msgs \<and> (\<forall>n m i. Control (TableDone i n m) \<notin> set msgs)"
proof -
  let ?r = "stream_full_table_to_channel env db table tid cols anon fks rng ch"
  have "ch_sent (snd ?r) = ch_sent ch \<or>
    (\<exists>i o' frames. ch_sent (snd ?r) = ch_sent ch @ Control (Schema tid cols i o') # map EncodedChunk frames)"
  proof (cases "\<exists>i o'. db_indexes db table = Inr i \<and> db_options db table = Inr o' \<and> channel_open ch")
    case False
    then show ?thesis
      by (cases "db_indexes db table"; cases "db_options db table")
        (auto simp: stream_full_table_to_channel_def sbind_def slift_def Let_def ch_send_def)
  next
    case True
    then obtain i o' where io: "db_indexes db table = Inr i" "db_options db table = Inr o'" "channel_open ch"
      by blast
    let ?ch = "ch\<lparr>ch_sent := ch_sent ch @ [Control (Schema tid cols i o')]\<rparr>"
    have "only_chunks ?ch (snd ?r)"
    proof (cases "db_query db (''SELECT * FROM '' @ bquoted table)")
      case (Inl e')
      then show ?thesis using io
        by (simp add: stream_full_table_to_channel_def sbind_def slift_def Let_def ch_send_def)
    next
      case (Inr rows)
      obtain x ch1 where s: "stream_rows env tid rows (tsv_writer_new cols anon fks rng, 0) 0 ?ch = (x, ch1)"
        by fastforce
      then have o1: "only_chunks ?ch ch1" using stream_rows_only by (metis snd_conv)
      show ?thesis
      proof (cases x)
        case (Inl e')
        then show ?thesis using io Inr s o1
          by (simp add: stream_full_table_to_channel_def sbind_def slift_def Let_def ch_send_def)
      next
        case y: (Inr y)
        obtain chunk k where yk: "y = (chunk, k)" by (cases y)
        obtain z ch2 where f: "flush_rows env tid chunk ch1 = (z, ch2)" by fastforce
        then have o2: "only_chunks ?ch ch2" using o1 flush_rows_only only_chunks_trans by (metis snd_conv)
        then show ?thesis using assms io Inr s y yk f o1
          by (cases z) (auto simp: stream_full_table_to_channel_def sbind_def slift_def sret_def Let_def ch_send_def
              split: if_splits)
      qed
    qed
    then show ?thesis by (auto simp: only_chunks_def)
  qed
  then show ?thesis by fastforce
qed

section \<open>Sample tables\<close>

definition sample_env :: "nat stream_env" where
  "sample_env =
     \<lparr>se_formats = decimal_formats, se_pick = round_robin, se_zstd = toy_zstd, se_compression = CZstd\<rparr>"

definition sample_rows :: "mysql_row list" where
  "sample_rows =
     [\<lparr>r_columns = [''id'', ''email'', ''note''],
       r_values = [Some (MInt 5), Some (MBytes ''me''), None]\<rparr>]"

definition sample_db :: db where
  "sample_db =
     \<lparr>db_columns = \<lambda>_. Inr sample_cols, db_indexes = \<lambda>_. Inr [],
      db_options = \<lambda>_. Inr \<lparr>to_engine = None, to_charset = None, to_collation = None, to_row_format = None\<rparr>,
      db_primary_key = \<lambda>_. Some [''id''],
      db_query = \<lambda>q. Inr (map Inr sample_rows), db_exec = \<lambda>q ps. Inr []\<rparr>"

definition sample_channel :: "nat option \<Rightarrow> channel" where
  "sample_channel limit = \<lparr>ch_sent = [], ch_limit = limit\<rparr>"

abbreviation sample_stream :: "nat option \<Rightarrow> (server_error + nat) \<times> channel" where
  "sample_stream limit \<equiv>
     stream_full_table_to_channel sample_env sample_db ''t'' 3 sample_cols sample_rules sample_fakers 0
       (sample_channel limit)"

lemma sample_row_length:
  "length (tw_buffer (write_row decimal_formats round_robin [Some (MInt 5), Some (MBytes ''me''), None]
     (tsv_writer_new sample_cols sample_rules sample_fakers 0))) = 18"
  by code_simp

lemma sample_stream_runs:
  "\<exists>x. sample_stream None = (Inr x, snd (sample_stream None))"
  "\<exists>e. fst (sample_stream (Some 2)) = Inl e"
  using sample_row_length
  by (simp_all add: stream_full_table_to_channel_def sbind_def slift_def sret_def ch_send_def
      channel_open_def sample_db_def sample_rows_def sample_env_def sample_channel_def Let_def
      emit_row_def flush_rows_def send_chunk_def tw_is_empty_def tw_buffer_size_def
      CHUNK_ROW_LIMIT_def CHUNK_BYTE_LIMIT_def RAW_CHUNK_HEADER_LEN_def take_encoded_chunk_def
      toy_zstd_def map_error_def)

theorem full_table_stream_witness:
  "\<exists>parts. part_rows parts = 1 \<and> part_bytes parts = tw_payload (write_rows decimal_formats round_robin
     (map r_values sample_rows) (tsv_writer_new sample_cols sample_rules sample_fakers 0))"
proof -
  obtain x where "sample_stream None = (Inr x, snd (sample_stream None))"
    using sample_stream_runs(1) by blast
  from full_table_stream [OF this] show ?thesis
    by (auto simp: sample_db_def sample_env_def sample_rows_def inj_eq map_eq_Cons_conv)
qed

theorem failed_table_not_done_witness:
  "\<exists>e. fst (sample_stream (Some 2)) = Inl e \<and>
     Control (TableDone 3 1 None) \<notin> set (ch_sent (snd (sample_stream (Some 2))))"
proof -
  obtain e where "fst (sample_stream (Some 2)) = Inl e" using sample_stream_runs(2) by blast
  from this failed_table_not_done [OF this] show ?thesis by (auto simp: sample_channel_def)
qed

end
