(* ===== verification/Bfs.thy ===== *)
theory Bfs
  imports Stream
begin

text \<open>
  The data traversal of the aggregates (\<open>run_aggregate_bfs\<close> of
  \<open>crates/server/src/traversal.rs\<close>): from the rows of every root, foreign key values are
  collected, coalesced by table and column, and looked up level by level; every row is sent at
  most once.

  The state of the run is one record; the state of one table within it (its writer, its chunk
  and the foreign key values collected from its rows) is another.  A hash map that is drained
  or iterated is an association list in insertion order together with a function that chooses
  the order (\<open>bc_drain\<close>, \<open>bc_order\<close>).  The loop over the levels has fuel; \<open>Inr None\<close> is the
  result of a run that has used it up.  A panic of the thread is what the thread that joins it
  makes of it, a protocol error.
\<close>

section \<open>State\<close>

type_synonym pending_key = "string \<times> string \<times> bool"
type_synonym pending = "(pending_key \<times> mysql_value list) list"

record 'r bfs_state =
  bs_channel :: channel
  bs_rng :: 'r
  bs_visited :: "string \<Rightarrow> compact_key set"
  bs_touched :: "string set"
  bs_schemas :: "string set"
  bs_counts :: "(string \<times> u64) list"
  bs_expanded_fwd :: "string \<Rightarrow> compact_key set"
  bs_expanded_bwd :: "string \<Rightarrow> compact_key set"
  bs_pending :: pending

record 'r table_run =
  tr_chunk :: "'r tsv_writer \<times> u16"
  tr_fwd :: "mysql_value list list"
  tr_bwd :: "mysql_value list list"

text \<open>What is fixed during a run, and what is fixed while one table is read.\<close>

record 'r bfs_ctx =
  bc_env :: "'r stream_env"
  bc_db :: db
  bc_plan :: execution_plan
  bc_ids :: "string \<rightharpoonup> u16"
  bc_drain :: "pending \<Rightarrow> pending"
  bc_order :: "(string \<times> u64) list \<Rightarrow> (string \<times> u64) list"

record table_ctx =
  tc_table :: string
  tc_id :: u16
  tc_columns :: "column_def list"
  tc_indexes :: "index_def list"
  tc_options :: table_options
  tc_pk :: "string list"
  tc_forward :: "relation list"
  tc_backward :: "relation list"

definition MAX_IN_VALUES :: nat where "MAX_IN_VALUES = 10000"

definition on_channel :: "(channel, 'a) srv \<Rightarrow> ('r bfs_state, 'a) srv" where
  "on_channel m s = (case m (bs_channel s) of (r, ch) \<Rightarrow> (r, s\<lparr>bs_channel := ch\<rparr>))"

definition smodify :: "('s \<Rightarrow> 's) \<Rightarrow> ('s, unit) srv" where "smodify f s = (Inr (), f s)"
definition sgets :: "('s \<Rightarrow> 'a) \<Rightarrow> ('s, 'a) srv" where "sgets f s = (Inr (f s), s)"

definition add_to :: "string \<Rightarrow> 'k \<Rightarrow> (string \<Rightarrow> 'k set) \<Rightarrow> string \<Rightarrow> 'k set" where
  "add_to t k f = f(t := insert k (f t))"

text \<open>\<open>entry(k).or_default()\<close>, then an update of the entry.\<close>

fun entry_update :: "'k \<Rightarrow> 'v \<Rightarrow> ('v \<Rightarrow> 'v) \<Rightarrow> ('k \<times> 'v) list \<Rightarrow> ('k \<times> 'v) list" where
  "entry_update k d f [] = [(k, f d)]"
| "entry_update k d f ((k', v) # m) =
     (if k = k' then (k', f v) # m else (k', v) # entry_update k d f m)"

definition add_pending :: "pending_key \<Rightarrow> mysql_value list \<Rightarrow> pending \<Rightarrow> pending" where
  "add_pending k vs p = entry_update k [] (\<lambda>ws. ws @ vs) p"

section \<open>One row\<close>

text \<open>Push the values of a row for every relation to the list of that relation.\<close>

definition push_values ::
  "(relation \<Rightarrow> string) \<Rightarrow> mysql_row \<Rightarrow> relation list \<Rightarrow> mysql_value list list \<Rightarrow> mysql_value list list" where
  "push_values col row rels vecs =
     map2 (\<lambda>rel vec.
       case get_opt row (col rel) of
         Some v \<Rightarrow> if v = MNull then vec else vec @ [v]
       | None \<Rightarrow> vec) rels vecs"

definition expand_row ::
  "table_ctx \<Rightarrow> compact_key \<Rightarrow> mysql_row \<Rightarrow> 'r table_run \<Rightarrow> 'r bfs_state \<Rightarrow> 'r table_run \<times> 'r bfs_state" where
  "expand_row tc key row run s =
     (let t = tc_table tc;
          do_forward = (tc_forward tc \<noteq> [] \<and> key \<notin> bs_expanded_fwd s t);
          do_backward = (tc_backward tc \<noteq> [] \<and> key \<notin> bs_expanded_bwd s t);
          s1 = (if do_forward then s\<lparr>bs_expanded_fwd := add_to t key (bs_expanded_fwd s)\<rparr> else s);
          s2 = (if do_backward then s1\<lparr>bs_expanded_bwd := add_to t key (bs_expanded_bwd s1)\<rparr> else s1);
          run1 = (if do_forward then
                    run\<lparr>tr_fwd := push_values from_column row (tc_forward tc) (tr_fwd run)\<rparr> else run);
          run2 = (if do_backward then
                    run1\<lparr>tr_bwd := push_values to_column row (tc_backward tc) (tr_bwd run1)\<rparr> else run1)
      in (run2, s2))"

definition send_schema_once :: "table_ctx \<Rightarrow> ('r bfs_state, unit) srv" where
  "send_schema_once tc s =
     (if tc_table tc \<in> bs_schemas s then sret () s
      else
        on_channel (ch_send (Control (Schema (tc_id tc) (tc_columns tc) (tc_indexes tc) (tc_options tc))))
          (s\<lparr>bs_schemas := insert (tc_table tc) (bs_schemas s)\<rparr>))"

definition count_row :: "string \<Rightarrow> 'r bfs_state \<Rightarrow> 'r bfs_state" where
  "count_row t s = s\<lparr>bs_counts := entry_update t 0 (\<lambda>n. n + 1) (bs_counts s)\<rparr>"

text \<open>Write a new row, count it and send the chunk when it is full.\<close>

definition emit_new ::
  "'r bfs_ctx \<Rightarrow> table_ctx \<Rightarrow> mysql_row \<Rightarrow> 'r table_run \<Rightarrow> ('r bfs_state, 'r table_run) srv" where
  "emit_new ctx tc row run =
     sbind (smodify (count_row (tc_table tc))) (\<lambda>_.
     sbind (on_channel (emit_row (bc_env ctx) (tc_id tc) row (tr_chunk run))) (\<lambda>chunk.
     sret (run\<lparr>tr_chunk := chunk\<rparr>)))"

definition root_row ::
  "'r bfs_ctx \<Rightarrow> table_ctx \<Rightarrow> mysql_row \<Rightarrow> 'r table_run \<Rightarrow> ('r bfs_state, 'r table_run) srv" where
  "root_row ctx tc row run =
     sbind (send_schema_once tc) (\<lambda>_ s.
     let t = tc_table tc; key = row_pk_key row (tc_pk tc) in
     case expand_row tc key row run s of
       (run1, s1) \<Rightarrow>
         (let is_new = (key \<notin> bs_visited s1 t);
              s2 = s1\<lparr>bs_visited := add_to t key (bs_visited s1)\<rparr>
          in if is_new then emit_new ctx tc row run1 s2 else sret run1 s2))"

definition level_row ::
  "'r bfs_ctx \<Rightarrow> table_ctx \<Rightarrow> mysql_row \<Rightarrow> 'r table_run \<Rightarrow> ('r bfs_state, 'r table_run) srv" where
  "level_row ctx tc row run s =
     (let t = tc_table tc; key = row_pk_key row (tc_pk tc) in
      case expand_row tc key row run s of
        (run1, s1) \<Rightarrow>
          (let is_new = (key \<notin> bs_visited s1 t);
               s2 = s1\<lparr>bs_visited := add_to t key (bs_visited s1)\<rparr>
           in if is_new then sbind (send_schema_once tc) (\<lambda>_. emit_new ctx tc row run1) s2
              else sret run1 s2))"

fun each_row ::
  "(mysql_row \<Rightarrow> 'u \<Rightarrow> ('s, 'u) srv) \<Rightarrow> (server_error + mysql_row) list \<Rightarrow> 'u \<Rightarrow> ('s, 'u) srv" where
  "each_row f [] run = sret run"
| "each_row f (Inl e # rows) run = slift (Inl e)"
| "each_row f (Inr row # rows) run = sbind (f row run) (each_row f rows)"

section \<open>One table\<close>

definition table_context ::
  "'r bfs_ctx \<Rightarrow> string \<Rightarrow> u16 \<Rightarrow> relation list \<Rightarrow> relation list \<Rightarrow> server_error + table_ctx" where
  "table_context ctx t i fwd bwd =
     (let db = bc_db ctx; pk = (case db_primary_key db t of Some pk \<Rightarrow> pk | None \<Rightarrow> []) in
      rbind (db_columns db t) (\<lambda>columns.
      rbind (db_indexes db t) (\<lambda>indexes.
      rbind (db_options db t) (\<lambda>options.
      Inr \<lparr>tc_table = t, tc_id = i, tc_columns = columns, tc_indexes = indexes,
           tc_options = options, tc_pk = pk, tc_forward = fwd, tc_backward = bwd\<rparr>))))"

definition new_run :: "'r bfs_ctx \<Rightarrow> table_ctx \<Rightarrow> 'r \<Rightarrow> 'r table_run" where
  "new_run ctx tc rng =
     (let plan = bc_plan ctx;
          anon = (case anonymization plan (tc_table tc) of Some rules \<Rightarrow> rules | None \<Rightarrow> [])
      in \<lparr>tr_chunk = (tsv_writer_new (tc_columns tc) anon (fakers plan) rng, 0),
          tr_fwd = replicate (length (tc_forward tc)) [],
          tr_bwd = replicate (length (tc_backward tc)) []\<rparr>)"

text \<open>Send the rest of the rows of a table and keep the state of the random generator.\<close>

definition finish_rows :: "'r bfs_ctx \<Rightarrow> table_ctx \<Rightarrow> 'r table_run \<Rightarrow> ('r bfs_state, unit) srv" where
  "finish_rows ctx tc run =
     sbind (on_channel (flush_rows (bc_env ctx) (tc_id tc) (tr_chunk run))) (\<lambda>w.
     smodify (\<lambda>s. s\<lparr>bs_rng := tw_rng w\<rparr>))"

text \<open>Where the values of a relation lead.\<close>

definition forward_key :: "relation \<Rightarrow> pending_key" where
  "forward_key rel = (to_table rel, to_column rel, False)"
definition backward_key :: "relation \<Rightarrow> pending_key" where
  "backward_key rel = (from_table rel, from_column rel, True)"

definition seed_pending ::
  "(relation \<Rightarrow> pending_key) \<Rightarrow> relation list \<Rightarrow> mysql_value list list \<Rightarrow> pending \<Rightarrow> pending" where
  "seed_pending target rels vecs p =
     fold (\<lambda>(rel, values) p.
       if values = [] then p
       else (let unique = dedupe_values values in
             if unique = [] then p else add_pending (target rel) unique p)) (zip rels vecs) p"

definition aggregate_root ::
  "'r bfs_ctx \<Rightarrow> resolved_aggregate \<Rightarrow> string set \<Rightarrow> u16 \<Rightarrow> ('r bfs_state, unit) srv" where
  "aggregate_root ctx agg exclude i =
     (let root = ra_root_table agg; rels = relations (bc_plan ctx); importable = dom (bc_ids ctx);
          fwd = (if ra_root_only agg then [] else get_forward_relations root rels importable exclude);
          bwd = (if ra_root_only agg then [] else get_backward_relations root rels importable exclude)
      in
      sbind (slift (table_context ctx root i fwd bwd)) (\<lambda>tc.
      sbind (sgets bs_rng) (\<lambda>rng.
      sbind (slift (db_query (bc_db ctx) (build_root_query agg))) (\<lambda>rows.
      sbind (each_row (root_row ctx tc) rows (new_run ctx tc rng)) (\<lambda>run.
      sbind (finish_rows ctx tc run) (\<lambda>_.
      smodify (\<lambda>s. s\<lparr>bs_pending :=
        seed_pending forward_key fwd (tr_fwd run)
          (seed_pending backward_key bwd (tr_bwd run) (bs_pending s))\<rparr>)))))))"

fun batches :: "nat \<Rightarrow> nat \<Rightarrow> 'a list \<Rightarrow> 'a list list" where
  "batches 0 n xs = []"
| "batches (Suc k) n xs = (if xs = [] then [] else take n xs # batches k n (drop n xs))"

definition in_query :: "string \<Rightarrow> string \<Rightarrow> nat \<Rightarrow> string" where
  "in_query t c n =
     ''SELECT * FROM '' @ bquoted t @ '' WHERE '' @ bquoted c @ '' IN ('' @
       join '', '' (replicate n ''?'') @ '')''"

fun each_batch ::
  "'r bfs_ctx \<Rightarrow> table_ctx \<Rightarrow> string \<Rightarrow> mysql_value list list \<Rightarrow> 'r table_run \<Rightarrow>
     ('r bfs_state, 'r table_run) srv" where
  "each_batch ctx tc c [] run = sret run"
| "each_batch ctx tc c (b # bs) run =
     sbind (slift (db_exec (bc_db ctx) (in_query (tc_table tc) c (length b)) b)) (\<lambda>rows.
     sbind (each_row (level_row ctx tc) rows run) (\<lambda>run1.
     each_batch ctx tc c bs run1))"

definition default_count :: "string \<Rightarrow> 'r bfs_state \<Rightarrow> 'r bfs_state" where
  "default_count t s = s\<lparr>bs_counts := entry_update t 0 (\<lambda>n. n) (bs_counts s)\<rparr>"

definition level_table ::
  "'r bfs_ctx \<Rightarrow> string set \<Rightarrow> pending_key \<Rightarrow> mysql_value list \<Rightarrow> u16 \<Rightarrow> ('r bfs_state, unit) srv" where
  "level_table ctx exclude key fk_values i =
     (case key of (t, c, via_backward) \<Rightarrow>
        (let rels = relations (bc_plan ctx); importable = dom (bc_ids ctx);
             fwd = get_forward_relations t rels importable exclude;
             bwd = (if via_backward then get_backward_relations t rels importable exclude else []);
             unique = dedupe_values fk_values
         in
         sbind (slift (table_context ctx t i fwd bwd)) (\<lambda>tc.
         sbind (sgets bs_rng) (\<lambda>rng.
         sbind (smodify (default_count t)) (\<lambda>_.
         sbind (each_batch ctx tc c (batches (length unique) MAX_IN_VALUES unique) (new_run ctx tc rng)) (\<lambda>run.
         sbind (finish_rows ctx tc run) (\<lambda>_.
         smodify (\<lambda>s. s\<lparr>bs_pending :=
           seed_pending backward_key bwd (tr_bwd run)
             (seed_pending forward_key fwd (tr_fwd run) (bs_pending s))\<rparr>))))))))"

section \<open>Levels, aggregates and the whole run\<close>

definition level_entry ::
  "'r bfs_ctx \<Rightarrow> string set \<Rightarrow> pending_key \<times> mysql_value list \<Rightarrow> ('r bfs_state, unit) srv" where
  "level_entry ctx exclude entry =
     (case entry of (key, fk_values) \<Rightarrow>
        (let t = fst key in
         if t \<in> full_tables (bc_plan ctx) then sret ()
         else if t \<in> exclude then sret ()
         else
           (case bc_ids ctx t of
              None \<Rightarrow> sret ()
            | Some i \<Rightarrow>
                sbind (smodify (\<lambda>s. s\<lparr>bs_touched := insert t (bs_touched s)\<rparr>)) (\<lambda>_.
                if t \<in> excluded_tables (bc_plan ctx) then sret ()
                else level_table ctx exclude key fk_values i))))"

fun each_entry ::
  "'r bfs_ctx \<Rightarrow> string set \<Rightarrow> pending \<Rightarrow> ('r bfs_state, unit) srv" where
  "each_entry ctx exclude [] = sret ()"
| "each_entry ctx exclude (e # es) = sbind (level_entry ctx exclude e) (\<lambda>_. each_entry ctx exclude es)"

text \<open>The result says whether the loop came to its end within the fuel.\<close>

fun bfs_loop :: "nat \<Rightarrow> 'r bfs_ctx \<Rightarrow> string set \<Rightarrow> ('r bfs_state, bool) srv" where
  "bfs_loop fuel ctx exclude s =
     (if bs_pending s = [] then sret True s
      else
        (case fuel of
           0 \<Rightarrow> sret False s
         | Suc n \<Rightarrow>
             sbind (each_entry ctx exclude (bc_drain ctx (bs_pending s))) (\<lambda>_. bfs_loop n ctx exclude)
               (s\<lparr>bs_pending := []\<rparr>)))"

declare bfs_loop.simps [simp del]

definition start_aggregate :: "'r bfs_state \<Rightarrow> 'r bfs_state" where
  "start_aggregate s =
     s\<lparr>bs_expanded_fwd := \<lambda>_. {}, bs_expanded_bwd := \<lambda>_. {}, bs_pending := []\<rparr>"

definition run_aggregate ::
  "nat \<Rightarrow> regex_engine \<Rightarrow> 'r bfs_ctx \<Rightarrow> resolved_aggregate \<Rightarrow> ('r bfs_state, bool) srv" where
  "run_aggregate fuel rx ctx agg =
     (case bc_ids ctx (ra_root_table agg) of
        None \<Rightarrow> slift (Inl (not_importable_error agg))
      | Some i \<Rightarrow>
          sbind (smodify (\<lambda>s. s\<lparr>bs_touched := insert (ra_root_table agg) (bs_touched s)\<rparr>)) (\<lambda>_.
          sbind (slift (expand_exclude_patterns rx agg (dom (bc_ids ctx)))) (\<lambda>exclude.
          sbind (smodify start_aggregate) (\<lambda>_.
          sbind (aggregate_root ctx agg exclude i) (\<lambda>_.
          bfs_loop fuel ctx exclude)))))"

fun run_aggregates ::
  "nat \<Rightarrow> regex_engine \<Rightarrow> 'r bfs_ctx \<Rightarrow> resolved_aggregate list \<Rightarrow> ('r bfs_state, bool) srv" where
  "run_aggregates fuel rx ctx [] = sret True"
| "run_aggregates fuel rx ctx (agg # aggs) =
     sbind (run_aggregate fuel rx ctx agg) (\<lambda>finished.
     if finished then run_aggregates fuel rx ctx aggs else sret False)"

fun send_table_dones :: "'r bfs_ctx \<Rightarrow> (string \<times> u64) list \<Rightarrow> ('r bfs_state, unit) srv" where
  "send_table_dones ctx [] = sret ()"
| "send_table_dones ctx ((t, n) # counts) =
     (case bc_ids ctx t of
        None \<Rightarrow> slift (Inl (SeProtocol ''BFS thread panicked''))
      | Some i \<Rightarrow>
          sbind (on_channel (ch_send (Control (TableDone i n None)))) (\<lambda>_. send_table_dones ctx counts))"

text \<open>Potential tables that no aggregate touched are streamed in full.\<close>

definition false_positive :: "execution_plan \<Rightarrow> string set \<Rightarrow> string set \<Rightarrow> string \<Rightarrow> bool" where
  "false_positive plan potential touched t \<longleftrightarrow>
     t \<in> potential \<and> t \<notin> touched \<and> t \<notin> excluded_tables plan \<and> t \<notin> ignored_tables plan \<and>
     \<not> aggregates_only plan"

fun stream_false_positives ::
  "'r bfs_ctx \<Rightarrow> string set \<Rightarrow> string list \<Rightarrow> ('r bfs_state, unit) srv" where
  "stream_false_positives ctx potential [] = sret ()"
| "stream_false_positives ctx potential (t # ts) =
     sbind (sgets bs_touched) (\<lambda>touched.
     if false_positive (bc_plan ctx) potential touched t then
       sbind (slift (db_columns (bc_db ctx) t)) (\<lambda>columns.
       let plan = bc_plan ctx; anon = (case anonymization plan t of Some rules \<Rightarrow> rules | None \<Rightarrow> []) in
       case bc_ids ctx t of
         None \<Rightarrow> slift (Inl (SeProtocol ''BFS thread panicked''))
       | Some i \<Rightarrow>
           sbind (sgets bs_rng) (\<lambda>rng.
           sbind (on_channel
             (stream_full_table_to_channel (bc_env ctx) (bc_db ctx) t i columns anon (fakers plan) rng)) (\<lambda>rng'.
           sbind (smodify (\<lambda>s. s\<lparr>bs_rng := rng'\<rparr>)) (\<lambda>_.
           stream_false_positives ctx potential ts))))
     else stream_false_positives ctx potential ts)"

definition bfs_start :: "channel \<Rightarrow> 'r \<Rightarrow> 'r bfs_state" where
  "bfs_start ch rng =
     \<lparr>bs_channel = ch, bs_rng = rng, bs_visited = \<lambda>_. {}, bs_touched = {}, bs_schemas = {},
      bs_counts = [], bs_expanded_fwd = \<lambda>_. {}, bs_expanded_bwd = \<lambda>_. {}, bs_pending = []\<rparr>"

definition run_aggregate_bfs ::
  "nat \<Rightarrow> regex_engine \<Rightarrow> 'r bfs_ctx \<Rightarrow> string list \<Rightarrow> string set \<Rightarrow> ('r bfs_state, string set option) srv" where
  "run_aggregate_bfs fuel rx ctx all_table_names potential =
     sbind (slift (rmap (db_columns (bc_db ctx)) (filter (\<lambda>t. t \<in> dom (bc_ids ctx)) all_table_names))) (\<lambda>_.
     sbind (run_aggregates fuel rx ctx (aggregates (bc_plan ctx))) (\<lambda>finished.
     if \<not> finished then sret None
     else
       sbind (sgets bs_counts) (\<lambda>counts.
       sbind (send_table_dones ctx (bc_order ctx counts)) (\<lambda>_.
       sbind (stream_false_positives ctx potential all_table_names) (\<lambda>_.
       sgets (\<lambda>s. Some (bs_touched s)))))))"

section \<open>What rows do to the state\<close>

lemma smodify_Inr [srv_rules]: "smodify f s = (Inr y, s') \<longleftrightarrow> s' = f s"
  by (auto simp: smodify_def)

lemma sgets_Inr [srv_rules]: "sgets f s = (Inr y, s') \<longleftrightarrow> y = f s \<and> s' = s"
  by (auto simp: sgets_def)

lemma on_channel_Inr [srv_rules]:
  "on_channel m s = (Inr y, s') \<longleftrightarrow> (\<exists>ch. m (bs_channel s) = (Inr y, ch) \<and> s' = s\<lparr>bs_channel := ch\<rparr>)"
  by (auto simp: on_channel_def split: prod.splits)

text \<open>The part of the state that decides what is visited and where the traversal goes on.\<close>

definition same_data :: "'r bfs_state \<Rightarrow> 'r bfs_state \<Rightarrow> bool" where
  "same_data s s' \<longleftrightarrow>
     bs_visited s' = bs_visited s \<and> bs_expanded_fwd s' = bs_expanded_fwd s \<and>
     bs_expanded_bwd s' = bs_expanded_bwd s \<and> bs_pending s' = bs_pending s \<and>
     bs_touched s' = bs_touched s"

lemma send_schema_data: "send_schema_once tc s = (Inr u, s') \<Longrightarrow> same_data s s'"
  by (auto simp: send_schema_once_def same_data_def srv_rules split: if_splits)

lemma emit_new_data:
  "emit_new ctx tc row run s = (Inr run', s') \<Longrightarrow>
     same_data s s' \<and> tr_fwd run' = tr_fwd run \<and> tr_bwd run' = tr_bwd run"
  by (auto simp: emit_new_def same_data_def srv_rules count_row_def)

text \<open>The value of a column that is there and not NULL.\<close>

definition link :: "mysql_row \<Rightarrow> string \<Rightarrow> mysql_value option" where
  "link row col =
     (case get_opt row col of None \<Rightarrow> None | Some v \<Rightarrow> if v = MNull then None else Some v)"

text \<open>
  The values collected from a set of rows: nothing is lost, nothing is made up, every row
  whose key was not seen before has a row with the same key whose values are all there, and
  rows seen before add nothing.
\<close>

definition collected :: "(relation \<Rightarrow> string) \<Rightarrow> relation list \<Rightarrow> mysql_value list list \<Rightarrow> mysql_row \<Rightarrow> bool" where
  "collected col rels vecs r \<longleftrightarrow>
     (\<forall>i < length rels. \<forall>v. link r (col (rels ! i)) = Some v \<longrightarrow> v \<in> set (vecs ! i))"

definition vec_effect ::
  "(mysql_row \<Rightarrow> compact_key) \<Rightarrow> (relation \<Rightarrow> string) \<Rightarrow> relation list \<Rightarrow> mysql_row set \<Rightarrow>
     compact_key set \<Rightarrow> mysql_value list list \<Rightarrow> mysql_value list list \<Rightarrow> bool" where
  "vec_effect key col rels R seen vecs vecs' \<longleftrightarrow>
     length vecs' = length rels \<and>
     (\<forall>i < length rels. set (vecs ! i) \<subseteq> set (vecs' ! i) \<and>
        set (vecs' ! i) \<subseteq> set (vecs ! i) \<union> {v. \<exists>r \<in> R. link r (col (rels ! i)) = Some v}) \<and>
     (\<forall>r \<in> R. rels \<noteq> [] \<longrightarrow>
        key r \<in> seen \<or> (\<exists>r0 \<in> R. key r0 = key r \<and> collected col rels vecs' r0)) \<and>
     (key ` R \<subseteq> seen \<longrightarrow> vecs' = vecs)"

lemma vec_effect_empty: "length vecs = length rels \<Longrightarrow> vec_effect key col rels {} seen vecs vecs"
  by (simp add: vec_effect_def)

lemma push_values_nth:
  "length vecs = length rels \<Longrightarrow> i < length rels \<Longrightarrow>
     set (push_values col row rels vecs ! i) =
       set (vecs ! i) \<union> {v. link row (col (rels ! i)) = Some v}"
  by (auto simp: push_values_def link_def split: option.splits)

lemma push_values_length [simp]:
  "length vecs = length rels \<Longrightarrow> length (push_values col row rels vecs) = length rels"
  by (simp add: push_values_def)

lemma vec_effect_one:
  assumes "length vecs = length rels"
  shows "vec_effect key col rels {row} seen vecs
     (if rels \<noteq> [] \<and> key row \<notin> seen then push_values col row rels vecs else vecs)"
  using assms by (auto simp: vec_effect_def collected_def push_values_nth)

lemma vec_effect_trans:
  assumes "vec_effect key col rels R seen vecs vecs1"
    and "vec_effect key col rels R' (seen \<union> (if rels \<noteq> [] then key ` R else {})) vecs1 vecs2"
  shows "vec_effect key col rels (R \<union> R') seen vecs vecs2"
proof -
  have sub: "set (vecs1 ! i) \<subseteq> set (vecs2 ! i)" if "i < length rels" for i
    using assms(2) that by (simp add: vec_effect_def)
  then have col: "collected col rels vecs1 r \<Longrightarrow> collected col rels vecs2 r" for r
    by (auto simp: collected_def)
  have cov1: "key r \<in> seen \<or> (\<exists>r0 \<in> R \<union> R'. key r0 = key r \<and> collected col rels vecs2 r0)"
    if "r \<in> R" "rels \<noteq> []" for r
  proof -
    have "key r \<in> seen \<or> (\<exists>r0 \<in> R. key r0 = key r \<and> collected col rels vecs1 r0)"
      using assms(1) that by (simp add: vec_effect_def)
    then show ?thesis using col by blast
  qed
  have cov2: "key r \<in> seen \<or> (\<exists>r0 \<in> R \<union> R'. key r0 = key r \<and> collected col rels vecs2 r0)"
    if "r \<in> R'" "rels \<noteq> []" for r
  proof -
    have "key r \<in> seen \<union> key ` R \<or> (\<exists>r0 \<in> R'. key r0 = key r \<and> collected col rels vecs2 r0)"
      using assms(2) that by (simp add: vec_effect_def)
    then consider "key r \<in> seen" | r1 where "r1 \<in> R" "key r1 = key r"
      | r0 where "r0 \<in> R'" "key r0 = key r" "collected col rels vecs2 r0" by auto
    then show ?thesis
    proof cases
      case 2
      then show ?thesis using cov1 [OF 2(1) that(2)] by simp
    qed blast+
  qed
  have lo: "set (vecs ! i) \<subseteq> set (vecs2 ! i)" if "i < length rels" for i
    using assms(1) sub [OF that] that unfolding vec_effect_def by (meson order_trans)
  have hi: "set (vecs2 ! i) \<subseteq> set (vecs ! i) \<union> {v. \<exists>r \<in> R \<union> R'. link r (col (rels ! i)) = Some v}"
    if "i < length rels" for i
  proof -
    have "set (vecs2 ! i) \<subseteq> set (vecs1 ! i) \<union> {v. \<exists>r \<in> R'. link r (col (rels ! i)) = Some v}"
      "set (vecs1 ! i) \<subseteq> set (vecs ! i) \<union> {v. \<exists>r \<in> R. link r (col (rels ! i)) = Some v}"
      using assms that by (simp_all add: vec_effect_def)
    then show ?thesis by blast
  qed
  have "length vecs2 = length rels" using assms(2) by (simp add: vec_effect_def)
  moreover have "vecs2 = vecs" if "key ` (R \<union> R') \<subseteq> seen"
    using assms that unfolding vec_effect_def by (metis Un_subset_iff image_Un le_supI1)
  ultimately show ?thesis unfolding vec_effect_def using lo hi cov1 cov2 by blast
qed

definition mark :: "string \<Rightarrow> 'k set \<Rightarrow> (string \<Rightarrow> 'k set) \<Rightarrow> string \<Rightarrow> 'k set" where
  "mark t K f = f(t := f t \<union> K)"

lemma mark_apply [simp]: "mark t K f u = (if u = t then f u \<union> K else f u)"
  by (simp add: mark_def)

definition tc_key :: "table_ctx \<Rightarrow> mysql_row \<Rightarrow> compact_key" where
  "tc_key tc row = row_pk_key row (tc_pk tc)"

definition expansion :: "relation list \<Rightarrow> 'k set \<Rightarrow> 'k set" where
  "expansion rels K = (if rels = [] then {} else K)"

text \<open>What a set of rows of a table does to the data part of the state.\<close>

definition rows_effect ::
  "table_ctx \<Rightarrow> mysql_row set \<Rightarrow> 'r table_run \<Rightarrow> 'r bfs_state \<Rightarrow> 'r table_run \<Rightarrow> 'r bfs_state \<Rightarrow> bool" where
  "rows_effect tc R run s run' s' \<longleftrightarrow>
     (let t = tc_table tc; K = tc_key tc ` R in
      bs_visited s' = mark t K (bs_visited s) \<and>
      bs_expanded_fwd s' = mark t (expansion (tc_forward tc) K) (bs_expanded_fwd s) \<and>
      bs_expanded_bwd s' = mark t (expansion (tc_backward tc) K) (bs_expanded_bwd s) \<and>
      bs_pending s' = bs_pending s \<and> bs_touched s' = bs_touched s \<and>
      vec_effect (tc_key tc) from_column (tc_forward tc) R (bs_expanded_fwd s t) (tr_fwd run) (tr_fwd run') \<and>
      vec_effect (tc_key tc) to_column (tc_backward tc) R (bs_expanded_bwd s t) (tr_bwd run) (tr_bwd run'))"

definition run_ok :: "table_ctx \<Rightarrow> 'r table_run \<Rightarrow> bool" where
  "run_ok tc run \<longleftrightarrow>
     length (tr_fwd run) = length (tc_forward tc) \<and> length (tr_bwd run) = length (tc_backward tc)"

lemma expand_row_data:
  assumes "expand_row tc (tc_key tc row) row run s = (run', s')" "run_ok tc run"
  shows "rows_effect tc {row} run s run'
      (s'\<lparr>bs_visited := add_to (tc_table tc) (tc_key tc row) (bs_visited s')\<rparr>) \<and>
    bs_visited s' = bs_visited s"
proof -
  let ?k = "tc_key tc row" and ?t = "tc_table tc"
  have r: "run' = fst (expand_row tc ?k row run s)" "s' = snd (expand_row tc ?k row run s)"
    using assms(1) by simp_all
  have f: "tr_fwd run' = (if tc_forward tc \<noteq> [] \<and> ?k \<notin> bs_expanded_fwd s ?t
      then push_values from_column row (tc_forward tc) (tr_fwd run) else tr_fwd run)"
    and b: "tr_bwd run' = (if tc_backward tc \<noteq> [] \<and> ?k \<notin> bs_expanded_bwd s ?t
      then push_values to_column row (tc_backward tc) (tr_bwd run) else tr_bwd run)"
    and v: "bs_visited s' = bs_visited s" "bs_pending s' = bs_pending s" "bs_touched s' = bs_touched s"
    by (simp_all add: r expand_row_def Let_def)
  have ef: "bs_expanded_fwd s' = mark ?t (expansion (tc_forward tc) {?k}) (bs_expanded_fwd s)"
    and eb: "bs_expanded_bwd s' = mark ?t (expansion (tc_backward tc) {?k}) (bs_expanded_bwd s)"
    by (auto simp: r expand_row_def Let_def expansion_def add_to_def fun_eq_iff)
  show ?thesis
    using assms(2) v ef eb
      vec_effect_one [where vecs = "tr_fwd run" and rels = "tc_forward tc" and key = "tc_key tc" and row = row
        and seen = "bs_expanded_fwd s ?t" and col = from_column]
      vec_effect_one [where vecs = "tr_bwd run" and rels = "tc_backward tc" and key = "tc_key tc" and row = row
        and seen = "bs_expanded_bwd s ?t" and col = to_column]
    by (simp add: rows_effect_def f b run_ok_def add_to_def mark_def Let_def)
qed

lemma rows_effect_data:
  assumes "rows_effect tc R run s run' s'" "same_data s' s''" "tr_fwd run'' = tr_fwd run'" "tr_bwd run'' = tr_bwd run'"
  shows "rows_effect tc R run s run'' s''"
  using assms by (simp add: rows_effect_def same_data_def Let_def)

lemma rows_effect_before:
  assumes "same_data s0 s" "rows_effect tc R run s run' s'"
  shows "rows_effect tc R run s0 run' s'"
  using assms by (simp add: rows_effect_def same_data_def Let_def)

lemma level_row_eq:
  "expand_row tc (tc_key tc row) row run s = (run1, s1) \<Longrightarrow>
   level_row ctx tc row run s =
     (let s2 = s1\<lparr>bs_visited := add_to (tc_table tc) (tc_key tc row) (bs_visited s1)\<rparr> in
      if tc_key tc row \<notin> bs_visited s1 (tc_table tc)
      then sbind (send_schema_once tc) (\<lambda>_. emit_new ctx tc row run1) s2 else sret run1 s2)"
  by (simp add: level_row_def tc_key_def Let_def)

lemma root_row_eq:
  "send_schema_once tc s = (Inr (), s0) \<Longrightarrow> expand_row tc (tc_key tc row) row run s0 = (run1, s1) \<Longrightarrow>
   root_row ctx tc row run s =
     (let s2 = s1\<lparr>bs_visited := add_to (tc_table tc) (tc_key tc row) (bs_visited s1)\<rparr> in
      if tc_key tc row \<notin> bs_visited s1 (tc_table tc) then emit_new ctx tc row run1 s2 else sret run1 s2)"
  by (simp add: root_row_def tc_key_def Let_def sbind_def)

lemma level_row_data:
  assumes "level_row ctx tc row run s = (Inr run', s')" "run_ok tc run"
  shows "rows_effect tc {row} run s run' s'"
proof -
  obtain run1 s1 where e: "expand_row tc (tc_key tc row) row run s = (run1, s1)" by fastforce
  let ?s2 = "s1\<lparr>bs_visited := add_to (tc_table tc) (tc_key tc row) (bs_visited s1)\<rparr>"
  have r: "rows_effect tc {row} run s run1 ?s2" using expand_row_data [OF e assms(2)] by blast
  have "(if tc_key tc row \<notin> bs_visited s1 (tc_table tc)
      then sbind (send_schema_once tc) (\<lambda>_. emit_new ctx tc row run1) ?s2 else sret run1 ?s2) = (Inr run', s')"
    using assms(1) by (simp only: level_row_eq [OF e] Let_def)
  then consider "sbind (send_schema_once tc) (\<lambda>_. emit_new ctx tc row run1) ?s2 = (Inr run', s')"
    | "run' = run1" "s' = ?s2" by (auto simp: srv_rules split: if_splits)
  then show ?thesis
  proof cases
    case 1
    then obtain s3 where "send_schema_once tc ?s2 = (Inr (), s3)" "emit_new ctx tc row run1 s3 = (Inr run', s')"
      by (auto simp: srv_rules)
    then have "same_data ?s2 s'" "tr_fwd run' = tr_fwd run1" "tr_bwd run' = tr_bwd run1"
      using send_schema_data emit_new_data by (fastforce simp: same_data_def)+
    then show ?thesis using rows_effect_data [OF r] by blast
  next
    case 2
    then show ?thesis using r by simp
  qed
qed

lemma root_row_data:
  assumes "root_row ctx tc row run s = (Inr run', s')" "run_ok tc run"
  shows "rows_effect tc {row} run s run' s'"
proof -
  obtain s0 where sc: "send_schema_once tc s = (Inr (), s0)"
    using assms(1) by (auto simp: root_row_def srv_rules)
  obtain run1 s1 where e: "expand_row tc (tc_key tc row) row run s0 = (run1, s1)" by fastforce
  let ?s2 = "s1\<lparr>bs_visited := add_to (tc_table tc) (tc_key tc row) (bs_visited s1)\<rparr>"
  have r: "rows_effect tc {row} run s0 run1 ?s2" using expand_row_data [OF e assms(2)] by blast
  have "(if tc_key tc row \<notin> bs_visited s1 (tc_table tc)
      then emit_new ctx tc row run1 ?s2 else sret run1 ?s2) = (Inr run', s')"
    using assms(1) by (simp only: root_row_eq [OF sc e] Let_def)
  then have "same_data ?s2 s' \<and> tr_fwd run' = tr_fwd run1 \<and> tr_bwd run' = tr_bwd run1"
    using emit_new_data [of ctx tc row run1 ?s2 run' s']
    by (auto simp: srv_rules same_data_def split: if_splits)
  then show ?thesis
    using rows_effect_before [OF send_schema_data [OF sc]] rows_effect_data [OF r] by blast
qed

lemma rows_effect_run_ok: "rows_effect tc R run s run' s' \<Longrightarrow> run_ok tc run'"
  by (simp add: rows_effect_def run_ok_def vec_effect_def Let_def)

lemma rows_effect_empty: "run_ok tc run \<Longrightarrow> rows_effect tc {} run s run s"
  by (simp add: rows_effect_def vec_effect_empty run_ok_def Let_def mark_def expansion_def)

lemma mark_mark: "mark t B (mark t A f) = mark t (A \<union> B) f"
  by (auto simp: mark_def fun_eq_iff)

lemma expansion_Un: "expansion rels (A \<union> B) = expansion rels A \<union> expansion rels B"
  by (simp add: expansion_def)

lemma rows_effect_trans:
  assumes "rows_effect tc R run s run1 s1" "rows_effect tc R' run1 s1 run2 s2"
  shows "rows_effect tc (R \<union> R') run s run2 s2"
proof -
  let ?t = "tc_table tc" and ?k = "tc_key tc"
  have e: "bs_expanded_fwd s1 ?t = bs_expanded_fwd s ?t \<union> (if tc_forward tc \<noteq> [] then ?k ` R else {})"
    "bs_expanded_bwd s1 ?t = bs_expanded_bwd s ?t \<union> (if tc_backward tc \<noteq> [] then ?k ` R else {})"
    using assms(1) by (simp_all add: rows_effect_def expansion_def Let_def)
  have v: "vec_effect ?k from_column (tc_forward tc) R (bs_expanded_fwd s ?t) (tr_fwd run) (tr_fwd run1)"
    "vec_effect ?k from_column (tc_forward tc) R' (bs_expanded_fwd s1 ?t) (tr_fwd run1) (tr_fwd run2)"
    "vec_effect ?k to_column (tc_backward tc) R (bs_expanded_bwd s ?t) (tr_bwd run) (tr_bwd run1)"
    "vec_effect ?k to_column (tc_backward tc) R' (bs_expanded_bwd s1 ?t) (tr_bwd run1) (tr_bwd run2)"
    using assms by (simp_all add: rows_effect_def Let_def)
  have "vec_effect ?k from_column (tc_forward tc) (R \<union> R') (bs_expanded_fwd s ?t) (tr_fwd run) (tr_fwd run2)"
    "vec_effect ?k to_column (tc_backward tc) (R \<union> R') (bs_expanded_bwd s ?t) (tr_bwd run) (tr_bwd run2)"
    using vec_effect_trans [OF v(1) v(2) [unfolded e(1)]] vec_effect_trans [OF v(3) v(4) [unfolded e(2)]]
    by blast+
  then show ?thesis using assms by (simp add: rows_effect_def Let_def image_Un expansion_Un mark_mark)
qed

lemma each_row_data:
  assumes "\<And>row run s run' s'. f row run s = (Inr run', s') \<Longrightarrow> run_ok tc run \<Longrightarrow> rows_effect tc {row} run s run' s'"
  shows "each_row f rows run s = (Inr run', s') \<Longrightarrow> run_ok tc run \<Longrightarrow>
     (\<exists>rs. rows = map Inr rs \<and> rows_effect tc (set rs) run s run' s')"
proof (induction rows arbitrary: run s)
  case Nil
  then show ?case by (auto simp: srv_rules rows_effect_empty)
next
  case (Cons x rows)
  obtain row where x: "x = Inr row" using Cons.prems(1) by (cases x) (auto simp: srv_rules)
  obtain run1 s1 where f: "f row run s = (Inr run1, s1)" "each_row f rows run1 s1 = (Inr run', s')"
    using Cons.prems(1) by (auto simp: x srv_rules)
  have e: "rows_effect tc {row} run s run1 s1" by (rule assms [OF f(1) Cons.prems(2)])
  obtain rs where "rows = map Inr rs" "rows_effect tc (set rs) run1 s1 run' s'"
    using Cons.IH [OF f(2) rows_effect_run_ok [OF e]] by blast
  then show ?case
    using rows_effect_trans [OF e] by (intro exI [of _ "row # rs"]) (simp add: x)
qed

section \<open>What a table does to the state\<close>

text \<open>
  The database as the traversal relies on it: \<open>content t\<close> are the rows of table \<open>t\<close>, and a lookup
  of a list of values in a column returns the rows that match one of them.
\<close>

definition answers ::
  "'r bfs_ctx \<Rightarrow> (string \<Rightarrow> mysql_row set) \<Rightarrow> (string \<Rightarrow> string \<Rightarrow> mysql_value \<Rightarrow> mysql_row \<Rightarrow> bool) \<Rightarrow> bool" where
  "answers ctx content matches \<longleftrightarrow>
     (\<forall>t c vs rs. db_exec (bc_db ctx) (in_query t c (length vs)) vs = Inr (map Inr rs) \<longrightarrow>
        set rs = {r \<in> content t. \<exists>v \<in> set vs. matches t c v r})"

lemma concat_batches: "0 < n \<Longrightarrow> length xs \<le> k \<Longrightarrow> concat (batches k n xs) = xs"
proof (induction k arbitrary: xs)
  case (Suc k)
  then show ?case by (cases "xs = []") (simp_all add: Suc.IH)
qed simp

lemma each_batch_data:
  assumes "answers ctx content matches"
  shows "each_batch ctx tc c bs run s = (Inr run', s') \<Longrightarrow> run_ok tc run \<Longrightarrow>
     rows_effect tc {r \<in> content (tc_table tc). \<exists>v \<in> set (concat bs). matches (tc_table tc) c v r} run s run' s'"
proof (induction bs arbitrary: run s)
  case Nil
  then show ?case by (auto simp: srv_rules intro: rows_effect_empty)
next
  case (Cons b bs)
  let ?t = "tc_table tc"
  obtain rows run1 s1 where q: "db_exec (bc_db ctx) (in_query ?t c (length b)) b = Inr rows"
    and e: "each_row (level_row ctx tc) rows run s = (Inr run1, s1)"
    and n: "each_batch ctx tc c bs run1 s1 = (Inr run', s')"
    using Cons.prems(1) by (auto simp: srv_rules)
  obtain rs where rs: "rows = map Inr rs" "rows_effect tc (set rs) run s run1 s1"
    using each_row_data [of "level_row ctx tc", OF _ e Cons.prems(2)] level_row_data by blast
  have "set rs = {r \<in> content ?t. \<exists>v \<in> set b. matches ?t c v r}"
    using assms q rs(1) by (simp add: answers_def)
  moreover have "rows_effect tc {r \<in> content ?t. \<exists>v \<in> set (concat bs). matches ?t c v r} run1 s1 run' s'"
    by (rule Cons.IH [OF n rows_effect_run_ok [OF rs(2)]])
  moreover have "{r \<in> content ?t. \<exists>v \<in> set (concat (b # bs)). matches ?t c v r} =
      {r \<in> content ?t. \<exists>v \<in> set b. matches ?t c v r} \<union> {r \<in> content ?t. \<exists>v \<in> set (concat bs). matches ?t c v r}"
    by auto
  ultimately show ?case using rows_effect_trans [OF rs(2)] by simp
qed

text \<open>The values waiting to be looked up.\<close>

definition pending_values :: "pending \<Rightarrow> (pending_key \<times> mysql_value) set" where
  "pending_values p = {(k, v). \<exists>vs. (k, vs) \<in> set p \<and> v \<in> set vs}"

lemma pending_simps [simp]:
  "pending_values [] = {}"
  "pending_values ((k, vs) # p) = Pair k ` set vs \<union> pending_values p"
  by (auto simp: pending_values_def)

lemma add_pending_values: "pending_values (add_pending k vs p) = pending_values p \<union> Pair k ` set vs"
proof (induction p)
  case (Cons e p)
  then show ?case by (cases e) (auto simp: add_pending_def)
qed (simp add: add_pending_def)

definition seeded ::
  "(relation \<Rightarrow> pending_key) \<Rightarrow> relation list \<Rightarrow> mysql_value list list \<Rightarrow> pending \<Rightarrow> pending \<Rightarrow> bool" where
  "seeded target rels vecs p p' \<longleftrightarrow>
     pending_values p \<subseteq> pending_values p' \<and>
     pending_values p' \<subseteq> pending_values p \<union>
       {(target rel, v) | rel v vs. (rel, vs) \<in> set (zip rels vecs) \<and> v \<in> set vs} \<and>
     (\<forall>(rel, vs) \<in> set (zip rels vecs). \<forall>v \<in> set vs.
        \<exists>v'. value_to_compact_key v' = value_to_compact_key v \<and> (target rel, v') \<in> pending_values p')"

lemma dedupe_parts:
  "value_to_compact_key ` set (dedupe_values vs) = value_to_compact_key ` set vs"
  "set (dedupe_values vs) \<subseteq> set vs"
  using dedupe_loop_spec [of "{}" vs] by (simp_all add: dedupe_values_def)

lemma seed_pending_step:
  "seed_pending target (rel # rels) (vs # vecs) p =
     seed_pending target rels vecs (if dedupe_values vs = [] then p else add_pending (target rel) (dedupe_values vs) p)"
proof -
  have "vs = [] \<Longrightarrow> dedupe_values vs = []" by (simp add: dedupe_values_def)
  then show ?thesis by (simp add: seed_pending_def Let_def)
qed

lemma seed_pending_seeded: "seeded target rels vecs p (seed_pending target rels vecs p)"
proof (induction rels arbitrary: vecs p)
  case Nil
  then show ?case by (simp add: seed_pending_def seeded_def)
next
  case (Cons rel rels)
  show ?case
  proof (cases vecs)
    case Nil
    then show ?thesis by (simp add: seed_pending_def seeded_def)
  next
    case v: (Cons vs ws)
    let ?p = "if dedupe_values vs = [] then p else add_pending (target rel) (dedupe_values vs) p"
    have p: "pending_values ?p = pending_values p \<union> Pair (target rel) ` set (dedupe_values vs)"
      by (simp add: add_pending_values)
    have s: "seeded target rels ws ?p (seed_pending target rels ws ?p)" by (rule Cons.IH)
    have cov: "\<exists>v'. value_to_compact_key v' = value_to_compact_key x \<and> (target rel, v') \<in> pending_values ?p"
      if "x \<in> set vs" for x
    proof -
      have "value_to_compact_key x \<in> value_to_compact_key ` set (dedupe_values vs)"
        using that dedupe_parts(1) [of vs] by simp
      then show ?thesis unfolding p by auto
    qed
    show ?thesis
      unfolding v seed_pending_step seeded_def
    proof (intro conjI)
      show "pending_values p \<subseteq> pending_values (seed_pending target rels ws ?p)"
        using s p unfolding seeded_def by blast
      show "pending_values (seed_pending target rels ws ?p) \<subseteq> pending_values p \<union>
          {(target r, x) | r x xs. (r, xs) \<in> set (zip (rel # rels) (vs # ws)) \<and> x \<in> set xs}"
      proof -
        have "pending_values (seed_pending target rels ws ?p) \<subseteq> pending_values ?p \<union>
            {(target r, x) | r x xs. (r, xs) \<in> set (zip rels ws) \<and> x \<in> set xs}"
          using s unfolding seeded_def by blast
        moreover have "pending_values ?p \<subseteq> pending_values p \<union> Pair (target rel) ` set vs"
          unfolding p using dedupe_parts(2) [of vs] by blast
        moreover have "{(target r, x) | r x xs. (r, xs) \<in> set (zip (rel # rels) (vs # ws)) \<and> x \<in> set xs} =
            Pair (target rel) ` set vs \<union> {(target r, x) | r x xs. (r, xs) \<in> set (zip rels ws) \<and> x \<in> set xs}"
          by auto
        ultimately show ?thesis by blast
      qed
      show "\<forall>(r, xs) \<in> set (zip (rel # rels) (vs # ws)). \<forall>x \<in> set xs.
          \<exists>v'. value_to_compact_key v' = value_to_compact_key x \<and>
            (target r, v') \<in> pending_values (seed_pending target rels ws ?p)"
      proof clarify
        fix r xs x assume "(r, xs) \<in> set (zip (rel # rels) (vs # ws))" and x: "x \<in> set xs"
        then consider "r = rel" "xs = vs" | "(r, xs) \<in> set (zip rels ws)" by auto
        then show "\<exists>v'. value_to_compact_key v' = value_to_compact_key x \<and>
            (target r, v') \<in> pending_values (seed_pending target rels ws ?p)"
        proof cases
          case 1
          then obtain v' where "value_to_compact_key v' = value_to_compact_key x" "(target r, v') \<in> pending_values ?p"
            using cov [of x] x by blast
          then show ?thesis using s unfolding seeded_def by blast
        next
          case 2
          then show ?thesis using s x unfolding seeded_def by blast
        qed
      qed
    qed
  qed
qed

end
