(* ===== verification/Traversal.thy ===== *)
theory Traversal
  imports Bfs
begin

text \<open>
  What the data traversal of the aggregates visits: exactly the rows the aggregates ask for.
  The rows an aggregate requires are an inductive predicate over the contents of the database;
  an invariant relates the state of the traversal to it, and is kept by every root, every
  lookup of a level and every level.
\<close>

section \<open>What an aggregate requires\<close>

definition table_pk :: "'r bfs_ctx \<Rightarrow> string \<Rightarrow> string list" where
  "table_pk ctx t = (case db_primary_key (bc_db ctx) t of Some pk \<Rightarrow> pk | None \<Rightarrow> [])"

definition row_key :: "'r bfs_ctx \<Rightarrow> string \<Rightarrow> mysql_row \<Rightarrow> compact_key" where
  "row_key ctx t r = row_pk_key r (table_pk ctx t)"

definition agg_forward :: "'r bfs_ctx \<Rightarrow> resolved_aggregate \<Rightarrow> string set \<Rightarrow> string \<Rightarrow> relation list" where
  "agg_forward ctx agg exclude t =
     (if ra_root_only agg then []
      else get_forward_relations t (relations (bc_plan ctx)) (dom (bc_ids ctx)) exclude)"

definition agg_backward :: "'r bfs_ctx \<Rightarrow> resolved_aggregate \<Rightarrow> string set \<Rightarrow> string \<Rightarrow> relation list" where
  "agg_backward ctx agg exclude t =
     (if ra_root_only agg then []
      else get_backward_relations t (relations (bc_plan ctx)) (dom (bc_ids ctx)) exclude)"

text \<open>A table whose rows are fetched when a relation leads to it.\<close>

definition followed :: "'r bfs_ctx \<Rightarrow> string set \<Rightarrow> string \<Rightarrow> bool" where
  "followed ctx exclude t \<longleftrightarrow>
     t \<notin> full_tables (bc_plan ctx) \<and> t \<notin> exclude \<and> t \<in> dom (bc_ids ctx) \<and>
     t \<notin> excluded_tables (bc_plan ctx)"

text \<open>The lookups a row gives rise to.\<close>

definition leads_forward ::
  "'r bfs_ctx \<Rightarrow> resolved_aggregate \<Rightarrow> string set \<Rightarrow> string \<Rightarrow> mysql_row \<Rightarrow> pending_key \<Rightarrow> mysql_value \<Rightarrow> bool" where
  "leads_forward ctx agg exclude t r k v \<longleftrightarrow>
     (\<exists>rel \<in> set (agg_forward ctx agg exclude t). k = forward_key rel \<and> link r (from_column rel) = Some v)"

definition leads_backward ::
  "'r bfs_ctx \<Rightarrow> resolved_aggregate \<Rightarrow> string set \<Rightarrow> string \<Rightarrow> mysql_row \<Rightarrow> pending_key \<Rightarrow> mysql_value \<Rightarrow> bool" where
  "leads_backward ctx agg exclude t r k v \<longleftrightarrow>
     (\<exists>rel \<in> set (agg_backward ctx agg exclude t). k = backward_key rel \<and> link r (to_column rel) = Some v)"

definition leads ::
  "'r bfs_ctx \<Rightarrow> resolved_aggregate \<Rightarrow> string set \<Rightarrow> string \<Rightarrow> mysql_row \<Rightarrow> bool \<Rightarrow> pending_key \<Rightarrow>
     mysql_value \<Rightarrow> bool" where
  "leads ctx agg exclude t r b k v \<longleftrightarrow>
     leads_forward ctx agg exclude t r k v \<or> b \<and> leads_backward ctx agg exclude t r k v"

definition root_rows :: "'r bfs_ctx \<Rightarrow> resolved_aggregate \<Rightarrow> mysql_row set" where
  "root_rows ctx agg = {r. \<exists>rows. db_query (bc_db ctx) (build_root_query agg) = Inr rows \<and> Inr r \<in> set rows}"

type_synonym matcher = "string \<Rightarrow> string \<Rightarrow> mysql_value \<Rightarrow> mysql_row \<Rightarrow> bool"

text \<open>
  The rows an aggregate asks for: the rows of its root, and the rows that a foreign key value
  of a required row leads to; backwards only from rows that were themselves reached backwards
  or are root rows.
\<close>

inductive required ::
  "'r bfs_ctx \<Rightarrow> resolved_aggregate \<Rightarrow> string set \<Rightarrow> (string \<Rightarrow> mysql_row set) \<Rightarrow> matcher \<Rightarrow>
     string \<Rightarrow> mysql_row \<Rightarrow> bool \<Rightarrow> bool"
  for ctx agg exclude content matches where
  required_root:
    "r \<in> root_rows ctx agg \<Longrightarrow>
       required ctx agg exclude content matches (ra_root_table agg) r True"
| required_step:
    "required ctx agg exclude content matches t r b \<Longrightarrow> leads ctx agg exclude t r b (t', c, b') v \<Longrightarrow>
       followed ctx exclude t' \<Longrightarrow> r' \<in> content t' \<Longrightarrow> matches t' c v r' \<Longrightarrow>
       required ctx agg exclude content matches t' r' b'"

text \<open>
  What the deduplication relies on: values with one key match the same rows, and rows of a
  table with one key agree on the columns of the relations.
\<close>

definition relation_columns :: "'r bfs_ctx \<Rightarrow> string \<Rightarrow> string set" where
  "relation_columns ctx t =
     {from_column rel | rel. rel \<in> set (relations (bc_plan ctx)) \<and> from_table rel = t} \<union>
     {to_column rel | rel. rel \<in> set (relations (bc_plan ctx)) \<and> to_table rel = t}"

definition table_rows :: "'r bfs_ctx \<Rightarrow> (string \<Rightarrow> mysql_row set) \<Rightarrow> string \<Rightarrow> mysql_row set" where
  "table_rows ctx content t =
     content t \<union> {r. \<exists>agg \<in> set (aggregates (bc_plan ctx)). ra_root_table agg = t \<and> r \<in> root_rows ctx agg}"

definition keys_determine ::
  "'r bfs_ctx \<Rightarrow> (string \<Rightarrow> mysql_row set) \<Rightarrow> matcher \<Rightarrow> bool" where
  "keys_determine ctx content matches \<longleftrightarrow>
     (\<forall>t c v v' r. value_to_compact_key v = value_to_compact_key v' \<longrightarrow> matches t c v r = matches t c v' r) \<and>
     (\<forall>t. \<forall>r \<in> table_rows ctx content t. \<forall>r' \<in> table_rows ctx content t.
        row_key ctx t r = row_key ctx t r' \<longrightarrow>
        (\<forall>col \<in> relation_columns ctx t.
           map_option value_to_compact_key (link r col) = map_option value_to_compact_key (link r' col)))"

section \<open>The invariant of the traversal of one aggregate\<close>

definition settled ::
  "'r bfs_ctx \<Rightarrow> resolved_aggregate \<Rightarrow> string set \<Rightarrow> 'r bfs_state \<Rightarrow> string \<Rightarrow> mysql_row \<Rightarrow> bool \<Rightarrow> bool" where
  "settled ctx agg exclude s t r b \<longleftrightarrow>
     row_key ctx t r \<in> bs_visited s t \<and>
     (agg_forward ctx agg exclude t \<noteq> [] \<longrightarrow> row_key ctx t r \<in> bs_expanded_fwd s t) \<and>
     (b \<longrightarrow> agg_backward ctx agg exclude t \<noteq> [] \<longrightarrow> row_key ctx t r \<in> bs_expanded_bwd s t)"

definition covered ::
  "'r bfs_ctx \<Rightarrow> resolved_aggregate \<Rightarrow> string set \<Rightarrow> (string \<Rightarrow> mysql_row set) \<Rightarrow> matcher \<Rightarrow>
     (pending_key \<times> mysql_value) set \<Rightarrow> 'r bfs_state \<Rightarrow> pending_key \<Rightarrow> mysql_value \<Rightarrow> bool" where
  "covered ctx agg exclude content matches P s k v \<longleftrightarrow>
     (case k of (t, c, b) \<Rightarrow>
        \<not> followed ctx exclude t \<or>
        (\<exists>v'. value_to_compact_key v' = value_to_compact_key v \<and> (k, v') \<in> P) \<or>
        (\<forall>r \<in> content t. matches t c v r \<longrightarrow> settled ctx agg exclude s t r b))"

definition bfs_inv ::
  "'r bfs_ctx \<Rightarrow> resolved_aggregate \<Rightarrow> string set \<Rightarrow> (string \<Rightarrow> mysql_row set) \<Rightarrow> matcher \<Rightarrow>
     'r bfs_state \<Rightarrow> (pending_key \<times> mysql_value) set \<Rightarrow> 'r bfs_state \<Rightarrow> bool" where
  "bfs_inv ctx agg exclude content matches s0 P s \<longleftrightarrow>
     (let req = required ctx agg exclude content matches; key = row_key ctx;
          cov = covered ctx agg exclude content matches P s in
      (\<forall>(k, v) \<in> P. \<exists>t r b. req t r b \<and> leads ctx agg exclude t r b k v) \<and>
      (\<forall>t. bs_visited s0 t \<subseteq> bs_visited s t \<and>
         bs_visited s t \<subseteq> bs_visited s0 t \<union> {key t r | r b. req t r b}) \<and>
      (\<forall>t. \<forall>k \<in> bs_expanded_fwd s t. \<exists>r b. req t r b \<and> key t r = k \<and>
         (\<forall>k' v. leads_forward ctx agg exclude t r k' v \<longrightarrow> cov k' v)) \<and>
      (\<forall>t. \<forall>k \<in> bs_expanded_bwd s t. \<exists>r. req t r True \<and> key t r = k \<and>
         (\<forall>k' v. leads_backward ctx agg exclude t r k' v \<longrightarrow> cov k' v)) \<and>
      bs_touched s0 \<subseteq> bs_touched s \<and>
      (\<forall>t \<in> bs_touched s. t \<in> bs_touched s0 \<or>
         (\<exists>t0 r b c b' v. req t0 r b \<and> leads ctx agg exclude t0 r b (t, c, b') v \<and>
            t \<notin> full_tables (bc_plan ctx))))"

definition data_le :: "'r bfs_state \<Rightarrow> 'r bfs_state \<Rightarrow> bool" where
  "data_le s s' \<longleftrightarrow>
     (\<forall>t. bs_visited s t \<subseteq> bs_visited s' t \<and> bs_expanded_fwd s t \<subseteq> bs_expanded_fwd s' t \<and>
        bs_expanded_bwd s t \<subseteq> bs_expanded_bwd s' t)"

lemma settled_mono: "settled ctx agg e s t r b \<Longrightarrow> data_le s s' \<Longrightarrow> settled ctx agg e s' t r b"
  by (auto simp: settled_def data_le_def)

lemma covered_key:
  assumes "keys_determine ctx D M" "value_to_compact_key v = value_to_compact_key v'"
  shows "covered ctx agg e D M P s k v = covered ctx agg e D M P s k v'"
proof -
  obtain t c b where k: "k = (t, c, b)" by (cases k)
  have "M t c v r = M t c v' r" for r using assms unfolding keys_determine_def by blast
  then show ?thesis using assms(2) by (simp add: covered_def k)
qed

lemma covered_step:
  assumes "covered ctx agg e D M P s k v" "data_le s s'" "keys_determine ctx D M"
    and "\<And>k v. (k, v) \<in> P \<Longrightarrow> (k, v) \<notin> P' \<Longrightarrow> covered ctx agg e D M P' s' k v"
  shows "covered ctx agg e D M P' s' k v"
proof -
  obtain t c b where k: "k = (t, c, b)" by (cases k)
  from assms(1) consider "\<not> followed ctx e t"
    | v' where "value_to_compact_key v' = value_to_compact_key v" "(k, v') \<in> P"
    | "\<forall>r \<in> D t. M t c v r \<longrightarrow> settled ctx agg e s t r b"
    by (auto simp: covered_def k)
  then show ?thesis
  proof cases
    case 1
    then show ?thesis by (simp add: covered_def k)
  next
    case 2
    have "covered ctx agg e D M P' s' k v'"
      using assms(4) [of k v'] 2(2) by (cases "(k, v') \<in> P'") (auto simp: covered_def k)
    then show ?thesis using covered_key [OF assms(3) 2(1)] by simp
  next
    case 3
    then show ?thesis using settled_mono [OF _ assms(2)] by (auto simp: covered_def k)
  qed
qed

text \<open>The context of a table as the traversal builds it.\<close>

definition tc_for ::
  "'r bfs_ctx \<Rightarrow> resolved_aggregate \<Rightarrow> string set \<Rightarrow> string \<Rightarrow> bool \<Rightarrow> table_ctx \<Rightarrow> bool" where
  "tc_for ctx agg e t b tc \<longleftrightarrow>
     tc_table tc = t \<and> tc_pk tc = table_pk ctx t \<and> tc_forward tc = agg_forward ctx agg e t \<and>
     tc_backward tc = (if b then agg_backward ctx agg e t else [])"

lemma rows_settled:
  assumes "tc_for ctx agg e t b tc" "rows_effect tc R run s run' s'" "r \<in> R"
  shows "settled ctx agg e s' t r b"
  using assms
  by (auto simp: settled_def rows_effect_def tc_for_def Let_def expansion_def tc_key_def row_key_def)

lemma rows_effect_le: "rows_effect tc R run s run' s' \<Longrightarrow> data_le s s'"
  by (auto simp: rows_effect_def data_le_def Let_def)

lemma zip_collected:
  assumes "seeded target rels vecs p p'" "collected col rels vecs r" "length vecs = length rels"
    and "rel \<in> set rels" "link r (col rel) = Some v"
  shows "\<exists>v'. value_to_compact_key v' = value_to_compact_key v \<and> (target rel, v') \<in> pending_values p'"
proof -
  obtain i where i: "i < length rels" "rels ! i = rel" using assms(4) by (meson in_set_conv_nth)
  then have "v \<in> set (vecs ! i)" using assms(2,5) by (auto simp: collected_def)
  moreover have "(rel, vecs ! i) \<in> set (zip rels vecs)" using i assms(3) by (auto simp: in_set_zip)
  ultimately show ?thesis using assms(1) unfolding seeded_def by blast
qed

lemma zip_sound:
  assumes "vec_effect key col rels R seen (replicate (length rels) []) vecs" "(rel, vs) \<in> set (zip rels vecs)" "v \<in> set vs"
  shows "rel \<in> set rels \<and> (\<exists>r \<in> R. link r (col rel) = Some v)"
proof -
  obtain i where "i < length rels" "rels ! i = rel" "vecs ! i = vs"
    using assms(2) by (auto simp: in_set_zip)
  then show ?thesis using assms(1,3) unfolding vec_effect_def by fastforce
qed


lemma seeded_both:
  assumes "seeded t1 r1 v1 p p1" "seeded t2 r2 v2 p1 p2"
  shows "pending_values p \<subseteq> pending_values p2"
    and "pending_values p2 \<subseteq> pending_values p \<union>
      {(t1 rel, v) | rel v vs. (rel, vs) \<in> set (zip r1 v1) \<and> v \<in> set vs} \<union>
      {(t2 rel, v) | rel v vs. (rel, vs) \<in> set (zip r2 v2) \<and> v \<in> set vs}"
    and "seeded t1 r1 v1 p2 p2" "seeded t2 r2 v2 p2 p2"
proof -
  have m: "pending_values p1 \<subseteq> pending_values p2" "pending_values p \<subseteq> pending_values p1"
    using assms by (simp_all add: seeded_def)
  then show "pending_values p \<subseteq> pending_values p2" by blast
  have "pending_values p1 \<subseteq> pending_values p \<union>
      {(t1 rel, v) | rel v vs. (rel, vs) \<in> set (zip r1 v1) \<and> v \<in> set vs}"
    "pending_values p2 \<subseteq> pending_values p1 \<union>
      {(t2 rel, v) | rel v vs. (rel, vs) \<in> set (zip r2 v2) \<and> v \<in> set vs}"
    using assms by (simp_all add: seeded_def)
  then show "pending_values p2 \<subseteq> pending_values p \<union>
      {(t1 rel, v) | rel v vs. (rel, vs) \<in> set (zip r1 v1) \<and> v \<in> set vs} \<union>
      {(t2 rel, v) | rel v vs. (rel, vs) \<in> set (zip r2 v2) \<and> v \<in> set vs}" by blast
  have "\<forall>(rel, vs) \<in> set (zip r1 v1). \<forall>v \<in> set vs.
      \<exists>v'. value_to_compact_key v' = value_to_compact_key v \<and> (t1 rel, v') \<in> pending_values p1"
    using assms(1) by (simp add: seeded_def)
  then show "seeded t1 r1 v1 p2 p2" using m(1) unfolding seeded_def by blast
  show "seeded t2 r2 v2 p2 p2" using assms(2) unfolding seeded_def by blast
qed

text \<open>What is left to look up once the rows \<open>R\<close> of a table have been read.\<close>

definition awaited ::
  "'r bfs_ctx \<Rightarrow> resolved_aggregate \<Rightarrow> string set \<Rightarrow> string \<Rightarrow> bool \<Rightarrow> mysql_row set \<Rightarrow>
     (pending_key \<times> mysql_value) set \<Rightarrow> 'r table_run \<Rightarrow> bool" where
  "awaited ctx agg e t b R P run \<longleftrightarrow>
     (\<forall>r \<in> R. collected from_column (agg_forward ctx agg e t) (tr_fwd run) r \<longrightarrow>
        (\<forall>k v. leads_forward ctx agg e t r k v \<longrightarrow>
           (\<exists>v'. value_to_compact_key v' = value_to_compact_key v \<and> (k, v') \<in> P))) \<and>
     (b \<longrightarrow> (\<forall>r \<in> R. collected to_column (agg_backward ctx agg e t) (tr_bwd run) r \<longrightarrow>
        (\<forall>k v. leads_backward ctx agg e t r k v \<longrightarrow>
           (\<exists>v'. value_to_compact_key v' = value_to_compact_key v \<and> (k, v') \<in> P))))"

lemma awaited_seeded:
  assumes "tc_for ctx agg e t b tc" "run_ok tc run"
    and "seeded forward_key (tc_forward tc) (tr_fwd run) p p"
    and "seeded backward_key (tc_backward tc) (tr_bwd run) p p"
    and "pending_values p \<subseteq> P"
  shows "awaited ctx agg e t b R P run"
proof -
  have tc: "tc_forward tc = agg_forward ctx agg e t" "b \<Longrightarrow> tc_backward tc = agg_backward ctx agg e t"
    using assms(1) by (simp_all add: tc_for_def)
  show ?thesis
    unfolding awaited_def
  proof (intro conjI ballI impI allI)
    fix r k v
    assume "collected from_column (agg_forward ctx agg e t) (tr_fwd run) r" "leads_forward ctx agg e t r k v"
    then show "\<exists>v'. value_to_compact_key v' = value_to_compact_key v \<and> (k, v') \<in> P"
      using zip_collected [OF assms(3)] assms(2,5) tc(1) unfolding leads_forward_def run_ok_def
      by (metis subsetD)
  next
    fix r k v
    assume "b" "collected to_column (agg_backward ctx agg e t) (tr_bwd run) r" "leads_backward ctx agg e t r k v"
    then show "\<exists>v'. value_to_compact_key v' = value_to_compact_key v \<and> (k, v') \<in> P"
      using zip_collected [OF assms(4)] assms(2,5) tc(2) unfolding leads_backward_def run_ok_def
      by (metis subsetD)
  qed
qed

lemma covered_awaited:
  assumes "awaited ctx agg e t b R P run" "r \<in> R"
  shows "collected from_column (agg_forward ctx agg e t) (tr_fwd run) r \<Longrightarrow>
      leads_forward ctx agg e t r k v \<Longrightarrow> covered ctx agg e D M P s k v"
    and "b \<Longrightarrow> collected to_column (agg_backward ctx agg e t) (tr_bwd run) r \<Longrightarrow>
      leads_backward ctx agg e t r k v \<Longrightarrow> covered ctx agg e D M P s k v"
  using assms unfolding awaited_def covered_def by (auto split: prod.splits)

lemma bfs_invD:
  assumes "bfs_inv ctx agg e D M s0 P s"
  shows "(k, v) \<in> P \<Longrightarrow> \<exists>t r b. required ctx agg e D M t r b \<and> leads ctx agg e t r b k v"
    and "bs_visited s0 t \<subseteq> bs_visited s t"
    and "bs_visited s t \<subseteq> bs_visited s0 t \<union> {row_key ctx t r | r b. required ctx agg e D M t r b}"
    and "h \<in> bs_expanded_fwd s t \<Longrightarrow> \<exists>r b. required ctx agg e D M t r b \<and> row_key ctx t r = h \<and>
      (\<forall>k v. leads_forward ctx agg e t r k v \<longrightarrow> covered ctx agg e D M P s k v)"
    and "h \<in> bs_expanded_bwd s t \<Longrightarrow> \<exists>r. required ctx agg e D M t r True \<and> row_key ctx t r = h \<and>
      (\<forall>k v. leads_backward ctx agg e t r k v \<longrightarrow> covered ctx agg e D M P s k v)"
    and "bs_touched s0 \<subseteq> bs_touched s"
    and "t \<in> bs_touched s \<Longrightarrow> t \<in> bs_touched s0 \<or>
      (\<exists>t0 r b c b' v. required ctx agg e D M t0 r b \<and> leads ctx agg e t0 r b (t, c, b') v \<and>
         t \<notin> full_tables (bc_plan ctx))"
  using assms unfolding bfs_inv_def Let_def by (blast, blast, blast, blast, blast, blast, blast)

text \<open>The rows of one table keep the invariant.\<close>

lemma bfs_inv_rows:
  assumes kd: "keys_determine ctx D M"
    and inv: "bfs_inv ctx agg e D M s0 P s"
    and tc: "tc_for ctx agg e t b tc"
    and eff: "rows_effect tc R run s run' s'"
    and req: "\<And>r. r \<in> R \<Longrightarrow> required ctx agg e D M t r b"
    and new: "\<And>k v. (k, v) \<in> P' \<Longrightarrow> (k, v) \<in> P \<or> (\<exists>r \<in> R. leads ctx agg e t r b k v)"
    and old: "\<And>k v. (k, v) \<in> P \<Longrightarrow> (k, v) \<notin> P' \<Longrightarrow> covered ctx agg e D M P' s' k v"
    and aw: "awaited ctx agg e t b R P' run'"
  shows "bfs_inv ctx agg e D M s0 P' s'"
proof -
  let ?req = "required ctx agg e D M" and ?K = "row_key ctx t ` R"
  have key: "tc_key tc = row_key ctx t" and tt: "tc_table tc = t"
    using tc by (simp_all add: tc_for_def tc_key_def row_key_def fun_eq_iff)
  have cov: "covered ctx agg e D M P' s' k v" if "covered ctx agg e D M P s k v" for k v
    by (rule covered_step [OF that rows_effect_le [OF eff] kd old])
  have "\<exists>t r b. ?req t r b \<and> leads ctx agg e t r b k v" if "(k, v) \<in> P'" for k v
    using new [OF that] bfs_invD(1) [OF inv] req by blast
  moreover have "bs_visited s0 u \<subseteq> bs_visited s' u \<and>
      bs_visited s' u \<subseteq> bs_visited s0 u \<union> {row_key ctx u r | r b. ?req u r b}" for u
  proof -
    have "bs_visited s' u = bs_visited s u \<union> (if u = t then ?K else {})"
      using eff by (simp add: rows_effect_def Let_def key tt)
    moreover note bfs_invD(2,3) [OF inv, of u]
    moreover have "(if u = t then ?K else {}) \<subseteq> {row_key ctx u r | r b. ?req u r b}"
      using req by auto
    ultimately show ?thesis by blast
  qed
  moreover have "\<exists>r b. ?req u r b \<and> row_key ctx u r = k \<and>
      (\<forall>k' v. leads_forward ctx agg e u r k' v \<longrightarrow> covered ctx agg e D M P' s' k' v)"
    if "k \<in> bs_expanded_fwd s' u" for u k
  proof (cases "k \<in> bs_expanded_fwd s u")
    case True
    then show ?thesis using bfs_invD(4) [OF inv True] cov by blast
  next
    case False
    then have u: "u = t" "k \<in> ?K" "tc_forward tc \<noteq> []"
      using that eff by (auto simp: rows_effect_def Let_def key tt expansion_def split: if_splits)
    then obtain r1 where "r1 \<in> R" "k = row_key ctx t r1" by blast
    moreover have "vec_effect (row_key ctx t) from_column (tc_forward tc) R (bs_expanded_fwd s t) (tr_fwd run) (tr_fwd run')"
      using eff by (simp add: rows_effect_def Let_def key tt)
    ultimately obtain r0 where "r0 \<in> R" "row_key ctx t r0 = k" "collected from_column (tc_forward tc) (tr_fwd run') r0"
      using u False unfolding vec_effect_def by metis
    then show ?thesis
      using covered_awaited(1) [OF aw] req u(1) tc unfolding tc_for_def by metis
  qed
  moreover have "\<exists>r. ?req u r True \<and> row_key ctx u r = k \<and>
      (\<forall>k' v. leads_backward ctx agg e u r k' v \<longrightarrow> covered ctx agg e D M P' s' k' v)"
    if "k \<in> bs_expanded_bwd s' u" for u k
  proof (cases "k \<in> bs_expanded_bwd s u")
    case True
    then show ?thesis using bfs_invD(5) [OF inv True] cov by blast
  next
    case False
    then have u: "u = t" "k \<in> ?K" "tc_backward tc \<noteq> []"
      using that eff by (auto simp: rows_effect_def Let_def key tt expansion_def split: if_splits)
    then have b: "b" "tc_backward tc = agg_backward ctx agg e t" using tc by (auto simp: tc_for_def split: if_splits)
    obtain r1 where "r1 \<in> R" "k = row_key ctx t r1" using u(2) by blast
    moreover have "vec_effect (row_key ctx t) to_column (tc_backward tc) R (bs_expanded_bwd s t) (tr_bwd run) (tr_bwd run')"
      using eff by (simp add: rows_effect_def Let_def key tt)
    ultimately obtain r0 where "r0 \<in> R" "row_key ctx t r0 = k" "collected to_column (tc_backward tc) (tr_bwd run') r0"
      using u False unfolding vec_effect_def by metis
    then show ?thesis
      using covered_awaited(2) [OF aw] req u(1) b by metis
  qed
  moreover have "bs_touched s' = bs_touched s" using eff by (simp add: rows_effect_def Let_def)
  then have "bs_touched s0 \<subseteq> bs_touched s'" "\<forall>t \<in> bs_touched s'. t \<in> bs_touched s0 \<or>
         (\<exists>t0 r b c b' v. ?req t0 r b \<and> leads ctx agg e t0 r b (t, c, b') v \<and> t \<notin> full_tables (bc_plan ctx))"
    using bfs_invD(6,7) [OF inv] by simp_all
  ultimately show ?thesis unfolding bfs_inv_def Let_def by blast
qed


section \<open>Roots, lookups and levels keep the invariant\<close>

lemma finish_rows_data: "finish_rows ctx tc run s = (Inr u, s') \<Longrightarrow> same_data s s'"
  by (auto simp: finish_rows_def srv_rules same_data_def)

lemma table_context_for:
  assumes "table_context ctx t i (agg_forward ctx agg e t) (if b then agg_backward ctx agg e t else []) = Inr tc"
  shows "tc_for ctx agg e t b tc"
  using assms by (auto simp: table_context_def Let_def rbind_Inr_iff tc_for_def table_pk_def)

lemma new_run_ok: "run_ok tc (new_run ctx tc rng)"
  by (simp add: new_run_def run_ok_def Let_def)

lemma new_run_vecs:
  "tr_fwd (new_run ctx tc rng) = replicate (length (tc_forward tc)) []"
  "tr_bwd (new_run ctx tc rng) = replicate (length (tc_backward tc)) []"
  by (simp_all add: new_run_def Let_def)

text \<open>The values seeded from the rows of a table are values these rows lead to.\<close>

lemma seeded_leads:
  assumes "tc_for ctx agg e t b tc" "rows_effect tc R (new_run ctx tc rng) s run s'"
  shows "(rel, vs) \<in> set (zip (tc_forward tc) (tr_fwd run)) \<Longrightarrow> v \<in> set vs \<Longrightarrow>
      \<exists>r \<in> R. leads ctx agg e t r b (forward_key rel) v"
    and "(rel, vs) \<in> set (zip (tc_backward tc) (tr_bwd run)) \<Longrightarrow> v \<in> set vs \<Longrightarrow>
      \<exists>r \<in> R. leads ctx agg e t r b (backward_key rel) v"
proof -
  have f: "vec_effect (tc_key tc) from_column (tc_forward tc) R (bs_expanded_fwd s (tc_table tc))
      (replicate (length (tc_forward tc)) []) (tr_fwd run)"
    and w: "vec_effect (tc_key tc) to_column (tc_backward tc) R (bs_expanded_bwd s (tc_table tc))
      (replicate (length (tc_backward tc)) []) (tr_bwd run)"
    using assms(2) by (simp_all add: rows_effect_def Let_def new_run_vecs)
  have tc: "tc_forward tc = agg_forward ctx agg e t" "tc_backward tc = (if b then agg_backward ctx agg e t else [])"
    using assms(1) by (simp_all add: tc_for_def)
  show "\<exists>r \<in> R. leads ctx agg e t r b (forward_key rel) v"
    if "(rel, vs) \<in> set (zip (tc_forward tc) (tr_fwd run))" "v \<in> set vs"
    using zip_sound [OF f that] tc(1) unfolding leads_def leads_forward_def by metis
  show "\<exists>r \<in> R. leads ctx agg e t r b (backward_key rel) v"
    if "(rel, vs) \<in> set (zip (tc_backward tc) (tr_bwd run))" "v \<in> set vs"
    using zip_sound [OF w that] tc(2) unfolding leads_def leads_backward_def
    by (metis empty_iff list.set(1))
qed

lemma settled_pending [simp]:
  "settled ctx agg e (s\<lparr>bs_pending := p\<rparr>) t r b = settled ctx agg e s t r b"
  by (simp add: settled_def)

lemma covered_pending [simp]:
  "covered ctx agg e D M P (s\<lparr>bs_pending := p\<rparr>) = covered ctx agg e D M P s"
  by (simp add: covered_def fun_eq_iff)

lemma bfs_inv_pending [simp]:
  "bfs_inv ctx agg e D M s0 P (s\<lparr>bs_pending := p\<rparr>) = bfs_inv ctx agg e D M s0 P s"
  by (simp add: bfs_inv_def)

lemma bfs_inv_data: "same_data s s' \<Longrightarrow> bfs_inv ctx agg e D M s0 P s' = bfs_inv ctx agg e D M s0 P s"
  by (simp add: bfs_inv_def covered_def settled_def same_data_def)

lemma settled_data: "same_data s s' \<Longrightarrow> settled ctx agg e s' t r b = settled ctx agg e s t r b"
  by (simp add: settled_def same_data_def)

lemma seeded_orders:
  assumes "seeded backward_key (tc_backward tc) (tr_bwd run) p p1 \<and> seeded forward_key (tc_forward tc) (tr_fwd run) p1 p2 \<or>
    seeded forward_key (tc_forward tc) (tr_fwd run) p p1 \<and> seeded backward_key (tc_backward tc) (tr_bwd run) p1 p2"
  shows "pending_values p \<subseteq> pending_values p2"
    and "pending_values p2 \<subseteq> pending_values p \<union>
      {(forward_key rel, v) | rel v vs. (rel, vs) \<in> set (zip (tc_forward tc) (tr_fwd run)) \<and> v \<in> set vs} \<union>
      {(backward_key rel, v) | rel v vs. (rel, vs) \<in> set (zip (tc_backward tc) (tr_bwd run)) \<and> v \<in> set vs}"
    and "seeded forward_key (tc_forward tc) (tr_fwd run) p2 p2"
    and "seeded backward_key (tc_backward tc) (tr_bwd run) p2 p2"
proof -
  have "pending_values p \<subseteq> pending_values p2 \<and>
    pending_values p2 \<subseteq> pending_values p \<union>
      {(forward_key rel, v) | rel v vs. (rel, vs) \<in> set (zip (tc_forward tc) (tr_fwd run)) \<and> v \<in> set vs} \<union>
      {(backward_key rel, v) | rel v vs. (rel, vs) \<in> set (zip (tc_backward tc) (tr_bwd run)) \<and> v \<in> set vs} \<and>
    seeded forward_key (tc_forward tc) (tr_fwd run) p2 p2 \<and>
    seeded backward_key (tc_backward tc) (tr_bwd run) p2 p2"
    using assms
  proof
    assume a: "seeded backward_key (tc_backward tc) (tr_bwd run) p p1 \<and> seeded forward_key (tc_forward tc) (tr_fwd run) p1 p2"
    show ?thesis using seeded_both [OF conjunct1 [OF a] conjunct2 [OF a]] by blast
  next
    assume a: "seeded forward_key (tc_forward tc) (tr_fwd run) p p1 \<and> seeded backward_key (tc_backward tc) (tr_bwd run) p1 p2"
    show ?thesis using seeded_both [OF conjunct1 [OF a] conjunct2 [OF a]] by blast
  qed
  then show "pending_values p \<subseteq> pending_values p2"
    and "pending_values p2 \<subseteq> pending_values p \<union>
      {(forward_key rel, v) | rel v vs. (rel, vs) \<in> set (zip (tc_forward tc) (tr_fwd run)) \<and> v \<in> set vs} \<union>
      {(backward_key rel, v) | rel v vs. (rel, vs) \<in> set (zip (tc_backward tc) (tr_bwd run)) \<and> v \<in> set vs}"
    and "seeded forward_key (tc_forward tc) (tr_fwd run) p2 p2"
    and "seeded backward_key (tc_backward tc) (tr_bwd run) p2 p2"
    by blast+
qed

text \<open>One table read from its start to the values it adds to the pending ones.\<close>

lemma table_step:
  assumes kd: "keys_determine ctx D M"
    and inv: "bfs_inv ctx agg e D M s0 (P \<union> Q \<union> pending_values (bs_pending s)) s"
    and tc: "tc_for ctx agg e t b tc"
    and eff: "rows_effect tc R (new_run ctx tc rng) s run s1" "same_data s1 s2"
    and req: "\<And>r. r \<in> R \<Longrightarrow> required ctx agg e D M t r b"
    and seed: "seeded backward_key (tc_backward tc) (tr_bwd run) (bs_pending s2) p1 \<and>
        seeded forward_key (tc_forward tc) (tr_fwd run) p1 p2 \<or>
      seeded forward_key (tc_forward tc) (tr_fwd run) (bs_pending s2) p1 \<and>
        seeded backward_key (tc_backward tc) (tr_bwd run) p1 p2"
    and old: "\<And>k v. (k, v) \<in> Q \<Longrightarrow> covered ctx agg e D M (P \<union> pending_values p2) s2 k v"
  shows "bfs_inv ctx agg e D M s0 (P \<union> pending_values p2) (s2\<lparr>bs_pending := p2\<rparr>)"
    and "\<And>r. r \<in> R \<Longrightarrow> settled ctx agg e (s2\<lparr>bs_pending := p2\<rparr>) t r b"
proof -
  have eff2: "rows_effect tc R (new_run ctx tc rng) s run s2"
    by (rule rows_effect_data [OF eff refl refl])
  have p: "bs_pending s2 = bs_pending s" using eff2 by (simp add: rows_effect_def Let_def)
  note so = seeded_orders [OF seed]
  have "bfs_inv ctx agg e D M s0 (P \<union> pending_values p2) s2"
  proof (rule bfs_inv_rows [OF kd inv tc eff2 req])
    show "(k, v) \<in> P \<union> Q \<union> pending_values (bs_pending s) \<or> (\<exists>r \<in> R. leads ctx agg e t r b k v)"
      if kv: "(k, v) \<in> P \<union> pending_values p2" for k v
    proof -
      consider "(k, v) \<in> P \<union> pending_values (bs_pending s)"
        | rel vs where "k = forward_key rel" "(rel, vs) \<in> set (zip (tc_forward tc) (tr_fwd run))" "v \<in> set vs"
        | rel vs where "k = backward_key rel" "(rel, vs) \<in> set (zip (tc_backward tc) (tr_bwd run))" "v \<in> set vs"
        using kv subsetD [OF so(2), of "(k, v)"] p by auto
      then show ?thesis by cases (use seeded_leads [OF tc eff2] in blast)+
    qed
    show "covered ctx agg e D M (P \<union> pending_values p2) s2 k v"
      if "(k, v) \<in> P \<union> Q \<union> pending_values (bs_pending s)" "(k, v) \<notin> P \<union> pending_values p2" for k v
      using that so(1) old [of k v] unfolding p by blast
    show "awaited ctx agg e t b R (P \<union> pending_values p2) run"
      by (rule awaited_seeded [OF tc rows_effect_run_ok [OF eff2] so(3,4)]) blast
  qed
  then show "bfs_inv ctx agg e D M s0 (P \<union> pending_values p2) (s2\<lparr>bs_pending := p2\<rparr>)" by simp
  show "\<And>r. r \<in> R \<Longrightarrow> settled ctx agg e (s2\<lparr>bs_pending := p2\<rparr>) t r b"
    using rows_settled [OF tc eff2] by simp
qed


lemma aggregate_root_inv:
  assumes kd: "keys_determine ctx D M"
    and ok: "aggregate_root ctx agg e i s = (Inr u, s')"
    and s: "bs_pending s = []" "bs_expanded_fwd s = (\<lambda>_. {})" "bs_expanded_bwd s = (\<lambda>_. {})"
  shows "bfs_inv ctx agg e D M s (pending_values (bs_pending s')) s' \<and>
    (\<forall>r \<in> root_rows ctx agg. settled ctx agg e s' (ra_root_table agg) r True)"
proof -
  let ?t = "ra_root_table agg"
  let ?fwd = "agg_forward ctx agg e ?t" and ?bwd = "agg_backward ctx agg e ?t"
  obtain tc rows run s1 s2 where tc: "table_context ctx ?t i ?fwd ?bwd = Inr tc"
    and q: "db_query (bc_db ctx) (build_root_query agg) = Inr rows"
    and rows: "each_row (root_row ctx tc) rows (new_run ctx tc (bs_rng s)) s = (Inr run, s1)"
    and fin: "finish_rows ctx tc run s1 = (Inr (), s2)"
    and s': "s' = s2\<lparr>bs_pending := seed_pending forward_key ?fwd (tr_fwd run)
          (seed_pending backward_key ?bwd (tr_bwd run) (bs_pending s2))\<rparr>"
    using ok unfolding aggregate_root_def Let_def agg_forward_def [symmetric] agg_backward_def [symmetric]
    by (auto simp: srv_rules)
  obtain rs where rs: "rows = map Inr rs" "rows_effect tc (set rs) (new_run ctx tc (bs_rng s)) s run s1"
    using each_row_data [of "root_row ctx tc", OF _ rows new_run_ok] root_row_data by blast
  have R: "set rs = root_rows ctx agg" using q rs(1) by (auto simp: root_rows_def)
  have tcf: "tc_for ctx agg e ?t True tc" by (rule table_context_for) (use tc in simp)
  then have fb: "?fwd = tc_forward tc" "?bwd = tc_backward tc" by (simp_all add: tc_for_def)
  have inv: "bfs_inv ctx agg e D M s ({} \<union> {} \<union> pending_values (bs_pending s)) s"
    unfolding bfs_inv_def Let_def by (simp add: s)
  have req: "required ctx agg e D M ?t r True" if "r \<in> set rs" for r
    using that unfolding R by (rule required_root)
  show ?thesis
    using table_step [OF kd inv tcf rs(2) finish_rows_data [OF fin] req
        disjI1 [OF conjI [OF seed_pending_seeded seed_pending_seeded]]]
    by (simp add: s' fb R)
qed

lemma level_table_inv:
  assumes kd: "keys_determine ctx D M" and ans: "answers ctx D M"
    and ok: "level_table ctx e k vs i s = (Inr u, s')"
    and inv: "bfs_inv ctx agg e D M s0 (P \<union> Pair k ` set vs \<union> pending_values (bs_pending s)) s"
    and fol: "followed ctx e (fst k)" and nr: "\<not> ra_root_only agg"
  shows "bfs_inv ctx agg e D M s0 (P \<union> pending_values (bs_pending s')) s' \<and> data_le s s'"
proof -
  obtain t c b where k: "k = (t, c, b)" by (cases k)
  let ?fwd = "agg_forward ctx agg e t" and ?bwd = "if b then agg_backward ctx agg e t else []"
  let ?u = "dedupe_values vs"
  have fb0: "get_forward_relations t (relations (bc_plan ctx)) (dom (bc_ids ctx)) e = ?fwd"
    "(if b then get_backward_relations t (relations (bc_plan ctx)) (dom (bc_ids ctx)) e else []) = ?bwd"
    using nr by (simp_all add: agg_forward_def agg_backward_def)
  obtain tc run s1 s2 where tc: "table_context ctx t i ?fwd ?bwd = Inr tc"
    and rows: "each_batch ctx tc c (batches (length ?u) MAX_IN_VALUES ?u) (new_run ctx tc (bs_rng s)) (default_count t s) = (Inr run, s1)"
    and fin: "finish_rows ctx tc run s1 = (Inr (), s2)"
    and s': "s' = s2\<lparr>bs_pending := seed_pending backward_key ?bwd (tr_bwd run)
          (seed_pending forward_key ?fwd (tr_fwd run) (bs_pending s2))\<rparr>"
    using ok unfolding level_table_def k prod.case Let_def fb0 by (auto simp: srv_rules)
  let ?R = "{r \<in> D t. \<exists>v \<in> set ?u. M t c v r}"
  have d: "same_data s (default_count t s)" by (simp add: same_data_def default_count_def)
  have tcf: "tc_for ctx agg e t b tc" by (rule table_context_for [OF tc])
  then have fb: "?fwd = tc_forward tc" "?bwd = tc_backward tc" and tt: "tc_table tc = t"
    by (simp_all add: tc_for_def)
  have eff: "rows_effect tc ?R (new_run ctx tc (bs_rng s)) s run s1"
    using rows_effect_before [OF d each_batch_data [OF ans rows new_run_ok]]
    by (simp add: tt concat_batches MAX_IN_VALUES_def)
  have "\<exists>t0 r0 b0. required ctx agg e D M t0 r0 b0 \<and> leads ctx agg e t0 r0 b0 k v" if "v \<in> set vs" for v
    by (rule bfs_invD(1) [OF inv]) (use that in blast)
  then have req: "required ctx agg e D M t r b" if "r \<in> ?R" for r
    using that fol dedupe_parts(2) [of vs] k required_step [of ctx agg e D M] by fastforce
  have old: "covered ctx agg e D M P' s2 k' v" if "(k', v) \<in> Pair k ` set vs" for k' v P'
  proof -
    have "settled ctx agg e s2 t r b" if r: "r \<in> D t" "M t c v r" for r
    proof -
      have "v \<in> set vs" using \<open>(k', v) \<in> Pair k ` set vs\<close> by auto
      then obtain v' where "v' \<in> set ?u" "value_to_compact_key v = value_to_compact_key v'"
        using dedupe_parts(1) [of vs] by (metis imageE imageI)
      then have "r \<in> ?R" using r kd unfolding keys_determine_def by blast
      then show ?thesis
        using rows_settled [OF tcf eff] settled_data [OF finish_rows_data [OF fin]] by blast
    qed
    then show ?thesis using that by (auto simp: covered_def k)
  qed
  have le: "data_le s s'"
    using rows_effect_le [OF eff] finish_rows_data [OF fin] by (simp add: s' data_le_def same_data_def)
  have "bfs_inv ctx agg e D M s0 (P \<union> pending_values (bs_pending s')) s'"
    unfolding s' fb
    using table_step(1) [OF kd inv tcf eff finish_rows_data [OF fin] req
        disjI2 [OF conjI [OF seed_pending_seeded seed_pending_seeded]] old] by simp
  then show ?thesis using le by blast
qed


lemma bfs_inv_drop:
  assumes kd: "keys_determine ctx D M" and inv: "bfs_inv ctx agg e D M s0 P s" and sub: "P' \<subseteq> P"
    and old: "\<And>k v. (k, v) \<in> P \<Longrightarrow> (k, v) \<notin> P' \<Longrightarrow> covered ctx agg e D M P' s k v"
  shows "bfs_inv ctx agg e D M s0 P' s"
proof -
  have le: "data_le s s" by (simp add: data_le_def)
  have cov: "covered ctx agg e D M P' s k v" if "covered ctx agg e D M P s k v" for k v
    by (rule covered_step [OF that le kd old])
  note d = bfs_invD [OF inv]
  have "\<exists>r b. required ctx agg e D M t r b \<and> row_key ctx t r = h \<and>
      (\<forall>k v. leads_forward ctx agg e t r k v \<longrightarrow> covered ctx agg e D M P' s k v)"
    if "h \<in> bs_expanded_fwd s t" for h t using d(4) [OF that] cov by blast
  moreover have "\<exists>r. required ctx agg e D M t r True \<and> row_key ctx t r = h \<and>
      (\<forall>k v. leads_backward ctx agg e t r k v \<longrightarrow> covered ctx agg e D M P' s k v)"
    if "h \<in> bs_expanded_bwd s t" for h t using d(5) [OF that] cov by blast
  moreover have "\<exists>t r b. required ctx agg e D M t r b \<and> leads ctx agg e t r b k v" if "(k, v) \<in> P'" for k v
    using that sub by (intro d(1)) blast
  moreover have "bs_visited s0 t \<subseteq> bs_visited s t \<and>
      bs_visited s t \<subseteq> bs_visited s0 t \<union> {row_key ctx t r | r b. required ctx agg e D M t r b}" for t
    using d(2,3) [of t] by simp
  moreover have "\<forall>t \<in> bs_touched s. t \<in> bs_touched s0 \<or>
      (\<exists>t0 r b c b' v. required ctx agg e D M t0 r b \<and> leads ctx agg e t0 r b (t, c, b') v \<and>
         t \<notin> full_tables (bc_plan ctx))" using d(7) by simp
  ultimately show ?thesis unfolding bfs_inv_def Let_def using d(6) by blast
qed

lemma bfs_inv_touch:
  assumes inv: "bfs_inv ctx agg e D M s0 P s" and v: "((t, c, b), v) \<in> P" and t: "t \<notin> full_tables (bc_plan ctx)"
  shows "bfs_inv ctx agg e D M s0 P (s\<lparr>bs_touched := insert t (bs_touched s)\<rparr>)"
proof -
  have "covered ctx agg e D M P (s\<lparr>bs_touched := insert t (bs_touched s)\<rparr>) = covered ctx agg e D M P s"
    by (simp add: covered_def settled_def fun_eq_iff)
  moreover have "\<exists>t0 r b0 c b' v. required ctx agg e D M t0 r b0 \<and> leads ctx agg e t0 r b0 (t, c, b') v"
    using bfs_invD(1) [OF inv v] by blast
  ultimately show ?thesis using inv t unfolding bfs_inv_def Let_def by (simp add: subset_insertI2)
qed

definition no_empty :: "pending \<Rightarrow> bool" where "no_empty p \<longleftrightarrow> (\<forall>(k, vs) \<in> set p. vs \<noteq> [])"

lemma add_pending_no_empty: "no_empty p \<Longrightarrow> vs \<noteq> [] \<Longrightarrow> no_empty (add_pending k vs p)"
proof (induction p)
  case (Cons e p)
  then show ?case by (cases e) (auto simp: add_pending_def no_empty_def)
qed (simp add: add_pending_def no_empty_def)

lemma seed_pending_no_empty: "no_empty p \<Longrightarrow> no_empty (seed_pending target rels vecs p)"
proof (induction rels arbitrary: vecs p)
  case (Cons rel rels)
  then show ?case
    by (cases vecs) (simp_all add: seed_pending_step add_pending_no_empty, simp add: seed_pending_def)
qed (simp add: seed_pending_def)

lemma level_table_pending:
  assumes "level_table ctx e k vs i s = (Inr u, s')" "no_empty (bs_pending s)" "answers ctx D M"
  shows "no_empty (bs_pending s')"
proof -
  obtain t c b where k: "k = (t, c, b)" by (cases k)
  obtain tc run s1 s2 fwd bwd u where
    rows: "each_batch ctx tc c u (new_run ctx tc (bs_rng s)) (default_count t s) = (Inr run, s1)"
    and fin: "finish_rows ctx tc run s1 = (Inr (), s2)"
    and s': "s' = s2\<lparr>bs_pending := seed_pending backward_key bwd (tr_bwd run)
          (seed_pending forward_key fwd (tr_fwd run) (bs_pending s2))\<rparr>"
    using assms(1) unfolding level_table_def Let_def k by (auto simp: srv_rules)
  have "bs_pending s2 = bs_pending s"
    using each_batch_data [OF assms(3) rows new_run_ok] finish_rows_data [OF fin]
    by (simp add: rows_effect_def Let_def same_data_def default_count_def)
  then show ?thesis using assms(2) by (simp add: s' seed_pending_no_empty)
qed

lemma level_entry_inv:
  assumes kd: "keys_determine ctx D M" and ans: "answers ctx D M"
    and ok: "level_entry ctx e (k, vs) s = (Inr u, s')"
    and inv: "bfs_inv ctx agg e D M s0 (P \<union> Pair k ` set vs \<union> pending_values (bs_pending s)) s"
    and nr: "\<not> ra_root_only agg" and vs: "vs \<noteq> []" and ne: "no_empty (bs_pending s)"
  shows "bfs_inv ctx agg e D M s0 (P \<union> pending_values (bs_pending s')) s' \<and> data_le s s' \<and>
    no_empty (bs_pending s')"
proof -
  obtain t c b where k: "k = (t, c, b)" by (cases k)
  have skip: "bfs_inv ctx agg e D M s0 (P \<union> pending_values (bs_pending s1)) s1"
    if "\<not> followed ctx e t" "bfs_inv ctx agg e D M s0 (P \<union> Pair k ` set vs \<union> pending_values (bs_pending s1)) s1" for s1
    by (rule bfs_inv_drop [OF kd that(2)]) (use that(1) in \<open>auto simp: covered_def k\<close>)
  show ?thesis
  proof (cases "t \<in> full_tables (bc_plan ctx) \<or> t \<in> e \<or> bc_ids ctx t = None")
    case True
    then have "s' = s" "\<not> followed ctx e t"
      using ok by (auto simp: level_entry_def k srv_rules followed_def split: if_splits option.splits)
    then show ?thesis using skip inv ne by (simp add: data_le_def)
  next
    case False
    then obtain i where i: "bc_ids ctx t = Some i" "t \<notin> full_tables (bc_plan ctx)" "t \<notin> e" by auto
    let ?s = "s\<lparr>bs_touched := insert t (bs_touched s)\<rparr>"
    obtain v where "v \<in> set vs" using vs by (cases vs) auto
    then have "((t, c, b), v) \<in> P \<union> Pair k ` set vs \<union> pending_values (bs_pending s)" by (simp add: k)
    from bfs_inv_touch [OF inv this i(2)]
    have inv1: "bfs_inv ctx agg e D M s0 (P \<union> Pair k ` set vs \<union> pending_values (bs_pending ?s)) ?s" by simp
    show ?thesis
    proof (cases "t \<in> excluded_tables (bc_plan ctx)")
      case True
      then have "s' = ?s" "\<not> followed ctx e t"
        using ok i by (auto simp: level_entry_def k srv_rules followed_def)
      then show ?thesis using skip [OF _ inv1] ne by (simp add: data_le_def)
    next
      case False
      then have "level_table ctx e k vs i ?s = (Inr u, s')"
        using ok i by (auto simp: level_entry_def k srv_rules)
      moreover have "followed ctx e (fst k)" using i False by (auto simp: followed_def k)
      ultimately show ?thesis
        using level_table_inv [OF kd ans _ inv1 _ nr] level_table_pending [OF _ _ ans] ne
        by (auto simp: data_le_def)
    qed
  qed
qed

lemma each_entry_inv:
  assumes kd: "keys_determine ctx D M" and ans: "answers ctx D M" and nr: "\<not> ra_root_only agg"
  shows "each_entry ctx e es s = (Inr u, s') \<Longrightarrow> no_empty es \<Longrightarrow> no_empty (bs_pending s) \<Longrightarrow>
    bfs_inv ctx agg e D M s0 (pending_values es \<union> pending_values (bs_pending s)) s \<Longrightarrow>
    bfs_inv ctx agg e D M s0 (pending_values (bs_pending s')) s' \<and> data_le s s' \<and> no_empty (bs_pending s')"
proof (induction es arbitrary: s)
  case Nil
  then show ?case by (simp add: srv_rules data_le_def)
next
  case (Cons en es)
  obtain k vs where en: "en = (k, vs)" by (cases en)
  obtain s1 where l: "level_entry ctx e (k, vs) s = (Inr (), s1)" "each_entry ctx e es s1 = (Inr u, s')"
    using Cons.prems(1) by (auto simp: en srv_rules)
  have ne: "vs \<noteq> []" "no_empty es" using Cons.prems(2) by (auto simp: no_empty_def en)
  have "bfs_inv ctx agg e D M s0 (pending_values es \<union> Pair k ` set vs \<union> pending_values (bs_pending s)) s"
    using Cons.prems(4) by (simp add: en ac_simps)
  from level_entry_inv [OF kd ans l(1) this nr ne(1) Cons.prems(3)]
  have "bfs_inv ctx agg e D M s0 (pending_values es \<union> pending_values (bs_pending s1)) s1"
    "data_le s s1" "no_empty (bs_pending s1)" by blast+
  with Cons.IH [OF l(2) ne(2)] show ?case unfolding data_le_def by (meson order_trans)
qed

text \<open>Draining the map of pending lookups gives its entries in some order.\<close>

definition drains :: "'r bfs_ctx \<Rightarrow> bool" where
  "drains ctx \<longleftrightarrow> (\<forall>p. mset (bc_drain ctx p) = mset p)"

lemma drain_set: "drains ctx \<Longrightarrow> set (bc_drain ctx p) = set p"
  unfolding drains_def by (metis set_mset_mset)

lemma bfs_loop_inv:
  assumes kd: "keys_determine ctx D M" and ans: "answers ctx D M" and nr: "\<not> ra_root_only agg"
    and dr: "drains ctx"
  shows "bfs_loop fuel ctx e s = (Inr True, s') \<Longrightarrow> no_empty (bs_pending s) \<Longrightarrow>
    bfs_inv ctx agg e D M s0 (pending_values (bs_pending s)) s \<Longrightarrow>
    bfs_inv ctx agg e D M s0 {} s' \<and> data_le s s'"
proof (induction fuel arbitrary: s)
  case 0
  then show ?case by (auto simp: bfs_loop.simps srv_rules data_le_def split: if_splits)
next
  case (Suc n)
  show ?case
  proof (cases "bs_pending s = []")
    case True
    then show ?thesis using Suc.prems by (auto simp: bfs_loop.simps srv_rules data_le_def)
  next
    case False
    let ?p = "bc_drain ctx (bs_pending s)" and ?s = "s\<lparr>bs_pending := []\<rparr>"
    obtain s1 where e: "each_entry ctx e ?p ?s = (Inr (), s1)" "bfs_loop n ctx e s1 = (Inr True, s')"
      using Suc.prems(1) False by (auto simp: bfs_loop.simps [of "Suc n"] srv_rules)
    have set: "set ?p = set (bs_pending s)" by (rule drain_set [OF dr])
    have "bfs_inv ctx agg e D M s0 (pending_values ?p \<union> pending_values (bs_pending ?s)) ?s"
      using Suc.prems(3) by (simp add: pending_values_def set)
    from each_entry_inv [OF kd ans nr e(1) _ _ this] Suc.prems(2) set
    have "bfs_inv ctx agg e D M s0 (pending_values (bs_pending s1)) s1" "data_le ?s s1" "no_empty (bs_pending s1)"
      by (auto simp: no_empty_def)
    with Suc.IH [OF e(2)] show ?thesis unfolding data_le_def by (simp, meson order_trans)
  qed
qed

end
