(* ===== verification/Tally.thy ===== *)
theory Tally
  imports Traversal
begin

text \<open>
  The bookkeeping of the traversal: the rows in the chunks sent for a table, together with the
  rows in its open chunk, are as many as the keys visited in it, and the row counts the traversal
  reports at the end are these numbers.
\<close>

section \<open>The rows in the chunks on the channel\<close>

definition chunk_header :: "bytes \<Rightarrow> u16 \<times> u16" where
  "chunk_header f = (u16_from_le (take 2 (drop 4 f)), u16_from_le (take 2 (drop 6 f)))"

fun message_rows :: "u16 \<Rightarrow> channel_message \<Rightarrow> nat" where
  "message_rows i (EncodedChunk f) = (case chunk_header f of (tid, n) \<Rightarrow> if tid = i then unat n else 0)"
| "message_rows i (Control m) = 0"

definition rows_sent :: "u16 \<Rightarrow> channel_message list \<Rightarrow> nat" where
  "rows_sent i ms = sum_list (map (message_rows i) ms)"

lemma rows_sent_simps [simp]:
  "rows_sent i [] = 0" "rows_sent i (m # ms) = message_rows i m + rows_sent i ms"
  "rows_sent i (ms @ ms') = rows_sent i ms + rows_sent i ms'"
  by (simp_all add: rows_sent_def)

lemma chunk_ok_header:
  assumes "chunk_ok env tid f part"
  shows "chunk_header f = (tid, fst part)"
  using assms
  by (auto simp: chunk_ok_def chunk_frame_def rbind_Inr_iff chunk_header_def
      le16.enc_length le16.dec_enc le32.enc_length)

lemma frames_rows:
  "list_all2 (chunk_ok env tid) frames parts \<Longrightarrow>
     rows_sent i (map EncodedChunk frames) = (if i = tid then part_rows parts else 0)"
proof (induction rule: list_all2_induct)
  case (Cons f fs p ps)
  then show ?case using chunk_ok_header [OF Cons.hyps(1)] by (simp add: part_rows_def)
qed (simp add: part_rows_def)

lemma sent_chunks_rows:
  assumes "sent_chunks env tid ch ch' parts"
  shows "rows_sent i (ch_sent ch') = rows_sent i (ch_sent ch) + (if i = tid then part_rows parts else 0)"
  using assms frames_rows unfolding sent_chunks_def by fastforce

section \<open>Counters\<close>

lemma entry_update_keys: "fst ` set (entry_update k d f m) = insert k (fst ` set m)"
  by (induction k d f m rule: entry_update.induct) auto

lemma entry_update_distinct: "distinct (map fst m) \<Longrightarrow> distinct (map fst (entry_update k d f m))"
proof (induction k d f m rule: entry_update.induct)
  case (2 k d f k' v m)
  then show ?case by (cases "k = k'") (simp_all add: entry_update_keys)
qed simp

lemma entry_update_entry:
  "(u, n) \<in> set (entry_update k d f m) \<Longrightarrow> distinct (map fst m) \<Longrightarrow>
     (if u = k then (\<exists>v. (k, v) \<in> set m \<and> n = f v) \<or> k \<notin> fst ` set m \<and> n = f d else (u, n) \<in> set m)"
proof (induction k d f m rule: entry_update.induct)
  case (2 k d f k' v m)
  then show ?case by (cases "k = k'") (force split: if_splits)+
qed (auto split: if_splits)

text \<open>\<open>m\<close> rows of table \<open>t\<close> are in its open chunk.\<close>

definition tally :: "'r bfs_ctx \<Rightarrow> string \<Rightarrow> nat \<Rightarrow> 'r bfs_state \<Rightarrow> bool" where
  "tally ctx t m s \<longleftrightarrow>
     (\<forall>u i. bc_ids ctx u = Some i \<longrightarrow>
        rows_sent i (ch_sent (bs_channel s)) + (if u = t then m else 0) = card (bs_visited s u)) \<and>
     (\<forall>u. finite (bs_visited s u)) \<and> distinct (map fst (bs_counts s)) \<and>
     (\<forall>(u, n) \<in> set (bs_counts s). u \<in> dom (bc_ids ctx) \<and> n = of_nat (card (bs_visited s u))) \<and>
     (\<forall>u. bs_visited s u \<noteq> {} \<longrightarrow> u \<in> fst ` set (bs_counts s))"

lemma tallyD:
  assumes "tally ctx t m s"
  shows "bc_ids ctx u = Some i \<Longrightarrow> rows_sent i (ch_sent (bs_channel s)) + (if u = t then m else 0) = card (bs_visited s u)"
    and "finite (bs_visited s u)" and "distinct (map fst (bs_counts s))"
    and "(u, n) \<in> set (bs_counts s) \<Longrightarrow> u \<in> dom (bc_ids ctx) \<and> n = of_nat (card (bs_visited s u))"
    and "bs_visited s u \<noteq> {} \<Longrightarrow> u \<in> fst ` set (bs_counts s)"
  using assms unfolding tally_def by blast+

lemma tally_other:
  assumes "tally ctx t m s" "bs_visited s' = bs_visited s" "bs_counts s' = bs_counts s"
    and "\<And>i. rows_sent i (ch_sent (bs_channel s')) = rows_sent i (ch_sent (bs_channel s))"
  shows "tally ctx t m s'"
  using assms by (simp add: tally_def)

lemma send_schema_tally:
  assumes "send_schema_once tc s = (Inr u, s')" "tally ctx t m s"
  shows "tally ctx t m s'"
  by (rule tally_other [OF assms(2)])
    (use assms(1) in \<open>auto simp: send_schema_once_def srv_rules ch_send_def split: if_splits\<close>)

text \<open>The context of the table that is being read: its id is its own.\<close>

definition own_id :: "'r bfs_ctx \<Rightarrow> table_ctx \<Rightarrow> bool" where
  "own_id ctx tc \<longleftrightarrow> bc_ids ctx (tc_table tc) = Some (tc_id tc) \<and> inj_on (bc_ids ctx) (dom (bc_ids ctx))"

lemma own_id_iff: "own_id ctx tc \<Longrightarrow> bc_ids ctx u = Some (tc_id tc) \<longleftrightarrow> u = tc_table tc"
  unfolding own_id_def by (metis domI inj_onD)

lemma emit_new_tally:
  assumes ok: "emit_new ctx tc row run (s\<lparr>bs_visited := add_to (tc_table tc) key (bs_visited s)\<rparr>) = (Inr run', s')"
    and new: "key \<notin> bs_visited s (tc_table tc)" and own: "own_id ctx tc"
    and cs: "chunk_state (tr_chunk run)" and tl: "tally ctx (tc_table tc) (unat (snd (tr_chunk run))) s"
  shows "chunk_state (tr_chunk run') \<and> tally ctx (tc_table tc) (unat (snd (tr_chunk run'))) s'"
proof -
  let ?t = "tc_table tc" and ?i = "tc_id tc"
  let ?s = "count_row ?t (s\<lparr>bs_visited := add_to ?t key (bs_visited s)\<rparr>)"
  obtain chunk ch where e: "emit_row (bc_env ctx) ?i row (tr_chunk run) (bs_channel s) = (Inr chunk, ch)"
    and s': "s' = ?s\<lparr>bs_channel := ch\<rparr>" "run' = run\<lparr>tr_chunk := chunk\<rparr>"
    using ok by (auto simp: emit_new_def srv_rules count_row_def)
  obtain w n w' n' where wn: "tr_chunk run = (w, n)" "chunk = (w', n')" by fastforce
  obtain parts where p: "sent_chunks (bc_env ctx) ?i (bs_channel s) ch parts" "chunk_state (w', n')"
    "part_rows parts + unat n' = Suc (unat n)"
    using emit_row_Inr [of w n "bc_env ctx" ?i row "bs_channel s" w' n' ch] cs e by (auto simp: wn)
  have rows: "rows_sent i (ch_sent ch) = rows_sent i (ch_sent (bs_channel s)) + (if i = ?i then part_rows parts else 0)" for i
    by (rule sent_chunks_rows [OF p(1)])
  have card: "card (bs_visited s' u) = (if u = ?t then Suc (card (bs_visited s u)) else card (bs_visited s u))" for u
    using new tallyD(2) [OF tl, of ?t] by (simp add: s' add_to_def count_row_def)
  have "rows_sent i (ch_sent ch) + (if u = ?t then unat n' else 0) = card (bs_visited s' u)"
    if "bc_ids ctx u = Some i" for u i
  proof (cases "u = ?t")
    case True
    then have "i = ?i" using that own by (simp add: own_id_def)
    then show ?thesis using True rows [of i] p(3) tallyD(1) [OF tl that] by (simp add: card wn)
  next
    case False
    then have "i \<noteq> ?i" using that own_id_iff [OF own, of u] by auto
    then show ?thesis using False rows [of i] tallyD(1) [OF tl that] by (simp add: card)
  qed
  moreover have "finite (bs_visited s' u)" for u
    using tallyD(2) [OF tl] by (simp add: s' add_to_def count_row_def)
  moreover have "distinct (map fst (bs_counts s'))"
    by (simp add: s' count_row_def entry_update_distinct tallyD(3) [OF tl])
  moreover have "u \<in> dom (bc_ids ctx) \<and> k = of_nat (card (bs_visited s' u))" if "(u, k) \<in> set (bs_counts s')" for u k
  proof -
    have "(u, k) \<in> set (entry_update ?t 0 (\<lambda>n. n + 1) (bs_counts s))" using that by (simp add: s' count_row_def)
    from entry_update_entry [OF this tallyD(3) [OF tl]]
    consider "u \<noteq> ?t" "(u, k) \<in> set (bs_counts s)" | v where "u = ?t" "(u, v) \<in> set (bs_counts s)" "k = v + 1"
      | "u = ?t" "?t \<notin> fst ` set (bs_counts s)" "k = 1" by (auto split: if_splits)
    then show ?thesis
    proof cases
      case 1
      then show ?thesis using tallyD(4) [OF tl 1(2)] by (simp add: card)
    next
      case 2
      then show ?thesis using tallyD(4) [OF tl 2(2)] by (simp add: card)
    next
      case 3
      then have "bs_visited s ?t = {}" using tallyD(5) [OF tl] by blast
      then show ?thesis using 3 own by (simp add: card own_id_def dom_def)
    qed
  qed
  moreover have "u \<in> fst ` set (bs_counts s')" if "bs_visited s' u \<noteq> {}" for u
    using that tallyD(5) [OF tl, of u]
    by (cases "u = ?t") (auto simp: s' count_row_def entry_update_keys add_to_def)
  moreover have "bs_channel s' = ch" by (simp add: s')
  ultimately have "tally ctx ?t (unat n') s'" unfolding tally_def by blast
  then show ?thesis using p(2) by (simp add: s' wn)
qed


lemma tally_seen:
  assumes "key \<in> bs_visited s t" "tally ctx t m s"
  shows "tally ctx t m (s\<lparr>bs_visited := add_to t key (bs_visited s)\<rparr>)"
proof -
  have "add_to t key (bs_visited s) = bs_visited s"
    using assms(1) by (simp add: add_to_def insert_absorb)
  then show ?thesis using assms(2) by simp
qed

lemma expand_row_tally:
  assumes "expand_row tc key row run s = (run', s')"
  shows "tally ctx t m s' = tally ctx t m s" "tr_chunk run' = tr_chunk run" "bs_visited s' = bs_visited s"
proof -
  have r: "run' = fst (expand_row tc key row run s)" "s' = snd (expand_row tc key row run s)"
    using assms by simp_all
  show "tally ctx t m s' = tally ctx t m s" "tr_chunk run' = tr_chunk run" "bs_visited s' = bs_visited s"
    by (simp_all add: r expand_row_def Let_def tally_def)
qed

text \<open>The state of a table run with its tally.\<close>

definition run_tally :: "'r bfs_ctx \<Rightarrow> table_ctx \<Rightarrow> 'r table_run \<Rightarrow> 'r bfs_state \<Rightarrow> bool" where
  "run_tally ctx tc run s \<longleftrightarrow>
     own_id ctx tc \<and> chunk_state (tr_chunk run) \<and> tally ctx (tc_table tc) (unat (snd (tr_chunk run))) s"

lemma level_row_tally:
  assumes "level_row ctx tc row run s = (Inr run', s')" "run_tally ctx tc run s"
  shows "run_tally ctx tc run' s'"
proof -
  let ?t = "tc_table tc" and ?k = "tc_key tc row"
  obtain run1 s1 where e: "expand_row tc ?k row run s = (run1, s1)" by fastforce
  note ex = expand_row_tally [OF e]
  have rt: "own_id ctx tc" "chunk_state (tr_chunk run1)" "tally ctx ?t (unat (snd (tr_chunk run1))) s1"
    using assms(2) ex by (simp_all add: run_tally_def)
  show ?thesis
  proof (cases "?k \<in> bs_visited s1 ?t")
    case True
    then have "run' = run1" "s' = s1\<lparr>bs_visited := add_to ?t ?k (bs_visited s1)\<rparr>"
      using assms(1) by (simp_all add: level_row_eq [OF e] Let_def srv_rules)
    then show ?thesis using rt tally_seen [OF True rt(3)] by (simp add: run_tally_def)
  next
    case False
    let ?s2 = "s1\<lparr>bs_visited := add_to ?t ?k (bs_visited s1)\<rparr>"
    obtain s3 where s3: "send_schema_once tc ?s2 = (Inr (), s3)" "emit_new ctx tc row run1 s3 = (Inr run', s')"
      using assms(1) False by (auto simp: level_row_eq [OF e] Let_def srv_rules)
    obtain s4 where s4: "send_schema_once tc s1 = (Inr (), s4)" "s3 = s4\<lparr>bs_visited := add_to ?t ?k (bs_visited s4)\<rparr>"
      "bs_visited s4 = bs_visited s1"
      using s3(1) by (auto simp: send_schema_once_def srv_rules split: if_splits)
    show ?thesis
      using emit_new_tally [OF s3(2) [unfolded s4(2)] _ rt(1,2) send_schema_tally [OF s4(1) rt(3)]] False rt(1)
      by (simp add: s4(3) run_tally_def)
  qed
qed

lemma root_row_tally:
  assumes "root_row ctx tc row run s = (Inr run', s')" "run_tally ctx tc run s"
  shows "run_tally ctx tc run' s'"
proof -
  let ?t = "tc_table tc" and ?k = "tc_key tc row"
  obtain s0 where sc: "send_schema_once tc s = (Inr (), s0)"
    using assms(1) by (auto simp: root_row_def srv_rules)
  obtain run1 s1 where e: "expand_row tc ?k row run s0 = (run1, s1)" by fastforce
  note ex = expand_row_tally [OF e]
  have rt: "own_id ctx tc" "chunk_state (tr_chunk run1)" "tally ctx ?t (unat (snd (tr_chunk run1))) s1"
    using assms(2) ex send_schema_tally [OF sc] by (auto simp: run_tally_def)
  show ?thesis
  proof (cases "?k \<in> bs_visited s1 ?t")
    case True
    then have "run' = run1" "s' = s1\<lparr>bs_visited := add_to ?t ?k (bs_visited s1)\<rparr>"
      using assms(1) by (simp_all add: root_row_eq [OF sc e] Let_def srv_rules)
    then show ?thesis using rt tally_seen [OF True rt(3)] by (simp add: run_tally_def)
  next
    case False
    then have "emit_new ctx tc row run1 (s1\<lparr>bs_visited := add_to ?t ?k (bs_visited s1)\<rparr>) = (Inr run', s')"
      using assms(1) by (simp add: root_row_eq [OF sc e] Let_def)
    then show ?thesis using emit_new_tally [OF _ False rt] rt(1) by (simp add: run_tally_def)
  qed
qed

lemma each_row_keeps:
  assumes "\<And>row run s run' s'. f row run s = (Inr run', s') \<Longrightarrow> P run s \<Longrightarrow> P run' s'"
  shows "each_row f rows run s = (Inr run', s') \<Longrightarrow> P run s \<Longrightarrow> P run' s'"
proof (induction rows arbitrary: run s)
  case (Cons x rows)
  then show ?case using assms by (cases x) (auto simp: srv_rules)
qed (simp add: srv_rules)

lemma each_batch_tally:
  "each_batch ctx tc c bs run s = (Inr run', s') \<Longrightarrow> run_tally ctx tc run s \<Longrightarrow> run_tally ctx tc run' s'"
proof (induction bs arbitrary: run s)
  case (Cons b bs)
  obtain rows run1 s1 where r: "each_row (level_row ctx tc) rows run s = (Inr run1, s1)"
    "each_batch ctx tc c bs run1 s1 = (Inr run', s')"
    using Cons.prems(1) by (auto simp: srv_rules)
  have "run_tally ctx tc run1 s1"
    by (rule each_row_keeps [where P = "run_tally ctx tc", OF level_row_tally r(1) Cons.prems(2)])
  then show ?case by (rule Cons.IH [OF r(2)])
qed (simp add: srv_rules)

lemma finish_rows_tally:
  assumes "finish_rows ctx tc run s = (Inr u, s')" "run_tally ctx tc run s"
  shows "tally ctx t 0 s'"
proof -
  let ?i = "tc_id tc" and ?t = "tc_table tc"
  obtain w n where wn: "tr_chunk run = (w, n)" by fastforce
  obtain w' ch where f: "flush_rows (bc_env ctx) ?i (w, n) (bs_channel s) = (Inr w', ch)"
    and s': "s' = s\<lparr>bs_channel := ch, bs_rng := tw_rng w'\<rparr>"
    using assms(1) by (auto simp: finish_rows_def srv_rules wn)
  have rt: "own_id ctx tc" "chunk_state (w, n)" "tally ctx ?t (unat n) s"
    using assms(2) by (simp_all add: run_tally_def wn)
  obtain parts where p: "sent_chunks (bc_env ctx) ?i (bs_channel s) ch parts" "part_rows parts = unat n"
    using flush_rows_Inr [OF rt(2) f] by blast
  have "rows_sent i (ch_sent ch) = card (bs_visited s u)" if "bc_ids ctx u = Some i" for u i
    using sent_chunks_rows [OF p(1), of i] p(2) tallyD(1) [OF rt(3) that] own_id_iff [OF rt(1), of u] that rt(1)
    by (auto simp: own_id_def split: if_splits)
  then show ?thesis using rt(3) by (simp add: tally_def s')
qed

lemma new_run_tally:
  assumes "own_id ctx tc" "tally ctx t 0 s"
  shows "run_tally ctx tc (new_run ctx tc rng) s"
  using assms by (simp add: run_tally_def new_run_def Let_def new_chunk_state tally_def)

lemma default_count_tally:
  assumes "tally ctx t 0 s" "u \<in> dom (bc_ids ctx)"
  shows "tally ctx t 0 (default_count u s)"
proof -
  let ?c = "entry_update u 0 (\<lambda>n. n) (bs_counts s)"
  have "a \<in> dom (bc_ids ctx) \<and> n = of_nat (card (bs_visited s a))" if "(a, n) \<in> set ?c" for a n
  proof -
    from entry_update_entry [OF that tallyD(3) [OF assms(1)]]
    consider "(a, n) \<in> set (bs_counts s)" | "a = u" "u \<notin> fst ` set (bs_counts s)" "n = 0"
      by (auto split: if_splits)
    then show ?thesis
    proof cases
      case 1
      then show ?thesis using tallyD(4) [OF assms(1)] by blast
    next
      case 2
      then have "bs_visited s u = {}" using tallyD(5) [OF assms(1)] by blast
      then show ?thesis using 2 assms(2) by simp
    qed
  qed
  then show ?thesis
    using tallyD [OF assms(1)] unfolding tally_def default_count_def
    by (simp add: entry_update_keys entry_update_distinct) blast
qed

lemma tally_pending [simp]: "tally ctx t m (s\<lparr>bs_pending := p\<rparr>) = tally ctx t m s"
  "tally ctx t m (s\<lparr>bs_touched := X\<rparr>) = tally ctx t m s" "tally ctx t m (start_aggregate s) = tally ctx t m s"
  by (simp_all add: tally_def start_aggregate_def)

lemma tally_none: "tally ctx t 0 s \<Longrightarrow> tally ctx u 0 s"
  by (simp add: tally_def)

lemma table_context_own:
  assumes "table_context ctx t i fwd bwd = Inr tc" "bc_ids ctx t = Some i" "inj_on (bc_ids ctx) (dom (bc_ids ctx))"
  shows "own_id ctx tc \<and> tc_table tc = t"
  using assms by (auto simp: table_context_def Let_def rbind_Inr_iff own_id_def)

lemma aggregate_root_tally:
  assumes ok: "aggregate_root ctx agg e i s = (Inr u, s')" and i: "bc_ids ctx (ra_root_table agg) = Some i"
    and inj: "inj_on (bc_ids ctx) (dom (bc_ids ctx))" and tl: "tally ctx t 0 s"
  shows "tally ctx t 0 s'"
proof -
  obtain tc rows run s1 s2 p fwd bwd where tc: "table_context ctx (ra_root_table agg) i fwd bwd = Inr tc"
    and rows: "each_row (root_row ctx tc) rows (new_run ctx tc (bs_rng s)) s = (Inr run, s1)"
    and fin: "finish_rows ctx tc run s1 = (Inr (), s2)" and s': "s' = s2\<lparr>bs_pending := p\<rparr>"
    using ok unfolding aggregate_root_def Let_def by (auto simp: srv_rules)
  have own: "own_id ctx tc" using table_context_own [OF tc i inj] by blast
  have "run_tally ctx tc run s1"
    by (rule each_row_keeps [where P = "run_tally ctx tc", OF root_row_tally rows new_run_tally [OF own tl]])
  then show ?thesis using finish_rows_tally [OF fin] by (simp add: s')
qed

lemma level_table_tally:
  assumes ok: "level_table ctx e k vs i s = (Inr u, s')" and i: "bc_ids ctx (fst k) = Some i"
    and inj: "inj_on (bc_ids ctx) (dom (bc_ids ctx))" and tl: "tally ctx t 0 s"
  shows "tally ctx t 0 s'"
proof -
  obtain a c b where k: "k = (a, c, b)" by (cases k)
  obtain tc run s1 s2 p fwd bwd bs where tc: "table_context ctx a i fwd bwd = Inr tc"
    and rows: "each_batch ctx tc c bs (new_run ctx tc (bs_rng s)) (default_count a s) = (Inr run, s1)"
    and fin: "finish_rows ctx tc run s1 = (Inr (), s2)" and s': "s' = s2\<lparr>bs_pending := p\<rparr>"
    using ok unfolding level_table_def Let_def k by (auto simp: srv_rules)
  have "tally ctx t 0 (default_count a s)"
    by (rule default_count_tally [OF tl]) (use i in \<open>simp add: k dom_def\<close>)
  then have "run_tally ctx tc run s1"
    by (intro each_batch_tally [OF rows] new_run_tally)
      (use table_context_own [OF tc _ inj] i in \<open>simp_all add: k\<close>)
  then show ?thesis using finish_rows_tally [OF fin] by (simp add: s')
qed

lemma each_entry_tally:
  assumes inj: "inj_on (bc_ids ctx) (dom (bc_ids ctx))"
  shows "each_entry ctx e es s = (Inr u, s') \<Longrightarrow> tally ctx t 0 s \<Longrightarrow> tally ctx t 0 s'"
proof (induction es arbitrary: s)
  case (Cons en es)
  obtain s1 where l: "level_entry ctx e en s = (Inr (), s1)" "each_entry ctx e es s1 = (Inr u, s')"
    using Cons.prems(1) by (auto simp: srv_rules)
  have "tally ctx t 0 s1"
    using l(1) Cons.prems(2) level_table_tally [OF _ _ inj, of e "fst en" "snd en"]
    by (fastforce simp: level_entry_def srv_rules Let_def split: if_splits option.splits prod.splits)
  then show ?case by (rule Cons.IH [OF l(2)])
qed (simp add: srv_rules)

lemma bfs_loop_tally:
  assumes inj: "inj_on (bc_ids ctx) (dom (bc_ids ctx))"
  shows "bfs_loop fuel ctx e s = (Inr r, s') \<Longrightarrow> tally ctx t 0 s \<Longrightarrow> tally ctx t 0 s'"
proof (induction fuel arbitrary: s)
  case 0
  then show ?case by (auto simp: bfs_loop.simps srv_rules split: if_splits)
next
  case (Suc n)
  show ?case
  proof (cases "bs_pending s = []")
    case True
    then show ?thesis using Suc.prems by (auto simp: bfs_loop.simps srv_rules)
  next
    case False
    then obtain s1 where e: "each_entry ctx e (bc_drain ctx (bs_pending s)) (s\<lparr>bs_pending := []\<rparr>) = (Inr (), s1)"
      "bfs_loop n ctx e s1 = (Inr r, s')"
      using Suc.prems(1) by (auto simp: bfs_loop.simps [of "Suc n"] srv_rules)
    show ?thesis
      by (rule Suc.IH [OF e(2) each_entry_tally [OF inj e(1)]]) (use Suc.prems(2) in simp)
  qed
qed

lemma run_aggregates_tally:
  assumes inj: "inj_on (bc_ids ctx) (dom (bc_ids ctx))"
  shows "run_aggregates fuel rx ctx aggs s = (Inr r, s') \<Longrightarrow> tally ctx t 0 s \<Longrightarrow> tally ctx t 0 s'"
proof (induction aggs arbitrary: s)
  case (Cons agg aggs)
  obtain b s1 where one: "run_aggregate fuel rx ctx agg s = (Inr b, s1)"
    and rest: "(if b then run_aggregates fuel rx ctx aggs else sret False) s1 = (Inr r, s')"
    using Cons.prems(1) by (auto simp: srv_rules)
  obtain i e s2 where i: "bc_ids ctx (ra_root_table agg) = Some i"
    and root: "aggregate_root ctx agg e i (start_aggregate (s\<lparr>bs_touched := insert (ra_root_table agg) (bs_touched s)\<rparr>)) = (Inr (), s2)"
    and loop: "bfs_loop fuel ctx e s2 = (Inr b, s1)"
    using one by (auto simp: run_aggregate_def srv_rules split: option.splits)
  have "tally ctx t 0 s1"
    by (rule bfs_loop_tally [OF inj loop aggregate_root_tally [OF root i inj]]) (use Cons.prems(2) in simp)
  then show ?case using rest Cons.IH by (auto simp: srv_rules split: if_splits)
qed (simp add: srv_rules)

end
