(* ===== verification/Aggregates.thy ===== *)
theory Aggregates
  imports Traversal Tally
begin

text \<open>
  The results on whole runs of the data traversal: the rows visited are exactly the rows the
  aggregates require, the loop over the levels ends, every visited row is counted once, and the
  tables touched lie within the static estimate.
\<close>

section \<open>Exactly the required rows\<close>

lemma required_rows:
  assumes "agg \<in> set (aggregates (bc_plan ctx))"
  shows "required ctx agg e D M t r b \<Longrightarrow> r \<in> table_rows ctx D t"
  by (induction rule: required.induct) (use assms in \<open>auto simp: table_rows_def\<close>)

lemma same_links:
  assumes "keys_determine ctx D M" "r \<in> table_rows ctx D t" "r' \<in> table_rows ctx D t"
    and "row_key ctx t r = row_key ctx t r'" "col \<in> relation_columns ctx t" "link r col = Some v"
  obtains v' where "link r' col = Some v'" "value_to_compact_key v' = value_to_compact_key v"
proof -
  have "map_option value_to_compact_key (link r col) = map_option value_to_compact_key (link r' col)"
    using assms(1-5) unfolding keys_determine_def by blast
  then show ?thesis using that assms(6) by (cases "link r' col") auto
qed

lemma forward_links:
  assumes "keys_determine ctx D M" "r \<in> table_rows ctx D t" "r' \<in> table_rows ctx D t"
    and "row_key ctx t r = row_key ctx t r'" "leads_forward ctx agg e t r k v"
  obtains v' where "leads_forward ctx agg e t r' k v'" "value_to_compact_key v' = value_to_compact_key v"
proof -
  obtain rel where rel: "rel \<in> set (agg_forward ctx agg e t)" "k = forward_key rel" "link r (from_column rel) = Some v"
    using assms(5) by (auto simp: leads_forward_def)
  then have "from_column rel \<in> relation_columns ctx t"
    by (auto simp: agg_forward_def get_forward_relations_def relations_by_source_def relation_columns_def split: if_splits)
  from same_links [OF assms(1-4) this rel(3)] show ?thesis
    using that rel(1,2) unfolding leads_forward_def by metis
qed

lemma backward_links:
  assumes "keys_determine ctx D M" "r \<in> table_rows ctx D t" "r' \<in> table_rows ctx D t"
    and "row_key ctx t r = row_key ctx t r'" "leads_backward ctx agg e t r k v"
  obtains v' where "leads_backward ctx agg e t r' k v'" "value_to_compact_key v' = value_to_compact_key v"
proof -
  obtain rel where rel: "rel \<in> set (agg_backward ctx agg e t)" "k = backward_key rel" "link r (to_column rel) = Some v"
    using assms(5) by (auto simp: leads_backward_def)
  then have "to_column rel \<in> relation_columns ctx t"
    by (auto simp: agg_backward_def get_backward_relations_def relations_by_target_def relation_columns_def split: if_splits)
  from same_links [OF assms(1-4) this rel(3)] show ?thesis
    using that rel(1,2) unfolding leads_backward_def by metis
qed

lemma covered_settles:
  assumes "covered ctx agg e D M {} s (t, c, b) v0" "keys_determine ctx D M"
    and "value_to_compact_key v0 = value_to_compact_key v" "followed ctx e t" "r \<in> D t" "M t c v r"
  shows "settled ctx agg e s t r b"
proof -
  have "covered ctx agg e D M {} s (t, c, b) v" using covered_key [OF assms(2,3)] assms(1) by simp
  then show ?thesis using assms(4-6) by (simp add: covered_def)
qed

lemma required_settled:
  assumes kd: "keys_determine ctx D M" and inv: "bfs_inv ctx agg e D M s0 {} s"
    and mem: "agg \<in> set (aggregates (bc_plan ctx))"
    and root: "\<And>r. r \<in> root_rows ctx agg \<Longrightarrow> settled ctx agg e s (ra_root_table agg) r True"
  shows "required ctx agg e D M t r b \<Longrightarrow> settled ctx agg e s t r b"
proof (induction rule: required.induct)
  case (required_root r)
  then show ?case by (rule root)
next
  case (required_step t r b t' c b' v r')
  have tr: "required ctx agg e D M t r b \<Longrightarrow> r \<in> table_rows ctx D t" for t r b
    by (rule required_rows [OF mem])
  have r: "r \<in> table_rows ctx D t" by (rule tr [OF required_step.hyps(1)])
  from required_step.hyps(2) consider "leads_forward ctx agg e t r (t', c, b') v"
    | "b" "leads_backward ctx agg e t r (t', c, b') v" unfolding leads_def by blast
  then show ?case
  proof cases
    case 1
    then have "row_key ctx t r \<in> bs_expanded_fwd s t"
      using required_step.IH by (auto simp: settled_def leads_forward_def)
    from bfs_invD(4) [OF inv this] obtain r0 b0 where r0: "required ctx agg e D M t r0 b0" "row_key ctx t r0 = row_key ctx t r"
      "\<forall>k v. leads_forward ctx agg e t r0 k v \<longrightarrow> covered ctx agg e D M {} s k v" by blast
    obtain v0 where "leads_forward ctx agg e t r0 (t', c, b') v0" "value_to_compact_key v0 = value_to_compact_key v"
      using forward_links [OF kd r tr [OF r0(1)] r0(2) [symmetric] 1] by blast
    then show ?thesis using covered_settles [OF _ kd _ required_step.hyps(3-5)] r0(3) by blast
  next
    case 2
    then have "row_key ctx t r \<in> bs_expanded_bwd s t"
      using required_step.IH by (auto simp: settled_def leads_backward_def)
    from bfs_invD(5) [OF inv this] obtain r0 where r0: "required ctx agg e D M t r0 True" "row_key ctx t r0 = row_key ctx t r"
      "\<forall>k v. leads_backward ctx agg e t r0 k v \<longrightarrow> covered ctx agg e D M {} s k v" by blast
    obtain v0 where "leads_backward ctx agg e t r0 (t', c, b') v0" "value_to_compact_key v0 = value_to_compact_key v"
      using backward_links [OF kd r tr [OF r0(1)] r0(2) [symmetric] 2(2)] by blast
    then show ?thesis using covered_settles [OF _ kd _ required_step.hyps(3-5)] r0(3) by blast
  qed
qed

definition required_keys ::
  "'r bfs_ctx \<Rightarrow> resolved_aggregate \<Rightarrow> string set \<Rightarrow> (string \<Rightarrow> mysql_row set) \<Rightarrow> matcher \<Rightarrow> string \<Rightarrow> compact_key set" where
  "required_keys ctx agg e D M t = {row_key ctx t r | r b. required ctx agg e D M t r b}"

text \<open>The tables an aggregate touches: its root and the tables its rows lead to.\<close>

definition touched_by ::
  "'r bfs_ctx \<Rightarrow> resolved_aggregate \<Rightarrow> string set \<Rightarrow> (string \<Rightarrow> mysql_row set) \<Rightarrow> matcher \<Rightarrow> string set" where
  "touched_by ctx agg e D M =
     {t. t = ra_root_table agg \<or>
        t \<notin> full_tables (bc_plan ctx) \<and>
        (\<exists>t0 r b c b' v. required ctx agg e D M t0 r b \<and> leads ctx agg e t0 r b (t, c, b') v)}"

lemma loop_root_only:
  assumes "aggregate_root ctx agg e i s = (Inr u, s')" "ra_root_only agg" "bs_pending s = []"
  shows "bs_pending s' = []"
proof -
  obtain tc rows run s1 s2 where tc: "table_context ctx (ra_root_table agg) i [] [] = Inr tc"
    and rows: "each_row (root_row ctx tc) rows (new_run ctx tc (bs_rng s)) s = (Inr run, s1)"
    and fin: "finish_rows ctx tc run s1 = (Inr (), s2)"
    and s': "s' = s2\<lparr>bs_pending := seed_pending forward_key [] (tr_fwd run)
          (seed_pending backward_key [] (tr_bwd run) (bs_pending s2))\<rparr>"
    using assms(1,2) by (auto simp: aggregate_root_def Let_def srv_rules)
  obtain rs where "rows_effect tc (set rs) (new_run ctx tc (bs_rng s)) s run s1"
    using each_row_data [of "root_row ctx tc", OF _ rows new_run_ok] root_row_data by blast
  then have "bs_pending s2 = []"
    using finish_rows_data [OF fin] assms(3) by (simp add: rows_effect_def Let_def same_data_def)
  then show ?thesis by (simp add: s' seed_pending_def)
qed

lemma aggregate_root_no_empty:
  assumes "aggregate_root ctx agg e i s = (Inr u, s')" "bs_pending s = []"
  shows "no_empty (bs_pending s')"
proof -
  obtain tc rows run s1 s2 fwd bwd where
    rows: "each_row (root_row ctx tc) rows (new_run ctx tc (bs_rng s)) s = (Inr run, s1)"
    and fin: "finish_rows ctx tc run s1 = (Inr (), s2)"
    and s': "s' = s2\<lparr>bs_pending := seed_pending forward_key fwd (tr_fwd run)
          (seed_pending backward_key bwd (tr_bwd run) (bs_pending s2))\<rparr>"
    using assms(1) unfolding aggregate_root_def Let_def by (auto simp: srv_rules)
  obtain rs where "rows_effect tc (set rs) (new_run ctx tc (bs_rng s)) s run s1"
    using each_row_data [of "root_row ctx tc", OF _ rows new_run_ok] root_row_data by blast
  then have "bs_pending s2 = []"
    using finish_rows_data [OF fin] assms(2) by (simp add: rows_effect_def Let_def same_data_def)
  moreover have "no_empty []" by (simp add: no_empty_def)
  ultimately show ?thesis by (simp add: s' seed_pending_no_empty)
qed

lemma run_aggregate_visits:
  assumes kd: "keys_determine ctx D M" and ans: "answers ctx D M" and dr: "drains ctx"
    and mem: "agg \<in> set (aggregates (bc_plan ctx))"
    and ok: "run_aggregate fuel rx ctx agg s = (Inr True, s')"
  obtains e where "expand_exclude_patterns rx agg (dom (bc_ids ctx)) = Inr e"
    and "\<And>t. bs_visited s' t = bs_visited s t \<union> required_keys ctx agg e D M t"
    and "bs_touched s \<subseteq> bs_touched s'" "ra_root_table agg \<in> bs_touched s'"
    and "bs_touched s' \<subseteq> bs_touched s \<union> touched_by ctx agg e D M"
proof -
  let ?t = "ra_root_table agg"
  let ?s = "start_aggregate (s\<lparr>bs_touched := insert ?t (bs_touched s)\<rparr>)"
  obtain i e s1 where i: "bc_ids ctx ?t = Some i" and e: "expand_exclude_patterns rx agg (dom (bc_ids ctx)) = Inr e"
    and root: "aggregate_root ctx agg e i ?s = (Inr (), s1)" and loop: "bfs_loop fuel ctx e s1 = (Inr True, s')"
    using ok by (auto simp: run_aggregate_def srv_rules split: option.splits)
  have p0: "bs_pending ?s = []" by (simp add: start_aggregate_def)
  have "bfs_inv ctx agg e D M ?s (pending_values (bs_pending s1)) s1 \<and>
    (\<forall>r \<in> root_rows ctx agg. settled ctx agg e s1 ?t r True)"
    by (rule aggregate_root_inv [OF kd root]) (simp_all add: start_aggregate_def)
  then have r: "bfs_inv ctx agg e D M ?s (pending_values (bs_pending s1)) s1"
    "\<And>r. r \<in> root_rows ctx agg \<Longrightarrow> settled ctx agg e s1 ?t r True" by blast+
  have "bfs_inv ctx agg e D M ?s {} s' \<and> data_le s1 s'"
  proof (cases "ra_root_only agg")
    case True
    have p: "bs_pending s1 = []" by (rule loop_root_only [OF root True p0])
    then have "s' = s1" using loop by (auto simp: bfs_loop.simps srv_rules)
    then show ?thesis using r(1) p by (simp add: data_le_def)
  next
    case False
    show ?thesis
      by (rule bfs_loop_inv [OF kd ans False dr loop aggregate_root_no_empty [OF root p0] r(1)])
  qed
  then have inv: "bfs_inv ctx agg e D M ?s {} s'" and le: "data_le s1 s'" by blast+
  have settled: "settled ctx agg e s' t r b" if "required ctx agg e D M t r b" for t r b
    by (rule required_settled [OF kd inv mem _ that]) (rule settled_mono [OF r(2) le])
  show ?thesis
  proof (rule that [OF e])
    show "bs_visited s' t = bs_visited s t \<union> required_keys ctx agg e D M t" for t
      using bfs_invD(2,3) [OF inv, of t] settled
      by (auto simp: required_keys_def settled_def start_aggregate_def)
    show "bs_touched s \<subseteq> bs_touched s'" "?t \<in> bs_touched s'"
      using bfs_invD(6) [OF inv] by (simp_all add: start_aggregate_def)
    show "bs_touched s' \<subseteq> bs_touched s \<union> touched_by ctx agg e D M"
    proof
      fix t assume "t \<in> bs_touched s'"
      from bfs_invD(7) [OF inv this] show "t \<in> bs_touched s \<union> touched_by ctx agg e D M"
        unfolding touched_by_def start_aggregate_def by fastforce
    qed
  qed
qed


text \<open>The keys an aggregate requires and the tables it touches, with its own exclude patterns.\<close>

definition agg_keys ::
  "regex_engine \<Rightarrow> 'r bfs_ctx \<Rightarrow> (string \<Rightarrow> mysql_row set) \<Rightarrow> matcher \<Rightarrow> resolved_aggregate \<Rightarrow> string \<Rightarrow> compact_key set" where
  "agg_keys rx ctx D M agg t =
     (case expand_exclude_patterns rx agg (dom (bc_ids ctx)) of
        Inl _ \<Rightarrow> {} | Inr e \<Rightarrow> required_keys ctx agg e D M t)"

definition agg_touched ::
  "regex_engine \<Rightarrow> 'r bfs_ctx \<Rightarrow> (string \<Rightarrow> mysql_row set) \<Rightarrow> matcher \<Rightarrow> resolved_aggregate \<Rightarrow> string set" where
  "agg_touched rx ctx D M agg =
     (case expand_exclude_patterns rx agg (dom (bc_ids ctx)) of
        Inl _ \<Rightarrow> {} | Inr e \<Rightarrow> touched_by ctx agg e D M)"

lemma run_aggregates_visits:
  assumes kd: "keys_determine ctx D M" and ans: "answers ctx D M" and dr: "drains ctx"
  shows "run_aggregates fuel rx ctx aggs s = (Inr True, s') \<Longrightarrow> set aggs \<subseteq> set (aggregates (bc_plan ctx)) \<Longrightarrow>
    (\<forall>t. bs_visited s' t = bs_visited s t \<union> (\<Union>agg \<in> set aggs. agg_keys rx ctx D M agg t)) \<and>
    bs_touched s \<union> ra_root_table ` set aggs \<subseteq> bs_touched s' \<and>
    bs_touched s' \<subseteq> bs_touched s \<union> (\<Union>agg \<in> set aggs. agg_touched rx ctx D M agg)"
proof (induction aggs arbitrary: s)
  case Nil
  then show ?case by (simp add: srv_rules)
next
  case (Cons agg aggs)
  obtain s1 where one: "run_aggregate fuel rx ctx agg s = (Inr True, s1)"
    and rest: "run_aggregates fuel rx ctx aggs s1 = (Inr True, s')"
    using Cons.prems(1) by (auto simp: srv_rules split: if_splits)
  have mem: "agg \<in> set (aggregates (bc_plan ctx))" and sub: "set aggs \<subseteq> set (aggregates (bc_plan ctx))"
    using Cons.prems(2) by auto
  have "(\<forall>t. bs_visited s1 t = bs_visited s t \<union> agg_keys rx ctx D M agg t) \<and>
    insert (ra_root_table agg) (bs_touched s) \<subseteq> bs_touched s1 \<and>
    bs_touched s1 \<subseteq> bs_touched s \<union> agg_touched rx ctx D M agg"
    by (rule run_aggregate_visits [OF kd ans dr mem one]) (simp add: agg_keys_def agg_touched_def)
  then have v: "bs_visited s1 t = bs_visited s t \<union> agg_keys rx ctx D M agg t"
    and lo: "insert (ra_root_table agg) (bs_touched s) \<subseteq> bs_touched s1"
    and hi: "bs_touched s1 \<subseteq> bs_touched s \<union> agg_touched rx ctx D M agg" for t by blast+
  from Cons.IH [OF rest sub]
  have v': "bs_visited s' t = bs_visited s1 t \<union> (\<Union>agg \<in> set aggs. agg_keys rx ctx D M agg t)"
    and lo': "bs_touched s1 \<union> ra_root_table ` set aggs \<subseteq> bs_touched s'"
    and hi': "bs_touched s' \<subseteq> bs_touched s1 \<union> (\<Union>agg \<in> set aggs. agg_touched rx ctx D M agg)" for t
    by blast+
  have "bs_visited s' t = bs_visited s t \<union> (\<Union>agg \<in> set (agg # aggs). agg_keys rx ctx D M agg t)" for t
    by (simp add: v v' Un_assoc)
  moreover have "bs_touched s \<union> ra_root_table ` set (agg # aggs) \<subseteq> bs_touched s'" using lo lo' by auto
  moreover have "bs_touched s' \<subseteq> bs_touched s \<union> (\<Union>agg \<in> set (agg # aggs). agg_touched rx ctx D M agg)"
    unfolding list.set UN_insert Un_assoc [symmetric] by (rule order_trans [OF hi' Un_mono [OF hi order_refl]])
  ultimately show ?case by blast
qed

section \<open>The loop ends\<close>

text \<open>The keys of the rows a lookup can return.\<close>

definition all_keys :: "'r bfs_ctx \<Rightarrow> (string \<Rightarrow> mysql_row set) \<Rightarrow> (string \<times> compact_key) set" where
  "all_keys ctx D = {(t, row_key ctx t r) | t r. r \<in> D t}"

definition unexpanded ::
  "(string \<times> compact_key) set \<Rightarrow> (string \<Rightarrow> compact_key set) \<Rightarrow> (string \<times> compact_key) set" where
  "unexpanded U f = {(t, k) \<in> U. k \<notin> f t}"

definition left_over :: "(string \<times> compact_key) set \<Rightarrow> 'r bfs_state \<Rightarrow> nat" where
  "left_over U s = card (unexpanded U (bs_expanded_fwd s)) + card (unexpanded U (bs_expanded_bwd s))"

lemma unexpanded_mono:
  assumes "finite U" "\<And>t. f t \<subseteq> g t"
  shows "card (unexpanded U g) \<le> card (unexpanded U f)"
proof (rule card_mono)
  show "finite (unexpanded U f)"
    by (rule finite_subset [OF _ assms(1)]) (auto simp: unexpanded_def)
  show "unexpanded U g \<subseteq> unexpanded U f" using assms(2) by (auto simp: unexpanded_def)
qed

lemma unexpanded_strict:
  assumes "finite U" "\<And>t. f t \<subseteq> g t" "(t, k) \<in> U" "k \<notin> f t" "k \<in> g t"
  shows "card (unexpanded U g) < card (unexpanded U f)"
proof (rule psubset_card_mono)
  show "finite (unexpanded U f)"
    by (rule finite_subset [OF _ assms(1)]) (auto simp: unexpanded_def)
  have "(t, k) \<in> unexpanded U f" "(t, k) \<notin> unexpanded U g" "unexpanded U g \<subseteq> unexpanded U f"
    using assms(2-5) by (auto simp: unexpanded_def)
  then show "unexpanded U g \<subset> unexpanded U f" by blast
qed

lemma left_over_mono: "finite U \<Longrightarrow> data_le s s' \<Longrightarrow> left_over U s' \<le> left_over U s"
  unfolding left_over_def data_le_def by (meson add_mono unexpanded_mono)

lemma seed_pending_nothing:
  "seed_pending target rels (replicate n []) p = p"
proof (induction rels arbitrary: n)
  case (Cons rel rels)
  then show ?case
    by (cases n) (simp_all add: seed_pending_step dedupe_values_def, simp add: seed_pending_def)
qed (simp add: seed_pending_def)

lemma level_table_progress:
  assumes ans: "answers ctx D M" and fin: "finite (all_keys ctx D)"
    and ok: "level_table ctx e k vs i s = (Inr u, s')"
  shows "data_le s s' \<and> (bs_pending s' = bs_pending s \<or> left_over (all_keys ctx D) s' < left_over (all_keys ctx D) s)"
proof -
  obtain t c b where k: "k = (t, c, b)" by (cases k)
  let ?U = "all_keys ctx D" and ?u = "dedupe_values vs"
  obtain tc run s1 s2 fwd bwd where tc: "table_context ctx t i fwd bwd = Inr tc"
    and rows: "each_batch ctx tc c (batches (length ?u) MAX_IN_VALUES ?u) (new_run ctx tc (bs_rng s)) (default_count t s) = (Inr run, s1)"
    and fin_rows: "finish_rows ctx tc run s1 = (Inr (), s2)"
    and s': "s' = s2\<lparr>bs_pending := seed_pending backward_key bwd (tr_bwd run)
          (seed_pending forward_key fwd (tr_fwd run) (bs_pending s2))\<rparr>"
    using ok unfolding level_table_def Let_def k by (auto simp: srv_rules)
  have tt: "tc_table tc = t" "tc_pk tc = table_pk ctx t" "tc_forward tc = fwd" "tc_backward tc = bwd"
    using tc by (auto simp: table_context_def Let_def rbind_Inr_iff table_pk_def)
  let ?R = "{r \<in> D t. \<exists>v \<in> set ?u. M t c v r}"
  have "same_data s (default_count t s)" by (simp add: same_data_def default_count_def)
  from rows_effect_before [OF this each_batch_data [OF ans rows new_run_ok]]
  have eff: "rows_effect tc ?R (new_run ctx tc (bs_rng s)) s run s1"
    by (simp add: tt concat_batches MAX_IN_VALUES_def)
  have sd: "same_data s1 s2" by (rule finish_rows_data [OF fin_rows])
  have le: "data_le s s'" using rows_effect_le [OF eff] sd by (simp add: s' data_le_def same_data_def)
  have key: "tc_key tc = row_key ctx t" by (simp add: tc_key_def row_key_def tt fun_eq_iff)
  have ex: "bs_expanded_fwd s' = mark t (expansion fwd (row_key ctx t ` ?R)) (bs_expanded_fwd s)"
    "bs_expanded_bwd s' = mark t (expansion bwd (row_key ctx t ` ?R)) (bs_expanded_bwd s)"
    and p: "bs_pending s2 = bs_pending s"
    using eff sd by (simp_all add: rows_effect_def Let_def tt key s' same_data_def)
  have vec: "vec_effect (row_key ctx t) from_column fwd ?R (bs_expanded_fwd s t) (replicate (length fwd) []) (tr_fwd run)"
    "vec_effect (row_key ctx t) to_column bwd ?R (bs_expanded_bwd s t) (replicate (length bwd) []) (tr_bwd run)"
    using eff by (simp_all add: rows_effect_def Let_def tt key new_run_vecs)
  have mono: "bs_expanded_fwd s u \<subseteq> bs_expanded_fwd s' u" "bs_expanded_bwd s u \<subseteq> bs_expanded_bwd s' u" for u
    using le by (simp_all add: data_le_def)
  have weak: "card (unexpanded ?U (bs_expanded_fwd s')) \<le> card (unexpanded ?U (bs_expanded_fwd s))"
    "card (unexpanded ?U (bs_expanded_bwd s')) \<le> card (unexpanded ?U (bs_expanded_bwd s))"
    by (rule unexpanded_mono [OF fin mono(1)], rule unexpanded_mono [OF fin mono(2)])
  consider (fwd) "expansion fwd (row_key ctx t ` ?R) - bs_expanded_fwd s t \<noteq> {}"
    | (bwd) "expansion bwd (row_key ctx t ` ?R) - bs_expanded_bwd s t \<noteq> {}"
    | (none) "expansion fwd (row_key ctx t ` ?R) \<subseteq> bs_expanded_fwd s t"
      "expansion bwd (row_key ctx t ` ?R) \<subseteq> bs_expanded_bwd s t" by blast
  then show ?thesis
  proof cases
    case fwd
    then obtain r where r: "r \<in> ?R" "fwd \<noteq> []" "row_key ctx t r \<notin> bs_expanded_fwd s t"
      by (auto simp: expansion_def split: if_splits)
    have "card (unexpanded ?U (bs_expanded_fwd s')) < card (unexpanded ?U (bs_expanded_fwd s))"
      by (rule unexpanded_strict [OF fin mono(1), where t = t and k = "row_key ctx t r"])
        (use r in \<open>auto simp: ex(1) expansion_def all_keys_def\<close>)
    then show ?thesis using le weak(2) by (simp add: left_over_def)
  next
    case bwd
    then obtain r where r: "r \<in> ?R" "bwd \<noteq> []" "row_key ctx t r \<notin> bs_expanded_bwd s t"
      by (auto simp: expansion_def split: if_splits)
    have "card (unexpanded ?U (bs_expanded_bwd s')) < card (unexpanded ?U (bs_expanded_bwd s))"
      by (rule unexpanded_strict [OF fin mono(2), where t = t and k = "row_key ctx t r"])
        (use r in \<open>auto simp: ex(2) expansion_def all_keys_def\<close>)
    then show ?thesis using le weak(1) by (simp add: left_over_def)
  next
    case none
    have "tr_fwd run = replicate (length fwd) []"
      using vec(1) none(1) by (cases "fwd = []") (simp_all add: vec_effect_def expansion_def)
    moreover have "tr_bwd run = replicate (length bwd) []"
      using vec(2) none(2) by (cases "bwd = []") (simp_all add: vec_effect_def expansion_def)
    ultimately have "bs_pending s' = bs_pending s" by (simp add: s' p seed_pending_nothing)
    then show ?thesis using le by blast
  qed
qed

lemma level_entry_progress:
  assumes ans: "answers ctx D M" and fin: "finite (all_keys ctx D)"
    and ok: "level_entry ctx e en s = (Inr u, s')"
  shows "data_le s s' \<and> (bs_pending s' = bs_pending s \<or> left_over (all_keys ctx D) s' < left_over (all_keys ctx D) s)"
proof -
  obtain t c b vs where en: "en = ((t, c, b), vs)" by (cases en) auto
  have d: "data_le s (s\<lparr>bs_touched := X\<rparr>)" "left_over U (s\<lparr>bs_touched := X\<rparr>) = left_over U s" for X U
    by (simp_all add: data_le_def left_over_def)
  have le: "data_le (s\<lparr>bs_touched := X\<rparr>) s' \<Longrightarrow> data_le s s'" for X by (simp add: data_le_def)
  show ?thesis
    using ok level_table_progress [OF ans fin, of e "(t, c, b)" vs _ "s\<lparr>bs_touched := insert t (bs_touched s)\<rparr>" u s'] d le
    by (fastforce simp: level_entry_def en srv_rules data_le_def split: if_splits option.splits)
qed

lemma each_entry_progress:
  assumes ans: "answers ctx D M" and fin: "finite (all_keys ctx D)"
  shows "each_entry ctx e es s = (Inr u, s') \<Longrightarrow>
    data_le s s' \<and> (bs_pending s' = bs_pending s \<or> left_over (all_keys ctx D) s' < left_over (all_keys ctx D) s)"
proof (induction es arbitrary: s)
  case Nil
  then show ?case by (simp add: srv_rules data_le_def)
next
  case (Cons en es)
  obtain s1 where l: "level_entry ctx e en s = (Inr (), s1)" "each_entry ctx e es s1 = (Inr u, s')"
    using Cons.prems(1) by (auto simp: srv_rules)
  have a: "data_le s s1" "bs_pending s1 = bs_pending s \<or> left_over (all_keys ctx D) s1 < left_over (all_keys ctx D) s"
    using level_entry_progress [OF ans fin l(1)] by blast+
  have b: "data_le s1 s'" "bs_pending s' = bs_pending s1 \<or> left_over (all_keys ctx D) s' < left_over (all_keys ctx D) s1"
    using Cons.IH [OF l(2)] by blast+
  have "data_le s s'" using a(1) b(1) unfolding data_le_def by (meson order_trans)
  moreover have "left_over (all_keys ctx D) s' \<le> left_over (all_keys ctx D) s1"
    "left_over (all_keys ctx D) s1 \<le> left_over (all_keys ctx D) s"
    by (rule left_over_mono [OF fin b(1)], rule left_over_mono [OF fin a(1)])
  ultimately show ?case using a(2) b(2) by (metis order_le_less_trans order_less_le_trans)
qed

lemma bfs_loop_ends:
  assumes ans: "answers ctx D M" and fin: "finite (all_keys ctx D)"
  shows "left_over (all_keys ctx D) s < fuel \<Longrightarrow> fst (bfs_loop fuel ctx e s) \<noteq> Inr False"
proof (induction fuel arbitrary: s)
  case (Suc n)
  show ?case
  proof (cases "bs_pending s = []")
    case True
    then show ?thesis by (simp add: bfs_loop.simps sret_def)
  next
    case False
    let ?s = "s\<lparr>bs_pending := []\<rparr>"
    obtain r s1 where e: "each_entry ctx e (bc_drain ctx (bs_pending s)) ?s = (r, s1)" by fastforce
    show ?thesis
    proof (cases r)
      case (Inl err)
      then show ?thesis using False e by (simp add: bfs_loop.simps [of "Suc n"] sbind_def)
    next
      case (Inr u)
      have eq: "bfs_loop (Suc n) ctx e s = bfs_loop n ctx e s1"
        using False e by (simp add: bfs_loop.simps [of "Suc n"] sbind_def Inr)
      consider "bs_pending s1 = []" | "left_over (all_keys ctx D) s1 < left_over (all_keys ctx D) s"
        using each_entry_progress [OF ans fin e [unfolded Inr]] by (auto simp: left_over_def)
      then show ?thesis
      proof cases
        case 1
        then show ?thesis unfolding eq by (simp add: bfs_loop.simps sret_def)
      next
        case 2
        then show ?thesis unfolding eq using Suc.prems by (intro Suc.IH) simp
      qed
    qed
  qed
qed simp


lemma run_aggregates_ends:
  assumes ans: "answers ctx D M" and fin: "finite (all_keys ctx D)" and fuel: "2 * card (all_keys ctx D) < fuel"
  shows "fst (run_aggregates fuel rx ctx aggs s) \<noteq> Inr False"
proof (induction aggs arbitrary: s)
  case Nil
  then show ?case by (simp add: sret_def)
next
  case (Cons agg aggs)
  have "card (unexpanded (all_keys ctx D) f) \<le> card (all_keys ctx D)" for f
    by (rule card_mono [OF fin]) (auto simp: unexpanded_def)
  then have "left_over (all_keys ctx D) s \<le> 2 * card (all_keys ctx D)" for s
    unfolding left_over_def mult_2 by (intro add_mono)
  then have loop: "fst (bfs_loop fuel ctx e s) \<noteq> Inr False" for e s
    using bfs_loop_ends [OF ans fin] fuel by (meson order_le_less_trans)
  have one: "fst (run_aggregate fuel rx ctx agg s) \<noteq> Inr False" for s
    using loop by (auto simp: run_aggregate_def sbind_def slift_def smodify_def split: option.split prod.split sum.split)
  obtain r s1 where r: "run_aggregate fuel rx ctx agg s = (r, s1)" by fastforce
  then have "r \<noteq> Inr False" using one [of s] by simp
  then consider e where "r = Inl e" | "r = Inr True" by (cases r) auto
  then show ?case by cases (simp_all add: sbind_def r Cons.IH)
qed

section \<open>The end of a run\<close>

lemma send_table_dones_sends:
  "send_table_dones ctx counts s = (Inr u, s') \<Longrightarrow>
     \<exists>ms. ch_sent (bs_channel s') = ch_sent (bs_channel s) @ ms \<and> bs_visited s' = bs_visited s \<and>
       bs_touched s' = bs_touched s \<and>
       (\<forall>t n i. (t, n) \<in> set counts \<longrightarrow> bc_ids ctx t = Some i \<longrightarrow> Control (TableDone i n None) \<in> set ms) \<and>
       (\<forall>m \<in> set ms. \<exists>t n i. (t, n) \<in> set counts \<and> bc_ids ctx t = Some i \<and> m = Control (TableDone i n None))"
proof (induction counts arbitrary: s)
  case Nil
  then show ?case by (simp add: srv_rules)
next
  case (Cons c counts)
  obtain t n where c: "c = (t, n)" by (cases c)
  obtain i where i: "bc_ids ctx t = Some i" using Cons.prems by (cases "bc_ids ctx t") (auto simp: c srv_rules)
  let ?m = "Control (TableDone i n None)"
  obtain s1 where s1: "on_channel (ch_send ?m) s = (Inr (), s1)" and rest: "send_table_dones ctx counts s1 = (Inr u, s')"
    using Cons.prems by (auto simp: c i srv_rules)
  have "ch_sent (bs_channel s1) = ch_sent (bs_channel s) @ [?m]" "bs_visited s1 = bs_visited s" "bs_touched s1 = bs_touched s"
    using s1 by (auto simp: srv_rules ch_send_def split: if_splits)
  with Cons.IH [OF rest] obtain ms where "ch_sent (bs_channel s') = ch_sent (bs_channel s) @ ?m # ms"
    "bs_visited s' = bs_visited s" "bs_touched s' = bs_touched s"
    "\<forall>t n i. (t, n) \<in> set counts \<longrightarrow> bc_ids ctx t = Some i \<longrightarrow> Control (TableDone i n None) \<in> set ms"
    and only: "\<forall>m \<in> set ms. \<exists>t n i. (t, n) \<in> set counts \<and> bc_ids ctx t = Some i \<and> m = Control (TableDone i n None)"
    by auto
  moreover have "\<exists>t n i. (t, n) \<in> set (c # counts) \<and> bc_ids ctx t = Some i \<and> m = Control (TableDone i n None)"
    if "m \<in> set (?m # ms)" for m
  proof (cases "m = ?m")
    case True
    then show ?thesis using i c by (intro exI [of _ t] exI [of _ n] exI [of _ i]) simp
  next
    case False
    then show ?thesis using that only by (metis list.set_intros(2) set_ConsD)
  qed
  ultimately show ?case using i by (intro exI [of _ "?m # ms"] conjI) (auto simp: c)
qed

lemma full_table_prefix:
  assumes "stream_full_table_to_channel env db t i cols anon fks rng ch = (Inr rng', ch')"
  shows "\<exists>ms. ch_sent ch' = ch_sent ch @ ms"
proof -
  obtain idx opts rs ch1 chunk n ch2 w ch3
    where c1: "ch_send (Control (Schema i cols idx opts)) ch = (Inr (), ch1)"
      and s: "stream_rows env i rs (tsv_writer_new cols anon fks rng, 0) 0 ch1 = (Inr (chunk, n), ch2)"
      and f: "flush_rows env i chunk ch2 = (Inr w, ch3)"
      and c4: "ch_send (Control (TableDone i n None)) ch3 = (Inr (), ch')"
    using assms by (auto simp: stream_full_table_to_channel_def srv_rules Let_def)
  have "only_chunks ch1 ch2" "only_chunks ch2 ch3"
    using stream_rows_only [of ch1 env i rs "(tsv_writer_new cols anon fks rng, 0)" 0]
      flush_rows_only [of ch2 env i chunk] by (simp_all add: s f)
  then show ?thesis using c1 c4 by (auto simp: only_chunks_def ch_send_def split: if_splits)
qed

lemma stream_false_positives_keeps:
  "stream_false_positives ctx potential ts s = (Inr u, s') \<Longrightarrow>
     bs_visited s' = bs_visited s \<and> bs_touched s' = bs_touched s \<and>
     (\<exists>ms. ch_sent (bs_channel s') = ch_sent (bs_channel s) @ ms)"
proof (induction ts arbitrary: s)
  case Nil
  then show ?case by (simp add: srv_rules)
next
  case (Cons t ts)
  show ?case
  proof (cases "false_positive (bc_plan ctx) potential (bs_touched s) t")
    case False
    then have "stream_false_positives ctx potential ts s = (Inr u, s')" using Cons.prems by (auto simp: srv_rules)
    then show ?thesis by (rule Cons.IH)
  next
    case True
    obtain cols anon i rng' ch1 where
      f: "stream_full_table_to_channel (bc_env ctx) (bc_db ctx) t i cols anon (fakers (bc_plan ctx)) (bs_rng s) (bs_channel s) = (Inr rng', ch1)"
      and rest: "stream_false_positives ctx potential ts (s\<lparr>bs_channel := ch1, bs_rng := rng'\<rparr>) = (Inr u, s')"
      using Cons.prems True by (auto simp: srv_rules Let_def split: option.splits)
    obtain ms where "ch_sent ch1 = ch_sent (bs_channel s) @ ms" using full_table_prefix [OF f] by blast
    then show ?thesis using Cons.IH [OF rest] by auto
  qed
qed

text \<open>What a successful run consists of.\<close>

lemma run_aggregate_bfs_parts:
  assumes "run_aggregate_bfs fuel rx ctx names potential s = (Inr (Some touched), s')"
  obtains s1 s2 where "run_aggregates fuel rx ctx (aggregates (bc_plan ctx)) s = (Inr True, s1)"
    and "send_table_dones ctx (bc_order ctx (bs_counts s1)) s1 = (Inr (), s2)"
    and "stream_false_positives ctx potential names s2 = (Inr (), s')" and "touched = bs_touched s'"
  using assms by (auto simp: run_aggregate_bfs_def srv_rules split: if_splits)

lemma start_tally: "ch_sent ch = [] \<Longrightarrow> tally ctx t 0 (bfs_start ch rng)"
  by (simp add: tally_def bfs_start_def)

text \<open>C10: the traversal of the aggregates ends: with fuel for twice as many levels as there are
  rows to look up, it never runs out of it, however cyclic the relations are.\<close>

theorem aggregate_bfs_ends:
  assumes "answers ctx D M" "finite (all_keys ctx D)" "2 * card (all_keys ctx D) < fuel"
  shows "fst (run_aggregate_bfs fuel rx ctx names potential s) \<noteq> Inr None"
proof -
  have "fst (run_aggregates fuel rx ctx aggs s) \<noteq> Inr False" for aggs s
    by (rule run_aggregates_ends [OF assms])
  then show ?thesis
    by (auto simp: run_aggregate_bfs_def sbind_def slift_def sret_def sgets_def split: prod.split sum.split)
      (metis fst_conv)+
qed


section \<open>The static estimate\<close>

lemma leads_relation:
  assumes "leads ctx agg e t r b (t', c, b') v"
  shows "\<not> ra_root_only agg" and "t' \<in> dom (bc_ids ctx)" and "t' \<notin> e"
    and "\<exists>rel \<in> set (relations (bc_plan ctx)).
      from_table rel = t \<and> to_table rel = t' \<and> \<not> b' \<or> b \<and> to_table rel = t \<and> from_table rel = t' \<and> b'"
proof -
  from assms consider (fwd) rel where "rel \<in> set (agg_forward ctx agg e t)" "(t', c, b') = forward_key rel"
    | (bwd) rel where "b" "rel \<in> set (agg_backward ctx agg e t)" "(t', c, b') = backward_key rel"
    unfolding leads_def leads_forward_def leads_backward_def by blast
  then have "\<not> ra_root_only agg \<and> t' \<in> dom (bc_ids ctx) \<and> t' \<notin> e \<and> (\<exists>rel \<in> set (relations (bc_plan ctx)).
      from_table rel = t \<and> to_table rel = t' \<and> \<not> b' \<or> b \<and> to_table rel = t \<and> from_table rel = t' \<and> b')"
  proof cases
    case fwd
    then show ?thesis
      by (auto simp: agg_forward_def get_forward_relations_def relations_by_source_def forward_key_def split: if_splits)
  next
    case bwd
    then show ?thesis
      by (auto simp: agg_backward_def get_backward_relations_def relations_by_target_def backward_key_def split: if_splits)
  qed
  then show "\<not> ra_root_only agg" "t' \<in> dom (bc_ids ctx)" "t' \<notin> e"
    "\<exists>rel \<in> set (relations (bc_plan ctx)).
      from_table rel = t \<and> to_table rel = t' \<and> \<not> b' \<or> b \<and> to_table rel = t \<and> from_table rel = t' \<and> b'"
    by blast+
qed

lemma required_reaches:
  assumes "ra_root_table agg \<in> dom (bc_ids ctx)"
  shows "required ctx agg e D M t r b \<Longrightarrow>
    reaches (bc_plan ctx) (dom (bc_ids ctx)) agg (e \<union> excluded_tables (bc_plan ctx)) t b"
proof (induction rule: required.induct)
  case (required_root r)
  then show ?case using assms by (auto simp: reaches_def walk_start_def intro: reach_start)
next
  case (required_step t r b t' c b' v r')
  let ?ok = "importable_target (bc_plan ctx) (dom (bc_ids ctx)) (e \<union> excluded_tables (bc_plan ctx))"
  have ok: "?ok t'" using required_step.hyps(3) by (auto simp: followed_def importable_target_def)
  note lr = leads_relation [OF required_step.hyps(2)]
  have nr: "\<not> ra_root_only agg" by (rule lr(1))
  have re: "reach (relations (bc_plan ctx)) ?ok (walk_start (dom (bc_ids ctx)) (ra_root_table agg)) t b"
    using required_step.IH nr by (simp add: reaches_def)
  from lr(4) consider
    rel where "rel \<in> set (relations (bc_plan ctx))" "from_table rel = t" "to_table rel = t'" "b' = False"
    | rel where "b" "rel \<in> set (relations (bc_plan ctx))" "to_table rel = t" "from_table rel = t'" "b' = True"
    by blast
  then show ?case
  proof cases
    case 1
    then show ?thesis using reach_forward [of "relations (bc_plan ctx)" ?ok _ rel b] re ok nr by (simp add: reaches_def)
  next
    case 2
    then show ?thesis using reach_backward [of "relations (bc_plan ctx)" ?ok _ rel] re ok nr by (simp add: reaches_def)
  qed
qed


lemma run_aggregates_roots:
  "run_aggregates fuel rx ctx aggs s = (Inr True, s') \<Longrightarrow> agg \<in> set aggs \<Longrightarrow>
     ra_root_table agg \<in> dom (bc_ids ctx)"
proof (induction aggs arbitrary: s)
  case (Cons a aggs)
  then show ?case
    by (cases "bc_ids ctx (ra_root_table a)") (auto simp: srv_rules run_aggregate_def split: if_splits)
qed simp

lemma agg_touched_potential:
  assumes root: "ra_root_table agg \<in> dom (bc_ids ctx)"
  shows "agg_touched rx ctx D M agg \<subseteq>
    potential_spec rx (bc_plan ctx) (dom (bc_ids ctx)) agg \<union> excluded_tables (bc_plan ctx)"
proof (cases "expand_exclude_patterns rx agg (dom (bc_ids ctx))")
  case (Inr e)
  let ?rch = "reaches (bc_plan ctx) (dom (bc_ids ctx)) agg (e \<union> excluded_tables (bc_plan ctx))"
  have "\<exists>c. ?rch t c" if t: "t \<in> touched_by ctx agg e D M" "t \<notin> excluded_tables (bc_plan ctx)" for t
  proof (cases "t = ra_root_table agg")
    case True
    then have "?rch t True" using root by (auto simp: reaches_def walk_start_def intro: reach_start)
    then show ?thesis by blast
  next
    case False
    then obtain t0 r b c b' v where l: "required ctx agg e D M t0 r b" "leads ctx agg e t0 r b (t, c, b') v"
      and full: "t \<notin> full_tables (bc_plan ctx)" using t(1) by (auto simp: touched_by_def)
    note lr = leads_relation [OF l(2)]
    have re: "?rch t0 b" by (rule required_reaches [OF root l(1)])
    have ok: "importable_target (bc_plan ctx) (dom (bc_ids ctx)) (e \<union> excluded_tables (bc_plan ctx)) t"
      using lr(2,3) full t(2) by (simp add: importable_target_def)
    obtain rel where rel: "rel \<in> set (relations (bc_plan ctx))"
      "from_table rel = t0 \<and> to_table rel = t \<and> \<not> b' \<or> b \<and> to_table rel = t0 \<and> from_table rel = t \<and> b'"
      using lr(4) by blast
    from rel(2) show ?thesis
    proof
      assume "from_table rel = t0 \<and> to_table rel = t \<and> \<not> b'"
      then have "?rch t False" using reach_forward [of _ _ _ rel b] re ok rel(1) lr(1) by (auto simp: reaches_def)
      then show ?thesis by blast
    next
      assume "b \<and> to_table rel = t0 \<and> from_table rel = t \<and> b'"
      then have "?rch t True" using reach_backward [of _ _ _ rel] re ok rel(1) lr(1) by (auto simp: reaches_def)
      then show ?thesis by blast
    qed
  qed
  then show ?thesis by (auto simp: agg_touched_def Inr potential_spec_def)
qed (simp add: agg_touched_def)

text \<open>The static estimate covers the run: the tables a run touches include every root and lie within
  the tables the estimate names, or are globally excluded ones (whose rows are never fetched).  So no table
  the server hands to the workers for full streaming, because it is not in the estimate, also
  gets rows from the traversal.\<close>

lemma touched_within_estimate:
  assumes "run_aggregate_bfs fuel rx ctx names potential (bfs_start ch rng) = (Inr (Some touched), s')"
    and "keys_determine ctx D M" "answers ctx D M" "drains ctx"
    and "compute_potential_aggregate_tables rx (bc_plan ctx) (dom (bc_ids ctx)) = Inr estimate"
  shows "ra_root_table ` set (aggregates (bc_plan ctx)) \<subseteq> touched \<and>
    touched \<subseteq> estimate \<union> excluded_tables (bc_plan ctx)"
proof -
  obtain s1 s2 where runs: "run_aggregates fuel rx ctx (aggregates (bc_plan ctx)) (bfs_start ch rng) = (Inr True, s1)"
    and dones: "send_table_dones ctx (bc_order ctx (bs_counts s1)) s1 = (Inr (), s2)"
    and rest: "stream_false_positives ctx potential names s2 = (Inr (), s')" and t: "touched = bs_touched s'"
    by (rule run_aggregate_bfs_parts [OF assms(1)])
  have same: "touched = bs_touched s1"
    using send_table_dones_sends [OF dones] stream_false_positives_keeps [OF rest] t by auto
  have est: "estimate = (\<Union>agg \<in> set (aggregates (bc_plan ctx)). potential_spec rx (bc_plan ctx) (dom (bc_ids ctx)) agg)"
    using assms(5) by (simp add: compute_potential_aggregate_tables_def potential_loop_spec rbind_Inr_iff)
  have "bs_touched s1 \<subseteq> (\<Union>agg \<in> set (aggregates (bc_plan ctx)). agg_touched rx ctx D M agg)"
    using run_aggregates_visits [OF assms(2-4) runs] by (simp add: bfs_start_def)
  also have "\<dots> \<subseteq> estimate \<union> excluded_tables (bc_plan ctx)"
  proof (rule UN_least)
    fix agg assume "agg \<in> set (aggregates (bc_plan ctx))"
    then show "agg_touched rx ctx D M agg \<subseteq> estimate \<union> excluded_tables (bc_plan ctx)"
      using agg_touched_potential [OF run_aggregates_roots [OF runs], of agg] unfolding est by blast
  qed
  finally show ?thesis
    using run_aggregates_visits [OF assms(2-4) runs] by (simp add: same)
qed

section \<open>A sample run\<close>

text \<open>
  A parent table with one row, and a child table with a row that refers to it and a row that
  refers to nothing; the parent is the root of the only aggregate.
\<close>

definition parent_row :: mysql_row where
  "parent_row = \<lparr>r_columns = [''id''], r_values = [Some (MInt 1)]\<rparr>"
definition child_row :: "i64 \<Rightarrow> mysql_value \<Rightarrow> mysql_row" where
  "child_row i v = \<lparr>r_columns = [''id'', ''pid''], r_values = [Some (MInt i), Some v]\<rparr>"

definition tiny_content :: "string \<Rightarrow> mysql_row set" where
  "tiny_content t =
     (if t = ''p'' then {parent_row} else if t = ''c'' then {child_row 7 (MInt 1), child_row 8 MNull} else {})"

definition tiny_match :: matcher where
  "tiny_match t c v r =
     (case link r c of None \<Rightarrow> False | Some w \<Rightarrow> value_to_compact_key w = value_to_compact_key v)"

definition tiny_cols :: "string \<Rightarrow> column_def list" where
  "tiny_cols t = text_column ''id'' ''INT'' # (if t = ''c'' then [text_column ''pid'' ''INT''] else [])"
definition tiny_db :: db where
  "tiny_db =
     \<lparr>db_columns = \<lambda>t. Inr (tiny_cols t),
      db_indexes = \<lambda>_. Inr [],
      db_options = \<lambda>_. Inr \<lparr>to_engine = None, to_charset = None, to_collation = None, to_row_format = None\<rparr>,
      db_primary_key = \<lambda>_. Some [''id''],
      db_query = \<lambda>q. if q = ''SELECT * FROM `p`'' then Inr [Inr parent_row] else Inl (SeMySql ''unexpected''),
      db_exec = \<lambda>q vs.
        if q = in_query ''c'' ''pid'' (length vs)
        then Inr (map Inr (filter (\<lambda>r. \<exists>v \<in> set vs. tiny_match ''c'' ''pid'' v r) [child_row 7 (MInt 1), child_row 8 MNull]))
        else if q = in_query ''p'' ''id'' (length vs)
        then Inr (map Inr (filter (\<lambda>r. \<exists>v \<in> set vs. tiny_match ''p'' ''id'' v r) [parent_row]))
        else Inl (SeMySql ''unexpected'')\<rparr>"

definition tiny_agg :: resolved_aggregate where
  "tiny_agg =
     \<lparr>ra_name = ''agg'', ra_root_table = ''p'', ra_where = None, ra_order_by = None,
      ra_direction = None, ra_limit = None, ra_exclude_tables = [], ra_exclude_patterns = [],
      ra_root_only = False\<rparr>"

definition tiny_plan :: execution_plan where
  "tiny_plan = empty_plan\<lparr>aggregates := [tiny_agg],
     relations := [\<lparr>from_table = ''c'', from_column = ''pid'', to_table = ''p'', to_column = ''id''\<rparr>]\<rparr>"

definition tiny_ids :: "string \<rightharpoonup> u16" where "tiny_ids = [''p'' \<mapsto> 0, ''c'' \<mapsto> 1]"

definition tiny_env :: "nat stream_env" where
  "tiny_env = sample_env\<lparr>se_compression := CNone\<rparr>"

definition tiny_ctx :: "nat bfs_ctx" where
  "tiny_ctx = \<lparr>bc_env = tiny_env, bc_db = tiny_db, bc_plan = tiny_plan,
     bc_ids = tiny_ids, bc_drain = (\<lambda>p. p), bc_order = (\<lambda>c. c)\<rparr>"

definition tiny_start :: "nat bfs_state" where
  "tiny_start = bfs_start (sample_channel None) 0"


definition parent_writer :: "nat tsv_writer" where
  "parent_writer = write_row decimal_formats round_robin (r_values parent_row) (tsv_writer_new (tiny_cols ''p'') [] Map.empty 0)"
definition child_writer :: "nat tsv_writer" where
  "child_writer = write_row decimal_formats round_robin (r_values (child_row 7 (MInt 1))) (tsv_writer_new (tiny_cols ''c'') [] Map.empty 0)"

lemma writers: "length (tw_buffer parent_writer) = 10" "tw_rng parent_writer = 0"
  "length (tw_buffer child_writer) = 12" "tw_rng child_writer = 0"
  by code_simp+


lemma writer_sizes: "\<not> CHUNK_BYTE_LIMIT \<le> tw_buffer_size parent_writer" "\<not> CHUNK_BYTE_LIMIT \<le> tw_buffer_size child_writer"
  "\<not> tw_is_empty parent_writer" "\<not> tw_is_empty child_writer"
  by (simp_all add: CHUNK_BYTE_LIMIT_def tw_buffer_size_def tw_is_empty_def writers RAW_CHUNK_HEADER_LEN_def)


lemma emit_one:
  "\<not> CHUNK_BYTE_LIMIT \<le> tw_buffer_size (write_row (se_formats env) (se_pick env) (r_values row) w) \<Longrightarrow>
     emit_row env i row (w, 0) ch = (Inr (write_row (se_formats env) (se_pick env) (r_values row) w, 1), ch)"
  by (simp add: emit_row_def sret_def CHUNK_ROW_LIMIT_def word_le_nat_alt)

lemma tiny_emit:
  "emit_row tiny_env i parent_row (tsv_writer_new (tiny_cols ''p'') [] Map.empty 0, 0) ch = (Inr (parent_writer, 1), ch)"
  "emit_row tiny_env i (child_row 7 (MInt 1)) (tsv_writer_new (tiny_cols ''c'') [] Map.empty 0, 0) ch = (Inr (child_writer, 1), ch)"
  using writer_sizes emit_one [of tiny_env parent_row] emit_one [of tiny_env "child_row 7 (MInt 1)"]
  unfolding parent_writer_def child_writer_def by (simp_all add: tiny_env_def sample_env_def)


definition frame_of :: "nat tsv_writer \<Rightarrow> u16 \<Rightarrow> bytes" where
  "frame_of w i = (case take_encoded_chunk toy_zstd i 1 CNone w of Inr (f, _) \<Rightarrow> f | Inl _ \<Rightarrow> [])"

lemma tiny_flush:
  assumes "ch_limit ch = None" "w \<in> {parent_writer, child_writer}"
  shows "flush_rows tiny_env i (w, 1) ch =
      (Inr (w\<lparr>tw_buffer := header_space\<rparr>), ch\<lparr>ch_sent := ch_sent ch @ [EncodedChunk (frame_of w i)]\<rparr>)"
proof -
  have "\<not> tw_is_empty w" using assms(2) writer_sizes by blast
  then show ?thesis
    using assms(1)
    by (simp add: flush_rows_def send_chunk_def tiny_env_def sample_env_def take_encoded_chunk_def Let_def
        sbind_def slift_def sret_def ch_send_def channel_open_def map_error_def frame_of_def)
qed

lemma tiny_flush0: "flush_rows tiny_env i (w, 0) ch = (Inr w, ch)"
  by (simp add: flush_rows_def sret_def)


definition tiny_rel :: relation where
  "tiny_rel = \<lparr>from_table = ''c'', from_column = ''pid'', to_table = ''p'', to_column = ''id''\<rparr>"

definition tiny_tc :: "string \<Rightarrow> u16 \<Rightarrow> relation list \<Rightarrow> relation list \<Rightarrow> table_ctx" where
  "tiny_tc t i fwd bwd =
     \<lparr>tc_table = t, tc_id = i, tc_columns = tiny_cols t, tc_indexes = [],
      tc_options = \<lparr>to_engine = None, to_charset = None, to_collation = None, to_row_format = None\<rparr>,
      tc_pk = [''id''], tc_forward = fwd, tc_backward = bwd\<rparr>"

lemma tiny_ctx_simps [simp]:
  "bc_env tiny_ctx = tiny_env" "bc_ids tiny_ctx = tiny_ids" "bc_drain tiny_ctx p = p" "bc_order tiny_ctx c = c"
  "relations (bc_plan tiny_ctx) = [tiny_rel]" "aggregates (bc_plan tiny_ctx) = [tiny_agg]"
  "full_tables (bc_plan tiny_ctx) = {}" "excluded_tables (bc_plan tiny_ctx) = {}"
  "db_query (bc_db tiny_ctx) (build_root_query tiny_agg) = Inr [Inr parent_row]"
  "dom tiny_ids = {''p'', ''c''}" "tiny_ids ''p'' = Some 0" "tiny_ids ''c'' = Some 1"
  "ra_root_table tiny_agg = ''p''" "\<not> ra_root_only tiny_agg"
  "table_context tiny_ctx t i fwd bwd = Inr (tiny_tc t i fwd bwd)"
  "new_run tiny_ctx (tiny_tc t i fwd bwd) rng =
     \<lparr>tr_chunk = (tsv_writer_new (tiny_cols t) [] Map.empty rng, 0), tr_fwd = replicate (length fwd) [],
      tr_bwd = replicate (length bwd) []\<rparr>"
  by (auto simp: tiny_ctx_def tiny_plan_def empty_plan_def tiny_rel_def tiny_db_def tiny_agg_def build_root_query_def
      bquoted_def tiny_ids_def table_context_def tiny_tc_def new_run_def)

lemma tiny_tc_simps [simp]:
  "tc_table (tiny_tc t i fwd bwd) = t" "tc_id (tiny_tc t i fwd bwd) = i" "tc_columns (tiny_tc t i fwd bwd) = tiny_cols t"
  "tc_pk (tiny_tc t i fwd bwd) = [''id'']" "tc_forward (tiny_tc t i fwd bwd) = fwd" "tc_backward (tiny_tc t i fwd bwd) = bwd"
  by (simp_all add: tiny_tc_def)

lemma tiny_keys [simp]:
  "row_pk_key parent_row [''id''] = KInt 1" "row_pk_key (child_row i v) [''id''] = KInt i"
  "get_opt parent_row ''id'' = Some (MInt 1)" "get_opt (child_row i v) ''pid'' = Some v"
  "get_opt (child_row i v) ''id'' = Some (MInt i)"
  by (simp_all add: row_pk_key_def extract_pk_from_row_def parent_row_def child_row_def get_opt_def row_value_def
      value_to_compact_key_def or_null_def)

lemma tiny_relations [simp]:
  "get_forward_relations ''p'' [tiny_rel] {''p'', ''c''} {} = []"
  "get_backward_relations ''p'' [tiny_rel] {''p'', ''c''} {} = [tiny_rel]"
  "get_forward_relations ''c'' [tiny_rel] {''p'', ''c''} {} = [tiny_rel]"
  "get_backward_relations ''c'' [tiny_rel] {''p'', ''c''} {} = []"
  by (simp_all add: get_forward_relations_def relations_by_source_def get_backward_relations_def relations_by_target_def tiny_rel_def)

lemmas run_defs = Let_def sbind_def slift_def sret_def sgets_def smodify_def on_channel_def ch_send_def channel_open_def


lemma tiny_push [simp]:
  "push_values to_column parent_row [tiny_rel] [[]] = [[MInt 1]]"
  "push_values from_column (child_row i (MInt 1)) [tiny_rel] [[]] = [[MInt 1]]"
  by (simp_all add: push_values_def tiny_rel_def)


lemma tiny_dedupe [simp]: "dedupe_values [v] = [v]"
  by (simp add: dedupe_values_def)

lemma tiny_seed [simp]:
  "seed_pending target [] vecs p = p" "seed_pending target [tiny_rel] [[]] p = p"
  "seed_pending target [tiny_rel] [[v]] p = add_pending (target tiny_rel) [v] p"
  by (simp_all add: seed_pending_def)

lemma tiny_targets [simp]:
  "add_pending (backward_key tiny_rel) vs [] = [((''c'', ''pid'', True), vs)]"
  "add_pending (forward_key tiny_rel) vs [] = [((''p'', ''id'', False), vs)]"
  by (simp_all add: add_pending_def backward_key_def forward_key_def tiny_rel_def)

lemmas row_defs = root_row_def level_row_def send_schema_once_def expand_row_def emit_new_def count_row_def
  finish_rows_def add_to_def fun_eq_iff

lemma tiny_root:
  "\<exists>s. aggregate_root tiny_ctx tiny_agg {} 0 (start_aggregate (tiny_start\<lparr>bs_touched := {''p''}\<rparr>)) = (Inr (), s) \<and>
    ch_limit (bs_channel s) = None \<and> bs_rng s = 0 \<and> bs_visited s = (\<lambda>_. {})(''p'' := {KInt 1}) \<and> bs_touched s = {''p''} \<and>
    bs_schemas s = {''p''} \<and> bs_counts s = [(''p'', 1)] \<and> bs_expanded_fwd s = (\<lambda>_. {}) \<and>
    bs_expanded_bwd s = (\<lambda>_. {})(''p'' := {KInt 1}) \<and> bs_pending s = [((''c'', ''pid'', True), [MInt 1])]"
  by (simp add: aggregate_root_def run_defs tiny_start_def bfs_start_def start_aggregate_def writers row_defs
    sample_channel_def tiny_emit tiny_flush)

lemma in_query_inject:
  assumes "in_query t c n = in_query t' c' n"
  shows "t @ ''` WHERE `'' @ c = t' @ ''` WHERE `'' @ c'"
  using assms by (simp add: in_query_def bquoted_def)

lemma tiny_child_query: "in_query t c n = in_query ''c'' ''pid'' n \<longleftrightarrow> t = ''c'' \<and> c = ''pid''"
proof
  assume "in_query t c n = in_query ''c'' ''pid'' n"
  from in_query_inject [OF this] show "t = ''c'' \<and> c = ''pid''"
    by (auto simp: append_eq_Cons_conv)
qed simp

lemma tiny_parent_query: "in_query t c n = in_query ''p'' ''id'' n \<longleftrightarrow> t = ''p'' \<and> c = ''id''"
proof
  assume "in_query t c n = in_query ''p'' ''id'' n"
  from in_query_inject [OF this] show "t = ''p'' \<and> c = ''id''"
    by (auto simp: append_eq_Cons_conv)
qed simp

lemma tiny_links [simp]:
  "tiny_match ''c'' ''pid'' v (child_row i MNull) = False"
  "tiny_match ''c'' ''pid'' v (child_row i (MInt j)) \<longleftrightarrow> KInt j = value_to_compact_key v"
  "tiny_match ''p'' ''id'' v parent_row \<longleftrightarrow> KInt 1 = value_to_compact_key v"
  by (simp_all add: tiny_match_def link_def value_to_compact_key_def normalize_value_def)

lemma tiny_exec [simp]:
  "db_exec (bc_db tiny_ctx) (in_query ''c'' ''pid'' (Suc 0)) [MInt 1] = Inr [Inr (child_row 7 (MInt 1))]"
  "db_exec (bc_db tiny_ctx) (in_query ''p'' ''id'' (Suc 0)) [MInt 1] = Inr [Inr parent_row]"
  by (simp_all add: tiny_ctx_def tiny_db_def tiny_parent_query tiny_child_query value_to_compact_key_def normalize_value_def)

lemma tiny_level1:
  assumes "ch_limit (bs_channel s) = None" "bs_rng s = 0" "bs_visited s = (\<lambda>_. {})(''p'' := {KInt 1})"
    "bs_touched s = {''p''}" "bs_schemas s = {''p''}" "bs_counts s = [(''p'', 1)]" "bs_expanded_fwd s = (\<lambda>_. {})"
    "bs_expanded_bwd s = (\<lambda>_. {})(''p'' := {KInt 1})" "bs_pending s = []"
  shows "\<exists>s'. level_entry tiny_ctx {} ((''c'', ''pid'', True), [MInt 1]) s = (Inr (), s') \<and>
    ch_limit (bs_channel s') = None \<and> bs_rng s' = 0 \<and>
    bs_visited s' = (\<lambda>_. {})(''p'' := {KInt 1}, ''c'' := {KInt 7}) \<and> bs_touched s' = {''c'', ''p''} \<and>
    bs_counts s' = [(''p'', 1), (''c'', 1)] \<and> bs_pending s' = [((''p'', ''id'', False), [MInt 1])]"
  using assms
  by (simp add: level_entry_def level_table_def run_defs writers row_defs tiny_emit tiny_flush default_count_def MAX_IN_VALUES_def)


lemma tiny_level2:
  assumes "ch_limit (bs_channel s) = None" "KInt 1 \<in> bs_visited s ''p''" "bs_pending s = []"
    "bs_counts s = [(''p'', 1), (''c'', 1)]"
  shows "\<exists>s'. level_entry tiny_ctx {} ((''p'', ''id'', False), [MInt 1]) s = (Inr (), s') \<and>
    ch_limit (bs_channel s') = None \<and> bs_touched s' = insert ''p'' (bs_touched s) \<and>
    bs_counts s' = [(''p'', 1), (''c'', 1)] \<and> bs_pending s' = []"
  using assms
  by (simp add: level_entry_def level_table_def run_defs writers row_defs tiny_flush0 default_count_def MAX_IN_VALUES_def entry_update_keys)

lemma tiny_patterns [simp]: "expand_exclude_patterns rx tiny_agg X = Inr {}"
  by (simp add: expand_exclude_patterns_def tiny_agg_def)

lemma tiny_start_simps [simp]: "bs_touched tiny_start = {}"
  by (simp add: tiny_start_def bfs_start_def)

lemma tiny_aggregates:
  "\<exists>s'. run_aggregates 7 rx tiny_ctx [tiny_agg] tiny_start = (Inr True, s') \<and>
    ch_limit (bs_channel s') = None \<and> bs_touched s' = {''c'', ''p''} \<and> bs_counts s' = [(''p'', 1), (''c'', 1)]"
proof -
  obtain s1 where s1: "aggregate_root tiny_ctx tiny_agg {} 0 (start_aggregate (tiny_start\<lparr>bs_touched := {''p''}\<rparr>)) = (Inr (), s1)"
    "ch_limit (bs_channel s1) = None" "bs_rng s1 = 0" "bs_visited s1 = (\<lambda>_. {})(''p'' := {KInt 1})" "bs_touched s1 = {''p''}"
    "bs_schemas s1 = {''p''}" "bs_counts s1 = [(''p'', 1)]" "bs_expanded_fwd s1 = (\<lambda>_. {})"
    "bs_expanded_bwd s1 = (\<lambda>_. {})(''p'' := {KInt 1})" "bs_pending s1 = [((''c'', ''pid'', True), [MInt 1])]"
    using tiny_root by blast
  obtain s2 where s2: "level_entry tiny_ctx {} ((''c'', ''pid'', True), [MInt 1]) (s1\<lparr>bs_pending := []\<rparr>) = (Inr (), s2)"
    "ch_limit (bs_channel s2) = None" "bs_visited s2 = (\<lambda>_. {})(''p'' := {KInt 1}, ''c'' := {KInt 7})"
    "bs_touched s2 = {''c'', ''p''}" "bs_counts s2 = [(''p'', 1), (''c'', 1)]"
    "bs_pending s2 = [((''p'', ''id'', False), [MInt 1])]"
    using tiny_level1 [of "s1\<lparr>bs_pending := []\<rparr>"] s1 by auto
  obtain s3 where s3: "level_entry tiny_ctx {} ((''p'', ''id'', False), [MInt 1]) (s2\<lparr>bs_pending := []\<rparr>) = (Inr (), s3)"
    "ch_limit (bs_channel s3) = None" "bs_touched s3 = {''c'', ''p''}"
    "bs_counts s3 = [(''p'', 1), (''c'', 1)]" "bs_pending s3 = []"
    using tiny_level2 [of "s2\<lparr>bs_pending := []\<rparr>"] s2 by (auto simp: insert_commute)
  have l: "bfs_loop 7 tiny_ctx {} s1 = (Inr True, s3)"
    using s1(10) s2(1,6) s3(1,5) by (simp add: bfs_loop.simps sbind_def sret_def)
  then have "run_aggregates 7 rx tiny_ctx [tiny_agg] tiny_start = (Inr True, s3)"
    using s1(1) by (simp add: run_aggregate_def sbind_def smodify_def slift_def sret_def)
  then show ?thesis using s3 by blast
qed

lemma tiny_run:
  "\<exists>s'. run_aggregate_bfs 7 rx tiny_ctx [''p'', ''c''] {''p'', ''c''} tiny_start = (Inr (Some {''c'', ''p''}), s')"
proof -
  obtain s1 where s1: "run_aggregates 7 rx tiny_ctx [tiny_agg] tiny_start = (Inr True, s1)"
    "ch_limit (bs_channel s1) = None" "bs_touched s1 = {''c'', ''p''}" "bs_counts s1 = [(''p'', 1), (''c'', 1)]"
    using tiny_aggregates by blast
  have "db_columns (bc_db tiny_ctx) t = Inr (tiny_cols t)" for t by (simp add: tiny_ctx_def tiny_db_def)
  then show ?thesis
    using s1 by (simp add: run_aggregate_bfs_def run_defs false_positive_def)
qed

lemma tiny_answers: "answers tiny_ctx tiny_content tiny_match"
  unfolding answers_def
proof (intro allI impI)
  fix t c vs rs
  assume r: "db_exec (bc_db tiny_ctx) (in_query t c (length vs)) vs = Inr (map Inr rs)"
  have inj: "inj (Inr :: mysql_row \<Rightarrow> server_error + mysql_row)" by simp
  from r consider "t = ''c''" "c = ''pid''" "rs = filter (\<lambda>r. \<exists>v \<in> set vs. tiny_match t c v r) [child_row 7 (MInt 1), child_row 8 MNull]"
    | "t = ''p''" "c = ''id''" "rs = filter (\<lambda>r. \<exists>v \<in> set vs. tiny_match t c v r) [parent_row]"
    by (auto simp: tiny_ctx_def tiny_db_def tiny_child_query tiny_parent_query split: if_splits
        dest!: map_injective [OF _ inj])
  then show "set rs = {r \<in> tiny_content t. \<exists>v \<in> set vs. tiny_match t c v r}"
    by cases (auto simp: tiny_content_def)
qed

lemma tiny_table_rows: "table_rows tiny_ctx tiny_content t = tiny_content t"
  by (auto simp: table_rows_def root_rows_def tiny_content_def)

lemma tiny_keys_determine: "keys_determine tiny_ctx tiny_content tiny_match"
proof -
  have "row_key tiny_ctx t r = row_key tiny_ctx t r' \<Longrightarrow> r \<in> tiny_content t \<Longrightarrow> r' \<in> tiny_content t \<Longrightarrow> r = r'" for t r r'
    by (auto simp: row_key_def table_pk_def tiny_ctx_def tiny_db_def tiny_content_def split: if_splits)
  then show ?thesis unfolding keys_determine_def tiny_table_rows
    by (auto simp: tiny_match_def split: option.splits)
qed

lemma tiny_drains: "drains tiny_ctx" by (simp add: drains_def)

lemma tiny_all_keys: "finite (all_keys tiny_ctx tiny_content)" "card (all_keys tiny_ctx tiny_content) \<le> 3"
proof -
  have sub: "all_keys tiny_ctx tiny_content \<subseteq> {(''p'', KInt 1), (''c'', KInt 7), (''c'', KInt 8)}"
    by (auto simp: all_keys_def row_key_def table_pk_def tiny_ctx_def tiny_db_def tiny_content_def split: if_splits)
  show "finite (all_keys tiny_ctx tiny_content)" by (rule finite_subset [OF sub]) simp
  show "card (all_keys tiny_ctx tiny_content) \<le> 3"
    using card_mono [OF _ sub] by simp
qed

text \<open>The child row that refers to the parent is required, and counted.\<close>

theorem aggregate_bfs_ends_witness:
  "fst (run_aggregate_bfs 7 Inl tiny_ctx [''p'', ''c''] {} tiny_start) \<noteq> Inr None"
  by (rule aggregate_bfs_ends [OF tiny_answers tiny_all_keys(1)]) (use tiny_all_keys(2) in simp)


lemma touched_within_estimate_witness:
  "\<exists>estimate. compute_potential_aggregate_tables Inl (bc_plan tiny_ctx) {''p'', ''c''} = Inr estimate \<and>
     {''c'', ''p''} \<subseteq> estimate"
proof -
  obtain s' where s': "run_aggregate_bfs 7 Inl tiny_ctx [''p'', ''c''] {''p'', ''c''} (bfs_start (sample_channel None) 0) =
      (Inr (Some {''c'', ''p''}), s')"
    using tiny_run [of Inl] by (auto simp: tiny_start_def)
  obtain est where est: "compute_potential_aggregate_tables Inl (bc_plan tiny_ctx) (dom (bc_ids tiny_ctx)) = Inr est"
    by (simp add: compute_potential_aggregate_tables_def potential_loop_spec)
  from touched_within_estimate [OF s' tiny_keys_determine tiny_answers tiny_drains est] est
  show ?thesis by simp
qed

end
