(* ===== verification/Discovery.thy ===== *)
theory Discovery
  imports Stream
begin

text \<open>
  Schema discovery on the server (\<open>crates/server/src/mysql.rs\<close>): the tables, their columns, keys,
  indexes and options, and the foreign keys of the schema, with the caches of the connection.

  What MySQL answers to a request is a parameter: the record \<open>catalog\<close>.  A request whose text is
  built from the table name is looked up by that text; a field of a row is \<open>None\<close> when it is
  absent, NULL or does not convert.  Names of types and index types are ASCII, for which
  \<open>to_uppercase\<close> is \<open>ascii_upper\<close>.  The lemmas show that the ids of the tables number them in
  order, that the caches do not change an answer, and that grouping the rows of the catalogue
  into indexes and foreign keys neither loses nor invents a row.
\<close>

section \<open>The catalogue and the caches\<close>

record key_row =
  kr_seq :: "u32 option"
  kr_column :: "string option"

record column_row =
  cr_name :: "string option"
  cr_data_type :: "string option"
  cr_max_length :: "u64 option"
  cr_nullable :: "string option"
  cr_charset :: "string option"
  cr_collation :: "string option"
  cr_column_type :: "string option"
  cr_extra :: "string option"

record index_row =
  ir_key_name :: "string option"
  ir_non_unique :: "i64 option"
  ir_seq :: "u32 option"
  ir_column :: "string option"
  ir_sub_part :: "u32 option"
  ir_collation :: "string option"
  ir_index_type :: "string option"
  ir_expression :: "string option"

record option_row =
  or_engine :: "string option"
  or_collation :: "string option"
  or_row_format :: "string option"

record usage_row =
  ur_constraint :: "string option"
  ur_table :: "string option"
  ur_column :: "string option"
  ur_ref_table :: "string option"
  ur_ref_column :: "string option"

record fk_row =
  fr_table :: string
  fr_constraint :: string
  fr_column :: string
  fr_ref_table :: string
  fr_ref_column :: string
  fr_update_rule :: string
  fr_delete_rule :: string

record catalog =
  ct_tables :: "server_error + string list"
  ct_status :: "string \<Rightarrow> server_error + u64 option option"
  ct_keys :: "string \<Rightarrow> server_error + key_row list"
  ct_columns :: "string \<Rightarrow> server_error + column_row list"
  ct_indexes :: "string \<Rightarrow> server_error + index_row list"
  ct_options :: "string \<Rightarrow> server_error + option_row option"
  ct_usage :: "server_error + usage_row list"
  ct_references :: "server_error + fk_row list"
  ct_count :: "string \<Rightarrow> server_error + u64 option"

record connection =
  cn_schemas :: "string \<rightharpoonup> column_def list"
  cn_primary_keys :: "string \<rightharpoonup> string list"
  cn_indexes :: "string \<rightharpoonup> index_def list"
  cn_options :: "string \<rightharpoonup> table_options"

definition fresh_connection :: connection where
  "fresh_connection =
     \<lparr>cn_schemas = Map.empty, cn_primary_keys = Map.empty, cn_indexes = Map.empty, cn_options = Map.empty\<rparr>"

definition escape_identifier :: "string \<Rightarrow> string" where
  "escape_identifier s = concat (map (\<lambda>c. if c = CHR ''`'' then ''``'' else [c]) s)"

definition ascii_upper :: "string \<Rightarrow> string" where
  "ascii_upper = map (\<lambda>c. if 97 \<le> (of_char c :: nat) \<and> (of_char c :: nat) \<le> 122 then char_of (of_char c - 32 :: nat) else c)"

definition or_default :: "'a \<Rightarrow> 'a option \<Rightarrow> 'a" where
  "or_default d v = (case v of Some x \<Rightarrow> x | None \<Rightarrow> d)"

section \<open>Tables\<close>

definition get_estimated_row_count :: "catalog \<Rightarrow> string \<Rightarrow> server_error + u64" where
  "get_estimated_row_count ct table =
     rbind (ct_status ct (''SHOW TABLE STATUS LIKE '' @ squote # escape_identifier table @ [squote])) (\<lambda>row.
     Inr (case row of Some (Some n) \<Rightarrow> n | _ \<Rightarrow> 0))"

text \<open>A value that is read through a cache.\<close>

definition cached ::
  "(connection \<Rightarrow> string \<rightharpoonup> 'a) \<Rightarrow> (string \<Rightarrow> 'a \<Rightarrow> connection \<Rightarrow> connection) \<Rightarrow> string \<Rightarrow>
     (connection, 'a) srv \<Rightarrow> (connection, 'a) srv" where
  "cached look store table fetch cn =
     (case look cn table of
        Some v \<Rightarrow> (Inr v, cn)
      | None \<Rightarrow> sbind fetch (\<lambda>v cn'. (Inr v, store table v cn')) cn)"

definition store_primary_key :: "string \<Rightarrow> string list \<Rightarrow> connection \<Rightarrow> connection" where
  "store_primary_key t v cn = cn\<lparr>cn_primary_keys := (cn_primary_keys cn)(t \<mapsto> v)\<rparr>"

definition store_schema :: "string \<Rightarrow> column_def list \<Rightarrow> connection \<Rightarrow> connection" where
  "store_schema t v cn = cn\<lparr>cn_schemas := (cn_schemas cn)(t \<mapsto> v)\<rparr>"

definition store_indexes :: "string \<Rightarrow> index_def list \<Rightarrow> connection \<Rightarrow> connection" where
  "store_indexes t v cn = cn\<lparr>cn_indexes := (cn_indexes cn)(t \<mapsto> v)\<rparr>"

definition store_options :: "string \<Rightarrow> table_options \<Rightarrow> connection \<Rightarrow> connection" where
  "store_options t v cn = cn\<lparr>cn_options := (cn_options cn)(t \<mapsto> v)\<rparr>"

definition key_columns :: "key_row list \<Rightarrow> string list" where
  "key_columns rows =
     map snd (sort_key (\<lambda>p. unat (fst p))
       (map (\<lambda>r. (or_default 0 (kr_seq r), or_default [] (kr_column r))) rows))"

definition get_primary_key :: "catalog \<Rightarrow> string \<Rightarrow> (connection, string list) srv" where
  "get_primary_key ct table =
     cached cn_primary_keys store_primary_key table
       (sbind (slift (ct_keys ct (''SHOW KEYS FROM `'' @ escape_identifier table @ ''` WHERE Key_name = '' @
           squote # ''PRIMARY'' @ [squote]))) (\<lambda>rows.
        sret (key_columns rows)))"

definition column_of_row :: "string list \<Rightarrow> column_row \<Rightarrow> column_def" where
  "column_of_row pk r =
     (let name = or_default [] (cr_name r); column_type = or_default [] (cr_column_type r) in
      \<lparr>cd_name = name,
       cd_type_name = ascii_upper (or_default [] (cr_data_type r)),
       cd_full_type = column_type,
       cd_max_length = cr_max_length r,
       cd_nullable = (or_default [] (cr_nullable r) = ''YES''),
       cd_is_primary_key = (name \<in> set pk),
       cd_charset = cr_charset r,
       cd_collation = cr_collation r,
       cd_flags =
         \<lparr>cf_unsigned = contains column_type ''unsigned'',
          cf_zerofill = contains column_type ''zerofill'',
          cf_binary = contains column_type ''binary'',
          cf_auto_increment = contains (or_default [] (cr_extra r)) ''auto_increment''\<rparr>\<rparr>)"

definition get_column_defs :: "catalog \<Rightarrow> string \<Rightarrow> (connection, column_def list) srv" where
  "get_column_defs ct table =
     cached cn_schemas store_schema table
       (sbind (get_primary_key ct table) (\<lambda>pk.
        sbind (slift (ct_columns ct table)) (\<lambda>rows.
        sret (map (column_of_row pk) rows))))"

text \<open>The patterns of the plan.\<close>

definition compile_plan_pattern :: "regex_engine \<Rightarrow> string \<Rightarrow> server_error + (string \<Rightarrow> bool)" where
  "compile_plan_pattern rx p =
     (case rx p of
        Inl e \<Rightarrow> Inl (SeConfig (''Invalid regex pattern '' @ squote # p @ squote # '': '' @ e))
      | Inr m \<Rightarrow> Inr m)"

definition compile_patterns :: "regex_engine \<Rightarrow> string list \<Rightarrow> server_error + (string \<Rightarrow> bool) list" where
  "compile_patterns rx ps = rmap (compile_plan_pattern rx) ps"

definition expand_table ::
  "(string \<Rightarrow> bool) list \<Rightarrow> (string \<Rightarrow> bool) list \<Rightarrow> (string \<Rightarrow> bool) list \<Rightarrow> string \<Rightarrow> execution_plan \<Rightarrow> execution_plan" where
  "expand_table ignored excluded full table plan =
     (let plan1 = (if \<exists>m \<in> set ignored. m table then plan\<lparr>ignored_tables := insert table (ignored_tables plan)\<rparr> else plan);
          plan2 = (if \<exists>m \<in> set excluded. m table then plan1\<lparr>excluded_tables := insert table (excluded_tables plan1)\<rparr> else plan1)
      in if \<exists>m \<in> set full. m table then plan2\<lparr>full_tables := insert table (full_tables plan2)\<rparr> else plan2)"

fun number_tables ::
  "catalog \<Rightarrow> string set \<Rightarrow> string list \<Rightarrow> u16 \<Rightarrow> (connection, table_info list) srv" where
  "number_tables ct ignored [] next_id = sret []"
| "number_tables ct ignored (table # tables) next_id =
     (if table \<in> ignored then number_tables ct ignored tables next_id
      else
        sbind (slift (get_estimated_row_count ct table)) (\<lambda>estimated_rows.
        sbind (get_primary_key ct table) (\<lambda>primary_key.
        sbind (get_column_defs ct table) (\<lambda>schema.
        sbind (\<lambda>cn. (Inr (), store_primary_key table primary_key (store_schema table schema cn))) (\<lambda>_.
        sbind (number_tables ct ignored tables (next_id + 1)) (\<lambda>infos.
        sret (\<lparr>ti_name = table, ti_table_id = next_id, ti_estimated_rows = estimated_rows,
               ti_primary_key = primary_key\<rparr> # infos)))))))"

definition discover_tables ::
  "regex_engine \<Rightarrow> catalog \<Rightarrow> execution_plan \<Rightarrow> (connection, table_info list \<times> execution_plan) srv" where
  "discover_tables rx ct plan =
     sbind (slift (ct_tables ct)) (\<lambda>names.
     sbind (slift (compile_patterns rx (ignored_patterns plan))) (\<lambda>ignored.
     sbind (slift (compile_patterns rx (excluded_patterns plan))) (\<lambda>excluded.
     sbind (slift (compile_patterns rx (full_patterns plan))) (\<lambda>full.
     let plan' = fold (expand_table ignored excluded full) names plan in
     sbind (number_tables ct (ignored_tables plan') names 0) (\<lambda>infos.
     sret (infos, plan'))))))"

definition count_rows :: "catalog \<Rightarrow> string \<Rightarrow> string option \<Rightarrow> server_error + u64" where
  "count_rows ct table where_clause =
     rbind (ct_count ct (''SELECT COUNT(*) FROM `'' @ escape_identifier table @ ''`'' @
         (case where_clause of Some c \<Rightarrow> '' WHERE '' @ c | None \<Rightarrow> ''''))) (\<lambda>n.
     Inr (or_default 0 n))"

section \<open>Indexes and options\<close>

definition index_kind_of :: "string \<Rightarrow> index_kind" where
  "index_kind_of t =
     (let u = ascii_upper t in
      if u = ''FULLTEXT'' then Fulltext
      else if u = ''SPATIAL'' \<or> u = ''RTREE'' then Spatial
      else if u = ''HASH'' then Hash else BTree)"

record index_groups =
  ig_order :: "string list"
  ig_defs :: "string \<rightharpoonup> index_def"
  ig_parts :: "string \<rightharpoonup> (u32 \<times> index_column) list"

definition add_index_row :: "index_row \<Rightarrow> index_groups \<Rightarrow> index_groups" where
  "add_index_row r g =
     (let key_name = or_default [] (ir_key_name r) in
      if key_name = ''PRIMARY'' then g
      else
        (let part = \<lparr>ic_name = or_default [] (ir_column r), ic_prefix_len = ir_sub_part r,
                     ic_descending = (ir_collation r = Some ''D''), ic_expression = ir_expression r\<rparr>;
             g1 = (if key_name \<in> dom (ig_defs g) then g
                   else g\<lparr>ig_order := ig_order g @ [key_name],
                          ig_defs := (ig_defs g)(key_name \<mapsto>
                            \<lparr>ix_name = key_name, ix_columns = [],
                             ix_unique = (or_default 1 (ir_non_unique r) = 0),
                             ix_kind = index_kind_of (or_default [] (ir_index_type r))\<rparr>)\<rparr>)
         in g1\<lparr>ig_parts := (ig_parts g1)(key_name \<mapsto>
              or_default [] (ig_parts g1 key_name) @ [(or_default 0 (ir_seq r), part)])\<rparr>))"

definition finish_index :: "index_groups \<Rightarrow> string \<Rightarrow> index_def" where
  "finish_index g name =
     (the (ig_defs g name))\<lparr>ix_columns :=
        map snd (sort_key (\<lambda>p. unat (fst p)) (or_default [] (ig_parts g name)))\<rparr>"

definition group_indexes :: "index_row list \<Rightarrow> index_def list" where
  "group_indexes rows =
     (let g = fold add_index_row rows \<lparr>ig_order = [], ig_defs = Map.empty, ig_parts = Map.empty\<rparr> in
      map (finish_index g) (ig_order g))"

definition get_indexes :: "catalog \<Rightarrow> string \<Rightarrow> (connection, index_def list) srv" where
  "get_indexes ct table =
     cached cn_indexes store_indexes table
       (sbind (slift (ct_indexes ct (''SHOW INDEX FROM `'' @ escape_identifier table @ ''`''))) (\<lambda>rows.
        sret (group_indexes rows)))"

definition options_of_row :: "option_row option \<Rightarrow> table_options" where
  "options_of_row row =
     (case row of
        None \<Rightarrow> \<lparr>to_engine = None, to_charset = None, to_collation = None, to_row_format = None\<rparr>
      | Some r \<Rightarrow>
          \<lparr>to_engine = or_engine r,
           to_charset = map_option (takeWhile (\<lambda>c. c \<noteq> CHR ''_'')) (or_collation r),
           to_collation = or_collation r,
           to_row_format = or_row_format r\<rparr>)"

definition get_table_options :: "catalog \<Rightarrow> string \<Rightarrow> (connection, table_options) srv" where
  "get_table_options ct table =
     cached cn_options store_options table
       (sbind (slift (ct_options ct table)) (\<lambda>row. sret (options_of_row row)))"

section \<open>Foreign keys\<close>

definition usage_relation :: "usage_row \<Rightarrow> relation" where
  "usage_relation r =
     \<lparr>from_table = or_default [] (ur_table r), from_column = or_default [] (ur_column r),
      to_table = or_default [] (ur_ref_table r), to_column = or_default [] (ur_ref_column r)\<rparr>"

text \<open>Rows grouped by constraint, in the order the hash map is drained (\<open>drain\<close>).\<close>

fun add_usage :: "string \<Rightarrow> relation \<Rightarrow> (string \<times> relation list) list \<Rightarrow> (string \<times> relation list) list" where
  "add_usage c r [] = [(c, [r])]"
| "add_usage c r ((c', rs) # groups) =
     (if c = c' then (c', rs @ [r]) # groups else (c', rs) # add_usage c r groups)"

definition group_usage :: "usage_row list \<Rightarrow> (string \<times> relation list) list" where
  "group_usage rows = fold (\<lambda>r. add_usage (or_default [] (ur_constraint r)) (usage_relation r)) rows []"

definition discover_foreign_keys ::
  "((string \<times> relation list) list \<Rightarrow> (string \<times> relation list) list) \<Rightarrow> catalog \<Rightarrow> server_error + relation list" where
  "discover_foreign_keys drain ct =
     rbind (ct_usage ct) (\<lambda>rows.
     Inr (concat (map (\<lambda>(c, rs). if length rs = 1 then rs else []) (drain (group_usage rows)))))"

definition new_foreign_key :: "fk_row \<Rightarrow> foreign_key_def" where
  "new_foreign_key r =
     \<lparr>fk_table = fr_table r, fk_constraint = fr_constraint r, fk_columns = [fr_column r],
      fk_ref_table = fr_ref_table r, fk_ref_columns = [fr_ref_column r],
      fk_update_rule = fr_update_rule r, fk_delete_rule = fr_delete_rule r\<rparr>"

definition add_fk_row :: "fk_row \<Rightarrow> foreign_key_def list \<Rightarrow> foreign_key_def list" where
  "add_fk_row r defs =
     (if defs \<noteq> [] \<and> fk_table (last defs) = fr_table r \<and> fk_constraint (last defs) = fr_constraint r
      then butlast defs @
        [(last defs)\<lparr>fk_columns := fk_columns (last defs) @ [fr_column r],
                    fk_ref_columns := fk_ref_columns (last defs) @ [fr_ref_column r]\<rparr>]
      else defs @ [new_foreign_key r])"

definition capture_foreign_keys :: "catalog \<Rightarrow> server_error + foreign_key_def list" where
  "capture_foreign_keys ct = rbind (ct_references ct) (\<lambda>rows. Inr (fold add_fk_row rows []))"


section \<open>The tables found\<close>

lemma expand_table_sets:
  "ignored_tables (expand_table ig ex fu t p) = ignored_tables p \<union> {u. u = t \<and> (\<exists>m \<in> set ig. m u)}"
  "excluded_tables (expand_table ig ex fu t p) = excluded_tables p \<union> {u. u = t \<and> (\<exists>m \<in> set ex. m u)}"
  "full_tables (expand_table ig ex fu t p) = full_tables p \<union> {u. u = t \<and> (\<exists>m \<in> set fu. m u)}"
  by (auto simp: expand_table_def Let_def)

lemma fold_expand_sets:
  "ignored_tables (fold (expand_table ig ex fu) ts p) = ignored_tables p \<union> {t \<in> set ts. \<exists>m \<in> set ig. m t}"
  "excluded_tables (fold (expand_table ig ex fu) ts p) = excluded_tables p \<union> {t \<in> set ts. \<exists>m \<in> set ex. m t}"
  "full_tables (fold (expand_table ig ex fu) ts p) = full_tables p \<union> {t \<in> set ts. \<exists>m \<in> set fu. m t}"
  by (induction ts arbitrary: p) (auto simp: expand_table_sets)

lemma number_tables_infos:
  "number_tables ct ig ts n cn = (Inr infos, cn') \<Longrightarrow>
     map ti_name infos = filter (\<lambda>t. t \<notin> ig) ts \<and>
     (\<forall>i < length infos. ti_table_id (infos ! i) = n + of_nat i)"
proof (induction ts arbitrary: n cn infos)
  case (Cons table tables)
  show ?case
  proof (cases "table \<in> ig")
    case True
    then show ?thesis using Cons by simp
  next
    case False
    then obtain info rest cn1 where info: "infos = info # rest" "ti_name info = table" "ti_table_id info = n"
      and rest: "number_tables ct ig tables (n + 1) cn1 = (Inr rest, cn')"
      using Cons.prems by (auto simp: srv_rules)
    have IH: "map ti_name rest = filter (\<lambda>t. t \<notin> ig) tables"
      "\<forall>i < length rest. ti_table_id (rest ! i) = n + 1 + of_nat i"
      using Cons.IH [OF rest] by blast+
    have "ti_table_id (infos ! i) = n + of_nat i" if "i < length infos" for i
      using that IH(2) info by (cases i) auto
    then show ?thesis using IH(1) info False by simp
  qed
qed (auto simp: srv_rules)

definition matched :: "regex_engine \<Rightarrow> string list \<Rightarrow> string \<Rightarrow> bool" where
  "matched rx ps t \<longleftrightarrow> (\<exists>p \<in> set ps. \<exists>m. rx p = Inr m \<and> m t)"

lemma compile_plan_pattern_Inr: "compile_plan_pattern rx p = Inr m \<longleftrightarrow> rx p = Inr m"
  by (simp add: compile_plan_pattern_def split: sum.split)

lemma compile_patterns_matched:
  "compile_patterns rx ps = Inr ms \<Longrightarrow> (\<exists>m \<in> set ms. m t) \<longleftrightarrow> matched rx ps t"
  unfolding compile_patterns_def
proof (induction ps arbitrary: ms)
  case (Cons p ps)
  then obtain m ms' where m: "rx p = Inr m" "rmap (compile_plan_pattern rx) ps = Inr ms'" "ms = m # ms'"
    by (auto simp: rbind_Inr_iff compile_plan_pattern_Inr)
  then show ?case using Cons.IH [OF m(2)] by (auto simp: matched_def)
qed (simp add: matched_def)

text \<open>C22: discovery numbers the tables that are not ignored in the order MySQL lists them, up to 65536 of them with
  distinct ids, and replaces the patterns of the plan by the tables they match.\<close>

theorem discover_tables_numbered:
  assumes "discover_tables rx ct plan cn = (Inr (infos, plan'), cn')" "ct_tables ct = Inr names"
  shows "map ti_name infos = filter (\<lambda>t. t \<notin> ignored_tables plan') names \<and>
    (length infos \<le> 65536 \<longrightarrow> distinct (map ti_table_id infos)) \<and>
    (\<forall>i < length infos. ti_table_id (infos ! i) = of_nat i) \<and>
    ignored_tables plan' = ignored_tables plan \<union> {t \<in> set names. matched rx (ignored_patterns plan) t} \<and>
    excluded_tables plan' = excluded_tables plan \<union> {t \<in> set names. matched rx (excluded_patterns plan) t} \<and>
    full_tables plan' = full_tables plan \<union> {t \<in> set names. matched rx (full_patterns plan) t}"
proof -
  obtain ig ex fu where c: "compile_patterns rx (ignored_patterns plan) = Inr ig"
    "compile_patterns rx (excluded_patterns plan) = Inr ex" "compile_patterns rx (full_patterns plan) = Inr fu"
    and plan': "plan' = fold (expand_table ig ex fu) names plan"
    and n: "number_tables ct (ignored_tables plan') names 0 cn = (Inr infos, cn')"
    using assms by (auto simp: discover_tables_def Let_def srv_rules)
  have ids: "\<forall>i < length infos. ti_table_id (infos ! i) = of_nat i"
    using number_tables_infos [OF n] by simp
  have "distinct (map ti_table_id infos)" if "length infos \<le> 65536"
  proof -
    have "unat (of_nat i :: u16) = i" if "i < 65536" for i
      using that by (simp add: unat_of_nat take_bit_nat_eq_self)
    then have "(of_nat i :: u16) = of_nat j \<longleftrightarrow> i = j" if "i < 65536" "j < 65536" for i j
      using that by metis
    then show ?thesis using ids that by (simp add: distinct_conv_nth)
  qed
  then show ?thesis
    using number_tables_infos [OF n] ids unfolding plan' fold_expand_sets by (simp add: compile_patterns_matched [OF c(1)]
        compile_patterns_matched [OF c(2)] compile_patterns_matched [OF c(3)])
qed

text \<open>A schema with more tables gets colliding ids.\<close>

lemma table_ids_collide:
  assumes "discover_tables rx ct plan cn = (Inr (infos, plan'), cn')" "65536 < length infos"
  shows "ti_table_id (infos ! 0) = ti_table_id (infos ! 65536)"
proof -
  obtain names ig where "number_tables ct ig names 0 cn = (Inr infos, cn')"
    using assms by (auto simp: discover_tables_def Let_def srv_rules)
  from number_tables_infos [OF this] have "ti_table_id (infos ! i) = of_nat i" if "i < length infos" for i
    using that by simp
  moreover have "(of_nat 65536 :: u16) = of_nat 0" by (simp add: word_of_nat_eq_iff take_bit_eq_mod)
  ultimately show ?thesis using assms(2) by (metis gr_implies_not0 less_trans zero_less_numeral)
qed


section \<open>Caches\<close>

text \<open>What the catalogue answers, without a cache.\<close>

definition primary_key_of :: "catalog \<Rightarrow> string \<Rightarrow> server_error + string list" where
  "primary_key_of ct table =
     rbind (ct_keys ct (''SHOW KEYS FROM `'' @ escape_identifier table @ ''` WHERE Key_name = '' @
       squote # ''PRIMARY'' @ [squote])) (\<lambda>rows. Inr (key_columns rows))"

definition columns_of :: "catalog \<Rightarrow> string \<Rightarrow> server_error + column_def list" where
  "columns_of ct table =
     rbind (primary_key_of ct table) (\<lambda>pk.
     rbind (ct_columns ct table) (\<lambda>rows. Inr (map (column_of_row pk) rows)))"

definition indexes_of :: "catalog \<Rightarrow> string \<Rightarrow> server_error + index_def list" where
  "indexes_of ct table =
     rbind (ct_indexes ct (''SHOW INDEX FROM `'' @ escape_identifier table @ ''`'')) (\<lambda>rows. Inr (group_indexes rows))"

definition options_of :: "catalog \<Rightarrow> string \<Rightarrow> server_error + table_options" where
  "options_of ct table = rbind (ct_options ct table) (\<lambda>row. Inr (options_of_row row))"

definition caches_ok :: "catalog \<Rightarrow> connection \<Rightarrow> bool" where
  "caches_ok ct cn \<longleftrightarrow>
     (\<forall>t v. cn_primary_keys cn t = Some v \<longrightarrow> primary_key_of ct t = Inr v) \<and>
     (\<forall>t v. cn_schemas cn t = Some v \<longrightarrow> columns_of ct t = Inr v) \<and>
     (\<forall>t v. cn_indexes cn t = Some v \<longrightarrow> indexes_of ct t = Inr v) \<and>
     (\<forall>t v. cn_options cn t = Some v \<longrightarrow> options_of ct t = Inr v)"

text \<open>A reader of the connection answers like the catalogue and keeps the caches right.\<close>

locale reader =
  fixes ct :: catalog and get :: "string \<Rightarrow> (connection, 'a) srv" and answer :: "string \<Rightarrow> server_error + 'a"
  assumes get_answer: "caches_ok ct cn \<Longrightarrow> fst (get t cn) = answer t"
    and get_caches: "caches_ok ct cn \<Longrightarrow> caches_ok ct (snd (get t cn))"
begin

lemma get_eq:
  assumes "caches_ok ct cn"
  obtains cn' where "get t cn = (answer t, cn')" "caches_ok ct cn'"
  using get_answer [OF assms] get_caches [OF assms] by (metis prod.collapse)

lemma get_bind:
  assumes "caches_ok ct cn"
  shows "\<exists>cn'. caches_ok ct cn' \<and> sbind (get t) f cn = (case answer t of Inl e \<Rightarrow> (Inl e, cn') | Inr x \<Rightarrow> f x cn')"
proof -
  obtain cn' where "get t cn = (answer t, cn')" "caches_ok ct cn'" by (rule get_eq [OF assms])
  then show ?thesis by (intro exI [of _ cn']) (simp add: sbind_def split: sum.split)
qed

end

lemma cached_reader:
  assumes "\<And>cn t v. caches_ok ct cn \<Longrightarrow> look cn t = Some v \<Longrightarrow> answer t = Inr v"
    and "\<And>cn t v. caches_ok ct cn \<Longrightarrow> answer t = Inr v \<Longrightarrow> caches_ok ct (store t v cn)"
    and "\<And>cn t. caches_ok ct cn \<Longrightarrow> fst (fetch t cn) = answer t \<and> caches_ok ct (snd (fetch t cn))"
  shows "reader ct (\<lambda>t. cached look store t (fetch t)) answer"
proof
  fix cn t assume ok: "caches_ok ct cn"
  obtain cn' where f: "fetch t cn = (answer t, cn')" "caches_ok ct cn'"
    using assms(3) [OF ok, of t] by (metis prod.collapse)
  show "fst (cached look store t (fetch t) cn) = answer t"
    using f assms(1) [OF ok] by (auto simp: cached_def sbind_def split: option.split sum.split)
  show "caches_ok ct (snd (cached look store t (fetch t) cn))"
    using ok f assms(2) [OF f(2)] by (auto simp: cached_def sbind_def split: option.split sum.split)
qed

lemma reader_primary_key: "reader ct (get_primary_key ct) (primary_key_of ct)"
  unfolding get_primary_key_def [abs_def]
  by (rule cached_reader)
    (auto simp: caches_ok_def store_primary_key_def primary_key_of_def sbind_def slift_def sret_def split: sum.split)

interpretation keys: reader ct "get_primary_key ct" "primary_key_of ct" for ct
  by (rule reader_primary_key)

lemma fetch_columns:
  assumes "caches_ok ct cn"
  shows "fst (sbind (get_primary_key ct t) (\<lambda>pk. sbind (slift (ct_columns ct t)) (\<lambda>rows. sret (map (column_of_row pk) rows))) cn) =
      columns_of ct t \<and>
    caches_ok ct (snd (sbind (get_primary_key ct t) (\<lambda>pk. sbind (slift (ct_columns ct t)) (\<lambda>rows. sret (map (column_of_row pk) rows))) cn))"
proof -
  obtain cn' where "get_primary_key ct t cn = (primary_key_of ct t, cn')" "caches_ok ct cn'"
    by (rule keys.get_eq [OF assms])
  then show ?thesis by (auto simp: columns_of_def sbind_def slift_def sret_def split: sum.split)
qed

interpretation columns: reader ct "get_column_defs ct" "columns_of ct" for ct
  unfolding get_column_defs_def [abs_def]
proof (rule cached_reader [OF _ _ fetch_columns])
  show "columns_of ct t = Inr v" if "caches_ok ct cn" "cn_schemas cn t = Some v" for cn t v
    using that by (simp add: caches_ok_def)
  show "caches_ok ct (store_schema t v cn)" if "caches_ok ct cn" "columns_of ct t = Inr v" for cn t v
    using that by (simp add: caches_ok_def store_schema_def)
qed

interpretation indexes: reader ct "get_indexes ct" "indexes_of ct" for ct
  unfolding get_indexes_def [abs_def]
  by (rule cached_reader)
    (auto simp: caches_ok_def store_indexes_def indexes_of_def sbind_def slift_def sret_def split: sum.split)

interpretation options: reader ct "get_table_options ct" "options_of ct" for ct
  unfolding get_table_options_def [abs_def]
  by (rule cached_reader)
    (auto simp: caches_ok_def store_options_def options_of_def sbind_def slift_def sret_def split: sum.split)

text \<open>Discovery itself leaves the caches right.\<close>

lemma number_tables_caches:
  "number_tables ct ig ts n cn = (Inr infos, cn') \<Longrightarrow> caches_ok ct cn \<Longrightarrow>
     caches_ok ct cn' \<and> (\<forall>i \<in> set infos. primary_key_of ct (ti_name i) = Inr (ti_primary_key i))"
proof (induction ts arbitrary: n cn infos)
  case (Cons t ts)
  show ?case
  proof (cases "t \<in> ig")
    case True
    then show ?thesis using Cons by simp
  next
    case False
    then obtain pk sch cn1 cn2 est rest where s: "get_primary_key ct t cn = (Inr pk, cn1)"
      "get_column_defs ct t cn1 = (Inr sch, cn2)"
      "number_tables ct ig ts (n + 1) (store_primary_key t pk (store_schema t sch cn2)) = (Inr rest, cn')"
      "infos = \<lparr>ti_name = t, ti_table_id = n, ti_estimated_rows = est, ti_primary_key = pk\<rparr> # rest"
      using Cons.prems(1) by (auto simp: srv_rules)
    have k: "primary_key_of ct t = Inr pk" "caches_ok ct cn1"
      using keys.get_answer [OF Cons.prems(2), of t] keys.get_caches [OF Cons.prems(2), of t] s(1) by simp_all
    have c: "columns_of ct t = Inr sch" "caches_ok ct cn2"
      using columns.get_answer [OF k(2), of t] columns.get_caches [OF k(2), of t] s(2) by simp_all
    have "caches_ok ct (store_primary_key t pk (store_schema t sch cn2))"
      using k(1) c by (simp add: caches_ok_def store_primary_key_def store_schema_def)
    from Cons.IH [OF s(3) this] show ?thesis using k(1) s(4) by simp
  qed
qed (simp add: srv_rules)

lemma fresh_caches: "caches_ok ct fresh_connection"
  by (simp add: caches_ok_def fresh_connection_def)


section \<open>Grouping\<close>

text \<open>The elements of a list in the order of their first occurrence.\<close>

definition first_seen :: "'a list \<Rightarrow> 'a list" where "first_seen xs = rev (remdups (rev xs))"

lemma first_seen_simps [simp]:
  "first_seen [] = []"
  "first_seen (xs @ [x]) = (if x \<in> set xs then first_seen xs else first_seen xs @ [x])"
  "set (first_seen xs) = set xs" "distinct (first_seen xs)"
  by (simp_all add: first_seen_def)

abbreviation ir_name :: "index_row \<Rightarrow> string" where "ir_name r \<equiv> or_default [] (ir_key_name r)"

definition index_part :: "index_row \<Rightarrow> u32 \<times> index_column" where
  "index_part r =
     (or_default 0 (ir_seq r),
      \<lparr>ic_name = or_default [] (ir_column r), ic_prefix_len = ir_sub_part r,
       ic_descending = (ir_collation r = Some ''D''), ic_expression = ir_expression r\<rparr>)"

definition index_head :: "index_row \<Rightarrow> index_def" where
  "index_head r =
     \<lparr>ix_name = ir_name r, ix_columns = [], ix_unique = (or_default 1 (ir_non_unique r) = 0),
      ix_kind = index_kind_of (or_default [] (ir_index_type r))\<rparr>"

definition index_rows :: "index_row list \<Rightarrow> string \<Rightarrow> index_row list" where
  "index_rows rows k = filter (\<lambda>r. ir_name r = k) rows"

text \<open>The reference: the secondary indexes in the order they are first seen, each with all its parts in the order of
  their sequence numbers.\<close>

definition indexes_spec :: "index_row list \<Rightarrow> index_def list" where
  "indexes_spec rows =
     map (\<lambda>k. (index_head (hd (index_rows rows k)))\<lparr>ix_columns :=
         map snd (sort_key (\<lambda>p. unat (fst p)) (map index_part (index_rows rows k)))\<rparr>)
       (first_seen (filter (\<lambda>k. k \<noteq> ''PRIMARY'') (map ir_name rows)))"

definition indexed :: "index_row list \<Rightarrow> index_groups \<Rightarrow> bool" where
  "indexed rows g \<longleftrightarrow>
     ig_order g = first_seen (filter (\<lambda>k. k \<noteq> ''PRIMARY'') (map ir_name rows)) \<and>
     (\<forall>k. ig_defs g k = (if k \<in> set (ig_order g) then Some (index_head (hd (index_rows rows k))) else None)) \<and>
     (\<forall>k. k \<noteq> ''PRIMARY'' \<longrightarrow> or_default [] (ig_parts g k) = map index_part (index_rows rows k))"

lemma index_rows_snoc: "index_rows (rows @ [r]) k = index_rows rows k @ (if ir_name r = k then [r] else [])"
  by (simp add: index_rows_def)

lemma indexed_step:
  assumes inv: "indexed rows g"
  shows "indexed (rows @ [r]) (add_index_row r g)"
proof (cases "ir_name r = ''PRIMARY''")
  case True
  have "index_rows (rows @ [r]) k = index_rows rows k" if "k \<noteq> ''PRIMARY''" for k
    using True that by (simp add: index_rows_snoc)
  moreover have "''PRIMARY'' \<notin> set (ig_order g)" using inv by (simp add: indexed_def)
  moreover have "add_index_row r g = g" using True by (simp add: add_index_row_def Let_def)
  ultimately show ?thesis using inv True unfolding indexed_def by auto
next
  case False
  let ?k = "ir_name r"
  have ord: "ig_order g = first_seen (filter (\<lambda>k. k \<noteq> ''PRIMARY'') (map ir_name rows))"
    and defs: "ig_defs g k = (if k \<in> set (ig_order g) then Some (index_head (hd (index_rows rows k))) else None)"
    and parts: "k \<noteq> ''PRIMARY'' \<Longrightarrow> or_default [] (ig_parts g k) = map index_part (index_rows rows k)" for k
    using inv by (simp_all add: indexed_def)
  have mem: "k \<in> set (ig_order g) \<longleftrightarrow> k \<noteq> ''PRIMARY'' \<and> index_rows rows k \<noteq> []" for k
    unfolding ord by (auto simp: index_rows_def filter_empty_conv)
  have d: "?k \<in> dom (ig_defs g) \<longleftrightarrow> ?k \<in> set (ig_order g)" using defs [of ?k] by (auto split: if_splits)
  have head: "hd (index_rows (rows @ [r]) k) = hd (index_rows rows k)" if "k \<in> set (ig_order g)" for k
    using that mem by (simp add: index_rows_snoc)
  show ?thesis
  proof (cases "?k \<in> set (ig_order g)")
    case True
    have eq: "add_index_row r g = g\<lparr>ig_parts := (ig_parts g)(?k \<mapsto> or_default [] (ig_parts g ?k) @ [index_part r])\<rparr>"
      using False True d by (simp add: add_index_row_def Let_def index_part_def)
    have "ig_order g = first_seen (filter (\<lambda>k. k \<noteq> ''PRIMARY'') (map ir_name (rows @ [r])))"
      using True False by (simp add: ord)
    then show ?thesis
      unfolding eq indexed_def using defs parts head by (simp add: index_rows_snoc or_default_def)
  next
    case new: False
    have eq: "add_index_row r g = g\<lparr>ig_order := ig_order g @ [?k], ig_defs := (ig_defs g)(?k \<mapsto> index_head r),
        ig_parts := (ig_parts g)(?k \<mapsto> or_default [] (ig_parts g ?k) @ [index_part r])\<rparr>"
      using False new d by (simp add: add_index_row_def Let_def index_part_def index_head_def)
    have empty: "index_rows rows ?k = []" using new False mem by blast
    have "ig_order g @ [?k] = first_seen (filter (\<lambda>k. k \<noteq> ''PRIMARY'') (map ir_name (rows @ [r])))"
      using new False by (simp add: ord)
    moreover have "((ig_defs g)(?k \<mapsto> index_head r)) k =
        (if k \<in> set (ig_order g @ [?k]) then Some (index_head (hd (index_rows (rows @ [r]) k))) else None)" for k
      using defs [of k] head [of k] empty by (auto simp: index_rows_snoc)
    ultimately show ?thesis
      unfolding eq indexed_def using parts empty by (simp add: index_rows_snoc or_default_def)
  qed
qed

lemma indexed_fold: "indexed rows (fold add_index_row rows \<lparr>ig_order = [], ig_defs = Map.empty, ig_parts = Map.empty\<rparr>)"
proof (induction rows rule: rev_induct)
  case Nil
  then show ?case by (simp add: indexed_def index_rows_def or_default_def)
next
  case (snoc r rows)
  then show ?case using indexed_step by simp
qed

text \<open>The indexes of a table are grouped without losing or inventing a key part: each secondary index is listed once,
  with all its parts in the order of their sequence numbers.\<close>

lemma group_indexes_spec: "group_indexes rows = indexes_spec rows"
proof -
  let ?g = "fold add_index_row rows \<lparr>ig_order = [], ig_defs = Map.empty, ig_parts = Map.empty\<rparr>"
  have inv: "indexed rows ?g" by (rule indexed_fold)
  have "finish_index ?g k = (index_head (hd (index_rows rows k)))\<lparr>ix_columns :=
      map snd (sort_key (\<lambda>p. unat (fst p)) (map index_part (index_rows rows k)))\<rparr>" if "k \<in> set (ig_order ?g)" for k
  proof -
    have "k \<noteq> ''PRIMARY''" using inv that by (auto simp: indexed_def)
    then show ?thesis using inv that by (simp add: finish_index_def indexed_def)
  qed
  then show ?thesis
    using inv by (simp add: group_indexes_def indexes_spec_def Let_def indexed_def)
qed

subsection \<open>Foreign keys\<close>

definition fk_key :: "foreign_key_def \<Rightarrow> string \<times> string" where "fk_key d = (fk_table d, fk_constraint d)"
definition fr_key :: "fk_row \<Rightarrow> string \<times> string" where "fr_key r = (fr_table r, fr_constraint r)"

definition fk_rows :: "foreign_key_def \<Rightarrow> fk_row list" where
  "fk_rows d =
     map (\<lambda>(c, rc). \<lparr>fr_table = fk_table d, fr_constraint = fk_constraint d, fr_column = c, fr_ref_table = fk_ref_table d,
         fr_ref_column = rc, fr_update_rule = fk_update_rule d, fr_delete_rule = fk_delete_rule d\<rparr>)
       (zip (fk_columns d) (fk_ref_columns d))"

text \<open>Rows of one constraint agree on what it refers to and on its actions.\<close>

definition same_constraint :: "fk_row \<Rightarrow> fk_row \<Rightarrow> bool" where
  "same_constraint r r' \<longleftrightarrow>
     (fr_key r = fr_key r' \<longrightarrow>
        fr_ref_table r = fr_ref_table r' \<and> fr_update_rule r = fr_update_rule r' \<and> fr_delete_rule r = fr_delete_rule r')"

lemma remdups_adj_snoc:
  "xs \<noteq> [] \<Longrightarrow> remdups_adj (xs @ [y]) = remdups_adj xs @ (if last xs = y then [] else [y])"
proof -
  assume "xs \<noteq> []"
  then have "butlast xs @ [last xs] = xs" by simp
  then show ?thesis using remdups_adj_append_two [of "butlast xs" "last xs" y] by (metis append_Cons append_Nil append_assoc append_Nil2)
qed

lemma fold_fk_rows:
  assumes "successively same_constraint rows"
  shows "concat (map fk_rows (fold add_fk_row rows [])) = rows \<and>
    map fk_key (fold add_fk_row rows []) = remdups_adj (map fr_key rows) \<and>
    (\<forall>d \<in> set (fold add_fk_row rows []). fk_columns d \<noteq> [] \<and> length (fk_ref_columns d) = length (fk_columns d))"
  using assms
proof (induction rows rule: rev_induct)
  case (snoc r rows)
  let ?d = "fold add_fk_row rows []"
  have IH: "concat (map fk_rows ?d) = rows" "map fk_key ?d = remdups_adj (map fr_key rows)"
    "\<forall>d \<in> set ?d. fk_columns d \<noteq> [] \<and> length (fk_ref_columns d) = length (fk_columns d)"
    using snoc by (simp_all add: successively_append_iff)
  show ?case
  proof (cases "rows = []")
    case True
    then show ?thesis by (simp add: add_fk_row_def new_foreign_key_def fk_rows_def fk_key_def fr_key_def)
  next
    case False
    then have ne: "?d \<noteq> []" using IH(1) by auto
    let ?l = "last ?d"
    have l: "?l \<in> set ?d" "?d = butlast ?d @ [?l]" using ne by simp_all
    have cat: "concat (map fk_rows (butlast ?d)) @ fk_rows ?l = rows"
      using arg_cong [OF l(2), of "\<lambda>d. concat (map fk_rows d)"] IH(1) by (simp del: append_butlast_last_id)
    have keys: "map fk_key (butlast ?d) @ [fk_key ?l] = remdups_adj (map fr_key rows)"
      using arg_cong [OF l(2), of "map fk_key"] IH(2) by (simp del: append_butlast_last_id)
    have last_rows: "last rows = last (fk_rows ?l)"
    proof -
      have "fk_rows ?l \<noteq> []" using IH(3) l(1) by (auto simp: fk_rows_def)
      then have "last (concat (map fk_rows (butlast ?d)) @ fk_rows ?l) = last (fk_rows ?l)" by (rule last_appendR)
      then show ?thesis unfolding cat .
    qed
    have "fk_rows ?l \<noteq> []" using IH(3) l(1) by (auto simp: fk_rows_def)
    then have "last (fk_rows ?l) \<in> set (fk_rows ?l)" by simp
    then have props: "fr_key (last rows) = fk_key ?l" "fr_ref_table (last rows) = fk_ref_table ?l"
      "fr_update_rule (last rows) = fk_update_rule ?l" "fr_delete_rule (last rows) = fk_delete_rule ?l"
      unfolding last_rows by (auto simp: fk_rows_def fr_key_def fk_key_def)
    have agree: "same_constraint (last rows) r" using snoc.prems False by (simp add: successively_append_iff)
    have lk: "last (map fr_key rows) = fk_key ?l" using props(1) False by (simp add: last_map)
    show ?thesis
    proof (cases "fk_key ?l = fr_key r")
      case True
      let ?n = "?l\<lparr>fk_columns := fk_columns ?l @ [fr_column r], fk_ref_columns := fk_ref_columns ?l @ [fr_ref_column r]\<rparr>"
      have step: "add_fk_row r ?d = butlast ?d @ [?n]" using ne True by (simp add: add_fk_row_def fk_key_def fr_key_def)
      have "fk_rows ?n = fk_rows ?l @ [r]"
        using IH(3) l(1) True agree props by (simp add: fk_rows_def same_constraint_def fk_key_def fr_key_def)
      moreover have "fk_key ?n = fk_key ?l" by (simp add: fk_key_def)
      moreover have "\<forall>d \<in> set (butlast ?d). fk_columns d \<noteq> [] \<and> length (fk_ref_columns d) = length (fk_columns d)"
        using IH(3) by (meson in_set_butlastD)
      ultimately show ?thesis
        using cat keys lk True False IH(3) l(1) by (simp add: step remdups_adj_snoc)
    next
      case no: False
      have step: "add_fk_row r ?d = ?d @ [new_foreign_key r]" using no by (auto simp: add_fk_row_def fk_key_def fr_key_def)
      then show ?thesis
        using IH lk no False
        by (simp add: remdups_adj_snoc) (simp add: new_foreign_key_def fk_rows_def fk_key_def fr_key_def)
    qed
  qed
qed simp

text \<open>The foreign keys captured hold exactly the rows of the catalogue, in order; with the rows of each
  constraint next to each other, every constraint gives one definition.\<close>

lemma capture_foreign_keys_exact:
  assumes "ct_references ct = Inr rows" "successively same_constraint rows"
  shows "\<exists>defs. capture_foreign_keys ct = Inr defs \<and> concat (map fk_rows defs) = rows \<and>
    map fk_key defs = remdups_adj (map fr_key rows) \<and>
    (distinct (remdups_adj (map fr_key rows)) \<longrightarrow> distinct (map fk_key defs)) \<and>
    (\<forall>d \<in> set defs. fk_columns d \<noteq> [] \<and> length (fk_ref_columns d) = length (fk_columns d))"
  using fold_fk_rows [OF assms(2)] assms(1) by (simp add: capture_foreign_keys_def)


abbreviation ur_name :: "usage_row \<Rightarrow> string" where "ur_name r \<equiv> or_default [] (ur_constraint r)"

definition usage_of :: "usage_row list \<Rightarrow> string \<Rightarrow> relation list" where
  "usage_of rows c = map usage_relation (filter (\<lambda>r. ur_name r = c) rows)"

lemma add_usage_groups:
  assumes "distinct cs"
  shows "add_usage c r (map (\<lambda>c. (c, f c)) cs) =
     (if c \<in> set cs then map (\<lambda>d. (d, if d = c then f d @ [r] else f d)) cs else map (\<lambda>d. (d, f d)) cs @ [(c, [r])])"
  using assms
proof (induction cs)
  case (Cons d cs)
  then show ?case by (cases "d = c") (auto intro: map_cong)
qed simp

lemma group_usage_groups: "group_usage rows = map (\<lambda>c. (c, usage_of rows c)) (first_seen (map ur_name rows))"
  unfolding group_usage_def
proof (induction rows rule: rev_induct)
  case (snoc r rows)
  let ?cs = "first_seen (map ur_name rows)"
  have "usage_of (rows @ [r]) c = (if c = ur_name r then usage_of rows c @ [usage_relation r] else usage_of rows c)" for c
    by (auto simp: usage_of_def)
  moreover have "usage_of rows (ur_name r) = []" if "ur_name r \<notin> ur_name ` set rows"
    using that by (auto simp: usage_of_def filter_empty_conv image_iff)
  ultimately show ?case
    using snoc.IH by (auto simp: add_usage_groups image_iff intro!: map_cong)
qed simp

text \<open>Only the relations of constraints over a single column are used for the traversal.\<close>

lemma discover_foreign_keys_single:
  assumes "discover_foreign_keys drain ct = Inr rels" "ct_usage ct = Inr rows" "\<And>gs. set (drain gs) = set gs"
  shows "set rels = usage_relation ` {r \<in> set rows. length (usage_of rows (ur_name r)) = 1}"
proof -
  have "rels = concat (map (\<lambda>(c, rs). if length rs = 1 then rs else []) (drain (group_usage rows)))"
    using assms(1,2) by (simp add: discover_foreign_keys_def)
  then have rels: "x \<in> set rels \<longleftrightarrow> (\<exists>g \<in> set (group_usage rows). length (snd g) = 1 \<and> x \<in> set (snd g))" for x
    by (auto simp: case_prod_beta assms(3) split: if_splits)
  have "x \<in> set rels \<longleftrightarrow> (\<exists>c \<in> ur_name ` set rows. length (usage_of rows c) = 1 \<and> x \<in> set (usage_of rows c))" for x
    unfolding rels group_usage_groups by auto
  then show ?thesis by (auto simp: usage_of_def)
qed

section \<open>Examples\<close>

definition two_tables :: catalog where
  "two_tables =
     \<lparr>ct_tables = Inr [''a'', ''tmp_b'', ''c''], ct_status = (\<lambda>q. Inr None), ct_keys = (\<lambda>q. Inr []),
      ct_columns = (\<lambda>t. Inr []), ct_indexes = (\<lambda>q. Inr []), ct_options = (\<lambda>t. Inr None), ct_usage = Inr [],
      ct_references = Inr
        [\<lparr>fr_table = ''a'', fr_constraint = ''k'', fr_column = ''x'', fr_ref_table = ''c'', fr_ref_column = ''u'',
          fr_update_rule = ''CASCADE'', fr_delete_rule = ''CASCADE''\<rparr>,
         \<lparr>fr_table = ''a'', fr_constraint = ''k'', fr_column = ''y'', fr_ref_table = ''c'', fr_ref_column = ''v'',
          fr_update_rule = ''CASCADE'', fr_delete_rule = ''CASCADE''\<rparr>],
      ct_count = (\<lambda>q. Inr None)\<rparr>"

definition prefix_engine :: regex_engine where
  "prefix_engine p = Inr (\<lambda>t. take (length p) t = p)"

theorem discover_tables_numbered_witness:
  "\<exists>infos plan' cn'. discover_tables prefix_engine two_tables (empty_plan\<lparr>ignored_patterns := [''tmp_'']\<rparr>) fresh_connection =
       (Inr (infos, plan'), cn') \<and>
     map ti_name infos = [''a'', ''c''] \<and> ti_table_id (infos ! 1) = 1 \<and> ignored_tables plan' = {''tmp_b''}"
proof -
  let ?p = "empty_plan\<lparr>ignored_patterns := [''tmp_'']\<rparr>"
  have names: "ct_tables two_tables = Inr [''a'', ''tmp_b'', ''c'']" by (simp add: two_tables_def)
  obtain infos plan' cn' where d: "discover_tables prefix_engine two_tables ?p fresh_connection = (Inr (infos, plan'), cn')"
    by (simp add: discover_tables_def two_tables_def prefix_engine_def compile_patterns_def compile_plan_pattern_def
        empty_plan_def expand_table_def sbind_def slift_def sret_def get_estimated_row_count_def get_primary_key_def
        get_column_defs_def cached_def fresh_connection_def store_schema_def store_primary_key_def key_columns_def)
  have m: "{t \<in> set [''a'', ''tmp_b'', ''c'']. matched prefix_engine (ignored_patterns ?p) t} = {''tmp_b''}"
    by (auto simp: matched_def prefix_engine_def)
  have ig: "ignored_tables plan' = {''tmp_b''}"
    using discover_tables_numbered [OF d names] unfolding m by (simp add: empty_plan_def)
  then have n: "map ti_name infos = [''a'', ''c'']" using discover_tables_numbered [OF d names] by simp
  have "length infos = 2" using arg_cong [OF n, of length] by simp
  then have "ti_table_id (infos ! 1) = 1" using discover_tables_numbered [OF d names] by simp
  with d n ig show ?thesis by (intro exI conjI)
qed

lemma capture_foreign_keys_exact_witness:
  "\<exists>defs. capture_foreign_keys two_tables = Inr defs \<and> map fk_key defs = [(''a'', ''k'')]"
proof -
  obtain rows where rows: "ct_references two_tables = Inr rows" "successively same_constraint rows"
    "map fr_key rows = [(''a'', ''k''), (''a'', ''k'')]"
    by (simp add: two_tables_def same_constraint_def fr_key_def)
  show ?thesis using capture_foreign_keys_exact [OF rows(1,2)] rows(3) by auto
qed

end
