(* ===== verification/Schedule.thy ===== *)
theory Schedule
  imports Aggregates Discovery "HOL-Library.Sublist"
begin

text \<open>
  The run of the server over all tables (\<open>stream_all_tables\<close> in \<open>crates/server/src/traversal.rs\<close>): the
  classification of the tables, the workers that stream full tables, the traversal of the
  aggregates, and the loop that writes what they send.

  Workers and traversal are producers: each yields its result and the messages it sends.  They
  run concurrently, so the writer sees their messages in some interleaving; the schedule is the
  list of what the writer's receive returns, a message, a timeout, or the client's interrupt, and
  ends when all producers have closed the channel.  The receiver stays until then, unless the
  client interrupts or writing fails, when the producers' results no longer matter; so each
  producer is run on a channel that is never closed.  A message handed to the output either is
  written or fails; the output is the list of messages written, the number after which writing
  fails, if ever, and whether the final flush succeeds.  Joining a thread that panicked gives an error.
\<close>

section \<open>Interleavings\<close>

inductive interleaving :: "'a list list \<Rightarrow> 'a list \<Rightarrow> bool" where
  interleaving_done: "\<forall>p \<in> set ps. p = [] \<Longrightarrow> interleaving ps []"
| interleaving_step: "i < length ps \<Longrightarrow> ps ! i = x # p \<Longrightarrow> interleaving (ps[i := p]) xs \<Longrightarrow> interleaving ps (x # xs)"

inductive_cases interleaving_NilE: "interleaving ps []"
inductive_cases interleaving_ConsE: "interleaving ps (x # xs)"
inductive_simps interleaving_Nil_iff: "interleaving ps []"

lemma interleaving_subseq: "interleaving ps xs \<Longrightarrow> p \<in> set ps \<Longrightarrow> subseq p xs"
proof (induction arbitrary: p rule: interleaving.induct)
  case (interleaving_step i ps x p' xs)
  show ?case
  proof (cases "p = x # p'")
    case True
    have "p' \<in> set (ps[i := p'])" using interleaving_step.hyps(1) by (simp add: set_update_memI)
    from interleaving_step.IH [OF this] show ?thesis unfolding True by simp
  next
    case False
    then have "p \<in> set (ps[i := p'])"
      using interleaving_step.hyps(1,2) interleaving_step.prems by (metis in_set_conv_nth length_list_update nth_list_update_neq)
    from interleaving_step.IH [OF this] show ?thesis by (rule list_emb_Cons)
  qed
qed auto

lemma interleaving_mset: "interleaving ps xs \<Longrightarrow> mset xs = mset (concat ps)"
proof (induction rule: interleaving.induct)
  case (interleaving_done ps)
  then have "concat ps = []" by simp
  then show ?case by simp
next
  case (interleaving_step i ps x p xs)
  have ps: "ps = take i ps @ (x # p) # drop (Suc i) ps"
    using id_take_nth_drop [OF interleaving_step.hyps(1)] interleaving_step.hyps(2) by simp
  have "ps[i := p] = take i ps @ p # drop (Suc i) ps" by (rule upd_conv_take_nth_drop [OF interleaving_step.hyps(1)])
  then have "mset xs = mset (concat (take i ps @ p # drop (Suc i) ps))" using interleaving_step.IH by simp
  moreover have "mset (concat ps) = add_mset x (mset (concat (take i ps @ p # drop (Suc i) ps)))" by (subst ps) simp
  ultimately show ?case by simp
qed

section \<open>Classification\<close>

record table_task =
  tt_table :: string
  tt_id :: u16
  tt_columns :: "column_def list"
  tt_anonymization :: "plan_anonymize_rule list"

record out_stream =
  ou_written :: "channel_message list"
  ou_limit :: "nat option"
  ou_flushes :: bool

definition ou_write :: "channel_message \<Rightarrow> out_stream \<Rightarrow> (failure + unit) \<times> out_stream" where
  "ou_write m o' =
     (if (case ou_limit o' of None \<Rightarrow> True | Some n \<Rightarrow> length (ou_written o') < n)
      then (Inr (), o'\<lparr>ou_written := ou_written o' @ [m]\<rparr>)
      else (Inl (Failed (SeIo ''write'')), o'))"

definition ou_flush :: "out_stream \<Rightarrow> (failure + unit) \<times> out_stream" where
  "ou_flush o' = (if ou_flushes o' then Inr () else Inl (Failed (SeIo ''flush'')), o')"

definition fbind :: "('s \<Rightarrow> (failure + 'a) \<times> 's) \<Rightarrow> ('a \<Rightarrow> 's \<Rightarrow> (failure + 'b) \<times> 's) \<Rightarrow> 's \<Rightarrow> (failure + 'b) \<times> 's" where
  "fbind m f s = (case m s of (Inl e, s') \<Rightarrow> (Inl e, s') | (Inr x, s') \<Rightarrow> f x s')"

definition flift :: "failure + 'a \<Rightarrow> 's \<Rightarrow> (failure + 'a) \<times> 's" where "flift r s = (r, s)"

lemma fbind_Inr [srv_rules]: "fbind m f s = (Inr y, s'') \<longleftrightarrow> (\<exists>x s'. m s = (Inr x, s') \<and> f x s' = (Inr y, s''))"
  by (auto simp: fbind_def split: prod.splits sum.splits)

lemma flift_Inr [srv_rules]: "flift r s = (Inr y, s') \<longleftrightarrow> r = Inr y \<and> s' = s"
  by (auto simp: flift_def)

text \<open>The tables that are excluded are written at once; the others that no aggregate may touch become tasks.\<close>

definition write_excluded :: "db \<Rightarrow> u16 \<Rightarrow> string \<Rightarrow> out_stream \<Rightarrow> (failure + unit) \<times> out_stream" where
  "write_excluded db tid table =
     fbind (flift (lift_err (db_columns db table))) (\<lambda>columns.
     fbind (flift (lift_err (db_indexes db table))) (\<lambda>indexes.
     fbind (flift (lift_err (db_options db table))) (\<lambda>options.
     fbind (ou_write (Control (Schema tid columns indexes options))) (\<lambda>_.
     ou_write (Control (TableDone tid 0 None))))))"

fun classify ::
  "db \<Rightarrow> execution_plan \<Rightarrow> (string \<rightharpoonup> u16) \<Rightarrow> string set \<Rightarrow> string list \<Rightarrow> out_stream \<Rightarrow>
     (failure + string set \<times> table_task list) \<times> out_stream" where
  "classify db plan ids potential [] = flift (Inr ({}, []))"
| "classify db plan ids potential (table # tables) =
     (if table \<in> ignored_tables plan \<or> aggregates_only plan \<and> table \<notin> potential
      then classify db plan ids potential tables
      else if table \<in> excluded_tables plan then
        fbind (flift (table_id_of ids table)) (\<lambda>tid.
        fbind (write_excluded db tid table) (\<lambda>_.
        fbind (classify db plan ids potential tables) (\<lambda>(excluded, tasks).
        flift (Inr (insert table excluded, tasks)))))
      else if table \<in> potential \<or> aggregates_only plan then classify db plan ids potential tables
      else
        fbind (flift (lift_err (db_columns db table))) (\<lambda>columns.
        fbind (flift (table_id_of ids table)) (\<lambda>tid.
        fbind (classify db plan ids potential tables) (\<lambda>(excluded, tasks).
        flift (Inr (excluded,
          \<lparr>tt_table = table, tt_id = tid, tt_columns = columns,
           tt_anonymization = or_default [] (anonymization plan table)\<rparr> # tasks))))))"

section \<open>Producers\<close>

text \<open>Tasks are dealt to the workers in turn.\<close>

definition deal :: "nat \<Rightarrow> 'a list \<Rightarrow> 'a list list" where
  "deal n tasks = fold (\<lambda>(i, t) ws. ws[i mod n := ws ! (i mod n) @ [t]]) (enumerate 0 tasks) (replicate n [])"

fun stream_tasks ::
  "'r stream_env \<Rightarrow> db \<Rightarrow> (string \<rightharpoonup> string list) \<Rightarrow> table_task list \<Rightarrow> 'r \<Rightarrow> (channel, unit) srv" where
  "stream_tasks env db fks [] rng = sret ()"
| "stream_tasks env db fks (t # ts) rng =
     sbind (stream_full_table_to_channel env db (tt_table t) (tt_id t) (tt_columns t) (tt_anonymization t) fks rng)
       (stream_tasks env db fks ts)"

definition open_channel :: channel where "open_channel = \<lparr>ch_sent = [], ch_limit = None\<rparr>"

text \<open>A worker opens a connection of its own and reports its error through the channel.\<close>

definition run_worker ::
  "'r stream_env \<Rightarrow> (server_error + db) \<Rightarrow> (string \<rightharpoonup> string list) \<Rightarrow> table_task list \<Rightarrow> 'r \<Rightarrow>
     (server_error + unit) \<times> channel_message list" where
  "run_worker env connect fks tasks rng =
     (case connect of
        Inl e \<Rightarrow> (Inl e, [])
      | Inr db \<Rightarrow>
          (case stream_tasks env db fks tasks rng open_channel of
             (Inl e, ch) \<Rightarrow> (Inl e, ch_sent ch @ [Control (SmError (se_display e) (se_is_recoverable e))])
           | (Inr u, ch) \<Rightarrow> (Inr u, ch_sent ch)))"

section \<open>The writer\<close>

datatype reception = Received channel_message | TimedOut | Interrupted

fun received :: "reception list \<Rightarrow> channel_message list" where
  "received [] = []"
| "received (Received m # rs) = m # received rs"
| "received (TimedOut # rs) = received rs"
| "received (Interrupted # rs) = received rs"

text \<open>A row count gets a snapshot of the metrics, a parameter that depends on what was written before.\<close>

definition with_metrics :: "server_metrics option \<Rightarrow> channel_message \<Rightarrow> channel_message" where
  "with_metrics snap m =
     (case m of Control (TableDone tid n _) \<Rightarrow> Control (TableDone tid n snap) | _ \<Rightarrow> m)"

definition streamed_by :: "channel_message \<Rightarrow> u16 set" where
  "streamed_by m = (case m of Control (TableDone tid n _) \<Rightarrow> if 0 < n then {tid} else {} | _ \<Rightarrow> {})"

fun writer_loop ::
  "(nat \<Rightarrow> server_metrics option) \<Rightarrow> reception list \<Rightarrow> u16 set \<Rightarrow> out_stream \<Rightarrow> (failure + bool \<times> u16 set) \<times> out_stream" where
  "writer_loop snap [] streamed = flift (Inr (False, streamed))"
| "writer_loop snap (Interrupted # rs) streamed = flift (Inr (True, streamed))"
| "writer_loop snap (TimedOut # rs) streamed = writer_loop snap rs streamed"
| "writer_loop snap (Received m # rs) streamed =
     (\<lambda>o'. fbind (ou_write (with_metrics (snap (length (ou_written o'))) m)) (\<lambda>_.
       writer_loop snap rs (streamed \<union> streamed_by m)) o')"

section \<open>The run\<close>

datatype 'a joined = Returned "server_error + 'a" | ThreadPanicked

definition join_result :: "string \<Rightarrow> 'a joined \<Rightarrow> server_error + 'a" where
  "join_result who j = (case j of Returned r \<Rightarrow> r | ThreadPanicked \<Rightarrow> Inl (SeProtocol (who @ '' thread panicked'')))"

fun first_failure :: "(server_error + unit) list \<Rightarrow> server_error option" where
  "first_failure [] = None"
| "first_failure (Inl e # rs) = Some e"
| "first_failure (Inr u # rs) = first_failure rs"

definition disposition_of :: "string set \<Rightarrow> string set \<Rightarrow> u16 set \<Rightarrow> string \<Rightarrow> u16 \<Rightarrow> table_disposition" where
  "disposition_of excluded touched streamed table tid =
     (if table \<in> excluded then TdExcluded
      else if table \<in> touched then TdAggregate
      else if tid \<in> streamed then TdFull else TdEmpty)"

record 'r schedule_env =
  sd_stream :: "'r stream_env"
  sd_regex :: regex_engine
  sd_main :: db
  sd_names :: "server_error + string list"
  sd_plan :: execution_plan
  sd_ids :: "string \<rightharpoonup> u16"
  sd_parallel :: u32
  sd_connect :: "nat \<Rightarrow> server_error + db"
  sd_seed :: "nat \<Rightarrow> 'r"
  sd_snapshot :: "nat \<Rightarrow> server_metrics option"

text \<open>The producers: the workers that have tasks, in order.\<close>

definition workers_of :: "'r schedule_env \<Rightarrow> table_task list \<Rightarrow> ((server_error + unit) \<times> channel_message list) list" where
  "workers_of env tasks =
     (let n = min (max (unat (sd_parallel env)) 1) (max (length tasks) 1) in
      map (\<lambda>(i, ts). run_worker (sd_stream env) (sd_connect env i) (fakers (sd_plan env)) ts (sd_seed env i))
        (filter (\<lambda>(i, ts). ts \<noteq> []) (enumerate 0 (deal n tasks))))"

text \<open>
  \<open>bfs\<close> is the outcome of the traversal thread, when there are aggregates, and \<open>panics i\<close> says that
  the thread of worker \<open>i\<close> panicked.
\<close>

definition assemble ::
  "'r schedule_env \<Rightarrow> string list \<Rightarrow> string set \<Rightarrow> u16 set \<Rightarrow> string set \<Rightarrow> failure + (u16 \<times> table_disposition) list" where
  "assemble env names excluded streamed touched =
     rbind (rmap (\<lambda>t. rbind (table_id_of (sd_ids env) t) (\<lambda>i. Inr (i, disposition_of excluded touched streamed t i)))
         (filter (\<lambda>t. t \<notin> ignored_tables (sd_plan env)) names)) (\<lambda>ds.
     Inr (sort_key fst ds))"

definition stream_all_tables ::
  "'r schedule_env \<Rightarrow> (string list \<Rightarrow> string set \<Rightarrow> string set joined) \<Rightarrow> (nat \<Rightarrow> bool) \<Rightarrow> reception list \<Rightarrow>
     out_stream \<Rightarrow> (failure + (u16 \<times> table_disposition) list) \<times> out_stream" where
  "stream_all_tables env bfs panics schedule =
     fbind (flift (lift_err (sd_names env))) (\<lambda>names.
     fbind (flift (lift_err (rmap (db_columns (sd_main env)) (filter (\<lambda>t. t \<in> dom (sd_ids env)) names)))) (\<lambda>_.
     fbind (flift (lift_err (compute_potential_aggregate_tables (sd_regex env) (sd_plan env) (dom (sd_ids env))))) (\<lambda>potential.
     fbind (classify (sd_main env) (sd_plan env) (sd_ids env) potential names) (\<lambda>(excluded, tasks).
     fbind (writer_loop (sd_snapshot env) schedule {}) (\<lambda>(interrupted, streamed).
     fbind ou_flush (\<lambda>_.
     if interrupted then flift (Inl (Failed (SeProtocol ''Interrupted by client'')))
     else
       let touched = (if aggregates (sd_plan env) = [] then Inr {} else join_result ''BFS'' (bfs names potential));
           workers = map (\<lambda>(i, r). join_result ''Worker'' (if panics i then ThreadPanicked else Returned (fst r)))
             (enumerate 0 (workers_of env tasks))
       in
       (case touched of
          Inl e \<Rightarrow> flift (Inl (Failed e))
        | Inr touched_tables \<Rightarrow>
            (case first_failure workers of
               Some e \<Rightarrow> flift (Inl (Failed e))
             | None \<Rightarrow> flift (assemble env names excluded streamed touched_tables)))))))))"


section \<open>What a run writes\<close>

definition is_task :: "execution_plan \<Rightarrow> string set \<Rightarrow> string \<Rightarrow> bool" where
  "is_task plan potential t \<longleftrightarrow>
     t \<notin> ignored_tables plan \<and> t \<notin> excluded_tables plan \<and> t \<notin> potential \<and> \<not> aggregates_only plan"

definition is_excluded :: "execution_plan \<Rightarrow> string set \<Rightarrow> string \<Rightarrow> bool" where
  "is_excluded plan potential t \<longleftrightarrow>
     t \<notin> ignored_tables plan \<and> t \<in> excluded_tables plan \<and> (aggregates_only plan \<longrightarrow> t \<in> potential)"

definition task_ok :: "db \<Rightarrow> execution_plan \<Rightarrow> (string \<rightharpoonup> u16) \<Rightarrow> table_task \<Rightarrow> bool" where
  "task_ok db plan ids t \<longleftrightarrow>
     ids (tt_table t) = Some (tt_id t) \<and> db_columns db (tt_table t) = Inr (tt_columns t) \<and>
     tt_anonymization t = or_default [] (anonymization plan (tt_table t))"

definition excluded_messages :: "db \<Rightarrow> (string \<rightharpoonup> u16) \<Rightarrow> string \<Rightarrow> channel_message list \<Rightarrow> bool" where
  "excluded_messages db ids t ms \<longleftrightarrow>
     (\<exists>i cols idx opts. ids t = Some i \<and> db_columns db t = Inr cols \<and> db_indexes db t = Inr idx \<and> db_options db t = Inr opts \<and>
        ms = [Control (Schema i cols idx opts), Control (TableDone i 0 None)])"

lemma ou_write_Inr [srv_rules]:
  "ou_write m o' = (Inr u, o'') \<Longrightarrow> ou_written o'' = ou_written o' @ [m]"
  by (auto simp: ou_write_def split: if_splits)

lemma write_excluded_Inr:
  assumes "write_excluded db i t o1 = (Inr u, o2)" "ids t = Some i"
  shows "\<exists>ms. excluded_messages db ids t ms \<and> ou_written o2 = ou_written o1 @ ms"
proof -
  obtain cols idx opts o' where c: "db_columns db t = Inr cols" "db_indexes db t = Inr idx" "db_options db t = Inr opts"
    and w: "ou_write (Control (Schema i cols idx opts)) o1 = (Inr (), o')"
      "ou_write (Control (TableDone i 0 None)) o' = (Inr (), o2)"
    using assms(1) by (auto simp: write_excluded_def srv_rules)
  then show ?thesis using assms(2) ou_write_Inr [OF w(1)] ou_write_Inr [OF w(2)] by (auto simp: excluded_messages_def)
qed

lemma classify_Inr:
  "classify db plan ids potential names o1 = (Inr (excluded, tasks), o2) \<Longrightarrow>
     map tt_table tasks = filter (is_task plan potential) names \<and>
     excluded = {t \<in> set names. is_excluded plan potential t} \<and> (\<forall>t \<in> set tasks. task_ok db plan ids t) \<and>
     (\<exists>mss. list_all2 (excluded_messages db ids) (filter (is_excluded plan potential) names) mss \<and>
        ou_written o2 = ou_written o1 @ concat mss)"
proof (induction names arbitrary: excluded tasks o1)
  case Nil
  then show ?case by (auto simp: srv_rules)
next
  case (Cons t names)
  consider (skip) "\<not> is_task plan potential t" "\<not> is_excluded plan potential t"
      "classify db plan ids potential names o1 = (Inr (excluded, tasks), o2)"
    | (ex) i ex' o' where "is_excluded plan potential t" "\<not> is_task plan potential t" "ids t = Some i"
      "write_excluded db i t o1 = (Inr (), o')" "classify db plan ids potential names o' = (Inr (ex', tasks), o2)"
      "excluded = insert t ex'"
    | (task) i cols ts where "is_task plan potential t" "\<not> is_excluded plan potential t" "ids t = Some i" "db_columns db t = Inr cols"
      "classify db plan ids potential names o1 = (Inr (excluded, ts), o2)"
      "tasks = \<lparr>tt_table = t, tt_id = i, tt_columns = cols, tt_anonymization = or_default [] (anonymization plan t)\<rparr> # ts"
    using Cons.prems unfolding classify.simps
    by (cases "t \<in> ignored_tables plan"; cases "aggregates_only plan"; cases "t \<in> potential"; cases "t \<in> excluded_tables plan")
      (auto simp: srv_rules is_task_def is_excluded_def)
  then show ?case
  proof cases
    case skip
    then show ?thesis using Cons.IH [OF skip(3)] by auto
  next
    case ex
    obtain ms where ms: "excluded_messages db ids t ms" "ou_written o' = ou_written o1 @ ms"
      using write_excluded_Inr [where ids = ids, OF ex(4,3)] by blast
    obtain mss where "list_all2 (excluded_messages db ids) (filter (is_excluded plan potential) names) mss"
      "ou_written o2 = ou_written o' @ concat mss"
      using Cons.IH [OF ex(5)] by blast
    then have "list_all2 (excluded_messages db ids) (filter (is_excluded plan potential) (t # names)) (ms # mss) \<and>
        ou_written o2 = ou_written o1 @ concat (ms # mss)" using ms ex(1) by simp
    then show ?thesis using Cons.IH [OF ex(5)] ex(1,2,6) by (intro conjI exI) auto
  next
    case task
    then show ?thesis using Cons.IH [OF task(5)] by (auto simp: task_ok_def)
  qed
qed

lemma writer_loop_Inr:
  "writer_loop snap rs streamed o1 = (Inr (False, streamed'), o2) \<Longrightarrow>
     Interrupted \<notin> set rs \<and>
     (\<exists>written. ou_written o2 = ou_written o1 @ written \<and>
        list_all2 (\<lambda>m w. \<exists>sn. w = with_metrics sn m) (received rs) written) \<and>
     streamed' = streamed \<union> (\<Union>m \<in> set (received rs). streamed_by m)"
proof (induction snap rs streamed arbitrary: o1 rule: writer_loop.induct)
  case (4 snap m rs streamed)
  let ?m = "with_metrics (snap (length (ou_written o1))) m"
  obtain o' where w: "ou_write ?m o1 = (Inr (), o')"
    and l: "writer_loop snap rs (streamed \<union> streamed_by m) o' = (Inr (False, streamed'), o2)"
    using "4.prems" by (auto simp: srv_rules)
  obtain written where "ou_written o2 = ou_written o' @ written"
    "list_all2 (\<lambda>m w. \<exists>sn. w = with_metrics sn m) (received rs) written"
    using "4.IH" [OF l] by blast
  then have "ou_written o2 = ou_written o1 @ ?m # written \<and>
      list_all2 (\<lambda>m w. \<exists>sn. w = with_metrics sn m) (received (Received m # rs)) (?m # written)"
    using ou_write_Inr [OF w] by auto
  then show ?case using "4.IH" [OF l] by (intro conjI exI) auto
qed (auto simp: srv_rules)

section \<open>Workers\<close>


lemma deal_fold:
  assumes "0 < n" "length ws = n"
  shows "length (fold (\<lambda>(i, t) ws. ws[i mod n := ws ! (i mod n) @ [t]]) its ws) = n \<and>
    (\<forall>t. (\<exists>w \<in> set (fold (\<lambda>(i, t) ws. ws[i mod n := ws ! (i mod n) @ [t]]) its ws). t \<in> set w) \<longleftrightarrow>
       t \<in> snd ` set its \<or> (\<exists>w \<in> set ws. t \<in> set w))"
  using assms(2)
proof (induction its arbitrary: ws)
  case (Cons it its)
  obtain i u where it: "it = (i, u)" by (cases it)
  let ?k = "i mod n" and ?ws = "ws[i mod n := ws ! (i mod n) @ [u]]"
  have k: "?k < length ws" using assms(1) Cons.prems by simp
  have "(\<exists>w \<in> set ?ws. t \<in> set w) \<longleftrightarrow> t = u \<or> (\<exists>w \<in> set ws. t \<in> set w)" for t
  proof -
    have "(\<exists>w \<in> set ?ws. t \<in> set w) \<longleftrightarrow> (\<exists>j < length ws. t \<in> set (?ws ! j))" by (auto simp: set_conv_nth)
    also have "\<dots> \<longleftrightarrow> t = u \<or> (\<exists>j < length ws. t \<in> set (ws ! j))"
      using k by (auto simp: nth_list_update)
    finally show ?thesis by (auto simp: set_conv_nth)
  qed
  then show ?case using Cons.IH [of ?ws] Cons.prems by (auto simp: it)
qed simp

lemma deal_all: "0 < n \<Longrightarrow> t \<in> set tasks \<longleftrightarrow> (\<exists>w \<in> set (deal n tasks). t \<in> set w)"
  using deal_fold [of n "replicate n []" "enumerate 0 tasks"]
  by (auto simp: deal_def simp flip: set_map)

text \<open>The messages of a task, as its worker sent them.\<close>

definition task_sent :: "'r schedule_env \<Rightarrow> table_task \<Rightarrow> channel_message list \<Rightarrow> bool" where
  "task_sent env t ms \<longleftrightarrow>
     (\<exists>db rng rng' ch ch'. (\<exists>i. sd_connect env i = Inr db) \<and>
        stream_full_table_to_channel (sd_stream env) db (tt_table t) (tt_id t) (tt_columns t) (tt_anonymization t)
          (fakers (sd_plan env)) rng ch = (Inr rng', ch') \<and>
        ch_sent ch' = ch_sent ch @ ms)"

lemma stream_tasks_sent:
  assumes "sd_connect env k = Inr db"
  shows "stream_tasks (sd_stream env) db (fakers (sd_plan env)) ts rng ch = (Inr u, ch') \<Longrightarrow>
    (\<exists>mss. list_all2 (task_sent env) ts mss \<and> ch_sent ch' = ch_sent ch @ concat mss)"
proof (induction ts arbitrary: rng ch)
  case (Cons t ts)
  obtain rng' ch1 where f: "stream_full_table_to_channel (sd_stream env) db (tt_table t) (tt_id t) (tt_columns t)
      (tt_anonymization t) (fakers (sd_plan env)) rng ch = (Inr rng', ch1)"
    and r: "stream_tasks (sd_stream env) db (fakers (sd_plan env)) ts rng' ch1 = (Inr u, ch')"
    using Cons.prems by (auto simp: srv_rules)
  obtain ms where ms: "ch_sent ch1 = ch_sent ch @ ms" using full_table_prefix [OF f] by blast
  obtain mss where mss: "list_all2 (task_sent env) ts mss" "ch_sent ch' = ch_sent ch1 @ concat mss"
    using Cons.IH [OF r] by blast
  have "task_sent env t ms" using f ms assms unfolding task_sent_def by blast
  then have "list_all2 (task_sent env) (t # ts) (ms # mss)" using mss(1) by simp
  then show ?case using ms mss(2) by (intro exI [of _ "ms # mss"]) simp
qed (simp add: srv_rules)

lemma run_worker_sent:
  assumes "run_worker (sd_stream env) (sd_connect env k) (fakers (sd_plan env)) ts rng = (Inr u, sent)"
  obtains mss where "list_all2 (task_sent env) ts mss" "sent = concat mss"
proof -
  obtain db ch where c: "sd_connect env k = Inr db"
    and s: "stream_tasks (sd_stream env) db (fakers (sd_plan env)) ts rng open_channel = (Inr (), ch)" "sent = ch_sent ch"
    using assms by (auto simp: run_worker_def split: sum.splits prod.splits unit.splits)
  show ?thesis using stream_tasks_sent [OF c s(1)] that s(2) by (auto simp: open_channel_def)
qed

lemma first_failure_None: "first_failure rs = None \<Longrightarrow> r \<in> set rs \<Longrightarrow> r = Inr ()"
  by (induction rs rule: first_failure.induct) auto


lemma subseq_concat: "p \<in> set ps \<Longrightarrow> subseq p (concat ps)"
  by (induction ps) (auto intro: list_emb_append2)

lemma worker_tasks:
  assumes "task \<in> set tasks"
  obtains i k ts where "(i, ts) \<in> set (enumerate 0 (deal k tasks))" "task \<in> set ts" "ts \<noteq> []"
    "k = min (max (unat p) 1) (max (length tasks) 1)"
proof -
  let ?k = "min (max (unat p) 1) (max (length tasks) 1)"
  have "0 < ?k" by (simp add: less_max_iff_disj)
  obtain ts where ts: "ts \<in> set (deal ?k tasks)" "task \<in> set ts"
    using iffD1 [OF deal_all [OF \<open>0 < ?k\<close>] assms] by blast
  have "ts \<in> set (map snd (enumerate 0 (deal ?k tasks)))" using ts(1) by simp
  then have "ts \<in> snd ` set (enumerate 0 (deal ?k tasks))" unfolding set_map .
  then obtain i where "(i, ts) \<in> set (enumerate 0 (deal ?k tasks))" by (metis imageE prod.collapse)
  moreover have "ts \<noteq> []" using ts(2) by auto
  ultimately show ?thesis by (rule that [OF _ ts(2) _ refl])
qed

lemma task_streamed:
  assumes "task \<in> set tasks"
    and ff: "first_failure (map (\<lambda>(i, r). join_result ''Worker'' (if panics i then ThreadPanicked else Returned (fst r)))
        (enumerate 0 (workers_of env tasks))) = None"
    and inter: "interleaving (bfs_sent # map snd (workers_of env tasks)) ms"
  shows "\<exists>sent. task_sent env task sent \<and> subseq sent ms"
proof -
  obtain i k ts where ts: "(i, ts) \<in> set (enumerate 0 (deal k tasks))" "task \<in> set ts" "ts \<noteq> []"
    and k: "k = min (max (unat (sd_parallel env)) 1) (max (length tasks) 1)"
    by (rule worker_tasks [OF assms(1)])
  let ?r = "run_worker (sd_stream env) (sd_connect env i) (fakers (sd_plan env)) ts (sd_seed env i)"
  have mem: "?r \<in> set (workers_of env tasks)"
    using ts(1,3) unfolding workers_of_def Let_def k by (force simp: image_iff)
  then obtain j where j: "j < length (workers_of env tasks)" "workers_of env tasks ! j = ?r" by (auto simp: in_set_conv_nth)
  then have "(j, ?r) \<in> set (enumerate 0 (workers_of env tasks))" by (simp add: in_set_enumerate_eq)
  then have "join_result ''Worker'' (if panics j then ThreadPanicked else Returned (fst ?r)) = Inr ()"
    using first_failure_None [OF ff] by force
  then have "fst ?r = Inr ()" by (auto simp: join_result_def split: if_splits)
  then have "run_worker (sd_stream env) (sd_connect env i) (fakers (sd_plan env)) ts (sd_seed env i) = (Inr (), snd ?r)"
    by (metis prod.collapse)
  then obtain mss where mss: "list_all2 (task_sent env) ts mss" "snd ?r = concat mss" by (rule run_worker_sent)
  obtain j' where j': "j' < length ts" "ts ! j' = task" using ts(2) by (auto simp: in_set_conv_nth)
  then have "task_sent env task (mss ! j')" "mss ! j' \<in> set mss"
    using mss(1) by (auto simp: list_all2_conv_all_nth)
  moreover have "subseq (snd ?r) ms" by (rule interleaving_subseq [OF inter]) (use mem in auto)
  ultimately show ?thesis using subseq_concat mss(2) subseq_order.order_trans by metis
qed

lemma rmap_table_ids:
  "rmap (\<lambda>t. rbind (table_id_of ids t) (\<lambda>i. Inr (i, f t i))) ts = Inr ds \<Longrightarrow>
     ds = map (\<lambda>t. (the (ids t), f t (the (ids t)))) ts"
  by (induction ts arbitrary: ds) (auto simp: rbind_Inr_iff)

lemma assemble_Inr:
  assumes "assemble env names excluded streamed touched = Inr ds"
  shows "sorted (map fst ds) \<and>
    mset ds = mset (map (\<lambda>t. (the (sd_ids env t), disposition_of excluded touched streamed t (the (sd_ids env t))))
      (filter (\<lambda>t. t \<notin> ignored_tables (sd_plan env)) names))"
  using assms rmap_table_ids unfolding assemble_def rbind_Inr_iff by fastforce

text \<open>C20: a run that ends without an error has written, for every table that is excluded, its schema and an
  empty row count, and after these exactly what the producers sent, in an order that keeps each
  producer's order, with metrics added to the row counts; among it the whole stream of every
  table that is neither ignored nor excluded nor touched by an aggregate.  The dispositions list
  every table that is not ignored in the order of the ids, and call a table full exactly when
  rows of it were reported and no aggregate touched it.\<close>

theorem all_tables_streamed:
  assumes run: "stream_all_tables env bfs panics schedule o1 = (Inr ds, o2)"
    and names: "sd_names env = Inr names"
    and pot: "compute_potential_aggregate_tables (sd_regex env) (sd_plan env) (dom (sd_ids env)) = Inr potential"
    and sched: "\<forall>excluded tasks oc.
      classify (sd_main env) (sd_plan env) (sd_ids env) potential names o1 = (Inr (excluded, tasks), oc) \<longrightarrow>
      interleaving (bfs_sent # map snd (workers_of env tasks)) (received schedule)"
  shows "(\<exists>mss written.
       ou_written o2 = ou_written o1 @ concat mss @ written \<and>
       list_all2 (excluded_messages (sd_main env) (sd_ids env)) (filter (is_excluded (sd_plan env) potential) names) mss \<and>
       list_all2 (\<lambda>m w. \<exists>sn. w = with_metrics sn m) (received schedule) written) \<and>
     (\<forall>t \<in> set names. is_task (sd_plan env) potential t \<longrightarrow>
       (\<exists>task ms. tt_table task = t \<and> task_ok (sd_main env) (sd_plan env) (sd_ids env) task \<and>
          task_sent env task ms \<and> subseq ms (received schedule))) \<and>
     subseq bfs_sent (received schedule) \<and>
     (\<exists>touched. (if aggregates (sd_plan env) = [] then touched = {} else bfs names potential = Returned (Inr touched)) \<and>
       sorted (map fst ds) \<and>
       mset ds = mset (map (\<lambda>t. (the (sd_ids env t),
           disposition_of {t \<in> set names. is_excluded (sd_plan env) potential t} touched
             (\<Union>m \<in> set (received schedule). streamed_by m) t (the (sd_ids env t))))
         (filter (\<lambda>t. t \<notin> ignored_tables (sd_plan env)) names)))"
proof -
  let ?plan = "sd_plan env" and ?ids = "sd_ids env" and ?main = "sd_main env"
  obtain excluded tasks oc streamed ol where
    cl: "classify ?main ?plan ?ids potential names o1 = (Inr (excluded, tasks), oc)"
    and wl: "writer_loop (sd_snapshot env) schedule {} oc = (Inr (False, streamed), ol)"
    and o2: "ou_written o2 = ou_written ol"
    and rest: "\<exists>touched. (if aggregates ?plan = [] then touched = {} else bfs names potential = Returned (Inr touched)) \<and>
      first_failure (map (\<lambda>(i, r). join_result ''Worker'' (if panics i then ThreadPanicked else Returned (fst r)))
        (enumerate 0 (workers_of env tasks))) = None \<and>
      assemble env names excluded streamed touched = Inr ds"
    using run names pot
    by (auto simp: stream_all_tables_def srv_rules ou_flush_def Let_def join_result_def
        split: if_splits sum.splits option.splits joined.splits)
  obtain touched where touched: "if aggregates ?plan = [] then touched = {} else bfs names potential = Returned (Inr touched)"
    and ff: "first_failure (map (\<lambda>(i, r). join_result ''Worker'' (if panics i then ThreadPanicked else Returned (fst r)))
        (enumerate 0 (workers_of env tasks))) = None"
    and asm: "assemble env names excluded streamed touched = Inr ds"
    using rest by blast
  have inter: "interleaving (bfs_sent # map snd (workers_of env tasks)) (received schedule)" using sched cl by blast
  obtain mss where mss: "list_all2 (excluded_messages ?main ?ids) (filter (is_excluded ?plan potential) names) mss"
    "ou_written oc = ou_written o1 @ concat mss" using classify_Inr [OF cl] by blast
  obtain written where w: "ou_written ol = ou_written oc @ written"
    "list_all2 (\<lambda>m w. \<exists>sn. w = with_metrics sn m) (received schedule) written"
    using writer_loop_Inr [OF wl] by blast
  have st: "streamed = (\<Union>m \<in> set (received schedule). streamed_by m)" using writer_loop_Inr [OF wl] by simp
  have ex: "excluded = {t \<in> set names. is_excluded ?plan potential t}" using classify_Inr [OF cl] by blast
  have stream: "\<exists>ms. task_sent env task ms \<and> subseq ms (received schedule)" if "task \<in> set tasks" for task
    by (rule task_streamed [OF that ff inter])
  have tasks: "\<exists>task \<in> set tasks. tt_table task = t" if "t \<in> set names" "is_task ?plan potential t" for t
  proof -
    have "t \<in> set (map tt_table tasks)" using classify_Inr [OF cl] that by simp
    then show ?thesis by auto
  qed
  have "task_ok ?main ?plan ?ids task" if "task \<in> set tasks" for task using classify_Inr [OF cl] that by blast
  then have "\<forall>t \<in> set names. is_task ?plan potential t \<longrightarrow>
      (\<exists>task ms. tt_table task = t \<and> task_ok ?main ?plan ?ids task \<and> task_sent env task ms \<and> subseq ms (received schedule))"
    using tasks stream by meson
  moreover have "subseq bfs_sent (received schedule)" by (rule interleaving_subseq [OF inter]) simp
  ultimately show ?thesis
    using mss w o2 touched assemble_Inr [OF asm] unfolding ex st by auto
qed


section \<open>Progress of the writer\<close>

lemma writer_loop_open:
  "ou_limit o1 = None \<Longrightarrow> Interrupted \<notin> set rs \<Longrightarrow>
     \<exists>st o2. writer_loop snap rs streamed o1 = (Inr (False, st), o2) \<and> ou_limit o2 = None \<and> ou_flushes o2 = ou_flushes o1"
proof (induction snap rs streamed arbitrary: o1 rule: writer_loop.induct)
  case (4 snap m rs streamed)
  let ?o = "o1\<lparr>ou_written := ou_written o1 @ [with_metrics (snap (length (ou_written o1))) m]\<rparr>"
  have "ou_write (with_metrics (snap (length (ou_written o1))) m) o1 = (Inr (), ?o)" using "4.prems" by (simp add: ou_write_def)
  then show ?case using "4.IH" [of ?o] "4.prems" by (simp add: fbind_def)
qed (simp_all add: flift_def)

section \<open>An example\<close>

definition sample_out :: out_stream where
  "sample_out = \<lparr>ou_written = [], ou_limit = None, ou_flushes = True\<rparr>"

definition sample_schedule_env :: "nat schedule_env" where
  "sample_schedule_env =
     \<lparr>sd_stream = sample_env, sd_regex = Inl, sd_main = sample_db, sd_names = Inr [''t''],
      sd_plan = empty_plan\<lparr>anonymization := Map.empty(''t'' \<mapsto> sample_rules), fakers := sample_fakers\<rparr>,
      sd_ids = Map.empty(''t'' \<mapsto> 3), sd_parallel = 2, sd_connect = \<lambda>_. Inr sample_db, sd_seed = \<lambda>_. 0,
      sd_snapshot = \<lambda>_. None\<rparr>"

abbreviation sample_sent :: "channel_message list" where "sample_sent \<equiv> ch_sent (snd (sample_stream None))"

lemma interleaving_alone: "interleaving [[], p] p"
proof (induction p)
  case (Cons x p)
  then show ?case by (intro interleaving_step [of 1]) simp_all
qed (simp add: interleaving_done)

lemma sample_potential:
  "compute_potential_aggregate_tables (sd_regex sample_schedule_env) (sd_plan sample_schedule_env)
     (dom (sd_ids sample_schedule_env)) = Inr {}"
  by (simp add: compute_potential_aggregate_tables_def sample_schedule_env_def empty_plan_def)

lemma sample_classify:
  "classify (sd_main sample_schedule_env) (sd_plan sample_schedule_env) (sd_ids sample_schedule_env) {} [''t''] o' =
     (Inr ({}, [\<lparr>tt_table = ''t'', tt_id = 3, tt_columns = sample_cols, tt_anonymization = sample_rules\<rparr>]), o')"
  by (simp add: sample_schedule_env_def empty_plan_def fbind_def flift_def lift_err_def sample_db_def table_id_of_def
      or_default_def)

lemma sample_workers:
  "workers_of sample_schedule_env [\<lparr>tt_table = ''t'', tt_id = 3, tt_columns = sample_cols, tt_anonymization = sample_rules\<rparr>] =
     [(Inr (), sample_sent)]"
proof -
  obtain x ch where run: "sample_stream None = (Inr x, ch)" using sample_stream_runs(1) by blast
  have c: "open_channel = sample_channel None" by (simp add: open_channel_def sample_channel_def)
  have t: "stream_tasks sample_env sample_db sample_fakers
      [\<lparr>tt_table = ''t'', tt_id = 3, tt_columns = sample_cols, tt_anonymization = sample_rules\<rparr>] 0 open_channel = (Inr (), ch)"
    by (simp add: c run sbind_def sret_def)
  have "run_worker sample_env (Inr sample_db) sample_fakers
      [\<lparr>tt_table = ''t'', tt_id = 3, tt_columns = sample_cols, tt_anonymization = sample_rules\<rparr>] 0 = (Inr (), ch_sent ch)"
    by (simp add: run_worker_def t del: stream_tasks.simps split: unit.split)
  then show ?thesis using run by (simp add: workers_of_def deal_def sample_schedule_env_def)
qed

lemma received_map [simp]: "received (map Received ms) = ms"
  by (induction ms) simp_all

theorem all_tables_streamed_witness:
  "\<exists>ds o2 ms.
     stream_all_tables sample_schedule_env (\<lambda>_ _. ThreadPanicked) (\<lambda>_. False) (map Received sample_sent) sample_out = (Inr ds, o2) \<and>
     list_all2 (\<lambda>m w. \<exists>sn. w = with_metrics sn m) sample_sent (ou_written o2) \<and>
     subseq ms sample_sent \<and> length ds = 1"
proof -
  let ?env = sample_schedule_env
  have names: "sd_names ?env = Inr [''t'']" by (simp add: sample_schedule_env_def)
  obtain st ow where w: "writer_loop (sd_snapshot ?env) (map Received sample_sent) {} sample_out = (Inr (False, st), ow)"
    "ou_flushes ow"
    using writer_loop_open [of sample_out "map Received sample_sent" "sd_snapshot ?env" "{}"]
    by (auto simp: sample_out_def)
  have cols: "rmap (db_columns (sd_main ?env)) (filter (\<lambda>t. t \<in> dom (sd_ids ?env)) [''t'']) = Inr [sample_cols]"
    by (simp add: sample_schedule_env_def sample_db_def)
  have agg: "aggregates (sd_plan ?env) = []" by (simp add: sample_schedule_env_def empty_plan_def)
  obtain ds where ds: "assemble ?env [''t''] {} st {} = Inr ds"
    by (simp add: assemble_def sample_schedule_env_def empty_plan_def table_id_of_def)
  have run: "stream_all_tables ?env (\<lambda>_ _. ThreadPanicked) (\<lambda>_. False) (map Received sample_sent) sample_out = (Inr ds, ow)"
    by (simp add: stream_all_tables_def fbind_def flift_def names cols sample_potential sample_classify lift_err_def
        w(1) ou_flush_def w(2) agg sample_workers join_result_def ds
        del: classify.simps rmap.simps filter.simps)
  have sched: "\<forall>excluded tasks oc.
      classify (sd_main ?env) (sd_plan ?env) (sd_ids ?env) {} [''t''] sample_out = (Inr (excluded, tasks), oc) \<longrightarrow>
      interleaving ([] # map snd (workers_of ?env tasks)) (received (map Received sample_sent))"
    by (auto simp: sample_classify sample_workers interleaving_alone simp del: classify.simps)
  note r = all_tables_streamed [OF run names sample_potential sched]
  have not_ex: "filter (is_excluded (sd_plan ?env) {}) [''t''] = []"
    by (simp add: is_excluded_def sample_schedule_env_def empty_plan_def)
  have sel: "filter (\<lambda>t. t \<notin> ignored_tables (sd_plan ?env)) [''t''] = [''t'']"
    by (simp add: sample_schedule_env_def empty_plan_def)
  have "list_all2 (\<lambda>m w. \<exists>sn. w = with_metrics sn m) sample_sent (ou_written ow)"
    using conjunct1 [OF r] unfolding not_ex by (auto simp: sample_out_def)
  moreover have "subseq [] sample_sent" by simp
  moreover have "length ds = 1"
  proof -
    obtain f where "mset ds = mset (map f [''t''])" using r unfolding sel by blast
    then show ?thesis using mset_eq_length by fastforce
  qed
  ultimately show ?thesis using run by blast
qed

end
