(* ===== verification/Server.thy ===== *)
theory Server
  imports Schedule
begin

text \<open>
  The session of the server (\<open>crates/server/src/main.rs\<close>): handshake, credentials and plan, discovery,
  the \<open>Ready\<close> message, and then a dry run or the run over all tables.

  What the reads of the input yield is a list, in order; reading past it is an error.  Opening a
  connection gives the answers of the server it leads to (\<open>catalog\<close>), and the data connections of
  the workers are those of \<open>Schedule\<close>.  Whether the client has interrupted is a parameter, which
  agrees with the schedule of the writer.  The messages on standard error are not modelled.
\<close>

section \<open>The handshake\<close>

definition em_dash :: string where "em_dash = [CHR 0xE2, CHR 0x80, CHR 0x94]"

fun handshake_display :: "handshake_error \<Rightarrow> string" where
  "handshake_display (BadMagic b) =
     ''invalid protocol preamble (got bytes '' @ format_array (\<lambda>c. hex_encode [c]) b @
       '', expected magic '' @ dquote # ''JIBS'' @ dquote # '') '' @ em_dash @
       '' the peer is not a jibs protocol peer or predates protocol versioning''"
| "handshake_display (VersionMismatch peer) =
     ''protocol version mismatch: this side speaks v'' @ nat_string (unat PROTOCOL_VERSION) @
       '', the peer speaks v'' @ nat_string (unat peer) @ '' '' @ em_dash @
       '' rebuild the client and server from the same source (./scripts/build.sh)''"

text \<open>\<open>write_message\<close> flushes, \<open>write_message_noflush\<close> does not.\<close>

definition ou_send :: "server_message \<Rightarrow> out_stream \<Rightarrow> (failure + unit) \<times> out_stream" where
  "ou_send m = fbind (ou_write (Control m)) (\<lambda>_. ou_flush)"

text \<open>A message whose failure is ignored.\<close>

definition ou_try :: "server_message \<Rightarrow> out_stream \<Rightarrow> out_stream" where
  "ou_try m o' = snd (ou_send m o')"

definition perform_handshake :: "string + bytes \<Rightarrow> out_stream \<Rightarrow> (failure + unit) \<times> out_stream" where
  "perform_handshake preamble =
     fbind (ou_write (EncodedChunk encode_preamble)) (\<lambda>_.
     fbind ou_flush (\<lambda>_.
     fbind (flift (case preamble of
         Inl e \<Rightarrow> Inl (Failed (SeProtocol (''failed to read client protocol preamble: '' @ e)))
       | Inr buf \<Rightarrow> Inr buf)) (\<lambda>buf.
     case validate_preamble buf of
       Inr _ \<Rightarrow> flift (Inr ())
     | Inl e \<Rightarrow> (\<lambda>o'. (Inl (Failed (SeProtocol (handshake_display e))), ou_try (SmError (handshake_display e) False) o')))))"

section \<open>The first messages\<close>

type_synonym inbox = "(server_error + client_message) list"

definition read_next :: "inbox \<Rightarrow> server_error + client_message \<times> inbox" where
  "read_next inbox =
     (case inbox of [] \<Rightarrow> Inl (SeIo ''end of input'') | r # rs \<Rightarrow> rbind r (\<lambda>m. Inr (m, rs)))"

record init_request =
  iq_plan :: execution_plan
  iq_compression :: compression_mode
  iq_parallel :: u32
  iq_collect_metrics :: bool
  iq_dry_run :: bool

definition init_of :: "client_message \<Rightarrow> server_error + init_request" where
  "init_of m =
     (case m of
        Init plan compression workers collect_metrics dry_run \<Rightarrow>
          Inr \<lparr>iq_plan = plan, iq_compression = compression, iq_parallel = workers,
               iq_collect_metrics = collect_metrics, iq_dry_run = dry_run\<rparr>
      | _ \<Rightarrow> Inl (SeProtocol ''Expected Init message''))"

definition read_request :: "string \<Rightarrow> inbox \<Rightarrow> server_error + string \<times> init_request \<times> inbox" where
  "read_request default_url inbox =
     rbind (read_next inbox) (\<lambda>(first, rest).
     case first of
       Credentials url \<Rightarrow>
         rbind (read_next rest) (\<lambda>(m, rest'). rbind (init_of m) (\<lambda>q. Inr (url, q, rest')))
     | Init _ _ _ _ _ \<Rightarrow> rbind (init_of first) (\<lambda>q. Inr (default_url, q, rest))
     | _ \<Rightarrow> Inl (SeProtocol ''Expected Credentials or Init message''))"

section \<open>Relations\<close>

definition merge_relations :: "relation list \<Rightarrow> relation list \<Rightarrow> relation list" where
  "merge_relations explicit discovered = explicit @ filter (\<lambda>r. r \<notin> set explicit) discovered"

definition drop_ignored :: "relation list \<Rightarrow> relation list \<Rightarrow> relation list" where
  "drop_ignored ignored rels = (if ignored = [] then rels else filter (\<lambda>r. \<not> (\<exists>i \<in> set ignored. i = r)) rels)"

definition negotiate_compression :: "compression_mode \<Rightarrow> compression_mode" where
  "negotiate_compression pref = (case pref of CAuto \<Rightarrow> CZstd | _ \<Rightarrow> pref)"

section \<open>The session\<close>

record 'r server_env =
  sv_preamble :: "string + bytes"
  sv_default_url :: string
  sv_inbox :: inbox
  sv_connect :: "string \<Rightarrow> server_error + catalog"
  sv_regex :: regex_engine
  sv_drain :: "(string \<times> relation list) list \<Rightarrow> (string \<times> relation list) list"
  sv_data :: "string \<Rightarrow> nat \<Rightarrow> server_error + db"
  sv_bfs_data :: "string \<Rightarrow> server_error + db"
  sv_formats :: formats
  sv_pick :: "'r picker"
  sv_zstd :: "bytes \<Rightarrow> string + bytes"
  sv_seed :: "nat \<Rightarrow> 'r"
  sv_bfs_seed :: 'r
  sv_pending_order :: "pending \<Rightarrow> pending"
  sv_count_order :: "(string \<times> u64) list \<Rightarrow> (string \<times> u64) list"
  sv_panics :: "nat \<Rightarrow> bool"
  sv_snapshot :: "nat \<Rightarrow> server_metrics option"
  sv_metrics :: "server_metrics option"
  sv_schedule :: "reception list"
  sv_interrupted :: bool
  sv_fuel :: nat

definition env_stream :: "'r server_env \<Rightarrow> compression_mode \<Rightarrow> 'r stream_env" where
  "env_stream env compression =
     \<lparr>se_formats = sv_formats env, se_pick = sv_pick env, se_zstd = sv_zstd env, se_compression = compression\<rparr>"

text \<open>The main connection answers from the catalogue.\<close>

definition main_db :: "catalog \<Rightarrow> db" where
  "main_db ct =
     \<lparr>db_columns = columns_of ct, db_indexes = indexes_of ct, db_options = options_of ct,
      db_primary_key = (\<lambda>t. case primary_key_of ct t of Inr pk \<Rightarrow> Some pk | Inl _ \<Rightarrow> None),
      db_query = (\<lambda>q. Inr []), db_exec = (\<lambda>q ps. Inr [])\<rparr>"

definition schedule_of ::
  "'r server_env \<Rightarrow> catalog \<Rightarrow> string \<Rightarrow> init_request \<Rightarrow> execution_plan \<Rightarrow> (string \<rightharpoonup> u16) \<Rightarrow> 'r schedule_env" where
  "schedule_of env ct url q plan ids =
     \<lparr>sd_stream = env_stream env (negotiate_compression (iq_compression q)), sd_regex = sv_regex env,
      sd_main = main_db ct, sd_names = ct_tables ct, sd_plan = plan, sd_ids = ids, sd_parallel = iq_parallel q,
      sd_connect = sv_data env url, sd_seed = sv_seed env, sd_snapshot = sv_snapshot env\<rparr>"

text \<open>The traversal thread: its result, and what it sends.\<close>

definition bfs_thread ::
  "'r server_env \<Rightarrow> string \<Rightarrow> init_request \<Rightarrow> execution_plan \<Rightarrow> (string \<rightharpoonup> u16) \<Rightarrow> string list \<Rightarrow> string set \<Rightarrow>
     string set joined \<times> channel_message list" where
  "bfs_thread env url q plan ids names potential =
     (case sv_bfs_data env url of
        Inl e \<Rightarrow> (Returned (Inl e), [])
      | Inr db \<Rightarrow>
          (case run_aggregate_bfs (sv_fuel env) (sv_regex env)
              \<lparr>bc_env = env_stream env (negotiate_compression (iq_compression q)), bc_db = db, bc_plan = plan, bc_ids = ids,
               bc_drain = sv_pending_order env, bc_order = sv_count_order env\<rparr>
              names potential (bfs_start open_channel (sv_bfs_seed env)) of
             (Inl e, s) \<Rightarrow> (Returned (Inl e), ch_sent (bs_channel s))
           | (Inr (Some touched), s) \<Rightarrow> (Returned (Inr touched), ch_sent (bs_channel s))
           | (Inr None, s) \<Rightarrow> (ThreadPanicked, ch_sent (bs_channel s))))"

definition stream_phase ::
  "'r server_env \<Rightarrow> catalog \<Rightarrow> string \<Rightarrow> init_request \<Rightarrow> execution_plan \<Rightarrow> (string \<rightharpoonup> u16) \<Rightarrow>
     out_stream \<Rightarrow> (failure + unit) \<times> out_stream" where
  "stream_phase env ct url q plan ids o1 =
     (let fks = (case capture_foreign_keys ct of Inr defs \<Rightarrow> defs | Inl _ \<Rightarrow> []) in
      (case stream_all_tables (schedule_of env ct url q plan ids)
          (\<lambda>names potential. fst (bfs_thread env url q plan ids names potential)) (sv_panics env) (sv_schedule env) o1 of
         (Inr dispositions, o2) \<Rightarrow> ou_send (SmDone dispositions (sv_metrics env) fks) o2
       | (Inl Panicked, o2) \<Rightarrow> (Inl Panicked, o2)
       | (Inl (Failed e), o2) \<Rightarrow>
           if sv_interrupted env then (Inr (), ou_try (SmDone [] (sv_metrics env) []) o2)
           else fbind (ou_send (SmError (se_display e) (se_is_recoverable e))) (\<lambda>_. flift (Inl (Failed e))) o2))"

definition server_session ::
  "'r server_env \<Rightarrow> out_stream \<Rightarrow> (failure + unit) \<times> out_stream" where
  "server_session env =
     fbind (perform_handshake (sv_preamble env)) (\<lambda>_.
     fbind (flift (lift_err (read_request (sv_default_url env) (sv_inbox env)))) (\<lambda>(url, q, inbox).
     fbind (flift (lift_err (sv_connect env url))) (\<lambda>ct.
     fbind (flift (lift_err (fst (discover_tables (sv_regex env) ct (iq_plan q) fresh_connection)))) (\<lambda>(infos, plan).
     fbind (flift (lift_err (discover_foreign_keys (sv_drain env) ct))) (\<lambda>found.
     let ids = map_of (rev (map (\<lambda>i. (ti_name i, ti_table_id i)) infos));
         plan' = plan\<lparr>relations := drop_ignored (ignored_relations plan) (merge_relations (relations plan) found)\<rparr>
     in
     fbind (ou_send (Ready infos (negotiate_compression (iq_compression q)))) (\<lambda>_.
     if iq_dry_run q then
       fbind (flift (compute_dry_run_report (sv_regex env) (count_rows ct) (ct_tables ct) plan' ids)) (\<lambda>(ds, counts).
       ou_send (DryRunReport ds counts))
     else
       fbind (flift (lift_err (read_next inbox))) (\<lambda>(m, _).
       case m of
         Start \<Rightarrow> stream_phase env ct url q plan' ids
       | Shutdown \<Rightarrow> flift (Inr ())
       | _ \<Rightarrow> flift (Inl (Failed (SeProtocol ''Expected Start or Shutdown''))))))))))"


section \<open>Output only grows\<close>

definition extends :: "out_stream \<Rightarrow> out_stream \<Rightarrow> bool" where
  "extends o1 o2 \<longleftrightarrow>
     ou_limit o2 = ou_limit o1 \<and> ou_flushes o2 = ou_flushes o1 \<and> prefix (ou_written o1) (ou_written o2)"

definition outputs :: "(out_stream \<Rightarrow> (failure + 'a) \<times> out_stream) \<Rightarrow> bool" where
  "outputs m \<longleftrightarrow> (\<forall>o1. extends o1 (snd (m o1)))"

named_theorems output_rules \<open>steps that only extend the output\<close>

lemma extends_refl [simp]: "extends o1 o1"
  by (simp add: extends_def)

lemma extends_trans: "extends o1 o2 \<Longrightarrow> extends o2 o3 \<Longrightarrow> extends o1 o3"
  unfolding extends_def using prefix_order.trans by metis

lemma outputs_fbind [output_rules]: "outputs m \<Longrightarrow> (\<And>x. outputs (f x)) \<Longrightarrow> outputs (fbind m f)"
  unfolding outputs_def
proof
  fix o1 assume m: "\<forall>o1. extends o1 (snd (m o1))" and f: "\<And>x. \<forall>o1. extends o1 (snd (f x o1))"
  obtain r o2 where r: "m o1 = (r, o2)" by (cases "m o1")
  then have "extends o1 o2" using spec [OF m, of o1] by simp
  then show "extends o1 (snd (fbind m f o1))"
    using r f extends_trans by (cases r) (auto simp: fbind_def)
qed

lemma outputs_flift [output_rules]: "outputs (flift r)"
  by (simp add: outputs_def flift_def)

lemma outputs_write [output_rules]: "outputs (ou_write m)"
  by (simp add: outputs_def ou_write_def extends_def)

lemma outputs_flush [output_rules]: "outputs ou_flush"
  by (simp add: outputs_def ou_flush_def)

lemma outputs_classify [output_rules]: "outputs (classify db plan ids potential names)"
proof (induction names)
  case (Cons t names)
  have w: "outputs (write_excluded db i t)" for i
    unfolding write_excluded_def by (intro output_rules)
  show ?case
    unfolding classify.simps
    by (auto simp: case_prod_beta intro!: output_rules w Cons.IH)
qed (simp add: outputs_flift)

lemma outputs_writer [output_rules]: "outputs (writer_loop snap rs streamed)"
proof (induction snap rs streamed rule: writer_loop.induct)
  case (4 snap m rs streamed)
  have "outputs (fbind (ou_write (with_metrics sn m)) (\<lambda>_. writer_loop snap rs (streamed \<union> streamed_by m)))" for sn
    by (intro output_rules "4.IH")
  then show ?case by (simp add: outputs_def)
qed (simp_all add: output_rules)

lemma outputs_stream_all [output_rules]: "outputs (stream_all_tables env bfs panics schedule)"
  unfolding stream_all_tables_def Let_def case_prod_beta
  by (intro output_rules) (auto simp: case_prod_beta intro!: output_rules split: sum.split option.split)

lemma outputs_send [output_rules]: "outputs (ou_send m)"
  unfolding ou_send_def by (intro output_rules)

text \<open>An output that never fails.\<close>

definition sound_output :: "out_stream \<Rightarrow> bool" where
  "sound_output o1 \<longleftrightarrow> ou_limit o1 = None \<and> ou_flushes o1"

definition add_out :: "channel_message \<Rightarrow> out_stream \<Rightarrow> out_stream" where
  "add_out m o1 = o1\<lparr>ou_written := ou_written o1 @ [m]\<rparr>"

lemma sound_simps [simp]:
  "sound_output o1 \<Longrightarrow> ou_write m o1 = (Inr (), add_out m o1)"
  "sound_output o1 \<Longrightarrow> ou_flush o1 = (Inr (), o1)"
  "sound_output (add_out m o1) = sound_output o1"
  "ou_written (add_out m o1) = ou_written o1 @ [m]"
  "sound_output o1 \<Longrightarrow> ou_send sm o1 = (Inr (), add_out (Control sm) o1)"
  "sound_output o1 \<Longrightarrow> ou_try sm o1 = add_out (Control sm) o1"
  by (simp_all add: sound_output_def ou_write_def ou_flush_def add_out_def ou_send_def fbind_def ou_try_def)

lemma extends_sound: "extends o1 o2 \<Longrightarrow> sound_output o1 \<Longrightarrow> sound_output o2"
  by (simp add: extends_def sound_output_def)

section \<open>The course of a session\<close>

definition greeting :: channel_message where "greeting = EncodedChunk encode_preamble"

text \<open>
  The session got as far as the \<open>Ready\<close> message: what the client asked for, the tables found and the
  plan that is carried out.
\<close>

definition session_ready ::
  "'r server_env \<Rightarrow> string \<Rightarrow> init_request \<Rightarrow> inbox \<Rightarrow> catalog \<Rightarrow> table_info list \<Rightarrow> execution_plan \<Rightarrow> bool" where
  "session_ready env url q inbox ct infos plan \<longleftrightarrow>
     (\<exists>buf. sv_preamble env = Inr buf \<and> validate_preamble buf = Inr ()) \<and>
     read_request (sv_default_url env) (sv_inbox env) = Inr (url, q, inbox) \<and> sv_connect env url = Inr ct \<and>
     (\<exists>plan0 found. fst (discover_tables (sv_regex env) ct (iq_plan q) fresh_connection) = Inr (infos, plan0) \<and>
        discover_foreign_keys (sv_drain env) ct = Inr found \<and>
        plan = plan0\<lparr>relations := drop_ignored (ignored_relations plan0) (merge_relations (relations plan0) found)\<rparr>)"

definition ids_of :: "table_info list \<Rightarrow> string \<rightharpoonup> u16" where
  "ids_of infos = map_of (rev (map (\<lambda>i. (ti_name i, ti_table_id i)) infos))"

text \<open>The messages after \<open>Ready\<close>, and the result, of a run that was started.\<close>

definition started_ok ::
  "'r server_env \<Rightarrow> catalog \<Rightarrow> failure + unit \<Rightarrow> channel_message list \<Rightarrow> bool" where
  "started_ok env ct r tail \<longleftrightarrow>
     r = Inl Panicked \<or>
     (\<exists>ms ds. r = Inr () \<and> tail = ms @ [Control (SmDone ds (sv_metrics env)
         (case capture_foreign_keys ct of Inr defs \<Rightarrow> defs | Inl _ \<Rightarrow> []))]) \<or>
     (\<exists>ms. r = Inr () \<and> sv_interrupted env \<and> tail = ms @ [Control (SmDone [] (sv_metrics env) [])]) \<or>
     (\<exists>ms e. r = Inl (Failed e) \<and> \<not> sv_interrupted env \<and>
        tail = ms @ [Control (SmError (se_display e) (se_is_recoverable e))])"

definition course ::
  "'r server_env \<Rightarrow> failure + unit \<Rightarrow> channel_message list \<Rightarrow> bool" where
  "course env r ms \<longleftrightarrow>
     ms = [greeting] \<and> (\<exists>e. r = Inl (Failed e)) \<or>
     (\<exists>buf e. sv_preamble env = Inr buf \<and> validate_preamble buf = Inl e \<and>
        ms = [greeting, Control (SmError (handshake_display e) False)] \<and> r = Inl (Failed (SeProtocol (handshake_display e)))) \<or>
     (\<exists>url q inbox ct infos plan tail. session_ready env url q inbox ct infos plan \<and>
        ms = greeting # Control (Ready infos (negotiate_compression (iq_compression q))) # tail \<and>
        (if iq_dry_run q then
           (case compute_dry_run_report (sv_regex env) (count_rows ct) (ct_tables ct) plan (ids_of infos) of
              Inr (ds, counts) \<Rightarrow> r = Inr () \<and> tail = [Control (DryRunReport ds counts)]
            | Inl e \<Rightarrow> r = Inl e \<and> tail = [])
         else
           (case read_next inbox of
              Inl e \<Rightarrow> r = Inl (Failed e) \<and> tail = []
            | Inr (m, rest) \<Rightarrow>
                if m = Start then started_ok env ct r tail
                else tail = [] \<and> (if m = Shutdown then r = Inr () else \<exists>e. r = Inl (Failed e)))))"



lemma fbind_eq: "fbind m f o1 = (case m o1 of (Inl e, o2) \<Rightarrow> (Inl e, o2) | (Inr x, o2) \<Rightarrow> f x o2)"
  by (simp add: fbind_def)

lemma fbind_flift [simp]: "fbind (flift r) f o1 = (case r of Inl e \<Rightarrow> (Inl e, o1) | Inr x \<Rightarrow> f x o1)"
  by (simp add: fbind_def flift_def split: sum.split)

lemma fbind_sound [simp]:
  "sound_output o1 \<Longrightarrow> fbind (ou_write m) f o1 = f () (add_out m o1)"
  "sound_output o1 \<Longrightarrow> fbind ou_flush f o1 = f () o1"
  "sound_output o1 \<Longrightarrow> fbind (ou_send sm) f o1 = f () (add_out (Control sm) o1)"
  by (simp_all add: fbind_def)

lemma handshake_sound:
  assumes "sound_output o1"
  shows "perform_handshake pre o1 =
     (case pre of
        Inl e \<Rightarrow> (Inl (Failed (SeProtocol (''failed to read client protocol preamble: '' @ e))), add_out greeting o1)
      | Inr buf \<Rightarrow>
          (case validate_preamble buf of
             Inr _ \<Rightarrow> (Inr (), add_out greeting o1)
           | Inl e \<Rightarrow> (Inl (Failed (SeProtocol (handshake_display e))),
               add_out (Control (SmError (handshake_display e) False)) (add_out greeting o1))))"
  using assms by (simp add: perform_handshake_def greeting_def flift_def split: sum.split)

lemma stream_phase_started:
  assumes "sound_output o1" "stream_phase env ct url q plan ids o1 = (r, o2)"
  shows "\<exists>tail. ou_written o2 = ou_written o1 @ tail \<and> started_ok env ct r tail"
proof -
  let ?fks = "case capture_foreign_keys ct of Inr defs \<Rightarrow> defs | Inl _ \<Rightarrow> []"
  obtain x o' where run: "stream_all_tables (schedule_of env ct url q plan ids)
      (\<lambda>names potential. fst (bfs_thread env url q plan ids names potential)) (sv_panics env) (sv_schedule env) o1 = (x, o')"
    by (meson surj_pair)
  have "extends o1 o'" using outputs_stream_all [unfolded outputs_def, rule_format, of o1] run by (metis snd_conv)
  then obtain ms where ms: "ou_written o' = ou_written o1 @ ms" and s: "sound_output o'"
    using assms(1) extends_sound unfolding extends_def prefix_def by blast
  show ?thesis
  proof (cases x)
    case (Inr ds)
    then have "r = Inr ()" "ou_written o2 = ou_written o1 @ ms @ [Control (SmDone ds (sv_metrics env) ?fks)]"
      using assms(2) run s ms by (auto simp: stream_phase_def)
    then show ?thesis unfolding started_ok_def by blast
  next
    case (Inl f)
    show ?thesis
    proof (cases f)
      case Panicked
      then have "r = Inl Panicked" "ou_written o2 = ou_written o1 @ ms"
        using assms(2) run ms Inl by (auto simp: stream_phase_def)
      then show ?thesis unfolding started_ok_def by blast
    next
      case (Failed e)
      show ?thesis
      proof (cases "sv_interrupted env")
        case True
        then have "r = Inr ()" "ou_written o2 = ou_written o1 @ ms @ [Control (SmDone [] (sv_metrics env) [])]"
          using assms(2) run ms s Inl Failed by (auto simp: stream_phase_def)
        then show ?thesis using True unfolding started_ok_def by blast
      next
        case False
        then have "r = Inl (Failed e)"
          "ou_written o2 = ou_written o1 @ ms @ [Control (SmError (se_display e) (se_is_recoverable e))]"
          using assms(2) run ms s Inl Failed by (auto simp: stream_phase_def flift_def)
        then show ?thesis using False unfolding started_ok_def by blast
      qed
    qed
  qed
qed

lemma session_takes_course:
  assumes "server_session env o1 = (r, o2)" "sound_output o1" "ou_written o1 = []"
  shows "course env r (ou_written o2)"
proof (cases "\<exists>buf. sv_preamble env = Inr buf \<and> validate_preamble buf = Inr ()")
  case False
  then show ?thesis
    using assms by (cases "sv_preamble env"; cases "validate_preamble (projr (sv_preamble env))")
      (auto simp: server_session_def fbind_eq [of "perform_handshake pre" for pre] handshake_sound course_def)
next
  case pre: True
  let ?o = "add_out greeting o1"
  have s: "sound_output ?o" "ou_written ?o = [greeting]" using assms(2,3) by simp_all
  have hs: "perform_handshake (sv_preamble env) o1 = (Inr (), ?o)"
    using pre assms(2) by (auto simp: handshake_sound)
  show ?thesis
  proof (cases "\<exists>url q inbox ct infos plan. session_ready env url q inbox ct infos plan")
    case False
    have "o2 = ?o \<and> (\<exists>e. r = Inl (Failed e))"
      using assms(1) False pre s(1)
      by (auto simp: server_session_def fbind_eq [of "perform_handshake pre" for pre] hs session_ready_def lift_err_def Let_def
          split: sum.splits prod.splits)
    then show ?thesis using s(2) by (simp add: course_def)
  next
    case True
    then obtain url q inbox ct infos plan where rdy: "session_ready env url q inbox ct infos plan" by blast
    then obtain plan0 found where d: "read_request (sv_default_url env) (sv_inbox env) = Inr (url, q, inbox)"
      "sv_connect env url = Inr ct" "fst (discover_tables (sv_regex env) ct (iq_plan q) fresh_connection) = Inr (infos, plan0)"
      "discover_foreign_keys (sv_drain env) ct = Inr found"
      "plan = plan0\<lparr>relations := drop_ignored (ignored_relations plan0) (merge_relations (relations plan0) found)\<rparr>"
      unfolding session_ready_def by blast
    let ?ready = "Control (Ready infos (negotiate_compression (iq_compression q)))"
    let ?o1 = "add_out ?ready ?o"
    have s1: "sound_output ?o1" "ou_written ?o1 = [greeting, ?ready]" using s by simp_all
    have eq: "server_session env o1 =
        (if iq_dry_run q then
           fbind (flift (compute_dry_run_report (sv_regex env) (count_rows ct) (ct_tables ct) plan (ids_of infos)))
             (\<lambda>(ds, counts). ou_send (DryRunReport ds counts))
         else
           fbind (flift (lift_err (read_next inbox))) (\<lambda>(m, _).
             case m of Start \<Rightarrow> stream_phase env ct url q plan (ids_of infos)
             | Shutdown \<Rightarrow> flift (Inr ())
             | _ \<Rightarrow> flift (Inl (Failed (SeProtocol ''Expected Start or Shutdown''))))) ?o1"
      using s(1) by (simp add: server_session_def fbind_eq [of "perform_handshake pre" for pre] hs d lift_err_def Let_def ids_of_def
          cong: sum.case_cong prod.case_cong client_message.case_cong)
    have "\<exists>tail. ou_written o2 = [greeting, ?ready] @ tail \<and>
        (if iq_dry_run q then
           (case compute_dry_run_report (sv_regex env) (count_rows ct) (ct_tables ct) plan (ids_of infos) of
              Inr (ds, counts) \<Rightarrow> r = Inr () \<and> tail = [Control (DryRunReport ds counts)]
            | Inl e \<Rightarrow> r = Inl e \<and> tail = [])
         else
           (case read_next inbox of
              Inl e \<Rightarrow> r = Inl (Failed e) \<and> tail = []
            | Inr (m, rest) \<Rightarrow>
                if m = Start then started_ok env ct r tail
                else tail = [] \<and> (if m = Shutdown then r = Inr () else \<exists>e. r = Inl (Failed e))))"
    proof (cases "iq_dry_run q")
      case True
      then show ?thesis using assms(1) s1 unfolding eq by (auto split: sum.splits)
    next
      case run: False
      show ?thesis
      proof (cases "read_next inbox")
        case (Inl e)
        then show ?thesis using assms(1) s1 run unfolding eq by (simp add: lift_err_def)
      next
        case (Inr mr)
        obtain m rest where mr: "mr = (m, rest)" by (cases mr)
        show ?thesis
        proof (cases "m = Start")
          case True
          then have "stream_phase env ct url q plan (ids_of infos) ?o1 = (r, o2)"
            using assms(1) run Inr mr unfolding eq by (simp add: lift_err_def)
          from stream_phase_started [OF s1(1) this] show ?thesis using run Inr mr True s1(2) by auto
        next
          case False
          then show ?thesis using assms(1) run Inr mr s1(2) unfolding eq
            by (cases m) (auto simp: lift_err_def flift_def)
        qed
      qed
    qed
    then show ?thesis using rdy unfolding course_def by force
  qed
qed



text \<open>A dry run over two tables, and a client that does not ask for anything.\<close>

definition sample_session :: "inbox \<Rightarrow> nat server_env" where
  "sample_session inbox =
     \<lparr>sv_preamble = Inr encode_preamble, sv_default_url = ''url'', sv_inbox = inbox, sv_connect = (\<lambda>_. Inr two_tables),
      sv_regex = prefix_engine, sv_drain = (\<lambda>g. g), sv_data = (\<lambda>_ _. Inr sample_db), sv_bfs_data = (\<lambda>_. Inr sample_db),
      sv_formats = decimal_formats, sv_pick = round_robin, sv_zstd = toy_zstd, sv_seed = (\<lambda>_. 0), sv_bfs_seed = 0,
      sv_pending_order = (\<lambda>p. p), sv_count_order = (\<lambda>p. p), sv_panics = (\<lambda>_. False), sv_snapshot = (\<lambda>_. None),
      sv_metrics = None, sv_schedule = [], sv_interrupted = False, sv_fuel = 1\<rparr>"

definition tmp_plan :: execution_plan where "tmp_plan = empty_plan\<lparr>ignored_patterns := [''tmp_'']\<rparr>"
definition tmp_found :: execution_plan where "tmp_found = tmp_plan\<lparr>ignored_tables := {''tmp_b''}\<rparr>"

lemma sample_discovered:
  "\<exists>infos. fst (discover_tables prefix_engine two_tables tmp_plan fresh_connection) = Inr (infos, tmp_found) \<and>
     ids_of infos = [''a'' \<mapsto> 0, ''c'' \<mapsto> 1]"
  by (simp add: discover_tables_def two_tables_def prefix_engine_def compile_patterns_def compile_plan_pattern_def
      empty_plan_def expand_table_def sbind_def slift_def sret_def get_estimated_row_count_def get_primary_key_def
      get_column_defs_def cached_def fresh_connection_def store_schema_def store_primary_key_def key_columns_def ids_of_def
      tmp_plan_def tmp_found_def)

lemma tmp_found_relations: "ignored_relations tmp_found = []" "relations tmp_found = []" "tmp_found\<lparr>relations := []\<rparr> = tmp_found"
  by (simp_all add: tmp_found_def tmp_plan_def empty_plan_def)

lemma sample_dry_run:
  assumes "read_request (sv_default_url (sample_session inbox)) inbox = Inr (url, q, rest)"
    and "iq_plan q = tmp_plan" "iq_compression q = CAuto" "iq_dry_run q"
  shows "\<exists>o2. server_session (sample_session inbox) sample_out = (Inr (), o2) \<and> length (ou_written o2) = 3"
proof -
  have out: "sound_output sample_out" "ou_written sample_out = []" by (simp_all add: sound_output_def sample_out_def)
  obtain infos where d: "fst (discover_tables prefix_engine two_tables tmp_plan fresh_connection) = Inr (infos, tmp_found)"
    "ids_of infos = [''a'' \<mapsto> 0, ''c'' \<mapsto> 1]"
    using sample_discovered by blast
  have fk: "discover_foreign_keys (\<lambda>g. g) two_tables = Inr []"
    by (simp add: discover_foreign_keys_def two_tables_def group_usage_def)
  have pre: "validate_preamble encode_preamble = Inr ()" by code_simp
  have rep: "\<exists>ds. compute_dry_run_report prefix_engine (count_rows two_tables) (ct_tables two_tables)
      tmp_found [''a'' \<mapsto> 0, ''c'' \<mapsto> 1] = Inr ds"
    by (simp add: compute_dry_run_report_def two_tables_def lift_err_def tmp_found_def tmp_plan_def empty_plan_def
        compute_potential_aggregate_tables_def dry_selected_def table_id_of_def)
  show ?thesis
    using rep out assms
    by (auto simp: server_session_def fbind_eq [of "perform_handshake pre" for pre] handshake_sound sample_session_def pre
        d(1) d(2) [unfolded ids_of_def] fk lift_err_def Let_def merge_relations_def
        drop_ignored_def tmp_found_relations negotiate_compression_def)
qed


end
