(* ===== verification/F64Ops.thy ===== *)
theory F64Ops
  imports F64
begin

text \<open>
  Arithmetic and comparison of doubles, and the conversions from integers and from any text
  (\<open>str::parse::<f64>\<close>), as the resolver uses them: every operation is the exact one, rounded
  once to nearest with ties to even.
\<close>

section \<open>From integers and text\<close>

definition with_sign :: "bool \<Rightarrow> f64 \<Rightarrow> f64" where
  "with_sign s x = (if s then f64_neg x else x)"

text \<open>The value \<open>num / den\<close>; \<open>z\<close> is the sign of a zero.\<close>

definition f64_of_ratio :: "bool \<Rightarrow> int \<Rightarrow> nat \<Rightarrow> f64" where
  "f64_of_ratio z num den =
     (if num = 0 then Finite z 0 (-1074) else with_sign (num < 0) (f64_round (nat \<bar>num\<bar>) den))"

definition f64_of_i64 :: "i64 \<Rightarrow> f64" where "f64_of_i64 i = f64_of_ratio False (sint i) 1"

definition ascii_lower :: "string \<Rightarrow> string" where
  "ascii_lower = map (\<lambda>c. if 65 \<le> (of_char c :: nat) \<and> (of_char c :: nat) \<le> 90 then char_of (of_char c + 32 :: nat) else c)"

definition split_sign :: "string \<Rightarrow> bool \<times> string" where
  "split_sign s =
     (case s of
        [] \<Rightarrow> (False, [])
      | c # r \<Rightarrow> if c = CHR ''-'' then (True, r) else if c = CHR ''+'' then (False, r) else (False, s))"

definition parse_exponent :: "string \<Rightarrow> int option" where
  "parse_exponent s =
     (case s of
        [] \<Rightarrow> Some 0
      | c # r \<Rightarrow>
          if c = CHR ''e'' \<or> c = CHR ''E'' then
            (case split_sign r of (neg, ds) \<Rightarrow>
               map_option (\<lambda>n. if neg then - int n else int n) (parse_nat ds))
          else None)"

text \<open>\<open>digits [. digits] [e exponent]\<close>, with digits on at least one side of the point.\<close>

definition parse_f64_number :: "string \<Rightarrow> f64 option" where
  "parse_f64_number s =
     (let ip = takeWhile is_digit s; r = dropWhile is_digit s;
          (fp, r') = (case r of
              [] \<Rightarrow> ([], [])
            | c # q \<Rightarrow> if c = CHR ''.'' then (takeWhile is_digit q, dropWhile is_digit q) else ([], r))
      in if ip = [] \<and> fp = [] then None
         else Option.bind (parse_nat (ip @ fp)) (\<lambda>n.
              map_option (\<lambda>k. let p = k - int (length fp) in f64_round (n * 10 ^ nat p) (10 ^ nat (- p)))
                (parse_exponent r')))"

definition parse_f64 :: "string \<Rightarrow> f64 option" where
  "parse_f64 s =
     (case split_sign s of (neg, r) \<Rightarrow>
        (let w = ascii_lower r in
         if w = ''inf'' \<or> w = ''infinity'' then Some (Infinite neg)
         else if w = ''nan'' then Some NotANumber
         else map_option (with_sign neg) (parse_f64_number r)))"

section \<open>Arithmetic\<close>

definition scaled :: "bool \<Rightarrow> nat \<Rightarrow> int \<Rightarrow> int \<Rightarrow> int" where
  "scaled s m e e0 = (if s then - 1 else 1) * int m * 2 ^ nat (e - e0)"

fun f64_add :: "f64 \<Rightarrow> f64 \<Rightarrow> f64" where
  "f64_add (Finite s m e) (Finite t n f) =
     (let e0 = min e f; v = scaled s m e e0 + scaled t n f e0
      in f64_of_ratio (s \<and> t) (v * 2 ^ nat e0) (2 ^ nat (- e0)))"
| "f64_add (Infinite s) (Infinite t) = (if s = t then Infinite s else NotANumber)"
| "f64_add (Infinite s) (Finite t n f) = Infinite s"
| "f64_add (Finite s m e) (Infinite t) = Infinite t"
| "f64_add _ _ = NotANumber"

definition f64_sub :: "f64 \<Rightarrow> f64 \<Rightarrow> f64" where "f64_sub x y = f64_add x (f64_neg y)"

fun f64_mul :: "f64 \<Rightarrow> f64 \<Rightarrow> f64" where
  "f64_mul (Finite s m e) (Finite t n f) =
     with_sign (s \<noteq> t) (f64_round (m * n * 2 ^ nat (e + f)) (2 ^ nat (- (e + f))))"
| "f64_mul (Infinite s) (Infinite t) = Infinite (s \<noteq> t)"
| "f64_mul (Infinite s) (Finite t n f) = (if n = 0 then NotANumber else Infinite (s \<noteq> t))"
| "f64_mul (Finite s m e) (Infinite t) = (if m = 0 then NotANumber else Infinite (s \<noteq> t))"
| "f64_mul _ _ = NotANumber"

fun f64_div :: "f64 \<Rightarrow> f64 \<Rightarrow> f64" where
  "f64_div (Finite s m e) (Finite t n f) =
     (if n = 0 then (if m = 0 then NotANumber else Infinite (s \<noteq> t))
      else with_sign (s \<noteq> t) (f64_round (m * 2 ^ nat (e - f)) (n * 2 ^ nat (f - e))))"
| "f64_div (Infinite s) (Infinite t) = NotANumber"
| "f64_div (Infinite s) (Finite t n f) = Infinite (s \<noteq> t)"
| "f64_div (Finite s m e) (Infinite t) = Finite (s \<noteq> t) 0 (-1074)"
| "f64_div _ _ = NotANumber"

text \<open>The remainder of truncating division; it has the sign of the dividend.\<close>

fun f64_rem :: "f64 \<Rightarrow> f64 \<Rightarrow> f64" where
  "f64_rem (Finite s m e) (Finite t n f) =
     (if n = 0 then NotANumber
      else
        (let e0 = min e f; r = (m * 2 ^ nat (e - e0)) mod (n * 2 ^ nat (f - e0))
         in with_sign s (f64_round (r * 2 ^ nat e0) (2 ^ nat (- e0)))))"
| "f64_rem (Finite s m e) (Infinite t) = Finite s m e"
| "f64_rem _ _ = NotANumber"

section \<open>Comparison\<close>

fun f64_less :: "f64 \<Rightarrow> f64 \<Rightarrow> bool" where
  "f64_less (Finite s m e) (Finite t n f) =
     (let e0 = min e f in scaled s m e e0 < scaled t n f e0)"
| "f64_less (Infinite s) (Infinite t) = (s \<and> \<not> t)"
| "f64_less (Infinite s) (Finite t n f) = s"
| "f64_less (Finite s m e) (Infinite t) = (\<not> t)"
| "f64_less _ _ = False"

fun f64_eq :: "f64 \<Rightarrow> f64 \<Rightarrow> bool" where
  "f64_eq (Finite s m e) (Finite t n f) =
     (let e0 = min e f in scaled s m e e0 = scaled t n f e0)"
| "f64_eq (Infinite s) (Infinite t) = (s = t)"
| "f64_eq _ _ = False"

definition f64_le :: "f64 \<Rightarrow> f64 \<Rightarrow> bool" where
  "f64_le x y = (f64_less x y \<or> f64_eq x y)"

lemma f64_eq_sym: "f64_eq x y = f64_eq y x"
  by (cases x; cases y) (auto simp: min.commute Let_def)

lemma f64_less_asym: "f64_less x y \<Longrightarrow> \<not> f64_less y x"
  by (cases x; cases y) (auto simp: min.commute Let_def)

lemma f64_eq_refl: "f64_eq x x \<longleftrightarrow> x \<noteq> NotANumber"
  by (cases x) (auto simp: Let_def)

lemma f64_trichotomy:
  "x \<noteq> NotANumber \<Longrightarrow> y \<noteq> NotANumber \<Longrightarrow> f64_less x y \<or> f64_eq x y \<or> f64_less y x"
  by (cases x; cases y) (auto simp: min.commute Let_def)

end
