(* ===== verification/Eval.thy ===== *)
theory Eval
  imports StmtParser Plan F64Ops
begin

text \<open>
  Values of the configuration language and their evaluation
  (\<open>crates/client/src/error.rs\<close>, the expression part of \<open>crates/client/src/resolver.rs\<close>).

  Evaluation returns a value, a client error, or a panic: integer division and remainder by zero
  and of the smallest integer by minus one abort the program.  The other integer operations wrap,
  as they do in the release build.  \<open>RFuel\<close> is the result of an import chain that is deeper than
  the fuel (see \<open>Resolver\<close>).
\<close>

section \<open>Errors\<close>

datatype client_error =
    CeIo string string
  | CeParse string
  | CeResolution string
  | CeSsh string string
  | CeMySqlWithContext string string
  | CeMySql string
  | CeProtocol string
  | CeUndefinedVariable string
  | CeTypeError string
  | CeServer string
  | CeWorkerInit string

fun ce_display :: "client_error \<Rightarrow> string" where
  "ce_display (CeIo opn m) = ''IO error during '' @ opn @ '': '' @ m"
| "ce_display (CeParse m) = ''Parse error: '' @ m"
| "ce_display (CeResolution m) = ''Resolution error: '' @ m"
| "ce_display (CeSsh opn m) = ''SSH error during '' @ opn @ '': '' @ m"
| "ce_display (CeMySqlWithContext opn m) = ''MySQL error during '' @ opn @ '': '' @ m"
| "ce_display (CeMySql m) = ''MySQL error: '' @ m"
| "ce_display (CeProtocol m) = ''Protocol error: '' @ m"
| "ce_display (CeUndefinedVariable m) = ''Variable not defined: '' @ m"
| "ce_display (CeTypeError m) = ''Type error: '' @ m"
| "ce_display (CeServer m) = ''Server error: '' @ m"
| "ce_display (CeWorkerInit m) = ''Worker initialization failed: '' @ m"

datatype rfail = RErr client_error | RPanic | RFuel

abbreviation type_error :: "string \<Rightarrow> rfail + 'a" where "type_error m \<equiv> Inl (RErr (CeTypeError m))"

section \<open>Integer division\<close>

definition trunc_div :: "int \<Rightarrow> int \<Rightarrow> int" where
  "trunc_div a b = sgn a * sgn b * (\<bar>a\<bar> div \<bar>b\<bar>)"

definition i64_div_panics :: "i64 \<Rightarrow> i64 \<Rightarrow> bool" where
  "i64_div_panics a b \<longleftrightarrow> b = 0 \<or> sint a = - (2 ^ 63) \<and> sint b = - 1"

definition i64_div :: "i64 \<Rightarrow> i64 \<Rightarrow> rfail + i64" where
  "i64_div a b =
     (if i64_div_panics a b then Inl RPanic else Inr (word_of_int (trunc_div (sint a) (sint b))))"

definition i64_rem :: "i64 \<Rightarrow> i64 \<Rightarrow> rfail + i64" where
  "i64_rem a b =
     (if i64_div_panics a b then Inl RPanic
      else Inr (word_of_int (sint a - trunc_div (sint a) (sint b) * sint b)))"

section \<open>Operators\<close>

text \<open>\<open>==\<close> on values, derived field by field.\<close>

definition value_eq :: "plan_value \<Rightarrow> plan_value \<Rightarrow> bool" where
  "value_eq left right =
     (case left of
        PvString a \<Rightarrow> (case right of PvString b \<Rightarrow> a = b | _ \<Rightarrow> False)
      | PvStringArray a \<Rightarrow> (case right of PvStringArray b \<Rightarrow> a = b | _ \<Rightarrow> False)
      | PvInt a \<Rightarrow> (case right of PvInt b \<Rightarrow> a = b | _ \<Rightarrow> False)
      | PvIntArray a \<Rightarrow> (case right of PvIntArray b \<Rightarrow> a = b | _ \<Rightarrow> False)
      | PvFloat a \<Rightarrow> (case right of PvFloat b \<Rightarrow> f64_eq a b | _ \<Rightarrow> False)
      | PvFloatArray a \<Rightarrow> (case right of PvFloatArray b \<Rightarrow> list_all2 f64_eq a b | _ \<Rightarrow> False)
      | PvBool a \<Rightarrow> (case right of PvBool b \<Rightarrow> a = b | _ \<Rightarrow> False)
      | PvBoolArray a \<Rightarrow> (case right of PvBoolArray b \<Rightarrow> a = b | _ \<Rightarrow> False)
      | PvNull \<Rightarrow> right = PvNull)"

fun value_to_bool :: "plan_value \<Rightarrow> rfail + bool" where
  "value_to_bool (PvBool b) = Inr b"
| "value_to_bool PvNull = Inr False"
| "value_to_bool _ = type_error ''Expected boolean value''"

fun value_to_f64 :: "plan_value \<Rightarrow> rfail + f64" where
  "value_to_f64 (PvInt i) = Inr (f64_of_i64 i)"
| "value_to_f64 (PvFloat f) = Inr f"
| "value_to_f64 _ = type_error ''Expected numeric value''"

definition compare_values ::
  "plan_value \<Rightarrow> plan_value \<Rightarrow> (f64 \<Rightarrow> f64 \<Rightarrow> bool) \<Rightarrow> rfail + plan_value" where
  "compare_values left right f =
     rbind (value_to_f64 left) (\<lambda>l. rbind (value_to_f64 right) (\<lambda>r. Inr (PvBool (f l r))))"

definition numeric_op ::
  "plan_value \<Rightarrow> plan_value \<Rightarrow> (i64 \<Rightarrow> i64 \<Rightarrow> rfail + i64) \<Rightarrow> (f64 \<Rightarrow> f64 \<Rightarrow> f64) \<Rightarrow> rfail + plan_value" where
  "numeric_op left right int_op float_op =
     (case (left, right) of
        (PvInt l, PvInt r) \<Rightarrow> rbind (int_op l r) (\<lambda>i. Inr (PvInt i))
      | (PvFloat l, PvFloat r) \<Rightarrow> Inr (PvFloat (float_op l r))
      | (PvInt l, PvFloat r) \<Rightarrow> Inr (PvFloat (float_op (f64_of_i64 l) r))
      | (PvFloat l, PvInt r) \<Rightarrow> Inr (PvFloat (float_op l (f64_of_i64 r)))
      | _ \<Rightarrow> type_error ''Numeric operation requires numeric operands'')"

fun eval_binary_op :: "plan_value \<Rightarrow> binary_op \<Rightarrow> plan_value \<Rightarrow> rfail + plan_value" where
  "eval_binary_op left Eq right = Inr (PvBool (value_eq left right))"
| "eval_binary_op left NotEq right = Inr (PvBool (\<not> value_eq left right))"
| "eval_binary_op left Lt right = compare_values left right f64_less"
| "eval_binary_op left Gt right = compare_values left right (\<lambda>a b. f64_less b a)"
| "eval_binary_op left LtEq right = compare_values left right f64_le"
| "eval_binary_op left GtEq right = compare_values left right (\<lambda>a b. f64_le b a)"
| "eval_binary_op left And right =
     rbind (value_to_bool left) (\<lambda>l. rbind (value_to_bool right) (\<lambda>r. Inr (PvBool (l \<and> r))))"
| "eval_binary_op left Or right =
     rbind (value_to_bool left) (\<lambda>l. rbind (value_to_bool right) (\<lambda>r. Inr (PvBool (l \<or> r))))"
| "eval_binary_op left Add right = numeric_op left right (\<lambda>a b. Inr (a + b)) f64_add"
| "eval_binary_op left Sub right = numeric_op left right (\<lambda>a b. Inr (a - b)) f64_sub"
| "eval_binary_op left Mul right = numeric_op left right (\<lambda>a b. Inr (a * b)) f64_mul"
| "eval_binary_op left Div right = numeric_op left right i64_div f64_div"
| "eval_binary_op left Mod right = numeric_op left right i64_rem f64_rem"

fun eval_unary_op :: "unary_op \<Rightarrow> plan_value \<Rightarrow> rfail + plan_value" where
  "eval_unary_op UNot v = rbind (value_to_bool v) (\<lambda>b. Inr (PvBool (\<not> b)))"
| "eval_unary_op UNeg (PvInt i) = Inr (PvInt (- i))"
| "eval_unary_op UNeg (PvFloat f) = Inr (PvFloat (f64_neg f))"
| "eval_unary_op UNeg _ = type_error ''Negation requires numeric value''"

section \<open>Expressions and interpolated strings\<close>

type_synonym var_map = "string \<rightharpoonup> plan_value"

definition lookup_var :: "var_map \<Rightarrow> string \<Rightarrow> rfail + plan_value" where
  "lookup_var vars name =
     (case vars name of None \<Rightarrow> Inl (RErr (CeUndefinedVariable name)) | Some v \<Rightarrow> Inr v)"

fun evaluate_expr :: "var_map \<Rightarrow> expr \<Rightarrow> rfail + plan_value"
and eval_literal :: "var_map \<Rightarrow> literal \<Rightarrow> rfail + plan_value"
and resolve_string_literal :: "var_map \<Rightarrow> string_literal \<Rightarrow> rfail + string"
and resolve_string_literals :: "var_map \<Rightarrow> (string_literal \<times> span) list \<Rightarrow> rfail + string list"
and resolve_parts :: "var_map \<Rightarrow> string_part list \<Rightarrow> rfail + string"
where
  "evaluate_expr vars (ELiteral lit) = eval_literal vars lit"
| "evaluate_expr vars (EVariable name) = lookup_var vars name"
| "evaluate_expr vars (EBinary (l, ls) opr (r, rs)) =
     rbind (evaluate_expr vars l) (\<lambda>left_val.
     rbind (evaluate_expr vars r) (\<lambda>right_val.
     eval_binary_op left_val opr right_val))"
| "evaluate_expr vars (EUnary opr (e, es)) =
     rbind (evaluate_expr vars e) (\<lambda>v. eval_unary_op opr v)"
| "evaluate_expr vars EUnique =
     Inl (RErr (CeParse ''unique() can only be used inside faker string interpolation''))"
| "eval_literal vars (LInt i) = Inr (PvInt i)"
| "eval_literal vars (LIntArray is) = Inr (PvIntArray is)"
| "eval_literal vars (LFloat f) = Inr (PvFloat f)"
| "eval_literal vars (LFloatArray fs) = Inr (PvFloatArray fs)"
| "eval_literal vars (LBool b) = Inr (PvBool b)"
| "eval_literal vars (LBoolArray bs) = Inr (PvBoolArray bs)"
| "eval_literal vars LNull = Inr PvNull"
| "eval_literal vars (LString s) = rbind (resolve_string_literal vars s) (\<lambda>r. Inr (PvString r))"
| "eval_literal vars (LStringArray xs) =
     rbind (resolve_string_literals vars xs) (\<lambda>rs. Inr (PvStringArray rs))"
| "resolve_string_literal vars (StringLiteral parts) = resolve_parts vars parts"
| "resolve_string_literals vars [] = Inr []"
| "resolve_string_literals vars ((s, sp) # xs) =
     rbind (resolve_string_literal vars s) (\<lambda>r.
     rbind (resolve_string_literals vars xs) (\<lambda>rs. Inr (r # rs)))"
| "resolve_parts vars [] = Inr []"
| "resolve_parts vars (Text t # ps) = rbind (resolve_parts vars ps) (\<lambda>r. Inr (t @ r))"
| "resolve_parts vars (Interpolation (e, sp) # ps) =
     rbind (if e = EUnique then Inr ''{unique()}''
            else rbind (evaluate_expr vars e) (\<lambda>v. Inr (as_string_value v))) (\<lambda>t.
     rbind (resolve_parts vars ps) (\<lambda>r. Inr (t @ r)))"

fun evaluate_condition :: "var_map \<Rightarrow> expr \<Rightarrow> rfail + bool" where
  "evaluate_condition vars e =
     rbind (evaluate_expr vars e) (\<lambda>v.
       case v of
         PvBool b \<Rightarrow> Inr b
       | PvNull \<Rightarrow> Inr False
       | _ \<Rightarrow> type_error ''Condition must evaluate to bool'')"

text \<open>The same, with the parameters of a get function left as placeholders.\<close>

fun resolve_parts_with_params :: "var_map \<Rightarrow> string list \<Rightarrow> string_part list \<Rightarrow> rfail + string" where
  "resolve_parts_with_params vars params [] = Inr []"
| "resolve_parts_with_params vars params (Text t # ps) =
     rbind (resolve_parts_with_params vars params ps) (\<lambda>r. Inr (t @ r))"
| "resolve_parts_with_params vars params (Interpolation (e, sp) # ps) =
     rbind (case e of
         EVariable name \<Rightarrow>
           if name \<in> set params then Inr (''{'' @ name @ ''}'')
           else rbind (evaluate_expr vars e) (\<lambda>v. Inr (as_string_value v))
       | EUnique \<Rightarrow> Inr ''{unique()}''
       | _ \<Rightarrow> rbind (evaluate_expr vars e) (\<lambda>v. Inr (as_string_value v))) (\<lambda>t.
     rbind (resolve_parts_with_params vars params ps) (\<lambda>r. Inr (t @ r)))"

definition resolve_string_literal_with_params ::
  "var_map \<Rightarrow> string list \<Rightarrow> string_literal \<Rightarrow> rfail + string" where
  "resolve_string_literal_with_params vars params lit = resolve_parts_with_params vars params (sl_parts lit)"

section \<open>Typed values\<close>

abbreviation mismatch :: "rfail + 'a" where "mismatch \<equiv> type_error ''Type mismatch in literal''"

definition literal_to_value :: "var_map \<Rightarrow> literal \<Rightarrow> var_type \<Rightarrow> rfail + plan_value" where
  "literal_to_value vars lit t =
     (case lit of
        LInt i \<Rightarrow>
          if t = VInt then Inr (PvInt i)
          else if t = VFloat then Inr (PvFloat (f64_of_i64 i)) else mismatch
      | LIntArray is \<Rightarrow> if t = VIntArray then Inr (PvIntArray is) else mismatch
      | LFloat f \<Rightarrow> if t = VFloat then Inr (PvFloat f) else mismatch
      | LFloatArray fs \<Rightarrow> if t = VFloatArray then Inr (PvFloatArray fs) else mismatch
      | LBool b \<Rightarrow> if t = VBool then Inr (PvBool b) else mismatch
      | LBoolArray bs \<Rightarrow> if t = VBoolArray then Inr (PvBoolArray bs) else mismatch
      | LString s \<Rightarrow>
          if t = VString then rbind (resolve_string_literal vars s) (\<lambda>r. Inr (PvString r)) else mismatch
      | LStringArray xs \<Rightarrow>
          if t = VStringArray then rbind (resolve_string_literals vars xs) (\<lambda>rs. Inr (PvStringArray rs))
          else mismatch
      | LNull \<Rightarrow> Inr PvNull)"

definition coerce_bool :: "string \<Rightarrow> rfail + plan_value" where
  "coerce_bool s =
     (let w = ascii_lower s in
      if w \<in> {''true'', ''1'', ''yes''} then Inr (PvBool True)
      else if w \<in> {''false'', ''0'', ''no''} then Inr (PvBool False)
      else type_error (''Cannot convert '' @ squote # s @ squote # '' to bool''))"

definition coerce_value :: "plan_value \<Rightarrow> var_type \<Rightarrow> rfail + plan_value" where
  "coerce_value v t =
     (case v of
        PvString s \<Rightarrow>
          (case t of
             VInt \<Rightarrow>
               (case parse_i64 s of
                  Some i \<Rightarrow> Inr (PvInt i)
                | None \<Rightarrow> type_error (''Cannot convert '' @ squote # s @ squote # '' to int''))
           | VFloat \<Rightarrow>
               (case parse_f64 s of
                  Some f \<Rightarrow> Inr (PvFloat f)
                | None \<Rightarrow> type_error (''Cannot convert '' @ squote # s @ squote # '' to float''))
           | VBool \<Rightarrow> coerce_bool s
           | _ \<Rightarrow> Inr v)
      | _ \<Rightarrow> Inr v)"

fun placeholder_value :: "var_type \<Rightarrow> plan_value" where
  "placeholder_value VString = PvString []"
| "placeholder_value VInt = PvInt 0"
| "placeholder_value VFloat = PvFloat (Finite False 0 (-1074))"
| "placeholder_value VBool = PvBool False"
| "placeholder_value VStringArray = PvStringArray []"
| "placeholder_value VIntArray = PvIntArray []"
| "placeholder_value VFloatArray = PvFloatArray []"
| "placeholder_value VBoolArray = PvBoolArray []"

fun value_type_name :: "plan_value \<Rightarrow> string" where
  "value_type_name (PvString _) = ''string''"
| "value_type_name (PvStringArray _) = ''string[]''"
| "value_type_name (PvInt _) = ''int''"
| "value_type_name (PvIntArray _) = ''int[]''"
| "value_type_name (PvFloat _) = ''float''"
| "value_type_name (PvFloatArray _) = ''float[]''"
| "value_type_name (PvBool _) = ''bool''"
| "value_type_name (PvBoolArray _) = ''bool[]''"
| "value_type_name PvNull = ''null''"

end
