(* ===== verification/Resolver.thy ===== *)
theory Resolver
  imports Eval "HOL-Library.AList"
begin

text \<open>
  Resolution of a program into an execution plan (\<open>crates/client/src/resolver.rs\<close>): imports,
  variables, conditions and statements.

  The file system, the rendering of parse errors and the order of hash maps are parameters:
  \<open>fs_resolve base path\<close> is the canonical path of \<open>path\<close> taken relative to the directory of
  \<open>base\<close>, \<open>fs_canonical\<close> the canonical path of the file itself.  The pending variables are a
  list in order of insertion, visited in the order \<open>fs_order\<close> gives it.  Imports recurse into
  files; the fuel bounds their depth.
\<close>

section \<open>State\<close>

datatype limit_override = LoConcrete i64 | LoParam string

record resolved_param =
  rp_name :: string
  rp_type :: var_type
  rp_default :: "plan_value option"

record resolved_get_function =
  rg_name :: string
  rg_params :: "resolved_param list"
  rg_aggregate :: string
  rg_where :: "string option"
  rg_order_by :: "string option"
  rg_direction :: "plan_direction option"
  rg_limit :: "limit_override option"
  rg_exclude_tables :: "string list"
  rg_exclude_patterns :: "string list"
  rg_root_only :: "bool option"

record resolved_config =
  rc_plan :: execution_plan
  rc_gets :: "resolved_get_function list"
  rc_missing :: "(string \<times> var_type) list"

type_synonym pending_vars = "(string \<times> var_type \<times> plan_value option) list"

record file_system =
  fs_canonical :: "string \<Rightarrow> string option"
  fs_resolve :: "string \<Rightarrow> string \<Rightarrow> string + string"
  fs_read :: "string \<Rightarrow> string + string"
  fs_render :: "string \<Rightarrow> string \<Rightarrow> parse_error list \<Rightarrow> string"
  fs_order :: "pending_vars \<Rightarrow> pending_vars"

record resolver =
  rs_base :: string
  rs_imported :: "string set"
  rs_vars :: var_map
  rs_pending :: pending_vars
  rs_plan :: execution_plan
  rs_gets :: "resolved_get_function list"
  rs_lenient :: bool
  rs_missing :: "(string \<times> var_type) list"

definition resolver_new :: "file_system \<Rightarrow> string \<Rightarrow> (string \<rightharpoonup> string) \<Rightarrow> resolver" where
  "resolver_new fs base cli_vars =
     \<lparr>rs_base = base,
      rs_imported = (case fs_canonical fs base of Some c \<Rightarrow> {c} | None \<Rightarrow> {}),
      rs_vars = map_option PvString \<circ> cli_vars, rs_pending = [], rs_plan = empty_plan,
      rs_gets = [], rs_lenient = False, rs_missing = []\<rparr>"

section \<open>Variables\<close>

definition collect_var_decl :: "var_decl \<Rightarrow> resolver \<Rightarrow> rfail + resolver" where
  "collect_var_decl d s =
     (let name = fst (vd_name d); t = fst (vd_type d) in
      rbind (case vd_default d of
               None \<Rightarrow> Inr None
             | Some (lit, _) \<Rightarrow> rbind (literal_to_value (rs_vars s) lit t) (\<lambda>v. Inr (Some v))) (\<lambda>dflt.
      Inr (s\<lparr>rs_pending := AList.update name (t, dflt) (rs_pending s)\<rparr>)))"

fun collect_vars :: "statement spanned list \<Rightarrow> resolver \<Rightarrow> rfail + resolver" where
  "collect_vars [] s = Inr s"
| "collect_vars ((stmt, sp) # stmts) s =
     (case st_kind stmt of
        SVar d \<Rightarrow> rbind (collect_var_decl d s) (collect_vars stmts)
      | _ \<Rightarrow> collect_vars stmts s)"

definition set_var :: "string \<Rightarrow> plan_value \<Rightarrow> resolver \<Rightarrow> resolver" where
  "set_var name v s =
     s\<lparr>rs_vars := (rs_vars s)(name \<mapsto> v),
       rs_plan := (rs_plan s)\<lparr>variables := (variables (rs_plan s))(name \<mapsto> v)\<rparr>\<rparr>"

definition finalize_variable :: "string \<times> var_type \<times> plan_value option \<Rightarrow> resolver \<Rightarrow> rfail + resolver" where
  "finalize_variable entry s =
     (case entry of (name, t, dflt) \<Rightarrow>
        (case rs_vars s name of
           Some v \<Rightarrow> rbind (coerce_value v t) (\<lambda>typed. Inr (set_var name typed s))
         | None \<Rightarrow>
             (case dflt of
                Some d \<Rightarrow> Inr (set_var name d s)
              | None \<Rightarrow>
                  if rs_lenient s then
                    Inr (set_var name (placeholder_value t) (s\<lparr>rs_missing := rs_missing s @ [(name, t)]\<rparr>))
                  else Inl (RErr (CeUndefinedVariable name)))))"

fun finalize_each :: "pending_vars \<Rightarrow> resolver \<Rightarrow> rfail + resolver" where
  "finalize_each [] s = Inr s"
| "finalize_each (e # es) s = rbind (finalize_variable e s) (finalize_each es)"

definition finalize_variables :: "file_system \<Rightarrow> resolver \<Rightarrow> rfail + resolver" where
  "finalize_variables fs s = finalize_each (fs_order fs (rs_pending s)) s"

section \<open>Statements\<close>

definition modify_plan :: "(execution_plan \<Rightarrow> execution_plan) \<Rightarrow> resolver \<Rightarrow> resolver" where
  "modify_plan f s = s\<lparr>rs_plan := f (rs_plan s)\<rparr>"

fun split_patterns :: "table_pattern list \<Rightarrow> string list \<times> string list" where
  "split_patterns [] = ([], [])"
| "split_patterns (PExact (t, sp) # ps) = (case split_patterns ps of (ts, rs) \<Rightarrow> (t # ts, rs))"
| "split_patterns (PRegex (r, sp) # ps) = (case split_patterns ps of (ts, rs) \<Rightarrow> (ts, r # rs))"

definition spread_string_array :: "var_map \<Rightarrow> string \<Rightarrow> rfail + string list" where
  "spread_string_array vars name =
     rbind (lookup_var vars name) (\<lambda>v.
       case value_as_string_array v of
         Some xs \<Rightarrow> Inr xs
       | None \<Rightarrow> type_error (''Cannot spread variable '' @ squote # name @ squote #
           '': expected string[], got '' @ value_type_name v))"

fun faker_values :: "var_map \<Rightarrow> faker_value spanned list \<Rightarrow> rfail + string list" where
  "faker_values vars [] = Inr []"
| "faker_values vars ((FLiteral lit, sp) # vs) =
     rbind (resolve_string_literal vars lit) (\<lambda>r.
     rbind (faker_values vars vs) (\<lambda>rs. Inr (r # rs)))"
| "faker_values vars ((FSpread name, sp) # vs) =
     rbind (spread_string_array vars name) (\<lambda>xs.
     rbind (faker_values vars vs) (\<lambda>rs. Inr (xs @ rs)))"

definition faker_pool :: "var_map \<Rightarrow> faker_source \<Rightarrow> rfail + string list" where
  "faker_pool vars src =
     (case src of
        FArray vs \<Rightarrow> faker_values vars vs
      | FVariable name \<Rightarrow>
          rbind (lookup_var vars name) (\<lambda>v.
            case value_as_string_array v of
              Some xs \<Rightarrow> Inr xs
            | None \<Rightarrow> type_error (''Variable '' @ squote # name @ squote #
                '' must be string[] for faker, got '' @ value_type_name v)))"

definition process_faker :: "faker_decl \<Rightarrow> resolver \<Rightarrow> rfail + resolver" where
  "process_faker d s =
     rbind (faker_pool (rs_vars s) (fd_source d)) (\<lambda>values.
     Inr (modify_plan (\<lambda>p. p\<lparr>fakers := (fakers p)(fst (fd_name d) \<mapsto> values)\<rparr>) s))"

definition relation_of :: "relation_decl \<Rightarrow> relation" where
  "relation_of d =
     \<lparr>from_table = cr_table (fst (rd_from d)), from_column = cr_column (fst (rd_from d)),
      to_table = cr_table (fst (rd_to d)), to_column = cr_column (fst (rd_to d))\<rparr>"

definition anonymize_rule_of :: "anonymize_rule spanned \<Rightarrow> plan_anonymize_rule" where
  "anonymize_rule_of r =
     \<lparr>an_column = fst (ar_column (fst r)),
      an_target = (case ar_target (fst r) of AFaker (name, _) \<Rightarrow> ToFaker name | ANull \<Rightarrow> ToNull)\<rparr>"

definition process_anonymize :: "anonymize_block \<Rightarrow> resolver \<Rightarrow> rfail + resolver" where
  "process_anonymize b s =
     Inr (modify_plan (\<lambda>p. p\<lparr>anonymization :=
       (anonymization p)(fst (ab_table b) \<mapsto> map anonymize_rule_of (ab_rules b))\<rparr>) s)"

definition optional_string :: "(string_literal \<Rightarrow> rfail + string) \<Rightarrow> string_literal spanned option \<Rightarrow> rfail + string option" where
  "optional_string f lit =
     (case lit of None \<Rightarrow> Inr None | Some (l, _) \<Rightarrow> rbind (f l) (\<lambda>r. Inr (Some r)))"

definition order_column :: "order_by_clause option \<Rightarrow> string option" where
  "order_column ob = map_option (\<lambda>o'. fst (ob_column o')) ob"

fun plan_direction_of :: "sort_direction \<Rightarrow> plan_direction" where
  "plan_direction_of Asc = DirAsc"
| "plan_direction_of Desc = DirDesc"

definition order_direction :: "order_by_clause option \<Rightarrow> plan_direction option" where
  "order_direction ob = Option.bind ob (\<lambda>o'. map_option plan_direction_of (ob_direction o'))"

definition aggregate_limit :: "var_map \<Rightarrow> limit_value spanned option \<Rightarrow> rfail + i64 option" where
  "aggregate_limit vars lim =
     (case lim of
        None \<Rightarrow> Inr None
      | Some (LimLiteral n, _) \<Rightarrow> Inr (Some n)
      | Some (LimVariable name, _) \<Rightarrow> rbind (lookup_var vars name) (\<lambda>v. Inr (value_as_int v)))"

definition process_aggregate :: "aggregate_block \<Rightarrow> resolver \<Rightarrow> rfail + resolver" where
  "process_aggregate b s =
     rbind (optional_string (resolve_string_literal (rs_vars s)) (ag_where b)) (\<lambda>where_clause.
     rbind (aggregate_limit (rs_vars s) (ag_limit b)) (\<lambda>limit.
     case split_patterns (ag_exclude_tables b) of (tables, patterns) \<Rightarrow>
     Inr (modify_plan (\<lambda>p. p\<lparr>aggregates := aggregates p @
       [\<lparr>ra_name = fst (ag_name b), ra_root_table = fst (ag_root b), ra_where = where_clause,
         ra_order_by = order_column (ag_order_by b), ra_direction = order_direction (ag_order_by b),
         ra_limit = limit, ra_exclude_tables = tables, ra_exclude_patterns = patterns,
         ra_root_only = ag_root_only b\<rparr>]\<rparr>) s)))"

definition get_param :: "var_map \<Rightarrow> var_decl spanned \<Rightarrow> rfail + resolved_param" where
  "get_param vars d =
     (case vd_default (fst d) of
        None \<Rightarrow> Inr \<lparr>rp_name = fst (vd_name (fst d)), rp_type = fst (vd_type (fst d)), rp_default = None\<rparr>
      | Some (lit, _) \<Rightarrow>
          rbind (literal_to_value vars lit (fst (vd_type (fst d)))) (\<lambda>v.
          Inr \<lparr>rp_name = fst (vd_name (fst d)), rp_type = fst (vd_type (fst d)), rp_default = Some v\<rparr>))"

definition get_limit :: "var_map \<Rightarrow> string list \<Rightarrow> limit_value spanned option \<Rightarrow> rfail + limit_override option" where
  "get_limit vars params lim =
     (case lim of
        None \<Rightarrow> Inr None
      | Some (LimLiteral n, _) \<Rightarrow> Inr (Some (LoConcrete n))
      | Some (LimVariable name, _) \<Rightarrow>
          if name \<in> set params then Inr (Some (LoParam name))
          else
            rbind (lookup_var vars name) (\<lambda>v.
              case value_as_int v of
                Some n \<Rightarrow> Inr (Some (LoConcrete n))
              | None \<Rightarrow> type_error (''Variable '' @ squote # name @ squote # '' must be an integer for limit'')))"

definition process_get_function :: "get_function_def \<Rightarrow> resolver \<Rightarrow> rfail + resolver" where
  "process_get_function f s =
     (let name = fst (gf_name f); agg = fst (gf_aggregate f); known = map ra_name (aggregates (rs_plan s));
          params = map (\<lambda>d. fst (vd_name (fst d))) (gf_params f) in
      if agg \<notin> set known then
        Inl (RErr (CeParse (''Get function '' @ squote # name @ squote # '' references unknown aggregate '' @
          squote # agg @ squote # ''. Available aggregates: '' @ join '', '' known)))
      else
        rbind (rmap (get_param (rs_vars s)) (gf_params f)) (\<lambda>resolved_params.
        rbind (optional_string (resolve_string_literal_with_params (rs_vars s) params) (gf_where f)) (\<lambda>tmpl.
        rbind (get_limit (rs_vars s) params (gf_limit f)) (\<lambda>limit.
        case split_patterns (gf_exclude_tables f) of (tables, patterns) \<Rightarrow>
        Inr (s\<lparr>rs_gets := rs_gets s @
          [\<lparr>rg_name = name, rg_params = resolved_params, rg_aggregate = agg, rg_where = tmpl,
            rg_order_by = order_column (gf_order_by f), rg_direction = order_direction (gf_order_by f),
            rg_limit = limit, rg_exclude_tables = tables, rg_exclude_patterns = patterns,
            rg_root_only = (if gf_root_only f then Some True else None)\<rparr>]\<rparr>)))))"

definition process_preserve :: "preserve_stmt \<Rightarrow> resolver \<Rightarrow> rfail + resolver" where
  "process_preserve p s =
     rbind (resolve_string_literal (rs_vars s) (fst (pv_where p))) (\<lambda>w.
     Inr (modify_plan (\<lambda>pl. pl\<lparr>preserves := preserves pl @
       [\<lparr>pr_table = fst (pv_table p), pr_where = w\<rparr>]\<rparr>) s))"

definition resolve_assignment :: "var_map \<Rightarrow> assignment spanned \<Rightarrow> rfail + plan_assignment" where
  "resolve_assignment vars a =
     rbind (case fst (as_value (fst a)) of
              AvLiteral lit \<Rightarrow> eval_literal vars lit
            | AvVariable name \<Rightarrow> lookup_var vars name
            | AvExpr e \<Rightarrow> evaluate_expr vars e) (\<lambda>v.
     Inr \<lparr>pa_column = fst (as_column (fst a)), pa_value = v\<rparr>)"

definition process_set :: "set_block \<Rightarrow> resolver \<Rightarrow> rfail + resolver" where
  "process_set b s =
     rbind (rmap (resolve_assignment (rs_vars s)) (sb_match b)) (\<lambda>match_clause.
     rbind (rmap (resolve_assignment (rs_vars s)) (sb_assignments b)) (\<lambda>assigns.
     Inr (modify_plan (\<lambda>p. p\<lparr>sets := sets p @
       [\<lparr>sr_table = fst (sb_table b), sr_match = match_clause, sr_assignments = assigns\<rparr>]\<rparr>) s)))"

definition process_kind :: "statement_kind \<Rightarrow> resolver \<Rightarrow> rfail + resolver" where
  "process_kind k s =
     (case k of
        SImport _ \<Rightarrow> Inr s
      | SVar _ \<Rightarrow> Inr s
      | SFaker d \<Rightarrow> process_faker d s
      | SRelation d \<Rightarrow> Inr (modify_plan (\<lambda>p. p\<lparr>relations := relations p @ [relation_of d]\<rparr>) s)
      | SIgnoreRelation d \<Rightarrow>
          Inr (modify_plan (\<lambda>p. p\<lparr>ignored_relations := ignored_relations p @ [relation_of d]\<rparr>) s)
      | SAnonymize b \<Rightarrow> process_anonymize b s
      | SExclude pat \<Rightarrow>
          (case pat of
             PExact (t, _) \<Rightarrow> Inr (modify_plan (\<lambda>p. p\<lparr>excluded_tables := insert t (excluded_tables p)\<rparr>) s)
           | PRegex (r, _) \<Rightarrow> Inr (modify_plan (\<lambda>p. p\<lparr>excluded_patterns := excluded_patterns p @ [r]\<rparr>) s))
      | SIgnore pat \<Rightarrow>
          (case pat of
             PExact (t, _) \<Rightarrow> Inr (modify_plan (\<lambda>p. p\<lparr>ignored_tables := insert t (ignored_tables p)\<rparr>) s)
           | PRegex (r, _) \<Rightarrow> Inr (modify_plan (\<lambda>p. p\<lparr>ignored_patterns := ignored_patterns p @ [r]\<rparr>) s))
      | SFull pats \<Rightarrow>
          (case split_patterns pats of (tables, patterns) \<Rightarrow>
             Inr (modify_plan (\<lambda>p. p\<lparr>full_tables := full_tables p \<union> set tables,
               full_patterns := full_patterns p @ patterns\<rparr>) s))
      | SAggregate b \<Rightarrow> process_aggregate b s
      | SGet f \<Rightarrow> process_get_function f s
      | SPreserve p \<Rightarrow> process_preserve p s
      | SSet b \<Rightarrow> process_set b s
      | SAfter b \<Rightarrow>
          Inr (modify_plan (\<lambda>p. p\<lparr>after_statements := after_statements p @ map fst (af_statements b)\<rparr>) s))"

text \<open>The \<open>#[when]\<close> condition of a statement.\<close>

definition enabled :: "statement \<Rightarrow> resolver \<Rightarrow> rfail + bool" where
  "enabled stmt s =
     (case st_attribute stmt of None \<Rightarrow> Inr True | Some (c, _) \<Rightarrow> evaluate_condition (rs_vars s) c)"

definition process_statement :: "statement \<Rightarrow> resolver \<Rightarrow> rfail + resolver" where
  "process_statement stmt s =
     rbind (enabled stmt s) (\<lambda>on. if on then process_kind (st_kind stmt) s else Inr s)"

fun process_statements :: "statement spanned list \<Rightarrow> resolver \<Rightarrow> rfail + resolver" where
  "process_statements [] s = Inr s"
| "process_statements ((stmt, sp) # stmts) s = rbind (process_statement stmt s) (process_statements stmts)"

section \<open>Files\<close>

fun process_imports ::
  "(string \<Rightarrow> resolver \<Rightarrow> rfail + resolver) \<Rightarrow> statement spanned list \<Rightarrow> resolver \<Rightarrow> rfail + resolver" where
  "process_imports imp [] s = Inr s"
| "process_imports imp ((stmt, sp) # stmts) s =
     (case st_kind stmt of
        SImport (path, _) \<Rightarrow>
          rbind (enabled stmt s) (\<lambda>on.
          rbind (if on then imp path s else Inr s) (process_imports imp stmts))
      | _ \<Rightarrow> process_imports imp stmts s)"

text \<open>The three passes over the statements of a file.\<close>

definition process_file ::
  "file_system \<Rightarrow> (string \<Rightarrow> resolver \<Rightarrow> rfail + resolver) \<Rightarrow> statement spanned list \<Rightarrow> resolver \<Rightarrow> rfail + resolver" where
  "process_file fs imp stmts s =
     rbind (process_imports imp stmts s) (\<lambda>s1.
     rbind (collect_vars stmts s1) (\<lambda>s2.
     rbind (finalize_variables fs s2) (process_statements stmts)))"

definition load_import ::
  "file_system \<Rightarrow> string \<Rightarrow> string \<Rightarrow> rfail + program" where
  "load_import fs import_path canonical =
     (case fs_read fs canonical of
        Inl e \<Rightarrow> Inl (RErr (CeIo (''read import '' @ squote # import_path @ [squote]) e))
      | Inr source \<Rightarrow>
          (case parse source of
             Done prog \<Rightarrow> Inr prog
           | Fail errors \<Rightarrow>
               Inl (RErr (CeParse (''in imported file '' @ squote # import_path @ squote # '':'' @ newline #
                 fs_render fs import_path source errors)))
           | NoFuel \<Rightarrow> Inl RFuel))"

fun process_import :: "nat \<Rightarrow> file_system \<Rightarrow> string \<Rightarrow> resolver \<Rightarrow> rfail + resolver" where
  "process_import 0 fs import_path s = Inl RFuel"
| "process_import (Suc n) fs import_path s =
     (case fs_resolve fs (rs_base s) import_path of
        Inl e \<Rightarrow> Inl (RErr (CeIo (''resolve import path '' @ squote # import_path @ [squote]) e))
      | Inr canonical \<Rightarrow>
          if canonical \<in> rs_imported s then Inr s
          else
            rbind (load_import fs import_path canonical) (\<lambda>prog.
            rbind (process_file fs (process_import n fs) (pg_statements prog)
                (s\<lparr>rs_imported := insert canonical (rs_imported s), rs_base := canonical\<rparr>)) (\<lambda>s'.
            Inr (s'\<lparr>rs_base := rs_base s\<rparr>))))"

definition resolve_program :: "nat \<Rightarrow> file_system \<Rightarrow> program \<Rightarrow> resolver \<Rightarrow> rfail + resolved_config" where
  "resolve_program fuel fs prog s =
     rbind (process_file fs (process_import fuel fs) (pg_statements prog) s) (\<lambda>s'.
     Inr \<lparr>rc_plan = rs_plan s', rc_gets = rs_gets s', rc_missing = rs_missing s'\<rparr>)"

section \<open>Checks on the whole plan\<close>

text \<open>
  \<open>tables\<close> are the keys of the anonymization map in the order the hash map yields them; the
  regular expression engine says whether a pattern compiles.
\<close>

definition check_rule :: "execution_plan \<Rightarrow> string \<Rightarrow> plan_anonymize_rule \<Rightarrow> rfail + unit" where
  "check_rule plan table r =
     (case an_target r of
        ToFaker f \<Rightarrow>
          if f \<in> dom (fakers plan) then Inr ()
          else Inl (RErr (CeResolution (''anonymize rule for '' @ table @ ''.'' @ an_column r @
            '' references undefined faker '' @ squote # f @ [squote])))
      | ToNull \<Rightarrow> Inr ())"

definition check_table :: "execution_plan \<Rightarrow> string \<Rightarrow> rfail + unit list" where
  "check_table plan table =
     (case anonymization plan table of
        None \<Rightarrow> Inr []
      | Some rules \<Rightarrow> rmap (check_rule plan table) rules)"

definition pattern_sources :: "execution_plan \<Rightarrow> resolved_get_function list \<Rightarrow> (string \<times> string) list" where
  "pattern_sources plan gets =
     map (Pair ''exclude_data'') (excluded_patterns plan) @
     map (Pair ''ignore_table'') (ignored_patterns plan) @
     map (Pair ''full'') (full_patterns plan) @
     concat (map (\<lambda>a. map (Pair ''aggregate exclude'') (ra_exclude_patterns a)) (aggregates plan)) @
     concat (map (\<lambda>f. map (Pair ''get exclude'') (rg_exclude_patterns f)) gets)"

definition check_pattern :: "(string \<Rightarrow> string + unit) \<Rightarrow> string \<times> string \<Rightarrow> rfail + unit" where
  "check_pattern rx cp =
     (case rx (snd cp) of
        Inl e \<Rightarrow> Inl (RErr (CeResolution (''invalid regex /'' @ snd cp @ ''/ in '' @ fst cp @ '': '' @ e)))
      | Inr _ \<Rightarrow> Inr ())"

definition validate_plan ::
  "(string \<Rightarrow> string + unit) \<Rightarrow> string list \<Rightarrow> execution_plan \<Rightarrow> resolved_get_function list \<Rightarrow> rfail + unit" where
  "validate_plan rx tables plan gets =
     rbind (rmap (check_table plan) tables) (\<lambda>_.
     rbind (rmap (check_pattern rx) (pattern_sources plan gets)) (\<lambda>_. Inr ()))"

text \<open>\<open>resolve\<close>, and \<open>resolve_lenient\<close> when \<open>lenient\<close> holds.\<close>

definition resolve_with ::
  "bool \<Rightarrow> nat \<Rightarrow> file_system \<Rightarrow> (string \<Rightarrow> string + unit) \<Rightarrow> (execution_plan \<Rightarrow> string list) \<Rightarrow>
     string \<Rightarrow> program \<Rightarrow> (string \<rightharpoonup> string) \<Rightarrow> rfail + resolved_config" where
  "resolve_with lenient fuel fs rx keys base prog cli_vars =
     rbind (resolve_program fuel fs prog ((resolver_new fs base cli_vars)\<lparr>rs_lenient := lenient\<rparr>)) (\<lambda>c.
     rbind (validate_plan rx (keys (rc_plan c)) (rc_plan c) (rc_gets c)) (\<lambda>_. Inr c))"

end
