(* ===== verification/Resolution.thy ===== *)
theory Resolution
  imports Resolver "HOL-Library.Multiset"
begin

text \<open>
  What resolution guarantees: it returns for every set of files, a variable is reported as
  undefined only when it is, values have their declared types, every reachable file contributes
  once and before the files that import it, a resolved plan is consistent, and the lenient mode
  agrees with the strict one.
\<close>

section \<open>Errors of evaluation\<close>

fun expr_vars :: "expr \<Rightarrow> string set"
and literal_vars :: "literal \<Rightarrow> string set"
and string_vars :: "string_literal \<Rightarrow> string set"
and strings_vars :: "(string_literal \<times> span) list \<Rightarrow> string set"
and parts_vars :: "string_part list \<Rightarrow> string set"
where
  "expr_vars (ELiteral lit) = literal_vars lit"
| "expr_vars (EVariable name) = {name}"
| "expr_vars (EBinary (l, ls) opr (r, rs)) = expr_vars l \<union> expr_vars r"
| "expr_vars (EUnary opr (e, es)) = expr_vars e"
| "expr_vars EUnique = {}"
| "literal_vars (LString s) = string_vars s"
| "literal_vars (LStringArray xs) = strings_vars xs"
| "literal_vars (LInt i) = {}"
| "literal_vars (LIntArray is) = {}"
| "literal_vars (LFloat f) = {}"
| "literal_vars (LFloatArray fs) = {}"
| "literal_vars (LBool b) = {}"
| "literal_vars (LBoolArray bs) = {}"
| "literal_vars LNull = {}"
| "string_vars (StringLiteral ps) = parts_vars ps"
| "strings_vars [] = {}"
| "strings_vars ((s, sp) # xs) = string_vars s \<union> strings_vars xs"
| "parts_vars [] = {}"
| "parts_vars (Text t # ps) = parts_vars ps"
| "parts_vars (Interpolation (e, sp) # ps) = expr_vars e \<union> parts_vars ps"

lemma rbind_Inl_iff: "rbind r f = Inl e \<longleftrightarrow> r = Inl e \<or> (\<exists>x. r = Inr x \<and> f x = Inl e)"
  by (cases r) auto

text \<open>Operators fail with type errors or panics only.\<close>

definition mild :: "rfail + 'a \<Rightarrow> bool" where
  "mild r \<longleftrightarrow> (\<forall>e. r = Inl e \<longrightarrow> e = RPanic \<or> (\<exists>m. e = RErr (CeTypeError m)))"

lemma mild_simps [simp]: "mild (Inr x)" "mild (type_error m)" "mild (Inl RPanic)"
  by (simp_all add: mild_def)

lemma mild_rbind: "mild r \<Longrightarrow> (\<And>x. mild (f x)) \<Longrightarrow> mild (rbind r f)"
  by (cases r) (simp_all add: mild_def)

lemma mild_operators:
  "mild (value_to_bool v)" "mild (value_to_f64 v)" "mild (i64_div a b)" "mild (i64_rem a b)"
  "mild (eval_unary_op u v)"
proof -
  show b: "mild (value_to_bool v)" "mild (value_to_f64 v)" by (cases v; simp)+
  show "mild (i64_div a b)" "mild (i64_rem a b)" by (simp_all add: i64_div_def i64_rem_def)
  show "mild (eval_unary_op u v)" by (cases u; cases v; simp)
qed

lemma mild_binary: "mild (eval_binary_op l opr r)"
proof -
  have n: "mild (numeric_op l r f g)" if "\<And>a b. mild (f a b)" for f g
    using that by (cases l; cases r) (simp_all add: numeric_op_def mild_rbind)
  have c: "mild (compare_values l r f)" for f
    by (simp add: compare_values_def mild_rbind mild_operators)
  show ?thesis by (cases opr) (simp_all add: n c mild_rbind mild_operators)
qed

text \<open>What an evaluation over the variables \<open>X\<close> may fail with.\<close>

definition explained :: "var_map \<Rightarrow> string set \<Rightarrow> rfail \<Rightarrow> bool" where
  "explained vars X x \<longleftrightarrow>
     x = RPanic \<or> (\<exists>m. x = RErr (CeTypeError m)) \<or> (\<exists>m. x = RErr (CeParse m)) \<or>
     (\<exists>n \<in> X. vars n = None \<and> x = RErr (CeUndefinedVariable n))"

lemma explained_Un: "explained vars (X \<union> Y) x \<longleftrightarrow> explained vars X x \<or> explained vars Y x"
  by (auto simp: explained_def)

lemma explained_simps [simp]:
  "explained vars X (RErr (CeParse m))" "explained vars X (RErr (CeTypeError m))" "explained vars X RPanic"
  by (simp_all add: explained_def)

lemma mild_explained: "r = Inl x \<Longrightarrow> mild r \<Longrightarrow> explained vars X x"
  by (auto simp: mild_def explained_def)

lemmas eval_induct =
  evaluate_expr_eval_literal_resolve_string_literal_resolve_string_literals_resolve_parts.induct

lemma evaluate_errors:
  "evaluate_expr vars e = Inl x \<Longrightarrow> explained vars (expr_vars e) x"
  "eval_literal vars lit = Inl x \<Longrightarrow> explained vars (literal_vars lit) x"
  "resolve_string_literal vars s = Inl x \<Longrightarrow> explained vars (string_vars s) x"
  "resolve_string_literals vars xs = Inl x \<Longrightarrow> explained vars (strings_vars xs) x"
  "resolve_parts vars ps = Inl x \<Longrightarrow> explained vars (parts_vars ps) x"
proof (induction vars e and vars lit and vars s and vars xs and vars ps rule: eval_induct)
  case (2 vars name)
  then show ?case by (auto simp: lookup_var_def explained_def split: option.splits)
next
  case (3 vars l ls opr r rs)
  consider "evaluate_expr vars l = Inl x" | lv where "evaluate_expr vars l = Inr lv" "evaluate_expr vars r = Inl x"
    | lv rv where "evaluate_expr vars l = Inr lv" "evaluate_expr vars r = Inr rv" "eval_binary_op lv opr rv = Inl x"
    using "3.prems" by (auto simp: rbind_Inl_iff)
  then show ?case
  proof cases
    case 3
    then show ?thesis using mild_explained [OF _ mild_binary] by blast
  qed (use "3.IH" in \<open>simp_all add: explained_Un\<close>)
next
  case (4 vars opr e es)
  then consider "evaluate_expr vars e = Inl x" | v where "eval_unary_op opr v = Inl x" by (auto simp: rbind_Inl_iff)
  then show ?case using "4.IH" mild_explained [OF _ mild_operators(5)] by cases auto
qed (auto simp: rbind_Inl_iff explained_Un split: if_splits)

text \<open>Evaluating an expression reports a variable as undefined only when the expression mentions it
  and it has no value; otherwise it yields a value, a type error, or panics on an integer division
  by zero.\<close>

lemma evaluation_errors:
  assumes "evaluate_expr vars e = Inl x"
  shows "x = RPanic \<or> (\<exists>m. x = RErr (CeTypeError m)) \<or> (\<exists>m. x = RErr (CeParse m)) \<or>
     (\<exists>n \<in> expr_vars e. vars n = None \<and> x = RErr (CeUndefinedVariable n))"
  using evaluate_errors(1) [OF assms] by (simp add: explained_def)

definition sample_sum :: expr where
  "sample_sum = EBinary (ELiteral (LInt 1), mk_span 0 1) Add (EVariable ''n'', mk_span 2 4)"

lemma evaluation_errors_witness:
  "evaluate_expr Map.empty sample_sum = Inl (RErr (CeUndefinedVariable ''n'')) \<and> ''n'' \<in> expr_vars sample_sum"
proof -
  have e: "evaluate_expr Map.empty sample_sum = Inl (RErr (CeUndefinedVariable ''n''))"
    by (simp add: sample_sum_def lookup_var_def)
  from evaluation_errors [OF this] show ?thesis using e by auto
qed

text \<open>A condition can abort the program: \<open>1 / 0\<close> is a panic, not an error.\<close>

lemma division_by_zero_panics:
  "evaluate_condition vars
     (EBinary (EBinary (ELiteral (LInt 1), sp) Div (ELiteral (LInt 0), sp), sp) Eq (ELiteral (LInt 0), sp)) = Inl RPanic"
  by (simp add: numeric_op_def i64_div_def i64_div_panics_def)

section \<open>Types\<close>

definition has_type :: "plan_value \<Rightarrow> var_type \<Rightarrow> bool" where
  "has_type v t \<longleftrightarrow>
     (case v of
        PvString _ \<Rightarrow> t = VString
      | PvStringArray _ \<Rightarrow> t = VStringArray
      | PvInt _ \<Rightarrow> t = VInt
      | PvIntArray _ \<Rightarrow> t = VIntArray
      | PvFloat _ \<Rightarrow> t = VFloat
      | PvFloatArray _ \<Rightarrow> t = VFloatArray
      | PvBool _ \<Rightarrow> t = VBool
      | PvBoolArray _ \<Rightarrow> t = VBoolArray
      | PvNull \<Rightarrow> False)"

definition convertible :: "var_type \<Rightarrow> bool" where
  "convertible t \<longleftrightarrow> t \<in> {VString, VInt, VFloat, VBool}"

lemma coerce_bool_type: "coerce_bool s = Inr v \<Longrightarrow> has_type v VBool"
  by (auto simp: coerce_bool_def Let_def has_type_def split: if_splits)

lemma coerce_string_type: "coerce_value (PvString s) t = Inr v \<Longrightarrow> convertible t \<Longrightarrow> has_type v t"
  by (cases t) (auto simp: coerce_value_def convertible_def has_type_def [of "PvString s"] has_type_def [of "PvInt _"]
      has_type_def [of "PvFloat _"] intro: coerce_bool_type split: option.splits)

lemma literal_type: "literal_to_value vars lit t = Inr v \<Longrightarrow> has_type v t \<or> v = PvNull"
  by (cases lit) (auto simp: literal_to_value_def has_type_def rbind_Inr_iff split: if_splits)

lemma placeholder_type: "has_type (placeholder_value t) t"
  by (cases t) (simp_all add: has_type_def)


section \<open>Finalised variables\<close>

definition final_value :: "resolver \<Rightarrow> string \<Rightarrow> var_type \<Rightarrow> plan_value option \<Rightarrow> rfail + plan_value" where
  "final_value s n t d =
     (case rs_vars s n of
        Some v \<Rightarrow> coerce_value v t
      | None \<Rightarrow>
          (case d of
             Some v \<Rightarrow> Inr v
           | None \<Rightarrow> if rs_lenient s then Inr (placeholder_value t) else Inl (RErr (CeUndefinedVariable n))))"

lemma finalize_variable_result:
  assumes "finalize_variable (n, t, d) s = Inr s'"
  shows "\<exists>v. final_value s n t d = Inr v \<and> rs_vars s' = (rs_vars s)(n \<mapsto> v) \<and>
    variables (rs_plan s') = (variables (rs_plan s))(n \<mapsto> v) \<and> rs_lenient s' = rs_lenient s"
  using assms by (auto simp: finalize_variable_def final_value_def set_var_def rbind_Inr_iff split: option.splits if_splits)

lemma finalize_each_other:
  "finalize_each es s = Inr s' \<Longrightarrow> n \<notin> fst ` set es \<Longrightarrow>
     rs_vars s' n = rs_vars s n \<and> variables (rs_plan s') n = variables (rs_plan s) n"
proof (induction es arbitrary: s)
  case (Cons e es)
  obtain m t d where e: "e = (m, t, d)" by (cases e)
  obtain s1 where s1: "finalize_variable (m, t, d) s = Inr s1" "finalize_each es s1 = Inr s'"
    using Cons.prems(1) by (auto simp: e rbind_Inr_iff)
  show ?case using Cons.IH [OF s1(2)] Cons.prems(2) finalize_variable_result [OF s1(1)] by (auto simp: e)
qed simp

lemma finalize_each_result:
  "finalize_each es s = Inr s' \<Longrightarrow> distinct (map fst es) \<Longrightarrow> (n, t, d) \<in> set es \<Longrightarrow>
     \<exists>v. final_value s n t d = Inr v \<and> rs_vars s' n = Some v \<and> variables (rs_plan s') n = Some v"
proof (induction es arbitrary: s)
  case (Cons e es)
  obtain m u c where e: "e = (m, u, c)" by (cases e)
  obtain s1 where s1: "finalize_variable (m, u, c) s = Inr s1" "finalize_each es s1 = Inr s'"
    using Cons.prems(1) by (auto simp: e rbind_Inr_iff)
  from finalize_variable_result [OF s1(1)] obtain v where v: "final_value s m u c = Inr v"
    "rs_vars s1 = (rs_vars s)(m \<mapsto> v)" "variables (rs_plan s1) = (variables (rs_plan s))(m \<mapsto> v)"
    "rs_lenient s1 = rs_lenient s" by blast
  show ?case
  proof (cases "n = m")
    case True
    then have "(t, d) = (u, c)" using Cons.prems(2,3) by (auto simp: e image_iff)
    moreover have "m \<notin> fst ` set es" using Cons.prems(2) by (simp add: e)
    ultimately show ?thesis using finalize_each_other [OF s1(2), of m] v True by simp
  next
    case False
    then have "(n, t, d) \<in> set es" using Cons.prems(3) by (simp add: e)
    moreover have "final_value s1 n t d = final_value s n t d" using v False by (simp add: final_value_def)
    ultimately show ?thesis using Cons.IH [OF s1(2)] Cons.prems(2) by (simp add: e)
  qed
qed simp

text \<open>The hash map of pending variables yields every entry once.\<close>

definition orders :: "file_system \<Rightarrow> bool" where
  "orders fs \<longleftrightarrow> (\<forall>p. mset (fs_order fs p) = mset p)"

lemma orders_pending:
  assumes "orders fs" "distinct (map fst p)"
  shows "set (fs_order fs p) = set p" "distinct (map fst (fs_order fs p))"
proof -
  have m: "mset (fs_order fs p) = mset p" using assms(1) by (simp add: orders_def)
  then show "set (fs_order fs p) = set p" by (rule mset_eq_setD)
  have "mset (map fst (fs_order fs p)) = mset (map fst p)" using m by simp
  then show "distinct (map fst (fs_order fs p))" using assms(2) mset_eq_imp_distinct_iff by blast
qed

text \<open>The pending variables are declared with defaults of their types.\<close>

definition pending_ok :: "resolver \<Rightarrow> bool" where
  "pending_ok s \<longleftrightarrow>
     distinct (map fst (rs_pending s)) \<and>
     (\<forall>(n, t, d) \<in> set (rs_pending s). \<forall>v. d = Some v \<longrightarrow> has_type v t \<or> v = PvNull)"

lemma update_entries: "set (AList.update k v al) \<subseteq> insert (k, v) (set al)"
  by (induction al) auto

lemma collect_vars_ok:
  "collect_vars stmts s = Inr s' \<Longrightarrow> pending_ok s \<Longrightarrow> pending_ok s'"
proof (induction stmts arbitrary: s)
  case (Cons st stmts)
  obtain stmt sp where st: "st = (stmt, sp)" by (cases st)
  show ?case
  proof (cases "st_kind stmt")
    case (SVar d)
    obtain s1 where s1: "collect_var_decl d s = Inr s1" "collect_vars stmts s1 = Inr s'"
      using Cons.prems(1) by (auto simp: st SVar rbind_Inr_iff)
    let ?n = "fst (vd_name d)" and ?t = "fst (vd_type d)"
    obtain c where c: "\<forall>v. c = Some v \<longrightarrow> has_type v ?t \<or> v = PvNull"
      "s1 = s\<lparr>rs_pending := AList.update ?n (?t, c) (rs_pending s)\<rparr>"
    proof (cases "vd_default d")
      case None
      then show ?thesis using that [of None] s1(1) by (simp add: collect_var_decl_def Let_def)
    next
      case (Some dl)
      then obtain v where "literal_to_value (rs_vars s) (fst dl) ?t = Inr v"
        "s1 = s\<lparr>rs_pending := AList.update ?n (?t, Some v) (rs_pending s)\<rparr>"
        using s1(1) by (cases dl) (auto simp: collect_var_decl_def Let_def rbind_Inr_iff)
      then show ?thesis using that [of "Some v"] literal_type by auto
    qed
    have "pending_ok s1"
      using Cons.prems(2) c(1) update_entries [of ?n "(?t, c)" "rs_pending s"]
      by (fastforce simp: pending_ok_def c(2) distinct_update)
    then show ?thesis using Cons.IH [OF s1(2)] by simp
  qed (use Cons.IH Cons.prems in \<open>auto simp: st\<close>)
qed simp


text \<open>Once a variable has a value, from the command line or from an imported file, the default of a
  later declaration with the same name is not used: the value stays, whatever the default is.\<close>

lemma first_value_wins:
  assumes "finalize_variables fs s = Inr s'" "orders fs" "distinct (map fst (rs_pending s))"
    and "(n, t, d) \<in> set (rs_pending s)" "rs_vars s n = Some v"
  shows "coerce_value v t = Inr (the (variables (rs_plan s') n)) \<and> rs_vars s' n = variables (rs_plan s') n \<and>
    (\<forall>d'. final_value s n t d' = final_value s n t d)"
  using finalize_each_result [of "fs_order fs (rs_pending s)" s s' n t d] assms
    orders_pending [OF assms(2,3)]
  by (auto simp: finalize_variables_def final_value_def)

text \<open>A variable set on the command line, and one with a default.\<close>

definition sample_files :: file_system where
  "sample_files =
     \<lparr>fs_canonical = (\<lambda>p. Some p), fs_resolve = (\<lambda>base p. Inl p), fs_read = Inl,
      fs_render = (\<lambda>p s es. ''''), fs_order = rev\<rparr>"

definition sample_pending :: resolver where
  "sample_pending = (resolver_new sample_files ''main'' (Map.empty(''n'' \<mapsto> ''42'')))
     \<lparr>rs_pending := [(''n'', VInt, Some (PvInt 7)), (''b'', VBool, Some PvNull)]\<rparr>"

lemma sample_orders: "orders sample_files"
  by (simp add: orders_def sample_files_def)

lemma parse_42: "parse_i64 ''42'' = Some 42"
  by (simp add: parse_i64_def parse_nat_def is_digit_def digit_val_def)

lemma sample_finalized:
  "\<exists>s'. finalize_variables sample_files sample_pending = Inr s' \<and> variables (rs_plan s') ''n'' = Some (PvInt 42)"
  by (simp add: sample_pending_def sample_files_def resolver_new_def finalize_variables_def finalize_variable_def
      coerce_value_def set_var_def parse_42)


lemma first_value_wins_witness:
  "\<exists>s'. finalize_variables sample_files sample_pending = Inr s' \<and>
     coerce_value (PvString ''42'') VInt = Inr (the (variables (rs_plan s') ''n'')) \<and>
     rs_vars s' ''n'' = variables (rs_plan s') ''n''"
proof -
  obtain s' where s': "finalize_variables sample_files sample_pending = Inr s'" using sample_finalized by blast
  have "coerce_value (PvString ''42'') VInt = Inr (the (variables (rs_plan s') ''n'')) \<and>
      rs_vars s' ''n'' = variables (rs_plan s') ''n'' \<and>
      (\<forall>d'. final_value sample_pending ''n'' VInt d' = final_value sample_pending ''n'' VInt (Some (PvInt 7)))"
    by (rule first_value_wins [OF s' sample_orders]) (simp_all add: sample_pending_def resolver_new_def)
  then show ?thesis using s' by blast
qed

text \<open>A condition on a variable declaration is not looked at.\<close>

definition without_attribute :: "statement spanned \<Rightarrow> statement spanned" where
  "without_attribute st = ((fst st)\<lparr>st_attribute := None\<rparr>, snd st)"

lemma when_on_var_ignored: "collect_vars (map without_attribute stmts) s = collect_vars stmts s"
proof (induction stmts arbitrary: s)
  case (Cons st stmts)
  have "collect_vars (map without_attribute stmts) = collect_vars stmts" using Cons.IH by blast
  moreover have "without_attribute (a, b) = (a\<lparr>st_attribute := None\<rparr>, b)" for a b
    by (simp add: without_attribute_def)
  ultimately show ?case by (cases st) (auto split: statement_kind.split)
qed simp

section \<open>Resolution returns\<close>

definition returns :: "rfail + 'a \<Rightarrow> bool" where "returns r \<longleftrightarrow> r \<noteq> Inl RFuel"

named_theorems return_rules \<open>steps of the resolver that return\<close>

lemma returns_rbind [return_rules]:
  "returns r \<Longrightarrow> (\<And>x. r = Inr x \<Longrightarrow> returns (f x)) \<Longrightarrow> returns (rbind r f)"
  by (cases r) (simp_all add: returns_def)

lemma returns_simps [simp]: "returns (Inr x)" "returns (Inl RPanic)" "returns (Inl (RErr e))"
  by (simp_all add: returns_def)

lemma explained_returns: "(\<And>x. r = Inl x \<Longrightarrow> explained vars X x) \<Longrightarrow> returns r"
  by (cases r) (auto simp: returns_def explained_def)

lemma returns_eval [simp]:
  "returns (evaluate_expr vars e)" "returns (eval_literal vars lit)" "returns (resolve_string_literal vars s)"
  "returns (resolve_string_literals vars xs)" "returns (resolve_parts vars ps)"
  by (rule explained_returns, erule evaluate_errors)+

lemma returns_lookup [simp]: "returns (lookup_var vars n)"
  using returns_eval(1) [of vars "EVariable n"] by simp

lemma returns_rmap: "(\<And>x. x \<in> set xs \<Longrightarrow> returns (f x)) \<Longrightarrow> returns (rmap f xs)"
  by (induction xs) (auto intro!: returns_rbind)

lemma returns_params [simp]: "returns (resolve_parts_with_params vars params ps)"
  by (induction vars params ps rule: resolve_parts_with_params.induct)
    (auto intro!: returns_rbind split: expr.split simp del: evaluate_expr.simps)

lemma returns_values [simp]:
  "returns (literal_to_value vars lit t)" "returns (coerce_value v t)" "returns (evaluate_condition vars e)"
proof -
  show "returns (literal_to_value vars lit t)"
    by (cases lit) (auto simp: literal_to_value_def intro!: returns_rbind)
  show "returns (coerce_value v t)"
    by (cases v; cases t) (auto simp: coerce_value_def coerce_bool_def Let_def split: option.split)
  show "returns (evaluate_condition vars e)" by (auto intro!: returns_rbind split: plan_value.split)
qed

lemma returns_faker [simp]: "returns (faker_values vars vs)" "returns (faker_pool vars src)"
proof -
  show f: "returns (faker_values vars vs)" for vs
    by (induction vars vs rule: faker_values.induct)
      (auto simp: spread_string_array_def intro!: returns_rbind split: option.split)
  show "returns (faker_pool vars src)"
    by (cases src) (auto simp: faker_pool_def f intro!: returns_rbind split: option.split)
qed

lemma returns_kind [simp]: "returns (process_kind k s)"
proof (cases k)
  case (SGet f)
  have "returns (process_get_function f s)"
    by (auto simp: process_get_function_def Let_def get_param_def optional_string_def get_limit_def
        resolve_string_literal_with_params_def intro!: returns_rbind returns_rmap
        split: option.split prod.split limit_value.split)
  then show ?thesis by (simp add: process_kind_def SGet)
next
  case (SAggregate b)
  then show ?thesis
    by (auto simp: process_kind_def process_aggregate_def optional_string_def aggregate_limit_def
        intro!: returns_rbind split: option.split prod.split limit_value.split)
next
  case (SSet b)
  then show ?thesis
    by (auto simp: process_kind_def process_set_def resolve_assignment_def intro!: returns_rbind returns_rmap
        split: ast_value.split)
qed (auto simp: process_kind_def process_faker_def process_anonymize_def process_preserve_def
    intro!: returns_rbind split: table_pattern.split prod.split)

lemma returns_enabled [simp]: "returns (enabled stmt s)"
  by (auto simp: enabled_def simp del: evaluate_condition.simps split: option.split)

lemma returns_statements [simp]: "returns (process_statements stmts s)"
  by (induction stmts s rule: process_statements.induct)
    (auto simp: process_statement_def intro!: returns_rbind split: if_split)

lemma returns_collect [simp]: "returns (collect_vars stmts s)"
  by (induction stmts s rule: collect_vars.induct)
    (auto simp: collect_var_decl_def Let_def intro!: returns_rbind split: statement_kind.split option.split)

lemma returns_finalize [simp]: "returns (finalize_variables fs s)"
proof -
  have "returns (finalize_each es s)" for es
    by (induction es s rule: finalize_each.induct)
      (auto simp: finalize_variable_def intro!: returns_rbind split: option.split prod.split)
  then show ?thesis by (simp add: finalize_variables_def)
qed

lemma returns_load [simp]: "returns (load_import fs p c)"
  using parse_cases by (auto simp: load_import_def returns_def split: sum.split outcome.split) (metis outcome.distinct)+


text \<open>What the processing of a statement leaves alone.\<close>

definition same_frame :: "resolver \<Rightarrow> resolver \<Rightarrow> bool" where
  "same_frame s s' \<longleftrightarrow>
     rs_imported s' = rs_imported s \<and> rs_base s' = rs_base s \<and> rs_pending s' = rs_pending s \<and>
     rs_missing s' = rs_missing s \<and> rs_lenient s' = rs_lenient s \<and> rs_vars s' = rs_vars s"

lemma frame_simps [simp]:
  "same_frame s s" "same_frame s (modify_plan f s)" "same_frame s (s\<lparr>rs_gets := g\<rparr>)"
  by (simp_all add: same_frame_def modify_plan_def)

lemma process_kind_keeps: "process_kind k s = Inr s' \<Longrightarrow> same_frame s s'"
  unfolding process_kind_def process_faker_def process_anonymize_def process_aggregate_def
    process_get_function_def process_preserve_def process_set_def Let_def
  by (cases k) (auto simp: rbind_Inr_iff case_prod_beta split: table_pattern.splits if_splits)

lemma process_statements_keeps:
  "process_statements stmts s = Inr s' \<Longrightarrow> rs_imported s' = rs_imported s \<and> rs_base s' = rs_base s"
proof (induction stmts s rule: process_statements.induct)
  case (2 stmt sp stmts s)
  then show ?case
    using process_kind_keeps by (fastforce simp: process_statement_def rbind_Inr_iff same_frame_def split: if_splits)
qed simp

lemma collect_vars_keeps:
  "collect_vars stmts s = Inr s' \<Longrightarrow>
     rs_imported s' = rs_imported s \<and> rs_base s' = rs_base s \<and> rs_plan s' = rs_plan s"
proof (induction stmts arbitrary: s)
  case (Cons st stmts)
  obtain stmt sp where st: "st = (stmt, sp)" by (cases st)
  show ?case
  proof (cases "st_kind stmt")
    case (SVar d)
    then show ?thesis using Cons by (fastforce simp: st rbind_Inr_iff collect_var_decl_def Let_def)
  qed (use Cons in \<open>auto simp: st\<close>)
qed simp

lemma finalize_each_keeps:
  "finalize_each es s = Inr s' \<Longrightarrow>
     rs_imported s' = rs_imported s \<and> rs_base s' = rs_base s \<and>
     (\<exists>vs. rs_plan s' = (rs_plan s)\<lparr>variables := vs\<rparr>)"
proof (induction es arbitrary: s)
  case Nil
  then show ?case by (intro conjI exI [of _ "variables (rs_plan s)"]) simp_all
next
  case (Cons e es)
  obtain s1 where s1: "finalize_variable e s = Inr s1" "finalize_each es s1 = Inr s'"
    using Cons.prems by (auto simp: rbind_Inr_iff)
  have "rs_imported s1 = rs_imported s \<and> rs_base s1 = rs_base s \<and>
      (\<exists>vs. rs_plan s1 = (rs_plan s)\<lparr>variables := vs\<rparr>)"
    using s1(1) by (cases e) (auto simp: finalize_variable_def set_var_def rbind_Inr_iff split: option.splits if_splits)
  then show ?case using Cons.IH [OF s1(2)] by auto
qed

lemma returns_imports:
  assumes "\<And>path s. P s \<Longrightarrow> returns (imp path s)"
    and "\<And>path s s'. P s \<Longrightarrow> imp path s = Inr s' \<Longrightarrow> P s'"
  shows "P s \<Longrightarrow> returns (process_imports imp stmts s)"
proof (induction stmts arbitrary: s)
  case (Cons st stmts)
  obtain stmt sp where st: "st = (stmt, sp)" by (cases st)
  show ?case
  proof (cases "st_kind stmt")
    case (SImport p)
    obtain path psp where p: "p = (path, psp)" by (cases p)
    have "returns (rbind (if on then imp path s else Inr s) (process_imports imp stmts))" for on
      using Cons.prems Cons.IH assms by (cases on) (auto intro!: returns_rbind)
    then show ?thesis by (simp add: st SImport p returns_rbind)
  qed (use Cons in \<open>auto simp: st\<close>)
qed simp

lemma imports_mono:
  assumes "\<And>path s s'. imp path s = Inr s' \<Longrightarrow> rs_imported s \<subseteq> rs_imported s'"
  shows "process_imports imp stmts s = Inr s' \<Longrightarrow> rs_imported s \<subseteq> rs_imported s'"
proof (induction stmts arbitrary: s)
  case (Cons st stmts)
  obtain stmt sp where st: "st = (stmt, sp)" by (cases st)
  show ?case
  proof (cases "st_kind stmt")
    case (SImport p)
    obtain path psp where p: "p = (path, psp)" by (cases p)
    obtain on s1 where "(if on then imp path s else Inr s) = Inr s1" "process_imports imp stmts s1 = Inr s'"
      using Cons.prems by (auto simp: st SImport p rbind_Inr_iff)
    then show ?thesis using Cons.IH assms by (cases on) (auto, blast)
  qed (use Cons in \<open>auto simp: st\<close>)
qed simp

lemma process_file_keeps:
  assumes "process_file fs imp stmts s = Inr s'"
  obtains s1 where "process_imports imp stmts s = Inr s1" "rs_imported s' = rs_imported s1" "rs_base s' = rs_base s1"
  using assms process_statements_keeps collect_vars_keeps finalize_each_keeps
  unfolding process_file_def finalize_variables_def rbind_Inr_iff by metis

lemma process_import_mono: "process_import n fs path s = Inr s' \<Longrightarrow> rs_imported s \<subseteq> rs_imported s'"
proof (induction n arbitrary: path s s')
  case (Suc n)
  obtain c where c: "fs_resolve fs (rs_base s) path = Inr c"
    using Suc.prems by (cases "fs_resolve fs (rs_base s) path") auto
  show ?case
  proof (cases "c \<in> rs_imported s")
    case True
    then show ?thesis using Suc.prems c by simp
  next
    case False
    let ?s = "s\<lparr>rs_imported := insert c (rs_imported s), rs_base := c\<rparr>"
    have "rbind (load_import fs path c) (\<lambda>prog.
        rbind (process_file fs (process_import n fs) (pg_statements prog) ?s) (\<lambda>s'. Inr (s'\<lparr>rs_base := rs_base s\<rparr>))) = Inr s'"
      using Suc.prems c False by simp
    then obtain prog :: program and s1 where f: "process_file fs (process_import n fs) (pg_statements prog) ?s = Inr s1"
      "s' = s1\<lparr>rs_base := rs_base s\<rparr>"
      unfolding rbind_Inr_iff sum.inject by metis
    obtain s2 where s2: "process_imports (process_import n fs) (pg_statements prog) ?s = Inr s2" "rs_imported s1 = rs_imported s2"
      by (rule process_file_keeps [OF f(1)])
    have "rs_imported ?s \<subseteq> rs_imported s2" by (rule imports_mono [OF Suc.IH s2(1)])
    then show ?thesis using f(2) s2(2) by auto
  qed
qed simp

text \<open>The files imports can lead to.\<close>

definition files_in :: "file_system \<Rightarrow> string set \<Rightarrow> bool" where
  "files_in fs F \<longleftrightarrow> finite F \<and> (\<forall>base path c. fs_resolve fs base path = Inr c \<longrightarrow> c \<in> F)"

lemma process_import_returns:
  assumes files: "files_in fs F"
  shows "card (F - rs_imported s) < n \<Longrightarrow> returns (process_import n fs path s)"
proof (induction n arbitrary: path s)
  case (Suc n)
  show ?case
  proof (cases "fs_resolve fs (rs_base s) path")
    case (Inr c)
    show ?thesis
    proof (cases "c \<in> rs_imported s")
      case False
      let ?s = "s\<lparr>rs_imported := insert c (rs_imported s), rs_base := c\<rparr>"
      let ?P = "\<lambda>t. rs_imported ?s \<subseteq> rs_imported t"
      have less: "card (F - rs_imported t) < n" if "?P t" for t
      proof -
        have "F - rs_imported t \<subset> F - rs_imported s" using that False files Inr by (auto simp: files_in_def)
        then have "card (F - rs_imported t) < card (F - rs_imported s)" using files by (intro psubset_card_mono) (auto simp: files_in_def)
        then show ?thesis using Suc.prems by simp
      qed
      have "returns (process_imports (process_import n fs) (pg_statements prog) ?s)" for prog
        by (rule returns_imports [where P = ?P]) (use less Suc.IH process_import_mono in blast)+
      then have "returns (process_file fs (process_import n fs) (pg_statements prog) ?s)" for prog
        unfolding process_file_def by (intro returns_rbind) simp_all
      then have "returns (rbind (load_import fs path c) (\<lambda>prog.
          rbind (process_file fs (process_import n fs) (pg_statements prog) ?s) (\<lambda>s'. Inr (s'\<lparr>rs_base := rs_base s\<rparr>))))"
        by (intro returns_rbind) simp_all
      then show ?thesis using Inr False by simp
    qed (simp add: Inr)
  qed simp
qed simp

lemma process_file_returns:
  assumes "files_in fs F" "card F < n"
  shows "returns (process_file fs (process_import n fs) stmts s)"
proof -
  have card: "card (F - rs_imported t) < n" for t
    using assms card_mono [of F "F - rs_imported t"] unfolding files_in_def by (meson Diff_subset order_le_less_trans)
  have ret: "returns (process_import n fs path t)" for path t
    by (rule process_import_returns [OF assms(1) card])
  have "returns (process_imports (process_import n fs) stmts s)"
    by (rule returns_imports [where P = "\<lambda>_. True"]) (simp_all add: ret)
  then show ?thesis unfolding process_file_def by (intro returns_rbind) simp_all
qed

lemma returns_validate [simp]: "returns (validate_plan rx tables plan gets)"
  by (auto simp: validate_plan_def check_table_def check_rule_def check_pattern_def intro!: returns_rbind returns_rmap
      split: option.split plan_target.split sum.split)

text \<open>C16: resolution returns for every program and every finite set of files, also when files import
  each other in a circle: fuel for one level more than there are files is never used up.\<close>

theorem resolve_returns:
  assumes "files_in fs F" "card F < fuel"
  shows "resolve_with lenient fuel fs rx keys base prog cli_vars \<noteq> Inl RFuel"
proof -
  have "returns (resolve_with lenient fuel fs rx keys base prog cli_vars)"
    unfolding resolve_with_def resolve_program_def
    by (intro returns_rbind process_file_returns [OF assms]) simp_all
  then show ?thesis by (simp add: returns_def)
qed


section \<open>Every reachable file contributes once, in order\<close>

definition kind_afters :: "statement_kind \<Rightarrow> string list" where
  "kind_afters k = (case k of SAfter b \<Rightarrow> map fst (af_statements b) | _ \<Rightarrow> [])"

definition kind_relations :: "statement_kind \<Rightarrow> relation list" where
  "kind_relations k = (case k of SRelation d \<Rightarrow> [relation_of d] | _ \<Rightarrow> [])"

definition afters_of :: "statement spanned list \<Rightarrow> string list" where
  "afters_of stmts = concat (map (\<lambda>st. kind_afters (st_kind (fst st))) stmts)"

definition relations_of :: "statement spanned list \<Rightarrow> relation list" where
  "relations_of stmts = concat (map (\<lambda>st. kind_relations (st_kind (fst st))) stmts)"

definition unconditional :: "statement spanned list \<Rightarrow> bool" where
  "unconditional stmts \<longleftrightarrow> (\<forall>st \<in> set stmts. st_attribute (fst st) = None)"

definition imports_of :: "statement spanned list \<Rightarrow> string set" where
  "imports_of stmts = {path. \<exists>st \<in> set stmts. \<exists>sp. st_kind (fst st) = SImport (path, sp)}"

definition file_statements :: "file_system \<Rightarrow> string \<Rightarrow> statement spanned list" where
  "file_statements fs c =
     (case fs_read fs c of
        Inl _ \<Rightarrow> []
      | Inr src \<Rightarrow> (case parse src of Done p \<Rightarrow> pg_statements p | _ \<Rightarrow> []))"

definition imports_to :: "file_system \<Rightarrow> string \<Rightarrow> statement spanned list \<Rightarrow> string set" where
  "imports_to fs base stmts = {c. \<exists>path \<in> imports_of stmts. fs_resolve fs base path = Inr c}"

text \<open>The files reached from \<open>start\<close> through imports, without going through a file of \<open>stop\<close>.\<close>

inductive import_reach :: "file_system \<Rightarrow> string set \<Rightarrow> string set \<Rightarrow> string \<Rightarrow> bool" for fs stop start where
  reach_file: "c \<in> start \<Longrightarrow> import_reach fs stop start c"
| reach_import:
    "import_reach fs stop start c \<Longrightarrow> c \<notin> stop \<Longrightarrow> d \<in> imports_to fs c (file_statements fs c) \<Longrightarrow>
       import_reach fs stop start d"

lemma import_reach_mono:
  "import_reach fs stop start c \<Longrightarrow> start \<subseteq> start' \<Longrightarrow> stop' \<subseteq> stop \<Longrightarrow> import_reach fs stop' start' c"
  by (induction rule: import_reach.induct) (auto intro: import_reach.intros)

lemma import_reach_trans:
  "import_reach fs stop S c \<Longrightarrow> (\<And>s. s \<in> S \<Longrightarrow> import_reach fs stop T s) \<Longrightarrow> import_reach fs stop T c"
  by (induction rule: import_reach.induct) (auto intro: reach_import)

text \<open>
  What a stretch of the resolution that starts at the files \<open>S\<close> does: it processes the files \<open>L\<close>,
  in this order.
\<close>

definition processed ::
  "file_system \<Rightarrow> string set \<Rightarrow> string set \<Rightarrow> resolver \<Rightarrow> resolver \<Rightarrow> string list \<Rightarrow> bool" where
  "processed fs X S s s' L \<longleftrightarrow>
     distinct L \<and> set L \<inter> rs_imported s = {} \<and> rs_imported s' = rs_imported s \<union> set L \<and>
     rs_base s' = rs_base s \<and>
     after_statements (rs_plan s') =
       after_statements (rs_plan s) @ concat (map (\<lambda>c. afters_of (file_statements fs c)) L) \<and>
     relations (rs_plan s') = relations (rs_plan s) @ concat (map (\<lambda>c. relations_of (file_statements fs c)) L) \<and>
     (\<forall>c \<in> set L. import_reach fs X S c \<and> imports_to fs c (file_statements fs c) \<subseteq> rs_imported s') \<and>
     (\<forall>i < length L. \<forall>d \<in> imports_to fs (L ! i) (file_statements fs (L ! i)).
        d \<in> rs_imported s \<or> d \<in> set (take i L) \<or> import_reach fs {} {d} (L ! i))"

lemma processed_none: "rs_imported s' = rs_imported s \<Longrightarrow> rs_base s' = rs_base s \<Longrightarrow>
    after_statements (rs_plan s') = after_statements (rs_plan s) \<Longrightarrow> relations (rs_plan s') = relations (rs_plan s) \<Longrightarrow>
    processed fs X S s s' []"
  by (simp add: processed_def)

lemma processed_start: "processed fs X S s s' L \<Longrightarrow> S \<subseteq> S' \<Longrightarrow> processed fs X S' s s' L"
  unfolding processed_def by (meson import_reach_mono order_refl)

lemma processed_closed:
  "processed fs X S s s' L \<Longrightarrow> c \<in> set L \<Longrightarrow> imports_to fs c (file_statements fs c) \<subseteq> rs_imported s'"
  unfolding processed_def by blast

lemma processed_append:
  assumes "processed fs X S s s1 L1" "processed fs X S s1 s2 L2"
  shows "processed fs X S s s2 (L1 @ L2)"
proof -
  have ord: "d \<in> rs_imported s \<or> d \<in> set (take i (L1 @ L2)) \<or> import_reach fs {} {d} ((L1 @ L2) ! i)"
    if i: "i < length (L1 @ L2)" and d: "d \<in> imports_to fs ((L1 @ L2) ! i) (file_statements fs ((L1 @ L2) ! i))" for i d
  proof (cases "i < length L1")
    case True
    then show ?thesis using assms(1) d by (auto simp: processed_def nth_append)
  next
    case False
    then obtain j where j: "i = length L1 + j" "j < length L2" using i by (metis add_diff_inverse_nat length_append nat_add_left_cancel_less)
    then have "d \<in> rs_imported s1 \<or> d \<in> set (take j L2) \<or> import_reach fs {} {d} (L2 ! j)"
      using assms(2) d by (simp add: processed_def nth_append)
    then show ?thesis using assms(1) j by (auto simp: processed_def nth_append)
  qed
  have "imports_to fs c (file_statements fs c) \<subseteq> rs_imported s2" if "c \<in> set L1 \<union> set L2" for c
    using assms that unfolding processed_def by blast
  then show ?thesis using assms ord unfolding processed_def by (auto simp: disjoint_iff)
qed

lemma process_kind_outputs:
  assumes "process_kind k s = Inr s'"
  shows "after_statements (rs_plan s') = after_statements (rs_plan s) @ kind_afters k \<and>
    relations (rs_plan s') = relations (rs_plan s) @ kind_relations k"
  using assms
  unfolding process_kind_def process_faker_def process_anonymize_def process_aggregate_def
    process_get_function_def process_preserve_def process_set_def Let_def
  by (cases k)
    (auto simp: rbind_Inr_iff case_prod_beta modify_plan_def kind_afters_def kind_relations_def
      split: table_pattern.splits if_splits)

lemma process_statements_outputs:
  "process_statements stmts s = Inr s' \<Longrightarrow> unconditional stmts \<Longrightarrow>
     after_statements (rs_plan s') = after_statements (rs_plan s) @ afters_of stmts \<and>
     relations (rs_plan s') = relations (rs_plan s) @ relations_of stmts"
proof (induction stmts s rule: process_statements.induct)
  case (2 stmt sp stmts s)
  have "st_attribute stmt = None" using "2.prems"(2) by (simp add: unconditional_def)
  then obtain s1 where s1: "process_kind (st_kind stmt) s = Inr s1" "process_statements stmts s1 = Inr s'"
    using "2.prems"(1) by (auto simp: process_statement_def enabled_def rbind_Inr_iff)
  show ?case
    using "2.IH" [OF s1(2)] "2.prems"(2) process_kind_outputs [OF s1(1)]
    by (simp add: unconditional_def afters_of_def relations_of_def)
qed (simp add: afters_of_def relations_of_def)

text \<open>The second and third pass over a file add what the file itself contains.\<close>

lemma process_file_own:
  assumes "process_file fs imp stmts s = Inr s'" "unconditional stmts"
  obtains s1 where "process_imports imp stmts s = Inr s1"
    and "rs_imported s' = rs_imported s1" "rs_base s' = rs_base s1"
    and "after_statements (rs_plan s') = after_statements (rs_plan s1) @ afters_of stmts"
    and "relations (rs_plan s') = relations (rs_plan s1) @ relations_of stmts"
proof -
  obtain s1 s2 s3 where p: "process_imports imp stmts s = Inr s1" "collect_vars stmts s1 = Inr s2"
    "finalize_each (fs_order fs (rs_pending s2)) s2 = Inr s3" "process_statements stmts s3 = Inr s'"
    using assms(1) by (auto simp: process_file_def finalize_variables_def rbind_Inr_iff)
  obtain vs where vs: "rs_plan s3 = (rs_plan s2)\<lparr>variables := vs\<rparr>" using finalize_each_keeps [OF p(3)] by blast
  show ?thesis
    using that [OF p(1)] process_statements_outputs [OF p(4) assms(2)] process_statements_keeps [OF p(4)]
      finalize_each_keeps [OF p(3)] collect_vars_keeps [OF p(2)] by (simp add: vs)
qed

lemma process_imports_processed:
  assumes imp: "\<And>path s s'. imp path s = Inr s' \<Longrightarrow> rs_base s = base \<Longrightarrow> X \<subseteq> rs_imported s \<Longrightarrow>
      \<exists>c L. fs_resolve fs base path = Inr c \<and> c \<in> rs_imported s' \<and> processed fs X {c} s s' L"
  shows "process_imports imp stmts s = Inr s' \<Longrightarrow> unconditional stmts \<Longrightarrow> rs_base s = base \<Longrightarrow> X \<subseteq> rs_imported s \<Longrightarrow>
    (\<exists>L. processed fs X (imports_to fs base stmts) s s' L) \<and> imports_to fs base stmts \<subseteq> rs_imported s'"
proof (induction stmts arbitrary: s)
  case Nil
  then have "processed fs X {} s s' []" by (simp add: processed_none)
  then show ?case by (auto simp: imports_to_def imports_of_def)
next
  case (Cons st stmts)
  obtain stmt sp where st: "st = (stmt, sp)" by (cases st)
  have un: "st_attribute stmt = None" "unconditional stmts" using Cons.prems(2) by (auto simp: st unconditional_def)
  show ?case
  proof (cases "\<exists>path psp. st_kind stmt = SImport (path, psp)")
    case False
    then have "process_imports imp stmts s = Inr s'"
      using Cons.prems(1) by (auto simp: st split: statement_kind.splits)
    moreover have "imports_to fs base (st # stmts) = imports_to fs base stmts"
      using False by (auto simp: st imports_to_def imports_of_def)
    ultimately show ?thesis using Cons.IH un(2) Cons.prems(3,4) by simp
  next
    case True
    then obtain path psp where k: "st_kind stmt = SImport (path, psp)" by blast
    obtain s1 where s1: "imp path s = Inr s1" "process_imports imp stmts s1 = Inr s'"
      using Cons.prems(1) un(1) by (auto simp: st k enabled_def rbind_Inr_iff)
    obtain c L1 where c: "fs_resolve fs base path = Inr c" "c \<in> rs_imported s1" "processed fs X {c} s s1 L1"
      using imp [OF s1(1) Cons.prems(3,4)] by blast
    have b: "rs_base s1 = base" "X \<subseteq> rs_imported s1" using c(3) Cons.prems(3,4) by (auto simp: processed_def)
    obtain L2 where L2: "processed fs X (imports_to fs base stmts) s1 s' L2" "imports_to fs base stmts \<subseteq> rs_imported s'"
      using Cons.IH [OF s1(2) un(2) b] by blast
    have to: "imports_to fs base (st # stmts) = insert c (imports_to fs base stmts)"
      using c(1) k by (auto simp: st imports_to_def imports_of_def)
    have "processed fs X (insert c (imports_to fs base stmts)) s s' (L1 @ L2)"
      by (rule processed_append [OF processed_start [OF c(3)] processed_start [OF L2(1)]]) auto
    moreover have "c \<in> rs_imported s'" using c(2) L2(1) by (auto simp: processed_def)
    ultimately show ?thesis using L2(2) unfolding to by blast
  qed
qed

lemma load_import_statements:
  "load_import fs path c = Inr prog \<Longrightarrow> file_statements fs c = pg_statements prog"
  by (auto simp: load_import_def file_statements_def split: sum.splits outcome.splits)

lemma process_import_processed:
  assumes un: "\<And>c. unconditional (file_statements fs c)"
  shows "process_import n fs path s = Inr s' \<Longrightarrow> X \<subseteq> rs_imported s \<Longrightarrow>
    \<exists>c L. fs_resolve fs (rs_base s) path = Inr c \<and> c \<in> rs_imported s' \<and> processed fs X {c} s s' L"
proof (induction n arbitrary: path s s')
  case (Suc n)
  obtain c where c: "fs_resolve fs (rs_base s) path = Inr c"
    using Suc.prems by (cases "fs_resolve fs (rs_base s) path") auto
  show ?case
  proof (cases "c \<in> rs_imported s")
    case True
    then have "s' = s" using Suc.prems c by simp
    then show ?thesis using True c processed_none by blast
  next
    case False
    let ?s = "s\<lparr>rs_imported := insert c (rs_imported s), rs_base := c\<rparr>"
    have "rbind (load_import fs path c) (\<lambda>prog.
        rbind (process_file fs (process_import n fs) (pg_statements prog) ?s) (\<lambda>s'. Inr (s'\<lparr>rs_base := rs_base s\<rparr>))) = Inr s'"
      using Suc.prems c False by simp
    then obtain prog :: program and s2 where l: "load_import fs path c = Inr prog"
      and f: "process_file fs (process_import n fs) (pg_statements prog) ?s = Inr s2"
      and s': "s' = s2\<lparr>rs_base := rs_base s\<rparr>"
      unfolding rbind_Inr_iff sum.inject by blast
    let ?ss = "file_statements fs c"
    have ss: "?ss = pg_statements prog" by (rule load_import_statements [OF l])
    obtain s1 where s1: "process_imports (process_import n fs) ?ss ?s = Inr s1"
      "rs_imported s2 = rs_imported s1" "rs_base s2 = rs_base s1"
      "after_statements (rs_plan s2) = after_statements (rs_plan s1) @ afters_of ?ss"
      "relations (rs_plan s2) = relations (rs_plan s1) @ relations_of ?ss"
      by (rule process_file_own [OF f [folded ss] un])
    have base: "\<exists>d L. fs_resolve fs c path = Inr d \<and> d \<in> rs_imported t' \<and> processed fs X {d} t t' L"
      if "process_import n fs path t = Inr t'" "rs_base t = c" "X \<subseteq> rs_imported t" for path t t'
      using Suc.IH [OF that(1,3)] that(2) by simp
    have pre: "rs_base ?s = c" "X \<subseteq> rs_imported ?s" using Suc.prems(2) by auto
    obtain L where L: "processed fs X (imports_to fs c ?ss) ?s s1 L" and cl: "imports_to fs c ?ss \<subseteq> rs_imported s1"
      using process_imports_processed [of "process_import n fs" c X fs, OF base s1(1) un pre] by blast
    have cX: "c \<notin> X" using False Suc.prems(2) by blast
    have start: "import_reach fs X {c} d" if "d \<in> imports_to fs c ?ss" for d
      by (rule reach_import [OF reach_file cX that]) simp
    have "processed fs X {c} s s' (L @ [c])"
      unfolding processed_def
    proof (intro conjI ballI allI impI)
      show "distinct (L @ [c])" "set (L @ [c]) \<inter> rs_imported s = {}"
        "rs_imported s' = rs_imported s \<union> set (L @ [c])" "rs_base s' = rs_base s"
        "after_statements (rs_plan s') =
          after_statements (rs_plan s) @ concat (map (\<lambda>c. afters_of (file_statements fs c)) (L @ [c]))"
        "relations (rs_plan s') =
          relations (rs_plan s) @ concat (map (\<lambda>c. relations_of (file_statements fs c)) (L @ [c]))"
        using L False by (auto simp: processed_def s' s1(2-5))
      fix d assume d: "d \<in> set (L @ [c])"
      show "import_reach fs X {c} d"
        using d L start import_reach_trans [of fs X _ d "{c}"] unfolding processed_def by (fastforce intro: reach_file)
      show "imports_to fs d (file_statements fs d) \<subseteq> rs_imported s'"
      proof (cases "d = c")
        case True
        then show ?thesis using cl s1(2) by (simp add: s')
      next
        case False
        then have "d \<in> set L" using d by simp
        moreover have "\<forall>d \<in> set L. imports_to fs d (file_statements fs d) \<subseteq> rs_imported s1"
          using processed_closed [OF L] by blast
        ultimately have "imports_to fs d (file_statements fs d) \<subseteq> rs_imported s1" by blast
        then show ?thesis unfolding s' by (simp add: s1(2))
      qed
    next
      fix i d assume i: "i < length (L @ [c])" and d: "d \<in> imports_to fs ((L @ [c]) ! i) (file_statements fs ((L @ [c]) ! i))"
      show "d \<in> rs_imported s \<or> d \<in> set (take i (L @ [c])) \<or> import_reach fs {} {d} ((L @ [c]) ! i)"
      proof (cases "i < length L")
        case True
        then have n: "(L @ [c]) ! i = L ! i" "take i (L @ [c]) = take i L" by (simp_all add: nth_append)
        have "d \<in> rs_imported ?s \<or> d \<in> set (take i L) \<or> import_reach fs {} {d} (L ! i)"
          using L True d unfolding processed_def n by blast
        moreover have "import_reach fs {} {c} (L ! i)"
        proof -
          have "import_reach fs X (imports_to fs c ?ss) (L ! i)" using L True by (simp add: processed_def)
          then have "import_reach fs X {c} (L ! i)" by (rule import_reach_trans) (rule start)
          then show ?thesis by (rule import_reach_mono) auto
        qed
        ultimately show ?thesis unfolding n by auto
      next
        case False
        then have n: "(L @ [c]) ! i = c" "take i (L @ [c]) = L" using i by (auto simp: nth_append less_Suc_eq)
        have "d \<in> rs_imported s1" using cl d unfolding n by blast
        then have "d \<in> insert c (rs_imported s) \<union> set L" using L by (simp add: processed_def)
        then show ?thesis unfolding n by (auto intro: reach_file)
      qed
    qed
    moreover have "c \<in> rs_imported s'" using L s1(2) by (auto simp: processed_def s')
    ultimately show ?thesis using c by blast
  qed
qed simp

definition root_files :: "file_system \<Rightarrow> string \<Rightarrow> string set" where
  "root_files fs base = (case fs_canonical fs base of Some c \<Rightarrow> {c} | None \<Rightarrow> {})"

text \<open>C15: without conditions, the plan of a program is put together from the files its imports reach,
  each once and in an order in which every file follows the files it imports, unless they import
  it back; what the program itself says comes last.\<close>

theorem imports_in_order:
  assumes ok: "resolve_with lenient fuel fs rx keys base prog cli_vars = Inr cfg"
    and un: "unconditional (pg_statements prog)" "\<forall>c. unconditional (file_statements fs c)"
  shows "\<exists>L. distinct L \<and>
    set L = {c. import_reach fs (root_files fs base) (imports_to fs base (pg_statements prog)) c} - root_files fs base \<and>
    after_statements (rc_plan cfg) = concat (map (\<lambda>c. afters_of (file_statements fs c)) L) @ afters_of (pg_statements prog) \<and>
    relations (rc_plan cfg) = concat (map (\<lambda>c. relations_of (file_statements fs c)) L) @ relations_of (pg_statements prog) \<and>
    (\<forall>i < length L. \<forall>d \<in> imports_to fs (L ! i) (file_statements fs (L ! i)).
       d \<in> root_files fs base \<or> d \<in> set (take i L) \<or> import_reach fs {} {d} (L ! i))"
proof -
  let ?R = "root_files fs base" and ?ss = "pg_statements prog"
  let ?s = "(resolver_new fs base cli_vars)\<lparr>rs_lenient := lenient\<rparr>"
  have s: "rs_imported ?s = ?R" "rs_base ?s = base" "after_statements (rs_plan ?s) = []" "relations (rs_plan ?s) = []"
    by (simp_all add: resolver_new_def root_files_def empty_plan_def)
  obtain s2 where f: "process_file fs (process_import fuel fs) ?ss ?s = Inr s2" and cfg: "rc_plan cfg = rs_plan s2"
    using ok by (auto simp: resolve_with_def resolve_program_def rbind_Inr_iff)
  obtain s1 where s1: "process_imports (process_import fuel fs) ?ss ?s = Inr s1"
    "after_statements (rs_plan s2) = after_statements (rs_plan s1) @ afters_of ?ss"
    "relations (rs_plan s2) = relations (rs_plan s1) @ relations_of ?ss"
    by (rule process_file_own [OF f un(1)])
  have step: "\<exists>c L. fs_resolve fs base path = Inr c \<and> c \<in> rs_imported t' \<and> processed fs ?R {c} t t' L"
    if "process_import fuel fs path t = Inr t'" "rs_base t = base" "?R \<subseteq> rs_imported t" for path t t'
    using process_import_processed [OF spec [OF un(2)] that(1,3)] unfolding that(2) .
  obtain L where L: "processed fs ?R (imports_to fs base ?ss) ?s s1 L" and cl: "imports_to fs base ?ss \<subseteq> rs_imported s1"
    using process_imports_processed [of "process_import fuel fs" base ?R fs, OF step s1(1) un(1) s(2) equalityD2 [OF s(1)]] by blast
  have im: "rs_imported s1 = ?R \<union> set L" and disj: "set L \<inter> ?R = {}"
    using L unfolding processed_def s(1) by simp_all
  have closed: "c \<in> ?R \<union> set L" if "import_reach fs ?R (imports_to fs base ?ss) c" for c
    using that
  proof (induction rule: import_reach.induct)
    case (reach_file c)
    then show ?case using cl im by blast
  next
    case (reach_import c d)
    then have "c \<in> set L" by blast
    then show ?case using processed_closed [OF L] reach_import.hyps im by blast
  qed
  have "set L = {c. import_reach fs ?R (imports_to fs base ?ss) c} - ?R"
    using closed L disj unfolding processed_def by blast
  then show ?thesis using L unfolding processed_def s cfg s1(2,3) by (intro exI [of _ L]) simp
qed

text \<open>Two files that import each other, and a program that imports one of them.\<close>

definition ring_files :: file_system where
  "ring_files =
     \<lparr>fs_canonical = (\<lambda>p. Some p), fs_resolve = (\<lambda>base p. if p \<in> {''a'', ''b''} then Inr p else Inl ''none''),
      fs_read = (\<lambda>c. if c = ''a'' then Inr ''import \"b\" relation t.x -> u.y''
                   else if c = ''b'' then Inr ''import \"a\" relation v.x -> w.y'' else Inl ''none''),
      fs_render = (\<lambda>p s es. ''''), fs_order = (\<lambda>p. p)\<rparr>"

definition one_import :: program where
  "one_import = \<lparr>pg_statements =
     [(\<lparr>st_attribute = None, st_kind = SImport (''a'', mk_span 7 10)\<rparr>, mk_span 0 11)]\<rparr>"

theorem resolve_returns_witness:
  "resolve_with True 3 ring_files (\<lambda>r. Inr ()) (\<lambda>p. []) ''main'' one_import Map.empty \<noteq> Inl RFuel"
proof (rule resolve_returns)
  show "files_in ring_files {''a'', ''b''}" by (auto simp: files_in_def ring_files_def split: if_splits)
qed simp

definition ring_ok :: "rfail + resolved_config \<Rightarrow> bool" where
  "ring_ok r = (case r of Inl _ \<Rightarrow> False
     | Inr c \<Rightarrow> map from_table (relations (rc_plan c)) = [''v'', ''t''] \<and> after_statements (rc_plan c) = [])"

lemma ring_resolves: "ring_ok (resolve_with False 4 ring_files (\<lambda>r. Inr ()) (\<lambda>p. []) ''main'' one_import Map.empty)"
  by code_simp


lemma ring_unconditional: "\<forall>c. unconditional (file_statements ring_files c)"
proof
  fix c
  have "unconditional (file_statements ring_files ''a'')" "unconditional (file_statements ring_files ''b'')"
    by code_simp+
  then show "unconditional (file_statements ring_files c)"
    by (cases "c = ''a'' \<or> c = ''b''") (auto simp: file_statements_def ring_files_def unconditional_def)
qed

theorem imports_in_order_witness:
  "\<exists>cfg L. resolve_with False 4 ring_files (\<lambda>r. Inr ()) (\<lambda>p. []) ''main'' one_import Map.empty = Inr cfg \<and>
     map from_table (relations (rc_plan cfg)) = [''v'', ''t''] \<and> distinct L \<and>
     relations (rc_plan cfg) = concat (map (\<lambda>c. relations_of (file_statements ring_files c)) L)"
proof -
  obtain cfg where cfg: "resolve_with False 4 ring_files (\<lambda>r. Inr ()) (\<lambda>p. []) ''main'' one_import Map.empty = Inr cfg"
    and r: "map from_table (relations (rc_plan cfg)) = [''v'', ''t'']"
    using ring_resolves by (auto simp: ring_ok_def split: sum.splits)
  have "unconditional (pg_statements one_import)" "relations_of (pg_statements one_import) = []"
    by (simp_all add: one_import_def unconditional_def relations_of_def kind_relations_def)
  then show ?thesis using imports_in_order [OF cfg _ ring_unconditional] cfg r by auto
qed


end
