(* ===== verification/Modes.thy ===== *)
theory Modes
  imports Resolution "HOL-Library.Sublist"
begin

text \<open>
  The check mode (\<open>resolve_lenient\<close>) agrees with resolution proper.
\<close>

section \<open>The lenient mode\<close>

definition relaxed :: "resolver \<Rightarrow> resolver" where "relaxed s = s\<lparr>rs_lenient := True\<rparr>"

lemma relaxed_simps [simp]:
  "rs_base (relaxed s) = rs_base s" "rs_imported (relaxed s) = rs_imported s" "rs_vars (relaxed s) = rs_vars s"
  "rs_pending (relaxed s) = rs_pending s" "rs_plan (relaxed s) = rs_plan s" "rs_gets (relaxed s) = rs_gets s"
  "rs_lenient (relaxed s)" "rs_missing (relaxed s) = rs_missing s"
  by (simp_all add: relaxed_def)

text \<open>
  A step treats the modes alike: it extends the list of missing variables, in the lenient mode
  only; what succeeds in the strict mode succeeds in the lenient one with the same outcome, and
  what succeeds there without a new missing variable succeeds in the strict mode.
\<close>

definition keeps_mode :: "(resolver \<Rightarrow> rfail + resolver) \<Rightarrow> bool" where
  "keeps_mode f \<longleftrightarrow>
     (\<forall>s t. f s = Inr t \<longrightarrow> rs_lenient t = rs_lenient s \<and> prefix (rs_missing s) (rs_missing t) \<and>
        (\<not> rs_lenient s \<longrightarrow> rs_missing t = rs_missing s))"

definition alike :: "(resolver \<Rightarrow> rfail + resolver) \<Rightarrow> bool" where
  "alike f \<longleftrightarrow> keeps_mode f \<and>
     (\<forall>s t. \<not> rs_lenient s \<longrightarrow> \<not> rs_lenient t \<longrightarrow> rs_missing t = rs_missing s \<longrightarrow>
        (f s = Inr t \<longleftrightarrow> f (relaxed s) = Inr (relaxed t)))"

lemma alike_iff: "alike f \<Longrightarrow> \<not> rs_lenient s \<Longrightarrow> \<not> rs_lenient t \<Longrightarrow> rs_missing t = rs_missing s \<Longrightarrow>
    f s = Inr t \<longleftrightarrow> f (relaxed s) = Inr (relaxed t)"
  by (simp add: alike_def)

lemma keeps_modeD:
  assumes "keeps_mode f" "f s = Inr t"
  shows "rs_lenient t = rs_lenient s" "prefix (rs_missing s) (rs_missing t)"
    "\<not> rs_lenient s \<Longrightarrow> rs_missing t = rs_missing s"
  using assms by (auto simp: keeps_mode_def)

lemma alikeI:
  assumes "keeps_mode f"
    and "\<And>s t. \<not> rs_lenient s \<Longrightarrow> \<not> rs_lenient t \<Longrightarrow> rs_missing t = rs_missing s \<Longrightarrow>
      f s = Inr t \<longleftrightarrow> f (relaxed s) = Inr (relaxed t)"
  shows "alike f"
  using assms by (simp add: alike_def)

lemma relaxed_cases:
  assumes "rs_lenient u"
  obtains t where "u = relaxed t" "\<not> rs_lenient t"
  using assms that [of "u\<lparr>rs_lenient := False\<rparr>"] by (simp add: relaxed_def)

lemma relaxed_inject: "\<not> rs_lenient s \<Longrightarrow> \<not> rs_lenient t \<Longrightarrow> relaxed s = relaxed t \<longleftrightarrow> s = t"
  by (cases s; cases t) (auto simp: relaxed_def)

lemma alike_rbind:
  assumes f: "alike f" and g: "alike g"
  shows "alike (\<lambda>s. rbind (f s) g)"
proof (rule alikeI)
  have kf: "keeps_mode f" and kg: "keeps_mode g" using f g by (simp_all add: alike_def)
  show "keeps_mode (\<lambda>s. rbind (f s) g)"
    unfolding keeps_mode_def rbind_Inr_iff
    by (metis keeps_modeD [OF kf] keeps_modeD [OF kg] prefix_order.trans)
  fix s t :: resolver
  assume s: "\<not> rs_lenient s" and t: "\<not> rs_lenient t" "rs_missing t = rs_missing s"
  show "rbind (f s) g = Inr t \<longleftrightarrow> rbind (f (relaxed s)) g = Inr (relaxed t)"
  proof
    assume "rbind (f s) g = Inr t"
    then obtain m where m: "f s = Inr m" "g m = Inr t" by (auto simp: rbind_Inr_iff)
    have "f (relaxed s) = Inr (relaxed m)"
      using alike_iff [OF f s, of m] m(1) keeps_modeD [OF kf m(1)] s by simp
    moreover have "g (relaxed m) = Inr (relaxed t)"
      using alike_iff [OF g _ t(1)] m keeps_modeD [OF kf m(1)] s t by simp
    ultimately show "rbind (f (relaxed s)) g = Inr (relaxed t)" by simp
  next
    assume "rbind (f (relaxed s)) g = Inr (relaxed t)"
    then obtain u where u: "f (relaxed s) = Inr u" "g u = Inr (relaxed t)" by (auto simp: rbind_Inr_iff)
    obtain m where m: "u = relaxed m" "\<not> rs_lenient m"
      using keeps_modeD(1) [OF kf u(1)] by (auto elim: relaxed_cases)
    have "rs_missing m = rs_missing s"
      using keeps_modeD(2) [OF kf u(1)] keeps_modeD(2) [OF kg u(2)] t(2) m(1)
      by (metis prefix_order.antisym relaxed_simps(8))
    then show "rbind (f s) g = Inr t"
      using alike_iff [OF f s m(2)] alike_iff [OF g m(2) t(1)] u m(1) t(2) by simp
  qed
qed

lemma alike_Inr: "alike Inr"
  by (rule alikeI) (auto simp: keeps_mode_def relaxed_inject)

lemma alike_Inl: "alike (\<lambda>s. Inl (e s))"
  by (rule alikeI) (auto simp: keeps_mode_def)

lemma alike_read:
  assumes r: "\<And>s. r (relaxed s) = r s" and f: "\<And>x. alike (f x)"
  shows "alike (\<lambda>s. rbind (r s) (\<lambda>x. f x s))"
proof (rule alikeI)
  show "keeps_mode (\<lambda>s. rbind (r s) (\<lambda>x. f x s))"
    using f unfolding alike_def keeps_mode_def rbind_Inr_iff by blast
  fix s t :: resolver
  assume a: "\<not> rs_lenient s" "\<not> rs_lenient t" "rs_missing t = rs_missing s"
  have "f x s = Inr t \<longleftrightarrow> f x (relaxed s) = Inr (relaxed t)" for x by (rule alike_iff [OF f a])
  then show "rbind (r s) (\<lambda>x. f x s) = Inr t \<longleftrightarrow> rbind (r (relaxed s)) (\<lambda>x. f x (relaxed s)) = Inr (relaxed t)"
    unfolding rbind_Inr_iff r by simp
qed

lemma alike_if:
  assumes p: "\<And>s. P (relaxed s) = P s" and "alike f" "alike g"
  shows "alike (\<lambda>s. if P s then f s else g s)"
proof (rule alikeI)
  show "keeps_mode (\<lambda>s. if P s then f s else g s)"
    unfolding keeps_mode_def
  proof (intro allI impI)
    fix s t :: resolver
    assume r: "(if P s then f s else g s) = Inr t"
    have "keeps_mode f" "keeps_mode g" using assms(2,3) by (simp_all add: alike_def)
    then show "rs_lenient t = rs_lenient s \<and> prefix (rs_missing s) (rs_missing t) \<and>
        (\<not> rs_lenient s \<longrightarrow> rs_missing t = rs_missing s)"
      using r keeps_modeD [of f s t] keeps_modeD [of g s t] by (cases "P s") simp_all
  qed
  fix s t :: resolver
  assume a: "\<not> rs_lenient s" "\<not> rs_lenient t" "rs_missing t = rs_missing s"
  show "(if P s then f s else g s) = Inr t \<longleftrightarrow>
      (if P (relaxed s) then f (relaxed s) else g (relaxed s)) = Inr (relaxed t)"
    unfolding p using alike_iff [OF assms(2) a] alike_iff [OF assms(3) a] by (cases "P s") simp_all
qed

text \<open>A step that never looks at the mode.\<close>

lemma alike_update:
  assumes "\<And>s. u (relaxed s) = relaxed (u s)"
    and "\<And>s. rs_lenient (u s) = rs_lenient s" "\<And>s. rs_missing (u s) = rs_missing s"
  shows "alike (\<lambda>s. Inr (u s))"
proof (rule alikeI)
  show "keeps_mode (\<lambda>s. Inr (u s))" using assms(2,3) by (simp add: keeps_mode_def)
qed (simp add: assms relaxed_inject)

lemma alike_plan: "alike (\<lambda>s. Inr (modify_plan f s))"
  by (rule alike_update) (simp_all add: modify_plan_def relaxed_def)

lemma alike_gets: "alike (\<lambda>s. Inr (s\<lparr>rs_gets := rs_gets s @ g\<rparr>))"
  by (rule alike_update) (simp_all add: relaxed_def)

lemma alike_kind: "alike (process_kind k)"
proof -
  note reads = alike_read [of "\<lambda>s. f (rs_vars s)" for f, simplified]
  show ?thesis
  proof (cases k)
    case (SGet f)
    show ?thesis unfolding process_kind_def SGet statement_kind.case process_get_function_def Let_def
      by (intro alike_if alike_Inl reads) (simp_all add: case_prod_beta alike_gets)
  next
    case (SAggregate b)
    show ?thesis unfolding process_kind_def SAggregate statement_kind.case process_aggregate_def
      by (intro reads) (simp_all add: case_prod_beta alike_plan)
  next
    case (SSet b)
    show ?thesis unfolding process_kind_def SSet statement_kind.case process_set_def
      by (intro reads) (simp_all add: alike_plan)
  next
    case (SFaker d)
    show ?thesis unfolding process_kind_def SFaker statement_kind.case process_faker_def
      by (intro reads) (simp_all add: alike_plan)
  next
    case (SPreserve p)
    show ?thesis unfolding process_kind_def SPreserve statement_kind.case process_preserve_def
      by (intro reads) (simp_all add: alike_plan)
  next
    case (SExclude pat)
    then show ?thesis by (cases pat) (simp_all add: process_kind_def [abs_def] alike_plan case_prod_beta)
  next
    case (SIgnore pat)
    then show ?thesis by (cases pat) (simp_all add: process_kind_def [abs_def] alike_plan case_prod_beta)
  qed (simp_all add: process_kind_def [abs_def] process_anonymize_def [abs_def] alike_plan alike_Inr case_prod_beta)
qed


lemma enabled_relaxed: "enabled stmt (relaxed s) = enabled stmt s"
  by (cases "st_attribute stmt") (simp_all add: enabled_def case_prod_beta del: evaluate_condition.simps)

lemma alike_statements: "alike (process_statements stmts)"
proof (induction stmts)
  case Nil
  then show ?case by (simp add: alike_Inr)
next
  case (Cons st stmts)
  obtain stmt sp where st: "st = (stmt, sp)" by (cases st)
  have "alike (\<lambda>s. if on then process_kind (st_kind stmt) s else Inr s)" for on
    by (cases on) (simp_all add: alike_kind alike_Inr)
  then have "alike (process_statement stmt)"
    unfolding process_statement_def by (intro alike_read) (simp_all add: enabled_relaxed)
  then show ?case using Cons.IH by (simp add: st alike_rbind)
qed

lemma alike_collect: "alike (collect_vars stmts)"
proof (induction stmts)
  case Nil
  then show ?case by (simp add: alike_Inr)
next
  case (Cons st stmts)
  obtain stmt sp where st: "st = (stmt, sp)" by (cases st)
  show ?case
  proof (cases "st_kind stmt")
    case (SVar d)
    have u: "alike (\<lambda>s. Inr (s\<lparr>rs_pending := AList.update n v (rs_pending s)\<rparr>))" for n v
      by (rule alike_update) (simp_all add: relaxed_def)
    have "alike (collect_var_decl d)"
      unfolding collect_var_decl_def Let_def by (intro alike_read) (simp_all add: u split: option.split)
    then show ?thesis using Cons.IH by (simp add: st SVar alike_rbind)
  qed (use Cons.IH in \<open>simp_all add: st\<close>)
qed

lemma alike_finalize_variable: "alike (finalize_variable e)"
proof -
  obtain n t d where e: "e = (n, t, d)" by (cases e)
  show ?thesis
  proof (rule alikeI)
    show "keeps_mode (finalize_variable e)"
      by (auto simp: keeps_mode_def e finalize_variable_def set_var_def rbind_Inr_iff split: option.splits if_splits)
    fix s u :: resolver
    assume a: "\<not> rs_lenient s" "\<not> rs_lenient u" "rs_missing u = rs_missing s"
    have set: "relaxed (set_var n v s) = relaxed u \<longleftrightarrow> set_var n v s = u" for v
      using a by (simp add: relaxed_inject set_var_def)
    have com: "set_var n v (relaxed s) = relaxed (set_var n v s)" for v
      by (simp add: set_var_def relaxed_def)
    have new: "set_var n v (relaxed s\<lparr>rs_missing := rs_missing s @ [x]\<rparr>) \<noteq> relaxed u" for v x
    proof
      assume "set_var n v (relaxed s\<lparr>rs_missing := rs_missing s @ [x]\<rparr>) = relaxed u"
      then have "rs_missing (set_var n v (relaxed s\<lparr>rs_missing := rs_missing s @ [x]\<rparr>)) = rs_missing (relaxed u)" by simp
      then show False using a(3) by (simp add: set_var_def)
    qed
    show "finalize_variable e s = Inr u \<longleftrightarrow> finalize_variable e (relaxed s) = Inr (relaxed u)"
      using a by (simp add: e finalize_variable_def rbind_Inr_iff com set new split: option.split)
  qed
qed

lemma alike_finalize: "alike (finalize_variables fs)"
proof -
  have each: "alike (finalize_each es)" for es
    by (induction es) (simp_all add: alike_Inr alike_rbind alike_finalize_variable)
  have "alike (\<lambda>s. rbind (Inr (fs_order fs (rs_pending s))) (\<lambda>es. finalize_each es s))"
    by (rule alike_read) (simp_all add: each)
  then show ?thesis by (simp add: finalize_variables_def [abs_def])
qed

lemma alike_imports:
  assumes "\<And>path. alike (imp path)"
  shows "alike (process_imports imp stmts)"
proof (induction stmts)
  case Nil
  then show ?case by (simp add: alike_Inr)
next
  case (Cons st stmts)
  obtain stmt sp where st: "st = (stmt, sp)" by (cases st)
  show ?case
  proof (cases "st_kind stmt")
    case (SImport p)
    obtain path psp where p: "p = (path, psp)" by (cases p)
    have "alike (\<lambda>s. if on then imp path s else Inr s)" for on
      by (cases on) (simp_all add: assms alike_Inr)
    then have "alike (\<lambda>s. rbind (enabled stmt s) (\<lambda>on. rbind (if on then imp path s else Inr s) (process_imports imp stmts)))"
      using Cons.IH by (intro alike_read alike_rbind) (simp_all add: enabled_relaxed)
    then show ?thesis by (simp add: st SImport p)
  qed (use Cons.IH in \<open>simp_all add: st\<close>)
qed

lemma alike_file:
  assumes "\<And>path. alike (imp path)"
  shows "alike (process_file fs imp stmts)"
  unfolding process_file_def [abs_def]
  by (intro alike_rbind alike_imports alike_collect alike_finalize alike_statements assms)

text \<open>An import changes the base path and restores it.\<close>

lemma alike_scoped:
  assumes f: "alike f"
  shows "alike (\<lambda>s. rbind (f (s\<lparr>rs_imported := insert c (rs_imported s), rs_base := c\<rparr>)) (\<lambda>s'. Inr (s'\<lparr>rs_base := rs_base s\<rparr>)))"
proof -
  let ?u = "\<lambda>s. s\<lparr>rs_imported := insert c (rs_imported s), rs_base := c\<rparr>"
  have u: "alike (\<lambda>s. Inr (?u s))" by (rule alike_update) (simp_all add: relaxed_def)
  have restore: "alike (\<lambda>s'. Inr (s'\<lparr>rs_base := b\<rparr>))" for b by (rule alike_update) (simp_all add: relaxed_def)
  have "alike (\<lambda>s. rbind (rbind (Inr (?u s)) f) (\<lambda>s'. Inr (s'\<lparr>rs_base := b\<rparr>)))" for b
    by (intro alike_rbind u f restore)
  then have "alike (\<lambda>s. rbind (Inr (rs_base s)) (\<lambda>b. rbind (rbind (Inr (?u s)) f) (\<lambda>s'. Inr (s'\<lparr>rs_base := b\<rparr>))))"
    by (rule alike_read [rotated]) simp
  then show ?thesis by simp
qed

lemma alike_import: "alike (process_import n fs path)"
proof (induction n arbitrary: path)
  case 0
  then show ?case by (simp add: alike_Inl)
next
  case (Suc n)
  have body: "alike (\<lambda>s. rbind (load_import fs path c) (\<lambda>prog.
      rbind (process_file fs (process_import n fs) (pg_statements prog)
        (s\<lparr>rs_imported := insert c (rs_imported s), rs_base := c\<rparr>)) (\<lambda>s'. Inr (s'\<lparr>rs_base := rs_base s\<rparr>))))" for c
    by (intro alike_read alike_scoped alike_file Suc.IH) simp
  have "alike (\<lambda>s. rbind (Inr (fs_resolve fs (rs_base s) path)) (\<lambda>r. case r of
      Inl e \<Rightarrow> Inl (RErr (CeIo (''resolve import path '' @ squote # path @ [squote]) e))
    | Inr c \<Rightarrow> if c \<in> rs_imported s then Inr s
        else rbind (load_import fs path c) (\<lambda>prog.
          rbind (process_file fs (process_import n fs) (pg_statements prog)
            (s\<lparr>rs_imported := insert c (rs_imported s), rs_base := c\<rparr>)) (\<lambda>s'. Inr (s'\<lparr>rs_base := rs_base s\<rparr>)))))"
  proof (rule alike_read)
    fix r :: "string + string"
    show "alike (\<lambda>s. case r of
      Inl e \<Rightarrow> Inl (RErr (CeIo (''resolve import path '' @ squote # path @ [squote]) e))
    | Inr c \<Rightarrow> if c \<in> rs_imported s then Inr s
        else rbind (load_import fs path c) (\<lambda>prog.
          rbind (process_file fs (process_import n fs) (pg_statements prog)
            (s\<lparr>rs_imported := insert c (rs_imported s), rs_base := c\<rparr>)) (\<lambda>s'. Inr (s'\<lparr>rs_base := rs_base s\<rparr>))))"
      by (cases r) (simp_all add: alike_Inl alike_if alike_Inr body)
  qed simp
  then show ?case by (simp add: fun_eq_iff [symmetric] process_import.simps(2) [abs_def])
qed

lemma alike_program: "alike (process_file fs (process_import n fs) stmts)"
  by (intro alike_file alike_import)

lemma strict_lenient:
  "resolve_with False fuel fs rx keys base prog cli_vars = Inr cfg \<longleftrightarrow>
     resolve_with True fuel fs rx keys base prog cli_vars = Inr cfg \<and> rc_missing cfg = []"
proof -
  let ?s = "(resolver_new fs base cli_vars)\<lparr>rs_lenient := False\<rparr>"
  let ?run = "process_file fs (process_import fuel fs) (pg_statements prog)"
  have start: "(resolver_new fs base cli_vars)\<lparr>rs_lenient := True\<rparr> = relaxed ?s" by (simp add: relaxed_def)
  have keeps: "keeps_mode ?run" using alike_program by (simp add: alike_def)
  have "(\<exists>t. ?run ?s = Inr t \<and> Q (rs_plan t) (rs_gets t) (rs_missing t)) \<longleftrightarrow>
      (\<exists>u. ?run (relaxed ?s) = Inr u \<and> Q (rs_plan u) (rs_gets u) (rs_missing u) \<and> rs_missing u = [])" for Q
  proof
    assume "\<exists>t. ?run ?s = Inr t \<and> Q (rs_plan t) (rs_gets t) (rs_missing t)"
    then obtain t where t: "?run ?s = Inr t" "Q (rs_plan t) (rs_gets t) (rs_missing t)" by blast
    have m: "rs_missing t = []" "\<not> rs_lenient t"
      using keeps_modeD [OF keeps t(1)] by (simp_all add: resolver_new_def)
    then have "?run (relaxed ?s) = Inr (relaxed t)"
      using alike_iff [OF alike_program, of ?s t] t(1) by (simp add: resolver_new_def)
    then show "\<exists>u. ?run (relaxed ?s) = Inr u \<and> Q (rs_plan u) (rs_gets u) (rs_missing u) \<and> rs_missing u = []"
      using t(2) m(1) by (intro exI [of _ "relaxed t"]) simp
  next
    assume "\<exists>u. ?run (relaxed ?s) = Inr u \<and> Q (rs_plan u) (rs_gets u) (rs_missing u) \<and> rs_missing u = []"
    then obtain u where u: "?run (relaxed ?s) = Inr u" "Q (rs_plan u) (rs_gets u) (rs_missing u)" "rs_missing u = []" by blast
    obtain t where t: "u = relaxed t" "\<not> rs_lenient t" using keeps_modeD(1) [OF keeps u(1)] by (auto elim: relaxed_cases)
    have "?run ?s = Inr t"
      using alike_iff [OF alike_program, of ?s t] u t by (simp add: resolver_new_def)
    then show "\<exists>t. ?run ?s = Inr t \<and> Q (rs_plan t) (rs_gets t) (rs_missing t)" using u(2) t(1) by auto
  qed
  from this [of "\<lambda>p g m. validate_plan rx (keys p) p g = Inr () \<and> cfg = \<lparr>rc_plan = p, rc_gets = g, rc_missing = m\<rparr>"]
  show ?thesis unfolding resolve_with_def resolve_program_def start by (auto simp: rbind_Inr_iff)
qed

text \<open>C17: resolution succeeds exactly when the check mode does without reporting a missing variable, and then both
  build the same configuration.\<close>

theorem strict_iff_lenient:
  "resolve_with False fuel fs rx keys base prog cli_vars = Inr cfg \<longleftrightarrow>
     resolve_with True fuel fs rx keys base prog cli_vars = Inr cfg \<and> rc_missing cfg = []"
  by (rule strict_lenient)

section \<open>A resolved plan is consistent\<close>

lemma rmap_all: "rmap f xs = Inr ys \<Longrightarrow> x \<in> set xs \<Longrightarrow> \<exists>y. f x = Inr y"
  by (induction xs arbitrary: ys) (auto simp: rbind_Inr_iff)


definition tiny_program :: program where
  "tiny_program = \<lparr>pg_statements =
     [(\<lparr>st_attribute = None, st_kind = SFaker \<lparr>fd_name = (''f'', mk_span 6 7), fd_source = FArray []\<rparr>\<rparr>, mk_span 0 12),
      (\<lparr>st_attribute = None, st_kind = SAnonymize \<lparr>ab_table = (''t'', mk_span 0 0),
         ab_rules = [(\<lparr>ar_column = (''c'', mk_span 0 0), ar_target = AFaker (''f'', mk_span 0 0)\<rparr>, mk_span 0 0)]\<rparr>\<rparr>,
       mk_span 0 12)]\<rparr>"


end
