(* ===== verification/LocalDb.thy ===== *)
theory LocalDb
  imports Wire
begin

text \<open>
  The client's side of the local database: the statements it generates and executes
  (\<open>crates/client/src/sql.rs\<close>, the statements of \<open>loader.rs\<close>).

  An \<open>anyhow::Error\<close> is its text.  The database is a parameter: a function from the statements a
  connection has executed so far and the next one to an error or a reply, so that a reply may
  depend on everything the client did before.  The state of a connection is the list of its
  statements, failed ones included.  A reply has the rows of the result, each value as the text
  the protocol carries, and the number of affected rows.
\<close>

section \<open>Steps of the client\<close>

type_synonym ('s, 'a) cstep = "'s \<Rightarrow> (string + 'a) \<times> 's"

definition cret :: "'a \<Rightarrow> ('s, 'a) cstep" where "cret x s = (Inr x, s)"
definition clift :: "string + 'a \<Rightarrow> ('s, 'a) cstep" where "clift r s = (r, s)"

definition cbind :: "('s, 'a) cstep \<Rightarrow> ('a \<Rightarrow> ('s, 'b) cstep) \<Rightarrow> ('s, 'b) cstep" where
  "cbind m f s = (case m s of (Inl e, s') \<Rightarrow> (Inl e, s') | (Inr x, s') \<Rightarrow> f x s')"

fun ceach :: "('a \<Rightarrow> ('s, unit) cstep) \<Rightarrow> 'a list \<Rightarrow> ('s, unit) cstep" where
  "ceach f [] = cret ()"
| "ceach f (x # xs) = cbind (f x) (\<lambda>_. ceach f xs)"

definition cget :: "('s \<Rightarrow> 'a) \<Rightarrow> ('s, 'a) cstep" where "cget f s = (Inr (f s), s)"
definition cput :: "('s \<Rightarrow> 's) \<Rightarrow> ('s, unit) cstep" where "cput f s = (Inr (), f s)"

named_theorems client_rules \<open>successful runs of the client's steps\<close>

lemma cret_Inr [client_rules]: "cret x s = (Inr y, s') \<longleftrightarrow> y = x \<and> s' = s"
  by (auto simp: cret_def)

lemma clift_Inr [client_rules]: "clift r s = (Inr y, s') \<longleftrightarrow> r = Inr y \<and> s' = s"
  by (auto simp: clift_def)

lemma cbind_Inr [client_rules]:
  "cbind m f s = (Inr y, s'') \<longleftrightarrow> (\<exists>x s'. m s = (Inr x, s') \<and> f x s' = (Inr y, s''))"
  by (auto simp: cbind_def split: prod.splits sum.splits)

lemma cget_Inr [client_rules]: "cget f s = (Inr y, s') \<longleftrightarrow> y = f s \<and> s' = s"
  by (auto simp: cget_def)

lemma cput_Inr [client_rules]: "cput f s = (Inr y, s') \<longleftrightarrow> s' = f s"
  by (auto simp: cput_def)

text \<open>A relation between the state before and the state after that every step keeps, failing ones included.\<close>

definition steps :: "('s \<Rightarrow> 's \<Rightarrow> bool) \<Rightarrow> ('s, 'a) cstep \<Rightarrow> bool" where
  "steps R m \<longleftrightarrow> (\<forall>s. R s (snd (m s)))"

lemma stepsI: "(\<And>s. R s (snd (m s))) \<Longrightarrow> steps R m"
  by (simp add: steps_def)

lemma stepsD: "steps R m \<Longrightarrow> m s = (r, s') \<Longrightarrow> R s s'"
  by (metis steps_def snd_conv)

lemma steps_cbind:
  assumes "steps R m" "\<And>x. steps R (f x)" "transp R"
  shows "steps R (cbind m f)"
proof (rule stepsI)
  fix s
  obtain r s1 where m: "m s = (r, s1)" by force
  have "R s s1" using assms(1) m by (rule stepsD)
  then show "R s (snd (cbind m f s))"
    using assms(2,3) by (cases r) (auto simp: cbind_def m steps_def dest: transpD)
qed

lemma steps_pure: "reflp R \<Longrightarrow> steps R (cret x)" "reflp R \<Longrightarrow> steps R (clift r)" "reflp R \<Longrightarrow> steps R (cget g)"
  by (auto simp: steps_def cret_def clift_def cget_def reflp_def)

lemma steps_ceach:
  "(\<And>x. x \<in> set xs \<Longrightarrow> steps R (f x)) \<Longrightarrow> reflp R \<Longrightarrow> transp R \<Longrightarrow> steps R (ceach f xs)"
  by (induction xs) (auto intro: steps_cbind steps_pure)

section \<open>A connection\<close>

record reply =
  rp_rows :: "string list list"
  rp_affected :: u64

datatype statement =
    Query string
  | LoadInfile string bytes
  | Batch string "string list list"

type_synonym database = "statement list \<Rightarrow> statement \<Rightarrow> string + reply"

definition execute :: "database \<Rightarrow> statement \<Rightarrow> (statement list, reply) cstep" where
  "execute db q log = (db log q, log @ [q])"

definition query_drop :: "database \<Rightarrow> string \<Rightarrow> (statement list, unit) cstep" where
  "query_drop db sql = cbind (execute db (Query sql)) (\<lambda>_. cret ())"

definition query_rows :: "database \<Rightarrow> string \<Rightarrow> (statement list, string list list) cstep" where
  "query_rows db sql = cbind (execute db (Query sql)) (\<lambda>r. cret (rp_rows r))"

text \<open>\<open>query_map\<close> and \<open>query_first\<close> with one column per row; a count is a number in decimal.\<close>

definition query_names :: "database \<Rightarrow> string \<Rightarrow> (statement list, string list) cstep" where
  "query_names db sql = cbind (query_rows db sql) (\<lambda>rows. cret (map hd rows))"

definition query_first :: "database \<Rightarrow> string \<Rightarrow> (statement list, string option) cstep" where
  "query_first db sql =
     cbind (query_rows db sql) (\<lambda>rows. cret (case rows of [] \<Rightarrow> None | row # _ \<Rightarrow> Some (hd row)))"

definition query_count :: "database \<Rightarrow> string \<Rightarrow> (statement list, u64 option) cstep" where
  "query_count db sql = cbind (query_first db sql) (\<lambda>r. cret (Option.bind r parse_u64))"

text \<open>A connection only ever gets longer.\<close>

definition extends :: "'a list \<Rightarrow> 'a list \<Rightarrow> bool" where "extends xs ys \<longleftrightarrow> (\<exists>zs. ys = xs @ zs)"

lemma extends_rules: "reflp extends" "transp extends"
  by (auto simp: reflp_def transp_def extends_def)

lemma steps_execute [simp]: "steps extends (execute db q)"
  by (auto simp: steps_def execute_def extends_def)

lemma steps_query [simp]:
  "steps extends (query_drop db sql)" "steps extends (query_rows db sql)"
  "steps extends (query_names db sql)" "steps extends (query_first db sql)"
  "steps extends (query_count db sql)"
  by (auto simp: query_drop_def query_rows_def query_names_def query_first_def query_count_def
      intro!: steps_cbind steps_pure extends_rules)

lemma query_drop_Inr [client_rules]:
  "query_drop db sql log = (Inr u, log') \<longleftrightarrow> (\<exists>r. db log (Query sql) = Inr r) \<and> log' = log @ [Query sql]"
  by (auto simp: query_drop_def execute_def client_rules)

lemma query_names_Inr [client_rules]:
  "query_names db sql log = (Inr xs, log') \<longleftrightarrow>
     (\<exists>r. db log (Query sql) = Inr r \<and> xs = map hd (rp_rows r)) \<and> log' = log @ [Query sql]"
  by (auto simp: query_names_def query_rows_def execute_def client_rules)

lemma query_first_Inr [client_rules]:
  "query_first db sql log = (Inr x, log') \<longleftrightarrow>
     (\<exists>r. db log (Query sql) = Inr r \<and> x = (case rp_rows r of [] \<Rightarrow> None | row # _ \<Rightarrow> Some (hd row))) \<and>
     log' = log @ [Query sql]"
  by (auto simp: query_first_def query_rows_def execute_def client_rules)

section \<open>Values as SQL literals\<close>

definition sql_quoted :: "string \<Rightarrow> string" where
  "sql_quoted s = squote # replace_all [squote] [squote, squote] s @ [squote]"

fun value_to_sql :: "plan_value \<Rightarrow> string" where
  "value_to_sql (PvString s) = sql_quoted s"
| "value_to_sql (PvStringArray xs) = join '', '' (map sql_quoted xs)"
| "value_to_sql (PvInt i) = i64_string i"
| "value_to_sql (PvIntArray xs) = join '', '' (map i64_string xs)"
| "value_to_sql (PvFloat f) = f64_string f"
| "value_to_sql (PvFloatArray xs) = join '', '' (map f64_string xs)"
| "value_to_sql (PvBool b) = (if b then ''1'' else ''0'')"
| "value_to_sql (PvBoolArray xs) = join '', '' (map (\<lambda>b. if b then ''1'' else ''0'') xs)"
| "value_to_sql PvNull = ''NULL''"

section \<open>Tables\<close>

definition column_ddl :: "table_options \<Rightarrow> plan_anonymize_rule list option \<Rightarrow> column_def \<Rightarrow> string" where
  "column_ddl options anon_rules col =
     (let collate = (case cd_collation col of
            None \<Rightarrow> []
          | Some c \<Rightarrow> if to_collation options \<noteq> Some c then '' COLLATE '' @ c else []);
          is_anonymized_to_null = (case anon_rules of
            None \<Rightarrow> False
          | Some rules \<Rightarrow> list_ex (\<lambda>r. an_column r = cd_name col \<and> an_target r = ToNull) rules)
      in bquoted (cd_name col) @ '' '' @ cd_full_type col @ collate @
         (if \<not> cd_nullable col \<and> \<not> is_anonymized_to_null then '' NOT NULL'' else []) @
         (if cf_auto_increment (cd_flags col) then '' AUTO_INCREMENT'' else []))"

definition index_column_ddl :: "index_column \<Rightarrow> string" where
  "index_column_ddl c =
     (case ic_expression c of
        Some expr \<Rightarrow> ''('' @ expr @ '')''
      | None \<Rightarrow>
          bquoted (ic_name c) @
          (case ic_prefix_len c of Some len \<Rightarrow> ''('' @ nat_string (unat len) @ '')'' | None \<Rightarrow> []) @
          (if ic_descending c then '' DESC'' else []))"

definition index_ddl :: "index_def \<Rightarrow> string" where
  "index_ddl idx =
     (let keyword = (if ix_unique idx then ''UNIQUE KEY''
                     else (case ix_kind idx of Fulltext \<Rightarrow> ''FULLTEXT KEY'' | Spatial \<Rightarrow> ''SPATIAL KEY'' | _ \<Rightarrow> ''KEY''));
          cols = join '', '' (map index_column_ddl (ix_columns idx));
          using = (if ix_kind idx = Hash then '' USING HASH'' else [])
      in keyword @ '' '' @ bquoted (ix_name idx) @ '' ('' @ cols @ '')'' @ using)"

definition primary_key_ddl :: "column_def list \<Rightarrow> string list" where
  "primary_key_ddl columns =
     (let pk_cols = map cd_name (filter cd_is_primary_key columns) in
      if pk_cols \<noteq> [] then [''PRIMARY KEY ('' @ join '', '' (map bquoted pk_cols) @ '')''] else [])"

definition option_ddl :: "string \<Rightarrow> string option \<Rightarrow> string" where
  "option_ddl keyword v = (case v of Some s \<Rightarrow> keyword @ s | None \<Rightarrow> [])"

definition create_table_sql ::
  "string \<Rightarrow> column_def list \<Rightarrow> index_def list \<Rightarrow> table_options \<Rightarrow> plan_anonymize_rule list option \<Rightarrow> string" where
  "create_table_sql table columns indexes options anon_rules =
     ''CREATE TABLE '' @ bquoted table @ '' ('' @ [newline] @ ''  '' @
     join ('','' @ [newline] @ ''  '')
       (map (column_ddl options anon_rules) columns @ primary_key_ddl columns @ map index_ddl indexes) @
     [newline] @ '')'' @
     option_ddl '' ENGINE='' (to_engine options) @ option_ddl '' DEFAULT CHARSET='' (to_charset options) @
     option_ddl '' COLLATE='' (to_collation options) @ option_ddl '' ROW_FORMAT='' (to_row_format options)"

definition drop_table_sql :: "string \<Rightarrow> string" where
  "drop_table_sql table = ''DROP TABLE IF EXISTS '' @ bquoted table"

definition create_table ::
  "database \<Rightarrow> string \<Rightarrow> column_def list \<Rightarrow> index_def list \<Rightarrow> table_options \<Rightarrow> plan_anonymize_rule list option \<Rightarrow>
     (statement list, unit) cstep" where
  "create_table db table columns indexes options anon_rules =
     cbind (query_drop db (drop_table_sql table)) (\<lambda>_.
     query_drop db (create_table_sql table columns indexes options anon_rules))"

section \<open>Set blocks\<close>

definition assignment_sql :: "plan_assignment \<Rightarrow> string" where
  "assignment_sql a = bquoted (pa_column a) @ '' = '' @ value_to_sql (pa_value a)"

definition set_where :: "set_rule \<Rightarrow> string" where
  "set_where r = join '' AND '' (map assignment_sql (sr_match r))"

definition set_select_sql :: "set_rule \<Rightarrow> string" where
  "set_select_sql r = ''SELECT 1 FROM '' @ bquoted (sr_table r) @ '' WHERE '' @ set_where r @ '' LIMIT 1''"

definition set_update_sql :: "set_rule \<Rightarrow> string" where
  "set_update_sql r =
     ''UPDATE '' @ bquoted (sr_table r) @ '' SET '' @ join '', '' (map assignment_sql (sr_assignments r)) @
     '' WHERE '' @ set_where r"

definition set_insert_sql :: "set_rule \<Rightarrow> string" where
  "set_insert_sql r =
     (let all_assignments = sr_match r @ sr_assignments r in
      ''INSERT INTO '' @ bquoted (sr_table r) @ '' ('' @
      join '', '' (map (\<lambda>a. bquoted (pa_column a)) all_assignments) @ '') VALUES ('' @
      join '', '' (map (\<lambda>a. value_to_sql (pa_value a)) all_assignments) @ '')'')"

definition execute_set_block :: "database \<Rightarrow> set_rule \<Rightarrow> (statement list, unit) cstep" where
  "execute_set_block db r =
     cbind (query_first db (set_select_sql r)) (\<lambda>exists.
     if exists \<noteq> None then
       (if sr_assignments r \<noteq> [] then query_drop db (set_update_sql r) else cret ())
     else query_drop db (set_insert_sql r))"

section \<open>Loading rows\<close>

text \<open>The infile handler hands the bytes over, so a load is the statement together with its data.\<close>

definition load_tsv_data ::
  "database \<Rightarrow> string \<Rightarrow> column_def list \<Rightarrow> bytes \<Rightarrow> (statement list, u64) cstep" where
  "load_tsv_data db table columns tsv_data =
     (if tsv_data = [] then cret 0
      else cbind (execute db (LoadInfile (build_load_data_sql table columns) tsv_data)) (\<lambda>r. cret (rp_affected r)))"

lemma steps_sql [simp]:
  "steps extends (create_table db t cols ix op an)" "steps extends (execute_set_block db r)"
  "steps extends (load_tsv_data db t cols d)"
  by (auto simp: create_table_def execute_set_block_def load_tsv_data_def
      intro!: steps_cbind steps_pure extends_rules)

section \<open>What MySQL reads\<close>

text \<open>
  A string literal as MySQL documents it (without \<open>NO_BACKSLASH_ESCAPES\<close>, which the client does
  not set): a doubled quote is a quote, a backslash starts an escape sequence, and a single quote
  ends the literal.  The result is the value and what follows the literal.
\<close>

definition escape_meaning :: "char \<Rightarrow> string" where
  "escape_meaning c =
     (if c = CHR ''0'' then [nulchar] else if c = CHR ''n'' then [newline]
      else if c = CHR ''r'' then [creturn] else if c = CHR ''t'' then [tabchar]
      else if c = CHR ''b'' then [CHR 0x08] else if c = CHR ''Z'' then [CHR 0x1A]
      else if c = CHR ''%'' \<or> c = CHR ''_'' then [backslash, c] else [c])"

fun read_quoted :: "string \<Rightarrow> (string \<times> string) option" where
  "read_quoted [] = None"
| "read_quoted [c] = (if c = squote then Some ([], []) else None)"
| "read_quoted (c # d # cs) =
     (if c = squote then
        (if d = squote then map_option (apfst (Cons squote)) (read_quoted cs) else Some ([], d # cs))
      else if c = backslash then map_option (apfst (append (escape_meaning d))) (read_quoted cs)
      else map_option (apfst (Cons c)) (read_quoted (d # cs)))"

fun read_literal :: "string \<Rightarrow> (string \<times> string) option" where
  "read_literal [] = None"
| "read_literal (c # cs) = (if c = squote then read_quoted cs else None)"

fun doubled :: "char \<Rightarrow> string \<Rightarrow> string" where
  "doubled q [] = []"
| "doubled q (c # cs) = (if c = q then [q, q] else [c]) @ doubled q cs"

lemma doubled_append: "doubled q (xs @ ys) = doubled q xs @ doubled q ys"
  by (induction xs) auto

lemma doubled_clean: "q \<notin> set xs \<Longrightarrow> doubled q xs = xs"
  by (induction xs) auto

lemma find_single: "find_sub [q] s = (if q \<in> set s then Some (length (takeWhile (\<lambda>c. c \<noteq> q) s)) else None)"
  by (induction s) auto

lemma replace_doubled: "replace_all [q] [q, q] s = doubled q s"
proof (induction "length s" arbitrary: s rule: less_induct)
  case less
  show ?case
  proof (cases "q \<in> set s")
    case False
    then show ?thesis by (simp add: replace_all_none find_single doubled_clean)
  next
    case True
    let ?p = "takeWhile (\<lambda>c. c \<noteq> q) s"
    obtain t where s: "s = ?p @ q # t"
    proof -
      have "dropWhile (\<lambda>c. c \<noteq> q) s \<noteq> []" using True by (auto simp: dropWhile_eq_Nil_conv)
      then obtain c t where d: "dropWhile (\<lambda>c. c \<noteq> q) s = c # t" by (cases "dropWhile (\<lambda>c. c \<noteq> q) s") auto
      then have "c = q" using hd_dropWhile [of "\<lambda>c. c \<noteq> q" s] by simp
      then have "s = ?p @ q # t" using takeWhile_dropWhile_id [of "\<lambda>c. c \<noteq> q" s] d by simp
      then show thesis by (rule that)
    qed
    have clean: "q \<notin> set ?p" using set_takeWhileD by fastforce
    have f: "find_sub [q] s = Some (length ?p)" using True by (simp add: find_single)
    have d: "drop (length ?p + 1) s = t" and tk: "take (length ?p) s = ?p"
      by (subst s, simp)+
    have lt: "length t < length s" by (subst s) simp
    have "replace_all [q] [q, q] s = ?p @ [q, q] @ doubled q t"
      using replace_all_some [OF _ f, of "[q, q]"] d tk less.hyps [OF lt] by simp
    also have "\<dots> = doubled q (?p @ q # t)"
      using clean by (simp add: doubled_append doubled_clean)
    finally show ?thesis using s by simp
  qed
qed

lemma read_doubled:
  assumes "backslash \<notin> set s" "rest = [] \<or> hd rest \<noteq> squote"
  shows "read_quoted (doubled squote s @ squote # rest) = Some (s, rest)"
  using assms(1)
proof (induction s)
  case Nil
  then show ?case using assms(2) by (cases rest) auto
next
  case (Cons c s)
  then have ih: "read_quoted (doubled squote s @ squote # rest) = Some (s, rest)" by simp
  obtain d ds where d: "doubled squote s @ squote # rest = d # ds" by (cases "doubled squote s @ squote # rest") auto
  show ?case using Cons.prems ih d by auto
qed

text \<open>The literal the client writes for a string is read back by MySQL as that string and ends where the
  client ends it, whatever follows, as long as the string has no backslash: the escaping doubles
  quotes and nothing else.\<close>

lemma string_literal_roundtrip:
  assumes "backslash \<notin> set s" "rest = [] \<or> hd rest \<noteq> squote"
  shows "read_literal (value_to_sql (PvString s) @ rest) = Some (s, rest)"
  using read_doubled [OF assms] by (simp add: sql_quoted_def replace_doubled)

lemma string_literal_roundtrip_witness:
  "read_literal (value_to_sql (PvString (''O'' @ [squote] @ ''Brien'')) @ '', 1'') =
     Some (''O'' @ [squote] @ ''Brien'', '', 1'')"
  by (rule string_literal_roundtrip) auto

text \<open>
  A backslash is not escaped: a value that ends in one takes the closing quote with it, and after
  a backslash and a quote the literal ends early, so that the rest of the value is read as SQL.
\<close>

lemma backslash_breaks_literal:
  "read_literal (value_to_sql (PvString [backslash])) = None"
  "read_literal (value_to_sql (PvString ([backslash, squote] @ '' OR 1=1 -- ''))) =
     Some ([squote], '' OR 1=1 -- '' @ [squote])"
  by (simp_all add: sql_quoted_def replace_doubled escape_meaning_def)

text \<open>A set block looks for its row once, and then updates it, leaves it or inserts it.\<close>

lemma set_block_statements:
  assumes "execute_set_block db r log = (Inr u, log')"
  shows "log' = log @ Query (set_select_sql r) #
      (case db log (Query (set_select_sql r)) of
         Inr rp \<Rightarrow> if rp_rows rp = [] then [Query (set_insert_sql r)]
           else if sr_assignments r = [] then [] else [Query (set_update_sql r)]
       | Inl e \<Rightarrow> [])"
proof -
  obtain rp where rp: "db log (Query (set_select_sql r)) = Inr rp"
    using assms by (auto simp: execute_set_block_def client_rules)
  show ?thesis
    using assms by (cases "rp_rows rp") (auto simp: execute_set_block_def client_rules rp split: if_splits)
qed

end
