(* ===== verification/Checkpoint.thy ===== *)
theory Checkpoint
  imports LocalDb
begin

text \<open>
  State the client keeps in the local database: the checkpoint table and the backup tables of
  preserved rows (\<open>crates/client/src/checkpoint.rs\<close>), and the store of the foreign keys it drops for
  the time of an import (\<open>crates/client/src/foreign_keys.rs\<close>).  Log messages are not modelled.
  The order in which a hash map is drained is a parameter.
\<close>

section \<open>Names\<close>

definition BACKUP_TABLE_PREFIX :: string where "BACKUP_TABLE_PREFIX = ''_jibs_preserve_''"
definition CHECKPOINT_TABLE :: string where "CHECKPOINT_TABLE = ''_jibs_checkpoint''"
definition FK_STORE_TABLE :: string where "FK_STORE_TABLE = ''_jibs_foreign_keys''"

definition preserve_backup_table :: "string \<Rightarrow> string" where
  "preserve_backup_table table = BACKUP_TABLE_PREFIX @ table"

definition tables_sql :: string where
  "tables_sql = ''SELECT TABLE_NAME FROM information_schema.TABLES WHERE TABLE_SCHEMA = DATABASE()''"

definition find_backup_tables :: "database \<Rightarrow> (statement list, string list) cstep" where
  "find_backup_tables db =
     cbind (query_names db tables_sql) (\<lambda>tables.
     cret (filter (\<lambda>t. starts_with t BACKUP_TABLE_PREFIX) tables))"

definition strip_prefix :: "string \<Rightarrow> string \<Rightarrow> string option" where
  "strip_prefix p s = (if starts_with s p then Some (drop (length p) s) else None)"

definition backed_up_table :: "string \<Rightarrow> string" where
  "backed_up_table backup_table =
     (case strip_prefix BACKUP_TABLE_PREFIX backup_table of Some t \<Rightarrow> t | None \<Rightarrow> backup_table)"

text \<open>Does a table exist: the query on the catalogue, with the name in single quotes.\<close>

definition table_exists_sql :: "string \<Rightarrow> string" where
  "table_exists_sql table = tables_sql @ '' AND TABLE_NAME = '' @ [squote] @ table @ [squote]"

definition table_exists :: "database \<Rightarrow> string \<Rightarrow> (statement list, bool) cstep" where
  "table_exists db table = cbind (query_first db (table_exists_sql table)) (\<lambda>r. cret (r \<noteq> None))"

section \<open>The checkpoint\<close>

definition checkpoint_exists :: "database \<Rightarrow> (statement list, bool) cstep" where
  "checkpoint_exists db = table_exists db CHECKPOINT_TABLE"

definition checkpoint_create_sql :: string where
  "checkpoint_create_sql =
     ''CREATE TABLE IF NOT EXISTS '' @ bquoted CHECKPOINT_TABLE @ '' ('' @ [newline] @
     ''                table_name VARCHAR(255) PRIMARY KEY,'' @ [newline] @
     ''                row_count BIGINT UNSIGNED NOT NULL,'' @ [newline] @
     ''                completed_at TIMESTAMP DEFAULT CURRENT_TIMESTAMP'' @ [newline] @
     ''            )''"

definition checkpoint_create :: "database \<Rightarrow> (statement list, unit) cstep" where
  "checkpoint_create db = query_drop db checkpoint_create_sql"

definition completed_sql :: string where
  "completed_sql = ''SELECT table_name FROM '' @ bquoted CHECKPOINT_TABLE"

definition get_completed :: "database \<Rightarrow> (statement list, string set) cstep" where
  "get_completed db =
     cbind (checkpoint_exists db) (\<lambda>exists.
     if \<not> exists then cret {}
     else cbind (query_names db completed_sql) (\<lambda>tables. cret (set tables)))"

definition mark_sql :: "string \<Rightarrow> u64 \<Rightarrow> string" where
  "mark_sql table row_count =
     ''INSERT INTO '' @ bquoted CHECKPOINT_TABLE @ '' (table_name, row_count) VALUES ('' @ [squote] @ table @
     [squote] @ '', '' @ u64_string row_count @ '')''"

definition mark_complete :: "database \<Rightarrow> string \<Rightarrow> u64 \<Rightarrow> (statement list, unit) cstep" where
  "mark_complete db table row_count = query_drop db (mark_sql table row_count)"

definition checkpoint_cleanup :: "database \<Rightarrow> (statement list, unit) cstep" where
  "checkpoint_cleanup db = query_drop db (drop_table_sql CHECKPOINT_TABLE)"

section \<open>Preserved rows\<close>

definition count_sql :: "string \<Rightarrow> string" where
  "count_sql table = ''SELECT COUNT(*) FROM '' @ bquoted table"

definition backup_sql :: "string \<Rightarrow> preserve_rule list \<Rightarrow> string" where
  "backup_sql table rules =
     ''CREATE TABLE '' @ bquoted (preserve_backup_table table) @ '' AS SELECT * FROM '' @ bquoted table @
     '' WHERE '' @ join '' OR '' (map (\<lambda>p. ''('' @ pr_where p @ '')'') rules)"

definition drop_sql :: "string \<Rightarrow> string" where
  "drop_sql table = ''DROP TABLE '' @ bquoted table"

definition backup_preserved_rows ::
  "database \<Rightarrow> string \<Rightarrow> preserve_rule list \<Rightarrow> (statement list, bool) cstep" where
  "backup_preserved_rows db table rules =
     (let backup_table = preserve_backup_table table in
      cbind (table_exists db backup_table) (\<lambda>backup_exists.
      if backup_exists then cbind (query_count db (count_sql backup_table)) (\<lambda>_. cret True)
      else
        cbind (table_exists db table) (\<lambda>table_exists.
        if \<not> table_exists then cret False
        else
          cbind (query_drop db (backup_sql table rules)) (\<lambda>_.
          cbind (query_count db (count_sql backup_table)) (\<lambda>count.
          let row_count = (case count of Some n \<Rightarrow> n | None \<Rightarrow> 0) in
          if row_count = 0 then cbind (query_drop db (drop_sql backup_table)) (\<lambda>_. cret False)
          else cret True)))))"

definition columns_sql :: "string \<Rightarrow> string" where
  "columns_sql table = ''SHOW COLUMNS FROM '' @ bquoted table"

definition restore_sql :: "string \<Rightarrow> string list \<Rightarrow> string" where
  "restore_sql table columns =
     (let col_list = join '', '' (map bquoted columns) in
      ''REPLACE INTO '' @ bquoted table @ '' ('' @ col_list @ '') SELECT '' @ col_list @ '' FROM '' @
      bquoted (preserve_backup_table table))"

definition restore_preserved_rows :: "database \<Rightarrow> string \<Rightarrow> (statement list, unit) cstep" where
  "restore_preserved_rows db table =
     (let backup_table = preserve_backup_table table in
      cbind (table_exists db backup_table) (\<lambda>backup_exists.
      if \<not> backup_exists then cret ()
      else
        cbind (query_names db (columns_sql backup_table)) (\<lambda>columns.
        if columns = [] then query_drop db (drop_sql backup_table)
        else
          cbind (query_drop db (restore_sql table columns)) (\<lambda>_.
          cbind (query_count db (count_sql backup_table)) (\<lambda>_.
          query_drop db (drop_sql backup_table))))))"

text \<open>The loop over the backup tables that ends an import and a load.\<close>

definition restore_backups :: "database \<Rightarrow> (statement list, unit) cstep" where
  "restore_backups db =
     cbind (find_backup_tables db) (\<lambda>backup_tables.
     ceach (\<lambda>backup_table. restore_preserved_rows db (backed_up_table backup_table)) backup_tables)"

section \<open>Foreign keys of the target\<close>

record local_fk =
  lf_table :: string
  lf_constraint :: string
  lf_columns :: "string list"
  lf_ref_schema :: string
  lf_ref_table :: string
  lf_ref_columns :: "string list"
  lf_update_rule :: string
  lf_delete_rule :: string

definition escape_ident :: "string \<Rightarrow> string" where
  "escape_ident name = replace_all [CHR ''`''] [CHR ''`'', CHR ''`''] name"

definition quote_list :: "string list \<Rightarrow> string" where
  "quote_list cols = join '', '' (map (\<lambda>c. bquoted (escape_ident c)) cols)"

definition fk_ddl :: "string \<Rightarrow> string \<Rightarrow> string list \<Rightarrow> string \<Rightarrow> string list \<Rightarrow> string \<Rightarrow> string \<Rightarrow> string" where
  "fk_ddl table constraint columns target ref_columns update_rule delete_rule =
     ''ALTER TABLE '' @ bquoted (escape_ident table) @ '' ADD CONSTRAINT '' @ bquoted (escape_ident constraint) @
     '' FOREIGN KEY ('' @ quote_list columns @ '') REFERENCES '' @ target @ '' ('' @
     quote_list ref_columns @ '') ON UPDATE '' @ update_rule @ '' ON DELETE '' @ delete_rule"

definition build_fk_ddl :: "local_fk \<Rightarrow> string" where
  "build_fk_ddl fk =
     fk_ddl (lf_table fk) (lf_constraint fk) (lf_columns fk)
       (bquoted (escape_ident (lf_ref_schema fk)) @ ''.'' @ bquoted (escape_ident (lf_ref_table fk)))
       (lf_ref_columns fk) (lf_update_rule fk) (lf_delete_rule fk)"

definition capture_sql :: string where
  "capture_sql =
     ''SELECT kcu.TABLE_NAME, kcu.CONSTRAINT_NAME, kcu.COLUMN_NAME, kcu.REFERENCED_TABLE_SCHEMA, kcu.REFERENCED_TABLE_NAME, kcu.REFERENCED_COLUMN_NAME, rc.UPDATE_RULE, rc.DELETE_RULE '' @
     ''FROM information_schema.KEY_COLUMN_USAGE kcu JOIN information_schema.REFERENTIAL_CONSTRAINTS rc '' @
     ''ON rc.CONSTRAINT_SCHEMA = kcu.CONSTRAINT_SCHEMA AND rc.CONSTRAINT_NAME = kcu.CONSTRAINT_NAME AND rc.TABLE_NAME = kcu.TABLE_NAME '' @
     ''WHERE kcu.TABLE_SCHEMA = DATABASE() AND kcu.REFERENCED_TABLE_NAME IS NOT NULL '' @
     ''ORDER BY kcu.TABLE_NAME, kcu.CONSTRAINT_NAME, kcu.ORDINAL_POSITION''"

text \<open>A row of the answer has the eight columns the query selects.\<close>

definition add_local_fk :: "string list \<Rightarrow> local_fk list \<Rightarrow> local_fk list" where
  "add_local_fk r defs =
     (if defs \<noteq> [] \<and> lf_table (last defs) = r ! 0 \<and> lf_constraint (last defs) = r ! 1
      then butlast defs @
        [(last defs)\<lparr>lf_columns := lf_columns (last defs) @ [r ! 2],
           lf_ref_columns := lf_ref_columns (last defs) @ [r ! 5]\<rparr>]
      else defs @
        [\<lparr>lf_table = r ! 0, lf_constraint = r ! 1, lf_columns = [r ! 2], lf_ref_schema = r ! 3,
          lf_ref_table = r ! 4, lf_ref_columns = [r ! 5], lf_update_rule = r ! 6, lf_delete_rule = r ! 7\<rparr>])"

definition capture_local_fks :: "database \<Rightarrow> (statement list, local_fk list) cstep" where
  "capture_local_fks db =
     cbind (query_rows db capture_sql) (\<lambda>rows. cret (fold add_local_fk rows []))"

section \<open>The store of dropped foreign keys\<close>

type_synonym fk_store = "string \<times> string \<rightharpoonup> string"

definition fk_store_sql :: string where
  "fk_store_sql = ''SELECT table_name, constraint_name, ddl FROM '' @ bquoted FK_STORE_TABLE"

definition store_of_rows :: "string list list \<Rightarrow> fk_store" where
  "store_of_rows rows = fold (\<lambda>r m. m((r ! 0, r ! 1) \<mapsto> r ! 2)) rows Map.empty"

definition fk_store_load :: "database \<Rightarrow> (statement list, fk_store) cstep" where
  "fk_store_load db =
     cbind (table_exists db FK_STORE_TABLE) (\<lambda>exists.
     if \<not> exists then cret Map.empty
     else cbind (query_rows db fk_store_sql) (\<lambda>rows. cret (store_of_rows rows)))"

definition fk_store_create_sql :: string where
  "fk_store_create_sql =
     ''CREATE TABLE IF NOT EXISTS '' @ bquoted FK_STORE_TABLE @ '' ('' @ [newline] @
     ''                table_name VARCHAR(255) NOT NULL,'' @ [newline] @
     ''                constraint_name VARCHAR(255) NOT NULL,'' @ [newline] @
     ''                ddl TEXT NOT NULL,'' @ [newline] @
     ''                PRIMARY KEY (table_name, constraint_name)'' @ [newline] @
     ''            )''"

definition fk_store_replace_sql :: string where
  "fk_store_replace_sql =
     ''REPLACE INTO '' @ bquoted FK_STORE_TABLE @ '' (table_name, constraint_name, ddl) VALUES (?, ?, ?)''"

type_synonym 'k order = "'k set \<Rightarrow> 'k list"

definition enumerates :: "'k order \<Rightarrow> bool" where
  "enumerates ord \<longleftrightarrow> (\<forall>A. finite A \<longrightarrow> distinct (ord A) \<and> set (ord A) = A)"

definition store_rows :: "(string \<times> string) order \<Rightarrow> fk_store \<Rightarrow> string list list" where
  "store_rows ord store = map (\<lambda>(t, c). [t, c, the (store (t, c))]) (ord (dom store))"

definition fk_store_save :: "database \<Rightarrow> (string \<times> string) order \<Rightarrow> fk_store \<Rightarrow> (statement list, unit) cstep" where
  "fk_store_save db ord store =
     cbind (query_drop db fk_store_create_sql) (\<lambda>_.
     cbind (execute db (Batch fk_store_replace_sql (store_rows ord store))) (\<lambda>_. cret ()))"

definition fk_store_cleanup :: "database \<Rightarrow> (statement list, unit) cstep" where
  "fk_store_cleanup db = query_drop db (drop_table_sql FK_STORE_TABLE)"

definition drop_fk_sql :: "local_fk \<Rightarrow> string" where
  "drop_fk_sql fk =
     ''ALTER TABLE '' @ bquoted (escape_ident (lf_table fk)) @ '' DROP FOREIGN KEY '' @
     bquoted (escape_ident (lf_constraint fk))"

definition insert_fk :: "local_fk \<Rightarrow> fk_store \<Rightarrow> fk_store" where
  "insert_fk fk store = store((lf_table fk, lf_constraint fk) \<mapsto> build_fk_ddl fk)"

definition preserve_and_drop_foreign_keys ::
  "database \<Rightarrow> (string \<times> string) order \<Rightarrow> (statement list, unit) cstep" where
  "preserve_and_drop_foreign_keys db ord =
     cbind (capture_local_fks db) (\<lambda>captured.
     cbind (fk_store_load db) (\<lambda>old.
     let store = fold insert_fk captured old in
     cbind (if dom store \<noteq> {} then fk_store_save db ord store else cret ()) (\<lambda>_.
     ceach (\<lambda>fk. query_drop db (drop_fk_sql fk)) captured)))"

text \<open>A statement whose failure is only warned about.\<close>

definition try_query :: "database \<Rightarrow> string \<Rightarrow> (statement list, unit) cstep" where
  "try_query db sql log = (Inr (), snd (query_drop db sql log))"

definition restore_foreign_keys :: "database \<Rightarrow> (string \<times> string) order \<Rightarrow> (statement list, unit) cstep" where
  "restore_foreign_keys db ord =
     cbind (fk_store_load db) (\<lambda>store.
     if dom store = {} then fk_store_cleanup db
     else
       cbind (ceach (\<lambda>k. try_query db (the (store k))) (ord (dom store))) (\<lambda>_.
       fk_store_cleanup db))"

definition build_source_fk_ddl :: "foreign_key_def \<Rightarrow> string" where
  "build_source_fk_ddl fk =
     fk_ddl (fk_table fk) (fk_constraint fk) (fk_columns fk) (bquoted (escape_ident (fk_ref_table fk)))
       (fk_ref_columns fk) (fk_update_rule fk) (fk_delete_rule fk)"

definition apply_foreign_keys :: "database \<Rightarrow> foreign_key_def list \<Rightarrow> (statement list, unit) cstep" where
  "apply_foreign_keys db foreign_keys =
     (if foreign_keys = [] then cret ()
      else ceach (\<lambda>fk. try_query db (build_source_fk_ddl fk)) foreign_keys)"

definition discard_preserved_foreign_keys :: "database \<Rightarrow> (statement list, unit) cstep" where
  "discard_preserved_foreign_keys db = fk_store_cleanup db"

lemma steps_try_query [simp]: "steps extends (try_query db sql)"
  by (rule stepsI) (use steps_query(1) [of db sql] in \<open>simp add: try_query_def steps_def\<close>)

lemma steps_state [simp]:
  "steps extends (find_backup_tables db)" "steps extends (table_exists db t)"
  "steps extends (checkpoint_exists db)" "steps extends (checkpoint_create db)"
  "steps extends (get_completed db)" "steps extends (mark_complete db t n)"
  "steps extends (checkpoint_cleanup db)" "steps extends (backup_preserved_rows db t rules)"
  "steps extends (restore_preserved_rows db t)"
  by (auto simp: find_backup_tables_def table_exists_def checkpoint_exists_def checkpoint_create_def
      get_completed_def mark_complete_def checkpoint_cleanup_def backup_preserved_rows_def
      restore_preserved_rows_def Let_def intro!: steps_cbind steps_pure extends_rules)

end
