(* ===== verification/Import.thy ===== *)
theory Import
  imports Checkpoint
begin

text \<open>
  The client's import: the loader pool (\<open>crates/client/src/loader.rs\<close>) and the protocol loop with
  its load scheduling and checkpoints (\<open>crates/client/src/protocol.rs\<close>).

  The workers of the pool are a parameter.  Work is numbered in the order of submission; the
  number stands for the receiver of its result.  For every piece of work the record \<open>workers\<close>
  says whether the pool takes it, whether its worker lives to answer, what the database answers
  to the worker, and at which of the client's non-blocking polls the answer is there.  The
  answers themselves come from the worker's code.  Progress display, timings and log messages
  are not modelled.
\<close>

section \<open>The loader pool\<close>

datatype load_work =
    CreateTable string "column_def list" "index_def list" table_options "plan_anonymize_rule list option"
  | LoadData string "column_def list" bytes compression_mode u64

record load_result =
  lr_rows :: u64
  lr_dropped :: u64

record workers =
  wk_accepts :: "nat \<Rightarrow> bool"
  wk_alive :: "nat \<Rightarrow> bool"
  wk_db :: "nat \<Rightarrow> database"
  wk_ready :: "nat \<Rightarrow> nat \<Rightarrow> bool"
  wk_unzstd :: "bytes \<Rightarrow> string + bytes"

definition saturating_sub :: "u64 \<Rightarrow> u64 \<Rightarrow> u64" where
  "saturating_sub a b = (if b \<le> a then a - b else 0)"

definition chunk_text :: "chunk_error \<Rightarrow> string" where
  "chunk_text e =
     (case e of
        InvalidCompressed \<Rightarrow> ''Invalid compressed data''
      | DecompressionFailed m \<Rightarrow> ''Decompression failed: '' @ m
      | SizeMismatch \<Rightarrow> ''Decompressed size mismatch''
      | ChunkTooLarge n \<Rightarrow> ''chunk too large to compress: '' @ nat_string n @ '' bytes (max 4294967295)'')"

definition run_create :: "database \<Rightarrow> load_work \<Rightarrow> string + unit" where
  "run_create db w =
     (case w of
        CreateTable table columns indexes options anon_rules \<Rightarrow>
          fst (create_table db table columns indexes options anon_rules [])
      | LoadData _ _ _ _ _ \<Rightarrow> Inl '''')"

definition run_load :: "database \<Rightarrow> (bytes \<Rightarrow> string + bytes) \<Rightarrow> load_work \<Rightarrow> string + load_result" where
  "run_load db unzstd w =
     (case w of
        LoadData table columns data compression expected_rows \<Rightarrow>
          rbind (map_error chunk_text (maybe_decompress unzstd data compression)) (\<lambda>decompressed.
          rbind (fst (load_tsv_data db table columns decompressed [])) (\<lambda>rows.
          Inr \<lparr>lr_rows = rows, lr_dropped = saturating_sub expected_rows rows\<rparr>))
      | CreateTable _ _ _ _ _ \<Rightarrow> Inl '''')"

text \<open>What the receiver of a piece of work yields: a result, or nothing when the worker died.\<close>

definition ddl_reply :: "workers \<Rightarrow> load_work list \<Rightarrow> nat \<Rightarrow> (string + unit) option" where
  "ddl_reply wk work k = (if wk_alive wk k then Some (run_create (wk_db wk k) (work ! k)) else None)"

definition load_reply :: "workers \<Rightarrow> load_work list \<Rightarrow> nat \<Rightarrow> (string + load_result) option" where
  "load_reply wk work k = (if wk_alive wk k then Some (run_load (wk_db wk k) (wk_unzstd wk) (work ! k)) else None)"

definition wait_for_load :: "workers \<Rightarrow> load_work list \<Rightarrow> string \<Rightarrow> nat \<Rightarrow> string + load_result" where
  "wait_for_load wk work table k =
     (case load_reply wk work k of
        Some (Inr result) \<Rightarrow> Inr result
      | Some (Inl e) \<Rightarrow> Inl (''Loader error for '' @ table @ '': '' @ e)
      | None \<Rightarrow> Inl (''Loader worker died for '' @ table))"

definition wait_ddl :: "workers \<Rightarrow> load_work list \<Rightarrow> string \<Rightarrow> nat \<Rightarrow> string + unit" where
  "wait_ddl wk work table k =
     (case ddl_reply wk work k of
        Some (Inr _) \<Rightarrow> Inr ()
      | Some (Inl e) \<Rightarrow> Inl (''DDL error for '' @ table @ '': '' @ e)
      | None \<Rightarrow> Inl (''DDL worker died for '' @ table))"

section \<open>The state of an import\<close>

definition MAX_PENDING_CHUNKS :: nat where "MAX_PENDING_CHUNKS = 100"

record import_stats =
  is_tables_imported :: nat
  is_names :: "string list"
  is_rows_imported :: u64
  is_server_metrics :: "server_metrics option"
  is_source_fks :: "foreign_key_def list"

definition no_stats :: import_stats where
  "no_stats = \<lparr>is_tables_imported = 0, is_names = [], is_rows_imported = 0, is_server_metrics = None, is_source_fks = []\<rparr>"

record import_state =
  im_log :: "statement list"
  im_sent :: "client_message list"
  im_work :: "load_work list"
  im_polls :: nat
  im_stats :: import_stats
  im_dropped :: "string \<rightharpoonup> u64"
  im_schemas :: "string \<rightharpoonup> column_def list"
  im_ddls :: "string \<rightharpoonup> nat"
  im_pending :: "(string \<times> nat) list"
  im_deferred :: "string \<rightharpoonup> u64"
  im_skipped :: "string set"
  im_preserved :: "string list"

record import_env =
  ie_db :: database
  ie_pool :: bool
  ie_workers :: workers
  ie_order :: "string order"
  ie_plan :: execution_plan
  ie_ids :: "u16 \<rightharpoonup> string"
  ie_completed :: "string set"
  ie_compression :: compression_mode
  ie_fail_after :: "nat option"

definition on_log :: "(statement list, 'a) cstep \<Rightarrow> (import_state, 'a) cstep" where
  "on_log m s = (case m (im_log s) of (r, log) \<Rightarrow> (r, s\<lparr>im_log := log\<rparr>))"

definition on_stats :: "(import_stats \<Rightarrow> import_stats) \<Rightarrow> import_state \<Rightarrow> import_state" where
  "on_stats f s = s\<lparr>im_stats := f (im_stats s)\<rparr>"

definition record_dropped :: "string \<Rightarrow> u64 \<Rightarrow> (string \<rightharpoonup> u64) \<Rightarrow> string \<rightharpoonup> u64" where
  "record_dropped table dropped m =
     (if 0 < dropped then m(table \<mapsto> (case m table of None \<Rightarrow> 0 | Some n \<Rightarrow> n) + dropped) else m)"

definition add_result :: "string \<Rightarrow> load_result \<Rightarrow> import_state \<Rightarrow> import_state" where
  "add_result table r s =
     (on_stats (\<lambda>st. st\<lparr>is_rows_imported := is_rows_imported st + lr_rows r\<rparr>) s)
       \<lparr>im_dropped := record_dropped table (lr_dropped r) (im_dropped s)\<rparr>"

text \<open>Submitting work: \<open>submit\<close> and \<open>submit_ddl\<close>.\<close>

definition submit :: "import_env \<Rightarrow> load_work \<Rightarrow> (import_state, nat) cstep" where
  "submit env w s =
     (let k = length (im_work s) in
      if wk_accepts (ie_workers env) k then (Inr k, s\<lparr>im_work := im_work s @ [w]\<rparr>)
      else (Inl ''Loader pool shut down'', s))"

datatype received = Nothing_yet | Got "string + load_result" | Gone

definition try_recv :: "import_env \<Rightarrow> nat \<Rightarrow> (import_state, received) cstep" where
  "try_recv env k s =
     (Inr (if wk_ready (ie_workers env) (im_polls s) k
           then (case load_reply (ie_workers env) (im_work s) k of Some r \<Rightarrow> Got r | None \<Rightarrow> Gone)
           else Nothing_yet), s\<lparr>im_polls := im_polls s + 1\<rparr>)"

section \<open>Finishing tables\<close>

definition check_fail_after :: "import_env \<Rightarrow> (import_state, unit) cstep" where
  "check_fail_after env s =
     (case ie_fail_after env of
        Some n \<Rightarrow>
          if n \<le> is_tables_imported (im_stats s)
          then (Inl (''[DEBUG] Simulated crash after '' @ nat_string n @ '' tables (--fail-after-tables)''), s)
          else (Inr (), s)
      | None \<Rightarrow> (Inr (), s))"

definition count_table :: "string \<Rightarrow> import_state \<Rightarrow> import_state" where
  "count_table table s =
     (on_stats (\<lambda>st. st\<lparr>is_tables_imported := is_tables_imported st + 1, is_names := is_names st @ [table]\<rparr>) s)
       \<lparr>im_schemas := (im_schemas s)(table := None)\<rparr>"

definition finalize_table :: "import_env \<Rightarrow> string \<Rightarrow> u64 \<Rightarrow> (import_state, unit) cstep" where
  "finalize_table env table row_count =
     cbind (cput (count_table table)) (\<lambda>_.
     cbind (on_log (mark_complete (ie_db env) table row_count)) (\<lambda>_.
     check_fail_after env))"

definition finalize_deferred :: "import_env \<Rightarrow> string \<Rightarrow> (import_state, unit) cstep" where
  "finalize_deferred env table =
     cbind (cget (\<lambda>s. the (im_deferred s table))) (\<lambda>row_count.
     cbind (cput (\<lambda>s. s\<lparr>im_deferred := (im_deferred s)(table := None)\<rparr>)) (\<lambda>_.
     finalize_table env table row_count))"

definition finalize_completed_tables :: "import_env \<Rightarrow> (string \<times> nat) list \<Rightarrow> (import_state, unit) cstep" where
  "finalize_completed_tables env pending_loads =
     cbind (cget im_deferred) (\<lambda>deferred.
     if dom deferred = {} then cret ()
     else
       let ready = filter (\<lambda>t. t \<notin> fst ` set pending_loads) (ie_order env (dom deferred))
       in ceach (finalize_deferred env) ready)"

fun drain_loads ::
  "import_env \<Rightarrow> (string \<times> nat) list \<Rightarrow> (string \<times> nat) list \<Rightarrow> (import_state, (string \<times> nat) list) cstep" where
  "drain_loads env [] still_pending = cret still_pending"
| "drain_loads env ((table, k) # loads) still_pending =
     cbind (try_recv env k) (\<lambda>r.
     case r of
       Got (Inr result) \<Rightarrow> cbind (cput (add_result table result)) (\<lambda>_. drain_loads env loads still_pending)
     | Got (Inl e) \<Rightarrow> clift (Inl (''Loader error for '' @ table @ '': '' @ e))
     | Nothing_yet \<Rightarrow> drain_loads env loads (still_pending @ [(table, k)])
     | Gone \<Rightarrow> clift (Inl (''Loader worker died for '' @ table)))"

definition drain_completed_loads :: "import_env \<Rightarrow> (import_state, unit) cstep" where
  "drain_completed_loads env =
     cbind (cget im_pending) (\<lambda>pending_loads.
     cbind (drain_loads env pending_loads []) (\<lambda>still_pending.
     cbind (finalize_completed_tables env still_pending) (\<lambda>_.
     cput (\<lambda>s. s\<lparr>im_pending := still_pending\<rparr>))))"

definition wait_and_add :: "import_env \<Rightarrow> string \<times> nat \<Rightarrow> (import_state, unit) cstep" where
  "wait_and_add env load =
     cbind (cget im_work) (\<lambda>work.
     cbind (clift (wait_for_load (ie_workers env) work (fst load) (snd load))) (\<lambda>result.
     cput (add_result (fst load) result)))"

definition wait_for_all_loads :: "import_env \<Rightarrow> (import_state, unit) cstep" where
  "wait_for_all_loads env =
     cbind (cget im_pending) (\<lambda>pending_loads.
     cbind (ceach (wait_and_add env) pending_loads) (\<lambda>_.
     cbind (cget im_deferred) (\<lambda>deferred.
     cbind (cput (\<lambda>s. s\<lparr>im_pending := [], im_deferred := Map.empty\<rparr>)) (\<lambda>_.
     ceach (\<lambda>table. finalize_table env table (the (deferred table))) (ie_order env (dom deferred))))))"

section \<open>Messages\<close>

definition table_name :: "import_env \<Rightarrow> u16 \<Rightarrow> string \<Rightarrow> (import_state, string) cstep" where
  "table_name env table_id what =
     clift (case ie_ids env table_id of
              Some t \<Rightarrow> Inr t
            | None \<Rightarrow> Inl (''Unknown table_id '' @ nat_string (unat table_id) @ '' in '' @ what))"

definition await_ddl :: "import_env \<Rightarrow> string \<Rightarrow> (import_state, unit) cstep" where
  "await_ddl env table =
     cbind (cget (\<lambda>s. im_ddls s table)) (\<lambda>rx.
     case rx of
       None \<Rightarrow> cret ()
     | Some k \<Rightarrow>
         cbind (cput (\<lambda>s. s\<lparr>im_ddls := (im_ddls s)(table := None)\<rparr>)) (\<lambda>_.
         cbind (cget im_work) (\<lambda>work.
         clift (wait_ddl (ie_workers env) work table k))))"

definition handle_schema ::
  "import_env \<Rightarrow> u16 \<Rightarrow> column_def list \<Rightarrow> index_def list \<Rightarrow> table_options \<Rightarrow> (import_state, unit) cstep" where
  "handle_schema env table_id columns indexes options =
     cbind (table_name env table_id ''Schema'') (\<lambda>table.
     if table \<in> ie_completed env then cput (\<lambda>s. s\<lparr>im_skipped := insert table (im_skipped s)\<rparr>)
     else
       let table_preserves = filter (\<lambda>p. pr_table p = table) (preserves (ie_plan env));
           anon_rules = anonymization (ie_plan env) table
       in
       cbind (cput (\<lambda>s. s\<lparr>im_schemas := (im_schemas s)(table \<mapsto> columns)\<rparr>)) (\<lambda>_.
       cbind (if table_preserves \<noteq> [] then
                cbind (on_log (backup_preserved_rows (ie_db env) table table_preserves)) (\<lambda>kept.
                if kept then cput (\<lambda>s. s\<lparr>im_preserved := im_preserved s @ [table]\<rparr>) else cret ())
              else cret ()) (\<lambda>_.
       if ie_pool env then
         cbind (submit env (CreateTable table columns indexes options anon_rules)) (\<lambda>k.
         cput (\<lambda>s. s\<lparr>im_ddls := (im_ddls s)(table \<mapsto> k)\<rparr>))
       else on_log (create_table (ie_db env) table columns indexes options anon_rules))))"

text \<open>More chunks in flight than allowed: collect what has arrived, and wait for the oldest if that is not enough.\<close>

definition bound_pending :: "import_env \<Rightarrow> (import_state, unit) cstep" where
  "bound_pending env =
     cbind (cget (\<lambda>s. length (im_pending s))) (\<lambda>n.
     if MAX_PENDING_CHUNKS < n then
       cbind (drain_completed_loads env) (\<lambda>_.
       cbind (cget im_pending) (\<lambda>pending_loads.
       if MAX_PENDING_CHUNKS < length pending_loads then
         cbind (wait_and_add env (hd pending_loads)) (\<lambda>_.
         cput (\<lambda>s. s\<lparr>im_pending := tl pending_loads\<rparr>))
       else cret ()))
     else cret ())"

definition load_pooled ::
  "import_env \<Rightarrow> string \<Rightarrow> column_def list \<Rightarrow> u16 \<Rightarrow> bytes \<Rightarrow> (import_state, unit) cstep" where
  "load_pooled env table schema row_count tsv_data =
     cbind (await_ddl env table) (\<lambda>_.
     cbind (submit env (LoadData table schema tsv_data (ie_compression env) (ucast row_count))) (\<lambda>k.
     cbind (cput (\<lambda>s. s\<lparr>im_pending := im_pending s @ [(table, k)]\<rparr>)) (\<lambda>_.
     bound_pending env)))"

definition load_sequential ::
  "import_env \<Rightarrow> string \<Rightarrow> column_def list \<Rightarrow> u16 \<Rightarrow> bytes \<Rightarrow> (import_state, unit) cstep" where
  "load_sequential env table schema row_count tsv_data =
     cbind (clift (map_error chunk_text
       (maybe_decompress (wk_unzstd (ie_workers env)) tsv_data (ie_compression env)))) (\<lambda>decompressed.
     cbind (on_log (load_tsv_data (ie_db env) table schema decompressed)) (\<lambda>loaded.
     cput (add_result table \<lparr>lr_rows = loaded, lr_dropped = saturating_sub (ucast row_count) loaded\<rparr>)))"

definition handle_data :: "import_env \<Rightarrow> u16 \<Rightarrow> u16 \<Rightarrow> bytes \<Rightarrow> (import_state, unit) cstep" where
  "handle_data env table_id row_count tsv_data =
     cbind (table_name env table_id ''Data'') (\<lambda>table.
     cbind (cget im_skipped) (\<lambda>skipped_tables.
     if table \<in> skipped_tables then cret ()
     else
       cbind (cget (\<lambda>s. im_schemas s table)) (\<lambda>found.
       case found of
         None \<Rightarrow> clift (Inl (''No schema for table '' @ table))
       | Some schema \<Rightarrow>
           if ie_pool env then load_pooled env table schema row_count tsv_data
           else load_sequential env table schema row_count tsv_data)))"

definition handle_table_done ::
  "import_env \<Rightarrow> u16 \<Rightarrow> u64 \<Rightarrow> server_metrics option \<Rightarrow> (import_state, unit) cstep" where
  "handle_table_done env table_id row_count metrics =
     cbind (table_name env table_id ''TableDone'') (\<lambda>table.
     cbind (cput (\<lambda>s. if metrics \<noteq> None then on_stats (\<lambda>st. st\<lparr>is_server_metrics := metrics\<rparr>) s else s)) (\<lambda>_.
     cbind (cget im_skipped) (\<lambda>skipped_tables.
     if table \<in> skipped_tables then cret ()
     else
       cbind (await_ddl env table) (\<lambda>_.
       cbind (cput (\<lambda>s. s\<lparr>im_deferred := (im_deferred s)(table \<mapsto> row_count)\<rparr>)) (\<lambda>_.
       drain_completed_loads env)))))"

definition handle_done ::
  "import_env \<Rightarrow> server_metrics option \<Rightarrow> foreign_key_def list \<Rightarrow> (import_state, unit) cstep" where
  "handle_done env metrics foreign_keys =
     cbind (cput (on_stats (\<lambda>st. st\<lparr>is_source_fks := foreign_keys\<rparr>))) (\<lambda>_.
     cbind (cget im_ddls) (\<lambda>pending_ddls.
     cbind (ceach (await_ddl env) (ie_order env (dom pending_ddls))) (\<lambda>_.
     cbind (wait_for_all_loads env) (\<lambda>_.
     cput (on_stats (\<lambda>st. st\<lparr>is_server_metrics := metrics\<rparr>))))))"

text \<open>The result says whether the loop is left.\<close>

definition handle_message :: "import_env \<Rightarrow> server_message \<Rightarrow> (import_state, bool) cstep" where
  "handle_message env m =
     (case m of
        Schema table_id columns indexes options \<Rightarrow>
          cbind (handle_schema env table_id columns indexes options) (\<lambda>_. cret False)
      | Data table_id row_count tsv_data \<Rightarrow>
          cbind (handle_data env table_id row_count tsv_data) (\<lambda>_. cret False)
      | TableDone table_id row_count metrics \<Rightarrow>
          cbind (handle_table_done env table_id row_count metrics) (\<lambda>_. cret False)
      | SmDone _ metrics foreign_keys \<Rightarrow> cbind (handle_done env metrics foreign_keys) (\<lambda>_. cret True)
      | SmError message recoverable \<Rightarrow>
          if recoverable then cret False else clift (Inl (''Server error: '' @ message))
      | Ready _ _ \<Rightarrow> clift (Inl ''Unexpected Ready message'')
      | DryRunReport _ _ \<Rightarrow> clift (Inl ''Unexpected DryRunReport message (dry_run was not requested)''))"

text \<open>What reaches the loop: messages and receive errors through the read-ahead channel, or Ctrl-C.\<close>

datatype event = Arrived "string + server_message" | CtrlC

fun import_loop :: "import_env \<Rightarrow> event list \<Rightarrow> (import_state, unit) cstep" where
  "import_loop env [] = clift (Inl ''Server connection closed unexpectedly'')"
| "import_loop env (CtrlC # events) = clift (Inl ''Interrupted'')"
| "import_loop env (Arrived (Inl e) # events) = clift (Inl e)"
| "import_loop env (Arrived (Inr m) # events) =
     cbind (handle_message env m) (\<lambda>finished. if finished then cret () else import_loop env events)"

section \<open>The whole run\<close>

type_synonym sink = "client_message list \<Rightarrow> client_message \<Rightarrow> string + unit"

definition send_message :: "sink \<Rightarrow> client_message \<Rightarrow> (import_state, unit) cstep" where
  "send_message out m s =
     (case out (im_sent s) m of
        Inl e \<Rightarrow> (Inl e, s)
      | Inr _ \<Rightarrow> (Inr (), s\<lparr>im_sent := im_sent s @ [m]\<rparr>))"

record protocol_config =
  pc_compression :: compression_mode
  pc_is_resume :: bool
  pc_fail_after :: "nat option"
  pc_parallel :: u32
  pc_collect_metrics :: bool

record client_world =
  cw_db :: database
  cw_pool :: bool
  cw_workers :: workers
  cw_order :: "string order"
  cw_sink :: sink
  cw_show :: "server_message \<Rightarrow> string"

definition id_to_name :: "table_info list \<Rightarrow> u16 \<rightharpoonup> string" where
  "id_to_name tables = fold (\<lambda>t m. m(ti_table_id t \<mapsto> ti_name t)) tables Map.empty"

definition import_env_of ::
  "client_world \<Rightarrow> execution_plan \<Rightarrow> protocol_config \<Rightarrow> string set \<Rightarrow> table_info list \<Rightarrow> compression_mode \<Rightarrow> import_env" where
  "import_env_of w plan cfg completed tables compression =
     \<lparr>ie_db = cw_db w, ie_pool = cw_pool w, ie_workers = cw_workers w, ie_order = cw_order w, ie_plan = plan,
      ie_ids = id_to_name tables, ie_completed = completed, ie_compression = compression,
      ie_fail_after = pc_fail_after cfg\<rparr>"

definition await_ready :: "client_world \<Rightarrow> string + server_message \<Rightarrow> string + table_info list \<times> compression_mode" where
  "await_ready w r =
     (case r of
        Inl e \<Rightarrow> Inl e
      | Inr (Ready tables compression) \<Rightarrow> Inr (tables, compression)
      | Inr (SmError message _) \<Rightarrow> Inl (''Server error: '' @ message)
      | Inr other \<Rightarrow> Inl (''Unexpected message: '' @ cw_show w other))"

definition post_process :: "database \<Rightarrow> execution_plan \<Rightarrow> (statement list, unit) cstep" where
  "post_process db plan =
     cbind (restore_backups db) (\<lambda>_.
     cbind (ceach (execute_set_block db) (sets plan)) (\<lambda>_.
     ceach (query_drop db) (after_statements plan)))"

definition run_protocol_inner ::
  "client_world \<Rightarrow> execution_plan \<Rightarrow> protocol_config \<Rightarrow> string + server_message \<Rightarrow> event list \<Rightarrow>
     (import_state, unit) cstep" where
  "run_protocol_inner w plan cfg ready events =
     cbind (on_log (checkpoint_create (cw_db w))) (\<lambda>_.
     cbind (on_log (if pc_is_resume cfg then get_completed (cw_db w) else cret {})) (\<lambda>completed.
     cbind (send_message (cw_sink w)
       (Init plan (pc_compression cfg) (pc_parallel cfg) (pc_collect_metrics cfg) False)) (\<lambda>_.
     cbind (clift (await_ready w ready)) (\<lambda>(tables, compression).
     cbind (send_message (cw_sink w) Start) (\<lambda>_.
     cbind (import_loop (import_env_of w plan cfg completed tables compression) events) (\<lambda>_.
     cbind (on_log (post_process (cw_db w) plan)) (\<lambda>_.
     cbind (on_log (checkpoint_cleanup (cw_db w))) (\<lambda>_.
     send_message (cw_sink w) Shutdown))))))))"

definition fresh_import :: "statement list \<Rightarrow> client_message list \<Rightarrow> import_state" where
  "fresh_import log sent =
     \<lparr>im_log = log, im_sent = sent, im_work = [], im_polls = 0, im_stats = no_stats, im_dropped = Map.empty,
      im_schemas = Map.empty, im_ddls = Map.empty, im_pending = [], im_deferred = Map.empty, im_skipped = {},
      im_preserved = []\<rparr>"

definition run_protocol ::
  "client_world \<Rightarrow> execution_plan \<Rightarrow> protocol_config \<Rightarrow> string + server_message \<Rightarrow> event list \<Rightarrow>
     statement list \<Rightarrow> client_message list \<Rightarrow> (string + unit) \<times> import_state" where
  "run_protocol w plan cfg ready events log sent =
     run_protocol_inner w plan cfg ready events (fresh_import log sent)"

end
