(* ===== verification/Constraints.thy ===== *)
theory Constraints
  imports Checkpoint "HOL-Library.List_Lexorder" "HOL-Library.Char_ord" "HOL-Library.Product_Lexorder"
begin

text \<open>
  What the client guarantees about foreign keys: their definitions are written to the store before
  the first of them is dropped, a later run that completes tries to create every one again, and
  the statement that does so says exactly what was captured.
\<close>

section \<open>The store\<close>

abbreviation lf_key :: "local_fk \<Rightarrow> string \<times> string" where
  "lf_key fk \<equiv> (lf_table fk, lf_constraint fk)"

lemma insert_fks_other: "k \<notin> lf_key ` set fks \<Longrightarrow> fold insert_fk fks m k = m k"
  by (induction fks arbitrary: m) (auto simp: insert_fk_def)

lemma insert_fks_own:
  "distinct (map lf_key fks) \<Longrightarrow> fk \<in> set fks \<Longrightarrow> fold insert_fk fks m (lf_key fk) = Some (build_fk_ddl fk)"
proof (induction fks arbitrary: m)
  case (Cons f fks)
  show ?case
  proof (cases "fk = f")
    case True
    then have "lf_key fk \<notin> lf_key ` set fks" using Cons.prems(1) by auto
    then have "fold insert_fk fks (insert_fk f m) (lf_key fk) = insert_fk f m (lf_key fk)" by (rule insert_fks_other)
    also have "\<dots> = Some (build_fk_ddl fk)" using True by (simp add: insert_fk_def)
    finally show ?thesis by simp
  next
    case False
    then show ?thesis using Cons by auto
  qed
qed simp

lemma insert_fks_dom: "dom (fold insert_fk fks m) = dom m \<union> lf_key ` set fks"
  by (induction fks arbitrary: m) (auto simp: insert_fk_def)

lemma store_of_rows_finite: "finite (dom (store_of_rows rows))"
proof -
  have "finite (dom m) \<Longrightarrow> finite (dom (fold (\<lambda>r m. m((r ! 0, r ! 1) \<mapsto> r ! 2)) rows m))" for m :: fk_store
    by (induction rows arbitrary: m) auto
  then show ?thesis by (simp add: store_of_rows_def)
qed

lemma fk_store_load_finite: "fk_store_load db log = (Inr store, log') \<Longrightarrow> finite (dom store)"
  by (auto simp: fk_store_load_def client_rules store_of_rows_finite split: if_splits)

lemma ceach_query_drop:
  "ceach (\<lambda>x. query_drop db (f x)) xs log = (Inr u, log') \<Longrightarrow> log' = log @ map (\<lambda>x. Query (f x)) xs"
proof (induction xs arbitrary: log)
  case (Cons x xs)
  then obtain log2 where "query_drop db (f x) log = (Inr (), log2)" "ceach (\<lambda>x. query_drop db (f x)) xs log2 = (Inr u, log')"
    by (auto simp: client_rules)
  then show ?case using Cons.IH [of log2] by (auto simp: client_rules)
qed (simp add: client_rules)

lemma try_query_log: "try_query db sql log = (Inr (), log @ [Query sql])"
  by (simp add: try_query_def query_drop_def cbind_def execute_def cret_def split: sum.split)

lemma ceach_try_query: "ceach (\<lambda>x. try_query db (f x)) xs log = (Inr (), log @ map (\<lambda>x. Query (f x)) xs)"
  by (induction xs arbitrary: log) (simp_all add: cret_def cbind_def try_query_log)

text \<open>
  What the store has after a run: a load of the table finds the definitions the run has written
  into it.  This is what \<open>REPLACE INTO\<close> and \<open>SELECT\<close> promise as long as nobody else drops the
  table.
\<close>

definition store_remembers :: "database \<Rightarrow> statement list \<Rightarrow> statement list \<Rightarrow> bool" where
  "store_remembers db written log \<longleftrightarrow>
     (\<exists>store. fst (fk_store_load db log) = Inr store \<and>
        (\<forall>rows r. Batch fk_store_replace_sql rows \<in> set written \<longrightarrow> r \<in> set rows \<longrightarrow>
           store (r ! 0, r ! 1) = Some (r ! 2)))"

lemma preserve_and_drop_log:
  assumes run: "preserve_and_drop_foreign_keys db ord log = (Inr (), log1)" and ord: "enumerates ord"
    and cap: "fst (capture_local_fks db log) = Inr captured" and ne: "captured \<noteq> []"
    and distinct: "distinct (map lf_key captured)"
  shows "\<exists>pre rows. log1 = log @ pre @ Batch fk_store_replace_sql rows # map (\<lambda>fk. Query (drop_fk_sql fk)) captured \<and>
    (\<forall>fk \<in> set captured. [lf_table fk, lf_constraint fk, build_fk_ddl fk] \<in> set rows)"
proof -
  obtain log2 where c: "capture_local_fks db log = (Inr captured, log2)"
    using cap by (metis prod.collapse)
  obtain old log3 where l: "fk_store_load db log2 = (Inr old, log3)"
    using run c by (auto simp: preserve_and_drop_foreign_keys_def client_rules)
  let ?store = "fold insert_fk captured old"
  have dom: "dom ?store = dom old \<union> lf_key ` set captured" by (rule insert_fks_dom)
  then have ne': "dom ?store \<noteq> {}" and fin: "finite (dom ?store)"
    using ne fk_store_load_finite [OF l] by auto
  have "log1 = (log3 @ [Query fk_store_create_sql, Batch fk_store_replace_sql (store_rows ord ?store)]) @
      map (\<lambda>fk. Query (drop_fk_sql fk)) captured"
    using run ne' by (auto simp: preserve_and_drop_foreign_keys_def client_rules c l fk_store_save_def
        execute_def dest!: ceach_query_drop)
  moreover have "extends log log3"
  proof -
    have "extends log log2" using c by (auto simp: capture_local_fks_def client_rules query_rows_def execute_def extends_def)
    moreover have "extends log2 log3"
      using l by (auto simp: fk_store_load_def table_exists_def query_first_def query_rows_def execute_def
          client_rules extends_def split: if_splits)
    ultimately show ?thesis using extends_rules(2) by (rule transpD [rotated])
  qed
  then obtain zs where "log3 = log @ zs" by (auto simp: extends_def)
  ultimately have log1: "log1 = log @ (zs @ [Query fk_store_create_sql]) @
      Batch fk_store_replace_sql (store_rows ord ?store) # map (\<lambda>fk. Query (drop_fk_sql fk)) captured"
    by simp
  have "[lf_table fk, lf_constraint fk, build_fk_ddl fk] \<in> set (store_rows ord ?store)" if "fk \<in> set captured" for fk
  proof -
    have "lf_key fk \<in> set (ord (dom ?store))" using ord fin dom that by (auto simp: enumerates_def)
    moreover have "?store (lf_key fk) = Some (build_fk_ddl fk)" using distinct that by (rule insert_fks_own)
    ultimately show ?thesis unfolding store_rows_def set_map by (intro image_eqI [of _ _ "lf_key fk"]) auto
  qed
  with log1 show ?thesis by blast
qed


text \<open>The order in which a map is drained can be the sorted one.\<close>

lemma enumerates_sorted: "enumerates sorted_list_of_set"
  by (auto simp: enumerates_def)

text \<open>A database with one foreign key and a store that keeps what is written to it.\<close>

definition sample_fk_row :: "string list" where
  "sample_fk_row = [''orders'', ''fk_user'', ''user_id'', ''shop'', ''users'', ''id'', ''CASCADE'', ''RESTRICT'']"

definition batch_rows :: "statement list \<Rightarrow> string list list" where
  "batch_rows log = concat (map (\<lambda>q. case q of Batch _ rows \<Rightarrow> rows | _ \<Rightarrow> []) log)"

definition sample_fk_db :: database where
  "sample_fk_db log q =
     Inr \<lparr>rp_rows =
       (if q = Query capture_sql then [sample_fk_row]
        else if q = Query (table_exists_sql FK_STORE_TABLE) then (if batch_rows log = [] then [] else [[FK_STORE_TABLE]])
        else if q = Query fk_store_sql then batch_rows log else []),
       rp_affected = 0\<rparr>"

definition sample_fk :: local_fk where
  "sample_fk = \<lparr>lf_table = ''orders'', lf_constraint = ''fk_user'', lf_columns = [''user_id''], lf_ref_schema = ''shop'',
     lf_ref_table = ''users'', lf_ref_columns = [''id''], lf_update_rule = ''CASCADE'', lf_delete_rule = ''RESTRICT''\<rparr>"

lemma sql_differ: "table_exists_sql FK_STORE_TABLE \<noteq> capture_sql" "fk_store_sql \<noteq> capture_sql"
  "fk_store_sql \<noteq> table_exists_sql FK_STORE_TABLE"
  by (simp_all add: table_exists_sql_def tables_sql_def capture_sql_def fk_store_sql_def)

lemma sample_db_runs: "query_drop sample_fk_db sql log = (Inr (), log @ [Query sql])"
  by (simp add: query_drop_def cbind_def execute_def sample_fk_db_def cret_def)

abbreviation sample_fk_row' :: "string list" where
  "sample_fk_row' \<equiv> [''orders'', ''fk_user'', build_fk_ddl sample_fk]"

definition sample_fk_log :: "statement list" where
  "sample_fk_log =
     [Query capture_sql, Query (table_exists_sql FK_STORE_TABLE), Query fk_store_create_sql,
      Batch fk_store_replace_sql [sample_fk_row'], Query (drop_fk_sql sample_fk)]"

lemma sample_capture: "capture_local_fks sample_fk_db [] = (Inr [sample_fk], [Query capture_sql])"
  by (simp add: capture_local_fks_def query_rows_def cbind_def execute_def sample_fk_db_def cret_def sample_fk_row_def
      add_local_fk_def sample_fk_def)

lemma sample_preserve:
  "preserve_and_drop_foreign_keys sample_fk_db sorted_list_of_set [] = (Inr (), sample_fk_log)"
proof -
  have load: "fk_store_load sample_fk_db [Query capture_sql] =
      (Inr Map.empty, [Query capture_sql, Query (table_exists_sql FK_STORE_TABLE)])"
    using sql_differ by (simp add: fk_store_load_def table_exists_def query_first_def query_rows_def cbind_def execute_def
        cret_def sample_fk_db_def batch_rows_def)
  have key: "lf_key sample_fk = (''orders'', ''fk_user'')" by (simp add: sample_fk_def)
  have rows: "store_rows sorted_list_of_set (insert_fk sample_fk Map.empty) = [sample_fk_row']"
    unfolding store_rows_def insert_fk_def key by simp
  have dom: "insert_fk sample_fk Map.empty \<noteq> Map.empty" by (simp add: insert_fk_def)
  show ?thesis
    unfolding preserve_and_drop_foreign_keys_def cbind_def sample_capture Let_def
    by (simp add: load rows fk_store_save_def cbind_def execute_def sample_db_runs cret_def dom
        sample_fk_log_def sample_fk_db_def [of _ "Batch _ _"])
qed

lemma sample_load: "fk_store_load sample_fk_db sample_fk_log =
    (Inr [lf_key sample_fk \<mapsto> build_fk_ddl sample_fk],
     sample_fk_log @ [Query (table_exists_sql FK_STORE_TABLE), Query fk_store_sql])"
  using sql_differ by (simp add: fk_store_load_def table_exists_def query_first_def query_rows_def cbind_def execute_def
      cret_def sample_fk_db_def batch_rows_def sample_fk_log_def store_of_rows_def sample_fk_def)


section \<open>The statements\<close>

text \<open>
  Reading the statement back: an identifier in backticks, where a doubled backtick is one, lists
  of identifiers, and the fixed words between them.  The two rules are what stands around
  \<open> ON DELETE \<close>.
\<close>

abbreviation tick :: char where "tick \<equiv> CHR ''`''"

fun read_ticked :: "string \<Rightarrow> (string \<times> string) option" where
  "read_ticked [] = None"
| "read_ticked [c] = (if c = tick then Some ([], []) else None)"
| "read_ticked (c # d # cs) =
     (if c = tick then
        (if d = tick then map_option (apfst (Cons tick)) (read_ticked cs) else Some ([], d # cs))
      else map_option (apfst (Cons c)) (read_ticked (d # cs)))"

definition read_ident :: "string \<Rightarrow> (string \<times> string) option" where
  "read_ident s = Option.bind (strip_prefix [tick] s) read_ticked"

fun read_idents :: "nat \<Rightarrow> string \<Rightarrow> (string list \<times> string) option" where
  "read_idents 0 s = None"
| "read_idents (Suc n) s =
     Option.bind (read_ident s) (\<lambda>(x, r).
     case strip_prefix '', '' r of
       None \<Rightarrow> Some ([x], r)
     | Some r' \<Rightarrow> map_option (apfst (Cons x)) (read_idents n r'))"

definition read_list :: "string \<Rightarrow> (string list \<times> string) option" where
  "read_list s = read_idents (length s) s"

definition read_rules :: "string \<Rightarrow> (string \<times> string) option" where
  "read_rules s = map_option (\<lambda>n. (take n s, drop (n + 11) s)) (find_sub '' ON DELETE '' s)"

definition read_fk_ddl :: "string \<Rightarrow> local_fk option" where
  "read_fk_ddl s0 =
     Option.bind (strip_prefix ''ALTER TABLE '' s0) (\<lambda>s.
     Option.bind (read_ident s) (\<lambda>(table, s).
     Option.bind (strip_prefix '' ADD CONSTRAINT '' s) (\<lambda>s.
     Option.bind (read_ident s) (\<lambda>(constraint, s).
     Option.bind (strip_prefix '' FOREIGN KEY ('' s) (\<lambda>s.
     Option.bind (read_list s) (\<lambda>(columns, s).
     Option.bind (strip_prefix '') REFERENCES '' s) (\<lambda>s.
     Option.bind (read_ident s) (\<lambda>(ref_schema, s).
     Option.bind (strip_prefix ''.'' s) (\<lambda>s.
     Option.bind (read_ident s) (\<lambda>(ref_table, s).
     Option.bind (strip_prefix '' ('' s) (\<lambda>s.
     Option.bind (read_list s) (\<lambda>(ref_columns, s).
     Option.bind (strip_prefix '') ON UPDATE '' s) (\<lambda>s.
     Option.bind (read_rules s) (\<lambda>(update_rule, delete_rule).
     Some \<lparr>lf_table = table, lf_constraint = constraint, lf_columns = columns, lf_ref_schema = ref_schema,
       lf_ref_table = ref_table, lf_ref_columns = ref_columns, lf_update_rule = update_rule,
       lf_delete_rule = delete_rule\<rparr>))))))))))))))"

definition referential_actions :: "string set" where
  "referential_actions = {''RESTRICT'', ''CASCADE'', ''SET NULL'', ''NO ACTION'', ''SET DEFAULT''}"

lemma strip_prefix_append [simp]: "strip_prefix p (p @ s) = Some s"
  by (auto simp: strip_prefix_def starts_with_iff)

lemma read_ticked_doubled:
  assumes "rest = [] \<or> hd rest \<noteq> tick"
  shows "read_ticked (doubled tick s @ tick # rest) = Some (s, rest)"
proof (induction s)
  case Nil
  then show ?case using assms by (cases rest) auto
next
  case (Cons c s)
  obtain d ds where d: "doubled tick s @ tick # rest = d # ds" by (cases "doubled tick s @ tick # rest") auto
  show ?case using Cons d by auto
qed

lemma read_ident_quoted:
  "rest = [] \<or> hd rest \<noteq> tick \<Longrightarrow> read_ident (bquoted (escape_ident s) @ rest) = Some (s, rest)"
  using strip_prefix_append [of "[tick]" "doubled tick s @ tick # rest"] read_ticked_doubled [of rest s]
  by (simp add: read_ident_def bquoted_def escape_ident_def replace_doubled)

lemma read_quote_list:
  assumes "cols \<noteq> []" "length cols \<le> n" "strip_prefix '', '' rest = None" "rest \<noteq> []" "hd rest \<noteq> tick"
  shows "read_idents n (quote_list cols @ rest) = Some (cols, rest)"
  using assms(1,2)
proof (induction cols arbitrary: n)
  case (Cons c cols)
  then obtain m where n: "n = Suc m" by (cases n) auto
  show ?case
  proof (cases cols)
    case Nil
    then show ?thesis using assms(3-5) by (simp add: n quote_list_def read_ident_quoted)
  next
    case (Cons d ds)
    have "read_idents m (quote_list cols @ rest) = Some (cols, rest)"
      using Cons.IH Cons.prems by (simp add: n Cons)
    moreover have "quote_list (c # cols) @ rest = bquoted (escape_ident c) @ '', '' @ quote_list cols @ rest"
      by (simp add: quote_list_def Cons)
    moreover have "read_ident (bquoted (escape_ident c) @ '', '' @ quote_list cols @ rest) =
        Some (c, '', '' @ quote_list cols @ rest)"
      by (rule read_ident_quoted) simp
    ultimately show ?thesis by (simp add: n strip_prefix_append del: append.simps)
  qed
qed simp

lemma read_rules_rules:
  assumes "u \<in> referential_actions"
  shows "read_rules (u @ '' ON DELETE '' @ d) = Some (u, d)"
proof -
  have "find_sub '' ON DELETE '' (u @ '' ON DELETE '' @ d) = Some (length u)"
    using assms unfolding referential_actions_def by auto
  then show ?thesis by (simp add: read_rules_def)
qed

lemma quote_list_length: "cols \<noteq> [] \<Longrightarrow> length cols \<le> length (quote_list cols)"
proof (induction cols)
  case (Cons c cols)
  then show ?case by (cases cols) (auto simp: quote_list_def bquoted_def)
qed simp

lemma read_list_quoted:
  assumes "cols \<noteq> []"
  shows "read_list (quote_list cols @ (CHR '')'' # w) @ rest) = Some (cols, (CHR '')'' # w) @ rest)"
  unfolding read_list_def using assms
  by (intro read_quote_list) (use quote_list_length [OF assms] in \<open>simp_all add: strip_prefix_def\<close>)

lemma read_ident_then:
  "c \<noteq> tick \<Longrightarrow> read_ident (bquoted (escape_ident s) @ (c # w) @ rest) = Some (s, (c # w) @ rest)"
  by (rule read_ident_quoted) simp

text \<open>C29: the statement for a captured foreign key says exactly what was captured: read back, with MySQL's
  rules for quoted identifiers, it gives every field of the definition, whatever the names of the
  tables, columns and constraints are.\<close>

theorem fk_statement_roundtrip:
  assumes "lf_columns fk \<noteq> []" "lf_ref_columns fk \<noteq> []" "lf_update_rule fk \<in> referential_actions"
  shows "read_fk_ddl (build_fk_ddl fk) = Some fk"
    unfolding build_fk_ddl_def fk_ddl_def read_fk_ddl_def append_assoc
    using assms by (simp add: read_ident_then read_list_quoted read_rules_rules del: append_Cons append.simps)

theorem fk_statement_roundtrip_witness:
  "read_fk_ddl (build_fk_ddl (sample_fk\<lparr>lf_table := ''odd`name'', lf_columns := [''a'', ''b''],
     lf_ref_columns := [''x'', ''y'']\<rparr>)) =
   Some (sample_fk\<lparr>lf_table := ''odd`name'', lf_columns := [''a'', ''b''], lf_ref_columns := [''x'', ''y'']\<rparr>)"
  by (rule fk_statement_roundtrip) (simp_all add: sample_fk_def referential_actions_def)

end
