(* ===== verification/ImportSafety.thy ===== *)
theory ImportSafety
  imports Import Constraints "HOL-Library.Sublist"
begin

text \<open>
  What an import guarantees when it stops anywhere: a table is in the checkpoint only when all its
  chunks have been loaded, and a table an earlier run completed is left alone.  The proofs use
  triples: what holds before a step, what holds after it, and what holds when it fails.
\<close>

section \<open>Triples\<close>

definition triple ::
  "('s \<Rightarrow> bool) \<Rightarrow> ('s, 'a) cstep \<Rightarrow> ('a \<Rightarrow> 's \<Rightarrow> bool) \<Rightarrow> ('s \<Rightarrow> bool) \<Rightarrow> bool" where
  "triple P m Q E \<longleftrightarrow> (\<forall>s. P s \<longrightarrow> (case m s of (Inl e, s') \<Rightarrow> E s' | (Inr x, s') \<Rightarrow> Q x s'))"

lemma tripleI:
  "(\<And>s x s'. P s \<Longrightarrow> m s = (Inr x, s') \<Longrightarrow> Q x s') \<Longrightarrow> (\<And>s e s'. P s \<Longrightarrow> m s = (Inl e, s') \<Longrightarrow> E s') \<Longrightarrow>
    triple P m Q E"
  by (auto simp: triple_def split: prod.splits sum.splits)

lemma triple_Inr: "triple P m Q E \<Longrightarrow> P s \<Longrightarrow> m s = (Inr x, s') \<Longrightarrow> Q x s'"
  by (auto simp: triple_def)

lemma triple_Inl: "triple P m Q E \<Longrightarrow> P s \<Longrightarrow> m s = (Inl e, s') \<Longrightarrow> E s'"
  by (auto simp: triple_def)

lemma triple_conseq:
  "triple P' m Q' E' \<Longrightarrow> (\<And>s. P s \<Longrightarrow> P' s) \<Longrightarrow> (\<And>x s. Q' x s \<Longrightarrow> Q x s) \<Longrightarrow> (\<And>s. E' s \<Longrightarrow> E s) \<Longrightarrow> triple P m Q E"
  by (fastforce simp: triple_def split: prod.splits sum.splits)

lemma triple_cbind:
  "triple P m R E \<Longrightarrow> (\<And>x. triple (R x) (f x) Q E) \<Longrightarrow> triple P (cbind m f) Q E"
  by (fastforce simp: triple_def cbind_def split: prod.splits sum.splits)

lemma triple_conj:
  assumes "triple P m Q E" "triple P' m Q' E'"
  shows "triple (\<lambda>s. P s \<and> P' s) m (\<lambda>x s. Q x s \<and> Q' x s) (\<lambda>s. E s \<and> E' s)"
  using assms by (fastforce simp: triple_def split: prod.splits sum.splits)

lemma triple_cret: "(\<And>s. P s \<Longrightarrow> Q x s) \<Longrightarrow> triple P (cret x) Q E"
  by (simp add: triple_def cret_def)

lemma triple_clift:
  "(\<And>s x. P s \<Longrightarrow> r = Inr x \<Longrightarrow> Q x s) \<Longrightarrow> (\<And>s e. P s \<Longrightarrow> r = Inl e \<Longrightarrow> E s) \<Longrightarrow> triple P (clift r) Q E"
  by (cases r) (simp_all add: triple_def clift_def)

lemma triple_cget: "(\<And>s. P s \<Longrightarrow> Q (g s) s) \<Longrightarrow> triple P (cget g) Q E"
  by (simp add: triple_def cget_def)

lemma triple_cput: "(\<And>s. P s \<Longrightarrow> Q () (g s)) \<Longrightarrow> triple P (cput g) Q E"
  by (simp add: triple_def cput_def)

lemma triple_if: "(b \<Longrightarrow> triple P m Q E) \<Longrightarrow> (\<not> b \<Longrightarrow> triple P n Q E) \<Longrightarrow> triple P (if b then m else n) Q E"
  by simp

lemma triple_ceach:
  "(\<And>x xs. triple (I (x # xs)) (f x) (\<lambda>_. I xs) E) \<Longrightarrow> triple (I xs) (ceach f xs) (\<lambda>_. I []) E"
  by (induction xs) (auto intro: triple_cret triple_cbind)

lemma triple_ceach_inv:
  "(\<And>x. x \<in> set xs \<Longrightarrow> triple I (f x) (\<lambda>_. I) E) \<Longrightarrow> triple I (ceach f xs) (\<lambda>_. I) E"
  by (induction xs) (auto intro: triple_cret triple_cbind)

text \<open>A value read from the state is fixed in what follows.\<close>

lemma triple_read:
  "(\<And>x. triple (\<lambda>s. P s \<and> g s = x) (f x) Q E) \<Longrightarrow> triple P (cbind (cget g) f) Q E"
  by (simp add: triple_def cbind_def cget_def)

lemma triple_pure: "(b \<Longrightarrow> triple P m Q E) \<Longrightarrow> triple (\<lambda>s. P s \<and> b) m Q E"
  by (auto simp: triple_def)

lemma triple_on_log:
  "(\<And>s l. P s \<Longrightarrow> P (s\<lparr>im_log := l\<rparr>)) \<Longrightarrow> (\<And>s. P s \<Longrightarrow> E s) \<Longrightarrow> triple P (on_log m) (\<lambda>_. P) E"
  by (auto simp: triple_def on_log_def split: prod.splits sum.splits)

section \<open>The loads of a table\<close>

abbreviation names_of :: "import_state \<Rightarrow> string set" where
  "names_of s \<equiv> set (is_names (im_stats s))"

definition load_of :: "load_work list \<Rightarrow> string \<Rightarrow> nat \<Rightarrow> bool" where
  "load_of work t k \<longleftrightarrow> k < length work \<and> (\<exists>c d m x. work ! k = LoadData t c d m x)"

definition delivered :: "import_env \<Rightarrow> load_work list \<Rightarrow> nat \<Rightarrow> bool" where
  "delivered env work k \<longleftrightarrow> (\<exists>r. load_reply (ie_workers env) work k = Some (Inr r))"

definition all_delivered :: "import_env \<Rightarrow> load_work list \<Rightarrow> string \<Rightarrow> bool" where
  "all_delivered env work t \<longleftrightarrow> (\<forall>k. load_of work t k \<longrightarrow> delivered env work k)"

definition pending_ok :: "import_env \<Rightarrow> (string \<times> nat) list \<Rightarrow> import_state \<Rightarrow> bool" where
  "pending_ok env ps s \<longleftrightarrow> (\<forall>(t, k) \<in> set ps. k < length (im_work s)) \<and>
     (\<forall>t k. load_of (im_work s) t k \<longrightarrow> (t, k) \<in> set ps \<or> delivered env (im_work s) k)"

definition marked_ok :: "import_env \<Rightarrow> import_state \<Rightarrow> bool" where
  "marked_ok env s \<longleftrightarrow> (\<forall>t \<in> names_of s. all_delivered env (im_work s) t)"

text \<open>A table that is counted as imported has no schema left, and none of \<open>F\<close>, the tables whose schema may still come.\<close>

definition closed_ok :: "string set \<Rightarrow> import_state \<Rightarrow> bool" where
  "closed_ok F s \<longleftrightarrow> (\<forall>t \<in> names_of s. im_schemas s t = None) \<and> (names_of s \<union> dom (im_deferred s)) \<inter> F = {}"

definition skip_ok :: "import_env \<Rightarrow> import_state \<Rightarrow> bool" where
  "skip_ok env s \<longleftrightarrow> dom (im_schemas s) \<inter> ie_completed env = {} \<and>
     (\<forall>w \<in> set (im_work s). case w of
        CreateTable t _ _ _ _ \<Rightarrow> t \<notin> ie_completed env
      | LoadData t _ _ _ _ \<Rightarrow> t \<notin> ie_completed env)"

lemma delivered_append: "k < length work \<Longrightarrow> delivered env (work @ ws) k = delivered env work k"
  by (simp add: delivered_def load_reply_def nth_append)

lemma load_of_snoc:
  "load_of (work @ [w]) t k \<longleftrightarrow> load_of work t k \<or> (k = length work \<and> (\<exists>c d m x. w = LoadData t c d m x))"
  by (auto simp: load_of_def nth_append less_Suc_eq)

lemma load_of_less: "load_of work t k \<Longrightarrow> k < length work"
  by (simp add: load_of_def)

definition maps_finite :: "import_state \<Rightarrow> bool" where
  "maps_finite s \<longleftrightarrow> finite (dom (im_deferred s)) \<and> finite (dom (im_ddls s))"

definition imp :: "import_env \<Rightarrow> string set \<Rightarrow> (string \<times> nat) list \<Rightarrow> import_state \<Rightarrow> bool" where
  "imp env F ps s \<longleftrightarrow> pending_ok env ps s \<and> marked_ok env s \<and> closed_ok F s \<and> skip_ok env s \<and> maps_finite s"

definition fin :: "import_env \<Rightarrow> import_state \<Rightarrow> bool" where
  "fin env s \<longleftrightarrow> marked_ok env s \<and> skip_ok env s"

lemma imp_fin: "imp env F ps s \<Longrightarrow> fin env s"
  by (simp add: imp_def fin_def)

lemmas imp_defs = imp_def fin_def pending_ok_def marked_ok_def closed_ok_def skip_ok_def maps_finite_def on_stats_def

section \<open>Steps that finish tables\<close>

lemma imp_log [simp]: "imp env F ps (s\<lparr>im_log := l\<rparr>) = imp env F ps s" "fin env (s\<lparr>im_log := l\<rparr>) = fin env s"
  by (simp_all add: imp_defs)

lemma imp_polls [simp]: "imp env F ps (s\<lparr>im_polls := l\<rparr>) = imp env F ps s"
  by (simp add: imp_defs)

lemma imp_ddls: "imp env F ps s \<Longrightarrow> finite (dom l) \<Longrightarrow> imp env F ps (s\<lparr>im_ddls := l\<rparr>)"
  by (simp add: imp_defs)

lemma imp_set_ddl: "imp env F ps s \<Longrightarrow> imp env F ps (s\<lparr>im_ddls := (im_ddls s)(t := v)\<rparr>)"
  by (simp add: imp_defs)

lemma imp_pending [simp]: "imp env F ps (s\<lparr>im_pending := l\<rparr>) = imp env F ps s"
  by (simp add: imp_defs)

lemma imp_preserved [simp]: "imp env F ps (s\<lparr>im_preserved := l\<rparr>) = imp env F ps s"
  by (simp add: imp_defs)

lemma imp_skipped [simp]: "imp env F ps (s\<lparr>im_skipped := l\<rparr>) = imp env F ps s"
  by (simp add: imp_defs)

lemma add_result_pending [simp]: "im_pending (add_result t r s) = im_pending s"
  by (simp add: add_result_def on_stats_def)

lemma imp_add_result [simp]: "imp env F ps (add_result t r s) = imp env F ps s"
  by (simp add: imp_defs add_result_def)

lemma drain_loads_triple:
  "triple (imp env F (still @ loads)) (drain_loads env loads still) (\<lambda>still'. imp env F still') (fin env)"
proof (induction loads arbitrary: still)
  case Nil
  then show ?case by (auto intro: triple_cret)
next
  case (Cons load loads)
  obtain t k where load: "load = (t, k)" by force
  show ?case
    unfolding load drain_loads.simps
  proof (rule triple_cbind [where R = "\<lambda>r s. imp env F (still @ (t, k) # loads) s \<and>
        (\<forall>x. r = Got x \<longrightarrow> load_reply (ie_workers env) (im_work s) k = Some x)"])
    show "triple (imp env F (still @ (t, k) # loads)) (try_recv env k) (\<lambda>r s. imp env F (still @ (t, k) # loads) s \<and>
        (\<forall>x. r = Got x \<longrightarrow> load_reply (ie_workers env) (im_work s) k = Some x)) (fin env)"
      by (rule tripleI) (auto simp: try_recv_def split: option.splits if_splits)
  next
    fix r
    let ?R = "\<lambda>s. imp env F (still @ (t, k) # loads) s \<and>
        (\<forall>x. r = Got x \<longrightarrow> load_reply (ie_workers env) (im_work s) k = Some x)"
    have drop: "imp env F (still @ loads) s" if "imp env F (still @ (t, k) # loads) s"
      "load_reply (ie_workers env) (im_work s) k = Some (Inr res)" for s res
      using that by (auto simp: imp_def pending_ok_def delivered_def)
    show "triple ?R (case r of Got (Inr result) \<Rightarrow> cbind (cput (add_result t result)) (\<lambda>_. drain_loads env loads still)
       | Got (Inl e) \<Rightarrow> clift (Inl (''Loader error for '' @ t @ '': '' @ e))
       | Nothing_yet \<Rightarrow> drain_loads env loads (still @ [(t, k)])
       | Gone \<Rightarrow> clift (Inl (''Loader worker died for '' @ t))) (\<lambda>still'. imp env F still') (fin env)"
    proof (cases r)
      case (Got x)
      then show ?thesis
        by (cases x) (auto intro!: triple_clift triple_cbind [OF _ Cons.IH] triple_cput intro: drop imp_fin)
    next
      case Nothing_yet
      then show ?thesis using Cons.IH [of "still @ [(t, k)]"] by (auto elim: triple_conseq)
    qed (auto intro!: triple_clift intro: imp_fin)
  qed
qed

lemma finalize_table_triple:
  assumes "t \<notin> F" "t \<notin> fst ` set ps"
  shows "triple (imp env F ps) (finalize_table env t n) (\<lambda>_. imp env F ps) (fin env)"
proof -
  have count: "imp env F ps (count_table t s)" if s: "imp env F ps s" for s
  proof -
    have "all_delivered env (im_work s) t"
      using s assms(2) by (force simp: imp_def pending_ok_def all_delivered_def)
    then show ?thesis using s assms(1) by (auto simp: imp_defs count_table_def)
  qed
  show ?thesis unfolding finalize_table_def
    by (rule triple_cbind [where R = "\<lambda>_. imp env F ps"], rule triple_cput, erule count,
        rule triple_cbind [where R = "\<lambda>_. imp env F ps"], rule triple_on_log)
      (auto intro: imp_fin intro!: tripleI simp: check_fail_after_def split: option.splits if_splits)
qed

lemma order_set: "enumerates ord \<Longrightarrow> finite A \<Longrightarrow> set (ord A) = A"
  by (simp add: enumerates_def)

lemma finalize_deferred_triple:
  assumes "t \<notin> F" "t \<notin> fst ` set ps"
  shows "triple (imp env F ps) (finalize_deferred env t) (\<lambda>_. imp env F ps) (fin env)"
  unfolding finalize_deferred_def
  by (intro triple_read triple_cbind [where R = "\<lambda>_. imp env F ps"] triple_cput finalize_table_triple assms)
    (auto simp: imp_defs)

lemma finalize_completed_triple:
  assumes "enumerates (ie_order env)"
  shows "triple (imp env F ps) (finalize_completed_tables env ps) (\<lambda>_. imp env F ps) (fin env)"
  unfolding finalize_completed_tables_def
proof (rule triple_read, rule triple_if)
  fix deferred :: "string \<rightharpoonup> u64"
  let ?ready = "filter (\<lambda>t. t \<notin> fst ` set ps) (ie_order env (dom deferred))"
  have each: "triple (imp env F ps) (ceach (finalize_deferred env) ?ready) (\<lambda>_. imp env F ps) (fin env)"
    if "finite (dom deferred)" "dom deferred \<inter> F = {}"
    using that order_set [OF assms] by (intro triple_ceach_inv finalize_deferred_triple) auto
  show "triple (\<lambda>s. imp env F ps s \<and> im_deferred s = deferred)
      (let ready = ?ready in ceach (finalize_deferred env) ready) (\<lambda>_. imp env F ps) (fin env)"
    unfolding Let_def
  proof (cases "finite (dom deferred) \<and> dom deferred \<inter> F = {}")
    case True
    then show "triple (\<lambda>s. imp env F ps s \<and> im_deferred s = deferred)
      (ceach (finalize_deferred env) ?ready) (\<lambda>_. imp env F ps) (fin env)"
      using each by (auto elim: triple_conseq)
  next
    case False
    then show "triple (\<lambda>s. imp env F ps s \<and> im_deferred s = deferred)
      (ceach (finalize_deferred env) ?ready) (\<lambda>_. imp env F ps) (fin env)"
      by (auto simp: triple_def imp_def closed_ok_def maps_finite_def)
  qed
qed (auto intro: triple_cret)

lemma drain_completed_triple:
  assumes "enumerates (ie_order env)"
  shows "triple (\<lambda>s. imp env F (im_pending s) s) (drain_completed_loads env) (\<lambda>_ s. imp env F (im_pending s) s) (fin env)"
  unfolding drain_completed_loads_def
proof (rule triple_read)
  fix ps
  have "triple (imp env F ps) (drain_loads env ps []) (\<lambda>still. imp env F still) (fin env)"
    using drain_loads_triple [of env F "[]" ps] by simp
  then have "triple (imp env F ps)
     (cbind (drain_loads env ps []) (\<lambda>still. cbind (finalize_completed_tables env still) (\<lambda>_. cput (\<lambda>s. s\<lparr>im_pending := still\<rparr>))))
     (\<lambda>_ s. imp env F (im_pending s) s) (fin env)"
    by (rule triple_cbind [OF _ triple_cbind [OF finalize_completed_triple [OF assms] triple_cput]]) simp
  then show "triple (\<lambda>s. imp env F (im_pending s) s \<and> im_pending s = ps)
     (cbind (drain_loads env ps []) (\<lambda>still. cbind (finalize_completed_tables env still) (\<lambda>_. cput (\<lambda>s. s\<lparr>im_pending := still\<rparr>))))
     (\<lambda>_ s. imp env F (im_pending s) s) (fin env)"
    by (auto elim: triple_conseq)
qed

lemma wait_and_add_triple:
  "triple (imp env F (load # ps)) (wait_and_add env load) (\<lambda>_. imp env F ps) (fin env)"
  unfolding wait_and_add_def
proof (rule triple_read)
  fix work
  obtain t k where load: "load = (t, k)" by force
  have step: "imp env F ps s"
    if "imp env F (load # ps) s" "im_work s = work" "wait_for_load (ie_workers env) work t k = Inr r" for s r
    using that by (auto simp: load imp_def pending_ok_def delivered_def wait_for_load_def split: option.splits sum.splits)
  show "triple (\<lambda>s. imp env F (load # ps) s \<and> im_work s = work)
     (cbind (clift (wait_for_load (ie_workers env) work (fst load) (snd load))) (\<lambda>result. cput (add_result (fst load) result)))
     (\<lambda>_. imp env F ps) (fin env)"
    unfolding load fst_conv snd_conv
    by (rule triple_cbind [where R = "\<lambda>r s. imp env F ps s"], rule triple_clift)
      (use step in \<open>auto simp: load intro: imp_fin intro!: triple_cput\<close>)
qed

lemma finalize_table_pending:
  assumes "finalize_table env t n s = (r, s')"
  shows "im_pending s' = im_pending s"
proof -
  have "steps (\<lambda>s s'. im_pending s' = im_pending s) (finalize_table env t n)"
    unfolding finalize_table_def
    by (intro steps_cbind stepsI)
      (auto simp: cput_def count_table_def on_stats_def on_log_def check_fail_after_def transp_def
        split: option.splits prod.splits)
  then show ?thesis using assms by (rule stepsD)
qed

lemma imp_close: "imp env F ps s \<Longrightarrow> imp env F ps (s\<lparr>im_pending := [], im_deferred := Map.empty\<rparr>)"
  by (auto simp: imp_defs)

lemma wait_for_all_triple:
  assumes "enumerates (ie_order env)"
  shows "triple (\<lambda>s. imp env F (im_pending s) s) (wait_for_all_loads env) (\<lambda>_ s. imp env F (im_pending s) s) (fin env)"
  unfolding wait_for_all_loads_def
proof (rule triple_read)
  fix ps
  show "triple (\<lambda>s. imp env F (im_pending s) s \<and> im_pending s = ps)
    (cbind (ceach (wait_and_add env) ps) (\<lambda>_.
     cbind (cget im_deferred) (\<lambda>deferred.
     cbind (cput (\<lambda>s. s\<lparr>im_pending := [], im_deferred := Map.empty\<rparr>)) (\<lambda>_.
     ceach (\<lambda>table. finalize_table env table (the (deferred table))) (ie_order env (dom deferred))))))
    (\<lambda>_ s. imp env F (im_pending s) s) (fin env)"
  proof (rule triple_cbind [where R = "\<lambda>_. imp env F []"])
    have "triple (imp env F ps) (ceach (wait_and_add env) ps) (\<lambda>_. imp env F []) (fin env)"
      by (rule triple_ceach) (rule wait_and_add_triple)
    then show "triple (\<lambda>s. imp env F (im_pending s) s \<and> im_pending s = ps) (ceach (wait_and_add env) ps)
        (\<lambda>_. imp env F []) (fin env)" by (auto elim: triple_conseq)
    show "triple (imp env F []) (cbind (cget im_deferred) (\<lambda>deferred.
     cbind (cput (\<lambda>s. s\<lparr>im_pending := [], im_deferred := Map.empty\<rparr>)) (\<lambda>_.
     ceach (\<lambda>table. finalize_table env table (the (deferred table))) (ie_order env (dom deferred)))))
    (\<lambda>_ s. imp env F (im_pending s) s) (fin env)"
    proof (rule triple_read)
      fix deferred :: "string \<rightharpoonup> u64"
      let ?rest = "ceach (\<lambda>table. finalize_table env table (the (deferred table))) (ie_order env (dom deferred))"
      let ?I = "\<lambda>s. imp env F [] s \<and> im_pending s = []"
      show "triple (\<lambda>s. imp env F [] s \<and> im_deferred s = deferred)
        (cbind (cput (\<lambda>s. s\<lparr>im_pending := [], im_deferred := Map.empty\<rparr>)) (\<lambda>_. ?rest))
        (\<lambda>_ s. imp env F (im_pending s) s) (fin env)"
      proof (cases "finite (dom deferred) \<and> dom deferred \<inter> F = {}")
        case True
        have keep: "triple ?I (finalize_table env t n) (\<lambda>_. ?I) (fin env)" if "t \<notin> F" for t n
        proof -
          have a: "triple (imp env F []) (finalize_table env t n) (\<lambda>_. imp env F []) (fin env)"
            by (rule finalize_table_triple [OF that]) simp
          have b: "triple (\<lambda>s. im_pending s = []) (finalize_table env t n) (\<lambda>_ s. im_pending s = []) (\<lambda>_. True)"
            by (rule tripleI) (simp_all add: finalize_table_pending)
          show ?thesis by (rule triple_conseq [OF triple_conj [OF a b]]) simp_all
        qed
        have "triple ?I ?rest (\<lambda>_. ?I) (fin env)"
          using True order_set [OF assms] by (intro triple_ceach_inv keep) auto
        then have "triple ?I ?rest (\<lambda>_ s. imp env F (im_pending s) s) (fin env)" by (rule triple_conseq) auto
        then show ?thesis
          by (intro triple_cbind [where R = "\<lambda>_. ?I"] triple_cput) (simp_all add: imp_close)
      next
        case False
        then show ?thesis by (auto simp: triple_def imp_defs)
      qed
    qed
  qed
qed

section \<open>Messages\<close>

abbreviation between :: "import_env \<Rightarrow> string set \<Rightarrow> import_state \<Rightarrow> bool" where
  "between env F s \<equiv> imp env F (im_pending s) s"

lemma await_ddl_triple':
  assumes "\<And>s l. G s \<Longrightarrow> G (s\<lparr>im_ddls := l\<rparr>)"
  shows "triple (\<lambda>s. between env F s \<and> G s) (await_ddl env t) (\<lambda>_ s. between env F s \<and> G s) (fin env)"
proof -
  let ?P = "\<lambda>s. between env F s \<and> G s"
  have keep: "?P (s\<lparr>im_ddls := (im_ddls s)(t := None)\<rparr>)" if "?P s" for s
    using that assms by (simp add: imp_defs)
  have read: "triple (\<lambda>s. ?P s \<and> g s = x) m (\<lambda>_. ?P) (fin env)" if "triple ?P m (\<lambda>_. ?P) (fin env)"
    for g :: "import_state \<Rightarrow> 'x" and x m
    using that by (rule triple_conseq) auto
  show ?thesis
    unfolding await_ddl_def
  proof (rule triple_read, rule read)
    fix rx
    show "triple ?P (case rx of None \<Rightarrow> cret () | Some k \<Rightarrow>
         cbind (cput (\<lambda>s. s\<lparr>im_ddls := (im_ddls s)(t := None)\<rparr>)) (\<lambda>_.
         cbind (cget im_work) (\<lambda>work. clift (wait_ddl (ie_workers env) work t k)))) (\<lambda>_. ?P) (fin env)"
    proof (cases rx)
      case (Some k)
      show ?thesis unfolding Some option.case
        by (rule triple_cbind [where R = "\<lambda>_. ?P"], rule triple_cput, erule keep, rule triple_read, rule read, rule triple_clift)
          (auto intro: imp_fin)
    qed (auto intro!: triple_cret)
  qed
qed

lemma await_ddl_triple: "triple (between env F) (await_ddl env t) (\<lambda>_. between env F) (fin env)"
  using await_ddl_triple' [of "\<lambda>_. True" env F t] by simp

lemma submit_triple:
  assumes "\<And>s. P s \<Longrightarrow> between env F s"
    and "\<And>s. P s \<Longrightarrow> Q (length (im_work s)) (s\<lparr>im_work := im_work s @ [w]\<rparr>)"
  shows "triple P (submit env w) Q (fin env)"
  using assms by (auto simp: submit_def Let_def intro!: tripleI imp_fin split: if_splits)

lemma delivered_snoc:
  assumes "all_delivered env work t" "\<And>c d m x. w \<noteq> LoadData t c d m x"
  shows "all_delivered env (work @ [w]) t"
  unfolding all_delivered_def
proof (intro allI impI)
  fix k
  assume "load_of (work @ [w]) t k"
  then have "load_of work t k" using assms(2) by (auto simp: load_of_snoc)
  then show "delivered env (work @ [w]) k"
    using assms(1) by (simp add: all_delivered_def delivered_append load_of_less)
qed

lemma marked_snoc:
  assumes "marked_ok env s" "\<And>t c d m x. w = LoadData t c d m x \<Longrightarrow> t \<notin> names_of s"
  shows "marked_ok env (s\<lparr>im_work := im_work s @ [w]\<rparr>)"
proof -
  have "all_delivered env (im_work s @ [w]) t" if "t \<in> names_of s" for t
    using that assms by (intro delivered_snoc) (auto simp: marked_ok_def)
  then show ?thesis by (simp add: marked_ok_def)
qed

lemma pending_snoc:
  assumes p: "pending_ok env ps s" and sub: "set ps \<subseteq> set qs" and less: "\<forall>(t, k) \<in> set qs. k < Suc (length (im_work s))"
    and new: "\<And>t c d m x. w = LoadData t c d m x \<Longrightarrow> (t, length (im_work s)) \<in> set qs"
  shows "pending_ok env qs (s\<lparr>im_work := im_work s @ [w]\<rparr>)"
proof -
  have "(t, k) \<in> set qs \<or> delivered env (im_work s @ [w]) k" if "load_of (im_work s @ [w]) t k" for t k
  proof (cases "load_of (im_work s) t k")
    case True
    then have "(t, k) \<in> set ps \<or> delivered env (im_work s) k" using p by (simp add: pending_ok_def)
    then show ?thesis using sub load_of_less [OF True] by (auto simp: delivered_append)
  next
    case False
    then show ?thesis using that new by (auto simp: load_of_snoc)
  qed
  then show ?thesis using less by (simp add: pending_ok_def)
qed

lemma imp_create:
  assumes "imp env F ps s" "t \<notin> ie_completed env"
  shows "imp env F ps (s\<lparr>im_work := im_work s @ [CreateTable t c ix op an]\<rparr>)"
proof -
  have "pending_ok env ps (s\<lparr>im_work := im_work s @ [CreateTable t c ix op an]\<rparr>)"
    by (rule pending_snoc [where ps = ps]) (use assms in \<open>auto simp: imp_def pending_ok_def\<close>)
  moreover have "marked_ok env (s\<lparr>im_work := im_work s @ [CreateTable t c ix op an]\<rparr>)"
    by (rule marked_snoc) (use assms in \<open>auto simp: imp_def\<close>)
  ultimately show ?thesis using assms by (auto simp: imp_def closed_ok_def skip_ok_def maps_finite_def)
qed

lemma imp_schema:
  assumes "imp env F ps s" "t \<in> F" "t \<notin> ie_completed env"
  shows "imp env F ps (s\<lparr>im_schemas := (im_schemas s)(t \<mapsto> c)\<rparr>)"
  using assms by (auto simp: imp_defs)

lemma handle_schema_triple:
  assumes "\<And>t. ie_ids env i = Some t \<Longrightarrow> t \<in> F"
  shows "triple (between env F) (handle_schema env i cols ix op) (\<lambda>_. between env F) (fin env)"
proof -
  let ?P = "between env F"
  have put: "triple ?P (cput f) (\<lambda>_. ?P) (fin env)" if "\<And>s. ?P s \<Longrightarrow> ?P (f s)" for f
    using that by (rule triple_cput)
  have log: "triple ?P (on_log m) (\<lambda>_. ?P) (fin env)" for m :: "(statement list, 'x) cstep"
    by (rule triple_on_log) (auto intro: imp_fin)
  have body: "triple ?P (
       cbind (cput (\<lambda>s. s\<lparr>im_schemas := (im_schemas s)(t \<mapsto> cols)\<rparr>)) (\<lambda>_.
       cbind (if ps \<noteq> [] then
                cbind (on_log (backup_preserved_rows (ie_db env) t ps)) (\<lambda>kept.
                if kept then cput (\<lambda>s. s\<lparr>im_preserved := im_preserved s @ [t]\<rparr>) else cret ())
              else cret ()) (\<lambda>_.
       if ie_pool env then
         cbind (submit env (CreateTable t cols ix op an)) (\<lambda>k.
         cput (\<lambda>s. s\<lparr>im_ddls := (im_ddls s)(t \<mapsto> k)\<rparr>))
       else on_log (create_table (ie_db env) t cols ix op an)))) (\<lambda>_. ?P) (fin env)"
    if "t \<in> F" "t \<notin> ie_completed env" for t ps an
  proof (rule triple_cbind [where R = "\<lambda>_. ?P"], rule put)
    show "between env F (s\<lparr>im_schemas := (im_schemas s)(t \<mapsto> cols)\<rparr>)" if "between env F s" for s
      using imp_schema [OF that \<open>t \<in> F\<close> \<open>t \<notin> ie_completed env\<close>] by simp
    have keep: "triple ?P (if ps \<noteq> [] then
                cbind (on_log (backup_preserved_rows (ie_db env) t ps)) (\<lambda>kept.
                if kept then cput (\<lambda>s. s\<lparr>im_preserved := im_preserved s @ [t]\<rparr>) else cret ())
              else cret ()) (\<lambda>_. ?P) (fin env)"
      by (intro triple_if triple_cbind [where R = "\<lambda>_. ?P"] log put triple_cret) simp_all
    have sub: "triple ?P (cbind (submit env (CreateTable t cols ix op an)) (\<lambda>k.
         cput (\<lambda>s. s\<lparr>im_ddls := (im_ddls s)(t \<mapsto> k)\<rparr>))) (\<lambda>_. ?P) (fin env)"
    proof (rule triple_cbind [where R = "\<lambda>_. ?P"], rule submit_triple)
      show "between env F (s\<lparr>im_work := im_work s @ [CreateTable t cols ix op an]\<rparr>)" if "between env F s" for s
        using imp_create [OF that \<open>t \<notin> ie_completed env\<close>] by simp
      show "triple ?P (cput (\<lambda>s. s\<lparr>im_ddls := (im_ddls s)(t \<mapsto> k)\<rparr>)) (\<lambda>_. ?P) (fin env)" for k
        by (rule put) (use imp_set_ddl in simp)
    qed
    show "triple ?P (cbind (if ps \<noteq> [] then
                cbind (on_log (backup_preserved_rows (ie_db env) t ps)) (\<lambda>kept.
                if kept then cput (\<lambda>s. s\<lparr>im_preserved := im_preserved s @ [t]\<rparr>) else cret ())
              else cret ()) (\<lambda>_. if ie_pool env then cbind (submit env (CreateTable t cols ix op an)) (\<lambda>k.
         cput (\<lambda>s. s\<lparr>im_ddls := (im_ddls s)(t \<mapsto> k)\<rparr>)) else on_log (create_table (ie_db env) t cols ix op an)))
         (\<lambda>_. ?P) (fin env)"
      by (rule triple_cbind [OF keep]) (intro triple_if sub log)
  qed
  show ?thesis
    unfolding handle_schema_def table_name_def
  proof (rule triple_cbind [where R = "\<lambda>t s. ?P s \<and> ie_ids env i = Some t"], rule triple_clift)
    fix t
    show "triple (\<lambda>s. ?P s \<and> ie_ids env i = Some t)
       (if t \<in> ie_completed env then cput (\<lambda>s. s\<lparr>im_skipped := insert t (im_skipped s)\<rparr>)
        else let table_preserves = filter (\<lambda>p. pr_table p = t) (preserves (ie_plan env)); anon_rules = anonymization (ie_plan env) t
          in cbind (cput (\<lambda>s. s\<lparr>im_schemas := (im_schemas s)(t \<mapsto> cols)\<rparr>)) (\<lambda>_.
           cbind (if table_preserves \<noteq> [] then
                cbind (on_log (backup_preserved_rows (ie_db env) t table_preserves)) (\<lambda>kept.
                if kept then cput (\<lambda>s. s\<lparr>im_preserved := im_preserved s @ [t]\<rparr>) else cret ())
              else cret ()) (\<lambda>_.
           if ie_pool env then
             cbind (submit env (CreateTable t cols ix op anon_rules)) (\<lambda>k.
             cput (\<lambda>s. s\<lparr>im_ddls := (im_ddls s)(t \<mapsto> k)\<rparr>))
           else on_log (create_table (ie_db env) t cols ix op anon_rules)))) (\<lambda>_. ?P) (fin env)"
      unfolding Let_def using assms
      by (intro triple_pure triple_if put body) simp_all
  qed (auto intro: imp_fin split: option.splits)
qed

lemma bound_pending_triple:
  assumes "enumerates (ie_order env)"
  shows "triple (between env F) (bound_pending env) (\<lambda>_. between env F) (fin env)"
proof -
  have oldest: "triple (\<lambda>s. between env F s \<and> im_pending s = ps)
     (cbind (wait_and_add env (hd ps)) (\<lambda>_. cput (\<lambda>s. s\<lparr>im_pending := tl ps\<rparr>))) (\<lambda>_. between env F) (fin env)"
    if "MAX_PENDING_CHUNKS < length ps" for ps
  proof -
    have ps: "ps = hd ps # tl ps" using that by (cases ps) auto
    have "triple (imp env F ps) (wait_and_add env (hd ps)) (\<lambda>_. imp env F (tl ps)) (fin env)"
      using wait_and_add_triple [of env F "hd ps" "tl ps"] ps by simp
    then have "triple (imp env F ps) (cbind (wait_and_add env (hd ps)) (\<lambda>_. cput (\<lambda>s. s\<lparr>im_pending := tl ps\<rparr>)))
      (\<lambda>_. between env F) (fin env)"
      by (rule triple_cbind) (simp add: triple_cput)
    then show ?thesis by (rule triple_conseq) auto
  qed
  have drain: "triple (\<lambda>s. between env F s \<and> length (im_pending s) = n) (drain_completed_loads env) (\<lambda>_. between env F) (fin env)" for n
    using drain_completed_triple [OF assms] by (rule triple_conseq) auto
  show ?thesis
    unfolding bound_pending_def
    by (intro triple_read triple_if triple_cbind [OF drain] oldest) (auto intro!: triple_cret)
qed

lemma imp_load:
  assumes "imp env F (im_pending s) s" "t \<notin> ie_completed env" "t \<notin> names_of s"
  shows "imp env F (im_pending s @ [(t, length (im_work s))]) (s\<lparr>im_work := im_work s @ [LoadData t c d m x]\<rparr>)"
proof -
  have "pending_ok env (im_pending s @ [(t, length (im_work s))]) (s\<lparr>im_work := im_work s @ [LoadData t c d m x]\<rparr>)"
    by (rule pending_snoc [where ps = "im_pending s"]) (use assms in \<open>auto simp: imp_def pending_ok_def less_Suc_eq\<close>)
  moreover have "marked_ok env (s\<lparr>im_work := im_work s @ [LoadData t c d m x]\<rparr>)"
    by (rule marked_snoc) (use assms in \<open>auto simp: imp_def\<close>)
  ultimately show ?thesis using assms by (auto simp: imp_def closed_ok_def skip_ok_def maps_finite_def)
qed

lemma load_pooled_triple:
  assumes "enumerates (ie_order env)" "t \<notin> ie_completed env"
  shows "triple (\<lambda>s. between env F s \<and> t \<notin> names_of s) (load_pooled env t c n d) (\<lambda>_. between env F) (fin env)"
  unfolding load_pooled_def
proof (rule triple_cbind [OF await_ddl_triple'])
  show "triple (\<lambda>s. between env F s \<and> t \<notin> names_of s)
     (cbind (submit env (LoadData t c d (ie_compression env) (ucast n))) (\<lambda>k.
      cbind (cput (\<lambda>s. s\<lparr>im_pending := im_pending s @ [(t, k)]\<rparr>)) (\<lambda>_. bound_pending env)))
     (\<lambda>_. between env F) (fin env)"
  proof (rule triple_cbind [where R = "\<lambda>k s. imp env F (im_pending s @ [(t, k)]) s"])
    show "triple (\<lambda>s. between env F s \<and> t \<notin> names_of s) (submit env (LoadData t c d (ie_compression env) (ucast n)))
      (\<lambda>k s. imp env F (im_pending s @ [(t, k)]) s) (fin env)"
      by (rule submit_triple [where F = F]) (use imp_load assms in auto)
    show "triple (\<lambda>s. imp env F (im_pending s @ [(t, k)]) s)
      (cbind (cput (\<lambda>s. s\<lparr>im_pending := im_pending s @ [(t, k)]\<rparr>)) (\<lambda>_. bound_pending env)) (\<lambda>_. between env F) (fin env)" for k
      by (rule triple_cbind [OF triple_cput bound_pending_triple [OF assms(1)]]) simp
  qed
qed simp

lemma load_sequential_triple: "triple (between env F) (load_sequential env t c n d) (\<lambda>_. between env F) (fin env)"
  unfolding load_sequential_def
  by (intro triple_cbind [where R = "\<lambda>_. between env F"] triple_clift triple_on_log triple_cput)
    (auto intro: imp_fin)

lemma handle_data_triple:
  assumes "enumerates (ie_order env)"
  shows "triple (between env F) (handle_data env i n d) (\<lambda>_. between env F) (fin env)"
proof -
  let ?P = "between env F"
  have body: "triple (\<lambda>s. ?P s \<and> im_schemas s t = found)
       (case found of None \<Rightarrow> clift (Inl (''No schema for table '' @ t))
        | Some schema \<Rightarrow> if ie_pool env then load_pooled env t schema n d else load_sequential env t schema n d)
       (\<lambda>_. ?P) (fin env)" for t found
  proof (cases found)
    case None
    then show ?thesis by (auto intro!: triple_clift intro: imp_fin)
  next
    case (Some schema)
    show ?thesis
    proof (cases "t \<in> ie_completed env")
      case True
      then show ?thesis by (auto simp: triple_def Some imp_def skip_ok_def)
    next
      case False
      have "triple (\<lambda>s. ?P s \<and> im_schemas s t = found) (load_pooled env t schema n d) (\<lambda>_. ?P) (fin env)"
        by (rule triple_conseq [OF load_pooled_triple [OF assms False]]) (auto simp: Some imp_def closed_ok_def)
      moreover have "triple (\<lambda>s. ?P s \<and> im_schemas s t = found) (load_sequential env t schema n d) (\<lambda>_. ?P) (fin env)"
        by (rule triple_conseq [OF load_sequential_triple]) auto
      ultimately show ?thesis by (simp add: Some)
    qed
  qed
  show ?thesis
    unfolding handle_data_def table_name_def
    apply (rule triple_cbind [where R = "\<lambda>t. ?P"], rule triple_clift, assumption, erule imp_fin)
    apply (rule triple_read, rule triple_if)
    apply (auto intro!: triple_cret) []
    apply (rule triple_read)
    subgoal for t sk found
      using body [of t found] by (rule triple_conseq) auto
    done
qed

lemma handle_table_done_triple:
  assumes "enumerates (ie_order env)" "\<And>t. ie_ids env i = Some t \<Longrightarrow> t \<notin> F"
  shows "triple (between env F) (handle_table_done env i n m) (\<lambda>_. between env F) (fin env)"
proof -
  let ?P = "between env F"
  have body: "triple ?P (cbind (await_ddl env t) (\<lambda>_.
       cbind (cput (\<lambda>s. s\<lparr>im_deferred := (im_deferred s)(t \<mapsto> n)\<rparr>)) (\<lambda>_. drain_completed_loads env))) (\<lambda>_. ?P) (fin env)"
    if "t \<notin> F" for t
    by (rule triple_cbind [OF await_ddl_triple], rule triple_cbind [OF triple_cput drain_completed_triple [OF assms(1)]])
      (use that in \<open>auto simp: imp_defs\<close>)
  have stats: "?P (if m \<noteq> None then on_stats (\<lambda>st. st\<lparr>is_server_metrics := m\<rparr>) s else s)" if "?P s" for s
    using that by (auto simp: imp_defs)
  show ?thesis
    unfolding handle_table_done_def table_name_def
    apply (rule triple_cbind [where R = "\<lambda>t s. ?P s \<and> t \<notin> F"], rule triple_clift)
    using assms(2) apply (auto split: option.splits) []
    apply (auto intro: imp_fin) []
    apply (rule triple_pure)
    apply (rule triple_cbind [where R = "\<lambda>_. ?P"], rule triple_cput, erule stats)
    apply (rule triple_read, rule triple_if)
    apply (auto intro!: triple_cret) []
    subgoal for t u sk
      using body [of t] by (rule triple_conseq) auto
    done
qed

lemma handle_done_triple:
  assumes "enumerates (ie_order env)"
  shows "triple (between env F) (handle_done env m fks) (\<lambda>_. between env F) (fin env)"
proof -
  let ?P = "between env F"
  have stats: "?P (on_stats f s)" if "?P s" "is_names (f (im_stats s)) = is_names (im_stats s)" for f s
    using that by (simp add: imp_defs)
  have rest: "triple ?P (cbind (ceach (await_ddl env) ts) (\<lambda>_.
     cbind (wait_for_all_loads env) (\<lambda>_. cput (on_stats (\<lambda>st. st\<lparr>is_server_metrics := m\<rparr>))))) (\<lambda>_. ?P) (fin env)" for ts
    by (rule triple_cbind [OF triple_ceach_inv [OF await_ddl_triple]],
        rule triple_cbind [OF wait_for_all_triple [OF assms] triple_cput]) (simp add: stats)
  show ?thesis
    unfolding handle_done_def
    apply (rule triple_cbind [where R = "\<lambda>_. ?P"], rule triple_cput, simp add: stats)
    apply (rule triple_read)
    subgoal for u ddls
      using rest [of "ie_order env (dom ddls)"] by (rule triple_conseq) auto
    done
qed

text \<open>The tables whose schema is still to come, and messages that never announce a table again after it is done.\<close>

definition announced :: "import_env \<Rightarrow> event list \<Rightarrow> string set" where
  "announced env es = {t. \<exists>i c ix op. Arrived (Inr (Schema i c ix op)) \<in> set es \<and> ie_ids env i = Some t}"

fun schemas_first :: "import_env \<Rightarrow> event list \<Rightarrow> bool" where
  "schemas_first env [] = True"
| "schemas_first env (Arrived (Inr (TableDone i n m)) # es) \<longleftrightarrow>
     (\<forall>t. ie_ids env i = Some t \<longrightarrow> t \<notin> announced env es) \<and> schemas_first env es"
| "schemas_first env (e # es) \<longleftrightarrow> schemas_first env es"

lemma imp_mono: "imp env F ps s \<Longrightarrow> G \<subseteq> F \<Longrightarrow> imp env G ps s"
  by (auto simp: imp_def closed_ok_def)

lemma handle_message_triple:
  assumes "enumerates (ie_order env)" "schemas_first env (Arrived (Inr m) # es)"
  shows "triple (between env (announced env (Arrived (Inr m) # es))) (handle_message env m)
    (\<lambda>_. between env (announced env es)) (fin env)"
proof -
  let ?F = "announced env (Arrived (Inr m) # es)"
  have sub: "announced env es \<subseteq> ?F" by (auto simp: announced_def)
  have seq: "triple (between env ?F) (cbind h (\<lambda>_. cret b)) (\<lambda>_. between env (announced env es)) (fin env)"
    if "triple (between env ?F) h (\<lambda>_. between env ?F) (fin env)" for h :: "(import_state, unit) cstep" and b :: bool
    by (rule triple_cbind [OF that], rule triple_cret) (erule imp_mono [OF _ sub])
  have stop: "triple (between env ?F) (clift (Inl e)) Q (fin env)" for e and Q :: "bool \<Rightarrow> import_state \<Rightarrow> bool"
    by (rule triple_clift) (auto intro: imp_fin)
  have go: "triple (between env ?F) (cret b) (\<lambda>_. between env (announced env es)) (fin env)" for b :: bool
    by (rule triple_cret) (erule imp_mono [OF _ sub])
  show ?thesis
  proof (cases m)
    case (Schema i c ix op)
    have "triple (between env ?F) (handle_schema env i c ix op) (\<lambda>_. between env ?F) (fin env)"
      by (rule handle_schema_triple) (use Schema in \<open>auto simp: announced_def\<close>)
    from seq [OF this] show ?thesis by (simp add: Schema handle_message_def)
  next
    case (Data i n d)
    from seq [OF handle_data_triple [OF assms(1)]] show ?thesis by (simp add: Data handle_message_def)
  next
    case (TableDone i n mt)
    have "triple (between env ?F) (handle_table_done env i n mt) (\<lambda>_. between env ?F) (fin env)"
      by (rule handle_table_done_triple [OF assms(1)]) (use TableDone assms(2) in \<open>auto simp: announced_def\<close>)
    from seq [OF this] show ?thesis by (simp add: TableDone handle_message_def)
  next
    case (SmDone ds mt fks)
    from seq [OF handle_done_triple [OF assms(1)]] show ?thesis by (simp add: SmDone handle_message_def)
  next
    case (SmError msg rec)
    show ?thesis using go [of False] stop by (cases rec) (simp_all add: SmError handle_message_def)
  next
    case (Ready ts c)
    show ?thesis using stop by (simp add: Ready handle_message_def)
  next
    case (DryRunReport ds cs)
    show ?thesis using stop by (simp add: DryRunReport handle_message_def)
  qed
qed

lemma import_loop_triple:
  "enumerates (ie_order env) \<Longrightarrow> schemas_first env es \<Longrightarrow>
    triple (between env (announced env es)) (import_loop env es) (\<lambda>_. between env {}) (fin env)"
proof (induction env es rule: import_loop.induct)
  case (4 env m es)
  have first: "schemas_first env es" using 4(3) by (cases m) auto
  have go: "triple (between env (announced env es)) (if b then cret () else import_loop env es) (\<lambda>_. between env {}) (fin env)" for b
    using 4(1) [of False] 4(2) first by (auto intro!: triple_cret intro: imp_mono)
  show ?case
    unfolding import_loop.simps by (rule triple_cbind [OF handle_message_triple [OF 4(2,3)] go])
qed (auto intro!: triple_clift intro: imp_fin)

lemma fresh_imp: "imp env F [] (fresh_import log sent)"
  by (simp add: imp_defs fresh_import_def no_stats_def all_delivered_def load_of_def)

lemma import_loop_fin:
  assumes "enumerates (ie_order env)" "schemas_first env es" "import_loop env es (fresh_import log sent) = (r, s)"
  shows "fin env s"
proof -
  have "between env (announced env es) (fresh_import log sent)"
    using fresh_imp [of env "announced env es" log sent] by (simp add: fresh_import_def)
  then show ?thesis
    using import_loop_triple [OF assms(1,2)] assms(3)
    by (cases r) (auto dest: triple_Inl triple_Inr intro: imp_fin)
qed

lemma import_loop_between:
  assumes "enumerates (ie_order env)" "schemas_first env es" "import_loop env es (fresh_import log sent) = (Inr u, s)"
  shows "between env {} s"
proof -
  have "between env (announced env es) (fresh_import log sent)"
    using fresh_imp [of env "announced env es" log sent] by (simp add: fresh_import_def)
  then show ?thesis by (rule triple_Inr [OF import_loop_triple [OF assms(1,2)] _ assms(3)])
qed

section \<open>Messages and loads\<close>

text \<open>The loads submitted for a table, and the chunks the server sent for it, in order.\<close>

fun load_payload :: "string \<Rightarrow> load_work \<Rightarrow> (u64 \<times> bytes) list" where
  "load_payload t (LoadData t' c d m x) = (if t' = t then [(x, d)] else [])"
| "load_payload t (CreateTable t' c ix op an) = []"

definition loads_for :: "string \<Rightarrow> load_work list \<Rightarrow> (u64 \<times> bytes) list" where
  "loads_for t work = concat (map (load_payload t) work)"

fun chunk_payload :: "import_env \<Rightarrow> string \<Rightarrow> server_message \<Rightarrow> (u64 \<times> bytes) list" where
  "chunk_payload env t (Data i n d) = (if ie_ids env i = Some t then [(ucast n, d)] else [])"
| "chunk_payload env t _ = []"

definition chunks_for :: "import_env \<Rightarrow> string \<Rightarrow> server_message list \<Rightarrow> (u64 \<times> bytes) list" where
  "chunks_for env t ms = concat (map (chunk_payload env t) ms)"

definition tables_done :: "import_env \<Rightarrow> server_message list \<Rightarrow> string set" where
  "tables_done env ms = {t. \<exists>i n m. TableDone i n m \<in> set ms \<and> ie_ids env i = Some t}"

text \<open>The messages that are handled to the end, before the loop stops or a message fails.\<close>

fun handled :: "import_env \<Rightarrow> event list \<Rightarrow> import_state \<Rightarrow> server_message list" where
  "handled env (Arrived (Inr m) # es) s =
     (case handle_message env m s of
        (Inl e, s') \<Rightarrow> []
      | (Inr finished, s') \<Rightarrow> m # (if finished then [] else handled env es s'))"
| "handled env _ s = []"

text \<open>Steps that submit no loads and count no tables but those of \<open>D\<close>.\<close>

definition counted :: "import_state \<Rightarrow> string set" where
  "counted s = names_of s \<union> dom (im_deferred s)"

definition frame :: "import_env \<Rightarrow> string set \<Rightarrow> import_state \<Rightarrow> import_state \<Rightarrow> bool" where
  "frame env D s s' \<longleftrightarrow> (maps_finite s \<longrightarrow>
     maps_finite s' \<and> counted s' \<subseteq> counted s \<union> D \<and> (\<forall>t. loads_for t (im_work s') = loads_for t (im_work s)) \<and>
     (im_skipped s \<subseteq> ie_completed env \<longrightarrow> im_skipped s' \<subseteq> ie_completed env))"

lemma frame_rules: "reflp (frame env D)" "transp (frame env D)"
  by (auto simp: reflp_def transp_def frame_def)

lemmas frame_intros = steps_cbind [OF _ _ frame_rules(2)] steps_pure(1) [OF frame_rules(1)]
  steps_pure(2) [OF frame_rules(1)] steps_pure(3) [OF frame_rules(1)]

lemma frame_put: "(\<And>s. frame env D s (f s)) \<Longrightarrow> steps (frame env D) (cput f)"
  by (auto simp: steps_def cput_def)

lemma frame_on_log: "steps (frame env D) (on_log m)"
  by (auto simp: steps_def on_log_def frame_def counted_def maps_finite_def split: prod.splits)

lemma frame_try_recv: "steps (frame env D) (try_recv env k)"
  by (auto simp: steps_def try_recv_def frame_def counted_def maps_finite_def)

lemma frame_add_result: "frame env D s (add_result t r s)"
  by (simp add: frame_def counted_def maps_finite_def add_result_def on_stats_def)

lemma frame_drain: "steps (frame env D) (drain_loads env loads still)"
proof (induction loads arbitrary: still)
  case (Cons load loads)
  obtain t k where load: "load = (t, k)" by force
  show ?case unfolding load drain_loads.simps
    by (intro steps_cbind [OF frame_try_recv _ frame_rules(2)])
      (auto intro!: frame_intros frame_put frame_add_result Cons.IH split: received.splits sum.splits)
qed (auto intro!: frame_intros)

lemma frame_check: "steps (frame env D) (check_fail_after env)"
  by (auto simp: steps_def check_fail_after_def frame_def split: option.splits)

lemma frame_finalize: "t \<in> D \<Longrightarrow> steps (frame env D) (finalize_table env t n)"
  unfolding finalize_table_def
  by (intro frame_intros frame_put frame_on_log frame_check)
    (auto simp: frame_def counted_def maps_finite_def count_table_def on_stats_def)

lemma frame_finalize_deferred: "t \<in> D \<Longrightarrow> steps (frame env D) (finalize_deferred env t)"
  unfolding finalize_deferred_def
  by (intro frame_intros frame_put frame_finalize) (auto simp: frame_def counted_def maps_finite_def)

lemma frame_inside: "frame env D s s' \<Longrightarrow> D \<subseteq> counted s \<union> G \<Longrightarrow> frame env G s s'"
  by (auto simp: frame_def)

lemma steps_read:
  assumes "\<And>s. R s (snd (f (g s) s))"
  shows "steps R (cbind (cget g) f)"
  using assms by (simp add: steps_def cbind_def cget_def)

lemma stepsS: "steps R m \<Longrightarrow> R s (snd (m s))"
  by (simp add: steps_def)

lemma frame_finalize_completed:
  assumes "enumerates (ie_order env)"
  shows "steps (frame env D) (finalize_completed_tables env ps)"
proof (rule stepsI)
  fix s :: import_state
  let ?d = "dom (im_deferred s)"
  let ?ready = "filter (\<lambda>t. t \<notin> fst ` set ps) (ie_order env ?d)"
  have "frame env ?d s (snd (ceach (finalize_deferred env) ?ready s))"
  proof (cases "finite ?d")
    case True
    show ?thesis
      by (rule stepsS, intro steps_ceach frame_finalize_deferred frame_rules) (use order_set [OF assms True] in auto)
  qed (simp add: frame_def maps_finite_def)
  then have "frame env D s (snd (ceach (finalize_deferred env) ?ready s))"
    by (rule frame_inside) (auto simp: counted_def)
  moreover have "frame env D s s" by (simp add: frame_def)
  ultimately show "frame env D s (snd (finalize_completed_tables env ps s))"
    by (simp add: finalize_completed_tables_def cbind_def cget_def Let_def cret_def)
qed

lemma frame_drain_completed:
  "enumerates (ie_order env) \<Longrightarrow> steps (frame env D) (drain_completed_loads env)"
  unfolding drain_completed_loads_def
  by (intro frame_intros frame_drain frame_finalize_completed frame_put) (auto simp: frame_def counted_def maps_finite_def)

lemma frame_wait_and_add: "steps (frame env D) (wait_and_add env load)"
  unfolding wait_and_add_def by (intro frame_intros frame_put frame_add_result)

lemma frame_bound:
  "enumerates (ie_order env) \<Longrightarrow> steps (frame env D) (bound_pending env)"
  unfolding bound_pending_def
  by (auto intro!: frame_intros frame_drain_completed frame_wait_and_add frame_put)
    (auto simp: frame_def counted_def maps_finite_def)

lemma frame_await_ddl: "steps (frame env D) (await_ddl env t)"
  unfolding await_ddl_def
  by (auto intro!: frame_intros frame_put split: option.splits) (auto simp: frame_def counted_def maps_finite_def)

lemma frame_wait_for_all:
  assumes "enumerates (ie_order env)"
  shows "steps (frame env D) (wait_for_all_loads env)"
  unfolding wait_for_all_loads_def
proof -
  have wait: "steps (frame env D) (ceach (wait_and_add env) ps)" for ps
    by (intro steps_ceach frame_wait_and_add frame_rules)
  have rest: "steps (frame env D) (cbind (cget im_deferred) (\<lambda>deferred.
     cbind (cput (\<lambda>s. s\<lparr>im_pending := [], im_deferred := Map.empty\<rparr>)) (\<lambda>_.
     ceach (\<lambda>table. finalize_table env table (the (deferred table))) (ie_order env (dom deferred)))))"
  proof (rule steps_read)
    fix s :: import_state
    let ?d = "dom (im_deferred s)"
    let ?f = "\<lambda>table. finalize_table env table (the (im_deferred s table))"
    have "frame env ?d s (snd (cbind (cput (\<lambda>s. s\<lparr>im_pending := [], im_deferred := Map.empty\<rparr>)) (\<lambda>_. ceach ?f (ie_order env ?d)) s))"
    proof (cases "finite ?d")
      case True
      show ?thesis
        by (rule stepsS, intro frame_intros frame_put steps_ceach frame_finalize frame_rules)
          (use order_set [OF assms True] in \<open>auto simp: frame_def counted_def maps_finite_def\<close>)
    qed (simp add: frame_def maps_finite_def)
    then show "frame env D s (snd (cbind (cput (\<lambda>s. s\<lparr>im_pending := [], im_deferred := Map.empty\<rparr>)) (\<lambda>_. ceach ?f (ie_order env ?d)) s))"
      by (rule frame_inside) (auto simp: counted_def)
  qed
  show "steps (frame env D) (cbind (cget im_pending) (\<lambda>pending_loads.
     cbind (ceach (wait_and_add env) pending_loads) (\<lambda>_.
     cbind (cget im_deferred) (\<lambda>deferred.
     cbind (cput (\<lambda>s. s\<lparr>im_pending := [], im_deferred := Map.empty\<rparr>)) (\<lambda>_.
     ceach (\<lambda>table. finalize_table env table (the (deferred table))) (ie_order env (dom deferred)))))))"
    by (rule steps_cbind [OF steps_pure(3) [OF frame_rules(1)] _ frame_rules(2)],
        rule steps_cbind [OF wait rest frame_rules(2)])
qed

lemma frame_handle_done:
  assumes "enumerates (ie_order env)"
  shows "steps (frame env D) (handle_done env m fks)"
  unfolding handle_done_def
  by (intro frame_intros frame_put steps_ceach frame_await_ddl frame_wait_for_all [OF assms] frame_rules)
    (auto simp: frame_def counted_def on_stats_def maps_finite_def)

lemma frame_handle_table_done:
  assumes "enumerates (ie_order env)" "\<And>t. ie_ids env i = Some t \<Longrightarrow> t \<in> D"
  shows "steps (frame env D) (handle_table_done env i n m)"
proof -
  have put: "steps (frame env D) (cput (\<lambda>s. s\<lparr>im_deferred := (im_deferred s)(t \<mapsto> n)\<rparr>))" if "t \<in> D" for t
    by (rule frame_put) (use that in \<open>auto simp: frame_def counted_def maps_finite_def\<close>)
  have stats: "steps (frame env D) (cput (\<lambda>s. if m \<noteq> None then on_stats (\<lambda>st. st\<lparr>is_server_metrics := m\<rparr>) s else s))"
    by (rule frame_put) (auto simp: frame_def counted_def on_stats_def maps_finite_def)
  show ?thesis
  proof (cases "ie_ids env i")
    case None
    have "(\<lambda>x. cbind (clift (Inl e)) f) = (\<lambda>x :: unit. (clift (Inl e) :: (import_state, unit) cstep))" for e and f :: "string \<Rightarrow> (import_state, unit) cstep"
      by (simp add: cbind_def clift_def fun_eq_iff)
    then show ?thesis
      by (simp add: handle_table_done_def table_name_def None steps_def cbind_def clift_def frame_def)
  next
    case (Some t)
    have name: "table_name env i what = cret t" for what
      by (simp add: table_name_def Some clift_def cret_def fun_eq_iff)
    have ret: "cbind (cret t) f = f t" for f :: "string \<Rightarrow> (import_state, unit) cstep"
      by (simp add: cbind_def cret_def fun_eq_iff)
    show ?thesis
      unfolding handle_table_done_def name ret
      by (intro frame_intros stats)
        (auto intro!: frame_intros frame_await_ddl put frame_drain_completed assms Some)
  qed
qed

lemma frame_submit_create: "steps (frame env D) (submit env (CreateTable t c ix op an))"
  by (auto simp: steps_def submit_def Let_def frame_def counted_def loads_for_def maps_finite_def)

lemma frame_handle_schema: "steps (frame env D) (handle_schema env i c ix op)"
  unfolding handle_schema_def Let_def
  by (auto simp: table_name_def intro!: frame_intros frame_put frame_on_log frame_submit_create)
    (auto simp: frame_def counted_def maps_finite_def)

section \<open>Chunks and loads\<close>

text \<open>A step that submits exactly one load.\<close>

definition loads_one :: "import_env \<Rightarrow> string \<Rightarrow> u64 \<times> bytes \<Rightarrow> import_state \<Rightarrow> import_state \<Rightarrow> bool" where
  "loads_one env t p s s' \<longleftrightarrow> (maps_finite s \<longrightarrow>
     maps_finite s' \<and> counted s' \<subseteq> counted s \<and>
     (\<forall>u. loads_for u (im_work s') = loads_for u (im_work s) @ (if u = t then [p] else [])) \<and>
     (im_skipped s \<subseteq> ie_completed env \<longrightarrow> im_skipped s' \<subseteq> ie_completed env))"

lemma loads_one_frame: "loads_one env t p s s' \<Longrightarrow> frame env {} s' s'' \<Longrightarrow> loads_one env t p s s''"
  by (auto simp: loads_one_def frame_def)

lemma frame_loads_one: "frame env {} s s' \<Longrightarrow> loads_one env t p s' s'' \<Longrightarrow> loads_one env t p s s''"
  by (auto simp: loads_one_def frame_def)

lemma frame_trans: "frame env D s s' \<Longrightarrow> frame env D s' s'' \<Longrightarrow> frame env D s s''"
  by (auto simp: frame_def)

lemma triple_frame:
  assumes "steps (frame env {}) m"
  shows "triple (frame env {} s0) m (\<lambda>_. frame env {} s0) (frame env {} s0)"
    and "triple (loads_one env t p s0) m (\<lambda>_. loads_one env t p s0) (loads_one env t p s0)"
  using assms by (auto simp: steps_def intro!: tripleI intro: frame_trans loads_one_frame) (metis frame_trans loads_one_frame snd_conv)+

text \<open>What a chunk message does: nothing when it is skipped, one load when it is handled with a pool.\<close>

lemma load_pooled_loads:
  assumes "enumerates (ie_order env)"
  shows "triple (frame env {} s0) (load_pooled env t c n d) (\<lambda>_. loads_one env t (ucast n, d) s0)
    (\<lambda>s. frame env {} s0 s \<or> loads_one env t (ucast n, d) s0 s)"
proof -
  let ?E = "\<lambda>s. frame env {} s0 s \<or> loads_one env t (ucast n, d) s0 s"
  have submit: "triple (frame env {} s0) (submit env (LoadData t c d (ie_compression env) (ucast n)))
      (\<lambda>_. loads_one env t (ucast n, d) s0) ?E"
    by (rule tripleI) (auto simp: submit_def Let_def frame_def loads_one_def counted_def maps_finite_def
        loads_for_def split: if_splits)
  have put: "triple (loads_one env t (ucast n, d) s0) (cput (\<lambda>s. s\<lparr>im_pending := im_pending s @ [(t, k)]\<rparr>))
      (\<lambda>_. loads_one env t (ucast n, d) s0) ?E" for k
    by (rule triple_cput) (auto simp: loads_one_def counted_def maps_finite_def)
  show ?thesis
    unfolding load_pooled_def
    by (rule triple_cbind [OF triple_conseq [OF triple_frame(1) [OF frame_await_ddl]]], assumption, assumption, simp,
        rule triple_cbind [OF submit], rule triple_cbind [OF put],
        rule triple_conseq [OF triple_frame(2) [OF frame_bound [OF assms]]]) auto
qed

lemma handle_data_loads:
  assumes "enumerates (ie_order env)" "ie_pool env"
  shows "case handle_data env i n d s of
      (Inr u, s') \<Rightarrow> (\<exists>t. ie_ids env i = Some t \<and>
        (if t \<in> im_skipped s then s' = s else loads_one env t (ucast n, d) s s'))
    | (Inl e, s') \<Rightarrow> frame env {} s s' \<or> (\<exists>t. ie_ids env i = Some t \<and> loads_one env t (ucast n, d) s s')"
proof (cases "ie_ids env i")
  case None
  then show ?thesis by (simp add: handle_data_def table_name_def cbind_def clift_def frame_def)
next
  case (Some t)
  have refl: "frame env {} s s" by (simp add: frame_def)
  show ?thesis
  proof (cases "t \<in> im_skipped s")
    case True
    then show ?thesis by (simp add: handle_data_def table_name_def Some cbind_def clift_def cget_def cret_def)
  next
    case False
    show ?thesis
    proof (cases "im_schemas s t")
      case None
      then show ?thesis using False refl
        by (simp add: handle_data_def table_name_def Some cbind_def clift_def cget_def)
    next
      case (Some c)
      have run: "handle_data env i n d s = load_pooled env t c n d s"
        using False Some assms(2) \<open>ie_ids env i = Some t\<close>
        by (simp add: handle_data_def table_name_def cbind_def clift_def cget_def)
      obtain r s' where r: "load_pooled env t c n d s = (r, s')" by force
      show ?thesis
      proof (cases r)
        case (Inl e)
        then show ?thesis
          using triple_Inl [OF load_pooled_loads [OF assms(1)] refl] r False \<open>ie_ids env i = Some t\<close> by (auto simp: run)
      next
        case (Inr u)
        then show ?thesis
          using triple_Inr [OF load_pooled_loads [OF assms(1)] refl] r False \<open>ie_ids env i = Some t\<close> by (auto simp: run)
      qed
    qed
  qed
qed

text \<open>What has been done for the messages handled so far.\<close>

definition accounted :: "import_env \<Rightarrow> server_message list \<Rightarrow> import_state \<Rightarrow> bool" where
  "accounted env h s \<longleftrightarrow> maps_finite s \<and> im_skipped s \<subseteq> ie_completed env \<and> counted s \<subseteq> tables_done env h \<and>
     (\<forall>t. t \<notin> ie_completed env \<longrightarrow> loads_for t (im_work s) = chunks_for env t h)"

definition stopped :: "import_env \<Rightarrow> server_message list \<Rightarrow> server_message list \<Rightarrow> import_state \<Rightarrow> bool" where
  "stopped env h h' s \<longleftrightarrow> names_of s \<subseteq> tables_done env h' \<and>
     (\<forall>t. t \<notin> ie_completed env \<longrightarrow> prefix (chunks_for env t h) (loads_for t (im_work s)))"

lemma chunks_for_snoc: "chunks_for env t (h @ [m]) = chunks_for env t h @ chunk_payload env t m"
  by (simp add: chunks_for_def)

lemma tables_done_snoc:
  "tables_done env (h @ [m]) = tables_done env h \<union> (case m of TableDone i n mt \<Rightarrow> set_option (ie_ids env i) | _ \<Rightarrow> {})"
  by (auto simp: tables_done_def split: server_message.splits)

lemma accounted_frame:
  assumes "accounted env h s" "frame env D s s'" "D \<subseteq> tables_done env (h @ [m])"
    "\<And>t. t \<notin> ie_completed env \<Longrightarrow> chunk_payload env t m = []"
  shows "accounted env (h @ [m]) s'"
  using assms by (auto simp: accounted_def frame_def chunks_for_snoc tables_done_snoc)

lemma stopped_frame:
  assumes "accounted env h s" "frame env D s s'" "D \<subseteq> tables_done env (h @ [m])"
  shows "stopped env h (h @ [m]) s'"
proof -
  have "names_of s' \<subseteq> counted s'" by (simp add: counted_def)
  also have "\<dots> \<subseteq> counted s \<union> D" using assms by (simp add: accounted_def frame_def)
  also have "\<dots> \<subseteq> tables_done env (h @ [m])" using assms by (auto simp: accounted_def tables_done_snoc)
  finally show ?thesis using assms by (simp add: accounted_def stopped_def frame_def)
qed

lemma loads_one_accounted:
  assumes "accounted env h s" "loads_one env t (ucast n, d) s s'" "ie_ids env i = Some t"
  shows "accounted env (h @ [Data i n d]) s'"
  using assms by (auto simp: accounted_def loads_one_def chunks_for_snoc tables_done_snoc)

lemma accounted_stopped: "accounted env (h @ [m]) s \<Longrightarrow> stopped env h (h @ [m]) s"
  by (auto simp: accounted_def stopped_def counted_def chunks_for_snoc)

lemma accounted_message:
  assumes ord: "enumerates (ie_order env)" and pool: "ie_pool env"
  shows "triple (accounted env h) (handle_message env m) (\<lambda>_. accounted env (h @ [m])) (stopped env h (h @ [m]))"
proof -
  have by_frame: "triple (accounted env h) (cbind g (\<lambda>_. cret b)) (\<lambda>_. accounted env (h @ [m])) (stopped env h (h @ [m]))"
    if "steps (frame env D) g" "D \<subseteq> tables_done env (h @ [m])" "\<And>t. t \<notin> ie_completed env \<Longrightarrow> chunk_payload env t m = []"
    for D g and b :: bool
  proof (rule tripleI)
    fix s x s'
    assume "accounted env h s" "cbind g (\<lambda>_. cret b) s = (Inr x, s')"
    then show "accounted env (h @ [m]) s'"
      using that by (auto simp: client_rules intro: accounted_frame dest: stepsD)
  next
    fix s e s'
    assume a: "accounted env h s" "cbind g (\<lambda>_. cret b) s = (Inl e, s')"
    then have "g s = (Inl e, s')" by (auto simp: cbind_def cret_def split: prod.splits sum.splits)
    then show "stopped env h (h @ [m]) s'" using that a by (blast intro: stopped_frame dest: stepsD)
  qed
  have stop: "triple (accounted env h) (clift (Inl e)) Q (stopped env h (h @ [m]))" for e and Q :: "bool \<Rightarrow> import_state \<Rightarrow> bool"
    by (rule triple_clift) (auto intro: stopped_frame [where D = "{}"] simp: frame_def)
  show ?thesis
  proof (cases m)
    case (Schema i c ix op)
    show ?thesis unfolding handle_message_def Schema server_message.case
      using by_frame [OF frame_handle_schema, of "{}"] by (simp add: Schema)
  next
    case (Data i n d)
    have "triple (accounted env h) (handle_data env i n d) (\<lambda>_. accounted env (h @ [m])) (stopped env h (h @ [m]))"
    proof (rule tripleI)
      fix s u s'
      assume a: "accounted env h s" and run: "handle_data env i n d s = (Inr u, s')"
      then obtain t where t: "ie_ids env i = Some t" "if t \<in> im_skipped s then s' = s else loads_one env t (ucast n, d) s s'"
        using handle_data_loads [OF ord pool, where s = s and i = i and n = n and d = d] by auto
      show "accounted env (h @ [m]) s'"
      proof (cases "t \<in> im_skipped s")
        case True
        then show ?thesis using a t by (auto simp: accounted_def Data chunks_for_snoc tables_done_snoc)
      qed (use a t loads_one_accounted in \<open>auto simp: Data\<close>)
    next
      fix s e s'
      assume a: "accounted env h s" and run: "handle_data env i n d s = (Inl e, s')"
      then have "frame env {} s s' \<or> (\<exists>t. ie_ids env i = Some t \<and> loads_one env t (ucast n, d) s s')"
        using handle_data_loads [OF ord pool, where s = s and i = i and n = n and d = d] by auto
      then show "stopped env h (h @ [m]) s'"
        using a stopped_frame [OF a, of "{}" s' m] loads_one_accounted [OF a] accounted_stopped by (auto simp: Data)
    qed
    then show ?thesis unfolding handle_message_def Data server_message.case
      by (rule triple_cbind) (simp add: triple_cret)
  next
    case (TableDone i n mt)
    have "triple (accounted env h) (cbind (handle_table_done env i n mt) (\<lambda>_. cret False)) (\<lambda>_. accounted env (h @ [m]))
       (stopped env h (h @ [m]))"
      by (rule by_frame [OF frame_handle_table_done [OF ord, where D = "set_option (ie_ids env i)"]])
        (auto simp: TableDone tables_done_snoc)
    then show ?thesis by (simp add: handle_message_def TableDone)
  next
    case (SmDone ds mt fks)
    have "triple (accounted env h) (cbind (handle_done env mt fks) (\<lambda>_. cret True)) (\<lambda>_. accounted env (h @ [m]))
       (stopped env h (h @ [m]))"
      by (rule by_frame [OF frame_handle_done [OF ord, where D = "{}"]]) (auto simp: SmDone)
    then show ?thesis by (simp add: handle_message_def SmDone)
  next
    case (SmError msg rec)
    have "triple (accounted env h) (cret False) (\<lambda>_. accounted env (h @ [m])) (stopped env h (h @ [m]))"
      by (rule triple_cret) (auto simp: SmError accounted_def chunks_for_snoc tables_done_snoc)
    then show ?thesis using stop by (cases rec) (simp_all add: SmError handle_message_def)
  next
    case (Ready ts c)
    show ?thesis using stop by (simp add: Ready handle_message_def)
  next
    case (DryRunReport ds cs)
    show ?thesis using stop by (simp add: DryRunReport handle_message_def)
  qed
qed

lemma handled_events: "x \<in> set (handled env es s) \<Longrightarrow> Arrived (Inr x) \<in> set es"
proof (induction es arbitrary: s)
  case (Cons e es)
  consider m where "e = Arrived (Inr m)" | "handled env (e # es) s = []"
    by (cases e) (auto, metis sum.exhaust handled.simps(3))
  then show ?case
  proof cases
    case 1
    then show ?thesis using Cons by (auto split: prod.splits sum.splits if_splits)
  qed (use Cons.prems in simp)
qed simp

lemma import_loop_accounted:
  assumes ord: "enumerates (ie_order env)" and pool: "ie_pool env"
  shows "accounted env h s \<Longrightarrow> import_loop env es s = (r, s') \<Longrightarrow>
    \<exists>m. stopped env (h @ handled env es s) (h @ handled env es s @ m) s' \<and>
      (\<forall>x \<in> set m. Arrived (Inr x) \<in> set es)"
proof (induction es arbitrary: h s)
  case Nil
  then have "stopped env h (h @ []) s'" by (auto simp: clift_def accounted_def stopped_def counted_def)
  then show ?case by (intro exI [of _ "[]"]) simp
next
  case (Cons e es)
  have here: "stopped env h (h @ []) s" using Cons.prems(1) by (auto simp: accounted_def stopped_def counted_def)
  consider (msg) m where "e = Arrived (Inr m)" | (err) x where "e = Arrived (Inl x)" | (ctrl) "e = CtrlC"
    by (cases e) (auto, metis sum.exhaust)
  then show ?case
  proof cases
    case msg
    obtain r1 s1 where run: "handle_message env m s = (r1, s1)" by force
    show ?thesis
    proof (cases r1)
      case (Inl x)
      then have "s' = s1" using Cons.prems(2) run msg by (simp add: cbind_def)
      moreover have "stopped env h (h @ [m]) s1"
        using triple_Inl [OF accounted_message [OF ord pool] Cons.prems(1)] run Inl by blast
      ultimately show ?thesis using run Inl msg by (intro exI [of _ "[m]"]) simp
    next
      case (Inr b)
      have a: "accounted env (h @ [m]) s1"
        using triple_Inr [OF accounted_message [OF ord pool] Cons.prems(1)] run Inr by blast
      show ?thesis
      proof (cases b)
        case True
        then have "s' = s1" using Cons.prems(2) run Inr msg by (simp add: cbind_def cret_def)
        moreover have "stopped env (h @ [m]) ((h @ [m]) @ []) s1"
          using a by (auto simp: accounted_def stopped_def counted_def)
        ultimately show ?thesis using run Inr msg True by (intro exI [of _ "[]"]) simp
      next
        case False
        then have "import_loop env es s1 = (r, s')" using Cons.prems(2) run Inr msg by (simp add: cbind_def)
        from Cons.IH [OF a this] show ?thesis using run Inr msg False by auto
      qed
    qed
  qed (use Cons.prems(2) here in \<open>auto simp: clift_def intro!: exI [of _ "[]"]\<close>)
qed


text \<open>A small import over a pool: a table with one chunk, and one that is complete already.\<close>

definition sample_workers :: workers where
  "sample_workers = \<lparr>wk_accepts = (\<lambda>k. True), wk_alive = (\<lambda>k. True),
     wk_db = (\<lambda>k log q. Inr \<lparr>rp_rows = [], rp_affected = 2\<rparr>), wk_ready = (\<lambda>n k. True), wk_unzstd = Inr\<rparr>"

definition sample_env :: import_env where
  "sample_env = \<lparr>ie_db = (\<lambda>log q. Inr \<lparr>rp_rows = [], rp_affected = 0\<rparr>), ie_pool = True, ie_workers = sample_workers,
     ie_order = sorted_list_of_set, ie_plan = empty_plan, ie_ids = [0 \<mapsto> ''users'', 1 \<mapsto> ''orders''], ie_completed = {''orders''},
     ie_compression = CNone, ie_fail_after = None\<rparr>"

definition plain_options :: table_options where
  "plain_options = \<lparr>to_engine = None, to_charset = None, to_collation = None, to_row_format = None\<rparr>"

definition sample_events :: "event list" where
  "sample_events = map (\<lambda>m. Arrived (Inr m))
     [Schema 0 [] [] plain_options, Schema 1 [] [] plain_options, Data 0 2 ''rows'', Data 1 1 ''row'',
      TableDone 1 1 None, TableDone 0 2 None, SmDone [] None []]"

lemmas run_defs = cbind_def cret_def clift_def cget_def cput_def on_log_def on_stats_def query_drop_def execute_def
  handle_message_def handle_schema_def handle_data_def handle_table_done_def handle_done_def table_name_def
  load_pooled_def await_ddl_def submit_def bound_pending_def MAX_PENDING_CHUNKS_def drain_completed_loads_def
  try_recv_def finalize_completed_tables_def finalize_deferred_def finalize_table_def count_table_def
  check_fail_after_def mark_complete_def wait_for_all_loads_def wait_and_add_def add_result_def
  ddl_reply_def load_reply_def wait_ddl_def wait_for_load_def run_create_def run_load_def create_table_def
  load_tsv_data_def maybe_decompress_def map_error_def

lemma sample_import:
  "fst (import_loop sample_env sample_events (fresh_import [] [])) = Inr ()"
  "is_names (im_stats (snd (import_loop sample_env sample_events (fresh_import [] [])))) = [''users'']"
  by (simp_all add: sample_events_def sample_env_def sample_workers_def fresh_import_def no_stats_def empty_plan_def
      run_defs Let_def record_dropped_def saturating_sub_def)

lemma sample_order: "enumerates (ie_order sample_env)" "ie_pool sample_env" "schemas_first sample_env sample_events"
  by (simp_all add: sample_env_def sample_events_def enumerates_sorted announced_def)




end
