(* ===== verification/ImportDone.thy ===== *)
theory ImportDone
  imports ImportSafety
begin

text \<open>
  What an import achieves: the number of loads in flight is bounded, and when it succeeds nothing
  is left over, every chunk is loaded once and counted once, and the checkpoint has exactly the
  tables that are done.
\<close>

section \<open>Loads in flight\<close>

text \<open>The states between two messages.\<close>

fun states_between :: "import_env \<Rightarrow> event list \<Rightarrow> import_state \<Rightarrow> import_state list" where
  "states_between env (Arrived (Inr m) # es) s =
     (case handle_message env m s of
        (Inl e, s') \<Rightarrow> []
      | (Inr finished, s') \<Rightarrow> s' # (if finished then [] else states_between env es s'))"
| "states_between env _ s = []"

abbreviation few :: "nat \<Rightarrow> import_state \<Rightarrow> bool" where
  "few n s \<equiv> length (im_pending s) \<le> n"

definition keeps_pending :: "import_state \<Rightarrow> import_state \<Rightarrow> bool" where
  "keeps_pending s s' \<longleftrightarrow> length (im_pending s') \<le> length (im_pending s)"

lemma keeps_rules: "reflp keeps_pending" "transp keeps_pending"
  by (auto simp: reflp_def transp_def keeps_pending_def)

lemmas keeps_intros = steps_cbind [OF _ _ keeps_rules(2)] steps_pure(1) [OF keeps_rules(1)]
  steps_pure(2) [OF keeps_rules(1)] steps_pure(3) [OF keeps_rules(1)]

lemma keeps_put: "(\<And>s. keeps_pending s (f s)) \<Longrightarrow> steps keeps_pending (cput f)"
  by (auto simp: steps_def cput_def)

lemma keeps_on_log: "steps keeps_pending (on_log m)"
  by (auto simp: steps_def on_log_def keeps_pending_def split: prod.splits)

lemma keeps_check: "steps keeps_pending (check_fail_after env)"
  by (auto simp: steps_def check_fail_after_def keeps_pending_def split: option.splits)

lemma keeps_submit: "steps keeps_pending (submit env w)"
  by (auto simp: steps_def submit_def Let_def keeps_pending_def)

lemma keeps_finalize: "steps keeps_pending (finalize_table env t n)"
  unfolding finalize_table_def
  by (intro keeps_intros keeps_put keeps_on_log keeps_check) (simp add: keeps_pending_def count_table_def on_stats_def)

lemma keeps_completed: "steps keeps_pending (finalize_completed_tables env ps)"
  unfolding finalize_completed_tables_def finalize_deferred_def Let_def
  by (auto intro!: keeps_intros steps_ceach keeps_put keeps_finalize keeps_rules simp: keeps_pending_def)

lemma keeps_await: "steps keeps_pending (await_ddl env t)"
  unfolding await_ddl_def
  by (auto intro!: keeps_intros keeps_put split: option.splits simp: keeps_pending_def)

lemma keeps_wait_and_add: "steps keeps_pending (wait_and_add env load)"
  unfolding wait_and_add_def by (auto intro!: keeps_intros keeps_put simp: keeps_pending_def)

lemma drain_loads_length:
  "drain_loads env loads still s = (Inr still', s') \<Longrightarrow>
    length still' \<le> length still + length loads \<and> im_pending s' = im_pending s"
proof (induction loads arbitrary: still s)
  case (Cons load loads)
  obtain t k where load: "load = (t, k)" by force
  obtain r where recv: "try_recv env k s = (Inr r, s\<lparr>im_polls := im_polls s + 1\<rparr>)" by (simp add: try_recv_def)
  show ?case
  proof (cases r)
    case Nothing_yet
    then show ?thesis using Cons.prems Cons.IH by (fastforce simp: load recv client_rules)
  next
    case (Got x)
    then show ?thesis using Cons.prems Cons.IH by (cases x) (fastforce simp: load recv client_rules)+
  next
    case Gone
    then show ?thesis using Cons.prems by (simp add: load recv client_rules)
  qed
qed (auto simp: client_rules)

lemma keeps_drain:
  assumes "drain_completed_loads env s = (Inr u, s')"
  shows "keeps_pending s s'"
  using assms by (auto simp: drain_completed_loads_def client_rules keeps_pending_def dest!: drain_loads_length)

abbreviation (input) any :: "import_state \<Rightarrow> bool" where "any s \<equiv> True"

lemma few_steps: "steps keeps_pending m \<Longrightarrow> triple (few n) m (\<lambda>_. few n) any"
  by (auto simp: steps_def keeps_pending_def intro!: tripleI) (metis le_trans snd_conv)

lemma few_drain: "triple (few n) (drain_completed_loads env) (\<lambda>_. few n) any"
  by (rule tripleI) (auto dest!: keeps_drain simp: keeps_pending_def)

lemma few_bound: "triple (few (Suc MAX_PENDING_CHUNKS)) (bound_pending env) (\<lambda>_. few MAX_PENDING_CHUNKS) any"
proof -
  let ?P = "few (Suc MAX_PENDING_CHUNKS)"
  have oldest: "triple (\<lambda>s. ?P s \<and> im_pending s = ps)
     (cbind (wait_and_add env (hd ps)) (\<lambda>_. cput (\<lambda>s. s\<lparr>im_pending := tl ps\<rparr>))) (\<lambda>_. few MAX_PENDING_CHUNKS) any" for ps
  proof (cases "length ps \<le> Suc MAX_PENDING_CHUNKS")
    case True
    then show ?thesis by (intro triple_cbind [where R = "\<lambda>_ _. True"] tripleI) (auto simp: client_rules)
  qed (auto simp: triple_def)
  have drain: "triple (\<lambda>s. ?P s \<and> length (im_pending s) = n) (drain_completed_loads env) (\<lambda>_. ?P) any" for n
    by (rule triple_conseq [OF few_drain]) auto
  show ?thesis
    unfolding bound_pending_def
    by (intro triple_read triple_if triple_cbind [OF drain] oldest) (auto intro!: triple_cret)
qed

lemma few_data: "triple (few MAX_PENDING_CHUNKS) (handle_data env i n d) (\<lambda>_. few MAX_PENDING_CHUNKS) any"
proof -
  let ?P = "few MAX_PENDING_CHUNKS"
  have pooled: "triple ?P (load_pooled env t c n d) (\<lambda>_. ?P) any" for t c
    unfolding load_pooled_def
    by (rule triple_cbind [OF few_steps [OF keeps_await]], rule triple_cbind [OF few_steps [OF keeps_submit]],
        rule triple_cbind [OF triple_cput few_bound]) simp
  have seq: "triple ?P (load_sequential env t c n d) (\<lambda>_. ?P) any" for t c
    unfolding load_sequential_def
    by (intro few_steps keeps_intros keeps_on_log keeps_put) (simp add: keeps_pending_def)
  have read: "triple (\<lambda>s. ?P s \<and> g s = x) m (\<lambda>_. ?P) any" if "triple ?P m (\<lambda>_. ?P) any"
    for g :: "import_state \<Rightarrow> 'x" and x m
    using that by (rule triple_conseq) auto
  show ?thesis
    unfolding handle_data_def table_name_def
    by (intro triple_cbind [where R = "\<lambda>_. ?P"] triple_read read triple_if triple_cret)
      (auto intro!: triple_clift triple_if pooled seq split: option.split)
qed

lemma few_wait_for_all: "triple (few n) (wait_for_all_loads env) (\<lambda>_. few n) any"
proof -
  have rest: "triple (few n) (cbind (cput (\<lambda>s. s\<lparr>im_pending := [], im_deferred := Map.empty\<rparr>)) (\<lambda>_. ceach f ts)) (\<lambda>_. few n) any"
    if "\<And>t. steps keeps_pending (f t)" for f :: "string \<Rightarrow> (import_state, unit) cstep" and ts
    by (intro few_steps keeps_intros keeps_put steps_ceach that keeps_rules) (simp add: keeps_pending_def)
  have wait: "triple (few n) (ceach (wait_and_add env) ps) (\<lambda>_. few n) any" for ps
    by (intro few_steps steps_ceach keeps_wait_and_add keeps_rules)
  have read: "triple (\<lambda>s. few n s \<and> g s = x) m (\<lambda>_. few n) any" if "triple (few n) m (\<lambda>_. few n) any"
    for g :: "import_state \<Rightarrow> 'x" and x m
    using that by (rule triple_conseq) auto
  show ?thesis
    unfolding wait_for_all_loads_def
    by (intro triple_read read triple_cbind [OF wait] rest keeps_finalize)
qed

lemma few_message: "triple (few MAX_PENDING_CHUNKS) (handle_message env m) (\<lambda>_. few MAX_PENDING_CHUNKS) any"
proof -
  let ?P = "few MAX_PENDING_CHUNKS"
  have seq: "triple ?P (cbind h (\<lambda>_. cret b)) (\<lambda>_. ?P) any" if "triple ?P h (\<lambda>_. ?P) any"
    for h :: "(import_state, unit) cstep" and b :: bool
    by (rule triple_cbind [OF that triple_cret])
  have schema: "steps keeps_pending (handle_schema env i c ix op)" for i c ix op
    unfolding handle_schema_def Let_def
    by (auto simp: table_name_def intro!: keeps_intros keeps_put keeps_on_log keeps_submit) (simp_all add: keeps_pending_def)
  have read: "triple (\<lambda>s. ?P s \<and> g s = x) m (\<lambda>_. ?P) any" if "triple ?P m (\<lambda>_. ?P) any"
    for g :: "import_state \<Rightarrow> 'x" and x m
    using that by (rule triple_conseq) auto
  have table_done: "triple ?P (handle_table_done env i n mt) (\<lambda>_. ?P) any" for i n mt
    unfolding handle_table_done_def table_name_def
    by (intro triple_cbind [where R = "\<lambda>_. ?P"] triple_read read triple_if triple_cret few_drain few_steps [OF keeps_await]
        triple_cput triple_clift) (auto simp: on_stats_def)
  have all_done: "triple ?P (handle_done env mt fks) (\<lambda>_. ?P) any" for mt fks
    unfolding handle_done_def
    by (intro triple_cbind [where R = "\<lambda>_. ?P"] triple_read read few_wait_for_all triple_ceach_inv few_steps [OF keeps_await]
        triple_cput) (auto simp: on_stats_def)
  show ?thesis
    unfolding handle_message_def
    by (cases m) (auto intro!: seq few_steps [OF schema] few_data table_done all_done triple_cret triple_clift)
qed

text \<open>C27: between two messages never more than one hundred chunks are in flight, whatever the server sends and
  however slow the workers are: memory is bounded.\<close>

theorem pending_bounded:
  "list_all (\<lambda>s. length (im_pending s) \<le> MAX_PENDING_CHUNKS) (states_between env es (fresh_import log sent))"
proof -
  have "few MAX_PENDING_CHUNKS s \<Longrightarrow> list_all (few MAX_PENDING_CHUNKS) (states_between env es s)" for s
  proof (induction env es s rule: states_between.induct)
    case (1 env m es s)
    obtain r s' where run: "handle_message env m s = (r, s')" by force
    show ?case
    proof (cases r)
      case (Inr b)
      have "few MAX_PENDING_CHUNKS s'" using triple_Inr [OF few_message "1.prems"] run Inr by blast
      then show ?thesis using "1.IH" run Inr by auto
    qed (simp add: run)
  qed auto
  then show ?thesis by (simp add: fresh_import_def)
qed

section \<open>A run that succeeds\<close>

lemma import_loop_success:
  assumes step: "\<And>h m. triple (P h) (handle_message env m) (\<lambda>b s. P (h @ [m]) s \<and> (b \<longrightarrow> F s)) any"
  shows "P h s \<Longrightarrow> import_loop env es s = (Inr (), s') \<Longrightarrow> P (h @ handled env es s) s' \<and> F s'"
proof (induction es arbitrary: h s)
  case (Cons e es)
  obtain m where e: "e = Arrived (Inr m)"
    using Cons.prems(2) by (cases e) (auto simp: clift_def, metis sum.exhaust import_loop.simps(3) clift_def prod.inject sum.distinct(1))
  obtain b s1 where run: "handle_message env m s = (Inr b, s1)"
    using Cons.prems(2) by (auto simp: e client_rules)
  have post: "P (h @ [m]) s1 \<and> (b \<longrightarrow> F s1)" by (rule triple_Inr [OF step Cons.prems(1) run])
  show ?case
  proof (cases b)
    case True
    then show ?thesis using Cons.prems(2) run post by (auto simp: e client_rules)
  next
    case False
    then have "import_loop env es s1 = (Inr (), s')" using Cons.prems(2) run by (simp add: e cbind_def)
    with Cons.IH [of "h @ [m]" s1] post show ?thesis using run False by (simp add: e)
  qed
qed (simp add: clift_def)

section \<open>Sums over the loads\<close>

text \<open>What the results of the submitted loads add up to, when a result counts \<open>wt\<close>.\<close>

definition load_weight :: "(string \<Rightarrow> load_result \<Rightarrow> u64) \<Rightarrow> import_env \<Rightarrow> load_work list \<Rightarrow> string \<times> nat \<Rightarrow> u64" where
  "load_weight wt env work load =
     (case load_reply (ie_workers env) work (snd load) of Some (Inr r) \<Rightarrow> wt (fst load) r | _ \<Rightarrow> 0)"

definition work_weight :: "(string \<Rightarrow> load_result \<Rightarrow> u64) \<Rightarrow> import_env \<Rightarrow> load_work list \<Rightarrow> nat \<Rightarrow> u64" where
  "work_weight wt env work k =
     (case work ! k of LoadData t _ _ _ _ \<Rightarrow> load_weight wt env work (t, k) | CreateTable _ _ _ _ _ \<Rightarrow> 0)"

definition loads_total :: "(string \<Rightarrow> load_result \<Rightarrow> u64) \<Rightarrow> import_env \<Rightarrow> load_work list \<Rightarrow> u64" where
  "loads_total wt env work = sum_list (map (work_weight wt env work) [0..<length work])"

text \<open>
  A quantity the client sums up: \<open>acc\<close> reads it from the state, \<open>wt\<close> is what one result adds.  The
  law is that it starts at zero and only collecting a result changes it.
\<close>

locale tally =
  fixes acc :: "import_state \<Rightarrow> u64" and wt :: "string \<Rightarrow> load_result \<Rightarrow> u64"
  assumes acc_add: "acc (add_result t r s) = acc s + wt t r"
    and acc_same: "is_rows_imported (im_stats s) = is_rows_imported (im_stats s') \<Longrightarrow> im_dropped s = im_dropped s' \<Longrightarrow> acc s = acc s'"
    and acc_zero: "is_rows_imported (im_stats s) = 0 \<Longrightarrow> im_dropped s = Map.empty \<Longrightarrow> acc s = 0"
begin

abbreviation weight :: "import_env \<Rightarrow> load_work list \<Rightarrow> string \<times> nat \<Rightarrow> u64" where
  "weight \<equiv> load_weight wt"

abbreviation total :: "import_env \<Rightarrow> load_work list \<Rightarrow> u64" where
  "total \<equiv> loads_total wt"

definition balanced :: "import_env \<Rightarrow> (string \<times> nat) list \<Rightarrow> import_state \<Rightarrow> bool" where
  "balanced env ps s \<longleftrightarrow> acc s + sum_list (map (weight env (im_work s)) ps) = total env (im_work s) \<and>
     (\<forall>(t, k) \<in> set ps. k < length (im_work s))"

lemma weight_append: "k < length work \<Longrightarrow> weight env (work @ ws) (t, k) = weight env work (t, k)"
  by (simp add: load_weight_def load_reply_def nth_append)

lemma total_snoc: "total env (work @ [w]) = total env work +
    (case w of LoadData t _ _ _ _ \<Rightarrow> weight env (work @ [w]) (t, length work) | CreateTable _ _ _ _ _ \<Rightarrow> 0)"
proof -
  have "map (work_weight wt env (work @ [w])) [0..<length work] = map (work_weight wt env work) [0..<length work]"
    by (intro map_cong refl) (simp add: work_weight_def nth_append weight_append split: load_work.split)
  then have "sum_list (map (work_weight wt env (work @ [w])) [0..<length work]) =
      sum_list (map (work_weight wt env work) [0..<length work])" by (rule arg_cong)
  then show ?thesis by (simp add: loads_total_def work_weight_def nth_append split: load_work.splits)
qed

lemma weights_append:
  assumes "\<forall>(t, k) \<in> set ps. k < length work"
  shows "map (weight env (work @ ws)) ps = map (weight env work) ps"
  using assms by (auto simp: weight_append)

definition still :: "import_state \<Rightarrow> import_state \<Rightarrow> bool" where
  "still s s' \<longleftrightarrow> is_rows_imported (im_stats s') = is_rows_imported (im_stats s) \<and> im_dropped s' = im_dropped s \<and>
     im_work s' = im_work s"

lemma still_rules: "reflp still" "transp still"
  by (auto simp: reflp_def transp_def still_def)

lemmas still_intros = steps_cbind [OF _ _ still_rules(2)] steps_pure(1) [OF still_rules(1)]
  steps_pure(2) [OF still_rules(1)] steps_pure(3) [OF still_rules(1)]

lemma still_put: "(\<And>s. still s (f s)) \<Longrightarrow> steps still (cput f)"
  by (auto simp: steps_def cput_def)

lemma still_on_log: "steps still (on_log m)"
  by (auto simp: steps_def on_log_def still_def split: prod.splits)

lemma still_check: "steps still (check_fail_after env)"
  by (auto simp: steps_def check_fail_after_def still_def split: option.splits)

lemma still_try_recv: "steps still (try_recv env k)"
  by (auto simp: steps_def try_recv_def still_def)

lemma still_finalize: "steps still (finalize_table env t n)"
  unfolding finalize_table_def
  by (intro still_intros still_put still_on_log still_check) (simp add: still_def count_table_def on_stats_def)

lemma still_completed: "steps still (finalize_completed_tables env ps)"
  unfolding finalize_completed_tables_def finalize_deferred_def Let_def
  by (auto intro!: still_intros steps_ceach still_put still_finalize still_rules simp: still_def)

lemma still_await: "steps still (await_ddl env t)"
  unfolding await_ddl_def
  by (auto intro!: still_intros still_put split: option.splits simp: still_def)

lemma balanced_still: "balanced env ps s \<Longrightarrow> still s s' \<Longrightarrow> balanced env ps s'"
  using acc_same [of s' s] by (simp add: balanced_def still_def)

lemma balanced_steps: "steps still m \<Longrightarrow> triple (balanced env ps) m (\<lambda>_. balanced env ps) any"
  by (rule tripleI) (auto dest: stepsD intro: balanced_still)

lemma balanced_result:
  assumes "balanced env (xs @ (t, k) # ys) s" "load_reply (ie_workers env) (im_work s) k = Some (Inr r)"
  shows "balanced env (xs @ ys) (add_result t r s)"
proof -
  have w: "im_work (add_result t r s) = im_work s" by (simp add: add_result_def on_stats_def)
  show ?thesis using assms by (simp add: balanced_def w acc_add load_weight_def algebra_simps)
qed

lemma balanced_drain:
  "triple (balanced env (old @ loads)) (drain_loads env loads old) (\<lambda>old'. balanced env old') any"
proof (induction loads arbitrary: old)
  case (Cons load loads)
  obtain t k where load: "load = (t, k)" by force
  show ?case
  proof (rule tripleI)
    fix s old' s'
    assume b: "balanced env (old @ load # loads) s" and run: "drain_loads env (load # loads) old s = (Inr old', s')"
    let ?s1 = "s\<lparr>im_polls := im_polls s + 1\<rparr>"
    have b1: "balanced env (old @ load # loads) ?s1" using b by (rule balanced_still) (simp add: still_def)
    obtain r where recv: "try_recv env k s = (Inr r, ?s1)" by (simp add: try_recv_def)
    have got: "load_reply (ie_workers env) (im_work s) k = Some x" if "r = Got x" for x
      using recv that by (auto simp: try_recv_def split: if_splits option.splits)
    show "balanced env old' s'"
    proof (cases r)
      case Nothing_yet
      then have "drain_loads env loads (old @ [(t, k)]) ?s1 = (Inr old', s')"
        using run by (simp add: load recv cbind_def)
      from triple_Inr [OF Cons.IH _ this] b1 show ?thesis by (simp add: load)
    next
      case (Got x)
      obtain res where x: "x = Inr res" using run Got by (cases x) (auto simp: load recv client_rules)
      have "balanced env (old @ loads) (add_result t res ?s1)"
        using b1 got [OF Got] by (intro balanced_result) (simp_all add: load x)
      then show ?thesis using run Got triple_Inr [OF Cons.IH] by (simp add: load recv client_rules x cbind_def cput_def)
    next
      case Gone
      then show ?thesis using run by (simp add: load recv client_rules)
    qed
  qed simp
qed (auto intro: triple_cret)

lemma balanced_wait: "triple (balanced env (load # ps)) (wait_and_add env load) (\<lambda>_. balanced env ps) any"
proof (rule tripleI)
  fix s u s'
  assume "balanced env (load # ps) s" "wait_and_add env load s = (Inr u, s')"
  then show "balanced env ps s'"
    using balanced_result [of env "[]" "fst load" "snd load" ps]
    by (auto simp: wait_and_add_def client_rules wait_for_load_def split: option.splits sum.splits)
qed simp

lemma balanced_pending [simp]: "balanced env ps (s\<lparr>im_pending := qs\<rparr>) = balanced env ps s"
  using acc_same [of "s\<lparr>im_pending := qs\<rparr>" s] by (simp add: balanced_def)

abbreviation even :: "import_env \<Rightarrow> import_state \<Rightarrow> bool" where
  "even env s \<equiv> balanced env (im_pending s) s"

lemma even_steps:
  assumes "steps still m" "\<And>s r s'. m s = (r, s') \<Longrightarrow> im_pending s' = im_pending s"
  shows "triple (even env) m (\<lambda>_. even env) any"
  using assms by (intro tripleI) (auto dest: stepsD intro: balanced_still)

lemma even_drain: "triple (even env) (drain_completed_loads env) (\<lambda>_. even env) any"
  unfolding drain_completed_loads_def
proof (rule triple_read)
  fix ps
  have "triple (balanced env ps)
     (cbind (drain_loads env ps []) (\<lambda>old. cbind (finalize_completed_tables env old) (\<lambda>_. cput (\<lambda>s. s\<lparr>im_pending := old\<rparr>))))
     (\<lambda>_. even env) any"
    by (rule triple_cbind [OF _ triple_cbind [OF balanced_steps [OF still_completed] triple_cput]])
      (use balanced_drain [of env "[]" ps] in simp_all)
  then show "triple (\<lambda>s. even env s \<and> im_pending s = ps)
     (cbind (drain_loads env ps []) (\<lambda>old. cbind (finalize_completed_tables env old) (\<lambda>_. cput (\<lambda>s. s\<lparr>im_pending := old\<rparr>))))
     (\<lambda>_. even env) any"
    by (rule triple_conseq) auto
qed

lemma even_submit:
  assumes "\<And>t c d m x. w \<noteq> LoadData t c d m x"
  shows "triple (even env) (submit env w) (\<lambda>_. even env) any"
proof (rule tripleI)
  fix s k s'
  assume b: "even env s" and run: "submit env w s = (Inr k, s')"
  then have s': "s' = s\<lparr>im_work := im_work s @ [w]\<rparr>" by (auto simp: submit_def Let_def split: if_splits)
  have w: "map (weight env (im_work s @ [w])) (im_pending s) = map (weight env (im_work s)) (im_pending s)"
    using b by (intro weights_append) (simp add: balanced_def)
  then have "sum_list (map (weight env (im_work s @ [w])) (im_pending s)) = sum_list (map (weight env (im_work s)) (im_pending s))"
    by (rule arg_cong)
  moreover have "acc s' = acc s" by (rule acc_same) (simp_all add: s')
  ultimately show "even env s'"
    using b assms by (auto simp: balanced_def s' total_snoc split: load_work.splits)
qed simp

lemma even_submit_load:
  "triple (even env) (submit env (LoadData t c d m x)) (\<lambda>k s. balanced env (im_pending s @ [(t, k)]) s) any"
proof (rule tripleI)
  fix s k s'
  let ?w = "LoadData t c d m x"
  assume b: "even env s" and run: "submit env ?w s = (Inr k, s')"
  then have s': "s' = s\<lparr>im_work := im_work s @ [?w]\<rparr>" and k: "k = length (im_work s)"
    by (auto simp: submit_def Let_def split: if_splits)
  have "map (weight env (im_work s @ [?w])) (im_pending s) = map (weight env (im_work s)) (im_pending s)"
    using b by (intro weights_append) (simp add: balanced_def)
  then have "sum_list (map (weight env (im_work s @ [?w])) (im_pending s)) = sum_list (map (weight env (im_work s)) (im_pending s))"
    by (rule arg_cong)
  moreover have "acc s' = acc s" by (rule acc_same) (simp_all add: s')
  ultimately show "balanced env (im_pending s' @ [(t, k)]) s'"
    using b by (auto simp: balanced_def s' k total_snoc algebra_simps)
qed simp

lemma even_bound: "triple (even env) (bound_pending env) (\<lambda>_. even env) any"
proof -
  have oldest: "triple (\<lambda>s. even env s \<and> im_pending s = ps)
     (cbind (wait_and_add env (hd ps)) (\<lambda>_. cput (\<lambda>s. s\<lparr>im_pending := tl ps\<rparr>))) (\<lambda>_. even env) any"
    if "MAX_PENDING_CHUNKS < length ps" for ps
  proof -
    have ps: "ps = hd ps # tl ps" using that by (cases ps) auto
    have "triple (balanced env ps) (wait_and_add env (hd ps)) (\<lambda>_. balanced env (tl ps)) any"
      using balanced_wait [of env "hd ps" "tl ps"] ps by simp
    then have "triple (balanced env ps) (cbind (wait_and_add env (hd ps)) (\<lambda>_. cput (\<lambda>s. s\<lparr>im_pending := tl ps\<rparr>)))
      (\<lambda>_. even env) any"
      by (rule triple_cbind) (simp add: triple_cput)
    then show ?thesis by (rule triple_conseq) auto
  qed
  have drain: "triple (\<lambda>s. even env s \<and> length (im_pending s) = n) (drain_completed_loads env) (\<lambda>_. even env) any" for n
    by (rule triple_conseq [OF even_drain]) auto
  show ?thesis
    unfolding bound_pending_def
    by (intro triple_read triple_if triple_cbind [OF drain] oldest) (auto intro!: triple_cret)
qed

text \<open>Steps that leave the sums and the pending loads as they are.\<close>

definition calm :: "import_state \<Rightarrow> import_state \<Rightarrow> bool" where
  "calm s s' \<longleftrightarrow> still s s' \<and> im_pending s' = im_pending s"

lemma calm_rules: "reflp calm" "transp calm"
  by (auto simp: reflp_def transp_def still_def calm_def)

lemmas calm_intros = steps_cbind [OF _ _ calm_rules(2)] steps_pure(1) [OF calm_rules(1)]
  steps_pure(2) [OF calm_rules(1)] steps_pure(3) [OF calm_rules(1)]

lemma calm_put: "(\<And>s. calm s (f s)) \<Longrightarrow> steps calm (cput f)"
  by (auto simp: steps_def cput_def)

lemma calm_on_log: "steps calm (on_log m)"
  by (auto simp: steps_def on_log_def still_def calm_def split: prod.splits)

lemma calm_await: "steps calm (await_ddl env t)"
  unfolding await_ddl_def
  by (auto intro!: calm_intros calm_put split: option.splits simp: still_def calm_def)

lemma even_calm: "steps calm m \<Longrightarrow> triple (even env) m (\<lambda>_. even env) any"
  by (rule tripleI) (auto dest!: stepsD simp: calm_def intro: balanced_still)

lemma calm_finalize: "steps calm (finalize_table env t n)"
  using still_finalize by (auto simp: steps_def calm_def finalize_table_pending [OF prod.collapse [symmetric]])

lemma even_wait_for_all:
  "triple (even env) (wait_for_all_loads env) (\<lambda>_ s. balanced env [] s \<and> im_pending s = []) any"
proof -
  let ?Q = "\<lambda>s. balanced env [] s \<and> im_pending s = []"
  have wait: "triple (balanced env ps) (ceach (wait_and_add env) ps) (\<lambda>_. balanced env []) any" for ps
    by (rule triple_ceach) (rule balanced_wait)
  have put: "triple (balanced env []) (cput (\<lambda>s. s\<lparr>im_pending := [], im_deferred := Map.empty\<rparr>)) (\<lambda>_. ?Q) any"
    by (rule triple_cput) (auto elim: balanced_still simp: still_def)
  have fin: "triple ?Q (ceach (\<lambda>t. finalize_table env t (f t)) ts) (\<lambda>_. ?Q) any" for f ts
  proof -
    have "steps calm (ceach (\<lambda>t. finalize_table env t (f t)) ts)" by (intro steps_ceach calm_finalize calm_rules)
    then show ?thesis by (intro tripleI) (auto dest!: stepsD simp: calm_def intro: balanced_still)
  qed
  have rest: "triple (balanced env []) (cbind (cget im_deferred) (\<lambda>deferred.
     cbind (cput (\<lambda>s. s\<lparr>im_pending := [], im_deferred := Map.empty\<rparr>)) (\<lambda>_.
     ceach (\<lambda>table. finalize_table env table (the (deferred table))) (ie_order env (dom deferred))))) (\<lambda>_. ?Q) any"
    by (rule triple_read, rule triple_cbind [OF triple_conseq [OF put] fin]) auto
  show ?thesis
    unfolding wait_for_all_loads_def
    by (rule triple_read, rule triple_cbind [OF _ rest], rule triple_conseq [OF wait]) auto
qed

lemma even_message:
  assumes pool: "ie_pool env"
  shows "triple (even env) (handle_message env m) (\<lambda>b s. even env s \<and> (b \<longrightarrow> im_pending s = [])) any"
proof -
  let ?P = "even env"
  have seq: "triple ?P (cbind h (\<lambda>_. cret False)) (\<lambda>b s. ?P s \<and> (b \<longrightarrow> im_pending s = [])) any" if "triple ?P h (\<lambda>_. ?P) any"
    for h :: "(import_state, unit) cstep"
    by (rule triple_cbind [OF that triple_cret]) simp
  have read: "triple (\<lambda>s. ?P s \<and> g s = x) m Q any" if "triple ?P m Q any"
    for g :: "import_state \<Rightarrow> 'x" and x Q and m :: "(import_state, 'y) cstep"
    using that by (rule triple_conseq) auto
  have put: "triple ?P (cput f) (\<lambda>_. ?P) any" if "\<And>s. calm s (f s)" for f
    using calm_put [OF that] by (rule even_calm)
  have name: "triple ?P (table_name env i what) (\<lambda>_. ?P) any" for i what
    unfolding table_name_def by (rule triple_clift) auto
  have schema: "triple ?P (handle_schema env i c ix op) (\<lambda>_. ?P) any" for i c ix op
    unfolding handle_schema_def Let_def
    by (intro triple_cbind [OF name] triple_if put triple_cbind [where R = "\<lambda>_. ?P"] even_calm [OF calm_on_log] triple_cret
        even_submit) (simp_all add: calm_def still_def)
  have data: "triple ?P (handle_data env i n d) (\<lambda>_. ?P) any" for i n d
  proof -
    have pooled: "triple ?P (load_pooled env t c n d) (\<lambda>_. ?P) any" for t c
      unfolding load_pooled_def
      by (rule triple_cbind [OF even_calm [OF calm_await]], rule triple_cbind [OF even_submit_load],
          rule triple_cbind [OF triple_cput even_bound]) simp
    show ?thesis
      unfolding handle_data_def
      by (intro triple_cbind [OF name] triple_read read triple_if triple_cret)
        (auto intro!: triple_clift pooled simp: pool split: option.split)
  qed
  have table_done: "triple ?P (handle_table_done env i n mt) (\<lambda>_. ?P) any" for i n mt
    unfolding handle_table_done_def
    by (intro triple_cbind [OF name] triple_cbind [where R = "\<lambda>_. ?P"] triple_read read triple_if triple_cret even_drain
        even_calm [OF calm_await] put) (simp_all add: calm_def still_def on_stats_def)
  have last: "triple ?P (cbind (handle_done env mt fks) (\<lambda>_. cret True)) (\<lambda>b s. ?P s \<and> (b \<longrightarrow> im_pending s = [])) any" for mt fks
  proof -
    have "triple ?P (handle_done env mt fks) (\<lambda>_ s. ?P s \<and> im_pending s = []) any"
      unfolding handle_done_def
      by (intro triple_cbind [OF put] triple_read read triple_cbind [OF even_calm, of "ceach _ _"] steps_ceach calm_await calm_rules
          triple_cbind [OF even_wait_for_all] triple_cput)
        (auto elim: balanced_still simp: calm_def still_def on_stats_def)
    then show ?thesis by (rule triple_cbind [OF _ triple_cret]) auto
  qed
  show ?thesis
    unfolding handle_message_def
    by (cases m) (auto intro!: seq schema data table_done last triple_cret triple_clift)
qed

lemma tally_success:
  assumes "import_loop env es (fresh_import log sent) = (Inr (), s)" "ie_pool env"
  shows "acc s = total env (im_work s) \<and> im_pending s = []"
proof -
  let ?s0 = "fresh_import log sent"
  have "acc ?s0 = 0" by (rule acc_zero) (simp_all add: fresh_import_def no_stats_def)
  then have "even env ?s0" by (simp add: balanced_def loads_total_def fresh_import_def)
  moreover have "triple (even env) (handle_message env m) (\<lambda>b s. even env s \<and> (b \<longrightarrow> im_pending s = [])) any" for m
    by (rule even_message [OF assms(2)])
  ultimately have "even env s \<and> im_pending s = []"
    using import_loop_success [where P = "\<lambda>h. even env" and F = "\<lambda>s. im_pending s = []" and h = "[]"] assms(1) by blast
  then show ?thesis by (auto simp: balanced_def)
qed

end

interpretation rows: tally "\<lambda>s. is_rows_imported (im_stats s)" "\<lambda>t r. lr_rows r"
  by unfold_locales (simp_all add: add_result_def on_stats_def)

definition dropped_of :: "string \<Rightarrow> import_state \<Rightarrow> u64" where
  "dropped_of t s = (case im_dropped s t of None \<Rightarrow> 0 | Some n \<Rightarrow> n)"

interpretation dropped: tally "dropped_of t" "\<lambda>u r. if u = t then lr_dropped r else 0" for t
  by unfold_locales
    (auto simp: dropped_of_def add_result_def on_stats_def record_dropped_def word_neq_0_conv [symmetric] split: option.splits)

section \<open>The tables that are done\<close>

definition grows :: "import_state \<Rightarrow> import_state \<Rightarrow> bool" where
  "grows s s' \<longleftrightarrow> counted s \<subseteq> counted s'"

lemma grows_rules: "reflp grows" "transp grows"
  by (auto simp: reflp_def transp_def grows_def)

lemmas grows_intros = steps_cbind [OF _ _ grows_rules(2)] steps_pure(1) [OF grows_rules(1)]
  steps_pure(2) [OF grows_rules(1)] steps_pure(3) [OF grows_rules(1)]

lemma grows_put: "(\<And>s. grows s (f s)) \<Longrightarrow> steps grows (cput f)"
  by (auto simp: steps_def cput_def)

lemma grows_on_log: "steps grows (on_log m)"
  by (auto simp: steps_def on_log_def grows_def counted_def split: prod.splits)

lemma grows_check: "steps grows (check_fail_after env)"
  by (auto simp: steps_def check_fail_after_def grows_def split: option.splits)

lemma grows_finalize: "steps grows (finalize_table env t n)"
  unfolding finalize_table_def
  by (intro grows_intros grows_put grows_on_log grows_check) (auto simp: grows_def count_table_def on_stats_def counted_def)

lemma finalize_names: "finalize_table env t n s = (r, s') \<Longrightarrow> t \<in> names_of s'"
proof -
  assume run: "finalize_table env t n s = (r, s')"
  have rest: "steps (\<lambda>s s'. names_of s \<subseteq> names_of s') (cbind (on_log (mark_complete (ie_db env) t n)) (\<lambda>_. check_fail_after env))"
    by (intro steps_cbind stepsI) (auto simp: on_log_def check_fail_after_def transp_def split: option.splits prod.splits)
  have "cbind (on_log (mark_complete (ie_db env) t n)) (\<lambda>_. check_fail_after env) (count_table t s) = (r, s')"
    using run by (simp add: finalize_table_def cbind_def cput_def)
  from stepsD [OF rest this] show ?thesis by (auto simp: count_table_def on_stats_def)
qed

lemma grows_finalize_deferred: "steps grows (finalize_deferred env t)"
proof (rule stepsI)
  fix s :: import_state
  let ?s1 = "s\<lparr>im_deferred := (im_deferred s)(t := None)\<rparr>"
  obtain r s' where run: "finalize_table env t (the (im_deferred s t)) ?s1 = (r, s')" by force
  have "counted s \<subseteq> insert t (counted ?s1)" by (auto simp: counted_def)
  also have "\<dots> \<subseteq> counted s'"
    using finalize_names [OF run] stepsD [OF grows_finalize run] by (auto simp: grows_def counted_def)
  finally show "grows s (snd (finalize_deferred env t s))"
    using run by (simp add: finalize_deferred_def cbind_def cget_def cput_def grows_def)
qed

lemma grows_completed: "steps grows (finalize_completed_tables env ps)"
  unfolding finalize_completed_tables_def Let_def
  by (auto intro!: grows_intros steps_ceach grows_finalize_deferred grows_rules)

lemma grows_drain_loads: "steps grows (drain_loads env loads old)"
proof (induction loads arbitrary: old)
  case (Cons load loads)
  obtain t k where load: "load = (t, k)" by force
  have recv: "steps grows (try_recv env k)" by (auto simp: steps_def try_recv_def grows_def counted_def)
  show ?case unfolding load drain_loads.simps
    by (intro steps_cbind [OF recv _ grows_rules(2)])
      (auto intro!: grows_intros grows_put Cons.IH split: received.splits sum.splits
        simp: grows_def counted_def add_result_def on_stats_def)
qed (auto intro!: grows_intros)

lemma grows_drain: "steps grows (drain_completed_loads env)"
  unfolding drain_completed_loads_def
  by (intro grows_intros grows_drain_loads grows_completed grows_put) (auto simp: grows_def counted_def)

lemma grows_await: "steps grows (await_ddl env t)"
  unfolding await_ddl_def
  by (auto intro!: grows_intros grows_put split: option.splits simp: grows_def counted_def)

lemma grows_submit: "steps grows (submit env w)"
  by (auto simp: steps_def submit_def Let_def grows_def counted_def)

lemma grows_wait: "steps grows (wait_and_add env load)"
  unfolding wait_and_add_def
  by (auto intro!: grows_intros grows_put simp: grows_def counted_def add_result_def on_stats_def)

lemma grows_bound: "steps grows (bound_pending env)"
  unfolding bound_pending_def
  by (auto intro!: grows_intros grows_drain grows_wait grows_put simp: grows_def counted_def)

lemma grows_schema: "steps grows (handle_schema env i c ix op)"
  unfolding handle_schema_def Let_def
  by (auto simp: table_name_def intro!: grows_intros grows_put grows_on_log grows_submit)
    (auto simp: grows_def counted_def)

lemma grows_data: "steps grows (handle_data env i n d)"
proof -
  have pooled: "steps grows (load_pooled env t c n d)" for t c
    unfolding load_pooled_def
    by (intro grows_intros grows_await grows_submit grows_put grows_bound) (auto simp: grows_def counted_def)
  have seq: "steps grows (load_sequential env t c n d)" for t c
    unfolding load_sequential_def
    by (intro grows_intros grows_on_log grows_put) (auto simp: grows_def counted_def add_result_def on_stats_def)
  show ?thesis
    unfolding handle_data_def
    by (auto simp: table_name_def intro!: grows_intros pooled seq split: option.splits)
qed

lemma ceach_finalize_names:
  "ceach (\<lambda>t. finalize_table env t (f t)) ts s = (Inr u, s') \<Longrightarrow> names_of s \<union> set ts \<subseteq> names_of s'"
proof (induction ts arbitrary: s)
  case (Cons t ts)
  then obtain s1 where one: "finalize_table env t (f t) s = (Inr (), s1)"
    and rest: "ceach (\<lambda>t. finalize_table env t (f t)) ts s1 = (Inr u, s')" by (auto simp: client_rules)
  have "im_deferred s1 = im_deferred s" "names_of s1 = insert t (names_of s)"
    using one by (auto simp: finalize_table_def client_rules count_table_def on_stats_def on_log_def check_fail_after_def
        split: prod.splits option.splits if_splits)
  then show ?case using Cons.IH [OF rest] by auto
qed (simp add: client_rules)

text \<open>After the last message the tables done are counted, and nothing is deferred.\<close>

lemma ceach_finalize_deferred:
  "ceach (\<lambda>t. finalize_table env t (f t)) ts s = (r, s') \<Longrightarrow> im_deferred s' = im_deferred s"
proof -
  assume run: "ceach (\<lambda>t. finalize_table env t (f t)) ts s = (r, s')"
  let ?R = "\<lambda>s s'. im_deferred s' = im_deferred s"
  have R: "reflp ?R" "transp ?R" by (auto simp: reflp_def transp_def)
  have "steps ?R (finalize_table env t n)" for t n
    unfolding finalize_table_def
    by (intro steps_cbind stepsI R)
      (auto simp: cput_def count_table_def on_stats_def on_log_def check_fail_after_def split: option.splits prod.splits)
  then have "steps ?R (ceach (\<lambda>t. finalize_table env t (f t)) ts)" by (intro steps_ceach R)
  then show ?thesis using run by (rule stepsD)
qed

lemma wait_for_all_names:
  assumes "wait_for_all_loads env s = (Inr u, s')" "enumerates (ie_order env)" "finite (dom (im_deferred s))"
  shows "counted s \<subseteq> names_of s' \<and> im_deferred s' = Map.empty"
proof -
  obtain s1 where wait: "ceach (wait_and_add env) (im_pending s) s = (Inr (), s1)"
    and rest: "ceach (\<lambda>t. finalize_table env t (the (im_deferred s1 t))) (ie_order env (dom (im_deferred s1)))
      (s1\<lparr>im_pending := [], im_deferred := Map.empty\<rparr>) = (Inr u, s')"
    using assms(1) by (auto simp: wait_for_all_loads_def client_rules)
  let ?R = "\<lambda>s s'. im_deferred s' = im_deferred s \<and> names_of s' = names_of s"
  have R: "reflp ?R" "transp ?R" by (auto simp: reflp_def transp_def)
  have "steps ?R (wait_and_add env load)" for load
    unfolding wait_and_add_def
    by (intro steps_cbind stepsI R) (auto simp: cput_def cget_def clift_def add_result_def on_stats_def)
  then have "steps ?R (ceach (wait_and_add env) (im_pending s))" by (intro steps_ceach R)
  from stepsD [OF this wait] have s1: "im_deferred s1 = im_deferred s" "names_of s1 = names_of s" by auto
  show ?thesis
    using ceach_finalize_names [OF rest] ceach_finalize_deferred [OF rest] order_set [OF assms(2,3)] s1
    by (auto simp: counted_def)
qed

lemma handle_done_names:
  assumes "handle_done env m fks s = (Inr u, s')" "enumerates (ie_order env)" "maps_finite s"
  shows "counted s \<subseteq> names_of s' \<and> im_deferred s' = Map.empty"
proof -
  let ?s1 = "on_stats (\<lambda>st. st\<lparr>is_source_fks := fks\<rparr>) s"
  obtain s2 s3 where await: "ceach (await_ddl env) (ie_order env (dom (im_ddls ?s1))) ?s1 = (Inr (), s2)"
    and wait: "wait_for_all_loads env s2 = (Inr (), s3)"
    and s': "s' = on_stats (\<lambda>st. st\<lparr>is_server_metrics := m\<rparr>) s3"
    using assms(1) by (auto simp: handle_done_def client_rules)
  let ?R = "\<lambda>s s'. im_deferred s' = im_deferred s \<and> names_of s' = names_of s"
  have R: "reflp ?R" "transp ?R" by (auto simp: reflp_def transp_def)
  have "steps ?R (await_ddl env t)" for t
    by (rule stepsI) (simp add: await_ddl_def cbind_def cput_def cget_def clift_def cret_def split: option.split sum.split)
  then have "steps ?R (ceach (await_ddl env) (ie_order env (dom (im_ddls ?s1))))" by (intro steps_ceach R)
  from stepsD [OF this await] have s2: "im_deferred s2 = im_deferred s" "names_of s2 = names_of s"
    by (auto simp: on_stats_def)
  show ?thesis
    using wait_for_all_names [OF wait assms(2)] assms(3) s2 s' by (auto simp: counted_def maps_finite_def on_stats_def)
qed

lemma grows_table_done:
  assumes "handle_table_done env i n m s = (Inr u, s')" "ie_ids env i = Some t"
  shows "counted s \<subseteq> counted s' \<and> (t \<notin> im_skipped s \<longrightarrow> t \<in> counted s')"
proof -
  let ?s1 = "if m \<noteq> None then on_stats (\<lambda>st. st\<lparr>is_server_metrics := m\<rparr>) s else s"
  have s1: "counted ?s1 = counted s" "im_skipped ?s1 = im_skipped s" by (simp_all add: counted_def on_stats_def)
  show ?thesis
  proof (cases "t \<in> im_skipped s")
    case True
    then show ?thesis using assms s1 by (auto simp: handle_table_done_def table_name_def client_rules)
  next
    case False
    then obtain s2 where await: "await_ddl env t ?s1 = (Inr (), s2)"
      and drain: "drain_completed_loads env (s2\<lparr>im_deferred := (im_deferred s2)(t \<mapsto> n)\<rparr>) = (Inr u, s')"
      using assms s1(2) by (auto simp: handle_table_done_def table_name_def client_rules simp del: if_split_asm)
    have "counted s \<subseteq> counted s2" using stepsD [OF grows_await await] s1 by (simp add: grows_def)
    moreover have "counted s2 \<union> {t} \<subseteq> counted (s2\<lparr>im_deferred := (im_deferred s2)(t \<mapsto> n)\<rparr>)" by (auto simp: counted_def)
    moreover have "\<dots> \<subseteq> counted s'" using stepsD [OF grows_drain drain] by (simp add: grows_def)
    ultimately show ?thesis by blast
  qed
qed

definition complete_for :: "import_env \<Rightarrow> server_message list \<Rightarrow> import_state \<Rightarrow> bool" where
  "complete_for env h s \<longleftrightarrow> accounted env h s \<and> tables_done env h - ie_completed env \<subseteq> counted s"

lemma complete_message:
  assumes ord: "enumerates (ie_order env)" and pool: "ie_pool env"
  shows "triple (complete_for env h) (handle_message env m)
    (\<lambda>b s. complete_for env (h @ [m]) s \<and> (b \<longrightarrow> im_deferred s = Map.empty)) any"
proof (rule tripleI)
  fix s b s'
  assume c: "complete_for env h s" and run: "handle_message env m s = (Inr b, s')"
  have a: "accounted env (h @ [m]) s'"
    using triple_Inr [OF accounted_message [OF ord pool] _ run] c by (simp add: complete_for_def)
  have fin: "maps_finite s" and skipped: "im_skipped s \<subseteq> ie_completed env" using c by (auto simp: complete_for_def accounted_def)
  have "tables_done env (h @ [m]) - ie_completed env \<subseteq> counted s' \<and> (b \<longrightarrow> im_deferred s' = Map.empty)"
  proof (cases m)
    case (Schema i cs ix op)
    then have "grows s s'" and "\<not> b"
      using run by (auto simp: handle_message_def client_rules dest!: stepsD [OF grows_schema])
    then show ?thesis using c by (auto simp: complete_for_def grows_def tables_done_snoc Schema)
  next
    case (Data i n d)
    then have "grows s s'" and "\<not> b"
      using run by (auto simp: handle_message_def client_rules dest!: stepsD [OF grows_data])
    then show ?thesis using c by (auto simp: complete_for_def grows_def tables_done_snoc Data)
  next
    case (TableDone i n mt)
    then have table: "handle_table_done env i n mt s = (Inr (), s')" and "\<not> b"
      using run by (auto simp: handle_message_def client_rules)
    then obtain t where t: "ie_ids env i = Some t"
      by (auto simp: handle_table_done_def table_name_def client_rules split: option.splits)
    show ?thesis
      using grows_table_done [OF table t] c t skipped \<open>\<not> b\<close> by (auto simp: complete_for_def tables_done_snoc TableDone)
  next
    case (SmDone ds mt fks)
    then have "handle_done env mt fks s = (Inr (), s')" using run by (auto simp: handle_message_def client_rules)
    from handle_done_names [OF this ord fin] show ?thesis
      using c by (auto simp: complete_for_def counted_def tables_done_snoc SmDone)
  next
    case (SmError msg rec)
    then have "s' = s \<and> \<not> b" using run by (cases rec) (auto simp: handle_message_def client_rules)
    then show ?thesis using c by (auto simp: complete_for_def tables_done_snoc SmError)
  qed (use run in \<open>auto simp: handle_message_def client_rules\<close>)
  with a show "complete_for env (h @ [m]) s' \<and> (b \<longrightarrow> im_deferred s' = Map.empty)" by (simp add: complete_for_def)
qed simp



section \<open>A run that must succeed\<close>

text \<open>
  A healthy environment: the local database and the workers answer every statement, the workers
  live, and no crash is simulated.
\<close>

definition total_db :: "database \<Rightarrow> bool" where
  "total_db db \<longleftrightarrow> (\<forall>log q. \<exists>r. db log q = Inr r)"

definition healthy :: "import_env \<Rightarrow> bool" where
  "healthy env \<longleftrightarrow> ie_pool env \<and> enumerates (ie_order env) \<and> total_db (ie_db env) \<and> ie_fail_after env = None \<and>
     (\<forall>k. wk_accepts (ie_workers env) k \<and> wk_alive (ie_workers env) k \<and> total_db (wk_db (ie_workers env) k))"

text \<open>
  A well-formed stream: a table is announced, gets chunks that can be unpacked and is done, in
  this order, errors are recoverable, and \<open>Done\<close> comes at the end.  \<open>op\<close> are the tables announced and
  not done, \<open>cl\<close> those that are done.
\<close>

definition unpacks :: "import_env \<Rightarrow> bytes \<Rightarrow> bool" where
  "unpacks env d \<longleftrightarrow> (\<exists>out. maybe_decompress (wk_unzstd (ie_workers env)) d (ie_compression env) = Inr out)"

fun well_formed :: "import_env \<Rightarrow> string set \<Rightarrow> string set \<Rightarrow> server_message list \<Rightarrow> bool" where
  "well_formed env op cl [] = False"
| "well_formed env op cl (Schema i c ix opts # ms) \<longleftrightarrow>
     (\<exists>t. ie_ids env i = Some t \<and> t \<notin> cl \<and> well_formed env (insert t op) cl ms)"
| "well_formed env op cl (Data i n d # ms) \<longleftrightarrow>
     (\<exists>t. ie_ids env i = Some t \<and> t \<in> op \<and> unpacks env d \<and> well_formed env op cl ms)"
| "well_formed env op cl (TableDone i n m # ms) \<longleftrightarrow>
     (\<exists>t. ie_ids env i = Some t \<and> t \<in> op \<and> well_formed env (op - {t}) (insert t cl) ms)"
| "well_formed env op cl (SmError e rec # ms) \<longleftrightarrow> rec \<and> well_formed env op cl ms"
| "well_formed env op cl (SmDone ds m fks # ms) \<longleftrightarrow> True"
| "well_formed env op cl (Ready ts c # ms) \<longleftrightarrow> False"
| "well_formed env op cl (DryRunReport ds cs # ms) \<longleftrightarrow> False"

definition succeeds :: "('s, 'a) cstep \<Rightarrow> bool" where
  "succeeds m \<longleftrightarrow> (\<forall>s. \<exists>x s'. m s = (Inr x, s'))"

lemma succeeds_cbind:
  assumes "succeeds m" "\<And>x. succeeds (f x)"
  shows "succeeds (cbind m f)"
  unfolding succeeds_def
proof
  fix s
  obtain x s1 where "m s = (Inr x, s1)" using assms(1) unfolding succeeds_def by blast
  moreover obtain y s2 where "f x s1 = (Inr y, s2)" using assms(2) unfolding succeeds_def by blast
  ultimately show "\<exists>y s'. cbind m f s = (Inr y, s')" by (simp add: cbind_def)
qed

lemma succeeds_cret: "succeeds (cret x)"
  by (simp add: succeeds_def cret_def)

lemma succeeds_execute: "total_db db \<Longrightarrow> succeeds (execute db q)"
  by (simp add: succeeds_def execute_def total_db_def)

lemma succeeds_query:
  assumes "total_db db"
  shows "succeeds (query_drop db q)" "succeeds (query_rows db q)" "succeeds (query_names db q)"
    "succeeds (query_first db q)" "succeeds (query_count db q)"
  unfolding query_drop_def query_rows_def query_names_def query_first_def query_count_def
  by (intro succeeds_cbind succeeds_cret succeeds_execute assms)+

lemma succeeds_state:
  assumes "total_db db"
  shows "succeeds (mark_complete db t n)" "succeeds (backup_preserved_rows db t rules)"
    "succeeds (create_table db t cols ix opts an)" "succeeds (load_tsv_data db t cols d)"
  unfolding mark_complete_def backup_preserved_rows_def table_exists_def create_table_def load_tsv_data_def Let_def
  by (auto intro!: succeeds_cbind succeeds_cret succeeds_execute succeeds_query assms)

definition live :: "import_env \<Rightarrow> string set \<Rightarrow> string set \<Rightarrow> (string \<times> nat) list \<Rightarrow> import_state \<Rightarrow> bool" where
  "live env op cl ps s \<longleftrightarrow> maps_finite s \<and> dom (im_deferred s) \<subseteq> cl \<and> op \<inter> cl = {} \<and>
     (\<forall>t \<in> op. t \<in> im_skipped s \<or> im_schemas s t \<noteq> None) \<and>
     (\<forall>t k. im_ddls s t = Some k \<longrightarrow> k < length (im_work s) \<and> (\<exists>u c ix opts an. im_work s ! k = CreateTable u c ix opts an)) \<and>
     (\<forall>(t, k) \<in> set ps. k < length (im_work s) \<and>
        (\<exists>u c d x. im_work s ! k = LoadData u c d (ie_compression env) x \<and> unpacks env d))"

abbreviation (input) never :: "import_state \<Rightarrow> bool" where "never s \<equiv> False"

lemma live_ddl:
  assumes "healthy env" "live env op cl ps s" "im_ddls s t = Some k"
  shows "wait_ddl (ie_workers env) (im_work s) t k = Inr ()"
proof -
  obtain u c ix opts an where w: "im_work s ! k = CreateTable u c ix opts an" using assms(2,3) by (fastforce simp: live_def)
  have "succeeds (create_table (wk_db (ie_workers env) k) u c ix opts an)"
    using assms(1) by (intro succeeds_state) (simp add: healthy_def)
  then obtain x l where "create_table (wk_db (ie_workers env) k) u c ix opts an [] = (Inr x, l)"
    unfolding succeeds_def by blast
  then show ?thesis using assms(1) by (simp add: wait_ddl_def ddl_reply_def run_create_def w healthy_def)
qed

lemma live_load:
  assumes "healthy env" "live env op cl ps s" "(t, k) \<in> set ps"
  shows "\<exists>r. load_reply (ie_workers env) (im_work s) k = Some (Inr r)"
proof -
  obtain u c d x where w: "im_work s ! k = LoadData u c d (ie_compression env) x" and d: "unpacks env d"
    using assms(2,3) by (fastforce simp: live_def)
  obtain out where out: "maybe_decompress (wk_unzstd (ie_workers env)) d (ie_compression env) = Inr out"
    using d by (auto simp: unpacks_def)
  have "succeeds (load_tsv_data (wk_db (ie_workers env) k) u c out)"
    using assms(1) by (intro succeeds_state) (simp add: healthy_def)
  then obtain r l where "load_tsv_data (wk_db (ie_workers env) k) u c out [] = (Inr r, l)"
    unfolding succeeds_def by blast
  then show ?thesis using assms(1) out by (simp add: load_reply_def run_load_def w healthy_def map_error_def)
qed

lemma live_log:
  assumes "succeeds m"
  shows "triple (live env op cl ps) (on_log m) (\<lambda>_. live env op cl ps) never"
proof (rule tripleI)
  fix s e s'
  assume "on_log m s = (Inl e, s')"
  moreover obtain x l where "m (im_log s) = (Inr x, l)" using assms unfolding succeeds_def by blast
  ultimately show "never s'" by (simp add: on_log_def)
qed (auto simp: on_log_def live_def maps_finite_def split: prod.splits)

lemma live_finalize:
  assumes "healthy env" "t \<in> cl"
  shows "triple (live env op cl ps) (finalize_table env t n) (\<lambda>_. live env op cl ps) never"
proof -
  have count: "live env op cl ps (count_table t s)" if "live env op cl ps s" for s
    using that assms(2) by (auto simp: live_def count_table_def on_stats_def maps_finite_def)
  have check: "triple (live env op cl ps) (check_fail_after env) (\<lambda>_. live env op cl ps) never"
    using assms(1) by (intro tripleI) (auto simp: check_fail_after_def healthy_def)
  show ?thesis unfolding finalize_table_def
    by (rule triple_cbind [OF triple_cput triple_cbind [OF live_log check]])
      (use assms(1) count in \<open>auto intro: succeeds_state simp: healthy_def\<close>)
qed

lemma live_finalize_deferred:
  assumes "healthy env" "t \<in> cl"
  shows "triple (live env op cl ps) (finalize_deferred env t) (\<lambda>_. live env op cl ps) never"
  unfolding finalize_deferred_def
  by (intro triple_read triple_cbind [where R = "\<lambda>_. live env op cl ps"] triple_cput live_finalize assms)
    (auto simp: live_def maps_finite_def)

lemma live_deferred: "live env op cl ps s \<Longrightarrow> finite (dom (im_deferred s)) \<and> dom (im_deferred s) \<subseteq> cl"
  by (simp add: live_def maps_finite_def)

lemma live_completed:
  assumes "healthy env"
  shows "triple (live env op cl ps) (finalize_completed_tables env ps') (\<lambda>_. live env op cl ps) never"
  unfolding finalize_completed_tables_def Let_def
proof (rule triple_read, rule triple_if)
  fix deferred :: "string \<rightharpoonup> u64"
  let ?ready = "filter (\<lambda>t. t \<notin> fst ` set ps') (ie_order env (dom deferred))"
  show "triple (\<lambda>s. live env op cl ps s \<and> im_deferred s = deferred) (ceach (finalize_deferred env) ?ready)
     (\<lambda>_. live env op cl ps) never"
  proof (cases "finite (dom deferred) \<and> dom deferred \<subseteq> cl")
    case True
    have "enumerates (ie_order env)" using assms by (simp add: healthy_def)
    then have "set ?ready \<subseteq> cl" using True order_set by fastforce
    then have "triple (live env op cl ps) (ceach (finalize_deferred env) ?ready) (\<lambda>_. live env op cl ps) never"
      by (intro triple_ceach_inv live_finalize_deferred assms) auto
    then show ?thesis by (rule triple_conseq) auto
  next
    case False
    then show ?thesis by (auto simp: triple_def dest: live_deferred)
  qed
qed (auto intro: triple_cret)

lemma live_polls [simp]: "live env op cl ps (s\<lparr>im_polls := n\<rparr>) = live env op cl ps s"
  by (simp add: live_def maps_finite_def)

lemma live_pending [simp]: "live env op cl ps (s\<lparr>im_pending := qs\<rparr>) = live env op cl ps s"
  by (simp add: live_def maps_finite_def)

lemma live_add [simp]: "live env op cl ps (add_result t r s) = live env op cl ps s"
  by (simp add: live_def maps_finite_def add_result_def on_stats_def)

lemma live_subset: "live env op cl ps s \<Longrightarrow> set qs \<subseteq> set ps \<Longrightarrow> live env op cl qs s"
  by (auto simp: live_def)

lemma live_drain_loads:
  assumes "healthy env"
  shows "triple (live env op cl (old @ loads)) (drain_loads env loads old) (\<lambda>old'. live env op cl old') never"
proof (induction loads arbitrary: old)
  case (Cons load loads)
  obtain t k where load: "load = (t, k)" by force
  have here: "\<exists>r. drain_loads env (load # loads) old s = drain_loads env loads (old @ [(t, k)]) (s\<lparr>im_polls := im_polls s + 1\<rparr>) \<or>
      drain_loads env (load # loads) old s = drain_loads env loads old (add_result t r (s\<lparr>im_polls := im_polls s + 1\<rparr>))"
    if l: "live env op cl (old @ load # loads) s" for s
  proof -
    obtain r where "load_reply (ie_workers env) (im_work s) k = Some (Inr r)"
      using live_load [OF assms l, of t k] by (auto simp: load)
    then show ?thesis by (auto simp: load cbind_def try_recv_def cput_def)
  qed
  show ?case
  proof (rule tripleI)
    fix s old' s'
    assume l: "live env op cl (old @ load # loads) s" and run: "drain_loads env (load # loads) old s = (Inr old', s')"
    have "\<exists>r. drain_loads env loads (old @ [(t, k)]) (s\<lparr>im_polls := im_polls s + 1\<rparr>) = (Inr old', s') \<or>
      drain_loads env loads old (add_result t r (s\<lparr>im_polls := im_polls s + 1\<rparr>)) = (Inr old', s')" using here [OF l] unfolding run by metis
    then obtain r where "drain_loads env loads (old @ [(t, k)]) (s\<lparr>im_polls := im_polls s + 1\<rparr>) = (Inr old', s') \<or>
      drain_loads env loads old (add_result t r (s\<lparr>im_polls := im_polls s + 1\<rparr>)) = (Inr old', s')" by (rule exE)
    then show "live env op cl old' s'"
    proof
      assume "drain_loads env loads (old @ [(t, k)]) (s\<lparr>im_polls := im_polls s + 1\<rparr>) = (Inr old', s')"
      then show ?thesis by (rule triple_Inr [OF Cons.IH, rotated]) (use l in \<open>simp add: load\<close>)
    next
      assume "drain_loads env loads old (add_result t r (s\<lparr>im_polls := im_polls s + 1\<rparr>)) = (Inr old', s')"
      then show ?thesis by (rule triple_Inr [OF Cons.IH, rotated]) (use live_subset [OF l, of "old @ loads"] in \<open>auto simp: load\<close>)
    qed
  next
    fix s e s'
    assume l: "live env op cl (old @ load # loads) s" and run: "drain_loads env (load # loads) old s = (Inl e, s')"
    have "\<exists>r. drain_loads env loads (old @ [(t, k)]) (s\<lparr>im_polls := im_polls s + 1\<rparr>) = (Inl e, s') \<or>
      drain_loads env loads old (add_result t r (s\<lparr>im_polls := im_polls s + 1\<rparr>)) = (Inl e, s')" using here [OF l] unfolding run by metis
    then obtain r where "drain_loads env loads (old @ [(t, k)]) (s\<lparr>im_polls := im_polls s + 1\<rparr>) = (Inl e, s') \<or>
      drain_loads env loads old (add_result t r (s\<lparr>im_polls := im_polls s + 1\<rparr>)) = (Inl e, s')" by (rule exE)
    then show "never s'"
    proof
      assume "drain_loads env loads (old @ [(t, k)]) (s\<lparr>im_polls := im_polls s + 1\<rparr>) = (Inl e, s')"
      then show ?thesis by (rule triple_Inl [OF Cons.IH, rotated]) (use l in \<open>simp add: load\<close>)
    next
      assume "drain_loads env loads old (add_result t r (s\<lparr>im_polls := im_polls s + 1\<rparr>)) = (Inl e, s')"
      then show ?thesis by (rule triple_Inl [OF Cons.IH, rotated]) (use live_subset [OF l, of "old @ loads"] in \<open>auto simp: load\<close>)
    qed
  qed
qed (auto intro: triple_cret)

abbreviation alive :: "import_env \<Rightarrow> string set \<Rightarrow> string set \<Rightarrow> import_state \<Rightarrow> bool" where
  "alive env op cl s \<equiv> live env op cl (im_pending s) s"

lemma live_drain:
  assumes "healthy env"
  shows "triple (alive env op cl) (drain_completed_loads env) (\<lambda>_. alive env op cl) never"
  unfolding drain_completed_loads_def
proof (rule triple_read)
  fix ps
  have "triple (live env op cl ps)
     (cbind (drain_loads env ps []) (\<lambda>old. cbind (finalize_completed_tables env old) (\<lambda>_. cput (\<lambda>s. s\<lparr>im_pending := old\<rparr>))))
     (\<lambda>_. alive env op cl) never"
    by (rule triple_cbind [OF _ triple_cbind [OF live_completed [OF assms] triple_cput]])
      (use live_drain_loads [OF assms, of op cl "[]" ps] in simp_all)
  then show "triple (\<lambda>s. alive env op cl s \<and> im_pending s = ps)
     (cbind (drain_loads env ps []) (\<lambda>old. cbind (finalize_completed_tables env old) (\<lambda>_. cput (\<lambda>s. s\<lparr>im_pending := old\<rparr>))))
     (\<lambda>_. alive env op cl) never"
    by (rule triple_conseq) auto
qed

lemma live_await:
  assumes "healthy env"
  shows "triple (\<lambda>s. alive env op cl s \<and> im_schemas s = sc \<and> im_skipped s = sk) (await_ddl env t)
    (\<lambda>_ s. alive env op cl s \<and> im_schemas s = sc \<and> im_skipped s = sk) never"
proof -
  have del: "alive env op cl (s\<lparr>im_ddls := (im_ddls s)(t := None)\<rparr>)" if "alive env op cl s" for s
    using that by (auto simp: live_def maps_finite_def split: if_splits)
  show ?thesis
    by (rule tripleI)
      (auto simp: await_ddl_def cbind_def cget_def cput_def clift_def cret_def live_ddl [OF assms] split: option.splits sum.splits
        intro: del)
qed

lemma live_wait_one:
  assumes "healthy env"
  shows "triple (live env op cl (load # ps)) (wait_and_add env load) (\<lambda>_. live env op cl ps) never"
proof (rule tripleI)
  fix s u s'
  assume l: "live env op cl (load # ps) s" and "wait_and_add env load s = (Inr u, s')"
  then show "live env op cl ps s'" using live_subset [OF l set_subset_Cons] by (auto simp: wait_and_add_def client_rules)
next
  fix s e s'
  assume l: "live env op cl (load # ps) s" and run: "wait_and_add env load s = (Inl e, s')"
  obtain r where "load_reply (ie_workers env) (im_work s) (snd load) = Some (Inr r)"
    using live_load [OF assms l, of "fst load" "snd load"] by auto
  then show "never s'" using run by (simp add: wait_and_add_def cbind_def cget_def clift_def wait_for_load_def cput_def)
qed

lemma live_bound:
  assumes "healthy env"
  shows "triple (alive env op cl) (bound_pending env) (\<lambda>_. alive env op cl) never"
proof -
  have oldest: "triple (\<lambda>s. alive env op cl s \<and> im_pending s = ps)
     (cbind (wait_and_add env (hd ps)) (\<lambda>_. cput (\<lambda>s. s\<lparr>im_pending := tl ps\<rparr>))) (\<lambda>_. alive env op cl) never"
    if "MAX_PENDING_CHUNKS < length ps" for ps
  proof -
    have ps: "ps = hd ps # tl ps" using that by (cases ps) auto
    have "triple (live env op cl ps) (wait_and_add env (hd ps)) (\<lambda>_. live env op cl (tl ps)) never"
      using live_wait_one [OF assms, of op cl "hd ps" "tl ps"] ps by simp
    then have "triple (live env op cl ps) (cbind (wait_and_add env (hd ps)) (\<lambda>_. cput (\<lambda>s. s\<lparr>im_pending := tl ps\<rparr>)))
      (\<lambda>_. alive env op cl) never"
      by (rule triple_cbind) (simp add: triple_cput)
    then show ?thesis by (rule triple_conseq) auto
  qed
  have drain: "triple (\<lambda>s. alive env op cl s \<and> length (im_pending s) = n) (drain_completed_loads env) (\<lambda>_. alive env op cl) never" for n
    by (rule triple_conseq [OF live_drain [OF assms]]) auto
  show ?thesis
    unfolding bound_pending_def
    by (intro triple_read triple_if triple_cbind [OF drain] oldest) (auto intro!: triple_cret)
qed

lemma live_snoc:
  assumes "live env op cl ps s"
  shows "live env op cl ps (s\<lparr>im_work := im_work s @ [w]\<rparr>)"
proof -
  have "k < Suc (length (im_work s)) \<and> (\<exists>u c ix opts an. (im_work s @ [w]) ! k = CreateTable u c ix opts an)"
    if "im_ddls s t = Some k" for t k
    using assms that by (fastforce simp: live_def nth_append)
  moreover have "k < Suc (length (im_work s)) \<and>
      (\<exists>u c d x. (im_work s @ [w]) ! k = LoadData u c d (ie_compression env) x \<and> unpacks env d)" if "(t, k) \<in> set ps" for t k
  proof -
    have "case (t, k) of (t, k) \<Rightarrow> k < length (im_work s) \<and>
        (\<exists>u c d x. im_work s ! k = LoadData u c d (ie_compression env) x \<and> unpacks env d)"
      using assms that unfolding live_def by blast
    then show ?thesis by (auto simp: nth_append)
  qed
  ultimately show ?thesis using assms by (auto simp: live_def maps_finite_def)
qed

lemma live_load_pooled:
  assumes "healthy env" "unpacks env d"
  shows "triple (alive env op cl) (load_pooled env t c n d) (\<lambda>_. alive env op cl) never"
proof -
  have await: "triple (alive env op cl) (await_ddl env t) (\<lambda>_. alive env op cl) never"
  proof (rule tripleI)
    fix s u s'
    assume "alive env op cl s" "await_ddl env t s = (Inr u, s')"
    then show "alive env op cl s'"
      using triple_Inr [OF live_await [OF assms(1), of op cl "im_schemas s" "im_skipped s" t], of s u s'] by simp
  next
    fix s e s'
    assume "alive env op cl s" "await_ddl env t s = (Inl e, s')"
    then show "never s'"
      using triple_Inl [OF live_await [OF assms(1), of op cl "im_schemas s" "im_skipped s" t], of s e s'] by simp
  qed
  let ?w = "LoadData t c d (ie_compression env) (ucast n)"
  have sub: "triple (alive env op cl) (submit env ?w) (\<lambda>k s. live env op cl (im_pending s @ [(t, k)]) s) never"
  proof (rule tripleI)
    fix s k s'
    assume l: "alive env op cl s" and run: "submit env ?w s = (Inr k, s')"
    then have s': "s' = s\<lparr>im_work := im_work s @ [?w]\<rparr>" "k = length (im_work s)"
      using assms(1) by (auto simp: submit_def Let_def healthy_def)
    show "live env op cl (im_pending s' @ [(t, k)]) s'"
      using live_snoc [OF l, of ?w] assms(2) by (auto simp: s' live_def)
  qed (use assms(1) in \<open>simp add: submit_def Let_def healthy_def\<close>)
  show ?thesis
    unfolding load_pooled_def
    by (rule triple_cbind [OF await], rule triple_cbind [OF sub], rule triple_cbind [OF triple_cput live_bound [OF assms(1)]]) simp
qed

lemma live_schema:
  assumes "healthy env" "ie_ids env i = Some t" "t \<notin> cl"
  shows "triple (alive env op cl) (handle_schema env i c ix opts) (\<lambda>_. alive env (insert t op) cl) never"
proof -
  have name: "table_name env i what = cret t" for what
    by (simp add: table_name_def assms(2) clift_def cret_def fun_eq_iff)
  have ret: "cbind (cret t) f = f t" for f :: "string \<Rightarrow> (import_state, unit) cstep"
    by (simp add: cbind_def cret_def fun_eq_iff)
  let ?Q = "alive env (insert t op) cl"
  have skip: "triple (alive env op cl) (cput (\<lambda>s. s\<lparr>im_skipped := insert t (im_skipped s)\<rparr>)) (\<lambda>_. ?Q) never"
    by (rule triple_cput) (use assms(3) in \<open>auto simp: live_def maps_finite_def\<close>)
  have schema: "triple (alive env op cl) (cput (\<lambda>s. s\<lparr>im_schemas := (im_schemas s)(t \<mapsto> c)\<rparr>)) (\<lambda>_. ?Q) never"
    by (rule triple_cput) (use assms(3) in \<open>auto simp: live_def maps_finite_def\<close>)
  have log: "triple ?Q (on_log m) (\<lambda>_. ?Q) never" if m: "succeeds m" for m :: "(statement list, 'x) cstep"
  proof (rule tripleI)
    fix s e s'
    assume "on_log m s = (Inl e, s')"
    moreover obtain x l where "m (im_log s) = (Inr x, l)" using m unfolding succeeds_def by blast
    ultimately show "never s'" by (simp add: on_log_def)
  qed (auto simp: on_log_def live_def maps_finite_def split: prod.splits)
  have keep: "triple ?Q (if ps \<noteq> [] then
                cbind (on_log (backup_preserved_rows (ie_db env) t ps)) (\<lambda>kept.
                if kept then cput (\<lambda>s. s\<lparr>im_preserved := im_preserved s @ [t]\<rparr>) else cret ())
              else cret ()) (\<lambda>_. ?Q) never" for ps
    by (intro triple_if triple_cbind [OF log] triple_cput triple_cret succeeds_state)
      (use assms(1) in \<open>auto simp: live_def maps_finite_def healthy_def\<close>)
  have sub: "triple ?Q (cbind (submit env (CreateTable t c ix opts an)) (\<lambda>k. cput (\<lambda>s. s\<lparr>im_ddls := (im_ddls s)(t \<mapsto> k)\<rparr>)))
    (\<lambda>_. ?Q) never" for an
  proof (rule tripleI)
    fix s u s'
    assume l: "?Q s" and run: "cbind (submit env (CreateTable t c ix opts an)) (\<lambda>k. cput (\<lambda>s. s\<lparr>im_ddls := (im_ddls s)(t \<mapsto> k)\<rparr>)) s = (Inr u, s')"
    let ?s1 = "s\<lparr>im_work := im_work s @ [CreateTable t c ix opts an]\<rparr>"
    have s': "s' = ?s1\<lparr>im_ddls := (im_ddls s)(t \<mapsto> length (im_work s))\<rparr>"
      using run assms(1) by (simp add: cbind_def submit_def Let_def healthy_def cput_def)
    show "?Q s'" using live_snoc [OF l, of "CreateTable t c ix opts an"] by (auto simp: s' live_def maps_finite_def)
  qed (use assms(1) in \<open>simp add: cbind_def submit_def Let_def healthy_def cput_def\<close>)
  have pool: "ie_pool env" using assms(1) by (simp add: healthy_def)
  show ?thesis
    unfolding handle_schema_def name ret Let_def if_P [OF pool]
    by (intro triple_if skip triple_cbind [OF schema] triple_cbind [OF keep] sub)
qed

lemma live_on_stats [simp]: "live env op cl ps (on_stats f s) = live env op cl ps s"
  by (simp add: live_def maps_finite_def on_stats_def)

lemma live_await_only:
  assumes "healthy env"
  shows "triple (alive env op cl) (await_ddl env t) (\<lambda>_. alive env op cl) never"
proof (rule tripleI)
  fix s u s'
  assume "alive env op cl s" "await_ddl env t s = (Inr u, s')"
  then show "alive env op cl s'"
    using triple_Inr [OF live_await [OF assms, of op cl "im_schemas s" "im_skipped s" t], of s u s'] by simp
next
  fix s e s'
  assume "alive env op cl s" "await_ddl env t s = (Inl e, s')"
  then show "never s'"
    using triple_Inl [OF live_await [OF assms, of op cl "im_schemas s" "im_skipped s" t], of s e s'] by simp
qed

lemma live_data:
  assumes "healthy env" "ie_ids env i = Some t" "t \<in> op" "unpacks env d"
  shows "triple (alive env op cl) (handle_data env i n d) (\<lambda>_. alive env op cl) never"
proof -
  have name: "table_name env i what = cret t" for what
    by (simp add: table_name_def assms(2) clift_def cret_def fun_eq_iff)
  have ret: "cbind (cret t) f = f t" for f :: "string \<Rightarrow> (import_state, unit) cstep"
    by (simp add: cbind_def cret_def fun_eq_iff)
  have pool: "ie_pool env" using assms(1) by (simp add: healthy_def)
  have body: "triple (\<lambda>s. (alive env op cl s \<and> im_skipped s = sk) \<and> im_schemas s t = found)
      (case found of None \<Rightarrow> clift (Inl e) | Some c \<Rightarrow> if ie_pool env then load_pooled env t c n d else load_sequential env t c n d)
      (\<lambda>_. alive env op cl) never" if "t \<notin> sk" for sk found e
  proof (cases found)
    case None
    then show ?thesis using that assms(3) by (auto simp: triple_def live_def)
  next
    case (Some c)
    show ?thesis unfolding Some option.case if_P [OF pool]
      by (rule triple_conseq [OF live_load_pooled [OF assms(1,4)]]) auto
  qed
  show ?thesis
    unfolding handle_data_def name ret
    by (intro triple_read triple_if body) (auto intro: triple_cret)
qed

lemma live_table_done:
  assumes "healthy env" "ie_ids env i = Some t" "t \<in> op"
  shows "triple (alive env op cl) (handle_table_done env i n m) (\<lambda>_. alive env (op - {t}) (insert t cl)) never"
proof -
  have name: "table_name env i what = cret t" for what
    by (simp add: table_name_def assms(2) clift_def cret_def fun_eq_iff)
  have ret: "cbind (cret t) f = f t" for f :: "string \<Rightarrow> (import_state, unit) cstep"
    by (simp add: cbind_def cret_def fun_eq_iff)
  let ?Q = "alive env (op - {t}) (insert t cl)"
  have stats: "triple (alive env op cl) (cput (\<lambda>s. if m \<noteq> None then on_stats (\<lambda>st. st\<lparr>is_server_metrics := m\<rparr>) s else s))
      (\<lambda>_. ?Q) never"
    by (rule triple_cput) (auto simp: live_def maps_finite_def on_stats_def)
  have read: "triple (\<lambda>s. ?Q s \<and> g s = x) h R never" if "triple ?Q h R never"
    for g :: "import_state \<Rightarrow> 'x" and x R and h :: "(import_state, unit) cstep"
    using that by (rule triple_conseq) auto
  have put: "triple ?Q (cput (\<lambda>s. s\<lparr>im_deferred := (im_deferred s)(t \<mapsto> n)\<rparr>)) (\<lambda>_. ?Q) never"
    by (rule triple_cput) (auto simp: live_def maps_finite_def)
  show ?thesis
    unfolding handle_table_done_def name ret
    by (intro triple_cbind [OF stats] triple_read read triple_if triple_cbind [OF live_await_only [OF assms(1)]]
        triple_cbind [OF put] live_drain [OF assms(1)] triple_cret)
qed

lemma live_done:
  assumes "healthy env"
  shows "triple (alive env op cl) (handle_done env m fks) (\<lambda>_ s. True) never"
proof -
  have wait: "triple (live env op cl ps) (ceach (wait_and_add env) ps) (\<lambda>_. live env op cl []) never" for ps
    by (rule triple_ceach) (rule live_wait_one [OF assms])
  have rest: "triple (live env op cl []) (cbind (cget im_deferred) (\<lambda>deferred.
     cbind (cput (\<lambda>s. s\<lparr>im_pending := [], im_deferred := Map.empty\<rparr>)) (\<lambda>_.
     ceach (\<lambda>table. finalize_table env table (the (deferred table))) (ie_order env (dom deferred)))))
     (\<lambda>_ s. True) never"
  proof (rule triple_read)
    fix deferred :: "string \<rightharpoonup> u64"
    let ?each = "ceach (\<lambda>table. finalize_table env table (the (deferred table))) (ie_order env (dom deferred))"
    show "triple (\<lambda>s. live env op cl [] s \<and> im_deferred s = deferred)
      (cbind (cput (\<lambda>s. s\<lparr>im_pending := [], im_deferred := Map.empty\<rparr>)) (\<lambda>_. ?each)) (\<lambda>_ s. True) never"
    proof (cases "finite (dom deferred) \<and> dom deferred \<subseteq> cl")
      case True
      have "enumerates (ie_order env)" using assms by (simp add: healthy_def)
      then have "triple (live env op cl []) ?each (\<lambda>_. live env op cl []) never"
        using True order_set by (intro triple_ceach_inv live_finalize assms) fastforce
      then have "triple (live env op cl []) ?each (\<lambda>_ s. True) never" by (rule triple_conseq) auto
      then show ?thesis
        by (intro triple_cbind [where R = "\<lambda>_. live env op cl []"] triple_cput) (auto simp: live_def maps_finite_def)
    next
      case False
      then show ?thesis by (auto simp: triple_def dest: live_deferred)
    qed
  qed
  have all: "triple (alive env op cl) (wait_for_all_loads env) (\<lambda>_ s. True) never"
    unfolding wait_for_all_loads_def
    by (rule triple_read, rule triple_cbind [OF _ rest], rule triple_conseq [OF wait]) auto
  have read: "triple (\<lambda>s. alive env op cl s \<and> g s = x) h R never" if "triple (alive env op cl) h R never"
    for g :: "import_state \<Rightarrow> 'x" and x R and h :: "(import_state, unit) cstep"
    using that by (rule triple_conseq) auto
  have put: "triple (alive env op cl) (cput (on_stats f)) (\<lambda>_. alive env op cl) never" for f
    by (rule triple_cput) (simp add: on_stats_def live_def maps_finite_def)
  show ?thesis
    unfolding handle_done_def
    by (intro triple_cbind [OF put] triple_read read triple_cbind [OF triple_ceach_inv] live_await_only [OF assms]
        triple_cbind [OF all] triple_cput) simp
qed

lemma next_message:
  assumes "triple P h (\<lambda>_. Q) never" "triple Q loop R never"
  shows "triple P (cbind (cbind h (\<lambda>_. cret False)) (\<lambda>finished. if finished then cret () else loop)) R never"
proof (rule triple_cbind)
  show "triple P (cbind h (\<lambda>_. cret False)) (\<lambda>b s. Q s \<and> \<not> b) never"
    by (rule triple_cbind [OF assms(1) triple_cret]) simp
  show "triple (\<lambda>s. Q s \<and> \<not> b) (if b then cret () else loop) R never" for b
    using assms(2) by (cases b) (auto simp: triple_def)
qed

text \<open>C25: an import completes: when the database and the workers are healthy and the server's stream is well
  formed, however the answers of the workers are timed, the loop ends with success.\<close>

theorem import_completes:
  assumes "healthy env" "well_formed env {} {} ms"
  shows "fst (import_loop env (map (\<lambda>m. Arrived (Inr m)) ms) (fresh_import log sent)) = Inr ()"
proof -
  have loop: "triple (alive env op cl) (import_loop env (map (\<lambda>m. Arrived (Inr m)) ms)) (\<lambda>_ s. True) never"
    if "well_formed env op cl ms" for op cl ms
    using that
  proof (induction ms arbitrary: op cl)
    case (Cons m ms)
    show ?case
    proof (cases m)
      case (Schema i c ix opts)
      then obtain t where t: "ie_ids env i = Some t" "t \<notin> cl" "well_formed env (insert t op) cl ms" using Cons.prems by auto
      show ?thesis by (simp add: Schema handle_message_def) (rule next_message [OF live_schema [OF assms(1) t(1,2)] Cons.IH [OF t(3)]])
    next
      case (Data i n d)
      then obtain t where t: "ie_ids env i = Some t" "t \<in> op" "unpacks env d" "well_formed env op cl ms" using Cons.prems by auto
      show ?thesis by (simp add: Data handle_message_def) (rule next_message [OF live_data [OF assms(1) t(1-3)] Cons.IH [OF t(4)]])
    next
      case (TableDone i n mt)
      then obtain t where t: "ie_ids env i = Some t" "t \<in> op" "well_formed env (op - {t}) (insert t cl) ms" using Cons.prems by auto
      show ?thesis by (simp add: TableDone handle_message_def) (rule next_message [OF live_table_done [OF assms(1) t(1,2)] Cons.IH [OF t(3)]])
    next
      case (SmDone ds mt fks)
      have stop: "triple (\<lambda>s. True) (cret True) (\<lambda>b s. b) never" by (rule triple_cret) simp
      have go: "triple (\<lambda>s. b) (if b then cret () else l) (\<lambda>_ s. True) never" for b and l :: "(import_state, unit) cstep"
        by (cases b) (auto simp: triple_def cret_def)
      show ?thesis
        by (simp add: SmDone handle_message_def)
          (rule triple_cbind [OF triple_cbind [OF live_done [OF assms(1)] stop] go])
    next
      case (SmError e rec)
      then have rec: "rec" and w: "well_formed env op cl ms" using Cons.prems by auto
      have run: "import_loop env (map (\<lambda>m. Arrived (Inr m)) (m # ms)) = import_loop env (map (\<lambda>m. Arrived (Inr m)) ms)"
        by (simp add: SmError rec handle_message_def cbind_def cret_def fun_eq_iff)
      show ?thesis unfolding run by (rule Cons.IH [OF w])
    qed (use Cons.prems in auto)
  qed simp
  have "alive env {} {} (fresh_import log sent)" by (simp add: live_def fresh_import_def maps_finite_def)
  note start = this
  obtain r s' where run: "import_loop env (map (\<lambda>m. Arrived (Inr m)) ms) (fresh_import log sent) = (r, s')" by force
  show ?thesis
  proof (cases r)
    case (Inl e)
    then show ?thesis using triple_Inl [OF loop [OF assms(2)] start] run by auto
  next
    case (Inr u)
    then show ?thesis using run by simp
  qed
qed

theorem import_completes_witness:
  "fst (import_loop sample_env (map (\<lambda>m. Arrived (Inr m))
     [Schema 0 [] [] plain_options, Data 0 2 ''rows'', TableDone 0 2 None, SmDone [] None []]) (fresh_import [] [])) = Inr ()"
  by (rule import_completes)
    (simp_all add: healthy_def sample_env_def sample_workers_def enumerates_sorted total_db_def unpacks_def maybe_decompress_def)

end
