(* ===== verification/Load.thy ===== *)
theory Load
  imports Pool Dump
begin

text \<open>
  \<open>jibs load\<close> (\<open>crates/client/src/load.rs\<close>): reading a dump, the loader pool it feeds, and what
  follows the last record.  The pool is the one of the import: work is numbered in the order of
  submission, and the answers of the workers come from the record \<open>workers\<close>.  Opening the file or
  the URL, the connection and its settings are the caller's; log messages are not modelled.
\<close>

section \<open>The source\<close>

definition url_source :: "string \<Rightarrow> string option" where
  "url_source s = (if starts_with ''http://'' s \<or> starts_with ''https://'' s then Some s else None)"

definition dump_text :: "dump_read_error \<Rightarrow> string" where
  "dump_text e =
     (case e of
        HeaderTooShort \<Rightarrow> ''failed to read dump header (file too short or not a .jibsdump)''
      | BadDumpMagic \<Rightarrow> ''not a jibs dump file (bad magic bytes)''
      | UnsupportedVersion v \<Rightarrow>
          ''unsupported .jibsdump format version '' @ nat_string (unat v) @ '' (this build understands v'' @
          nat_string (unat FORMAT_VERSION) @ ''); re-create the dump with a matching jibs version''
      | TruncatedLength \<Rightarrow> ''truncated dump: incomplete record length prefix''
      | RecordTooLarge len mx \<Rightarrow>
          ''dump record too large: '' @ nat_string len @ '' bytes (max '' @ nat_string mx @ '' bytes, ~'' @
          nat_string (mx div (1024 * 1024)) @ '' MiB); re-run `jibs load` with a larger --max-message-size''
      | TruncatedBody len \<Rightarrow>
          ''truncated dump: record body ended early (expected '' @ nat_string len @ '' bytes)''
      | RecordDecode m \<Rightarrow> ''failed to decode dump record: '' @ m)"

section \<open>State\<close>

record load_env =
  le_db :: database
  le_workers :: workers
  le_reports :: "init_report list"
  le_order :: "string order"

record load_state =
  ls_log :: "statement list"
  ls_work :: "load_work list"
  ls_polls :: nat
  ls_preserves :: "preserve_rule list"
  ls_schemas :: "string \<rightharpoonup> column_def list"
  ls_ddls :: "string \<rightharpoonup> nat"
  ls_pending :: "(string \<times> nat) list"
  ls_sets :: "set_rule list"
  ls_afters :: "string list"
  ls_fks :: "foreign_key_def list option"
  ls_tables :: nat
  ls_rows :: u64
  ls_dropped :: "string \<rightharpoonup> u64"

definition fresh_load :: "statement list \<Rightarrow> load_state" where
  "fresh_load log =
     \<lparr>ls_log = log, ls_work = [], ls_polls = 0, ls_preserves = [], ls_schemas = Map.empty, ls_ddls = Map.empty,
      ls_pending = [], ls_sets = [], ls_afters = [], ls_fks = None, ls_tables = 0, ls_rows = 0, ls_dropped = Map.empty\<rparr>"

definition on_conn :: "(statement list, 'a) cstep \<Rightarrow> (load_state, 'a) cstep" where
  "on_conn m s = (case m (ls_log s) of (r, log) \<Rightarrow> (r, s\<lparr>ls_log := log\<rparr>))"

definition hand_over :: "load_env \<Rightarrow> load_work \<Rightarrow> (load_state, nat) cstep" where
  "hand_over env w s =
     (let k = length (ls_work s) in
      if wk_accepts (le_workers env) k then (Inr k, s\<lparr>ls_work := ls_work s @ [w]\<rparr>)
      else (Inl ''Loader pool shut down'', s))"

definition poll :: "load_env \<Rightarrow> nat \<Rightarrow> (load_state, received) cstep" where
  "poll env k s =
     (Inr (if wk_ready (le_workers env) (ls_polls s) k
           then (case load_reply (le_workers env) (ls_work s) k of Some r \<Rightarrow> Got r | None \<Rightarrow> Gone)
           else Nothing_yet), s\<lparr>ls_polls := ls_polls s + 1\<rparr>)"

definition add_loaded :: "string \<Rightarrow> load_result \<Rightarrow> load_state \<Rightarrow> load_state" where
  "add_loaded table r s =
     s\<lparr>ls_rows := ls_rows s + lr_rows r, ls_dropped := record_dropped table (lr_dropped r) (ls_dropped s)\<rparr>"

section \<open>Waiting for the workers\<close>

fun sweep ::
  "load_env \<Rightarrow> (string \<times> nat) list \<Rightarrow> (string \<times> nat) list \<Rightarrow> (load_state, (string \<times> nat) list) cstep" where
  "sweep env [] still = cret still"
| "sweep env ((table, k) # loads) still =
     cbind (poll env k) (\<lambda>r.
     case r of
       Got (Inr result) \<Rightarrow> cbind (cput (add_loaded table result)) (\<lambda>_. sweep env loads still)
     | Got (Inl e) \<Rightarrow> clift (Inl (''Loader error for '' @ table @ '': '' @ e))
     | Nothing_yet \<Rightarrow> sweep env loads (still @ [(table, k)])
     | Gone \<Rightarrow> clift (Inl (''Loader worker died for '' @ table)))"

definition drain_completed :: "load_env \<Rightarrow> (load_state, unit) cstep" where
  "drain_completed env =
     cbind (cget ls_pending) (\<lambda>pending.
     cbind (sweep env pending []) (\<lambda>still.
     cput (\<lambda>s. s\<lparr>ls_pending := still\<rparr>)))"

definition collect_load :: "load_env \<Rightarrow> string \<times> nat \<Rightarrow> (load_state, unit) cstep" where
  "collect_load env load =
     cbind (cget ls_work) (\<lambda>work.
     cbind (clift (wait_for_load (le_workers env) work (fst load) (snd load))) (\<lambda>result.
     cput (add_loaded (fst load) result)))"

definition settle_ddl :: "load_env \<Rightarrow> string \<Rightarrow> (load_state, unit) cstep" where
  "settle_ddl env table =
     cbind (cget (\<lambda>s. ls_ddls s table)) (\<lambda>rx.
     case rx of
       None \<Rightarrow> cret ()
     | Some k \<Rightarrow>
         cbind (cput (\<lambda>s. s\<lparr>ls_ddls := (ls_ddls s)(table := None)\<rparr>)) (\<lambda>_.
         cbind (cget ls_work) (\<lambda>work.
         clift (wait_ddl (le_workers env) work table k))))"

definition make_room :: "load_env \<Rightarrow> (load_state, unit) cstep" where
  "make_room env =
     cbind (cget (\<lambda>s. length (ls_pending s))) (\<lambda>n.
     if MAX_PENDING_CHUNKS < n then
       cbind (drain_completed env) (\<lambda>_.
       cbind (cget ls_pending) (\<lambda>pending.
       if MAX_PENDING_CHUNKS < length pending then
         cbind (cput (\<lambda>s. s\<lparr>ls_pending := tl pending\<rparr>)) (\<lambda>_.
         collect_load env (hd pending))
       else cret ()))
     else cret ())"

section \<open>Records\<close>

definition load_table ::
  "load_env \<Rightarrow> string \<Rightarrow> column_def list \<Rightarrow> index_def list \<Rightarrow> table_options \<Rightarrow> plan_anonymize_rule list option \<Rightarrow>
     (load_state, unit) cstep" where
  "load_table env name columns indexes options anon_rules =
     cbind (cget (\<lambda>s. filter (\<lambda>p. pr_table p = name) (ls_preserves s))) (\<lambda>rules.
     cbind (if rules \<noteq> [] then
              cbind (on_conn (backup_preserved_rows (le_db env) name rules)) (\<lambda>_. cret ())
            else cret ()) (\<lambda>_.
     cbind (cput (\<lambda>s. s\<lparr>ls_schemas := (ls_schemas s)(name \<mapsto> columns)\<rparr>)) (\<lambda>_.
     cbind (hand_over env (CreateTable name columns indexes options anon_rules)) (\<lambda>k.
     cput (\<lambda>s. s\<lparr>ls_ddls := (ls_ddls s)(name \<mapsto> k)\<rparr>)))))"

definition load_chunk ::
  "load_env \<Rightarrow> string \<Rightarrow> compression_mode \<Rightarrow> u16 \<Rightarrow> bytes \<Rightarrow> (load_state, unit) cstep" where
  "load_chunk env table compression row_count data =
     cbind (cget (\<lambda>s. ls_schemas s table)) (\<lambda>found.
     case found of
       None \<Rightarrow> clift (Inl (''chunk for unknown table '' @ table @ '' (missing schema record)''))
     | Some schema \<Rightarrow>
         cbind (settle_ddl env table) (\<lambda>_.
         cbind (hand_over env (LoadData table schema data compression (ucast row_count))) (\<lambda>k.
         cbind (cput (\<lambda>s. s\<lparr>ls_pending := ls_pending s @ [(table, k)]\<rparr>)) (\<lambda>_.
         make_room env))))"

definition load_table_end :: "load_env \<Rightarrow> string \<Rightarrow> (load_state, unit) cstep" where
  "load_table_end env table =
     cbind (settle_ddl env table) (\<lambda>_.
     cput (\<lambda>s. s\<lparr>ls_schemas := (ls_schemas s)(table := None), ls_tables := ls_tables s + 1\<rparr>))"

text \<open>The result says whether the record is the terminator.\<close>

definition load_record :: "load_env \<Rightarrow> dump_record \<Rightarrow> (load_state, bool) cstep" where
  "load_record env rec =
     (case rec of
        DrManifest p \<Rightarrow> cbind (cput (\<lambda>s. s\<lparr>ls_preserves := p\<rparr>)) (\<lambda>_. cret False)
      | DrTable name columns indexes options anon_rules \<Rightarrow>
          cbind (load_table env name columns indexes options anon_rules) (\<lambda>_. cret False)
      | DrChunk table compression row_count data \<Rightarrow>
          cbind (load_chunk env table compression row_count data) (\<lambda>_. cret False)
      | DrTableEnd table row_count \<Rightarrow> cbind (load_table_end env table) (\<lambda>_. cret False)
      | DrPostProcess s a \<Rightarrow> cbind (cput (\<lambda>st. st\<lparr>ls_sets := s, ls_afters := a\<rparr>)) (\<lambda>_. cret False)
      | DrForeignKeys fks \<Rightarrow> cbind (cput (\<lambda>s. s\<lparr>ls_fks := Some fks\<rparr>)) (\<lambda>_. cret False)
      | DrEnd \<Rightarrow> cret True)"

definition incomplete_dump :: string where
  "incomplete_dump = ''dump is incomplete: no End terminator found (the export was interrupted or the file is truncated). Re-create the dump before loading.''"

text \<open>The loop over the records; every record is shorter than what is left of the file.\<close>

lemma next_record_shorter: "next_record dec max_size r = Inr (Some rec, r1) \<Longrightarrow> length r1 < length r"
  by (auto simp: next_record_def read_full_def Let_def rbind_Inr_iff map_error_def
      split: prod.splits read_outcome.splits if_splits sum.splits)

function load_loop ::
  "load_env \<Rightarrow> dump_record decoder \<Rightarrow> nat \<Rightarrow> bytes \<Rightarrow> (load_state, unit) cstep" where
  "load_loop env dec max_size r s =
     (case next_record dec max_size r of
        Inl e \<Rightarrow> (Inl (dump_text e), s)
      | Inr (None, _) \<Rightarrow> (Inl incomplete_dump, s)
      | Inr (Some rec, r1) \<Rightarrow>
          (case load_record env rec s of
             (Inl e, s1) \<Rightarrow> (Inl e, s1)
           | (Inr True, s1) \<Rightarrow> (Inr (), s1)
           | (Inr False, s1) \<Rightarrow> load_loop env dec max_size r1 s1))"
  by pat_completeness auto
termination
  by (relation "measure (\<lambda>(env, dec, max_size, r, s). length r)") (auto dest: next_record_shorter)

declare load_loop.simps [simp del]

definition load_records :: "load_env \<Rightarrow> dump_record decoder \<Rightarrow> nat \<Rightarrow> bytes \<Rightarrow> (load_state, unit) cstep" where
  "load_records env dec max_size r =
     cbind (load_loop env dec max_size r) (\<lambda>_.
     cbind (cget ls_ddls) (\<lambda>ddls.
     cbind (ceach (settle_ddl env) (le_order env (dom ddls))) (\<lambda>_.
     cbind (cget ls_pending) (\<lambda>pending.
     cbind (cput (\<lambda>s. s\<lparr>ls_pending := []\<rparr>)) (\<lambda>_.
     ceach (collect_load env) pending)))))"

section \<open>The whole load\<close>

definition load_and_finalize :: "load_env \<Rightarrow> dump_record decoder \<Rightarrow> nat \<Rightarrow> bytes \<Rightarrow> (load_state, unit) cstep" where
  "load_and_finalize env dec max_size r =
     cbind (load_records env dec max_size r) (\<lambda>_.
     cbind (on_conn (restore_backups (le_db env))) (\<lambda>_.
     cbind (cget ls_sets) (\<lambda>sets.
     cbind (on_conn (ceach (execute_set_block (le_db env)) sets)) (\<lambda>_.
     cbind (cget ls_afters) (\<lambda>afters.
     on_conn (ceach (query_drop (le_db env)) afters))))))"

definition previous_state_message :: "string list \<Rightarrow> bool \<Rightarrow> string" where
  "previous_state_message backups has_checkpoint =
     ''Found state from a previous interrupted import:'' @ newline # ''  '' @
     join (newline # ''  '')
       ((if backups \<noteq> [] then [''backup tables: '' @ join '', '' backups] else []) @
        (if has_checkpoint then [''checkpoint from an interrupted import''] else [])) @ [newline, newline] @
     ''Finish or discard it first (e.g. `jibs import --resume`/`--clean`), or pass `jibs load --clean` to discard it before loading (this deletes any preserved rows that only exist in the backup tables).''"

definition handle_previous_state :: "database \<Rightarrow> bool \<Rightarrow> (statement list, unit) cstep" where
  "handle_previous_state db discard =
     cbind (find_backup_tables db) (\<lambda>backups.
     cbind (checkpoint_exists db) (\<lambda>has_checkpoint.
     if backups = [] \<and> \<not> has_checkpoint then cret ()
     else if discard then
       cbind (ceach (\<lambda>b. query_drop db (drop_sql b)) backups) (\<lambda>_. checkpoint_cleanup db)
     else clift (Inl (previous_state_message backups has_checkpoint))))"

record load_config =
  lc_local_mysql :: string
  lc_clean :: bool
  lc_max_size :: nat
  lc_parallel :: nat
  lc_client_parallel :: "nat option"

definition loader_workers :: "load_config \<Rightarrow> nat" where
  "loader_workers cfg = max (case lc_client_parallel cfg of Some n \<Rightarrow> n | None \<Rightarrow> lc_parallel cfg) 1"

text \<open>The last statements are sent whatever the database answers.\<close>

definition checks_on :: "database \<Rightarrow> (load_state, unit) cstep" where
  "checks_on db =
     cbind (on_conn (try_query db ''SET FOREIGN_KEY_CHECKS = 1'')) (\<lambda>_.
     on_conn (try_query db ''SET UNIQUE_CHECKS = 1''))"

definition apply_constraints ::
  "load_env \<Rightarrow> (string \<times> string) order \<Rightarrow> (load_state, unit) cstep" where
  "apply_constraints env ord =
     cbind (cget ls_fks) (\<lambda>source_fks.
     case source_fks of
       Some fks \<Rightarrow>
         cbind (on_conn (apply_foreign_keys (le_db env) fks)) (\<lambda>_.
         on_conn (discard_preserved_foreign_keys (le_db env)))
     | None \<Rightarrow> on_conn (restore_foreign_keys (le_db env) ord))"

definition run_load_dump ::
  "load_env \<Rightarrow> (string \<times> string) order \<Rightarrow> dump_record decoder \<Rightarrow> load_config \<Rightarrow> bytes \<Rightarrow> (load_state, unit) cstep" where
  "run_load_dump env ord dec cfg file =
     cbind (clift (map_error dump_text (open_dump file))) (\<lambda>r.
     cbind (on_conn (ceach (query_drop (le_db env))
       [''SET FOREIGN_KEY_CHECKS = 0'', ''SET UNIQUE_CHECKS = 0'', ''SET SQL_MODE = '' @ sql_quoted ''NO_AUTO_VALUE_ON_ZERO''])) (\<lambda>_.
     cbind (on_conn (handle_previous_state (le_db env) (lc_clean cfg))) (\<lambda>_.
     cbind (on_conn (preserve_and_drop_foreign_keys (le_db env) ord)) (\<lambda>_.
     cbind (clift (start_pool (lc_local_mysql cfg) (loader_workers cfg) (le_reports env))) (\<lambda>_.
     (\<lambda>s. case load_and_finalize env dec (lc_max_size cfg) r s of
            (Inr _, s1) \<Rightarrow> cbind (apply_constraints env ord) (\<lambda>_. checks_on (le_db env)) s1
          | (Inl e, s1) \<Rightarrow> (Inl e, snd (checks_on (le_db env) s1))))))))"

end
