(* ===== verification/Export.thy ===== *)
theory Export
  imports Load Server
begin

text \<open>
  \<open>jibs import --dump-to\<close> (\<open>crates/client/src/export.rs\<close>) and the client's side of the handshake
  (\<open>crates/client/src/protocol.rs\<close>).  What the server sends is a list of receive results, the files
  are a map from paths to contents; which write, rename or removal fails is a parameter.
\<close>

section \<open>The client's handshake\<close>

datatype greeting_read = Greeting bytes | Read_failed string | Timed_out

definition old_server :: "string \<Rightarrow> string" where
  "old_server age = age @ '' older than this client '' @ em_dash @ '' run ./scripts/build.sh to rebuild client and server together, then retry.''"

text \<open>A read yields at most the bytes still missing; an empty one is a closed connection.\<close>

fun read_greeting :: "bytes \<Rightarrow> greeting_read list \<Rightarrow> string + bytes" where
  "read_greeting buf [] =
     (if length buf < PREAMBLE_LEN
      then Inl (''Timed out waiting for the server protocol greeting. '' @ old_server ''The remote jibs-server is probably'')
      else Inr buf)"
| "read_greeting buf (r # reads) =
     (if length buf < PREAMBLE_LEN then
        (case r of
           Read_failed e \<Rightarrow> Inl (''Failed to read server greeting: '' @ e)
         | Timed_out \<Rightarrow>
             Inl (''Timed out waiting for the server protocol greeting. '' @ old_server ''The remote jibs-server is probably'')
         | Greeting bs \<Rightarrow>
             if bs = [] then
               Inl (''Server closed the connection before sending a protocol greeting. '' @ old_server ''The remote jibs-server is'')
             else read_greeting (buf @ take (PREAMBLE_LEN - length buf) bs) reads)
      else Inr buf)"

definition client_handshake :: "string + unit \<Rightarrow> greeting_read list \<Rightarrow> string + unit" where
  "client_handshake written reads =
     rbind (map_error (\<lambda>e. ''Failed to send protocol preamble: '' @ e) written) (\<lambda>_.
     rbind (read_greeting [] reads) (\<lambda>buf.
     map_error handshake_display (validate_preamble buf)))"

section \<open>The stream into the dump\<close>

record export_env =
  xe_sink :: sink
  xe_show :: "server_message \<Rightarrow> string"
  xe_closed :: string
  xe_encode :: "dump_record encoder"
  xe_zstd :: "bytes \<Rightarrow> string + bytes"
  xe_disk :: "bytes \<Rightarrow> bytes \<Rightarrow> io_error option"
  xe_flush :: "bytes \<Rightarrow> io_error option"
  xe_io_text :: "io_error \<Rightarrow> string"

record export_state =
  xs_sent :: "client_message list"
  xs_dump :: bytes
  xs_tables :: nat
  xs_rows :: u64

text \<open>The file behind its buffer: what has been written so far; every write may fail.\<close>

definition disk_write :: "(bytes \<Rightarrow> bytes \<Rightarrow> io_error option) \<Rightarrow> bytes write_all" where
  "disk_write disk w bs = (case disk w bs of None \<Rightarrow> Inr (w @ bs) | Some e \<Rightarrow> Inl e)"

definition disk_flush :: "(bytes \<Rightarrow> io_error option) \<Rightarrow> bytes flusher" where
  "disk_flush fl w = (case fl w of None \<Rightarrow> Inr w | Some e \<Rightarrow> Inl e)"

interpretation disk: sink "disk_write d" "disk_flush f" "\<lambda>w. w" for d f
  by unfold_locales (auto simp: disk_write_def disk_flush_def split: option.splits)

definition dump_error_text :: "export_env \<Rightarrow> dump_error \<Rightarrow> string" where
  "dump_error_text env e =
     (case e of
        DumpIo i \<Rightarrow> xe_io_text env i
      | DumpChunk (DecompressionFailed m) \<Rightarrow> ''zstd compression failed: '' @ m
      | DumpChunk c \<Rightarrow> chunk_text c)"

definition dump_call :: "export_env \<Rightarrow> dump_op \<Rightarrow> (export_state, unit) cstep" where
  "dump_call env op s =
     (case run_dump_op (disk_write (xe_disk env)) (xe_encode env) (xe_zstd env) op (xs_dump s) of
        Inl e \<Rightarrow> (Inl (dump_error_text env e), s)
      | Inr w \<Rightarrow> (Inr (), s\<lparr>xs_dump := w\<rparr>))"

definition tell_server :: "export_env \<Rightarrow> client_message \<Rightarrow> (export_state, unit) cstep" where
  "tell_server env m s =
     (case xe_sink env (xs_sent s) m of
        Inl e \<Rightarrow> (Inl e, s)
      | Inr _ \<Rightarrow> (Inr (), s\<lparr>xs_sent := xs_sent s @ [m]\<rparr>))"

definition lookup_table :: "(u16 \<rightharpoonup> string) \<Rightarrow> u16 \<Rightarrow> string \<Rightarrow> string + string" where
  "lookup_table ids table_id what =
     (case ids table_id of
        Some t \<Rightarrow> Inr t
      | None \<Rightarrow> Inl (''Unknown table_id '' @ nat_string (unat table_id) @ '' in '' @ what))"

text \<open>One message; the result is the list of foreign keys of the message that ends the stream.\<close>

definition export_message ::
  "export_env \<Rightarrow> execution_plan \<Rightarrow> (u16 \<rightharpoonup> string) \<Rightarrow> compression_mode \<Rightarrow> server_message \<Rightarrow>
     (export_state, foreign_key_def list option) cstep" where
  "export_message env plan ids compression m =
     (case m of
        Schema table_id columns indexes options \<Rightarrow>
          cbind (clift (lookup_table ids table_id ''Schema'')) (\<lambda>table.
          cbind (dump_call env (DoTable table columns indexes options (anonymization plan table))) (\<lambda>_.
          cret None))
      | Data table_id row_count tsv_data \<Rightarrow>
          cbind (clift (lookup_table ids table_id ''Data'')) (\<lambda>table.
          cbind (dump_call env (DoChunk table compression row_count tsv_data)) (\<lambda>_.
          cret None))
      | TableDone table_id row_count _ \<Rightarrow>
          cbind (clift (lookup_table ids table_id ''TableDone'')) (\<lambda>table.
          cbind (dump_call env (DoTableEnd table row_count)) (\<lambda>_.
          cbind (cput (\<lambda>s. s\<lparr>xs_tables := xs_tables s + 1, xs_rows := xs_rows s + row_count\<rparr>)) (\<lambda>_.
          cret None)))
      | SmDone _ _ foreign_keys \<Rightarrow> cret (Some foreign_keys)
      | SmError message recoverable \<Rightarrow>
          if recoverable then cret None else clift (Inl (''Server error during export: '' @ message))
      | Ready _ _ \<Rightarrow> clift (Inl ''Unexpected Ready message during streaming'')
      | DryRunReport _ _ \<Rightarrow> clift (Inl ''Unexpected DryRunReport (dry_run not requested)''))"

fun export_loop ::
  "export_env \<Rightarrow> execution_plan \<Rightarrow> (u16 \<rightharpoonup> string) \<Rightarrow> compression_mode \<Rightarrow> (string + server_message) list \<Rightarrow>
     (export_state, foreign_key_def list) cstep" where
  "export_loop env plan ids compression [] = clift (Inl (xe_closed env))"
| "export_loop env plan ids compression (Inl e # incoming) = clift (Inl e)"
| "export_loop env plan ids compression (Inr m # incoming) =
     cbind (export_message env plan ids compression m) (\<lambda>finished.
     case finished of
       Some fks \<Rightarrow> cret fks
     | None \<Rightarrow> export_loop env plan ids compression incoming)"

definition export_ready :: "export_env \<Rightarrow> string + server_message \<Rightarrow> string + table_info list \<times> compression_mode" where
  "export_ready env r =
     (case r of
        Inl e \<Rightarrow> Inl e
      | Inr (Ready tables compression) \<Rightarrow> Inr (tables, compression)
      | Inr (SmError message _) \<Rightarrow> Inl (''Server error: '' @ message)
      | Inr other \<Rightarrow> Inl (''Unexpected message while waiting for Ready: '' @ xe_show env other))"

record export_config =
  xc_remote_mysql :: string
  xc_compression :: compression_mode
  xc_parallel :: u32

definition stream_to_dump ::
  "export_env \<Rightarrow> execution_plan \<Rightarrow> export_config \<Rightarrow> string + unit \<Rightarrow> string + server_message \<Rightarrow>
     (string + server_message) list \<Rightarrow> (export_state, unit) cstep" where
  "stream_to_dump env plan cfg handshake ready incoming =
     cbind (clift handshake) (\<lambda>_.
     cbind (tell_server env (Credentials (xc_remote_mysql cfg))) (\<lambda>_.
     cbind (tell_server env (Init plan (xc_compression cfg) (xc_parallel cfg) False False)) (\<lambda>_.
     cbind (clift (export_ready env ready)) (\<lambda>(tables, compression).
     cbind (tell_server env Start) (\<lambda>_.
     cbind (export_loop env plan (id_to_name tables) compression incoming) (\<lambda>foreign_keys.
     cbind (dump_call env (DoPostProcess (sets plan) (after_statements plan))) (\<lambda>_.
     dump_call env (DoForeignKeys foreign_keys))))))))"

section \<open>Publishing the file\<close>

type_synonym files = "string \<rightharpoonup> bytes"

definition part_path :: "string \<Rightarrow> string" where "part_path path = path @ ''.part''"

record file_ops =
  fo_create :: "string + unit"
  fo_rename :: "string + unit"
  fo_remove :: "string + unit"

definition export_start :: "bytes \<Rightarrow> export_state" where
  "export_start dump = \<lparr>xs_sent = [], xs_dump = dump, xs_tables = 0, xs_rows = 0\<rparr>"

text \<open>
  The file under the temporary path holds the bytes of the writes that succeeded; what a buffer
  kept back when a later step failed is counted as written.
\<close>

definition run_export ::
  "export_env \<Rightarrow> file_ops \<Rightarrow> execution_plan \<Rightarrow> export_config \<Rightarrow> string \<Rightarrow> string + unit \<Rightarrow> string + unit \<Rightarrow>
     string + server_message \<Rightarrow> (string + server_message) list \<Rightarrow> files \<Rightarrow> (string + unit) \<times> files" where
  "run_export env fo plan cfg path started handshake ready incoming files =
     (let tmp = part_path path;
          wa = disk_write (xe_disk env)
      in
      case fo_create fo of
        Inl e \<Rightarrow> (Inl e, files)
      | Inr _ \<Rightarrow>
          (case dump_new wa [] of
             Inl e \<Rightarrow> (Inl (xe_io_text env e), files(tmp \<mapsto> []))
           | Inr w \<Rightarrow>
               (case write_manifest wa (xe_encode env) (preserves plan) w of
                  Inl e \<Rightarrow> (Inl (xe_io_text env e), files(tmp \<mapsto> w))
                | Inr w1 \<Rightarrow>
                    (case started of
                       Inl e \<Rightarrow> (Inl e, files(tmp \<mapsto> w1))
                     | Inr _ \<Rightarrow>
                         (case stream_to_dump env plan cfg handshake ready incoming (export_start w1) of
                            (Inl e, s) \<Rightarrow>
                              (Inl e, if isl (fo_remove fo) then files(tmp \<mapsto> xs_dump s) else files(tmp := None))
                          | (Inr _, s) \<Rightarrow>
                              (case dump_finish wa (disk_flush (xe_flush env)) (xe_encode env) (xs_dump s) of
                                 Inl e \<Rightarrow> (Inl (xe_io_text env e), files(tmp \<mapsto> xs_dump s))
                               | Inr w2 \<Rightarrow>
                                   (case fo_rename fo of
                                      Inl e \<Rightarrow> (Inl (''failed to finalize dump '' @ path @ '': '' @ e), files(tmp \<mapsto> w2))
                                    | Inr _ \<Rightarrow> (Inr (), files(tmp := None, path \<mapsto> w2))))))))) "

end
