(* ===== verification/DumpWork.thy ===== *)
theory DumpWork
  imports Export ImportDone
begin

text \<open>
  A dump in the place of a live import: what an export publishes, what a load takes from a dump, and
  that exporting a session and loading the dump hands the workers what importing the session hands
  them.
\<close>

section \<open>The work of a session\<close>

text \<open>The work the messages of a session ask for, up to the one that ends it.\<close>

fun session_work ::
  "execution_plan \<Rightarrow> (u16 \<rightharpoonup> string) \<Rightarrow> compression_mode \<Rightarrow> (string \<rightharpoonup> column_def list) \<Rightarrow> server_message list \<Rightarrow>
     load_work list" where
  "session_work plan ids cm schemas [] = []"
| "session_work plan ids cm schemas (SmDone ds mt fks # ms) = []"
| "session_work plan ids cm schemas (Schema i cols ix op # ms) =
     CreateTable (the (ids i)) cols ix op (anonymization plan (the (ids i))) #
     session_work plan ids cm (schemas(the (ids i) \<mapsto> cols)) ms"
| "session_work plan ids cm schemas (Data i n d # ms) =
     LoadData (the (ids i)) (the (schemas (the (ids i)))) d cm (ucast n) # session_work plan ids cm schemas ms"
| "session_work plan ids cm schemas (m # ms) = session_work plan ids cm schemas ms"

text \<open>Steps that hand over no work and forget schemas at most.\<close>

definition idle :: "import_state \<Rightarrow> import_state \<Rightarrow> bool" where
  "idle s s' \<longleftrightarrow> im_work s' = im_work s \<and> im_schemas s' \<subseteq>\<^sub>m im_schemas s \<and> im_skipped s' = im_skipped s"

lemma idle_rules: "reflp idle" "transp idle"
  by (auto simp: reflp_def transp_def idle_def intro: map_le_trans)

lemmas idle_intros = steps_cbind [OF _ _ idle_rules(2)] steps_pure(1) [OF idle_rules(1)]
  steps_pure(2) [OF idle_rules(1)] steps_pure(3) [OF idle_rules(1)]

lemma idle_put: "(\<And>s. idle s (f s)) \<Longrightarrow> steps idle (cput f)"
  by (auto simp: steps_def cput_def)

lemma idle_on_log: "steps idle (on_log m)"
  by (auto simp: steps_def on_log_def idle_def split: prod.splits)

lemma idle_check: "steps idle (check_fail_after env)"
  by (auto simp: steps_def check_fail_after_def idle_def split: option.splits)

lemma idle_add: "idle s (add_result t r s)"
  by (simp add: idle_def add_result_def on_stats_def)

lemma idle_finalize: "steps idle (finalize_table env t n)"
  unfolding finalize_table_def
  by (intro idle_intros idle_put idle_on_log idle_check) (auto simp: idle_def count_table_def on_stats_def map_le_def)

lemma idle_completed: "steps idle (finalize_completed_tables env ps)"
  unfolding finalize_completed_tables_def finalize_deferred_def Let_def
  by (auto intro!: idle_intros steps_ceach idle_put idle_finalize idle_rules simp: idle_def)

lemma idle_await: "steps idle (await_ddl env t)"
  unfolding await_ddl_def
  by (auto intro!: idle_intros idle_put split: option.splits simp: idle_def)

lemma idle_drain_loads: "steps idle (drain_loads env loads still)"
proof (induction env loads still rule: drain_loads.induct)
  case (2 env t k loads still)
  have recv: "steps idle (try_recv env k)" by (auto simp: steps_def try_recv_def idle_def)
  show ?case
    unfolding drain_loads.simps
    by (auto intro!: idle_intros recv idle_put idle_add 2 split: received.split sum.split)
qed (simp add: idle_intros)

lemma idle_drain: "steps idle (drain_completed_loads env)"
  unfolding drain_completed_loads_def
  by (auto intro!: idle_intros idle_drain_loads idle_completed idle_put simp: idle_def)

lemma idle_wait: "steps idle (wait_and_add env load)"
  unfolding wait_and_add_def by (auto intro!: idle_intros idle_put idle_add)

lemma idle_wait_all: "steps idle (wait_for_all_loads env)"
  unfolding wait_for_all_loads_def
  by (auto intro!: idle_intros idle_put steps_ceach idle_wait idle_finalize idle_rules simp: idle_def)

lemma idle_bound: "steps idle (bound_pending env)"
  unfolding bound_pending_def
  by (auto intro!: idle_intros idle_drain idle_wait idle_put simp: idle_def)

lemma idle_table_done: "steps idle (handle_table_done env i n mt)"
  unfolding handle_table_done_def table_name_def
  by (auto intro!: idle_intros idle_put idle_await idle_drain simp: idle_def on_stats_def)

lemma schema_work:
  assumes "handle_schema env i cols ix op s = (Inr u, s')" "ie_pool env" "ie_completed env = {}"
  shows "\<exists>t. ie_ids env i = Some t \<and> im_skipped s' = im_skipped s \<and>
    im_work s' = im_work s @ [CreateTable t cols ix op (anonymization (ie_plan env) t)] \<and>
    im_schemas s' = (im_schemas s)(t \<mapsto> cols)"
  using assms
  by (auto simp: handle_schema_def Let_def client_rules table_name_def on_log_def submit_def cret_def
      split: option.splits if_splits prod.splits)

lemma data_work:
  assumes "handle_data env i n d s = (Inr u, s')" "ie_pool env" "im_skipped s = {}"
  shows "\<exists>t c. ie_ids env i = Some t \<and> im_schemas s t = Some c \<and> im_skipped s' = {} \<and>
    im_work s' = im_work s @ [LoadData t c d (ie_compression env) (ucast n)] \<and> im_schemas s' \<subseteq>\<^sub>m im_schemas s"
proof -
  obtain t c where t: "ie_ids env i = Some t" "im_schemas s t = Some c" and
    run: "load_pooled env t c n d s = (Inr u, s')"
    using assms by (auto simp: handle_data_def client_rules table_name_def split: option.splits if_splits)
  obtain s1 k where s1: "await_ddl env t s = (Inr (), s1)" "k = length (im_work s1)" and
    rest: "bound_pending env (s1\<lparr>im_work := im_work s1 @ [LoadData t c d (ie_compression env) (ucast n)],
      im_pending := im_pending s1 @ [(t, k)]\<rparr>) = (Inr u, s')"
    using run by (auto simp: load_pooled_def client_rules submit_def Let_def split: if_splits)
  have "idle s s1" by (rule stepsD [OF idle_await s1(1)])
  moreover note stepsD [OF idle_bound rest]
  ultimately show ?thesis using t assms(3) by (auto simp: idle_def intro: map_le_trans)
qed

lemma import_work:
  assumes "ie_pool env" "ie_completed env = {}"
  shows "import_loop env (map (\<lambda>m. Arrived (Inr m)) ms) s = (Inr u, s') \<Longrightarrow> im_skipped s = {} \<Longrightarrow>
    im_schemas s \<subseteq>\<^sub>m schemas \<Longrightarrow>
    im_work s' = im_work s @ session_work (ie_plan env) (ie_ids env) (ie_compression env) schemas ms"
proof (induction ms arbitrary: s schemas)
  case Nil
  then show ?case by (simp add: clift_def)
next
  case (Cons m ms)
  obtain b s1 where m: "handle_message env m s = (Inr b, s1)" and
    rest: "(if b then cret () else import_loop env (map (\<lambda>m. Arrived (Inr m)) ms)) s1 = (Inr u, s')"
    using Cons.prems(1) by (auto simp: client_rules)
  show ?case
  proof (cases m)
    case (Schema i cols ix op)
    obtain t where t: "ie_ids env i = Some t" "im_skipped s1 = {}"
      "im_work s1 = im_work s @ [CreateTable t cols ix op (anonymization (ie_plan env) t)]"
      "im_schemas s1 = (im_schemas s)(t \<mapsto> cols)" "\<not> b"
      using m Cons.prems(2) by (auto simp: Schema handle_message_def client_rules dest!: schema_work [OF _ assms])
    have "im_schemas s1 \<subseteq>\<^sub>m schemas(t \<mapsto> cols)" using Cons.prems(3) by (simp add: t map_le_upd)
    from Cons.IH [OF _ t(2) this] rest t show ?thesis by (simp add: Schema fun_upd_def)
  next
    case (Data i n d)
    obtain t c where t: "ie_ids env i = Some t" "im_schemas s t = Some c" "im_skipped s1 = {}"
      "im_work s1 = im_work s @ [LoadData t c d (ie_compression env) (ucast n)]" "im_schemas s1 \<subseteq>\<^sub>m im_schemas s" "\<not> b"
      using m Cons.prems(2) by (auto simp: Data handle_message_def client_rules dest!: data_work [OF _ assms(1)])
    have "schemas t = Some c" using Cons.prems(3) t(2) by (auto simp: map_le_def dom_def)
    moreover have "im_schemas s1 \<subseteq>\<^sub>m schemas" using Cons.prems(3) t(5) by (rule map_le_trans [rotated])
    ultimately show ?thesis using Cons.IH [OF _ t(3)] rest t by (simp add: Data)
  next
    case (TableDone i n mt)
    have "idle s s1" "\<not> b"
      using m by (auto simp: TableDone handle_message_def client_rules dest: stepsD [OF idle_table_done])
    then show ?thesis using Cons.IH [of s1 schemas] rest Cons.prems(2,3) by (auto simp: TableDone idle_def intro: map_le_trans)
  next
    case (SmDone ds mt fks)
    have "steps idle (handle_done env mt fks)"
      unfolding handle_done_def
      by (auto intro!: idle_intros idle_put steps_ceach idle_await idle_rules idle_wait_all simp: idle_def on_stats_def)
    then have "idle s s1" "b"
      using m by (auto simp: SmDone handle_message_def client_rules dest: stepsD)
    then show ?thesis using rest by (simp add: SmDone idle_def cret_def)
  next
    case (SmError msg recoverable)
    then have "s1 = s" "\<not> b" using m by (auto simp: handle_message_def client_rules split: if_splits)
    then show ?thesis using Cons.IH [of s schemas] rest Cons.prems(2,3) by (simp add: SmError)
  qed (use m in \<open>auto simp: handle_message_def client_rules\<close>)
qed

section \<open>The work of a dump\<close>

text \<open>The loop over the records of a complete dump is a loop over a list.\<close>

fun run_records :: "load_env \<Rightarrow> dump_record list \<Rightarrow> (load_state, unit) cstep" where
  "run_records env [] = clift (Inl incomplete_dump)"
| "run_records env (rec # recs) =
     cbind (load_record env rec) (\<lambda>finished. if finished then cret () else run_records env recs)"

lemma load_loop_frames:
  assumes "codec_ok enc dec"
  shows "list_all (record_fits enc mx) recs \<Longrightarrow> load_loop env dec mx (frames enc recs) s = run_records env recs s"
proof (induction recs arbitrary: s)
  case Nil
  then show ?case by (subst load_loop.simps) (simp add: frames_def next_record_def read_full_def clift_def)
next
  case (Cons rec recs)
  have "next_record dec mx (record_frame enc rec @ frames enc recs) = Inr (Some rec, frames enc recs)"
    using Cons.prems by (intro next_record_frame assms) simp
  then have next_rec: "next_record dec mx (frames enc (rec # recs)) = Inr (Some rec, frames enc recs)"
    by (simp add: frames_def)
  obtain r s1 where r: "load_record env rec s = (r, s1)" by force
  show ?case
    using Cons.IH [of s1] Cons.prems next_rec r
    by (subst load_loop.simps) (auto simp: cbind_def cret_def split: sum.split bool.split)
qed

lemma load_loop_end:
  "load_loop env dec mx r s = (Inr u, s') \<Longrightarrow> DrEnd \<in> set (fst (read_records dec mx r))"
proof (induction env dec mx r s rule: load_loop.induct)
  case (1 env dec mx r s)
  obtain rec r1 where rec: "next_record dec mx r = Inr (Some rec, r1)"
    using 1(2) by (subst (asm) load_loop.simps) (auto split: sum.splits option.splits)
  obtain b s1 where b: "load_record env rec s = (Inr b, s1)"
    using 1(2) rec by (subst (asm) load_loop.simps) (auto split: sum.splits prod.splits)
  have recs: "fst (read_records dec mx r) = rec # fst (read_records dec mx r1)"
    by (subst read_records.simps) (simp add: rec split: prod.split)
  show ?case
  proof (cases b)
    case True
    then have "rec = DrEnd" using b by (cases rec) (auto simp: load_record_def client_rules)
    then show ?thesis by (simp add: recs)
  next
    case False
    then have "load_loop env dec mx r1 s1 = (Inr u, s')" using 1(2) rec b by (subst (asm) load_loop.simps) simp
    then show ?thesis using 1(1) rec b False by (simp add: recs)
  qed
qed

text \<open>Steps of a load that hand over no work and forget schemas at most.\<close>

definition quiet :: "load_state \<Rightarrow> load_state \<Rightarrow> bool" where
  "quiet s s' \<longleftrightarrow> ls_work s' = ls_work s \<and> ls_schemas s' \<subseteq>\<^sub>m ls_schemas s \<and> ls_sets s' = ls_sets s \<and>
     ls_afters s' = ls_afters s \<and> ls_fks s' = ls_fks s \<and> ls_preserves s' = ls_preserves s"

lemma quiet_rules: "reflp quiet" "transp quiet"
  by (auto simp: reflp_def transp_def quiet_def intro: map_le_trans)

lemmas quiet_intros = steps_cbind [OF _ _ quiet_rules(2)] steps_pure(1) [OF quiet_rules(1)]
  steps_pure(2) [OF quiet_rules(1)] steps_pure(3) [OF quiet_rules(1)]

lemma quiet_put: "(\<And>s. quiet s (f s)) \<Longrightarrow> steps quiet (cput f)"
  by (auto simp: steps_def cput_def)

lemma quiet_on_conn: "steps quiet (on_conn m)"
  by (auto simp: steps_def on_conn_def quiet_def split: prod.splits)

lemma quiet_add: "quiet s (add_loaded t r s)"
  by (simp add: quiet_def add_loaded_def)

lemma quiet_settle: "steps quiet (settle_ddl env t)"
  unfolding settle_ddl_def by (auto intro!: quiet_intros quiet_put split: option.splits simp: quiet_def)

lemma quiet_sweep: "steps quiet (sweep env loads still)"
proof (induction env loads still rule: sweep.induct)
  case (2 env t k loads still)
  have recv: "steps quiet (poll env k)" by (auto simp: steps_def poll_def quiet_def)
  show ?case
    unfolding sweep.simps
    by (auto intro!: quiet_intros recv quiet_put quiet_add 2 split: received.split sum.split)
qed (simp add: quiet_intros)

lemma quiet_collect: "steps quiet (collect_load env load)"
  unfolding collect_load_def by (auto intro!: quiet_intros quiet_put quiet_add)

lemma quiet_make_room: "steps quiet (make_room env)"
  unfolding make_room_def drain_completed_def
  by (auto intro!: quiet_intros quiet_sweep quiet_collect quiet_put simp: quiet_def)

lemma quiet_table_end: "steps quiet (load_table_end env t)"
  unfolding load_table_end_def
  by (auto intro!: quiet_intros quiet_settle quiet_put simp: quiet_def map_le_def)

text \<open>The work of the records of a dump, and what they say about the end of the import.\<close>

fun records_work :: "(string \<rightharpoonup> column_def list) \<Rightarrow> dump_record list \<Rightarrow> load_work list" where
  "records_work schemas [] = []"
| "records_work schemas (DrEnd # recs) = []"
| "records_work schemas (DrTable t cols ix op an # recs) =
     CreateTable t cols ix op an # records_work (schemas(t \<mapsto> cols)) recs"
| "records_work schemas (DrChunk t cm n d # recs) =
     LoadData t (the (schemas t)) d cm (ucast n) # records_work schemas recs"
| "records_work schemas (rec # recs) = records_work schemas recs"

fun records_tail ::
  "set_rule list \<times> string list \<times> foreign_key_def list option \<Rightarrow> dump_record list \<Rightarrow>
     set_rule list \<times> string list \<times> foreign_key_def list option" where
  "records_tail x [] = x"
| "records_tail x (DrEnd # recs) = x"
| "records_tail (s, a, f) (DrPostProcess s' a' # recs) = records_tail (s', a', f) recs"
| "records_tail (s, a, f) (DrForeignKeys fks # recs) = records_tail (s, a, Some fks) recs"
| "records_tail x (rec # recs) = records_tail x recs"

abbreviation load_tail :: "load_state \<Rightarrow> set_rule list \<times> string list \<times> foreign_key_def list option" where
  "load_tail s \<equiv> (ls_sets s, ls_afters s, ls_fks s)"

lemma table_loaded:
  assumes "load_table env t cols ix op an s = (Inr u, s')"
  shows "ls_work s' = ls_work s @ [CreateTable t cols ix op an] \<and> ls_schemas s' = (ls_schemas s)(t \<mapsto> cols) \<and>
    load_tail s' = load_tail s"
  using assms
  by (auto simp: load_table_def client_rules on_conn_def hand_over_def Let_def split: if_splits prod.splits sum.splits)

lemma chunk_loaded:
  assumes "load_chunk env t cm n d s = (Inr u, s')"
  shows "\<exists>c. ls_schemas s t = Some c \<and> ls_work s' = ls_work s @ [LoadData t c d cm (ucast n)] \<and>
    ls_schemas s' \<subseteq>\<^sub>m ls_schemas s \<and> load_tail s' = load_tail s"
proof -
  obtain c s1 k where c: "ls_schemas s t = Some c" and s1: "settle_ddl env t s = (Inr (), s1)" and
    rest: "make_room env (s1\<lparr>ls_work := ls_work s1 @ [LoadData t c d cm (ucast n)], ls_pending := ls_pending s1 @ [(t, k)]\<rparr>)
      = (Inr u, s')"
    using assms by (auto simp: load_chunk_def client_rules hand_over_def Let_def split: option.splits if_splits)
  show ?thesis
    using stepsD [OF quiet_settle s1] stepsD [OF quiet_make_room rest] c by (auto simp: quiet_def intro: map_le_trans)
qed

lemma records_loaded:
  "run_records env recs s = (Inr u, s') \<Longrightarrow> ls_schemas s \<subseteq>\<^sub>m schemas \<Longrightarrow>
    ls_work s' = ls_work s @ records_work schemas recs \<and> load_tail s' = records_tail (load_tail s) recs"
proof (induction recs arbitrary: s schemas)
  case Nil
  then show ?case by (simp add: clift_def)
next
  case (Cons rec recs)
  obtain b s1 where m: "load_record env rec s = (Inr b, s1)" and
    rest: "(if b then cret () else run_records env recs) s1 = (Inr u, s')"
    using Cons.prems(1) by (auto simp: client_rules)
  show ?case
  proof (cases rec)
    case (DrTable t cols ix op an)
    have t: "ls_work s1 = ls_work s @ [CreateTable t cols ix op an]" "ls_schemas s1 = (ls_schemas s)(t \<mapsto> cols)"
      "load_tail s1 = load_tail s" "\<not> b"
      using m by (auto simp: DrTable load_record_def client_rules dest!: table_loaded)
    have "ls_schemas s1 \<subseteq>\<^sub>m schemas(t \<mapsto> cols)" using Cons.prems(2) by (simp add: t map_le_upd)
    from Cons.IH [OF _ this] rest t show ?thesis by (simp add: DrTable fun_upd_def)
  next
    case (DrChunk t cm n d)
    obtain c where t: "ls_schemas s t = Some c" "ls_work s1 = ls_work s @ [LoadData t c d cm (ucast n)]"
      "ls_schemas s1 \<subseteq>\<^sub>m ls_schemas s" "load_tail s1 = load_tail s" "\<not> b"
      using m by (auto simp: DrChunk load_record_def client_rules dest!: chunk_loaded)
    have "schemas t = Some c" using Cons.prems(2) t(1) by (auto simp: map_le_def dom_def)
    moreover have "ls_schemas s1 \<subseteq>\<^sub>m schemas" using Cons.prems(2) t(3) by (rule map_le_trans [rotated])
    ultimately show ?thesis using Cons.IH [of s1 schemas] rest t by (simp add: DrChunk)
  next
    case (DrTableEnd t n)
    have "quiet s s1" "\<not> b"
      using m by (auto simp: DrTableEnd load_record_def client_rules dest: stepsD [OF quiet_table_end])
    then show ?thesis using Cons.IH [of s1 schemas] rest Cons.prems(2)
      by (auto simp: DrTableEnd quiet_def intro: map_le_trans)
  qed (use m rest Cons.IH [of s1 schemas] Cons.prems(2) in \<open>auto simp: load_record_def client_rules\<close>)
qed

end
