(* ===== verification/Replay.thy ===== *)
theory Replay
  imports DumpWork
begin

text \<open>
  What an export publishes, and that exporting a session and loading the dump comes to the same as
  importing the session.
\<close>

section \<open>The records of a session\<close>

fun message_ops :: "execution_plan \<Rightarrow> (u16 \<rightharpoonup> string) \<Rightarrow> compression_mode \<Rightarrow> server_message \<Rightarrow> dump_op list" where
  "message_ops plan ids cm (Schema i cols ix op) =
     [DoTable (the (ids i)) cols ix op (anonymization plan (the (ids i)))]"
| "message_ops plan ids cm (Data i n d) = [DoChunk (the (ids i)) cm n d]"
| "message_ops plan ids cm (TableDone i n mt) = [DoTableEnd (the (ids i)) n]"
| "message_ops plan ids cm _ = []"

fun session_ops :: "execution_plan \<Rightarrow> (u16 \<rightharpoonup> string) \<Rightarrow> compression_mode \<Rightarrow> server_message list \<Rightarrow> dump_op list" where
  "session_ops plan ids cm [] = []"
| "session_ops plan ids cm (SmDone ds mt fks # ms) =
     [DoPostProcess (sets plan) (after_statements plan), DoForeignKeys fks]"
| "session_ops plan ids cm (m # ms) = message_ops plan ids cm m @ session_ops plan ids cm ms"

text \<open>The messages before the first receive error.\<close>

definition messages :: "(string + server_message) list \<Rightarrow> server_message list" where
  "messages incoming = map projr (takeWhile (\<lambda>r. \<not> isl r) incoming)"

definition export_ops where
  "export_ops plan ids cm incoming = DoManifest (preserves plan) # session_ops plan ids cm (messages incoming)"

lemma messages_simps [simp]:
  "messages [] = []" "messages (Inl e # rs) = []" "messages (Inr m # rs) = m # messages rs"
  "messages (map Inr ms) = ms"
  by (simp_all add: messages_def) (induction ms, simp_all)

lemma put_disk:
  "put_message (disk_write d) enc m w = Inr w' \<Longrightarrow> put_message buf_write_all enc m w = Inr w'"
  by (auto simp: put_message_def disk_write_def buf_write_all_def rbind_Inr_iff split: sum.splits option.splits)

lemma run_op_disk:
  "run_dump_op (disk_write d) enc zstd op w = Inr w' \<Longrightarrow> run_dump_op buf_write_all enc zstd op w = Inr w'"
  by (cases op)
    (auto simp: map_error_Inr rbind_Inr_iff write_manifest_def write_table_def write_chunk_def
      write_table_end_def write_post_process_def write_foreign_keys_def put_disk
      split: if_splits compression_mode.splits)

lemma run_dump_ops_append:
  "run_dump_ops wa enc zstd (xs @ ys) w = rbind (run_dump_ops wa enc zstd xs w) (run_dump_ops wa enc zstd ys)"
proof (induction xs arbitrary: w)
  case (Cons op xs)
  then show ?case by (cases "run_dump_op wa enc zstd op w") simp_all
qed simp

lemma run_one: "run_dump_ops wa enc zstd [op] w = run_dump_op wa enc zstd op w"
  by (cases "run_dump_op wa enc zstd op w") simp_all

declare run_dump_op.simps [simp del] run_dump_ops.simps [simp del]

lemma dump_call_Inr:
  "dump_call env op s = (Inr u, s') \<longleftrightarrow>
    (\<exists>w. run_dump_op (disk_write (xe_disk env)) (xe_encode env) (xe_zstd env) op (xs_dump s) = Inr w \<and>
       s' = s\<lparr>xs_dump := w\<rparr>)"
  by (auto simp: dump_call_def split: sum.splits)

lemma lookup_table_Inr: "lookup_table ids i what = Inr t \<longleftrightarrow> ids i = Some t"
  by (auto simp: lookup_table_def split: option.splits)

abbreviation writes :: "export_env \<Rightarrow> dump_op list \<Rightarrow> bytes \<Rightarrow> bytes \<Rightarrow> bool" where
  "writes env ops w w' \<equiv> run_dump_ops buf_write_all (xe_encode env) (xe_zstd env) ops w = Inr w'"

lemma export_message_ops:
  assumes "export_message env plan ids cm m s = (Inr r, s')"
  shows "writes env (message_ops plan ids cm m) (xs_dump s) (xs_dump s') \<and>
    (r = None \<longleftrightarrow> (\<forall>ds mt fks. m \<noteq> SmDone ds mt fks)) \<and> (\<forall>ds mt fks. m = SmDone ds mt fks \<longrightarrow> r = Some fks)"
  using assms
  by (cases m)
    (auto simp: export_message_def client_rules dump_call_Inr lookup_table_Inr run_one run_dump_ops.simps(1)
      dest!: run_op_disk split: if_splits)

lemma export_loop_ops:
  "export_loop env plan ids cm incoming s = (Inr fks, s') \<Longrightarrow>
    \<exists>ops. writes env ops (xs_dump s) (xs_dump s') \<and>
      session_ops plan ids cm (messages incoming) = ops @ [DoPostProcess (sets plan) (after_statements plan), DoForeignKeys fks]"
proof (induction env plan ids cm incoming arbitrary: s rule: export_loop.induct)
  case (3 env plan ids cm m incoming)
  obtain r s1 where m: "export_message env plan ids cm m s = (Inr r, s1)" and
    rest: "(case r of Some fks \<Rightarrow> cret fks | None \<Rightarrow> export_loop env plan ids cm incoming) s1 = (Inr fks, s')"
    using 3(2) by (auto simp: client_rules)
  note ops = export_message_ops [OF m]
  show ?case
  proof (cases r)
    case None
    then obtain ops' where ops': "writes env ops' (xs_dump s1) (xs_dump s')"
      "session_ops plan ids cm (messages incoming) = ops' @ [DoPostProcess (sets plan) (after_statements plan), DoForeignKeys fks]"
      using 3(1) [of s1] rest None by auto
    have "session_ops plan ids cm (m # messages incoming) = message_ops plan ids cm m @ session_ops plan ids cm (messages incoming)"
      using ops None by (cases m) auto
    then show ?thesis using ops ops'
      by (intro exI [of _ "message_ops plan ids cm m @ ops'"]) (simp add: run_dump_ops_append)
  next
    case (Some f)
    then obtain ds mt where "m = SmDone ds mt f" using ops by (cases m) auto
    then show ?thesis using ops rest Some by (intro exI [of _ "[]"]) (auto simp: cret_def run_dump_ops.simps(1))
  qed
qed (auto simp: clift_def)

lemma stream_to_dump_ops:
  assumes "stream_to_dump env plan cfg hs ready incoming s = (Inr u, s')"
  shows "\<exists>tables cm. ready = Inr (Ready tables cm) \<and>
    writes env (session_ops plan (id_to_name tables) cm (messages incoming)) (xs_dump s) (xs_dump s')"
proof -
  have told: "xs_dump s' = xs_dump s" if "tell_server env m s = (Inr u, s')" for m s s' u
    using that by (auto simp: tell_server_def split: sum.splits)
  obtain tables cm s1 s2 s3 fks where ready: "export_ready env ready = Inr (tables, cm)" and
    s1: "xs_dump s1 = xs_dump s" and
    loop: "export_loop env plan (id_to_name tables) cm incoming s1 = (Inr fks, s2)" and
    post: "dump_call env (DoPostProcess (sets plan) (after_statements plan)) s2 = (Inr (), s3)" and
    fk: "dump_call env (DoForeignKeys fks) s3 = (Inr u, s')"
    using assms by (auto simp: stream_to_dump_def client_rules split: prod.splits dest!: told)
  have "ready = Inr (Ready tables cm)"
    using ready by (auto simp: export_ready_def split: sum.splits server_message.splits)
  moreover from export_loop_ops [OF loop] obtain ops where
    "writes env ops (xs_dump s1) (xs_dump s2)"
    "session_ops plan (id_to_name tables) cm (messages incoming) =
       ops @ [DoPostProcess (sets plan) (after_statements plan), DoForeignKeys fks]" by blast
  ultimately show ?thesis using s1 post fk
    by (auto simp: dump_call_Inr run_dump_ops_append run_dump_ops.simps dest!: run_op_disk)
qed

lemma new_disk: "dump_new (disk_write d) w = Inr w' \<Longrightarrow> dump_new buf_write_all w = Inr w'"
  by (auto simp: dump_new_def disk_write_def buf_write_all_def rbind_Inr_iff split: option.splits)

lemma finish_disk:
  "dump_finish (disk_write d) (disk_flush f) enc w = Inr w' \<Longrightarrow> dump_finish buf_write_all buf_flush enc w = Inr w'"
  by (auto simp: dump_finish_def disk_flush_def buf_flush_def rbind_Inr_iff split: option.splits dest!: put_disk)

lemma manifest_disk:
  "write_manifest (disk_write d) enc ps w = Inr w' \<Longrightarrow> run_dump_op buf_write_all enc zstd (DoManifest ps) w = Inr w'"
  using run_op_disk [of d enc zstd "DoManifest ps" w w'] by (simp add: run_dump_op.simps map_error_def)

lemma part_path_other [simp]: "part_path path \<noteq> path" "path \<noteq> part_path path"
  by (simp_all add: part_path_def)

lemma export_success:
  assumes "run_export env fo plan cfg path started hs ready incoming files = (Inr u, files')"
  shows "\<exists>tables cm dmp. ready = Inr (Ready tables cm) \<and>
    write_dump (xe_encode env) (xe_zstd env) (export_ops plan (id_to_name tables) cm incoming) = Inr dmp \<and>
    files' = files(part_path path := None, path \<mapsto> dmp)"
proof -
  obtain w w1 s w2 where new: "dump_new (disk_write (xe_disk env)) [] = Inr w"
    and man: "write_manifest (disk_write (xe_disk env)) (xe_encode env) (preserves plan) w = Inr w1"
    and strm: "stream_to_dump env plan cfg hs ready incoming (export_start w1) = (Inr (), s)"
    and fini: "dump_finish (disk_write (xe_disk env)) (disk_flush (xe_flush env)) (xe_encode env) (xs_dump s) = Inr w2"
    and files': "files' = files(part_path path := None, path \<mapsto> w2)"
    using assms by (auto simp: run_export_def Let_def split: sum.splits prod.splits)
  obtain tables cm where ready: "ready = Inr (Ready tables cm)" and
    ops: "writes env (session_ops plan (id_to_name tables) cm (messages incoming)) w1 (xs_dump s)"
    using stream_to_dump_ops [OF strm] by (auto simp: export_start_def)
  have "write_dump (xe_encode env) (xe_zstd env) (export_ops plan (id_to_name tables) cm incoming) = Inr w2"
    using new_disk [OF new] manifest_disk [OF man] ops finish_disk [OF fini]
    by (simp add: write_dump_def export_ops_def run_dump_ops.simps(2) map_error_def)
  then show ?thesis using ready files' by auto
qed

lemma export_file:
  assumes "run_export env fo plan cfg path started hs (Inr (Ready tables cm)) incoming files = (Inr u, files')"
    and "files' path = Some dmp"
  shows "write_dump (xe_encode env) (xe_zstd env) (export_ops plan (id_to_name tables) cm incoming) = Inr dmp"
  using export_success [OF assms(1)] assms(2) by auto

text \<open>C31: an export publishes a complete dump or nothing: when it fails, only the temporary file may be left
  behind and the file under the requested path is what it was; when it succeeds, the file is the
  dump of the whole session, with the terminator, and the temporary file is gone.\<close>

theorem export_published:
  "case run_export env fo plan cfg path started hs ready incoming files of
     (Inl e, files') \<Rightarrow> files'(part_path path := None) = files(part_path path := None)
   | (Inr _, files') \<Rightarrow> \<exists>tables cm dmp. ready = Inr (Ready tables cm) \<and>
       write_dump (xe_encode env) (xe_zstd env) (export_ops plan (id_to_name tables) cm incoming) = Inr dmp \<and>
       files' = files(part_path path := None, path \<mapsto> dmp)"
proof (cases "run_export env fo plan cfg path started hs ready incoming files")
  case (Pair r files')
  show ?thesis
  proof (cases r)
    case (Inl e)
    then show ?thesis using Pair
      by (auto simp: run_export_def Let_def split: sum.splits prod.splits if_splits)
  next
    case (Inr u)
    then show ?thesis using Pair export_success by simp
  qed
qed

section \<open>Loading the dump of a session\<close>

text \<open>What a dump stores of a piece of work: the chunk compressed, if it was not.\<close>

fun stored_work :: "(bytes \<Rightarrow> string + bytes) \<Rightarrow> load_work \<Rightarrow> load_work" where
  "stored_work zstd (LoadData t cols d cm n) =
     LoadData t cols (if cm = CZstd then d else projr (compress_zstd zstd d)) CZstd n"
| "stored_work zstd (CreateTable t cols ix op an) = CreateTable t cols ix op an"

definition op_written :: "(bytes \<Rightarrow> string + bytes) \<Rightarrow> dump_op \<Rightarrow> bool" where
  "op_written zstd op \<longleftrightarrow> (case op of DoChunk t cm n d \<Rightarrow> cm \<noteq> CZstd \<longrightarrow> (\<exists>d'. compress_zstd zstd d = Inr d') | _ \<Rightarrow> True)"

lemma ops_written: "run_dump_ops buf_write_all enc zstd ops w = Inr w' \<Longrightarrow> list_all (op_written zstd) ops"
proof (induction ops arbitrary: w)
  case (Cons op ops)
  then obtain w1 where "run_dump_op buf_write_all enc zstd op w = Inr w1"
    "run_dump_ops buf_write_all enc zstd ops w1 = Inr w'" by (auto simp: run_dump_ops.simps rbind_Inr_iff)
  then show ?case using Cons.IH
    by (auto simp: op_written_def run_dump_op.simps write_chunk_def rbind_Inr_iff map_error_Inr
        split: dump_op.split compression_mode.splits)
qed simp

lemma op_records_Cons: "op_records zstd (op # ops) = (case op_record zstd op of None \<Rightarrow> [] | Some r \<Rightarrow> [r]) @ op_records zstd ops"
  by (simp add: op_records_def)

lemma op_records_append: "op_records zstd (xs @ ys) = op_records zstd xs @ op_records zstd ys"
  by (simp add: op_records_def)

lemma op_records_Nil [simp]: "op_records zstd [] = []"
  by (simp add: op_records_def)

lemma session_records:
  "list_all (op_written zstd) (session_ops plan ids cm ms) \<Longrightarrow>
    records_work schemas (op_records zstd (session_ops plan ids cm ms) @ [DrEnd]) =
    map (stored_work zstd) (session_work plan ids cm schemas ms)"
proof (induction plan ids cm schemas ms rule: session_work.induct)
  case (4 plan ids cm schemas i n d ms)
  then show ?case
    by (auto simp: op_records_Cons op_written_def split: if_splits)
qed (auto simp: op_records_Cons)

definition session_fks :: "server_message list \<Rightarrow> foreign_key_def list option" where
  "session_fks ms = (case dropWhile (\<lambda>m. case m of SmDone _ _ _ \<Rightarrow> False | _ \<Rightarrow> True) ms of
     SmDone ds mt fks # _ \<Rightarrow> Some fks | _ \<Rightarrow> None)"

lemma session_tail:
  "session_fks ms = Some fks \<Longrightarrow>
    records_tail ([], [], None) (op_records zstd (session_ops plan ids cm ms) @ [DrEnd]) =
    (sets plan, after_statements plan, Some fks)"
proof (induction plan ids cm ms rule: session_ops.induct)
  case (2 plan ids cm ds mt fks ms)
  then show ?case by (simp add: session_fks_def op_records_Cons)
qed (auto simp: session_fks_def op_records_Cons split: sum.split)

lemma compress_decompress:
  assumes "zstd_ok zstd unzstd" "compress_zstd zstd d = Inr d'"
  shows "maybe_decompress unzstd d' CZstd = Inr d"
proof -
  obtain z where z: "zstd d = Inr z" "d' = u32_to_le (as_u32 (length d)) @ z" "length d < 2 ^ 32"
    using assms(2) by (auto simp: compress_zstd_def rbind_Inr_iff map_error_Inr split: if_splits)
  have unz: "unzstd z = Inr d" using assms(1) z(1) by (simp add: zstd_ok_def)
  have four: "length bs = 4 \<Longrightarrow> [(bs @ z) ! 0, (bs @ z) ! 1, (bs @ z) ! 2, (bs @ z) ! 3] = bs" for bs :: bytes
    by (cases bs; cases "tl bs"; cases "tl (tl bs)"; cases "tl (tl (tl bs))") auto
  have "[d' ! 0, d' ! 1, d' ! 2, d' ! 3] = u32_to_le (as_u32 (length d))"
    unfolding z(2) by (rule four [OF le32.enc_length])
  then show ?thesis
    using z unz by (simp add: maybe_decompress_def Let_def le32.enc_length le32.dec_enc map_error_def unat_as_u32)
qed

lemma stored_same:
  assumes "zstd_ok zstd unzstd"
  shows "list_all (op_written zstd) (session_ops plan ids cm ms) \<Longrightarrow>
    list_all (\<lambda>w. run_load db unzstd (stored_work zstd w) = run_load db unzstd w) (session_work plan ids cm schemas ms)"
proof (induction plan ids cm schemas ms rule: session_work.induct)
  case (4 plan ids cm schemas i n d ms)
  show ?case
  proof (cases "cm = CZstd")
    case False
    then obtain d' where "compress_zstd zstd d = Inr d'" using 4(2) by (auto simp: op_written_def)
    from compress_decompress [OF assms this] this False 4 show ?thesis
      by (cases cm) (auto simp: run_load_def maybe_decompress_def map_error_def split: sum.splits)
  qed (use 4 in simp)
qed (auto simp: run_load_def)

lemma finalize_post:
  assumes "load_records env dec mx r s = (Inr (), l)" "ls_sets l = sets plan" "ls_afters l = after_statements plan"
  shows "load_and_finalize env dec mx r s = on_conn (post_process (le_db env) plan) l"
  using assms
  by (simp add: load_and_finalize_def post_process_def cbind_def on_conn_def cget_def split: prod.splits sum.splits)

lemma quiet_records:
  assumes "load_records env dec mx r s = (Inr (), l)"
  shows "\<exists>s1. load_loop env dec mx r s = (Inr (), s1) \<and> quiet s1 l"
proof -
  obtain s1 where s1: "load_loop env dec mx r s = (Inr (), s1)" and
    rest: "cbind (cget ls_ddls) (\<lambda>ddls. cbind (ceach (settle_ddl env) (le_order env (dom ddls))) (\<lambda>_.
      cbind (cget ls_pending) (\<lambda>pending. cbind (cput (\<lambda>s. s\<lparr>ls_pending := []\<rparr>)) (\<lambda>_.
      ceach (collect_load env) pending)))) s1 = (Inr (), l)" (is "?m s1 = _")
    using assms unfolding load_records_def by (subst (asm) cbind_Inr) auto
  have "steps quiet ?m"
    by (auto intro!: quiet_intros steps_ceach quiet_settle quiet_collect quiet_put quiet_rules simp: quiet_def)
  from stepsD [OF this rest] s1 show ?thesis by blast
qed

text \<open>C30: a dump takes the place of a live import: when a session is exported and the dump is loaded, the
  workers get the very work that importing the session hands them, in the same order, with the
  chunks compressed and with the same effect; the load then runs the post-processing of the plan
  and has the foreign keys of the session.\<close>

theorem exported_import:
  assumes "run_export xe fo plan cfg path started hs (Inr (Ready tables cm)) (map Inr ms) files = (Inr (), files')"
    and "files' path = Some dmp" "session_fks ms = Some fks"
    and "codec_ok (xe_encode xe) dec" "zstd_ok (xe_zstd xe) unzstd"
    and "list_all (record_fits (xe_encode xe) mx)
      (op_records (xe_zstd xe) (export_ops plan (id_to_name tables) cm (map Inr ms)) @ [DrEnd])"
    and "import_loop env (map (\<lambda>m. Arrived (Inr m)) ms) (fresh_import log sent) = (Inr (), s)"
    and "ie_pool env" "ie_completed env = {}" "ie_plan env = plan" "ie_ids env = id_to_name tables" "ie_compression env = cm"
    and "open_dump dmp = Inr r" "load_records lenv dec mx r (fresh_load log') = (Inr (), l)"
  shows "ls_work l = map (stored_work (xe_zstd xe)) (im_work s) \<and>
    list_all (\<lambda>w. run_load db unzstd (stored_work (xe_zstd xe) w) = run_load db unzstd w) (im_work s) \<and>
    load_and_finalize lenv dec mx r (fresh_load log') = on_conn (post_process (le_db lenv) plan) l \<and>
    ls_fks l = Some fks"
proof -
  let ?enc = "xe_encode xe" and ?zstd = "xe_zstd xe" and ?ids = "id_to_name tables"
  let ?ops = "export_ops plan ?ids cm (map Inr ms)" and ?sops = "session_ops plan ?ids cm ms"
  have dump: "write_dump ?enc ?zstd ?ops = Inr dmp"
    using export_file [OF assms(1,2)] by simp
  have ops: "?ops = DoManifest (preserves plan) # ?sops" by (simp add: export_ops_def)
  have "\<exists>w w'. run_dump_ops buf_write_all ?enc ?zstd ?ops w = Inr w'"
    using dump by (auto simp: write_dump_def rbind_Inr_iff map_error_Inr)
  then have written: "list_all (op_written ?zstd) ?sops" using ops_written by (fastforce simp: ops)
  have r: "r = frames ?enc (op_records ?zstd ?ops @ [DrEnd])"
    using assms(13) write_dump_contents [OF dump] open_dump_written by simp
  obtain s1 where s1: "load_loop lenv dec mx r (fresh_load log') = (Inr (), s1)" and q: "quiet s1 l"
    using quiet_records [OF assms(14)] by blast
  have "run_records lenv (op_records ?zstd ?ops @ [DrEnd]) (fresh_load log') = (Inr (), s1)"
    using s1 load_loop_frames [OF assms(4,6)] by (simp add: r)
  then have l: "ls_work s1 = records_work Map.empty (op_records ?zstd ?ops @ [DrEnd])"
    "load_tail s1 = records_tail ([], [], None) (op_records ?zstd ?ops @ [DrEnd])"
    using records_loaded [of lenv _ _ "()" s1 Map.empty] by (auto simp: fresh_load_def)
  have "records_work Map.empty (op_records ?zstd ?ops @ [DrEnd]) = map (stored_work ?zstd) (session_work plan ?ids cm Map.empty ms)"
    using session_records [OF written] by (simp add: ops op_records_Cons)
  moreover have work: "im_work s = session_work plan ?ids cm Map.empty ms"
    using import_work [OF assms(8,9,7), of Map.empty] assms(10-12) by (simp add: fresh_import_def)
  moreover have "records_tail ([], [], None) (op_records ?zstd ?ops @ [DrEnd]) = (sets plan, after_statements plan, Some fks)"
    using session_tail [OF assms(3)] by (simp add: ops op_records_Cons)
  ultimately have "ls_work l = map (stored_work ?zstd) (im_work s)"
    "load_tail l = (sets plan, after_statements plan, Some fks)" using l q by (simp_all add: quiet_def)
  then show ?thesis
    using stored_same [OF assms(5) written] finalize_post [OF assms(14), of plan] by (simp add: work)
qed

end
