(* ===== verification/DumpSample.thy ===== *)
theory DumpSample
  imports Replay
begin

text \<open>
  The export and load theorems at work: a session of one table with one chunk, exported, loaded
  and imported; and what a load makes of a dump that was cut short.
\<close>

section \<open>A dump that was cut short\<close>

lemma op_record_not_end: "op_record zstd op \<noteq> Some DrEnd" "Some DrEnd \<noteq> op_record zstd op"
  by (cases op; auto split: sum.splits)+

lemma cut_dump_records:
  assumes "codec_ok enc dec" "write_dump enc zstd ops = Inr dmp"
    and "list_all (record_fits enc mx) (op_records zstd ops @ [DrEnd])" "n < length dmp"
    and "open_dump (take n dmp) = Inr r"
  shows "DrEnd \<notin> set (fst (read_records dec mx r))"
proof -
  let ?pre = "DUMP_MAGIC @ u16_to_le FORMAT_VERSION" and ?recs = "op_records zstd ops @ [DrEnd]"
  have lp: "length ?pre = DUMP_PREAMBLE_LEN"
    by (simp add: DUMP_MAGIC_def DUMP_PREAMBLE_LEN_def le16.enc_length)
  note f = write_dump_contents [OF assms(2)]
  have "DUMP_PREAMBLE_LEN \<le> n"
    using assms(5) by (auto simp: open_dump_def read_exact_def rbind_Inr_iff map_error_Inr split: if_splits)
  then have t: "take n dmp = ?pre @ take (n - length ?pre) (frames enc ?recs)"
    unfolding f using lp by simp
  then have r: "r = take (n - length ?pre) (frames enc ?recs)" using assms(5) open_dump_written by simp
  have "n - length ?pre < length (frames enc ?recs)" using assms(4) \<open>DUMP_PREAMBLE_LEN \<le> n\<close> lp f by simp
  from frames_cut [OF assms(1,3) this] obtain k where
    k: "fst (read_records dec mx r) = take k ?recs" "k < length ?recs" by (auto simp: r)
  have "fst (read_records dec mx r) = take k (op_records zstd ops)" using k by simp
  moreover have "DrEnd \<notin> set (op_records zstd ops)"
    by (induction ops) (auto simp: op_records_def op_record_not_end split: option.splits)
  ultimately show ?thesis by (metis in_set_takeD)
qed

text \<open>C32: a dump that was cut short anywhere is not loaded: the load fails, whatever the state it starts from
  and however the workers and the database answer, and it never gets to the preserved rows, the
  set blocks and the statements that follow the records.\<close>

theorem cut_dump_rejected:
  assumes "codec_ok enc dec" "write_dump enc zstd ops = Inr dmp"
    and "list_all (record_fits enc (lc_max_size cfg)) (op_records zstd ops @ [DrEnd])" "n < length dmp"
  shows "isl (fst (run_load_dump env ord dec cfg (take n dmp) s)) \<and>
    (\<forall>r. open_dump (take n dmp) = Inr r \<longrightarrow>
       load_and_finalize env dec (lc_max_size cfg) r s = load_records env dec (lc_max_size cfg) r s)"
proof -
  have fails: "isl (fst (load_records env dec (lc_max_size cfg) r s))" if "open_dump (take n dmp) = Inr r" for r s
  proof (rule ccontr)
    assume "\<not> isl (fst (load_records env dec (lc_max_size cfg) r s))"
    then obtain l where "load_records env dec (lc_max_size cfg) r s = (Inr (), l)"
      by (cases "load_records env dec (lc_max_size cfg) r s") (auto simp: isl_def split: sum.splits; metis old.unit.exhaust sum.exhaust_sel)
    then obtain s1 where "load_loop env dec (lc_max_size cfg) r s = (Inr (), s1)" using quiet_records by blast
    from load_loop_end [OF this] cut_dump_records [OF assms that] show False by simp
  qed
  have same: "load_and_finalize env dec (lc_max_size cfg) r s = load_records env dec (lc_max_size cfg) r s"
    if "open_dump (take n dmp) = Inr r" for r s
    using fails [OF that, of s]
    by (cases "load_records env dec (lc_max_size cfg) r s") (auto simp: load_and_finalize_def cbind_def isl_def)
  have "isl (fst (run_load_dump env ord dec cfg (take n dmp) s))"
  proof (cases "run_load_dump env ord dec cfg (take n dmp) s")
    case (Pair r s')
    show ?thesis
    proof (cases r)
      case (Inr u)
      let ?last = "\<lambda>r s. case load_and_finalize env dec (lc_max_size cfg) r s of
        (Inr _, s1) \<Rightarrow> cbind (apply_constraints env ord) (\<lambda>_. checks_on (le_db env)) s1
      | (Inl e, s1) \<Rightarrow> (Inl e, snd (checks_on (le_db env) s1))"
      obtain r1 s1 where r1: "open_dump (take n dmp) = Inr r1" and last: "?last r1 s1 = (Inr u, s')"
        using Pair [unfolded Inr run_load_dump_def] unfolding cbind_Inr clift_Inr map_error_Inr by blast
      from last obtain s2 where "load_and_finalize env dec (lc_max_size cfg) r1 s1 = (Inr (), s2)"
        by (auto split: prod.splits sum.splits)
      then show ?thesis using fails [OF r1, of s1] same [OF r1, of s1] by simp
    qed (simp add: Pair)
  qed
  then show ?thesis using same by blast
qed

theorem cut_dump_rejected_witness:
  "\<exists>dmp. write_dump sample_encode toy_zstd sample_ops = Inr dmp \<and> 24 < length dmp \<and>
     isl (fst (run_load_dump \<lparr>le_db = (\<lambda>log q. Inr \<lparr>rp_rows = [], rp_affected = 0\<rparr>), le_workers = sample_workers,
       le_reports = [Reported 0 WorkerReady], le_order = sorted_list_of_set\<rparr> sorted_list_of_set sample_decode
       \<lparr>lc_local_mysql = ''mysql://db'', lc_clean = False, lc_max_size = 100, lc_parallel = 1, lc_client_parallel = None\<rparr>
       (take 24 dmp) (fresh_load [])))"
proof -
  obtain dmp where f: "write_dump sample_encode toy_zstd sample_ops = Inr dmp" "length dmp = 25"
    using sample_dump(1) by blast
  then have "24 < length dmp" by simp
  with cut_dump_rejected [OF sample_codec f(1), of _ 24] sample_dump(2) f(1) show ?thesis by auto
qed

section \<open>A session exported, loaded and imported\<close>

definition play_tables :: "table_info list" where
  "play_tables = [\<lparr>ti_name = ''users'', ti_table_id = 0, ti_estimated_rows = 2, ti_primary_key = []\<rparr>]"

definition play_session :: "server_message list" where
  "play_session = [Schema 0 [] [] plain_options, Data 0 2 ''rows'', TableDone 0 2 None, SmDone [] None []]"

definition play_encode :: "dump_record encoder" where
  "play_encode rec =
     (case rec of
        DrTable t cols ix op an \<Rightarrow>
          if t = ''users'' \<and> cols = [] \<and> ix = [] \<and> op = plain_options \<and> an = None then Inr ''T'' else Inl ''unsupported''
      | DrChunk t cm n d \<Rightarrow> if t = ''users'' \<and> cm = CZstd \<and> n = 2 then Inr (CHR ''C'' # d) else Inl ''unsupported''
      | DrTableEnd t n \<Rightarrow> if t = ''users'' \<and> n = 2 then Inr ''D'' else Inl ''unsupported''
      | DrForeignKeys fks \<Rightarrow> if fks = [] then Inr ''F'' else Inl ''unsupported''
      | DrEnd \<Rightarrow> Inr ''E''
      | _ \<Rightarrow> Inl ''unsupported'')"

definition play_decode :: "dump_record decoder" where
  "play_decode bs =
     (case bs of
        [] \<Rightarrow> Inl ''empty''
      | c # d \<Rightarrow>
          if c = CHR ''T'' then Inr (DrTable ''users'' [] [] plain_options None, 1)
          else if c = CHR ''C'' then Inr (DrChunk ''users'' CZstd 2 d, length bs)
          else if c = CHR ''D'' then Inr (DrTableEnd ''users'' 2, 1)
          else if c = CHR ''F'' then Inr (DrForeignKeys [], 1)
          else Inr (DrEnd, 1))"

lemma play_codec: "codec_ok play_encode play_decode"
  by (auto simp: codec_ok_def play_encode_def play_decode_def split: dump_record.splits if_splits)

definition play_export :: export_env where
  "play_export = \<lparr>xe_sink = (\<lambda>sent m. Inr ()), xe_show = (\<lambda>m. ''''), xe_closed = ''closed'', xe_encode = play_encode,
     xe_zstd = toy_zstd, xe_disk = (\<lambda>w bs. None), xe_flush = (\<lambda>w. None), xe_io_text = (\<lambda>e. ''io'')\<rparr>"

definition play_files :: file_ops where
  "play_files = \<lparr>fo_create = Inr (), fo_rename = Inr (), fo_remove = Inr ()\<rparr>"

definition play_config :: export_config where
  "play_config = \<lparr>xc_remote_mysql = ''mysql://db'', xc_compression = CNone, xc_parallel = 1\<rparr>"

definition play_load :: load_env where
  "play_load = \<lparr>le_db = (\<lambda>log q. Inr \<lparr>rp_rows = [], rp_affected = 0\<rparr>), le_workers = sample_workers\<lparr>wk_unzstd := toy_unzstd\<rparr>,
     le_reports = [], le_order = sorted_list_of_set\<rparr>"

definition play_db :: database where "play_db log q = Inr \<lparr>rp_rows = [], rp_affected = 0\<rparr>"

definition play_env :: import_env where
  "play_env = sample_env\<lparr>ie_completed := {}, ie_ids := id_to_name play_tables\<rparr>"

abbreviation play_records :: "dump_record list" where
  "play_records \<equiv> op_records toy_zstd (export_ops empty_plan (id_to_name play_tables) CNone (map Inr play_session)) @ [DrEnd]"

lemma play_compressed: "compress_zstd toy_zstd ''rows'' = Inr (u32_to_le 4 @ ''Zrows'')"
  by (simp add: compress_zstd_def toy_zstd_def map_error_def as_u32_def)

lemma play_records: "play_records = [DrTable ''users'' [] [] plain_options None,
    DrChunk ''users'' CZstd 2 (u32_to_le 4 @ ''Zrows''), DrTableEnd ''users'' 2, DrForeignKeys [], DrEnd]"
  by (simp add: export_ops_def play_session_def op_records_Cons play_tables_def id_to_name_def play_compressed empty_plan_def)

lemma play_fits: "list_all (record_fits play_encode 100) play_records"
  unfolding play_records by (simp add: record_fits_def play_encode_def le32.enc_length)

lemma play_exported:
  "\<exists>files' dmp. run_export play_export play_files empty_plan play_config ''d'' (Inr ()) (Inr ())
      (Inr (Ready play_tables CNone)) (map Inr play_session) Map.empty = (Inr (), files') \<and> files' ''d'' = Some dmp"
  by (simp add: run_export_def play_files_def play_export_def play_config_def Let_def dump_new_def disk_write_def write_manifest_def
      empty_plan_def stream_to_dump_def run_defs tell_server_def export_ready_def export_start_def play_session_def
      export_message_def lookup_table_def play_tables_def id_to_name_def dump_call_def run_dump_op.simps write_table_def
      write_chunk_def write_table_end_def write_post_process_def write_foreign_keys_def put_message_def play_encode_def
      play_compressed dump_finish_def disk_flush_def)

lemmas load_defs = cbind_def cret_def clift_def cget_def cput_def load_record_def load_table_def load_chunk_def
  load_table_end_def settle_ddl_def hand_over_def make_room_def collect_load_def add_loaded_def wait_ddl_def ddl_reply_def
  run_create_def create_table_def query_drop_def execute_def MAX_PENDING_CHUNKS_def wait_for_load_def load_reply_def
  run_load_def load_tsv_data_def map_error_def

lemma play_loaded: "fst (load_records play_load play_decode 100 (frames play_encode play_records) (fresh_load [])) = Inr ()"
proof -
  have decompressed: "maybe_decompress toy_unzstd (u32_to_le 4 @ ''Zrows'') CZstd = Inr ''rows''"
    by (rule compress_decompress [OF _ play_compressed]) (simp add: zstd_ok_def toy_zstd_def toy_unzstd_def)
  have loop: "load_loop play_load play_decode 100 (frames play_encode play_records) = run_records play_load play_records"
    by (rule ext) (rule load_loop_frames [OF play_codec play_fits])
  show ?thesis
    unfolding load_records_def loop unfolding play_records
    by (simp add: load_defs fresh_load_def play_load_def sample_workers_def Let_def decompressed)
qed

lemma play_imported: "fst (import_loop play_env (map (\<lambda>m. Arrived (Inr m)) play_session) (fresh_import [] [])) = Inr ()"
  by (simp add: play_session_def play_env_def play_tables_def id_to_name_def sample_env_def sample_workers_def fresh_import_def
      no_stats_def empty_plan_def run_defs Let_def record_dropped_def saturating_sub_def)

theorem exported_import_witness:
  "\<exists>(l :: load_state) s. import_loop play_env (map (\<lambda>m. Arrived (Inr m)) play_session) (fresh_import [] []) = (Inr (), s) \<and>
     ls_work l = map (stored_work toy_zstd) (im_work s) \<and> ls_fks l = Some []"
proof -
  obtain files' dmp where exp: "run_export play_export play_files empty_plan play_config ''d'' (Inr ()) (Inr ())
      (Inr (Ready play_tables CNone)) (map Inr play_session) Map.empty = (Inr (), files')" and dmp: "files' ''d'' = Some dmp"
    using play_exported by blast
  have open_it: "open_dump dmp = Inr (frames play_encode play_records)"
    using write_dump_contents [OF export_file [OF exp dmp]] open_dump_written by (simp add: play_export_def)
  obtain l where load: "load_records play_load play_decode 100 (frames play_encode play_records) (fresh_load []) = (Inr (), l)"
    using play_loaded by (metis prod.collapse)
  obtain s where run: "import_loop play_env (map (\<lambda>m. Arrived (Inr m)) play_session) (fresh_import [] []) = (Inr (), s)"
    using play_imported by (metis prod.collapse)
  have "zstd_ok (xe_zstd play_export) toy_unzstd" by (simp add: play_export_def zstd_ok_def toy_zstd_def toy_unzstd_def)
  moreover have "session_fks play_session = Some []" by (simp add: session_fks_def play_session_def)
  moreover have "ie_pool play_env" "ie_completed play_env = {}" "ie_plan play_env = empty_plan"
    "ie_ids play_env = id_to_name play_tables" "ie_compression play_env = CNone"
    by (simp_all add: play_env_def sample_env_def)
  ultimately have "ls_work l = map (stored_work toy_zstd) (im_work s) \<and> ls_fks l = Some []"
    using exported_import [OF exp dmp, of "[]" play_decode toy_unzstd 100 play_env "[]" "[]" s "frames play_encode play_records"
        play_load "[]" l play_db] play_codec play_fits run open_it load
    by (simp add: play_export_def)
  then show ?thesis using run by blast
qed

end
