(* ===== verification/Json.thy ===== *)
theory Json
  imports Resolver Tsv
begin

text \<open>
  Configurations in JSON (\<open>crates/client/src/json_config.rs\<close>): the records of a configuration file,
  and their resolution into an execution plan.

  Reading the JSON text is the work of a library and a derived decoder and is a parameter, as are
  the file system and the order in which hash maps are visited: a JSON object is the list of its
  entries in that order, and the pending variables are a list in order of insertion, visited in
  the order \<open>jw_order\<close> gives it.  A JSON number is what the library's \<open>as_i64\<close> and \<open>as_f64\<close> answer
  for it.  Imports recurse into files; the fuel bounds their depth.
\<close>

section \<open>Configuration files\<close>

record json_number =
  jn_i64 :: "i64 option"
  jn_f64 :: "f64 option"

datatype json =
    JNull
  | JBool bool
  | JNumber json_number
  | JString string
  | JArray "json list"
  | JObject "(string \<times> json) list"

record json_variable =
  jv_name :: string
  jv_type :: string
  jv_default :: "json option"

record json_faker =
  jf_name :: string
  jf_values :: "string list"
  jf_when :: "string option"

datatype json_fakers =
    FakerMap "(string \<times> string list) list"
  | FakerArray "json_faker list"
  | FakerEmpty

record json_anonymize_rule =
  ja_column :: string
  ja_faker :: "string option"
  ja_null :: "bool option"

record json_anonymize_block =
  jb_table :: string
  jb_rules :: "json_anonymize_rule list"
  jb_when :: "string option"

datatype json_anonymize_blocks =
    AnonymizeMap "(string \<times> json_anonymize_rule list) list"
  | AnonymizeArray "json_anonymize_block list"
  | AnonymizeEmpty

record json_import =
  ji_path :: string
  ji_when :: "string option"

record json_relation =
  jr_from :: string
  jr_to :: string
  jr_when :: "string option"

record json_table_ref =
  jt_table :: string
  jt_when :: "string option"

datatype json_order_by = OrderSimple string | OrderFull string "string option"

datatype json_limit = LimitNumber i64 | LimitVariable string

record json_aggregate =
  jg_name :: string
  jg_root :: string
  jg_where :: "string option"
  jg_order_by :: "json_order_by option"
  jg_limit :: "json_limit option"
  jg_when :: "string option"

record json_include =
  jc_aggregate :: string
  jc_where :: "string option"
  jc_when :: "string option"

record json_preserve =
  jp_table :: string
  jp_where :: string
  jp_when :: "string option"

record json_set =
  js_table :: string
  js_match :: "(string \<times> json) list"
  js_value :: "(string \<times> json) list"
  js_when :: "string option"

record json_after =
  jx_sql :: string
  jx_when :: "string option"

record json_config =
  jc_variable :: "json_variable list"
  jc_import :: "json_import list"
  jc_faker :: json_fakers
  jc_relation :: "json_relation list"
  jc_exclude :: "json_table_ref list"
  jc_ignore :: "json_table_ref list"
  jc_ignore_relation :: "json_relation list"
  jc_anonymize :: json_anonymize_blocks
  jc_aggregates :: "json_aggregate list"
  jc_include :: "json_include list"
  jc_preserve :: "json_preserve list"
  jc_set :: "json_set list"
  jc_after :: "json_after list"

section \<open>State\<close>

type_synonym json_pending = "(string \<times> string \<times> json option) list"

text \<open>
  \<open>jw_parse\<close> is the JSON decoder; \<open>jw_alnum\<close> says of a character outside ASCII whether it is
  alphanumeric; the last fields are what the resolution of an imported \<open>.jibs\<close> file needs.
\<close>

record json_world =
  jw_files :: file_system
  jw_parse :: "string \<Rightarrow> string + json_config"
  jw_alnum :: "string \<Rightarrow> bool"
  jw_order :: "json_pending \<Rightarrow> json_pending"
  jw_regex :: "string \<Rightarrow> string + unit"
  jw_keys :: "execution_plan \<Rightarrow> string list"

record json_resolver =
  jz_base :: string
  jz_imported :: "string set"
  jz_vars :: var_map
  jz_pending :: json_pending
  jz_plan :: execution_plan

definition json_resolver_new :: "file_system \<Rightarrow> string \<Rightarrow> (string \<rightharpoonup> string) \<Rightarrow> json_resolver" where
  "json_resolver_new fs base cli_vars =
     \<lparr>jz_base = base,
      jz_imported = (case fs_canonical fs base of Some c \<Rightarrow> {c} | None \<Rightarrow> {}),
      jz_vars = map_option PvString \<circ> cli_vars, jz_pending = [], jz_plan = empty_plan\<rparr>"

definition on_plan :: "(execution_plan \<Rightarrow> execution_plan) \<Rightarrow> json_resolver \<Rightarrow> json_resolver" where
  "on_plan f s = s\<lparr>jz_plan := f (jz_plan s)\<rparr>"

section \<open>Interpolation and conditions\<close>

definition word_char :: "(string \<Rightarrow> bool) \<Rightarrow> string \<Rightarrow> bool" where
  "word_char alnum c =
     (case c of
        [b] \<Rightarrow> if of_char b < (128 :: nat) then is_ascii_alphanumeric b \<or> b = CHR ''_'' else alnum c
      | _ \<Rightarrow> alnum c)"

text \<open>The longest name at the start of a text, and what follows it.\<close>

function name_run :: "(string \<Rightarrow> bool) \<Rightarrow> string \<Rightarrow> string \<times> string" where
  "name_run alnum s =
     (case first_char s of
        None \<Rightarrow> ([], s)
      | Some c \<Rightarrow>
          if word_char alnum c then (case name_run alnum (drop (length c) s) of (n, r) \<Rightarrow> (c @ n, r))
          else ([], s))"
  by pat_completeness auto
termination
  by (relation "measure (\<lambda>(alnum, s). length s)") (auto elim!: first_char.elims)

declare name_run.simps [simp del]

lemma name_run_rest: "length (snd (name_run alnum s)) \<le> length s"
proof (induction alnum s rule: name_run.induct)
  case (1 alnum s)
  show ?case
  proof (cases "first_char s")
    case None
    then show ?thesis by (subst name_run.simps) simp
  next
    case (Some c)
    obtain n r where r: "name_run alnum (drop (length c) s) = (n, r)" by force
    show ?thesis
    proof (cases "word_char alnum c")
      case True
      then have "length r \<le> length s - length c" using 1 [OF Some] r by simp
      then show ?thesis by (subst name_run.simps) (simp add: Some True r)
    next
      case False
      then show ?thesis by (subst name_run.simps) (simp add: Some)
    qed
  qed
qed

function interpolate_string :: "(string \<Rightarrow> bool) \<Rightarrow> var_map \<Rightarrow> string \<Rightarrow> rfail + string" where
  "interpolate_string alnum vars s =
     (case s of
        [] \<Rightarrow> Inr []
      | c # cs \<Rightarrow>
          if c = CHR ''{'' \<and> starts_with cs ''$'' then
            (let name = takeWhile (\<lambda>d. d \<noteq> CHR ''}'') (tl cs) in
             case vars name of
               None \<Rightarrow> Inl (RErr (CeUndefinedVariable name))
             | Some v \<Rightarrow>
                 rbind (interpolate_string alnum vars (drop (length name + 1) (tl cs))) (\<lambda>t.
                 Inr (as_string_value v @ t)))
          else if c = CHR ''$'' then
            (let name = fst (name_run alnum cs) in
             rbind (interpolate_string alnum vars (snd (name_run alnum cs))) (\<lambda>t.
             Inr ((if name = [] then ''$''
                   else case vars name of Some v \<Rightarrow> as_string_value v | None \<Rightarrow> CHR ''$'' # name) @ t)))
          else rbind (interpolate_string alnum vars cs) (\<lambda>t. Inr (c # t)))"
  by pat_completeness auto
termination
  by (relation "measure (\<lambda>(alnum, vars, s). length s)") (auto simp: le_imp_less_Suc name_run_rest)

declare interpolate_string.simps [simp del]

definition bool_condition :: "var_map \<Rightarrow> string \<Rightarrow> rfail + bool option" where
  "bool_condition vars name =
     (case vars name of
        Some (PvBool b) \<Rightarrow> Inr (Some b)
      | Some PvNull \<Rightarrow> Inr None
      | Some _ \<Rightarrow> type_error ''Condition must evaluate to bool''
      | None \<Rightarrow> Inl (RErr (CeUndefinedVariable name)))"

definition evaluate_condition_string :: "var_map \<Rightarrow> string \<Rightarrow> rfail + bool" where
  "evaluate_condition_string vars condition =
     (let c = trim condition in
      if starts_with c ''!$'' then
        rbind (bool_condition vars (drop 2 c)) (\<lambda>b. Inr (case b of Some x \<Rightarrow> \<not> x | None \<Rightarrow> True))
      else if starts_with c ''$'' then
        rbind (bool_condition vars (drop 1 c)) (\<lambda>b. Inr (case b of Some x \<Rightarrow> x | None \<Rightarrow> False))
      else if ascii_lower c = ''true'' then Inr True
      else if ascii_lower c = ''false'' then Inr False
      else type_error (''Invalid condition: '' @ c))"

definition json_enabled :: "var_map \<Rightarrow> string option \<Rightarrow> rfail + bool" where
  "json_enabled vars w = (case w of None \<Rightarrow> Inr True | Some c \<Rightarrow> evaluate_condition_string vars c)"

text \<open>The loop over the entries of a list, skipping those whose condition is false.\<close>

fun each_enabled ::
  "('a \<Rightarrow> string option) \<Rightarrow> ('a \<Rightarrow> json_resolver \<Rightarrow> rfail + json_resolver) \<Rightarrow> 'a list \<Rightarrow>
     json_resolver \<Rightarrow> rfail + json_resolver" where
  "each_enabled cond f [] s = Inr s"
| "each_enabled cond f (x # xs) s =
     rbind (json_enabled (jz_vars s) (cond x)) (\<lambda>on.
     rbind (if on then f x s else Inr s) (each_enabled cond f xs))"

section \<open>Values\<close>

definition json_coerce :: "plan_value \<Rightarrow> string \<Rightarrow> rfail + plan_value" where
  "json_coerce v target =
     (case v of
        PvString s \<Rightarrow>
          if target = ''int'' then
            (case parse_i64 s of
               Some i \<Rightarrow> Inr (PvInt i)
             | None \<Rightarrow> type_error (''Cannot convert '' @ squote # s @ squote # '' to int''))
          else if target = ''float'' then
            (case parse_f64 s of
               Some f \<Rightarrow> Inr (PvFloat f)
             | None \<Rightarrow> type_error (''Cannot convert '' @ squote # s @ squote # '' to float''))
          else if target = ''bool'' then coerce_bool s
          else Inr v
      | _ \<Rightarrow> Inr v)"

definition number_i64 :: "string \<Rightarrow> json_number \<Rightarrow> rfail + i64" where
  "number_i64 m n = (case jn_i64 n of Some i \<Rightarrow> Inr i | None \<Rightarrow> type_error m)"

definition number_f64 :: "string \<Rightarrow> json_number \<Rightarrow> rfail + f64" where
  "number_f64 m n = (case jn_f64 n of Some f \<Rightarrow> Inr f | None \<Rightarrow> type_error m)"

text \<open>Elements of an array: the text they must be when they are not of the array's type.\<close>

definition string_elem :: "(string \<Rightarrow> bool) \<Rightarrow> var_map \<Rightarrow> string \<Rightarrow> json \<Rightarrow> rfail + string" where
  "string_elem alnum vars m v = (case v of JString s \<Rightarrow> interpolate_string alnum vars s | _ \<Rightarrow> type_error m)"

definition int_elem :: "string \<Rightarrow> string \<Rightarrow> json \<Rightarrow> rfail + i64" where
  "int_elem m m' v = (case v of JNumber n \<Rightarrow> number_i64 m n | _ \<Rightarrow> type_error m')"

definition float_elem :: "string \<Rightarrow> string \<Rightarrow> json \<Rightarrow> rfail + f64" where
  "float_elem m m' v = (case v of JNumber n \<Rightarrow> number_f64 m n | _ \<Rightarrow> type_error m')"

definition bool_elem :: "string \<Rightarrow> json \<Rightarrow> rfail + bool" where
  "bool_elem m v = (case v of JBool b \<Rightarrow> Inr b | _ \<Rightarrow> type_error m)"

definition json_to_value :: "(string \<Rightarrow> bool) \<Rightarrow> var_map \<Rightarrow> json \<Rightarrow> string \<Rightarrow> rfail + plan_value" where
  "json_to_value alnum vars j t =
     (let mismatch = type_error (''Type mismatch: expected '' @ t) in
      case j of
        JNumber n \<Rightarrow>
          if t = ''int'' then rbind (number_i64 ''Expected integer'' n) (\<lambda>i. Inr (PvInt i))
          else if t = ''float'' then rbind (number_f64 ''Expected float'' n) (\<lambda>f. Inr (PvFloat f))
          else mismatch
      | JBool b \<Rightarrow> if t = ''bool'' then Inr (PvBool b) else mismatch
      | JString s \<Rightarrow>
          if t = ''string'' then rbind (interpolate_string alnum vars s) (\<lambda>r. Inr (PvString r))
          else if t = ''int'' \<or> t = ''float'' then json_coerce (PvString s) t
          else mismatch
      | JArray xs \<Rightarrow>
          if t = ''string[]'' then
            rbind (rmap (string_elem alnum vars ''Expected string in string array'') xs) (\<lambda>ys. Inr (PvStringArray ys))
          else if t = ''int[]'' then
            (let m = ''Expected integer in int array'' in rbind (rmap (int_elem m m) xs) (\<lambda>ys. Inr (PvIntArray ys)))
          else if t = ''float[]'' then
            (let m = ''Expected float in float array'' in rbind (rmap (float_elem m m) xs) (\<lambda>ys. Inr (PvFloatArray ys)))
          else if t = ''bool[]'' then
            rbind (rmap (bool_elem ''Expected boolean in bool array'') xs) (\<lambda>ys. Inr (PvBoolArray ys))
          else mismatch
      | JNull \<Rightarrow> Inr PvNull
      | JObject _ \<Rightarrow> mismatch)"

text \<open>Values of set blocks: their types come from the JSON text, the type of an array from its first element.\<close>

definition json_array_value :: "(string \<Rightarrow> bool) \<Rightarrow> var_map \<Rightarrow> json list \<Rightarrow> rfail + plan_value" where
  "json_array_value alnum vars xs =
     (let mixed = ''Mixed types in array'' in
      case xs of
        [] \<Rightarrow> Inr (PvStringArray [])
      | x # _ \<Rightarrow>
          (case x of
             JString _ \<Rightarrow> rbind (rmap (string_elem alnum vars mixed) xs) (\<lambda>ys. Inr (PvStringArray ys))
           | JNumber n \<Rightarrow>
               if jn_i64 n \<noteq> None then
                 rbind (rmap (int_elem ''Expected integer in array'' mixed) xs) (\<lambda>ys. Inr (PvIntArray ys))
               else rbind (rmap (float_elem ''Expected number in array'' mixed) xs) (\<lambda>ys. Inr (PvFloatArray ys))
           | JBool _ \<Rightarrow> rbind (rmap (bool_elem mixed) xs) (\<lambda>ys. Inr (PvBoolArray ys))
           | _ \<Rightarrow> type_error ''Unsupported array element type''))"

definition json_value_to_protocol_value :: "(string \<Rightarrow> bool) \<Rightarrow> var_map \<Rightarrow> json \<Rightarrow> rfail + plan_value" where
  "json_value_to_protocol_value alnum vars j =
     (case j of
        JString s \<Rightarrow> rbind (interpolate_string alnum vars s) (\<lambda>r. Inr (PvString r))
      | JNumber n \<Rightarrow>
          (case jn_i64 n of
             Some i \<Rightarrow> Inr (PvInt i)
           | None \<Rightarrow> (case jn_f64 n of Some f \<Rightarrow> Inr (PvFloat f) | None \<Rightarrow> type_error ''Invalid number''))
      | JBool b \<Rightarrow> Inr (PvBool b)
      | JNull \<Rightarrow> Inr PvNull
      | JArray xs \<Rightarrow> json_array_value alnum vars xs
      | JObject _ \<Rightarrow> type_error ''Unsupported JSON value type'')"

section \<open>Variables\<close>

definition collect_json_vars :: "json_variable list \<Rightarrow> json_resolver \<Rightarrow> json_resolver" where
  "collect_json_vars vs s =
     s\<lparr>jz_pending := fold (\<lambda>v. AList.update (jv_name v) (jv_type v, jv_default v)) vs (jz_pending s)\<rparr>"

definition set_json_var :: "string \<Rightarrow> plan_value \<Rightarrow> json_resolver \<Rightarrow> json_resolver" where
  "set_json_var name v s =
     on_plan (\<lambda>p. p\<lparr>variables := (variables p)(name \<mapsto> v)\<rparr>) (s\<lparr>jz_vars := (jz_vars s)(name \<mapsto> v)\<rparr>)"

definition finalize_json_variable ::
  "(string \<Rightarrow> bool) \<Rightarrow> string \<times> string \<times> json option \<Rightarrow> json_resolver \<Rightarrow> rfail + json_resolver" where
  "finalize_json_variable alnum e s =
     (case e of (name, t, dflt) \<Rightarrow>
        (case jz_vars s name of
           Some v \<Rightarrow> rbind (json_coerce v t) (\<lambda>typed. Inr (set_json_var name typed s))
         | None \<Rightarrow>
             (case dflt of
                Some d \<Rightarrow> rbind (json_to_value alnum (jz_vars s) d t) (\<lambda>v. Inr (set_json_var name v s))
              | None \<Rightarrow> Inl (RErr (CeUndefinedVariable name)))))"

fun finalize_json_each ::
  "(string \<Rightarrow> bool) \<Rightarrow> json_pending \<Rightarrow> json_resolver \<Rightarrow> rfail + json_resolver" where
  "finalize_json_each alnum [] s = Inr s"
| "finalize_json_each alnum (e # es) s =
     rbind (finalize_json_variable alnum e s) (finalize_json_each alnum es)"

definition finalize_json_variables :: "json_world \<Rightarrow> json_resolver \<Rightarrow> rfail + json_resolver" where
  "finalize_json_variables w s = finalize_json_each (jw_alnum w) (jw_order w (jz_pending s)) s"

section \<open>Statements\<close>

definition parse_column_ref :: "string \<Rightarrow> rfail + string \<times> string" where
  "parse_column_ref s =
     (case split_on (CHR ''.'') s of
        [t, c] \<Rightarrow> Inr (t, c)
      | _ \<Rightarrow> Inl (RErr (CeParse (''Invalid column reference '' @ squote # s @ squote # '', expected '' @
          squote # ''table.column'' @ [squote]))))"

definition interpolate_with :: "json_world \<Rightarrow> json_resolver \<Rightarrow> string \<Rightarrow> rfail + string" where
  "interpolate_with w s = interpolate_string (jw_alnum w) (jz_vars s)"

definition optional_text :: "json_world \<Rightarrow> json_resolver \<Rightarrow> string option \<Rightarrow> rfail + string option" where
  "optional_text w s t =
     (case t of None \<Rightarrow> Inr None | Some x \<Rightarrow> rbind (interpolate_with w s x) (\<lambda>y. Inr (Some y)))"

definition add_faker :: "json_world \<Rightarrow> string \<Rightarrow> string list \<Rightarrow> json_resolver \<Rightarrow> rfail + json_resolver" where
  "add_faker w name values s =
     rbind (rmap (interpolate_with w s) values) (\<lambda>resolved.
     Inr (on_plan (\<lambda>p. p\<lparr>fakers := (fakers p)(name \<mapsto> resolved)\<rparr>) s))"

definition process_fakers :: "json_world \<Rightarrow> json_fakers \<Rightarrow> json_resolver \<Rightarrow> rfail + json_resolver" where
  "process_fakers w fks s =
     (case fks of
        FakerMap m \<Rightarrow> each_enabled (\<lambda>_. None) (\<lambda>(name, values). add_faker w name values) m s
      | FakerArray arr \<Rightarrow> each_enabled jf_when (\<lambda>f. add_faker w (jf_name f) (jf_values f)) arr s
      | FakerEmpty \<Rightarrow> Inr s)"

definition json_relation_of :: "json_relation \<Rightarrow> rfail + relation" where
  "json_relation_of r =
     rbind (parse_column_ref (jr_from r)) (\<lambda>(ft, fc).
     rbind (parse_column_ref (jr_to r)) (\<lambda>(tt, tc).
     Inr \<lparr>from_table = ft, from_column = fc, to_table = tt, to_column = tc\<rparr>))"

definition process_relations :: "json_relation list \<Rightarrow> json_resolver \<Rightarrow> rfail + json_resolver" where
  "process_relations = each_enabled jr_when (\<lambda>r s.
     rbind (json_relation_of r) (\<lambda>rel. Inr (on_plan (\<lambda>p. p\<lparr>relations := relations p @ [rel]\<rparr>) s)))"

definition process_excludes :: "json_table_ref list \<Rightarrow> json_resolver \<Rightarrow> rfail + json_resolver" where
  "process_excludes = each_enabled jt_when (\<lambda>e s.
     Inr (on_plan (\<lambda>p. p\<lparr>excluded_tables := insert (jt_table e) (excluded_tables p)\<rparr>) s))"

definition process_ignores :: "json_table_ref list \<Rightarrow> json_resolver \<Rightarrow> rfail + json_resolver" where
  "process_ignores = each_enabled jt_when (\<lambda>e s.
     Inr (on_plan (\<lambda>p. p\<lparr>ignored_tables := insert (jt_table e) (ignored_tables p)\<rparr>) s))"

definition process_ignore_relations :: "json_relation list \<Rightarrow> json_resolver \<Rightarrow> rfail + json_resolver" where
  "process_ignore_relations = each_enabled jr_when (\<lambda>r s.
     rbind (json_relation_of r) (\<lambda>rel.
     Inr (on_plan (\<lambda>p. p\<lparr>ignored_relations := ignored_relations p @ [rel]\<rparr>) s)))"

definition json_rule_of :: "string \<Rightarrow> json_anonymize_rule \<Rightarrow> rfail + plan_anonymize_rule" where
  "json_rule_of table r =
     (if ja_null r = Some True then Inr \<lparr>an_column = ja_column r, an_target = ToNull\<rparr>
      else
        (case ja_faker r of
           Some f \<Rightarrow> Inr \<lparr>an_column = ja_column r, an_target = ToFaker f\<rparr>
         | None \<Rightarrow>
             Inl (RErr (CeParse (''Anonymize rule for '' @ table @ ''.'' @ ja_column r @ '' must specify '' @
               squote # ''faker'' @ squote # '' or '' @ squote # ''null: true'' @ [squote])))))"

definition add_rules :: "string \<Rightarrow> plan_anonymize_rule list \<Rightarrow> execution_plan \<Rightarrow> execution_plan" where
  "add_rules table rules p =
     p\<lparr>anonymization := (anonymization p)(table \<mapsto>
        (case anonymization p table of None \<Rightarrow> [] | Some old \<Rightarrow> old) @ rules)\<rparr>"

definition add_anonymize_rules ::
  "string \<Rightarrow> json_anonymize_rule list \<Rightarrow> json_resolver \<Rightarrow> rfail + json_resolver" where
  "add_anonymize_rules table rules s =
     rbind (rmap (json_rule_of table) rules) (\<lambda>resolved. Inr (on_plan (add_rules table resolved) s))"

definition process_anonymize_blocks :: "json_anonymize_blocks \<Rightarrow> json_resolver \<Rightarrow> rfail + json_resolver" where
  "process_anonymize_blocks b s =
     (case b of
        AnonymizeMap m \<Rightarrow> each_enabled (\<lambda>_. None) (\<lambda>(table, rules). add_anonymize_rules table rules) m s
      | AnonymizeArray arr \<Rightarrow> each_enabled jb_when (\<lambda>x. add_anonymize_rules (jb_table x) (jb_rules x)) arr s
      | AnonymizeEmpty \<Rightarrow> Inr s)"

definition json_order :: "json_order_by option \<Rightarrow> string option \<times> plan_direction option" where
  "json_order ob =
     (case ob of
        Some (OrderSimple col) \<Rightarrow> (Some col, None)
      | Some (OrderFull col dir) \<Rightarrow>
          (Some col, map_option (\<lambda>d. if ascii_lower d = ''desc'' then DirDesc else DirAsc) dir)
      | None \<Rightarrow> (None, None))"

definition json_limit_of :: "var_map \<Rightarrow> json_limit option \<Rightarrow> rfail + i64 option" where
  "json_limit_of vars lim =
     (case lim of
        Some (LimitNumber n) \<Rightarrow> Inr (Some n)
      | Some (LimitVariable var) \<Rightarrow>
          (let name = (if starts_with var ''$'' then drop 1 var else var) in
           rbind (lookup_var vars name) (\<lambda>v. Inr (value_as_int v)))
      | None \<Rightarrow> Inr None)"

definition add_json_aggregate :: "json_world \<Rightarrow> json_aggregate \<Rightarrow> json_resolver \<Rightarrow> rfail + json_resolver" where
  "add_json_aggregate w a s =
     rbind (optional_text w s (jg_where a)) (\<lambda>where_clause.
     rbind (json_limit_of (jz_vars s) (jg_limit a)) (\<lambda>limit.
     Inr (on_plan (\<lambda>p. p\<lparr>aggregates := aggregates p @
       [\<lparr>ra_name = jg_name a, ra_root_table = jg_root a, ra_where = where_clause,
         ra_order_by = fst (json_order (jg_order_by a)), ra_direction = snd (json_order (jg_order_by a)),
         ra_limit = limit, ra_exclude_tables = [], ra_exclude_patterns = [], ra_root_only = False\<rparr>]\<rparr>) s)))"

definition process_aggregates :: "json_world \<Rightarrow> json_aggregate list \<Rightarrow> json_resolver \<Rightarrow> rfail + json_resolver" where
  "process_aggregates w = each_enabled jg_when (add_json_aggregate w)"

definition add_include :: "json_world \<Rightarrow> json_include \<Rightarrow> json_resolver \<Rightarrow> rfail + json_resolver" where
  "add_include w i s =
     (let aggs = aggregates (jz_plan s) in
      case find (\<lambda>a. ra_name a = jc_aggregate i) aggs of
        None \<Rightarrow> Inr s
      | Some existing \<Rightarrow>
          (let name = jc_aggregate i @ ''_include_'' @ nat_string (length aggs) in
           rbind (case jc_where i of
                    None \<Rightarrow> Inr (ra_where existing)
                  | Some c \<Rightarrow> rbind (interpolate_with w s c) (\<lambda>r. Inr (Some r))) (\<lambda>where_clause.
           Inr (on_plan (\<lambda>p. p\<lparr>aggregates := aggs @ [existing\<lparr>ra_name := name, ra_where := where_clause\<rparr>]\<rparr>) s))))"

definition process_includes :: "json_world \<Rightarrow> json_include list \<Rightarrow> json_resolver \<Rightarrow> rfail + json_resolver" where
  "process_includes w = each_enabled jc_when (add_include w)"

definition process_preserves :: "json_world \<Rightarrow> json_preserve list \<Rightarrow> json_resolver \<Rightarrow> rfail + json_resolver" where
  "process_preserves w = each_enabled jp_when (\<lambda>p s.
     rbind (interpolate_with w s (jp_where p)) (\<lambda>c.
     Inr (on_plan (\<lambda>pl. pl\<lparr>preserves := preserves pl @ [\<lparr>pr_table = jp_table p, pr_where = c\<rparr>]\<rparr>) s)))"

definition json_assignment :: "json_world \<Rightarrow> json_resolver \<Rightarrow> string \<times> json \<Rightarrow> rfail + plan_assignment" where
  "json_assignment w s e =
     rbind (json_value_to_protocol_value (jw_alnum w) (jz_vars s) (snd e)) (\<lambda>v.
     Inr \<lparr>pa_column = fst e, pa_value = v\<rparr>)"

definition process_sets :: "json_world \<Rightarrow> json_set list \<Rightarrow> json_resolver \<Rightarrow> rfail + json_resolver" where
  "process_sets w = each_enabled js_when (\<lambda>b s.
     rbind (rmap (json_assignment w s) (js_match b)) (\<lambda>match_clause.
     rbind (rmap (json_assignment w s) (js_value b)) (\<lambda>assigns.
     Inr (on_plan (\<lambda>p. p\<lparr>sets := sets p @
       [\<lparr>sr_table = js_table b, sr_match = match_clause, sr_assignments = assigns\<rparr>]\<rparr>) s))))"

definition process_after :: "json_world \<Rightarrow> json_after list \<Rightarrow> json_resolver \<Rightarrow> rfail + json_resolver" where
  "process_after w = each_enabled jx_when (\<lambda>a s.
     rbind (interpolate_with w s (jx_sql a)) (\<lambda>sql.
     Inr (on_plan (\<lambda>p. p\<lparr>after_statements := after_statements p @ [sql]\<rparr>) s)))"

definition process_json_statements :: "json_world \<Rightarrow> json_config \<Rightarrow> json_resolver \<Rightarrow> rfail + json_resolver" where
  "process_json_statements w c s =
     rbind (process_fakers w (jc_faker c) s) (\<lambda>s.
     rbind (process_relations (jc_relation c) s) (\<lambda>s.
     rbind (process_excludes (jc_exclude c) s) (\<lambda>s.
     rbind (process_ignores (jc_ignore c) s) (\<lambda>s.
     rbind (process_ignore_relations (jc_ignore_relation c) s) (\<lambda>s.
     rbind (process_anonymize_blocks (jc_anonymize c) s) (\<lambda>s.
     rbind (process_aggregates w (jc_aggregates c) s) (\<lambda>s.
     rbind (process_includes w (jc_include c) s) (\<lambda>s.
     rbind (process_preserves w (jc_preserve c) s) (\<lambda>s.
     rbind (process_sets w (jc_set c) s) (\<lambda>s.
     process_after w (jc_after c) s))))))))))"

section \<open>Files\<close>

text \<open>\<open>Path::extension\<close>: what follows the last dot of the file name, unless the name starts there.\<close>

definition file_extension :: "string \<Rightarrow> string" where
  "file_extension path =
     (let name = last (split_on (CHR ''/'') path); parts = split_on (CHR ''.'') name in
      if length parts < 2 \<or> name = ''..'' \<or> (length parts = 2 \<and> hd parts = []) then '''' else last parts)"

definition merge_rules :: "(string \<rightharpoonup> plan_anonymize_rule list) \<Rightarrow> (string \<rightharpoonup> plan_anonymize_rule list) \<Rightarrow> string \<rightharpoonup> plan_anonymize_rule list" where
  "merge_rules old new =
     (\<lambda>t. case new t of
        None \<Rightarrow> old t
      | Some rules \<Rightarrow> Some ((case old t of None \<Rightarrow> [] | Some rs \<Rightarrow> rs) @ rules))"

definition merge_plan :: "execution_plan \<Rightarrow> execution_plan \<Rightarrow> execution_plan" where
  "merge_plan p q =
     p\<lparr>variables := variables q ++ variables p,
       relations := relations p @ relations q,
       ignored_relations := ignored_relations p @ ignored_relations q,
       aggregates := aggregates p @ aggregates q,
       excluded_tables := excluded_tables p \<union> excluded_tables q,
       ignored_tables := ignored_tables p \<union> ignored_tables q,
       anonymization := merge_rules (anonymization p) (anonymization q),
       fakers := fakers q ++ fakers p,
       preserves := preserves p @ preserves q,
       sets := sets p @ sets q,
       after_statements := after_statements p @ after_statements q\<rparr>"

definition parse_dsl :: "file_system \<Rightarrow> string \<Rightarrow> string \<Rightarrow> rfail + program" where
  "parse_dsl fs import_path source =
     (case parse source of
        Done prog \<Rightarrow> Inr prog
      | Fail errors \<Rightarrow>
          Inl (RErr (CeParse (''in imported file '' @ squote # import_path @ squote # '':'' @ newline #
            fs_render fs import_path source errors)))
      | NoFuel \<Rightarrow> Inl RFuel)"

text \<open>An imported \<open>.jibs\<close> file is resolved on its own, with the variables known so far as command line variables.\<close>

definition import_dsl :: "nat \<Rightarrow> json_world \<Rightarrow> string \<Rightarrow> string \<Rightarrow> string \<Rightarrow> json_resolver \<Rightarrow> rfail + json_resolver" where
  "import_dsl fuel w import_path canonical source s =
     rbind (parse_dsl (jw_files w) import_path source) (\<lambda>prog.
     case resolve_with False fuel (jw_files w) (jw_regex w) (jw_keys w) canonical prog
         (map_option as_string_value \<circ> jz_vars s) of
       Inl (RErr e) \<Rightarrow>
         Inl (RErr (CeParse (''Resolution error in '' @ squote # import_path @ squote # '': '' @ ce_display e)))
     | Inl stop \<Rightarrow> Inl stop
     | Inr c \<Rightarrow> Inr (on_plan (\<lambda>p. merge_plan p (rc_plan c)) s))"

definition parse_json :: "json_world \<Rightarrow> string \<Rightarrow> string \<Rightarrow> rfail + json_config" where
  "parse_json w what source = map_error (\<lambda>e. RErr (CeParse (what @ '': '' @ e))) (jw_parse w source)"

fun process_json_import :: "nat \<Rightarrow> nat \<Rightarrow> json_world \<Rightarrow> string \<Rightarrow> json_resolver \<Rightarrow> rfail + json_resolver" where
  "process_json_import 0 dsl_fuel w import_path s = Inl RFuel"
| "process_json_import (Suc n) dsl_fuel w import_path s =
     (case fs_resolve (jw_files w) (jz_base s) import_path of
        Inl e \<Rightarrow> Inl (RErr (CeIo (''resolve import path '' @ squote # import_path @ [squote]) e))
      | Inr canonical \<Rightarrow>
          if canonical \<in> jz_imported s then Inr s
          else
            (let s1 = s\<lparr>jz_imported := insert canonical (jz_imported s)\<rparr> in
             rbind (map_error (\<lambda>e. RErr (CeIo (''read import '' @ squote # import_path @ [squote]) e))
               (fs_read (jw_files w) canonical)) (\<lambda>content.
             if file_extension canonical = ''json'' then
               rbind (parse_json w (''Parse error in '' @ squote # import_path @ [squote]) content) (\<lambda>c.
               rbind (each_enabled ji_when (\<lambda>i. process_json_import n dsl_fuel w (ji_path i)) (jc_import c)
                 (s1\<lparr>jz_base := canonical\<rparr>)) (\<lambda>s2.
               rbind (process_json_statements w c (collect_json_vars (jc_variable c) s2)) (\<lambda>s3.
               Inr (s3\<lparr>jz_base := jz_base s\<rparr>))))
             else import_dsl dsl_fuel w import_path canonical content s1)))"

definition resolve_json :: "nat \<Rightarrow> nat \<Rightarrow> json_world \<Rightarrow> json_config \<Rightarrow> json_resolver \<Rightarrow> rfail + execution_plan" where
  "resolve_json fuel dsl_fuel w c s =
     rbind (each_enabled ji_when (\<lambda>i. process_json_import fuel dsl_fuel w (ji_path i)) (jc_import c) s) (\<lambda>s1.
     rbind (finalize_json_variables w (collect_json_vars (jc_variable c) s1)) (\<lambda>s2.
     rbind (process_json_statements w c s2) (\<lambda>s3.
     Inr (jz_plan s3))))"

definition parse_json_config :: "nat \<Rightarrow> nat \<Rightarrow> json_world \<Rightarrow> string \<Rightarrow> (string \<rightharpoonup> string) \<Rightarrow> rfail + execution_plan" where
  "parse_json_config fuel dsl_fuel w config_path cli_vars =
     rbind (map_error (\<lambda>e. RErr (CeIo (''read config '' @ squote # config_path @ [squote]) e))
       (fs_read (jw_files w) config_path)) (\<lambda>content.
     rbind (parse_json w ''Invalid JSON config'' content) (\<lambda>c.
     resolve_json fuel dsl_fuel w c (json_resolver_new (jw_files w) config_path cli_vars)))"

end
