(* ===== verification/JsonPlan.thy ===== *)
theory JsonPlan
  imports Json Resolution
begin

text \<open>
  What the resolution of a JSON configuration guarantees: it returns, anonymization rules are never
  lost, and interpolation puts the values of the variables in the places of their names.
\<close>

section \<open>Resolution returns\<close>

lemma returns_interpolate [simp]: "returns (interpolate_string alnum vars s)"
proof (induction alnum vars s rule: interpolate_string.induct)
  case (1 alnum vars s)
  show ?case
  proof (cases s)
    case Nil
    then show ?thesis by (subst interpolate_string.simps) simp
  next
    case (Cons c cs)
    show ?thesis
      using 1 [OF Cons]
      by (subst interpolate_string.simps) (auto simp: Cons Let_def intro!: returns_rbind split: option.split)
  qed
qed

lemma returns_condition [simp]: "returns (evaluate_condition_string vars c)"
  by (auto simp: evaluate_condition_string_def bool_condition_def Let_def intro!: returns_rbind
      split: option.split plan_value.split)

lemma returns_json_enabled [simp]: "returns (json_enabled vars c)"
  by (simp add: json_enabled_def split: option.split)

lemma returns_each:
  "(\<And>x s. x \<in> set xs \<Longrightarrow> returns (f x s)) \<Longrightarrow> returns (each_enabled cond f xs s)"
  by (induction xs arbitrary: s) (auto intro!: returns_rbind)

lemma returns_json_values [simp]:
  "returns (json_coerce v t)" "returns (json_to_value alnum vars j t)" "returns (json_value_to_protocol_value alnum vars j)"
proof -
  show coerce: "returns (json_coerce v t)" for v t
    by (auto simp: json_coerce_def coerce_bool_def Let_def split: plan_value.split option.split)
  have elems: "returns (string_elem alnum vars m x)" "returns (int_elem m m' x)" "returns (float_elem m m' x)"
    "returns (bool_elem m x)" "returns (number_i64 m n)" "returns (number_f64 m n)" for m m' x n
    by (auto simp: string_elem_def int_elem_def float_elem_def bool_elem_def number_i64_def number_f64_def
        split: json.split option.split)
  show "returns (json_to_value alnum vars j t)"
    by (cases j) (simp_all add: json_to_value_def Let_def coerce elems returns_rbind returns_rmap)
  have "returns (json_array_value alnum vars xs)" for xs
    by (simp add: json_array_value_def Let_def elems returns_rbind returns_rmap split: json.split list.split)
  then show "returns (json_value_to_protocol_value alnum vars j)"
    by (simp add: json_value_to_protocol_value_def returns_rbind split: json.split option.split)
qed

lemma returns_column_ref [simp]: "returns (parse_column_ref s)"
  by (auto simp: parse_column_ref_def split: list.split)

lemma returns_json_statements [simp]: "returns (process_json_statements w c s)"
proof -
  have texts: "returns (interpolate_with w s t)" "returns (optional_text w s u)" for s t u
    by (auto simp: interpolate_with_def optional_text_def intro!: returns_rbind split: option.split)
  have rel: "returns (json_relation_of r)" for r
    by (auto simp: json_relation_of_def intro!: returns_rbind split: prod.split)
  have faker: "returns (add_faker w n vs s)" for n vs s
    by (auto simp: add_faker_def texts intro!: returns_rbind returns_rmap)
  have rules: "returns (add_anonymize_rules t rs s)" for t rs s
    by (auto simp: add_anonymize_rules_def json_rule_of_def intro!: returns_rbind returns_rmap split: option.split)
  have agg: "returns (add_json_aggregate w a s)" for a s
    by (auto simp: add_json_aggregate_def json_limit_of_def texts Let_def intro!: returns_rbind split: option.split json_limit.split)
  have incl: "returns (add_include w i s)" for i s
    by (auto simp: add_include_def texts Let_def intro!: returns_rbind split: option.split)
  have assignment: "returns (json_assignment w s e)" for s e
    by (auto simp: json_assignment_def intro!: returns_rbind)
  show ?thesis
    unfolding process_json_statements_def process_fakers_def process_relations_def process_excludes_def process_ignores_def
      process_ignore_relations_def process_anonymize_blocks_def process_aggregates_def process_includes_def
      process_preserves_def process_sets_def process_after_def
    by (intro returns_rbind)
      (auto intro!: returns_each returns_rbind returns_rmap
        simp: texts rel faker rules agg incl assignment split: json_fakers.split json_anonymize_blocks.split)
qed

lemma returns_finalize_json [simp]: "returns (finalize_json_variables w s)"
proof -
  have "returns (finalize_json_each alnum es s)" for alnum es
    by (induction es arbitrary: s)
      (auto simp: finalize_json_variable_def intro!: returns_rbind split: option.split prod.split)
  then show ?thesis by (simp add: finalize_json_variables_def)
qed

lemma returns_map_error [simp]: "returns (map_error (\<lambda>e. RErr (f e)) r)"
  by (auto simp: map_error_def returns_def split: sum.split)

section \<open>What is never lost\<close>

definition rules_of :: "execution_plan \<Rightarrow> string \<Rightarrow> plan_anonymize_rule set" where
  "rules_of p t = (case anonymization p t of None \<Rightarrow> {} | Some rules \<Rightarrow> set rules)"

text \<open>
  Steps inside a file import no file and lose no rule; whatever holds of the steps of a list and is
  transitive holds of the list.
\<close>

definition steady :: "json_resolver \<Rightarrow> json_resolver \<Rightarrow> bool" where
  "steady s s' \<longleftrightarrow> jz_imported s' = jz_imported s \<and> jz_base s' = jz_base s \<and>
     (\<forall>t. rules_of (jz_plan s) t \<subseteq> rules_of (jz_plan s') t)"

lemma steady_refl [simp]: "steady s s"
  by (simp add: steady_def)

lemma steady_trans: "steady s s' \<Longrightarrow> steady s' s'' \<Longrightarrow> steady s s''"
  unfolding steady_def by (metis subset_trans)

lemma each_rel:
  assumes refl: "\<And>s. R s s" and trans: "\<And>s s' s''. R s s' \<Longrightarrow> R s' s'' \<Longrightarrow> R s s''"
    and step: "\<And>x s s'. x \<in> set xs \<Longrightarrow> f x s = Inr s' \<Longrightarrow> R s s'"
  shows "each_enabled cond f xs s = Inr s' \<Longrightarrow> R s s'"
  using step
proof (induction xs arbitrary: s)
  case (Cons x xs)
  obtain on s1 where "(if on then f x s else Inr s) = Inr s1" "each_enabled cond f xs s1 = Inr s'"
    using Cons.prems(1) by (auto simp: rbind_Inr_iff)
  then have "R s s1" "R s1 s'" using Cons.prems(2) Cons.IH [of s1] refl by (cases on; fastforce)+
  then show ?case by (rule trans)
qed (use refl in simp)

text \<open>An unconditional entry of a list is processed, between two stretches of the list.\<close>

lemma each_applied:
  assumes refl: "\<And>s. R s s" and trans: "\<And>s s' s''. R s s' \<Longrightarrow> R s' s'' \<Longrightarrow> R s s''"
    and step: "\<And>x s s'. x \<in> set xs \<Longrightarrow> f x s = Inr s' \<Longrightarrow> R s s'"
    and x: "x \<in> set xs" "cond x = None"
  shows "each_enabled cond f xs s = Inr s' \<Longrightarrow> \<exists>sa sb. R s sa \<and> f x sa = Inr sb \<and> R sb s'"
  using step x(1)
proof (induction xs arbitrary: s)
  case (Cons y ys)
  obtain on s1 where on: "json_enabled (jz_vars s) (cond y) = Inr on"
    and s1: "(if on then f y s else Inr s) = Inr s1" "each_enabled cond f ys s1 = Inr s'"
    using Cons.prems(1) by (auto simp: rbind_Inr_iff)
  have "R s s1" using s1(1) Cons.prems(2) [of y] refl by (cases on) auto
  have "R s1 s'" by (rule each_rel [OF refl trans _ s1(2)]) (use Cons.prems(2) in auto)
  show ?case
  proof (cases "x = y")
    case True
    then have "f x s = Inr s1" using on s1(1) x(2) by (simp add: json_enabled_def)
    then show ?thesis using refl \<open>R s1 s'\<close> by blast
  next
    case False
    then show ?thesis using Cons.IH [OF s1(2)] Cons.prems(2,3) \<open>R s s1\<close> trans by (metis list.set_intros(2) set_ConsD)
  qed
qed simp

lemma each_steady:
  assumes "\<And>x s s'. x \<in> set xs \<Longrightarrow> f x s = Inr s' \<Longrightarrow> steady s s'"
  shows "each_enabled cond f xs s = Inr s' \<Longrightarrow> steady s s'"
  by (rule each_rel [where R = steady]) (auto intro: steady_trans assms)

lemma each_applied_steady:
  assumes "\<And>x s s'. x \<in> set xs \<Longrightarrow> f x s = Inr s' \<Longrightarrow> steady s s'" "x \<in> set xs" "cond x = None"
  shows "each_enabled cond f xs s = Inr s' \<Longrightarrow> \<exists>sa sb. steady s sa \<and> f x sa = Inr sb \<and> steady sb s'"
  by (rule each_applied [where R = steady]) (use assms in \<open>auto intro: steady_trans\<close>)

lemma rules_add: "rules_of (add_rules t rs p) u = rules_of p u \<union> (if u = t then set rs else {})"
  by (auto simp: add_rules_def rules_of_def split: option.splits)

lemma steady_add_rules: "add_anonymize_rules t rs s = Inr s' \<Longrightarrow> steady s s'"
  by (auto simp: add_anonymize_rules_def rbind_Inr_iff steady_def on_plan_def rules_add)

lemma steady_plan: "(\<And>p. anonymization (f p) = anonymization p) \<Longrightarrow> steady s (on_plan f s)"
  by (simp add: steady_def on_plan_def rules_of_def)

lemma steady_blocks: "process_anonymize_blocks b s = Inr s' \<Longrightarrow> steady s s'"
  by (auto simp: process_anonymize_blocks_def intro: steady_add_rules split: json_anonymize_blocks.splits
      elim!: each_steady [rotated])

lemma steady_others:
  "process_fakers w fks s = Inr s' \<Longrightarrow> steady s s'"
  "process_relations rs s = Inr s' \<Longrightarrow> steady s s'" "process_excludes es s = Inr s' \<Longrightarrow> steady s s'"
  "process_ignores es s = Inr s' \<Longrightarrow> steady s s'" "process_ignore_relations rs s = Inr s' \<Longrightarrow> steady s s'"
  "process_aggregates w ags s = Inr s' \<Longrightarrow> steady s s'" "process_includes w ins s = Inr s' \<Longrightarrow> steady s s'"
  "process_preserves w ps s = Inr s' \<Longrightarrow> steady s s'" "process_sets w ss s = Inr s' \<Longrightarrow> steady s s'"
  "process_after w xs s = Inr s' \<Longrightarrow> steady s s'"
proof -
  have incl: "add_include w i s = Inr s' \<Longrightarrow> steady s s'" for i s s'
    by (auto simp: add_include_def Let_def rbind_Inr_iff intro: steady_plan split: option.splits)
  show "process_fakers w fks s = Inr s' \<Longrightarrow> steady s s'"
    by (auto simp: process_fakers_def add_faker_def rbind_Inr_iff intro!: steady_plan split: json_fakers.splits
        elim!: each_steady [rotated])
  show "process_relations rs s = Inr s' \<Longrightarrow> steady s s'" "process_excludes es s = Inr s' \<Longrightarrow> steady s s'"
    "process_ignores es s = Inr s' \<Longrightarrow> steady s s'" "process_ignore_relations rs s = Inr s' \<Longrightarrow> steady s s'"
    "process_aggregates w ags s = Inr s' \<Longrightarrow> steady s s'" "process_includes w ins s = Inr s' \<Longrightarrow> steady s s'"
    "process_preserves w ps s = Inr s' \<Longrightarrow> steady s s'" "process_sets w ss s = Inr s' \<Longrightarrow> steady s s'"
    "process_after w xs s = Inr s' \<Longrightarrow> steady s s'"
    unfolding process_relations_def process_excludes_def process_ignores_def process_ignore_relations_def
      process_aggregates_def process_includes_def process_preserves_def process_sets_def process_after_def
    by (erule each_steady [rotated]; auto simp: rbind_Inr_iff add_json_aggregate_def intro: steady_plan incl)+
qed

text \<open>The statements of a file, split at its anonymization.\<close>

lemma statements_split:
  assumes "process_json_statements w c s = Inr s'"
  obtains sa sb where "steady s sa" "process_anonymize_blocks (jc_anonymize c) sa = Inr sb" "steady sb s'"
proof -
  obtain s1 s2 s3 s4 s5 s6 s7 s8 s9 sa where
    st: "process_fakers w (jc_faker c) s = Inr s1" "process_relations (jc_relation c) s1 = Inr s2"
    "process_excludes (jc_exclude c) s2 = Inr s3" "process_ignores (jc_ignore c) s3 = Inr s4"
    "process_ignore_relations (jc_ignore_relation c) s4 = Inr s5" "process_anonymize_blocks (jc_anonymize c) s5 = Inr s6"
    "process_aggregates w (jc_aggregates c) s6 = Inr s7" "process_includes w (jc_include c) s7 = Inr s8"
    "process_preserves w (jc_preserve c) s8 = Inr s9" "process_sets w (jc_set c) s9 = Inr sa"
    "process_after w (jc_after c) sa = Inr s'"
    using assms unfolding process_json_statements_def rbind_Inr_iff by blast
  then have chain: "steady s s1" "steady s1 s2" "steady s2 s3" "steady s3 s4" "steady s4 s5" "steady s6 s7"
    "steady s7 s8" "steady s8 s9" "steady s9 sa" "steady sa s'"
    by (simp_all only: steady_others)
  have "steady s s5" by (rule chain(1) chain(2) chain(3) chain(4) chain(5) steady_trans)+
  moreover have "steady s6 s'" by (rule chain(6) chain(7) chain(8) chain(9) chain(10) steady_trans)+
  ultimately show ?thesis using that st(6) by blast
qed

lemma steady_statements: "process_json_statements w c s = Inr s' \<Longrightarrow> steady s s'"
  by (erule statements_split) (blast intro: steady_trans steady_blocks)

lemma steady_finalize: "finalize_json_variables w s = Inr s' \<Longrightarrow> steady s s'"
proof -
  have "finalize_json_each alnum es s = Inr s' \<Longrightarrow> steady s s'" for alnum es s
  proof (induction es arbitrary: s)
    case (Cons e es)
    then obtain s1 where "finalize_json_variable alnum e s = Inr s1" "finalize_json_each alnum es s1 = Inr s'"
      by (auto simp: rbind_Inr_iff)
    moreover from this(1) have "steady s s1"
      by (auto simp: finalize_json_variable_def rbind_Inr_iff set_json_var_def on_plan_def steady_def rules_of_def
          split: prod.splits option.splits)
    ultimately show ?case using Cons.IH steady_trans by blast
  qed simp
  then show "finalize_json_variables w s = Inr s' \<Longrightarrow> steady s s'" by (simp add: finalize_json_variables_def)
qed

lemma steady_vars: "steady s (collect_json_vars vs s)"
  by (simp add: collect_json_vars_def steady_def)

lemma rules_merge: "rules_of (merge_plan p q) t = rules_of p t \<union> rules_of q t"
  by (auto simp: rules_of_def merge_plan_def merge_rules_def split: option.splits)

lemma import_dsl_Inr:
  assumes "import_dsl dn w path c content s = Inr s'"
  shows "\<exists>plan. s' = on_plan (\<lambda>p. merge_plan p plan) s"
proof -
  obtain prog where run: "(case resolve_with False dn (jw_files w) (jw_regex w) (jw_keys w) c prog
         (map_option as_string_value \<circ> jz_vars s) of
       Inl (RErr e) \<Rightarrow>
         Inl (RErr (CeParse (''Resolution error in '' @ squote # path @ squote # '': '' @ ce_display e)))
     | Inl stop \<Rightarrow> Inl stop
     | Inr c \<Rightarrow> Inr (on_plan (\<lambda>p. merge_plan p (rc_plan c)) s)) = Inr s'" (is "(case ?r of Inl x \<Rightarrow> ?f x | Inr c \<Rightarrow> ?g c) = _")
    using assms by (auto simp: import_dsl_def rbind_Inr_iff)
  show ?thesis
  proof (cases ?r)
    case (Inl x)
    then show ?thesis using run by (cases x) auto
  next
    case (Inr c)
    then show ?thesis using run by auto
  qed
qed

text \<open>The configuration in a file, and the rules it asks for whatever the conditions.\<close>

definition json_file :: "json_world \<Rightarrow> string \<Rightarrow> json_config option" where
  "json_file w path =
     (case fs_read (jw_files w) path of
        Inl _ \<Rightarrow> None
      | Inr content \<Rightarrow> (case jw_parse w content of Inl _ \<Rightarrow> None | Inr c \<Rightarrow> Some c))"

definition rules_asked :: "json_config \<Rightarrow> (string \<times> json_anonymize_rule) set" where
  "rules_asked c =
     (case jc_anonymize c of
        AnonymizeMap m \<Rightarrow> {(t, r). \<exists>rules. (t, rules) \<in> set m \<and> r \<in> set rules}
      | AnonymizeArray bs \<Rightarrow> {(t, r). \<exists>b \<in> set bs. jb_when b = None \<and> t = jb_table b \<and> r \<in> set (jb_rules b)}
      | AnonymizeEmpty \<Rightarrow> {})"

definition rules_kept :: "json_config \<Rightarrow> execution_plan \<Rightarrow> bool" where
  "rules_kept c p \<longleftrightarrow> (\<forall>(t, r) \<in> rules_asked c. \<exists>r'. json_rule_of t r = Inr r' \<and> r' \<in> rules_of p t)"

definition imports_done :: "json_world \<Rightarrow> string \<Rightarrow> json_config \<Rightarrow> string set \<Rightarrow> bool" where
  "imports_done w d c X \<longleftrightarrow>
     (\<forall>i \<in> set (jc_import c). \<forall>e. ji_when i = None \<longrightarrow> fs_resolve (jw_files w) d (ji_path i) = Inr e \<longrightarrow> e \<in> X)"

lemma rules_kept_mono: "rules_kept c (jz_plan s) \<Longrightarrow> \<forall>t. rules_of (jz_plan s) t \<subseteq> rules_of (jz_plan s') t \<Longrightarrow> rules_kept c (jz_plan s')"
  unfolding rules_kept_def by blast

text \<open>Between two states, every JSON file that became imported is done: its rules and its imports.\<close>

definition covered :: "json_world \<Rightarrow> json_resolver \<Rightarrow> json_resolver \<Rightarrow> bool" where
  "covered w s s' \<longleftrightarrow>
     jz_imported s \<subseteq> jz_imported s' \<and> jz_base s' = jz_base s \<and>
     (\<forall>t. rules_of (jz_plan s) t \<subseteq> rules_of (jz_plan s') t) \<and>
     (\<forall>d c. d \<in> jz_imported s' - jz_imported s \<longrightarrow> file_extension d = ''json'' \<longrightarrow> json_file w d = Some c \<longrightarrow>
        rules_kept c (jz_plan s') \<and> imports_done w d c (jz_imported s'))"

lemma covered_refl: "covered w s s"
  by (simp add: covered_def)

lemma covered_steady: "steady s s' \<Longrightarrow> covered w s s'"
  by (simp add: covered_def steady_def)

lemma covered_trans:
  assumes a: "covered w s s'" and b: "covered w s' s''"
  shows "covered w s s''"
proof -
  have "rules_kept c (jz_plan s'') \<and> imports_done w d c (jz_imported s'')"
    if d: "d \<in> jz_imported s'' - jz_imported s" "file_extension d = ''json''" "json_file w d = Some c" for d c
  proof (cases "d \<in> jz_imported s'")
    case True
    then have "rules_kept c (jz_plan s')" "imports_done w d c (jz_imported s')" using a d unfolding covered_def by blast+
    then show ?thesis
      using b rules_kept_mono [of c s' s''] unfolding covered_def imports_done_def by blast
  next
    case False
    then show ?thesis using b d unfolding covered_def by blast
  qed
  then show ?thesis using a b unfolding covered_def by (metis subset_trans)
qed

lemma blocks_kept:
  assumes "process_anonymize_blocks (jc_anonymize c) s = Inr s'"
  shows "rules_kept c (jz_plan s')"
proof -
  have added: "\<exists>r'. json_rule_of t r = Inr r' \<and> r' \<in> rules_of (jz_plan s') t"
    if add: "add_anonymize_rules t rules sa = Inr sb" and "r \<in> set rules" and later: "steady sb s'" for t rules r sa sb
  proof -
    obtain rs where rs: "rmap (json_rule_of t) rules = Inr rs" "sb = on_plan (add_rules t rs) sa"
      using add by (auto simp: add_anonymize_rules_def rbind_Inr_iff)
    have "\<exists>r' \<in> set rs. json_rule_of t r = Inr r'"
      using rs(1) \<open>r \<in> set rules\<close> by (induction rules arbitrary: rs) (auto simp: rbind_Inr_iff)
    then obtain r' where r': "r' \<in> set rs" "json_rule_of t r = Inr r'" by blast
    then have "r' \<in> rules_of (jz_plan sb) t" by (simp add: rs(2) on_plan_def rules_add)
    then show ?thesis using later r'(2) unfolding steady_def by blast
  qed
  show ?thesis
  proof (cases "jc_anonymize c")
    case (AnonymizeMap m)
    have run: "each_enabled (\<lambda>_. None) (\<lambda>(t, rules). add_anonymize_rules t rules) m s = Inr s'"
      using assms by (simp add: process_anonymize_blocks_def AnonymizeMap)
    have "\<exists>sa sb. steady s sa \<and> add_anonymize_rules t rules sa = Inr sb \<and> steady sb s'" if "(t, rules) \<in> set m" for t rules
      using each_applied_steady [OF _ that _ run] by (auto intro: steady_add_rules)
    then show ?thesis unfolding rules_kept_def rules_asked_def AnonymizeMap by (auto, meson added)
  next
    case (AnonymizeArray bs)
    have run: "each_enabled jb_when (\<lambda>x. add_anonymize_rules (jb_table x) (jb_rules x)) bs s = Inr s'"
      using assms by (simp add: process_anonymize_blocks_def AnonymizeArray)
    have "\<exists>sa sb. steady s sa \<and> add_anonymize_rules (jb_table b) (jb_rules b) sa = Inr sb \<and> steady sb s'"
      if "b \<in> set bs" "jb_when b = None" for b
      using each_applied_steady [OF _ that run] by (auto intro: steady_add_rules)
    then show ?thesis unfolding rules_kept_def rules_asked_def AnonymizeArray by (auto, meson added)
  qed (simp add: rules_kept_def rules_asked_def)
qed

lemma statements_kept: "process_json_statements w c s = Inr s' \<Longrightarrow> rules_kept c (jz_plan s')"
  by (erule statements_split) (meson blocks_kept rules_kept_mono steady_def)

lemma covered_each:
  assumes "\<And>x s s'. x \<in> set xs \<Longrightarrow> f x s = Inr s' \<Longrightarrow> covered w s s'"
  shows "each_enabled cond f xs s = Inr s' \<Longrightarrow> covered w s s'"
  by (rule each_rel [where R = "covered w"]) (auto intro: covered_refl covered_trans assms)

text \<open>An import leaves its file imported and everything that became imported done.\<close>

lemma covered_import:
  "process_json_import n dn w path s = Inr s' \<Longrightarrow>
     covered w s s' \<and> (\<forall>e. fs_resolve (jw_files w) (jz_base s) path = Inr e \<longrightarrow> e \<in> jz_imported s')"
proof (induction n arbitrary: path s s')
  case (Suc n)
  obtain d where d: "fs_resolve (jw_files w) (jz_base s) path = Inr d"
    using Suc.prems by (cases "fs_resolve (jw_files w) (jz_base s) path") auto
  show ?case
  proof (cases "d \<in> jz_imported s")
    case True
    then show ?thesis using Suc.prems d by (simp add: covered_refl)
  next
    case new: False
    let ?s1 = "s\<lparr>jz_imported := insert d (jz_imported s)\<rparr>"
    show ?thesis
    proof (cases "file_extension d = ''json''")
      case True
      obtain c s2 s3 where c: "json_file w d = Some c"
        and imps: "each_enabled ji_when (\<lambda>i. process_json_import n dn w (ji_path i)) (jc_import c) (?s1\<lparr>jz_base := d\<rparr>) = Inr s2"
        and stm: "process_json_statements w c (collect_json_vars (jc_variable c) s2) = Inr s3"
        and s': "s' = s3\<lparr>jz_base := jz_base s\<rparr>"
        using Suc.prems d new True
        by (auto simp: Let_def rbind_Inr_iff parse_json_def json_file_def map_error_def split: sum.splits)
      have cov: "covered w (?s1\<lparr>jz_base := d\<rparr>) s2" by (rule covered_each [OF _ imps]) (use Suc.IH in blast)
      have "imports_done w d c (jz_imported s2)"
        unfolding imports_done_def
      proof (intro ballI allI impI)
        fix i e assume i: "i \<in> set (jc_import c)" "ji_when i = None" "fs_resolve (jw_files w) d (ji_path i) = Inr e"
        have "\<exists>sa sb. covered w (?s1\<lparr>jz_base := d\<rparr>) sa \<and> process_json_import n dn w (ji_path i) sa = Inr sb \<and> covered w sb s2"
          by (rule each_applied [where R = "covered w", OF covered_refl _ _ i(1,2) imps]) (use Suc.IH covered_trans in blast)+
        then obtain sa sb where "jz_base sa = d" "process_json_import n dn w (ji_path i) sa = Inr sb"
          "jz_imported sb \<subseteq> jz_imported s2" by (auto simp: covered_def)
        then show "e \<in> jz_imported s2" using Suc.IH i(3) by blast
      qed
      moreover have st: "steady s2 s3" using steady_trans [OF steady_vars steady_statements [OF stm]] .
      ultimately have here: "imports_done w d c (jz_imported s')" "rules_kept c (jz_plan s')"
        using statements_kept [OF stm] by (simp_all add: s' steady_def)
      have "covered w (?s1\<lparr>jz_base := d\<rparr>) s3" by (rule covered_trans [OF cov covered_steady [OF st]])
      then have "covered w s s'" "d \<in> jz_imported s'"
        using here c by (auto simp: covered_def s')
      then show ?thesis using d by simp
    next
      case False
      then have "\<exists>content. import_dsl dn w path d content ?s1 = Inr s'"
        using Suc.prems d new by (auto simp: Let_def rbind_Inr_iff)
      then obtain plan where "s' = on_plan (\<lambda>p. merge_plan p plan) ?s1" using import_dsl_Inr by blast
      then show ?thesis using d False by (auto simp: on_plan_def covered_def rules_merge)
    qed
  qed
qed simp

text \<open>The JSON files reached from a configuration file through unconditional imports.\<close>

inductive json_reach :: "json_world \<Rightarrow> string \<Rightarrow> string \<Rightarrow> bool" for w path where
  reach_main: "json_reach w path path"
| reach_json:
    "json_reach w path d \<Longrightarrow> json_file w d = Some c \<Longrightarrow> i \<in> set (jc_import c) \<Longrightarrow> ji_when i = None \<Longrightarrow>
       fs_resolve (jw_files w) d (ji_path i) = Inr e \<Longrightarrow> file_extension e = ''json'' \<Longrightarrow>
       fs_canonical (jw_files w) path \<noteq> Some e \<Longrightarrow> json_reach w path e"


lemma returns_each_inv:
  assumes "\<And>x s. P s \<Longrightarrow> returns (f x s)" and "\<And>x s s'. P s \<Longrightarrow> f x s = Inr s' \<Longrightarrow> P s'"
  shows "P s \<Longrightarrow> returns (each_enabled cond f xs s)"
proof (induction xs arbitrary: s)
  case (Cons x xs)
  have "returns (rbind (if on then f x s else Inr s) (each_enabled cond f xs))" for on
    using Cons assms by (cases on) (auto intro!: returns_rbind)
  then show ?case by (simp add: returns_rbind)
qed simp

lemma returns_import_dsl:
  assumes "files_in (jw_files w) F" "card F < dn"
  shows "returns (import_dsl dn w path c content s)"
proof -
  have parse: "returns (parse_dsl fs path content)" for fs
    using parse_cases by (auto simp: parse_dsl_def returns_def split: outcome.split) (metis outcome.distinct)+
  let ?r = "\<lambda>prog. resolve_with False dn (jw_files w) (jw_regex w) (jw_keys w) c prog (map_option as_string_value \<circ> jz_vars s)"
  have "returns (?r prog)" for prog
    unfolding resolve_with_def resolve_program_def by (intro returns_rbind process_file_returns [OF assms]) simp_all
  then have "returns (case ?r prog of
       Inl (RErr e) \<Rightarrow> Inl (RErr (CeParse (''Resolution error in '' @ squote # path @ squote # '': '' @ ce_display e)))
     | Inl stop \<Rightarrow> Inl stop | Inr x \<Rightarrow> Inr (on_plan (\<lambda>p. merge_plan p (rc_plan x)) s))" for prog
    by (auto simp: returns_def split: sum.split rfail.split)
  then show ?thesis unfolding import_dsl_def by (intro returns_rbind parse)
qed

lemma json_import_returns:
  assumes files: "files_in (jw_files w) F" "card F < dn"
  shows "card (F - jz_imported s) < n \<Longrightarrow> returns (process_json_import n dn w path s)"
proof (induction n arbitrary: path s)
  case (Suc n)
  show ?case
  proof (cases "fs_resolve (jw_files w) (jz_base s) path")
    case (Inr c)
    show ?thesis
    proof (cases "c \<in> jz_imported s")
      case False
      let ?s1 = "s\<lparr>jz_imported := insert c (jz_imported s)\<rparr>"
      let ?P = "\<lambda>t. insert c (jz_imported s) \<subseteq> jz_imported t"
      have less: "card (F - jz_imported t) < n" if "?P t" for t
      proof -
        have "F - jz_imported t \<subset> F - jz_imported s" using that False files Inr by (auto simp: files_in_def)
        then have "card (F - jz_imported t) < card (F - jz_imported s)"
          using files by (intro psubset_card_mono) (auto simp: files_in_def)
        then show ?thesis using Suc.prems by simp
      qed
      have more: "?P t'" if "?P t" "process_json_import n dn w p t = Inr t'" for p t t'
        using subset_trans [OF that(1)] covered_import [OF that(2)] by (simp add: covered_def)
      have imps: "returns (each_enabled ji_when (\<lambda>i. process_json_import n dn w (ji_path i)) js (?s1\<lparr>jz_base := c\<rparr>))" for js
      proof (rule returns_each_inv [where P = ?P])
        show "?P t \<Longrightarrow> returns (process_json_import n dn w (ji_path i) t)" for i t using less Suc.IH by blast
        show "?P t \<Longrightarrow> process_json_import n dn w (ji_path i) t = Inr t' \<Longrightarrow> ?P t'" for i t t' by (rule more)
      qed simp
      have "returns (parse_json w a b)" for a b by (simp add: parse_json_def)
      then show ?thesis
        using Inr False imps returns_import_dsl [OF files] by (auto simp: Let_def intro!: returns_rbind)
    qed (simp add: Inr)
  qed simp
qed simp

text \<open>C34: the resolution of a JSON configuration returns for every decoder and every finite set of
  files, also when JSON files import each other in a circle, or import \<open>.jibs\<close> files that do.\<close>

theorem json_resolves:
  assumes "files_in (jw_files w) F" "card F < fuel" "card F < dsl_fuel"
  shows "parse_json_config fuel dsl_fuel w path cli_vars \<noteq> Inl RFuel"
proof -
  have card: "card (F - X) < fuel" for X
    using assms card_mono [of F "F - X"] unfolding files_in_def by (meson Diff_subset order_le_less_trans)
  have "returns (each_enabled ji_when (\<lambda>i. process_json_import fuel dsl_fuel w (ji_path i)) js s)" for js s
    by (rule returns_each) (rule json_import_returns [OF assms(1,3) card])
  then have "returns (resolve_json fuel dsl_fuel w c s)" for c s
    unfolding resolve_json_def by (intro returns_rbind) simp_all
  then have "returns (parse_json_config fuel dsl_fuel w path cli_vars)"
    unfolding parse_json_config_def parse_json_def by (intro returns_rbind) simp_all
  then show ?thesis by (simp add: returns_def)
qed

section \<open>An example\<close>

text \<open>Two files that import each other, with rules for one table, below a configuration with a variable.\<close>

definition empty_config :: json_config where
  "empty_config =
     \<lparr>jc_variable = [], jc_import = [], jc_faker = FakerEmpty, jc_relation = [], jc_exclude = [], jc_ignore = [],
      jc_ignore_relation = [], jc_anonymize = AnonymizeEmpty, jc_aggregates = [], jc_include = [], jc_preserve = [],
      jc_set = [], jc_after = []\<rparr>"

definition ring_rule :: "string \<Rightarrow> json_anonymize_rule" where
  "ring_rule col = \<lparr>ja_column = col, ja_faker = None, ja_null = Some True\<rparr>"

definition ring_variable :: "string \<Rightarrow> string \<Rightarrow> json_variable" where
  "ring_variable name value = \<lparr>jv_name = name, jv_type = ''string'', jv_default = Some (JString value)\<rparr>"

fun ring_config :: "string \<Rightarrow> string + json_config" where
  "ring_config c =
     (if c = ''main'' then
        Inr (empty_config\<lparr>jc_variable := [ring_variable ''v'' ''x''], jc_import := [\<lparr>ji_path = ''a.json'', ji_when = None\<rparr>],
          jc_anonymize := AnonymizeMap [(''user'', [ring_rule ''name''])],
          jc_after := [\<lparr>jx_sql = ''call p({$v})'', jx_when = None\<rparr>]\<rparr>)
      else if c = ''a.json'' then
        Inr (empty_config\<lparr>jc_import := [\<lparr>ji_path = ''b.json'', ji_when = None\<rparr>],
          jc_anonymize := AnonymizeMap [(''user'', [ring_rule ''email''])]\<rparr>)
      else if c = ''b.json'' then
        Inr (empty_config\<lparr>jc_import := [\<lparr>ji_path = ''a.json'', ji_when = None\<rparr>],
          jc_anonymize := AnonymizeArray [\<lparr>jb_table = ''user'', jb_rules = [ring_rule ''phone''], jb_when = None\<rparr>]\<rparr>)
      else if c = ''late'' then
        Inr (empty_config\<lparr>jc_import := [\<lparr>ji_path = ''var.json'', ji_when = None\<rparr>]\<rparr>)
      else if c = ''var.json'' then
        Inr (empty_config\<lparr>jc_variable := [ring_variable ''v'' ''x''],
          jc_after := [\<lparr>jx_sql = ''call p({$v})'', jx_when = None\<rparr>]\<rparr>)
      else if c = ''order'' then
        Inr (empty_config\<lparr>jc_variable := [ring_variable ''v'' ''x'', ring_variable ''u'' ''{$v}'']\<rparr>)
      else Inl ''bad'')"

definition json_ring :: "(json_pending \<Rightarrow> json_pending) \<Rightarrow> json_world" where
  "json_ring ord =
     \<lparr>jw_files =
        \<lparr>fs_canonical = (\<lambda>p. Some p),
         fs_resolve = (\<lambda>base p. if p \<in> {''a.json'', ''b.json'', ''var.json''} then Inr p else Inl ''none''),
         fs_read = (\<lambda>c. Inr c), fs_render = (\<lambda>p s es. ''''), fs_order = (\<lambda>p. p)\<rparr>,
      jw_parse = ring_config, jw_alnum = (\<lambda>c. False), jw_order = ord, jw_regex = (\<lambda>r. Inr ()), jw_keys = (\<lambda>p. [])\<rparr>"

lemma ring_in: "files_in (jw_files (json_ring ord)) {''a.json'', ''b.json'', ''var.json''}"
  by (auto simp: files_in_def json_ring_def split: if_splits)

theorem json_resolves_witness:
  "parse_json_config 4 4 (json_ring (\<lambda>p. p)) ''main'' Map.empty \<noteq> Inl RFuel"
  by (rule json_resolves [OF ring_in]) simp_all

definition ring_columns :: "(rfail + execution_plan) \<Rightarrow> string list option" where
  "ring_columns r =
     (case r of Inl _ \<Rightarrow> None | Inr p \<Rightarrow> map_option (map an_column) (anonymization p ''user''))"

lemma ring_run: "ring_columns (parse_json_config 4 4 (json_ring (\<lambda>p. p)) ''main'' Map.empty) = Some [''phone'', ''email'', ''name'']"
  by code_simp


section \<open>Shortcomings\<close>

text \<open>
  While imports are processed the variables are those of the command line, as strings: a condition
  that names a variable is always an error there.
\<close>

lemma import_conditions_fail:
  assumes "starts_with (trim c) ''$'' \<or> starts_with (trim c) ''!$''"
  shows "\<exists>e. evaluate_condition_string (jz_vars (json_resolver_new fs base cli_vars)) c = Inl e"
  using assms
  by (auto simp: evaluate_condition_string_def bool_condition_def json_resolver_new_def Let_def starts_with_iff
      split: option.split)

text \<open>A variable that an imported file declares is not known to the statements of that file.\<close>

definition unknown_in :: "(rfail + execution_plan) \<Rightarrow> string option" where
  "unknown_in r = (case r of Inl (RErr (CeUndefinedVariable v)) \<Rightarrow> Some v | _ \<Rightarrow> None)"

lemma imported_variable_unknown:
  "unknown_in (parse_json_config 4 4 (json_ring (\<lambda>p. p)) ''late'' Map.empty) = Some ''v''"
  by code_simp

text \<open>A default that refers to another variable depends on the order in which a hash map is visited.\<close>

definition is_resolved :: "(rfail + execution_plan) \<Rightarrow> bool" where
  "is_resolved r = (case r of Inl _ \<Rightarrow> False | Inr _ \<Rightarrow> True)"

lemma defaults_by_hash_order:
  "is_resolved (parse_json_config 4 4 (json_ring (\<lambda>p. p)) ''order'' Map.empty) \<and>
   \<not> is_resolved (parse_json_config 4 4 (json_ring rev) ''order'' Map.empty)"
  by code_simp

text \<open>Patterns and full tables of an imported \<open>.jibs\<close> file are lost.\<close>

lemma imported_patterns_lost:
  "excluded_patterns (merge_plan p q) = excluded_patterns p \<and> ignored_patterns (merge_plan p q) = ignored_patterns p \<and>
   full_tables (merge_plan p q) = full_tables p \<and> full_patterns (merge_plan p q) = full_patterns p"
  by (simp add: merge_plan_def)

end
