(* ===== verification/JsonText.thy ===== *)
theory JsonText
  imports Json
begin

text \<open>
  Interpolation in JSON configurations against a reference: a text made of plain pieces and of
  references \<open>{$name}\<close> and \<open>$name\<close> is interpolated to the pieces with the values in the places of the
  references.
\<close>

section \<open>Texts with references\<close>

datatype piece = Plain string | Braced string | Bare string

fun render_pieces :: "piece list \<Rightarrow> string" where
  "render_pieces [] = []"
| "render_pieces (Plain t # ps) = t @ render_pieces ps"
| "render_pieces (Braced n # ps) = ''{$'' @ n @ ''}'' @ render_pieces ps"
| "render_pieces (Bare n # ps) = ''$'' @ n @ render_pieces ps"

text \<open>An unknown variable is an error in braces and stays as it is written without them.\<close>

fun expand_pieces :: "var_map \<Rightarrow> piece list \<Rightarrow> rfail + string" where
  "expand_pieces vars [] = Inr []"
| "expand_pieces vars (Plain t # ps) = rbind (expand_pieces vars ps) (\<lambda>r. Inr (t @ r))"
| "expand_pieces vars (Braced n # ps) =
     (case vars n of
        None \<Rightarrow> Inl (RErr (CeUndefinedVariable n))
      | Some v \<Rightarrow> rbind (expand_pieces vars ps) (\<lambda>r. Inr (as_string_value v @ r)))"
| "expand_pieces vars (Bare n # ps) =
     rbind (expand_pieces vars ps) (\<lambda>r.
     Inr ((case vars n of Some v \<Rightarrow> as_string_value v | None \<Rightarrow> ''$'' @ n) @ r))"

definition word_byte :: "char \<Rightarrow> bool" where
  "word_byte b \<longleftrightarrow> is_ascii_alphanumeric b \<or> b = CHR ''_''"

text \<open>The pieces can be told apart in the text: the conditions are on each piece and what follows it.\<close>

fun pieces_ok :: "(string \<Rightarrow> bool) \<Rightarrow> piece list \<Rightarrow> bool" where
  "pieces_ok alnum [] = True"
| "pieces_ok alnum (Plain t # ps) =
     (CHR ''$'' \<notin> set t \<and> \<not> (t \<noteq> [] \<and> last t = CHR ''{'' \<and> starts_with (render_pieces ps) ''$'') \<and> pieces_ok alnum ps)"
| "pieces_ok alnum (Braced n # ps) = (CHR ''}'' \<notin> set n \<and> pieces_ok alnum ps)"
| "pieces_ok alnum (Bare n # ps) =
     (n \<noteq> [] \<and> (\<forall>b \<in> set n. word_byte b) \<and> name_run alnum (render_pieces ps) = ([], render_pieces ps) \<and>
      pieces_ok alnum ps)"

lemma word_byte_ascii: "word_byte b \<Longrightarrow> of_char b < (128 :: nat)"
  by (auto simp: word_byte_def is_ascii_alphanumeric_def is_ascii_alphabetic_def is_digit_def)

lemma utf8_len_ascii: "of_char b < (128 :: nat) \<Longrightarrow> utf8_len b = 1"
  by (simp add: utf8_len_def Let_def)

lemma name_run_word: "word_byte b \<Longrightarrow> name_run alnum (b # s) = (case name_run alnum s of (n, r) \<Rightarrow> (b # n, r))"
  by (subst name_run.simps)
    (auto simp: utf8_len_ascii word_byte_ascii word_char_def word_byte_def split: prod.split)

lemma name_run_append:
  "\<forall>b \<in> set n. word_byte b \<Longrightarrow> name_run alnum r = ([], r) \<Longrightarrow> name_run alnum (n @ r) = (n, r)"
  by (induction n) (simp_all add: name_run_word)

section \<open>Interpolation meets the reference\<close>

lemma interpolate_nil: "interpolate_string alnum vars [] = Inr []"
  by (subst interpolate_string.simps) simp

lemma interpolate_plain_char:
  "c \<noteq> CHR ''$'' \<Longrightarrow> \<not> (c = CHR ''{'' \<and> starts_with s ''$'') \<Longrightarrow>
     interpolate_string alnum vars (c # s) = rbind (interpolate_string alnum vars s) (\<lambda>r. Inr (c # r))"
  by (subst interpolate_string.simps) (auto simp: Let_def)

lemma rbind_assoc: "rbind (rbind m f) g = rbind m (\<lambda>x. rbind (f x) g)"
  by (cases m) simp_all

lemma interpolate_plain:
  assumes "CHR ''$'' \<notin> set t" "\<not> (t \<noteq> [] \<and> last t = CHR ''{'' \<and> starts_with s ''$'')"
  shows "interpolate_string alnum vars (t @ s) = rbind (interpolate_string alnum vars s) (\<lambda>r. Inr (t @ r))"
  using assms
proof (induction t)
  case Nil
  then show ?case by (cases "interpolate_string alnum vars s") simp_all
next
  case (Cons c t)
  have "\<not> (c = CHR ''{'' \<and> starts_with (t @ s) ''$'')" using Cons.prems by (cases t) auto
  then have step: "interpolate_string alnum vars (c # t @ s) = rbind (interpolate_string alnum vars (t @ s)) (\<lambda>r. Inr (c # r))"
    using Cons.prems by (intro interpolate_plain_char) auto
  have "interpolate_string alnum vars (t @ s) = rbind (interpolate_string alnum vars s) (\<lambda>r. Inr (t @ r))"
    using Cons.IH Cons.prems by (cases "t = []") (cases "interpolate_string alnum vars s", auto)
  then show ?case by (simp add: step rbind_assoc)
qed

lemma takeWhile_name: "CHR ''}'' \<notin> set n \<Longrightarrow> takeWhile (\<lambda>d. d \<noteq> CHR ''}'') (n @ CHR ''}'' # r) = n"
  by (induction n) auto

lemma interpolate_braced:
  assumes "CHR ''}'' \<notin> set n"
  shows "interpolate_string alnum vars (''{$'' @ n @ ''}'' @ s) =
    (case vars n of
       None \<Rightarrow> Inl (RErr (CeUndefinedVariable n))
     | Some v \<Rightarrow> rbind (interpolate_string alnum vars s) (\<lambda>r. Inr (as_string_value v @ r)))"
  by (subst interpolate_string.simps) (simp add: Let_def takeWhile_name [OF assms] split: option.split)

lemma interpolate_bare:
  assumes "n \<noteq> []" "\<forall>b \<in> set n. word_byte b" "name_run alnum s = ([], s)"
  shows "interpolate_string alnum vars (''$'' @ n @ s) =
    rbind (interpolate_string alnum vars s) (\<lambda>r.
    Inr ((case vars n of Some v \<Rightarrow> as_string_value v | None \<Rightarrow> ''$'' @ n) @ r))"
  by (subst interpolate_string.simps) (simp add: Let_def name_run_append [OF assms(2,3)] assms(1) split: option.split)

text \<open>C35: interpolation puts the value of every variable in the place of its reference and leaves the
  rest of the text as it is; an unknown variable is an error in braces only.\<close>

theorem interpolation_expands:
  assumes "pieces_ok alnum ps"
  shows "interpolate_string alnum vars (render_pieces ps) = expand_pieces vars ps"
  using assms
proof (induction ps rule: render_pieces.induct)
  case (2 t ps)
  then show ?case using interpolate_plain [of t "render_pieces ps"] by simp
next
  case (3 n ps)
  then show ?case using interpolate_braced [of n alnum vars "render_pieces ps"] by (simp split: option.split)
next
  case (4 n ps)
  then show ?case using interpolate_bare [of n alnum "render_pieces ps" vars] by simp
qed (simp add: interpolate_nil)

theorem interpolation_expands_witness:
  "interpolate_string (\<lambda>c. False) [''db'' \<mapsto> PvString ''shop'', ''n'' \<mapsto> PvInt 5]
     (render_pieces [Plain ''use {'', Braced ''db'', Plain ''} limit '', Bare ''n'', Plain '' or '', Bare ''who'']) =
   Inr ''use {shop} limit 5 or $who''"
proof -
  let ?ps = "[Plain ''use {'', Braced ''db'', Plain ''} limit '', Bare ''n'', Plain '' or '', Bare ''who'']"
  let ?vars = "[''db'' \<mapsto> PvString ''shop'', ''n'' \<mapsto> PvInt 5]"
  have "pieces_ok (\<lambda>c. False) ?ps" by code_simp
  moreover have "expand_pieces ?vars ?ps = Inr ''use {shop} limit 5 or $who''" by code_simp
  ultimately show ?thesis using interpolation_expands [of "\<lambda>c. False" ?ps ?vars] by simp
qed

end
