(* ===== verification/Get.thy ===== *)
theory Get
  imports Resolver Tsv Constraints
begin

text \<open>
  The \<open>get\<close> command (\<open>apply_get_invocations\<close> of \<open>crates/client/src/import.rs\<close>): the functions of a
  configuration that the command line calls replace the aggregates of its plan.  The order in
  which the parameters of a call, a hash map, are visited is a parameter.
\<close>

section \<open>Invocations\<close>

record get_invocation =
  gi_func :: string
  gi_args :: "string \<rightharpoonup> string"

fun type_debug :: "var_type \<Rightarrow> string" where
  "type_debug VString = ''String''"
| "type_debug VStringArray = ''StringArray''"
| "type_debug VInt = ''Int''"
| "type_debug VIntArray = ''IntArray''"
| "type_debug VFloat = ''Float''"
| "type_debug VFloatArray = ''FloatArray''"
| "type_debug VBool = ''Bool''"
| "type_debug VBoolArray = ''BoolArray''"

definition find_get_function :: "resolved_get_function list \<Rightarrow> string \<Rightarrow> string + resolved_get_function" where
  "find_get_function gets name =
     (case find (\<lambda>f. rg_name f = name) gets of
        Some f \<Rightarrow> Inr f
      | None \<Rightarrow>
          Inl (''Get function '' @ squote # name @ squote # '' not found in config. Available get functions: '' @
            (if gets = [] then ''(none)'' else join '', '' (map rg_name gets))))"

fun resolve_params ::
  "get_invocation \<Rightarrow> resolved_param list \<Rightarrow> (string \<rightharpoonup> string) \<Rightarrow> string + (string \<rightharpoonup> string)" where
  "resolve_params iv [] resolved = Inr resolved"
| "resolve_params iv (p # ps) resolved =
     (case gi_args iv (rp_name p) of
        Some cli_value \<Rightarrow> resolve_params iv ps (resolved(rp_name p \<mapsto> cli_value))
      | None \<Rightarrow>
          (case rp_default p of
             Some d \<Rightarrow> resolve_params iv ps (resolved(rp_name p \<mapsto> as_string_value d))
           | None \<Rightarrow>
               Inl (''Get function '' @ squote # gi_func iv @ squote # '' requires parameter '' @ squote # ''--'' @
                 rp_name p @ squote # '' (type: '' @ type_debug (rp_type p) @ '')'')))"

definition find_base :: "execution_plan \<Rightarrow> resolved_get_function \<Rightarrow> string + resolved_aggregate" where
  "find_base plan func =
     (case find (\<lambda>a. ra_name a = rg_aggregate func) (aggregates plan) of
        Some a \<Rightarrow> Inr a
      | None \<Rightarrow>
          Inl (''Get function '' @ squote # rg_name func @ squote # '' references aggregate '' @ squote #
            rg_aggregate func @ squote # '' which was not found''))"

text \<open>Parameters are put into the template one after the other.\<close>

definition placeholder :: "string \<Rightarrow> string" where
  "placeholder n = ''{'' @ n @ ''}''"

definition fill_param :: "(string \<rightharpoonup> string) \<Rightarrow> string \<Rightarrow> string \<Rightarrow> string" where
  "fill_param params n text = replace_all (placeholder n) (the (params n)) text"

definition fill_template :: "string order \<Rightarrow> (string \<rightharpoonup> string) \<Rightarrow> string \<Rightarrow> string" where
  "fill_template ord params template = fold (fill_param params) (ord (dom params)) template"

definition override_limit ::
  "(string \<rightharpoonup> string) \<Rightarrow> limit_override option \<Rightarrow> i64 option \<Rightarrow> string + i64 option" where
  "override_limit params limit old =
     (case limit of
        None \<Rightarrow> Inr old
      | Some (LoConcrete n) \<Rightarrow> Inr (Some n)
      | Some (LoParam p) \<Rightarrow>
          (case params p of
             None \<Rightarrow> Inl (''Limit references parameter '' @ squote # p @ squote # '' which was not resolved'')
           | Some v \<Rightarrow>
               (case parse_i64 v of
                  Some n \<Rightarrow> Inr (Some n)
                | None \<Rightarrow>
                    Inl (''Parameter '' @ squote # p @ squote # '' value '' @ squote # v @ squote #
                      '' is not a valid integer for limit''))))"

definition override_aggregate ::
  "string order \<Rightarrow> resolved_get_function \<Rightarrow> nat \<Rightarrow> (string \<rightharpoonup> string) \<Rightarrow> resolved_aggregate \<Rightarrow>
     string + resolved_aggregate" where
  "override_aggregate ord func idx params base =
     rbind (override_limit params (rg_limit func) (ra_limit base)) (\<lambda>limit.
     Inr (base\<lparr>
       ra_name := rg_name func @ ''_'' @ nat_string idx,
       ra_where := (case rg_where func of Some t \<Rightarrow> Some (fill_template ord params t) | None \<Rightarrow> ra_where base),
       ra_order_by := (case rg_order_by func of Some c \<Rightarrow> Some c | None \<Rightarrow> ra_order_by base),
       ra_direction := (case rg_direction func of Some d \<Rightarrow> Some d | None \<Rightarrow> ra_direction base),
       ra_limit := limit,
       ra_exclude_tables := (if rg_exclude_tables func \<noteq> [] then rg_exclude_tables func else ra_exclude_tables base),
       ra_exclude_patterns :=
         (if rg_exclude_patterns func \<noteq> [] then rg_exclude_patterns func else ra_exclude_patterns base),
       ra_root_only := (case rg_root_only func of Some b \<Rightarrow> b | None \<Rightarrow> ra_root_only base)\<rparr>))"

definition apply_invocation ::
  "string order \<Rightarrow> execution_plan \<Rightarrow> resolved_get_function list \<Rightarrow> nat \<Rightarrow> get_invocation \<Rightarrow> string + resolved_aggregate" where
  "apply_invocation ord plan gets idx iv =
     rbind (find_get_function gets (gi_func iv)) (\<lambda>func.
     rbind (resolve_params iv (rg_params func) Map.empty) (\<lambda>params.
     rbind (find_base plan func) (\<lambda>base.
     override_aggregate ord func idx params base)))"

fun apply_invocations ::
  "string order \<Rightarrow> execution_plan \<Rightarrow> resolved_get_function list \<Rightarrow> nat \<Rightarrow> get_invocation list \<Rightarrow>
     string + resolved_aggregate list" where
  "apply_invocations ord plan gets idx [] = Inr []"
| "apply_invocations ord plan gets idx (iv # invs) =
     rbind (apply_invocation ord plan gets idx iv) (\<lambda>a.
     rbind (apply_invocations ord plan gets (Suc idx) invs) (\<lambda>rest. Inr (a # rest)))"

definition apply_get_invocations ::
  "string order \<Rightarrow> execution_plan \<Rightarrow> resolved_get_function list \<Rightarrow> get_invocation list \<Rightarrow> string + execution_plan" where
  "apply_get_invocations ord plan gets invs =
     rbind (apply_invocations ord plan gets 0 invs) (\<lambda>aggs.
     Inr (plan\<lparr>aggregates := aggs, aggregates_only := True, preserves := [], sets := [], after_statements := []\<rparr>))"

section \<open>The plan of a call\<close>

text \<open>What one call makes of the aggregate it is based on.\<close>

definition answers_call ::
  "execution_plan \<Rightarrow> resolved_get_function list \<Rightarrow> nat \<Rightarrow> get_invocation \<Rightarrow> resolved_aggregate \<Rightarrow> bool" where
  "answers_call plan gets idx iv a \<longleftrightarrow>
     (\<exists>f \<in> set gets. \<exists>base \<in> set (aggregates plan).
        rg_name f = gi_func iv \<and> ra_name base = rg_aggregate f \<and>
        ra_name a = rg_name f @ ''_'' @ nat_string idx \<and> ra_root_table a = ra_root_table base \<and>
        (rg_where f = None \<longrightarrow> ra_where a = ra_where base) \<and> (rg_limit f = None \<longrightarrow> ra_limit a = ra_limit base))"

lemma find_sound: "find P xs = Some x \<Longrightarrow> x \<in> set xs \<and> P x"
  by (auto simp: find_Some_iff)

lemma apply_invocation_answers:
  "apply_invocation ord plan gets idx iv = Inr a \<Longrightarrow> answers_call plan gets idx iv a"
proof -
  assume "apply_invocation ord plan gets idx iv = Inr a"
  then obtain f params base where f: "find_get_function gets (gi_func iv) = Inr f" and base: "find_base plan f = Inr base"
    and a: "override_aggregate ord f idx params base = Inr a"
    by (auto simp: apply_invocation_def rbind_Inr_iff)
  have "f \<in> set gets" "rg_name f = gi_func iv"
    using f find_sound [of "\<lambda>g. rg_name g = gi_func iv" gets f] by (auto simp: find_get_function_def split: option.splits)
  moreover have "base \<in> set (aggregates plan)" "ra_name base = rg_aggregate f"
    using base find_sound [of "\<lambda>b. ra_name b = rg_aggregate f" "aggregates plan" base] by (auto simp: find_base_def split: option.splits)
  moreover have "ra_name a = rg_name f @ ''_'' @ nat_string idx" "ra_root_table a = ra_root_table base"
    "rg_where f = None \<longrightarrow> ra_where a = ra_where base" "rg_limit f = None \<longrightarrow> ra_limit a = ra_limit base"
    using a by (auto simp: override_aggregate_def override_limit_def rbind_Inr_iff)
  ultimately show ?thesis unfolding answers_call_def by (intro bexI [of _ f] bexI [of _ base] conjI)
qed

lemma apply_invocations_answer:
  "apply_invocations ord plan gets idx invs = Inr aggs \<Longrightarrow>
     length aggs = length invs \<and> (\<forall>i < length invs. answers_call plan gets (idx + i) (invs ! i) (aggs ! i))"
proof (induction invs arbitrary: idx aggs)
  case (Cons iv invs)
  obtain a rest where a: "apply_invocation ord plan gets idx iv = Inr a" "aggs = a # rest"
    and r: "apply_invocations ord plan gets (Suc idx) invs = Inr rest"
    using Cons.prems by (auto simp: rbind_Inr_iff)
  show ?case
    using Cons.IH [OF r] apply_invocation_answers [OF a(1)] by (auto simp: a(2) nth_Cons split: nat.split)
qed simp

text \<open>C37: the plan of a \<open>get\<close> command is the plan of the configuration, anonymization and fakers
  included, with one aggregate for each call and without post-processing; each aggregate starts
  from the one its function names.\<close>

theorem get_plan:
  assumes "apply_get_invocations ord plan gets invs = Inr plan'"
  shows "anonymization plan' = anonymization plan \<and> fakers plan' = fakers plan \<and>
    plan' = plan\<lparr>aggregates := aggregates plan', aggregates_only := True, preserves := [], sets := [], after_statements := []\<rparr> \<and>
    length (aggregates plan') = length invs \<and>
    (\<forall>i < length invs. answers_call plan gets i (invs ! i) (aggregates plan' ! i))"
proof -
  obtain aggs where aggs: "apply_invocations ord plan gets 0 invs = Inr aggs"
    and plan': "plan' = plan\<lparr>aggregates := aggs, aggregates_only := True, preserves := [], sets := [], after_statements := []\<rparr>"
    using assms by (auto simp: apply_get_invocations_def rbind_Inr_iff)
  show ?thesis using apply_invocations_answer [OF aggs] by (simp add: plan')
qed

section \<open>Templates\<close>

datatype template_piece = TText string | TParam string

fun render_template :: "template_piece list \<Rightarrow> string" where
  "render_template [] = []"
| "render_template (TText t # ps) = t @ render_template ps"
| "render_template (TParam n # ps) = placeholder n @ render_template ps"

text \<open>All parameters at once; what is not a parameter stays.\<close>

definition piece_value :: "(string \<rightharpoonup> string) \<Rightarrow> template_piece \<Rightarrow> string" where
  "piece_value params p =
     (case p of TText t \<Rightarrow> t | TParam n \<Rightarrow> (case params n of Some v \<Rightarrow> v | None \<Rightarrow> placeholder n))"

definition template_ok :: "template_piece list \<Rightarrow> bool" where
  "template_ok ps \<longleftrightarrow>
     (\<forall>p \<in> set ps. case p of TText t \<Rightarrow> CHR ''{'' \<notin> set t | TParam n \<Rightarrow> CHR ''{'' \<notin> set n \<and> CHR ''}'' \<notin> set n)"

definition put_param :: "(string \<rightharpoonup> string) \<Rightarrow> string \<Rightarrow> template_piece \<Rightarrow> template_piece" where
  "put_param params n p = (if p = TParam n then TText (the (params n)) else p)"

definition put_params :: "(string \<rightharpoonup> string) \<Rightarrow> string set \<Rightarrow> template_piece \<Rightarrow> template_piece" where
  "put_params params S p =
     (case p of TText t \<Rightarrow> TText t | TParam n \<Rightarrow> if n \<in> S then TText (the (params n)) else TParam n)"

lemma put_param_simps:
  "put_param params n (TText t) = TText t"
  "put_param params n (TParam m) = (if m = n then TText (the (params n)) else TParam m)"
  by (simp_all add: put_param_def)

lemma put_params_rules:
  "put_params params {} p = p" "put_params params S (put_param params n p) = put_params params (insert n S) p"
  by (cases p; simp add: put_params_def put_param_simps)+

lemma replace_all_Cons:
  assumes "p \<noteq> []"
  shows "replace_all p r (c # s) =
    (if starts_with (c # s) p then r @ replace_all p r (drop (length p) (c # s)) else c # replace_all p r s)"
proof (cases "starts_with (c # s) p")
  case True
  then show ?thesis using assms by (subst replace_all.simps) simp
next
  case False
  show ?thesis
  proof (cases "find_sub p s")
    case None
    then show ?thesis using False by (simp add: replace_all_none)
  next
    case (Some n)
    then show ?thesis using False assms by (simp add: replace_all_some [where n = "Suc n"] replace_all_some [where n = n])
  qed
qed

lemma replace_text:
  assumes "c \<notin> set t"
  shows "replace_all (c # p) r (t @ s) = t @ replace_all (c # p) r s"
  using assms by (induction t) (auto simp: replace_all_Cons)

lemma starts_at_placeholder:
  assumes "CHR ''}'' \<notin> set n" "CHR ''}'' \<notin> set m"
  shows "starts_with (m @ CHR ''}'' # s) (n @ ''}'') \<longleftrightarrow> m = n"
  using assms
proof (induction n arbitrary: m)
  case Nil
  then show ?case by (cases m) auto
next
  case (Cons c n)
  then show ?case by (cases m) auto
qed

lemma fill_pieces:
  assumes "template_ok ps" "CHR ''}'' \<notin> set n"
  shows "fill_param params n (render_template ps) = render_template (map (put_param params n) ps)"
  using assms(1)
proof (induction ps rule: render_template.induct)
  case 1
  then show ?case by (simp add: fill_param_def placeholder_def replace_all_none)
next
  case (2 t ps)
  then show ?case
    using replace_text [of "CHR ''{''" t] by (simp add: fill_param_def placeholder_def template_ok_def put_param_simps)
next
  case (3 m ps)
  have ih: "replace_all (CHR ''{'' # n @ ''}'') (the (params n)) (render_template ps) =
      render_template (map (put_param params n) ps)"
    using 3 by (simp add: fill_param_def placeholder_def template_ok_def)
  have m: "CHR ''{'' \<notin> set (m @ ''}'')" "CHR ''}'' \<notin> set m" using 3 by (auto simp: template_ok_def)
  show ?case
    using starts_at_placeholder [OF assms(2) m(2), of "render_template ps"] ih
      replace_text [OF m(1), of "n @ ''}''" "the (params n)" "render_template ps"]
    by (auto simp: fill_param_def placeholder_def put_param_simps replace_all_Cons)
qed

lemma fill_all:
  assumes "template_ok ps" "\<forall>n \<in> set L. CHR ''}'' \<notin> set n \<and> CHR ''{'' \<notin> set (the (params n))"
  shows "fold (fill_param params) L (render_template ps) = render_template (map (put_params params (set L)) ps)"
  using assms
proof (induction L arbitrary: ps)
  case Nil
  have "map (put_params params {}) ps = ps" by (simp add: put_params_rules(1) map_idI)
  then show ?case by simp
next
  case (Cons n L)
  have ok: "template_ok (map (put_param params n) ps)"
    using Cons.prems by (auto simp: template_ok_def put_param_def)
  have "fold (fill_param params) (n # L) (render_template ps) = fold (fill_param params) L (render_template (map (put_param params n) ps))"
    using Cons.prems by (simp add: fill_pieces)
  also have "\<dots> = render_template (map (put_params params (set L)) (map (put_param params n) ps))"
    using Cons.IH [OF ok] Cons.prems(2) by simp
  also have "map (put_params params (set L)) (map (put_param params n) ps) = map (put_params params (set (n # L))) ps"
    by (simp add: put_params_rules(2))
  finally show ?case .
qed

text \<open>C38: parameters are put in place of their names as if all at once, in whatever order they are visited,
  when no value brings a brace of its own.\<close>

theorem template_filled:
  assumes "template_ok ps" "enumerates ord" "finite (dom params)"
    and "\<forall>n v. params n = Some v \<longrightarrow> CHR ''}'' \<notin> set n \<and> CHR ''{'' \<notin> set v"
  shows "fill_template ord params (render_template ps) = concat (map (piece_value params) ps)"
proof -
  have dom: "set (ord (dom params)) = dom params" using assms(2,3) by (simp add: enumerates_def)
  have L: "\<forall>n \<in> set (ord (dom params)). CHR ''}'' \<notin> set n \<and> CHR ''{'' \<notin> set (the (params n))"
    using assms(4) by (auto simp: dom)
  have "render_template (map (put_params params (dom params)) ps) = concat (map (piece_value params) ps)"
  proof (induction ps)
    case (Cons p ps)
    have "render_template [put_params params (dom params) p] = piece_value params p"
      by (cases p) (auto simp: piece_value_def put_params_def split: option.split)
    moreover have "render_template (q # qs) = render_template [q] @ render_template qs" for q qs
      by (cases q) simp_all
    from this [of "put_params params (dom params) p"]
    have "render_template (map (put_params params (dom params)) (p # ps)) =
        render_template [put_params params (dom params) p] @ render_template (map (put_params params (dom params)) ps)"
      by (metis list.simps(9))
    ultimately show ?case using Cons by (metis concat.simps(2) list.simps(9))
  qed simp
  then show ?thesis using fill_all [OF assms(1) L] by (simp add: fill_template_def dom)
qed

section \<open>An example\<close>

definition order_aggregate :: resolved_aggregate where
  "order_aggregate =
     \<lparr>ra_name = ''orders'', ra_root_table = ''sales_order'', ra_where = Some ''state = 1'', ra_order_by = None,
      ra_direction = None, ra_limit = Some 50, ra_exclude_tables = [], ra_exclude_patterns = [], ra_root_only = False\<rparr>"

definition order_function :: resolved_get_function where
  "order_function =
     \<lparr>rg_name = ''order'', rg_params =
        [\<lparr>rp_name = ''id'', rp_type = VInt, rp_default = None\<rparr>,
         \<lparr>rp_name = ''n'', rp_type = VInt, rp_default = Some (PvInt 3)\<rparr>],
      rg_aggregate = ''orders'', rg_where = Some ''entity_id = {id}'', rg_order_by = None, rg_direction = None,
      rg_limit = Some (LoParam ''n''), rg_exclude_tables = [], rg_exclude_patterns = [], rg_root_only = Some True\<rparr>"

definition order_plan :: execution_plan where
  "order_plan = empty_plan\<lparr>aggregates := [order_aggregate], after_statements := [''call p()''],
     anonymization := [''sales_order'' \<mapsto> [\<lparr>an_column = ''email'', an_target = ToNull\<rparr>]]\<rparr>"

definition order_call :: get_invocation where
  "order_call = \<lparr>gi_func = ''order'', gi_args = [''id'' \<mapsto> ''42'']\<rparr>"

lemma order_id_first: "sorted_list_of_set {''id'', ''n''} = [''id'', ''n'']"
  by (simp add: sorted_list_of_set_insert_remove insort_key.simps)

lemma order_result:
  "apply_get_invocations sorted_list_of_set order_plan [order_function] [order_call] =
     Inr (order_plan\<lparr>aggregates := [order_aggregate\<lparr>ra_name := ''order_0'', ra_where := Some ''entity_id = 42'',
       ra_limit := Some 3, ra_root_only := True\<rparr>], aggregates_only := True, after_statements := []\<rparr>)"
proof -
  let ?ps = "[''id'' \<mapsto> ''42'', ''n'' \<mapsto> ''3'']"
  have params: "resolve_params order_call (rg_params order_function) Map.empty = Inr ?ps"
  proof -
    have "as_string_value (PvInt 3) = ''3''" by code_simp
    then show ?thesis by (simp add: order_call_def order_function_def)
  qed
  have fill: "fill_template sorted_list_of_set ?ps ''entity_id = {id}'' = ''entity_id = 42''"
  proof -
    have "dom ?ps = {''id'', ''n''}" by auto
    moreover have "fold (fill_param ?ps) [''id'', ''n''] ''entity_id = {id}'' = ''entity_id = 42''" by code_simp
    ultimately show ?thesis by (simp only: fill_template_def order_id_first)
  qed
  have three: "parse_i64 ''3'' = Some 3"
    by (simp add: parse_i64_def parse_nat_def is_digit_def digit_val_def)
  have name: "''order'' @ ''_'' @ nat_string 0 = ''order_0''" by code_simp
  have find: "find_get_function [order_function] (gi_func order_call) = Inr order_function"
    "find_base order_plan order_function = Inr order_aggregate"
    by code_simp+
  have over: "override_aggregate sorted_list_of_set order_function 0 ?ps order_aggregate =
      Inr (order_aggregate\<lparr>ra_name := ''order_0'', ra_where := Some ''entity_id = 42'', ra_limit := Some 3, ra_root_only := True\<rparr>)"
    using fill name by (simp add: override_aggregate_def override_limit_def order_function_def order_aggregate_def three)
  have "apply_invocations sorted_list_of_set order_plan [order_function] 0 [order_call] =
      Inr [order_aggregate\<lparr>ra_name := ''order_0'', ra_where := Some ''entity_id = 42'', ra_limit := Some 3, ra_root_only := True\<rparr>]"
    by (simp add: apply_invocation_def find params over)
  then show ?thesis by (simp add: apply_get_invocations_def order_plan_def empty_plan_def)
qed

theorem get_plan_witness:
  "\<exists>plan'. apply_get_invocations sorted_list_of_set order_plan [order_function] [order_call] = Inr plan' \<and>
     anonymization plan' = anonymization order_plan \<and> length (aggregates plan') = 1"
  using get_plan [OF order_result] order_result by simp

theorem template_filled_witness:
  "fill_template sorted_list_of_set [''a'' \<mapsto> ''1'', ''b'' \<mapsto> ''x''] ''x = {a} and y = {b} or {c}'' = ''x = 1 and y = x or {c}''"
proof -
  let ?ps = "[TText ''x = '', TParam ''a'', TText '' and y = '', TParam ''b'', TText '' or '', TParam ''c'']"
  have "fill_template sorted_list_of_set [''a'' \<mapsto> ''1'', ''b'' \<mapsto> ''x''] (render_template ?ps) =
      concat (map (piece_value [''a'' \<mapsto> ''1'', ''b'' \<mapsto> ''x'']) ?ps)"
    by (rule template_filled) (auto simp: template_ok_def enumerates_sorted split: if_splits)
  then show ?thesis by (simp add: placeholder_def piece_value_def)
qed

text \<open>A value with a brace of its own is replaced further or not, as the order of the map has it.\<close>

lemma braces_by_hash_order:
  "fold (fill_param [''a'' \<mapsto> ''{b}'', ''b'' \<mapsto> ''1'']) [''a'', ''b''] ''{a}'' = ''1'' \<and>
   fold (fill_param [''a'' \<mapsto> ''{b}'', ''b'' \<mapsto> ''1'']) [''b'', ''a''] ''{a}'' = ''{b}''"
  by code_simp

end
