(* ===== verification/RunImport.thy ===== *)
theory RunImport
  imports Get Import Pool Export Json
begin

text \<open>
  A run of the client (\<open>run_import\<close> of \<open>crates/client/src/import.rs\<close>): the plan from the
  configuration, the server binary on the remote host, the check for the state an interrupted run
  left, and the phases around the import protocol.

  SSH is a parameter: what a remote command answers, whether an upload works, whether the process
  starts.  So are the decoder of variable files, the hash of a binary and the answers of the
  database.  Logging and reports on the terminal are not modelled.
\<close>

section \<open>The plan\<close>

datatype run_stop = RunError string | RunStop rfail

definition stopped_with :: "string \<Rightarrow> rfail + 'a \<Rightarrow> run_stop + 'a" where
  "stopped_with what r =
     map_error (\<lambda>f. case f of RErr e \<Rightarrow> RunError (what @ '': '' @ ce_display e) | _ \<Rightarrow> RunStop f) r"

record import_config =
  ic_config_path :: "string option"
  ic_remote_mysql :: string
  ic_local_mysql :: string
  ic_vars :: "string \<rightharpoonup> string"
  ic_var_file :: "string option"
  ic_resume :: bool
  ic_clean :: bool
  ic_dry_run :: bool
  ic_dump_to :: "string option"
  ic_parallel :: nat
  ic_client_parallel :: "nat option"
  ic_compression :: compression_mode
  ic_get :: "get_invocation list option"
  ic_collect_metrics :: bool
  ic_fail_after :: "nat option"

record plan_world =
  pw_json :: json_world
  pw_fuel :: nat
  pw_dsl_fuel :: nat
  pw_vars :: "string \<Rightarrow> string + (string \<times> json) list"
  pw_text :: "json \<Rightarrow> string"
  pw_order :: "string order"

text \<open>Variables of the command line win over those of the variable file.\<close>

definition var_text :: "(json \<Rightarrow> string) \<Rightarrow> json \<Rightarrow> string" where
  "var_text render v = (case v of JString s \<Rightarrow> s | _ \<Rightarrow> render v)"

definition or_insert_var :: "(json \<Rightarrow> string) \<Rightarrow> string \<times> json \<Rightarrow> (string \<rightharpoonup> string) \<Rightarrow> string \<rightharpoonup> string" where
  "or_insert_var render e vars =
     (case vars (fst e) of Some _ \<Rightarrow> vars | None \<Rightarrow> vars(fst e \<mapsto> var_text render (snd e)))"

definition load_vars :: "plan_world \<Rightarrow> 'c import_config_scheme \<Rightarrow> run_stop + (string \<rightharpoonup> string)" where
  "load_vars w cfg =
     (case ic_var_file cfg of
        None \<Rightarrow> Inr (ic_vars cfg)
      | Some path \<Rightarrow>
          rbind (map_error RunError (fs_read (jw_files (pw_json w)) path)) (\<lambda>content.
          rbind (map_error RunError (pw_vars w content)) (\<lambda>file_vars.
          Inr (fold (or_insert_var (pw_text w)) file_vars (ic_vars cfg)))))"

definition load_dsl ::
  "plan_world \<Rightarrow> string \<Rightarrow> (string \<rightharpoonup> string) \<Rightarrow> run_stop + execution_plan \<times> resolved_get_function list" where
  "load_dsl w path vars =
     (let fs = jw_files (pw_json w) in
      rbind (map_error RunError (fs_read fs path)) (\<lambda>source.
      case parse source of
        Fail errors \<Rightarrow>
          Inl (RunError (nat_string (length errors) @ '' parse error'' @ (if length errors = 1 then '''' else ''s'') @
            '' in '' @ path @ '':'' @ newline # fs_render fs path source errors))
      | NoFuel \<Rightarrow> Inl (RunStop RFuel)
      | Done prog \<Rightarrow>
          rbind (stopped_with ''Resolution failed''
            (resolve_with False (pw_dsl_fuel w) fs (jw_regex (pw_json w)) (jw_keys (pw_json w)) path prog vars)) (\<lambda>c.
          Inr (rc_plan c, rc_gets c))))"

definition load_plan :: "plan_world \<Rightarrow> 'c import_config_scheme \<Rightarrow> run_stop + execution_plan \<times> resolved_get_function list" where
  "load_plan w cfg =
     (case ic_config_path cfg of
        None \<Rightarrow> Inr (empty_plan, [])
      | Some path \<Rightarrow>
          rbind (load_vars w cfg) (\<lambda>vars.
          if file_extension path = ''json'' then
            rbind (stopped_with ''JSON config error''
              (parse_json_config (pw_fuel w) (pw_dsl_fuel w) (pw_json w) path vars)) (\<lambda>plan. Inr (plan, []))
          else load_dsl w path vars))"

definition run_plan :: "plan_world \<Rightarrow> 'c import_config_scheme \<Rightarrow> run_stop + execution_plan" where
  "run_plan w cfg =
     rbind (load_plan w cfg) (\<lambda>(plan, gets).
     case ic_get cfg of
       None \<Rightarrow> Inr plan
     | Some invocations \<Rightarrow> map_error RunError (apply_get_invocations (pw_order w) plan gets invocations))"

section \<open>The server binary\<close>

record binaries =
  bn_x86_64 :: bytes
  bn_aarch64 :: bytes

definition get_server_binary :: "binaries \<Rightarrow> string \<Rightarrow> bytes option" where
  "get_server_binary b arch =
     (if arch = ''x86_64'' then (if bn_x86_64 b = [] then None else Some (bn_x86_64 b))
      else if arch = ''aarch64'' then (if bn_aarch64 b = [] then None else Some (bn_aarch64 b))
      else None)"

definition available_architectures :: "binaries \<Rightarrow> string list" where
  "available_architectures b =
     (if bn_x86_64 b = [] then [] else [''x86_64'']) @ (if bn_aarch64 b = [] then [] else [''aarch64''])"

record remote_host =
  rh_exec :: "string \<Rightarrow> string + int \<times> string"
  rh_upload :: "bytes \<Rightarrow> string \<Rightarrow> string + unit"
  rh_hash :: "bytes \<Rightarrow> string"

definition get_server_path :: "remote_host \<Rightarrow> bytes \<Rightarrow> string" where
  "get_server_path r binary = ''/tmp/jibs-'' @ take 16 (rh_hash r binary)"

definition no_server_text :: "binaries \<Rightarrow> string \<Rightarrow> string" where
  "no_server_text b arch =
     (let available = available_architectures b in
      if available = [] then
        ''No embedded server binary available and jibs-server not found on remote host.'' @ newline #
        ''Build the server for Linux with:'' @ newline #
        ''  cross build -p jibs_server --release --target x86_64-unknown-linux-musl'' @ newline #
        ''Then rebuild the client to embed it.''
      else
        ''No server binary for architecture '' @ squote # arch @ squote # ''. Available: ['' @
        join '', '' (map (\<lambda>a. dquote # a @ [dquote]) available) @ '']'' @ newline #
        ''jibs-server also not found on remote host.'')"

text \<open>The result and what was uploaded.\<close>

definition deploy_server ::
  "binaries \<Rightarrow> remote_host \<Rightarrow> (string + string) \<times> (bytes \<times> string) list" where
  "deploy_server b r =
     (case rh_exec r ''uname -m'' of
        Inl e \<Rightarrow> (Inl (''Failed to detect architecture: '' @ e), [])
      | Inr (code, output) \<Rightarrow>
          if code \<noteq> 0 then (Inl ''Failed to detect remote architecture'', [])
          else
            (let arch = trim output in
             case get_server_binary b arch of
               None \<Rightarrow> (Inl (no_server_text b arch), [])
             | Some binary \<Rightarrow>
                 (let path = get_server_path r binary in
                  case rh_exec r (''test -x '' @ path) of
                    Inl e \<Rightarrow> (Inl (''Failed to check for server: '' @ e), [])
                  | Inr (code', _) \<Rightarrow>
                      if code' = 0 then (Inr path, [])
                      else
                        (case rh_upload r binary path of
                           Inl e \<Rightarrow> (Inl (''Failed to upload server: '' @ e), [])
                         | Inr _ \<Rightarrow> (Inr path, [(binary, path)])))))"

section \<open>State of an interrupted run\<close>

definition state_hint :: "'c import_config_scheme \<Rightarrow> string" where
  "state_hint cfg =
     (if ic_get cfg \<noteq> None then
        ''Use '' @ [CHR ''`''] @ ''jibs import --resume'' @ [CHR ''`''] @
        '' to finish the interrupted import first, or'' @ newline #
        ''pass --clean to discard the state (this deletes any preserved rows'' @ newline #
        ''that only exist in the backup tables).''
      else
        ''Use --resume to continue the interrupted import, or'' @ newline #
        ''Use --clean to discard the state and start fresh.'')"

definition found_state :: "'c import_config_scheme \<Rightarrow> string list \<Rightarrow> nat option \<Rightarrow> string" where
  "found_state cfg backups completed =
     ''Found state from a previous interrupted import:'' @ newline # ''  '' @
     join (newline # ''  '')
       ((if backups = [] then [] else [''backup tables: '' @ join '', '' backups]) @
        (case completed of None \<Rightarrow> [] | Some n \<Rightarrow> [''checkpoint ('' @ nat_string n @ '' tables completed)''])) @
     newline # newline # state_hint cfg"

definition refuse_state :: "database \<Rightarrow> 'c import_config_scheme \<Rightarrow> string list \<Rightarrow> bool \<Rightarrow> (statement list, unit) cstep" where
  "refuse_state db cfg backups has_checkpoint =
     cbind (if has_checkpoint then cbind (get_completed db) (\<lambda>c. cret (Some (card c))) else cret None) (\<lambda>completed.
     clift (Inl (found_state cfg backups completed)))"

definition check_previous_state :: "database \<Rightarrow> 'c import_config_scheme \<Rightarrow> (statement list, unit) cstep" where
  "check_previous_state db cfg =
     cbind (find_backup_tables db) (\<lambda>backups.
     cbind (checkpoint_exists db) (\<lambda>has_checkpoint.
     if backups = [] \<and> \<not> has_checkpoint then cret ()
     else if ic_clean cfg then
       cbind (ceach (\<lambda>t. query_drop db (drop_sql t)) backups) (\<lambda>_. checkpoint_cleanup db)
     else if \<not> ic_resume cfg then refuse_state db cfg backups has_checkpoint
     else cbind (get_completed db) (\<lambda>_. cret ())))"

section \<open>The phases of an import\<close>

definition disable_checks :: "database \<Rightarrow> (statement list, unit) cstep" where
  "disable_checks db =
     ceach (query_drop db) [''SET FOREIGN_KEY_CHECKS = 0'', ''SET UNIQUE_CHECKS = 0'',
       ''SET SQL_MODE = '' @ squote # ''NO_AUTO_VALUE_ON_ZERO'' @ [squote]]"

definition enable_sqls :: "string list" where
  "enable_sqls = [''SET FOREIGN_KEY_CHECKS = 1'', ''SET UNIQUE_CHECKS = 1'']"

definition enable_checks :: "database \<Rightarrow> (statement list, unit) cstep" where
  "enable_checks db = ceach (try_query db) enable_sqls"

definition finish_foreign_keys ::
  "database \<Rightarrow> (string \<times> string) order \<Rightarrow> foreign_key_def list \<Rightarrow> (statement list, unit) cstep" where
  "finish_foreign_keys db ord fks =
     (if fks = [] then restore_foreign_keys db ord
      else cbind (apply_foreign_keys db fks) (\<lambda>_. discard_preserved_foreign_keys db))"

text \<open>
  What the run meets: the connection to the target, the reports of the pool's workers, the start of
  the server process and its greeting, its first message and what follows.
\<close>

record run_world =
  rw_connect :: "string + unit"
  rw_client :: client_world
  rw_fk_order :: "(string \<times> string) order"
  rw_pool :: "init_report list"
  rw_started :: "string + unit"
  rw_handshake :: "string + unit"
  rw_ready :: "string + server_message"
  rw_events :: "event list"

definition client_workers :: "'c import_config_scheme \<Rightarrow> nat" where
  "client_workers cfg = (case ic_client_parallel cfg of Some n \<Rightarrow> n | None \<Rightarrow> ic_parallel cfg)"

definition protocol_config_of :: "'c import_config_scheme \<Rightarrow> protocol_config" where
  "protocol_config_of cfg =
     \<lparr>pc_compression = ic_compression cfg, pc_is_resume = ic_resume cfg, pc_fail_after = ic_fail_after cfg,
      pc_parallel = word_of_nat (ic_parallel cfg), pc_collect_metrics = ic_collect_metrics cfg\<rparr>"

definition start_workers :: "run_world \<Rightarrow> 'c import_config_scheme \<Rightarrow> string + unit" where
  "start_workers w cfg =
     (if 1 < client_workers cfg then start_pool (ic_local_mysql cfg) (client_workers cfg) (rw_pool w) else Inr ())"

definition before_protocol :: "run_world \<Rightarrow> 'c import_config_scheme \<Rightarrow> (import_state, unit) cstep" where
  "before_protocol w cfg =
     (let db = cw_db (rw_client w) in
      cbind (clift (rw_connect w)) (\<lambda>_.
      cbind (on_log (check_previous_state db cfg)) (\<lambda>_.
      cbind (on_log (disable_checks db)) (\<lambda>_.
      cbind (on_log (preserve_and_drop_foreign_keys db (rw_fk_order w))) (\<lambda>_.
      cbind (clift (start_workers w cfg)) (\<lambda>_.
      cbind (clift (rw_started w)) (\<lambda>_.
      cbind (clift (rw_handshake w)) (\<lambda>_.
      send_message (cw_sink (rw_client w)) (Credentials (ic_remote_mysql cfg))))))))))"

definition after_protocol :: "run_world \<Rightarrow> string + unit \<Rightarrow> (import_state, unit) cstep" where
  "after_protocol w outcome s =
     (let db = cw_db (rw_client w) in
      cbind (case outcome of
               Inl _ \<Rightarrow> cret ()
             | Inr _ \<Rightarrow> on_log (finish_foreign_keys db (rw_fk_order w) (is_source_fks (im_stats s)))) (\<lambda>_.
      cbind (on_log (enable_checks db)) (\<lambda>_. clift outcome)) s)"

definition run_local ::
  "run_world \<Rightarrow> 'c import_config_scheme \<Rightarrow> execution_plan \<Rightarrow> statement list \<Rightarrow> (string + unit) \<times> import_state" where
  "run_local w cfg plan log =
     (case before_protocol w cfg (fresh_import log []) of
        (Inl e, s) \<Rightarrow> (Inl e, s)
      | (Inr _, s) \<Rightarrow>
          (case run_protocol ((rw_client w)\<lparr>cw_pool := 1 < client_workers cfg\<rparr>) plan (protocol_config_of cfg)
             (rw_ready w) (rw_events w) (im_log s) (im_sent s) of
             (outcome, s1) \<Rightarrow> after_protocol w outcome s1))"

text \<open>
  The whole run.  A dry run and an export do not get a connection to the target; they are given as
  functions of the plan.
\<close>

definition run_import ::
  "plan_world \<Rightarrow> run_world \<Rightarrow> string + unit \<Rightarrow> binaries \<Rightarrow> remote_host \<Rightarrow> (execution_plan \<Rightarrow> string + unit) \<Rightarrow>
     (string \<Rightarrow> execution_plan \<Rightarrow> string + unit) \<Rightarrow> 'c import_config_scheme \<Rightarrow> (run_stop + unit) \<times> statement list" where
  "run_import pw w ssh b r dry export cfg =
     (case run_plan pw cfg of
        Inl e \<Rightarrow> (Inl e, [])
      | Inr plan \<Rightarrow>
          (case rbind ssh (\<lambda>_. fst (deploy_server b r)) of
             Inl e \<Rightarrow> (Inl (RunError e), [])
           | Inr path \<Rightarrow>
               if ic_dry_run cfg then (map_error RunError (dry plan), [])
               else
                 (case ic_dump_to cfg of
                    Some dump_path \<Rightarrow> (map_error RunError (export dump_path plan), [])
                  | None \<Rightarrow>
                      (case run_local w cfg plan [] of (outcome, s) \<Rightarrow> (map_error RunError outcome, im_log s)))))"

end
