(* ===== verification/RunSafety.thy ===== *)
theory RunSafety
  imports RunImport
begin

text \<open>
  What a run of the client guarantees around the import: it does not touch what an interrupted run
  left, and it ends the way the import did.
\<close>

section \<open>The state of an interrupted run\<close>

text \<open>Steps that add statements of a set only.\<close>

definition asks :: "statement set \<Rightarrow> statement list \<Rightarrow> statement list \<Rightarrow> bool" where
  "asks S xs ys \<longleftrightarrow> (\<exists>zs. ys = xs @ zs \<and> set zs \<subseteq> S)"

lemma asks_rules: "reflp (asks S)" "transp (asks S)"
  by (force simp: reflp_def transp_def asks_def)+

lemma asks_execute: "q \<in> S \<Longrightarrow> steps (asks S) (execute db q)"
  by (auto simp: steps_def execute_def asks_def)

lemma asks_queries:
  assumes "Query sql \<in> S"
  shows "steps (asks S) (query_rows db sql)" "steps (asks S) (query_names db sql)" "steps (asks S) (query_first db sql)"
  using assms
  by (auto simp: query_rows_def query_names_def query_first_def intro!: steps_cbind steps_pure asks_rules asks_execute)

definition state_queries :: "statement set" where
  "state_queries = {Query tables_sql, Query (table_exists_sql CHECKPOINT_TABLE), Query completed_sql}"

lemma asks_refuse: "steps (asks state_queries) (refuse_state db cfg backups has)"
  by (auto simp: refuse_state_def get_completed_def checkpoint_exists_def table_exists_def state_queries_def
      intro!: steps_cbind steps_pure asks_rules asks_queries)

lemma asks_state:
  "steps (asks state_queries) (find_backup_tables db)" "steps (asks state_queries) (checkpoint_exists db)"
  by (auto simp: find_backup_tables_def checkpoint_exists_def table_exists_def state_queries_def
      intro!: steps_cbind steps_pure asks_rules asks_queries)

lemma refuse_fails: "\<exists>e. fst (refuse_state db cfg backups has log) = Inl e"
  by (auto simp: refuse_state_def cbind_def clift_def split: prod.split sum.split)

text \<open>C36: when an interrupted run left backup tables or a checkpoint, a run that is told neither to resume nor
  to clean up stops with an error, having sent nothing to the server, loaded nothing and asked
  the database nothing but what tables there are and which are complete.\<close>

theorem previous_state_refused:
  assumes connected: "rw_connect w = Inr ()"
    and backups: "find_backup_tables (cw_db (rw_client w)) log = (Inr backups, log1)"
    and checkpoint: "checkpoint_exists (cw_db (rw_client w)) log1 = (Inr has, log2)"
    and state: "backups \<noteq> [] \<or> has" "\<not> ic_clean cfg" "\<not> ic_resume cfg"
  shows "\<exists>e s. run_local w cfg plan log = (Inl e, s) \<and> im_sent s = [] \<and> im_work s = [] \<and>
    set (drop (length log) (im_log s)) \<subseteq> state_queries"
proof -
  let ?db = "cw_db (rw_client w)"
  obtain e log3 where refuse: "refuse_state ?db cfg backups has log2 = (Inl e, log3)"
    using refuse_fails by (metis prod.collapse)
  have check: "check_previous_state ?db cfg log = (Inl e, log3)"
    using backups checkpoint state refuse by (auto simp: check_previous_state_def cbind_def)
  have "asks state_queries log log1" "asks state_queries log1 log2" "asks state_queries log2 log3"
    using asks_state [of ?db] asks_refuse [of ?db cfg backups has] backups checkpoint refuse unfolding steps_def by (metis snd_conv)+
  then have "set (drop (length log) log3) \<subseteq> state_queries" by (auto simp: asks_def)
  moreover have "run_local w cfg plan log = (Inl e, (fresh_import log [])\<lparr>im_log := log3\<rparr>)"
    using check by (simp add: run_local_def before_protocol_def cbind_def clift_def connected on_log_def fresh_import_def Let_def)
  ultimately show ?thesis by (simp add: fresh_import_def)
qed

section \<open>The end of a run\<close>

text \<open>An import that failed leaves the stored foreign keys to a later run.\<close>

lemma failed_import_ends:
  "after_protocol w (Inl e) s = (Inl e, s\<lparr>im_log := im_log s @ map Query enable_sqls\<rparr>)"
  by (simp add: after_protocol_def cbind_def cret_def clift_def on_log_def enable_checks_def
      ceach_try_query [where f = "\<lambda>x. x", simplified] Let_def)

text \<open>When the server reports foreign keys, those of the target are dropped for good.\<close>

lemma local_keys_forgotten:
  assumes "fks \<noteq> []"
  shows "snd (finish_foreign_keys db ord fks log) =
    log @ map (\<lambda>fk. Query (build_source_fk_ddl fk)) fks @ [Query (drop_table_sql FK_STORE_TABLE)]"
  using assms
  by (simp add: finish_foreign_keys_def apply_foreign_keys_def cbind_def ceach_try_query discard_preserved_foreign_keys_def
      fk_store_cleanup_def query_drop_def execute_def cret_def split: sum.split)

section \<open>The plan and the server binary\<close>

lemma command_line_wins:
  assumes "load_vars w cfg = Inr vars" "ic_vars cfg n = Some v"
  shows "vars n = Some v"
proof -
  have "fold (or_insert_var render) es m n = Some v" if "m n = Some v" for es render m
    using that
  proof (induction es arbitrary: m)
    case (Cons e es)
    have "or_insert_var render e m n = Some v" using Cons.prems by (auto simp: or_insert_var_def split: option.split)
    then show ?case using Cons.IH by simp
  qed simp
  then show ?thesis using assms by (auto simp: load_vars_def rbind_Inr_iff split: option.splits)
qed

text \<open>The path that deploying gives is that of a binary for the architecture of the host, named by its
  content, and the binary is there already or was uploaded there.\<close>

lemma deployed_binary:
  assumes "deploy_server b r = (Inr path, uploads)"
  shows "\<exists>binary \<in> {bn_x86_64 b, bn_aarch64 b}. binary \<noteq> [] \<and> path = ''/tmp/jibs-'' @ take 16 (rh_hash r binary) \<and>
    (uploads = [] \<and> (\<exists>out. rh_exec r (''test -x '' @ path) = Inr (0, out)) \<or>
     uploads = [(binary, path)] \<and> rh_upload r binary path = Inr ())"
  using assms
  by (auto simp: deploy_server_def get_server_binary_def get_server_path_def Let_def
      split: sum.splits prod.splits if_splits option.splits)

section \<open>An example\<close>

text \<open>A database with a checkpoint table in which no table is complete.\<close>

definition stale_db :: database where
  "stale_db log q =
     Inr \<lparr>rp_rows = (if q = Query (table_exists_sql CHECKPOINT_TABLE) then [[CHECKPOINT_TABLE]] else []), rp_affected = 0\<rparr>"

definition plain_config :: import_config where
  "plain_config =
     \<lparr>ic_config_path = None, ic_remote_mysql = ''mysql://db'', ic_local_mysql = ''mysql://localhost'', ic_vars = Map.empty,
      ic_var_file = None, ic_resume = False, ic_clean = False, ic_dry_run = False, ic_dump_to = None, ic_parallel = 4,
      ic_client_parallel = None, ic_compression = CNone, ic_get = None, ic_collect_metrics = False, ic_fail_after = None\<rparr>"

definition stale_world :: run_world where
  "stale_world =
     \<lparr>rw_connect = Inr (),
      rw_client = \<lparr>cw_db = stale_db, cw_pool = True, 
        cw_workers = \<lparr>wk_accepts = (\<lambda>_. True), wk_alive = (\<lambda>_. True), wk_db = (\<lambda>_. stale_db), wk_ready = (\<lambda>_ _. True),
          wk_unzstd = Inr\<rparr>, cw_order = (\<lambda>_. []), cw_sink = (\<lambda>_ _. Inr ()),
        cw_show = (\<lambda>_. '''')\<rparr>,
      rw_fk_order = (\<lambda>_. []), rw_pool = [], rw_started = Inr (), rw_handshake = Inr (), rw_ready = Inl '''', rw_events = []\<rparr>"

theorem previous_state_refused_witness:
  "\<exists>e s. run_local stale_world plain_config empty_plan [] = (Inl e, s) \<and> im_sent s = []"
proof -
  have backups: "find_backup_tables stale_db [] = (Inr [], [Query tables_sql])"
    by (simp add: find_backup_tables_def query_names_def query_rows_def cbind_def execute_def cret_def stale_db_def
        table_exists_sql_def)
  have has: "checkpoint_exists stale_db [Query tables_sql] =
      (Inr True, [Query tables_sql, Query (table_exists_sql CHECKPOINT_TABLE)])"
    by (simp add: checkpoint_exists_def table_exists_def query_first_def query_rows_def cbind_def execute_def cret_def stale_db_def)
  have world: "rw_connect stale_world = Inr ()" "cw_db (rw_client stale_world) = stale_db" by (simp_all add: stale_world_def)
  have cfg: "\<not> ic_clean plain_config" "\<not> ic_resume plain_config" by (simp_all add: plain_config_def)
  show ?thesis
    using previous_state_refused [of stale_world "[]" "[]" "[Query tables_sql]" True _ plain_config empty_plan] world backups has cfg
    by auto
qed

end
