(* ===== verification/DryRun.thy ===== *)
theory DryRun
  imports Import Pool Server "HOL-Library.List_Lexorder" "HOL-Library.Char_ord"
begin

text \<open>
  The dry run of the client (\<open>crates/client/src/dry_run.rs\<close>) and the numbers of its report on an import
  (\<open>report.rs\<close>): what is sent to the server, and the lines that are printed.
\<close>

section \<open>Formatting\<close>

text \<open>Characters of a text: the bytes that do not continue one.\<close>

definition char_count :: "string \<Rightarrow> nat" where
  "char_count s = length (filter (\<lambda>b. \<not> (128 \<le> (of_char b :: nat) \<and> (of_char b :: nat) < 192)) s)"

definition pad_right :: "nat \<Rightarrow> string \<Rightarrow> string" where
  "pad_right n s = s @ replicate (n - char_count s) (CHR '' '')"

fun group_digits :: "nat \<Rightarrow> string \<Rightarrow> string \<Rightarrow> string" where
  "group_digits i [] acc = acc"
| "group_digits i (c # cs) acc =
     group_digits (Suc i) cs (c # (if 0 < i \<and> i mod 3 = 0 then CHR '','' # acc else acc))"

definition format_number :: "u64 \<Rightarrow> string" where
  "format_number n = group_digits 0 (rev (u64_string n)) []"

section \<open>The report\<close>

definition limited_to :: "u64 \<Rightarrow> i64 option \<Rightarrow> string" where
  "limited_to matching limit =
     (case limit of
        None \<Rightarrow> ''''
      | Some l \<Rightarrow>
          if 0 \<le> sint l \<and> (ucast l :: u64) < matching then '', limited to '' @ i64_string l else '''')"

definition root_count_lines :: "execution_plan \<Rightarrow> aggregate_root_count \<Rightarrow> string list" where
  "root_count_lines plan rc =
     (let agg = find (\<lambda>a. ra_name a = arc_aggregate rc) (aggregates plan) in
      (''  '' @ arc_aggregate rc @ (case agg of None \<Rightarrow> '''' | Some a \<Rightarrow> '' (root '' @ ra_root_table a @ '')'') @
       '': '' @ u64_string (arc_matching_rows rc) @ '' matching root row(s)'' @
       limited_to (arc_matching_rows rc) (Option.bind agg ra_limit)) #
      (case Option.bind agg ra_where of None \<Rightarrow> [] | Some w \<Rightarrow> [''      where '' @ w]))"

text \<open>The tables of a disposition, by name; later entries of a table id win in the map of tables.\<close>

definition by_id :: "table_info list \<Rightarrow> u16 \<rightharpoonup> table_info" where
  "by_id tables = fold (\<lambda>t m. m(ti_table_id t \<mapsto> t)) tables Map.empty"

definition tables_with ::
  "table_disposition set \<Rightarrow> table_info list \<Rightarrow> (u16 \<times> table_disposition) list \<Rightarrow> table_info list" where
  "tables_with ds tables dispositions =
     sort_key ti_name (concat (map (\<lambda>(tid, d). case by_id tables tid of
        None \<Rightarrow> [] | Some t \<Rightarrow> if d \<in> ds then [t] else []) dispositions))"

definition count_text :: "'a list \<Rightarrow> string" where
  "count_text xs = nat_string (length xs)"

definition aggregate_lines :: "table_info list \<Rightarrow> string list" where
  "aggregate_lines ts =
     (if ts = [] then []
      else '''' # (''Aggregate tables '' @ em_dash @ '' rows selected by traversal ('' @ count_text ts @ ''):'') #
        map (\<lambda>t. ''  '' @ pad_right 42 (ti_name t) @ '' up to ~'' @ u64_string (ti_estimated_rows t) @ '' rows'') ts)"

definition full_lines :: "table_info list \<Rightarrow> string list" where
  "full_lines ts =
     (if ts = [] then []
      else '''' # (''Full tables '' @ em_dash @ '' imported completely ('' @ count_text ts @ '', ~'' @
          u64_string (sum_list (map ti_estimated_rows ts)) @ '' rows):'') #
        map (\<lambda>t. ''  '' @ pad_right 42 (ti_name t) @ '' ~'' @ u64_string (ti_estimated_rows t) @ '' rows'') ts)"

definition excluded_lines :: "table_info list \<Rightarrow> string list" where
  "excluded_lines ts =
     (if ts = [] then []
      else ['''', ''Excluded '' @ em_dash @ '' structure only, no data ('' @ count_text ts @ ''):'',
        ''  '' @ join '', '' (map ti_name ts)])"

definition anonymization_lines :: "execution_plan \<Rightarrow> string list" where
  "anonymization_lines plan =
     (if dom (anonymization plan) = {} then []
      else [''Anonymization: '' @ join '', '' (sorted_list_of_set ((\<lambda>t. t @ '' ('' @
        count_text (the (anonymization plan t)) @ '' column(s))'') ` dom (anonymization plan)))])"

definition report_lines ::
  "execution_plan \<Rightarrow> table_info list \<Rightarrow> (u16 \<times> table_disposition) list \<Rightarrow> aggregate_root_count list \<Rightarrow> string list" where
  "report_lines plan tables dispositions root_counts =
     ['''', ''DRY RUN '' @ em_dash @ '' no changes were made to the local database''] @
     (if root_counts = [] then [] else '''' # ''Aggregates:'' # concat (map (root_count_lines plan) root_counts)) @
     aggregate_lines (tables_with {TdAggregate} tables dispositions) @
     full_lines (tables_with {TdFull, TdEmpty} tables dispositions) @
     excluded_lines (tables_with {TdExcluded} tables dispositions) @
     ['''', ''Post-import: '' @ count_text (preserves plan) @ '' preserve rule(s), '' @ count_text (sets plan) @
        '' set block(s), '' @ count_text (after_statements plan) @ '' after statement(s)''] @
     anonymization_lines plan @
     ['''', ''Row counts are estimates. Run again without --dry-run to import.'']"

section \<open>The session\<close>

definition await_report ::
  "client_world \<Rightarrow> string + server_message \<Rightarrow>
     string + (u16 \<times> table_disposition) list \<times> aggregate_root_count list" where
  "await_report w r =
     (case r of
        Inl e \<Rightarrow> Inl e
      | Inr (DryRunReport dispositions root_counts) \<Rightarrow> Inr (dispositions, root_counts)
      | Inr (SmError message _) \<Rightarrow> Inl (''Server error: '' @ message)
      | Inr other \<Rightarrow> Inl (''Unexpected message: '' @ cw_show w other))"

text \<open>The server is started and greeted first; the answers are its first two messages.\<close>

definition run_dry_run ::
  "client_world \<Rightarrow> execution_plan \<Rightarrow> string \<Rightarrow> compression_mode \<Rightarrow> string + unit \<Rightarrow> string + unit \<Rightarrow>
     string + server_message \<Rightarrow> string + server_message \<Rightarrow> (import_state, string list) cstep" where
  "run_dry_run w plan mysql_url compression started handshake first second =
     cbind (clift started) (\<lambda>_.
     cbind (clift handshake) (\<lambda>_.
     cbind (send_message (cw_sink w) (Credentials mysql_url)) (\<lambda>_.
     cbind (send_message (cw_sink w) (Init plan compression 1 False True)) (\<lambda>_.
     cbind (clift (await_ready w first)) (\<lambda>(tables, _).
     cbind (clift (await_report w second)) (\<lambda>(dispositions, root_counts).
     cret (report_lines plan tables dispositions root_counts)))))))"

section \<open>What the report says\<close>

text \<open>A dry run tells the server nothing but the credentials and a plan marked as a dry run, in this order:
  it never asks for the stream, whatever the server answers, and asks the database nothing.\<close>

lemma dry_run_sends:
  assumes "run_dry_run w plan url c started handshake first second s = (r, s')" "im_sent s = []"
  shows "(\<exists>n. im_sent s' = take n [Credentials url, Init plan c 1 False True]) \<and> im_log s' = im_log s \<and> im_work s' = im_work s"
proof -
  let ?msgs = "[Credentials url, Init plan c 1 False True]"
  have none: "[] = take 0 ?msgs" and one: "[Credentials url] = take 1 ?msgs" and both: "?msgs = take 2 ?msgs" by simp_all
  show ?thesis
    using assms unfolding run_dry_run_def cbind_def clift_def send_message_def cret_def
    by (auto split: sum.splits prod.splits intro: exI [of _ 0] exI [of _ 1] exI [of _ 2])
qed

text \<open>The tables that are listed: those with a known id, in the order of the dispositions.\<close>

definition listed :: "table_info list \<Rightarrow> (u16 \<times> table_disposition) list \<Rightarrow> table_info list" where
  "listed tables dispositions = concat (map (\<lambda>(tid, d). case by_id tables tid of None \<Rightarrow> [] | Some t \<Rightarrow> [t]) dispositions)"

text \<open>The three groups of a dry run report list every table that has a disposition, each as often as it has
  one, and the tables of each group by name.\<close>

lemma dry_run_groups:
  "mset (tables_with {TdAggregate} tables ds) + mset (tables_with {TdFull, TdEmpty} tables ds) +
     mset (tables_with {TdExcluded} tables ds) = mset (listed tables ds) \<and>
   sorted (map ti_name (tables_with D tables ds))"
proof
  show "mset (tables_with {TdAggregate} tables ds) + mset (tables_with {TdFull, TdEmpty} tables ds) +
     mset (tables_with {TdExcluded} tables ds) = mset (listed tables ds)"
    unfolding tables_with_def listed_def mset_sort
  proof (induction ds)
    case (Cons e ds)
    obtain tid d where e: "e = (tid, d)" by force
    then show ?case using Cons by (cases "by_id tables tid"; cases d) auto
  qed simp
  show "sorted (map ti_name (tables_with D tables ds))" by (simp add: tables_with_def)
qed

section \<open>Both sides of a dry run\<close>

lemma dispositions_known:
  assumes "compute_dry_run_report rx counter names plan ids = Inr (ds, counts)" "(tid, d) \<in> set ds"
  shows "\<exists>t. ids t = Some tid"
proof -
  obtain ns potential dsp where r: "rmap (\<lambda>t. rbind (table_id_of ids t) (\<lambda>i. Inr (i, dry_disposition plan potential t)))
      (filter (dry_selected plan potential) ns) = Inr dsp" and "ds = sort_key fst dsp"
    using assms(1) by (auto simp: compute_dry_run_report_def rbind_Inr_iff)
  have "\<exists>t. ids t = Some tid" if "rmap (\<lambda>t. rbind (table_id_of ids t) (\<lambda>i. Inr (i, g t))) ts = Inr es" "(tid, d) \<in> set es" for ts es g
    using that by (induction ts arbitrary: es) (auto simp: rbind_Inr_iff)
  from this [OF r] show ?thesis using assms(2) \<open>ds = sort_key fst dsp\<close> by simp
qed

lemma ids_listed: "ids_of infos t = Some tid \<Longrightarrow> by_id infos tid \<noteq> None"
proof -
  have mono: "fold (\<lambda>t m. m(ti_table_id t \<mapsto> t)) ts m tid \<noteq> None" if "m tid \<noteq> None" for ts m
    using that by (induction ts arbitrary: m) auto
  have "fold (\<lambda>t m. m(ti_table_id t \<mapsto> t)) ts m tid \<noteq> None" if "tid \<in> ti_table_id ` set ts" for ts m
    using that
  proof (induction ts arbitrary: m)
    case (Cons a ts)
    show ?case
    proof (cases "tid = ti_table_id a")
      case True
      have "fold (\<lambda>t m. m(ti_table_id t \<mapsto> t)) ts (m(tid \<mapsto> a)) tid \<noteq> None" by (rule mono) simp
      then show ?thesis using True by (simp only: fold_simps not_False_eq_True)
    next
      case False
      then have "fold (\<lambda>t m. m(ti_table_id t \<mapsto> t)) ts (m(ti_table_id a \<mapsto> a)) tid \<noteq> None"
        using Cons.prems by (intro Cons.IH) simp
      then show ?thesis by (simp only: fold_simps not_False_eq_True)
    qed
  qed simp
  moreover assume "ids_of infos t = Some tid"
  then have "tid \<in> ti_table_id ` set infos" unfolding ids_of_def by (fastforce dest: map_of_SomeD)
  ultimately show ?thesis unfolding by_id_def by blast
qed

lemma client_dry_run:
  assumes "\<And>sent m. cw_sink w sent m = Inr ()"
  shows "run_dry_run w plan url c (Inr ()) (Inr ()) (Inr (Ready infos c')) (Inr (DryRunReport ds counts)) s =
    (Inr (report_lines plan infos ds counts), s\<lparr>im_sent := im_sent s @ [Credentials url, Init plan c 1 False True]\<rparr>)"
  by (simp add: run_dry_run_def cbind_def clift_def send_message_def assms await_ready_def await_report_def cret_def)



section \<open>Numbers\<close>

text \<open>Grouping adds commas only, three digits apart.\<close>

lemma group_digits_filter:
  "CHR '','' \<notin> set ds \<Longrightarrow> filter (\<lambda>c. c \<noteq> CHR '','') (group_digits i ds acc) = rev ds @ filter (\<lambda>c. c \<noteq> CHR '','') acc"
  by (induction i ds acc rule: group_digits.induct) (auto split: if_splits)

end
