(* ===== verification/Cli.thy ===== *)
theory Cli
  imports RunImport Modes
begin

text \<open>
  The command line of the client (\<open>crates/client/src/main.rs\<close>) behind the decoding of its options, which
  is a library's: variables, the calls of \<open>get\<close>, the configuration of a run, the \<open>check\<close> and
  \<open>plan\<close> commands; and the options for the \<open>ssh\<close> command (\<open>ssh.rs\<close>).  Standard error is not modelled.
\<close>

section \<open>Options\<close>

record connection_args =
  ca_host :: string
  ca_remote_mysql :: string
  ca_local_mysql :: string
  ca_vars :: "(string \<times> string) list"
  ca_var_file :: "string option"
  ca_parallel :: nat
  ca_client_parallel :: "nat option"
  ca_no_compress :: bool
  ca_identity :: "string option"
  ca_port :: u16
  ca_strict :: bool
  ca_accept_new :: bool
  ca_no_checking :: bool
  ca_max_message :: nat
  ca_metrics :: bool
  ca_report :: bool

record import_args =
  ia_config :: "string option"
  ia_connection :: connection_args
  ia_resume :: bool
  ia_dry_run :: bool
  ia_clean :: bool
  ia_dump_to :: "string option"
  ia_fail_after :: "nat option"

record get_args =
  ga_config :: string
  ga_connection :: connection_args
  ga_clean :: bool
  ga_queries :: "string list"

record check_args =
  ka_config :: string
  ka_vars :: "(string \<times> string) list"
  ka_var_file :: "string option"

definition parse_var :: "string \<Rightarrow> string + string \<times> string" where
  "parse_var s =
     (case find_char (CHR ''='') s of
        None \<Rightarrow> Inl ''Variable must be in format name=value''
      | Some i \<Rightarrow> Inr (take i s, drop (i + 1) s))"

text \<open>A list of pairs collected into a map: the last one wins.\<close>

definition collect_map :: "(string \<times> string) list \<Rightarrow> string \<rightharpoonup> string" where
  "collect_map vs = map_of (rev vs)"

section \<open>The ssh command\<close>

datatype host_key_verification = AcceptAll | WarnUnknown | Strict | AcceptNew

definition get_host_key_verification :: "connection_args \<Rightarrow> host_key_verification" where
  "get_host_key_verification a =
     (if ca_no_checking a then AcceptAll
      else if ca_strict a then Strict
      else if ca_accept_new a then AcceptNew
      else WarnUnknown)"

record ssh_config =
  sc_host :: string
  sc_port :: u16
  sc_user :: string
  sc_identity :: "string option"
  sc_verification :: host_key_verification

definition ssh_config_parse ::
  "string \<Rightarrow> u16 \<Rightarrow> string option \<Rightarrow> host_key_verification \<Rightarrow> string + ssh_config" where
  "ssh_config_parse host_str port identity mode =
     (case find_char (CHR ''@'') host_str of
        None \<Rightarrow> Inl (ce_display (CeSsh ''parse host'' ''Host must be in format user@host''))
      | Some i \<Rightarrow>
          Inr \<lparr>sc_host = drop (i + 1) host_str, sc_port = port, sc_user = take i host_str, sc_identity = identity,
            sc_verification = mode\<rparr>)"

definition user_host :: "ssh_config \<Rightarrow> string" where
  "user_host c = sc_user c @ ''@'' @ sc_host c"

definition host_key_args :: "host_key_verification \<Rightarrow> string list" where
  "host_key_args mode =
     (case mode of
        AcceptAll \<Rightarrow> [''-o'', ''StrictHostKeyChecking=no'', ''-o'', ''UserKnownHostsFile=/dev/null'']
      | WarnUnknown \<Rightarrow> [''-o'', ''StrictHostKeyChecking=accept-new'']
      | AcceptNew \<Rightarrow> [''-o'', ''StrictHostKeyChecking=accept-new'']
      | Strict \<Rightarrow> [''-o'', ''StrictHostKeyChecking=yes''])"

definition base_ssh_args :: "string \<Rightarrow> ssh_config \<Rightarrow> string list" where
  "base_ssh_args control_path c =
     [''-o'', ''ControlPath='' @ control_path, ''-o'', ''ControlMaster=no'', ''-o'', ''BatchMode=yes'',
      ''-p'', nat_string (unat (sc_port c))] @
     (case sc_identity c of None \<Rightarrow> [] | Some i \<Rightarrow> [''-i'', i]) @
     host_key_args (sc_verification c) @ [''-o'', ''LogLevel=ERROR'']"

definition exec_args :: "string \<Rightarrow> ssh_config \<Rightarrow> string \<Rightarrow> string list" where
  "exec_args control_path c command = base_ssh_args control_path c @ [user_host c, command]"

definition connect_args :: "string \<Rightarrow> ssh_config \<Rightarrow> string list" where
  "connect_args control_path c =
     [''-fNM'', ''-o'', ''ControlMaster=yes''] @ base_ssh_args control_path c @ [user_host c]"

definition upload_command :: "string \<Rightarrow> string" where
  "upload_command path = ''cat > '' @ path @ '' && chmod +x '' @ path"

section \<open>The calls of get\<close>

fun take_params ::
  "string list \<Rightarrow> (string \<rightharpoonup> string) \<Rightarrow> string + (string \<rightharpoonup> string) \<times> string list" where
  "take_params [] params = Inr (params, [])"
| "take_params (t # ts) params =
     (if starts_with t ''--'' then
        (case ts of
           [] \<Rightarrow> Inl (''Expected value for --'' @ drop 2 t)
         | v # rest \<Rightarrow> take_params rest (params(drop 2 t \<mapsto> v)))
      else Inr (params, t # ts))"

lemma take_params_shorter: "take_params ts params = Inr (m, rest) \<Longrightarrow> length rest \<le> length ts"
  by (induction ts params rule: take_params.induct) (auto split: if_splits list.splits)

function parse_calls :: "string list \<Rightarrow> string + get_invocation list" where
  "parse_calls ts =
     (case ts of
        [] \<Rightarrow> Inr []
      | func_name # ts' \<Rightarrow>
          if starts_with func_name ''--'' then
            Inl (''Expected get function name, got flag '' @ squote # func_name @ squote #
              ''. Function names must not start with '' @ squote # ''--'' @ [squote])
          else
            (case take_params ts' Map.empty of
               Inl e \<Rightarrow> Inl e
             | Inr (params, rest) \<Rightarrow>
                 rbind (parse_calls rest) (\<lambda>ivs. Inr (\<lparr>gi_func = func_name, gi_args = params\<rparr> # ivs))))"
  by pat_completeness auto
termination
  by (relation "measure length") (auto dest!: take_params_shorter)

declare parse_calls.simps [simp del]

definition parse_get_invocations :: "string list \<Rightarrow> string + get_invocation list" where
  "parse_get_invocations ts =
     (if ts = [] then Inl ''Expected at least one get function name'' else parse_calls ts)"

section \<open>The configuration of a run\<close>

record client_config = import_config +
  ic_remote_host :: string
  ic_identity :: "string option"
  ic_ssh_port :: u16
  ic_host_keys :: host_key_verification
  ic_max_message :: nat
  ic_show_report :: bool

definition compression_of :: "connection_args \<Rightarrow> compression_mode" where
  "compression_of a = (if ca_no_compress a then CNone else CAuto)"

definition config_with ::
  "connection_args \<Rightarrow> string option \<Rightarrow> bool \<Rightarrow> bool \<Rightarrow> bool \<Rightarrow> string option \<Rightarrow> get_invocation list option \<Rightarrow>
     nat option \<Rightarrow> client_config" where
  "config_with a config res cln dry dump calls fail_after =
     \<lparr>ic_config_path = config, ic_remote_mysql = ca_remote_mysql a, ic_local_mysql = ca_local_mysql a,
      ic_vars = collect_map (ca_vars a), ic_var_file = ca_var_file a, ic_resume = res, ic_clean = cln,
      ic_dry_run = dry, ic_dump_to = dump, ic_parallel = ca_parallel a, ic_client_parallel = ca_client_parallel a,
      ic_compression = compression_of a, ic_get = calls, ic_collect_metrics = ca_metrics a, ic_fail_after = fail_after,
      ic_remote_host = ca_host a, ic_identity = ca_identity a, ic_ssh_port = ca_port a,
      ic_host_keys = get_host_key_verification a, ic_max_message = ca_max_message a, ic_show_report = ca_report a\<rparr>"

definition import_command :: "import_args \<Rightarrow> client_config" where
  "import_command a =
     config_with (ia_connection a) (ia_config a) (ia_resume a) (ia_clean a) (ia_dry_run a) (ia_dump_to a) None (ia_fail_after a)"

definition get_command :: "get_args \<Rightarrow> string + client_config" where
  "get_command a =
     rbind (parse_get_invocations (ga_queries a)) (\<lambda>calls.
     Inr (config_with (ga_connection a) (Some (ga_config a)) False (ga_clean a) False None (Some calls) None))"

section \<open>The check and plan commands\<close>

definition collect_vars_of :: "plan_world \<Rightarrow> check_args \<Rightarrow> run_stop + (string \<rightharpoonup> string)" where
  "collect_vars_of w a =
     (case ka_var_file a of
        None \<Rightarrow> Inr (collect_map (ka_vars a))
      | Some path \<Rightarrow>
          rbind (map_error RunError (fs_read (jw_files (pw_json w)) path)) (\<lambda>content.
          rbind (map_error RunError (pw_vars w content)) (\<lambda>file_vars.
          Inr (fold (or_insert_var (pw_text w)) file_vars (collect_map (ka_vars a))))))"

definition parse_config :: "file_system \<Rightarrow> string \<Rightarrow> string \<Rightarrow> run_stop + program" where
  "parse_config fs path source =
     (case parse source of
        Done prog \<Rightarrow> Inr prog
      | NoFuel \<Rightarrow> Inl (RunStop RFuel)
      | Fail errors \<Rightarrow>
          Inl (RunError (nat_string (length errors) @ '' parse error'' @ (if length errors = 1 then '''' else ''s'') @
            '' in '' @ path)))"

definition plain_error :: "rfail + 'a \<Rightarrow> run_stop + 'a" where
  "plain_error r = map_error (\<lambda>f. case f of RErr e \<Rightarrow> RunError (ce_display e) | _ \<Rightarrow> RunStop f) r"

datatype checked = CheckedJson execution_plan | CheckedDsl program resolved_config

definition check_json :: "plan_world \<Rightarrow> string \<Rightarrow> (string \<rightharpoonup> string) \<Rightarrow> run_stop + checked" where
  "check_json w path vars =
     rbind (stopped_with ''JSON config error'' (parse_json_config (pw_fuel w) (pw_dsl_fuel w) (pw_json w) path vars)) (\<lambda>plan.
     rbind (plain_error (validate_plan (jw_regex (pw_json w)) (jw_keys (pw_json w) plan) plan [])) (\<lambda>_.
     Inr (CheckedJson plan)))"

definition check_dsl :: "plan_world \<Rightarrow> string \<Rightarrow> (string \<rightharpoonup> string) \<Rightarrow> run_stop + checked" where
  "check_dsl w path vars =
     (let fs = jw_files (pw_json w) in
      rbind (map_error RunError (fs_read fs path)) (\<lambda>source.
      rbind (parse_config fs path source) (\<lambda>prog.
      rbind (plain_error
        (resolve_with True (pw_dsl_fuel w) fs (jw_regex (pw_json w)) (jw_keys (pw_json w)) path prog vars)) (\<lambda>c.
      Inr (CheckedDsl prog c)))))"

definition check_config :: "plan_world \<Rightarrow> check_args \<Rightarrow> run_stop + checked" where
  "check_config w a =
     rbind (collect_vars_of w a) (\<lambda>vars.
     if file_extension (ka_config a) = ''json'' then check_json w (ka_config a) vars else check_dsl w (ka_config a) vars)"

definition size_text :: "'a list \<Rightarrow> string" where
  "size_text xs = nat_string (length xs)"

definition missing_lines :: "(string \<times> var_type) list \<Rightarrow> string list" where
  "missing_lines missing =
     (if missing = [] then []
      else
        ['''', ''variables that must be provided at import time (--var/--var-file):''] @
        map (\<lambda>(name, t). ''  '' @ name @ '': '' @ type_debug t) (sort_key fst missing) @
        (if list_ex (\<lambda>m. snd m = VBool) missing then
           [''  note: missing bool variables are checked as false, so statements'',
            ''  gated on them with #[when(...)] were not validated'']
         else []))"

text \<open>The lines \<open>check\<close> prints when it succeeds.\<close>

definition check_lines :: "checked \<Rightarrow> string list" where
  "check_lines r =
     (case r of
        CheckedJson plan \<Rightarrow>
          [''OK: '' @ size_text (aggregates plan) @ '' aggregate(s), '' @ size_text (relations plan) @ '' relation(s), '' @
           nat_string (card (dom (anonymization plan))) @ '' anonymized table(s)'']
      | CheckedDsl prog c \<Rightarrow>
          (let plan = rc_plan c in
           [''parsed:   '' @ size_text (pg_statements prog) @ '' statement(s)'',
            ''resolved: '' @ size_text (aggregates plan) @ '' aggregate(s), '' @ size_text (rc_gets c) @
              '' get function(s), '' @ size_text (relations plan) @ '' relation(s), '' @
              nat_string (card (dom (anonymization plan))) @ '' anonymized table(s), '' @
              nat_string (card (dom (fakers plan))) @ '' faker pool(s)'',
            ''post:     '' @ size_text (preserves plan) @ '' preserve rule(s), '' @ size_text (sets plan) @
              '' set block(s), '' @ size_text (after_statements plan) @ '' after statement(s)''] @
           missing_lines (rc_missing c) @ ['''', ''OK'']))"

definition param_text :: "resolved_param \<Rightarrow> string" where
  "param_text p =
     rp_name p @ '': '' @ type_debug (rp_type p) @
     (case rp_default p of None \<Rightarrow> '''' | Some d \<Rightarrow> '' = '' @ as_string_value d)"

definition get_function_lines :: "resolved_get_function \<Rightarrow> string list" where
  "get_function_lines f =
     [''  '' @ rg_name f @ ''('' @ join '', '' (map param_text (rg_params f)) @ '') -> '' @ rg_aggregate f] @
     (case rg_where f of None \<Rightarrow> [] | Some t \<Rightarrow> [''    where '' @ dquote # t @ [dquote]]) @
     (case rg_limit f of
        None \<Rightarrow> []
      | Some (LoConcrete n) \<Rightarrow> [''    limit '' @ i64_string n]
      | Some (LoParam p) \<Rightarrow> [''    limit $'' @ p])"

text \<open>The lines of \<open>plan\<close>; \<open>pretty\<close> prints a plan as JSON.\<close>

definition plan_lines :: "(execution_plan \<Rightarrow> string) \<Rightarrow> plan_world \<Rightarrow> check_args \<Rightarrow> run_stop + string list" where
  "plan_lines pretty w a =
     (let path = ka_config a; fs = jw_files (pw_json w) in
      rbind (collect_vars_of w a) (\<lambda>vars.
      if file_extension path = ''json'' then
        rbind (stopped_with ''JSON config error''
          (parse_json_config (pw_fuel w) (pw_dsl_fuel w) (pw_json w) path vars)) (\<lambda>plan. Inr [pretty plan])
      else
        rbind (map_error RunError (fs_read fs path)) (\<lambda>source.
        rbind (parse_config fs path source) (\<lambda>prog.
        rbind (plain_error
          (resolve_with False (pw_dsl_fuel w) fs (jw_regex (pw_json w)) (jw_keys (pw_json w)) path prog vars)) (\<lambda>c.
        Inr (pretty (rc_plan c) #
          (if rc_gets c = [] then []
           else '''' # ''Get functions:'' # concat (map get_function_lines (rc_gets c)))))))))"

end
