(* ===== verification/CliSafety.thy ===== *)
theory CliSafety
  imports Cli
begin

text \<open>
  What the commands promise each other: a configuration \<open>check\<close> accepts is the one a run uses, and
  the calls of \<open>get\<close> are read as they are written.
\<close>

section \<open>Checking and running\<close>

lemma map_error_done [simp]: "map_error f r = Inr y \<longleftrightarrow> r = Inr y"
  by (auto simp: map_error_def split: sum.splits)

lemma wrapped_Inr [simp]: "stopped_with m r = Inr y \<longleftrightarrow> r = Inr y" "plain_error r = Inr y \<longleftrightarrow> r = Inr y"
  by (simp_all add: stopped_with_def plain_error_def)

lemma parse_config_Inr [simp]: "parse_config fs path source = Inr prog \<longleftrightarrow> parse source = Done prog"
  by (simp add: parse_config_def split: outcome.split)

text \<open>The plan and the functions a checked configuration has, and the variables it lacks.\<close>

fun checked_plan :: "checked \<Rightarrow> execution_plan \<times> resolved_get_function list" where
  "checked_plan (CheckedJson plan) = (plan, [])"
| "checked_plan (CheckedDsl prog c) = (rc_plan c, rc_gets c)"

fun checked_missing :: "checked \<Rightarrow> (string \<times> var_type) list" where
  "checked_missing (CheckedJson plan) = []"
| "checked_missing (CheckedDsl prog c) = rc_missing c"

lemma check_dsl_runs:
  assumes "check_dsl w path vars = Inr r" "checked_missing r = []"
  shows "load_dsl w path vars = Inr (checked_plan r)"
proof -
  let ?fs = "jw_files (pw_json w)"
  obtain source prog c where s: "fs_read ?fs path = Inr source" "parse source = Done prog"
    and c: "resolve_with True (pw_dsl_fuel w) ?fs (jw_regex (pw_json w)) (jw_keys (pw_json w)) path prog vars = Inr c"
      "r = CheckedDsl prog c"
    using assms(1) by (auto simp: check_dsl_def Let_def rbind_Inr_iff)
  have "resolve_with False (pw_dsl_fuel w) ?fs (jw_regex (pw_json w)) (jw_keys (pw_json w)) path prog vars = Inr c"
    using strict_lenient c assms(2) by auto
  then show ?thesis by (simp add: load_dsl_def Let_def s c(2) stopped_with_def map_error_def)
qed

text \<open>C40: what \<open>check\<close> accepts, a run accepts: when a configuration passes with no variable missing, an import
  with the same file, variables and variable file gets the plan and the functions that were
  checked.\<close>

theorem check_then_import:
  assumes "check_config w a = Inr r" "checked_missing r = []"
    and "ia_config i = Some (ka_config a)" "ca_vars (ia_connection i) = ka_vars a" "ca_var_file (ia_connection i) = ka_var_file a"
  shows "load_plan w (import_command i) = Inr (checked_plan r)"
proof -
  let ?cfg = "import_command i"
  obtain vars where vars: "collect_vars_of w a = Inr vars"
    and check: "(if file_extension (ka_config a) = ''json'' then check_json w (ka_config a) vars else check_dsl w (ka_config a) vars) = Inr r"
    using assms(1) by (auto simp: check_config_def rbind_Inr_iff)
  have cfg: "ic_config_path ?cfg = Some (ka_config a)" "ic_vars ?cfg = collect_map (ka_vars a)" "ic_var_file ?cfg = ka_var_file a"
    by (simp_all add: import_command_def config_with_def assms)
  have "load_vars w ?cfg = collect_vars_of w a" by (simp add: load_vars_def collect_vars_of_def cfg split: option.split)
  then show ?thesis
    using vars check check_dsl_runs [of w "ka_config a" vars r] assms(2)
    by (auto simp: load_plan_def cfg check_json_def rbind_Inr_iff stopped_with_def split: if_splits)
qed

text \<open>A file with one relation, and the arguments of both commands.\<close>

definition small_world :: plan_world where
  "small_world =
     \<lparr>pw_json =
        \<lparr>jw_files = \<lparr>fs_canonical = (\<lambda>p. Some p), fs_resolve = (\<lambda>base p. Inl ''none''),
           fs_read = (\<lambda>c. Inr ''relation t.x -> u.y''), fs_render = (\<lambda>p s es. ''''), fs_order = (\<lambda>p. p)\<rparr>,
         jw_parse = (\<lambda>_. Inl ''''), jw_alnum = (\<lambda>_. False), jw_order = (\<lambda>p. p), jw_regex = (\<lambda>_. Inr ()),
         jw_keys = (\<lambda>_. [])\<rparr>,
      pw_fuel = 1, pw_dsl_fuel = 1, pw_vars = (\<lambda>_. Inr []), pw_text = (\<lambda>_. ''''), pw_order = (\<lambda>_. [])\<rparr>"

definition small_check :: check_args where
  "small_check = \<lparr>ka_config = ''c.jibs'', ka_vars = [], ka_var_file = None\<rparr>"

definition small_import :: import_args where
  "small_import =
     \<lparr>ia_config = Some ''c.jibs'',
      ia_connection = \<lparr>ca_host = ''me@db'', ca_remote_mysql = '''', ca_local_mysql = '''', ca_vars = [], ca_var_file = None,
        ca_parallel = 1, ca_client_parallel = None, ca_no_compress = False, ca_identity = None, ca_port = 22,
        ca_strict = True, ca_accept_new = False, ca_no_checking = False, ca_max_message = 1000, ca_metrics = False,
        ca_report = False\<rparr>,
      ia_resume = False, ia_dry_run = False, ia_clean = False, ia_dump_to = None, ia_fail_after = None\<rparr>"

definition checks_out :: "run_stop + checked \<Rightarrow> bool" where
  "checks_out r = (case r of Inl _ \<Rightarrow> False | Inr c \<Rightarrow> checked_missing c = [] \<and> relations (fst (checked_plan c)) \<noteq> [])"

theorem check_then_import_witness:
  "\<exists>plan gets. load_plan small_world (import_command small_import) = Inr (plan, gets) \<and> relations plan \<noteq> []"
proof -
  have "checks_out (check_config small_world small_check)" by code_simp
  then obtain r where r: "check_config small_world small_check = Inr r" "checked_missing r = []" "relations (fst (checked_plan r)) \<noteq> []"
    by (auto simp: checks_out_def split: sum.splits)
  have "load_plan small_world (import_command small_import) = Inr (checked_plan r)"
    by (rule check_then_import [OF r(1,2)]) (simp_all add: small_check_def small_import_def)
  then show ?thesis using r(3) by (cases "checked_plan r") auto
qed

section \<open>The calls of get\<close>

definition call_tokens :: "string \<times> (string \<times> string) list \<Rightarrow> string list" where
  "call_tokens c = fst c # concat (map (\<lambda>(k, v). [''--'' @ k, v]) (snd c))"

definition call_of :: "string \<times> (string \<times> string) list \<Rightarrow> get_invocation" where
  "call_of c = \<lparr>gi_func = fst c, gi_args = collect_map (snd c)\<rparr>"

lemma flag_starts [simp]: "starts_with (CHR ''-'' # CHR ''-'' # k) ''--''"
  by simp

lemma take_params_tokens:
  assumes "rest = [] \<or> \<not> starts_with (hd rest) ''--''"
  shows "take_params (concat (map (\<lambda>(k, v). [''--'' @ k, v]) ps) @ rest) m = Inr (m ++ collect_map ps, rest)"
proof (induction ps arbitrary: m)
  case Nil
  show ?case using assms by (cases rest) (auto simp: collect_map_def)
next
  case (Cons p ps)
  obtain k v where p: "p = (k, v)" by force
  have step: "m(k \<mapsto> v) ++ collect_map ps = m ++ collect_map ((k, v) # ps)"
    by (rule ext) (simp add: collect_map_def map_add_def split: option.split)
  have ih: "take_params (concat (map (\<lambda>(k, v). [''--'' @ k, v]) ps) @ rest) (m(k \<mapsto> v)) = Inr (m ++ collect_map ((k, v) # ps), rest)"
    using Cons.IH [of "m(k \<mapsto> v)"] unfolding step .
  have "take_params (concat (map (\<lambda>(k, v). [''--'' @ k, v]) (p # ps)) @ rest) m =
      take_params (concat (map (\<lambda>(k, v). [''--'' @ k, v]) ps) @ rest) (m(k \<mapsto> v))"
    by (simp add: p)
  then show ?case unfolding ih p .
qed

text \<open>The calls of a command line are read as they are written, values that look like flags included.\<close>

lemma calls_roundtrip:
  assumes "calls \<noteq> []" "\<forall>c \<in> set calls. \<not> starts_with (fst c) ''--''"
  shows "parse_get_invocations (concat (map call_tokens calls)) = Inr (map call_of calls)"
proof -
  have "parse_calls (concat (map call_tokens cs)) = Inr (map call_of cs)" if "\<forall>c \<in> set cs. \<not> starts_with (fst c) ''--''" for cs
    using that
  proof (induction cs)
    case Nil
    show ?case by (subst parse_calls.simps) simp
  next
    case (Cons c cs)
    let ?rest = "concat (map call_tokens cs)"
    have "?rest = [] \<or> \<not> starts_with (hd ?rest) ''--''"
      using Cons.prems by (cases cs) (auto simp: call_tokens_def)
    then have "take_params (concat (map (\<lambda>(k, v). [''--'' @ k, v]) (snd c)) @ ?rest) Map.empty = Inr (collect_map (snd c), ?rest)"
      using take_params_tokens [of ?rest "snd c" Map.empty] by simp
    then show ?case using Cons by (subst parse_calls.simps) (simp add: call_tokens_def [of c] call_of_def [of c])
  qed
  from this [OF assms(2)] show ?thesis using assms(1) by (cases calls) (auto simp: parse_get_invocations_def call_tokens_def)
qed

section \<open>Shortcomings\<close>

text \<open>A JSON configuration with a rule that names no faker passes a run and fails \<open>check\<close>.\<close>

definition typo_config :: json_config where
  "typo_config =
     \<lparr>jc_variable = [], jc_import = [], jc_faker = FakerEmpty, jc_relation = [], jc_exclude = [], jc_ignore = [],
      jc_ignore_relation = [],
      jc_anonymize = AnonymizeMap [(''user'', [\<lparr>ja_column = ''name'', ja_faker = Some ''nmaes'', ja_null = None\<rparr>])],
      jc_aggregates = [], jc_include = [], jc_preserve = [], jc_set = [], jc_after = []\<rparr>"

definition typo_world :: plan_world where
  "typo_world =
     \<lparr>pw_json =
        \<lparr>jw_files = \<lparr>fs_canonical = (\<lambda>p. Some p), fs_resolve = (\<lambda>base p. Inl ''none''), fs_read = (\<lambda>c. Inr c),
           fs_render = (\<lambda>p s es. ''''), fs_order = (\<lambda>p. p)\<rparr>,
         jw_parse = (\<lambda>_. Inr typo_config), jw_alnum = (\<lambda>_. False), jw_order = (\<lambda>p. p), jw_regex = (\<lambda>_. Inr ()),
         jw_keys = (\<lambda>_. [''user''])\<rparr>,
      pw_fuel = 1, pw_dsl_fuel = 1, pw_vars = (\<lambda>_. Inr []), pw_text = (\<lambda>_. ''''), pw_order = (\<lambda>_. [])\<rparr>"

definition passes :: "'e + 'a \<Rightarrow> bool" where
  "passes r = (case r of Inl _ \<Rightarrow> False | Inr _ \<Rightarrow> True)"

definition typo_args :: check_args where
  "typo_args = \<lparr>ka_config = ''c.json'', ka_vars = [], ka_var_file = None\<rparr>"

lemma json_not_validated:
  "passes (parse_json_config 1 1 (pw_json typo_world) ''c.json'' Map.empty) \<and> \<not> passes (check_config typo_world typo_args)"
  by code_simp

text \<open>By default unknown host keys are accepted without a word, as with \<open>--accept-new-host-keys\<close>.\<close>

lemma unknown_keys_accepted: "host_key_args WarnUnknown = host_key_args AcceptNew"
  by (simp add: host_key_args_def)

text \<open>A port after the host is taken for a part of its name.\<close>

lemma port_in_host:
  "ssh_config_parse ''me@db:2222'' 22 None Strict =
     Inr \<lparr>sc_host = ''db:2222'', sc_port = 22, sc_user = ''me'', sc_identity = None, sc_verification = Strict\<rparr>"
  by code_simp

end
