(* ===== verification/Spec2Isabelle.thy ===== *)
theory Spec2Isabelle
  imports LexerPrint StmtParser Dump Server Modes ImportDone DumpSample JsonPlan JsonText RunSafety DryRun CliSafety
begin

text \<open>
  jibs copies a selected part of a MySQL database from a remote host into a local one.  A
  configuration in its own language (\<open>.jibs\<close> files) is parsed and resolved by the client into an
  execution plan; the client starts the server binary on the remote host, sends it the plan, and
  receives table schemas and chunks of rows in the text format of \<open>LOAD DATA\<close>, which it loads or
  writes to a dump file.  This library models that program bottom up, one theory for each part,
  and proves what makes each part correct.

  \<^bold>\<open>Theories and sources.\<close>  Paths are below \<open>src/crates/\<close>.

  \<^item> \<open>Prelude\<close>: errors as sums, machine words, strings as byte lists with the UTF-8 operations of
    the Rust standard library the sources use, decimal printing and parsing.
  \<^item> \<open>F64\<close>, \<open>F64Ops\<close>: doubles as exact binary fractions with one rounding for each operation.
  \<^item> \<open>Ast\<close>: the syntax tree (\<open>parser/src/ast.rs\<close>), spans and parse errors (\<open>parser/src/lib.rs\<close>).
  \<^item> \<open>Lexer\<close>, \<open>LexerPrint\<close>: \<open>parser/src/lexer.rs\<close>; every byte is accounted for, and printed tokens
    are read back.
  \<^item> \<open>Cursor\<close>, \<open>ExprParser\<close>, \<open>StmtParser\<close>: the recursive-descent parser (\<open>parser/src/parser.rs\<close>)
    and interpolated strings (\<open>parser/src/interpolation.rs\<close>).  A parser is a function on the
    parser state with results \<open>Done\<close>, \<open>Fail\<close> and \<open>NoFuel\<close>; the rules collected in \<open>parse_rules\<close>
    show of every method that it never runs out of fuel and moves forward.
  \<^item> \<open>Plan\<close>: the data both sides share (\<open>protocol/src/plan.rs\<close>, \<open>messages.rs\<close>).
  \<^item> \<open>Framing\<close>: length-prefixed frames, the handshake and the buffered writer
    (\<open>protocol/src/framing.rs\<close>, \<open>handshake.rs\<close>); the locale \<open>fixed_codec\<close> is the contract of the
    fixed-width integers.
  \<^item> \<open>Tsv\<close>: rows as lines of \<open>LOAD DATA\<close>, with anonymisation (\<open>server/src/tsv.rs\<close>).
  \<^item> \<open>Wire\<close>: chunks as frames, and their way to the loader (\<open>client/src/protocol.rs\<close>, \<open>loader.rs\<close>).
  \<^item> \<open>Dump\<close>: dump files (\<open>client/src/dump.rs\<close>).
  \<^item> \<open>Dedup\<close>: the keys by which rows are recognised (\<open>server/src/traversal.rs\<close>).
  \<^item> \<open>Walk\<close>: relations, exclude patterns, the static estimate of the tables an aggregate can reach
    and the dry run (\<open>server/src/traversal.rs\<close>, \<open>error.rs\<close>).
  \<^item> \<open>Stream\<close>: streaming a table as chunks (\<open>server/src/traversal.rs\<close>).
  \<^item> \<open>Bfs\<close>, \<open>Traversal\<close>, \<open>Tally\<close>, \<open>Aggregates\<close>: \<open>run_aggregate_bfs\<close> (\<open>server/src/traversal.rs\<close>):
    its definitions, the invariant of one aggregate, the row accounting, and the results on
    whole runs.
  \<^item> \<open>Eval\<close>, \<open>Resolver\<close>: expressions and their values, and the resolution of a program into a plan
    (\<open>client/src/resolver.rs\<close>, \<open>error.rs\<close>); \<open>Resolution\<close> proves that it returns, that values have
    their types and that every file contributes once, \<open>Modes\<close> relates the check mode to
    resolution proper.
  \<^item> \<open>Discovery\<close> (\<open>server/src/mysql.rs\<close>): table numbering, columns, keys, indexes, triggers and foreign
    keys read from the catalog; the answers of the database are parameters of the model, and the
    four catalog queries share the interface \<open>reader\<close>.
  \<^item> \<open>Schedule\<close> (\<open>stream_all_tables\<close> of \<open>traversal.rs\<close>): the division of the tables among the workers,
    the channel as an \<open>interleaving\<close> of their messages, and the writer.
  \<^item> \<open>Server\<close> (\<open>server/src/main.rs\<close>): the handshake, the request, the choice of the compression, the
    traversal and the streaming phase of one session.
  \<^item> \<open>LocalDb\<close> (\<open>client/src/sql.rs\<close>), \<open>Checkpoint\<close> (\<open>checkpoint.rs\<close>, \<open>foreign_keys.rs\<close>): the statements
    the client sends to the target database, over a database that answers each statement from
    the history of the connection; \<open>Constraints\<close> follows the foreign keys through a run.
  \<^item> \<open>Import\<close> (\<open>client/src/protocol.rs\<close>, \<open>loader.rs\<close>): the import loop, one definition per message, and the
    loader pool; work is numbered in the order of submission, and when and how a worker answers
    is a parameter.  \<open>ImportSafety\<close> has the invariant of the checkpoint, \<open>ImportDone\<close> the accounts of a
    successful import and its completion.
  \<^item> \<open>Pool\<close> (\<open>loader.rs\<close>, the masking of URLs of \<open>import.rs\<close>), \<open>Load\<close> (\<open>load.rs\<close>), \<open>Export\<close> (\<open>export.rs\<close>):
    the start of the pool, loading a dump and writing one.  \<open>DumpWork\<close> and \<open>Replay\<close> compare the
    work of a loaded dump with that of an import, \<open>DumpSample\<close> runs a small session through both.
  \<^item> \<open>Json\<close> (\<open>client/src/json_config.rs\<close>): configurations in JSON and their resolution into a plan;
    \<open>JsonPlan\<close> shows that it returns and loses no rule, \<open>JsonText\<close> that interpolation is the expansion
    of the references of a text.
  \<^item> \<open>Get\<close>, \<open>RunImport\<close> (\<open>client/src/import.rs\<close>, \<open>server_binary.rs\<close>): the \<open>get\<close> command, and a whole run
    of the client, from its configuration to the statements that end it; \<open>RunSafety\<close> has what holds
    of a run.  \<open>DryRun\<close> (\<open>client/src/dry_run.rs\<close>): the dry run of the client and its report, against
    the session of the server.
  \<^item> \<open>Cli\<close> (\<open>client/src/main.rs\<close>, \<open>ssh.rs\<close>): the commands behind the decoding of their options, and the
    arguments of \<open>ssh\<close>; \<open>CliSafety\<close> relates \<open>check\<close> to the run.

  \<^bold>\<open>State, errors and parameters.\<close>  A struct is a record, an enum a datatype with a short prefix where
  a name clashes.  A fallible function returns a sum whose left side is the error type of its
  crate; a step of the server is a function from a state to such a sum and the new state
  (\<open>srv\<close>), because messages sent before a failure stay sent.  What is not under \<open>src/\<close> is a
  parameter: MessagePack encoding and zstd (functions with the round trip as a named
  hypothesis), the regular expression engine, the MySQL server (the record \<open>db\<close> of its answers,
  related to table contents by \<open>answers\<close>), the random choice and formatting of values, the
  order in which hash maps are drained, the file system.

  \<^bold>\<open>Loops and fuel.\<close>  The scanner, the static walk and the chunk loops are total functions with a
  measure.  The parser loops take fuel from the number of tokens left and \<open>parse_tokens_total\<close>
  shows it is enough.  The level loop of the traversal has a fuel argument; \<open>aggregate_bfs_ends\<close>
  shows that twice the number of rows is enough, because every level that goes on has expanded
  a row it had not expanded before in that direction.
  The fuel of the resolver bounds the depth of imports; \<open>resolve_returns\<close> shows that one more
  than the number of files is enough, whatever the files import; \<open>json_resolves\<close> shows the same of
  JSON configurations.

  \<^bold>\<open>What the groups of lemmas show.\<close>  Round trips: tokens, frames, chunks, TSV rows, dump files.
  Safety: nothing of an anonymised column reaches the wire, a cut dump is never complete, a
  failed table is never reported as done.  Refinement: the traversal sends exactly the rows an
  inductive definition (\<open>required\<close>) asks for, each once; the static estimate covers the tables
  it touches.  Resolution: the plan is put together from the reachable files, imports first, and its rules
  and patterns are valid.  Server: discovered tables are numbered in order and each one once, the
  workers stream every table whatever their interleaving, and a session writes nothing beyond
  the handshake to a client it does not accept.  Client: a table is in the checkpoint only when
  all its chunks are loaded, tables of the checkpoint are left alone, the chunks in flight are
  bounded, a successful import accounts for every chunk, and a healthy one completes.
  An export publishes a whole dump or nothing, loading it does what importing the session does,
  and a dump that was cut short is refused.
  A JSON configuration keeps every anonymization rule of the files it reaches,
  the plan of a \<open>get\<close> command keeps them too, a run does not touch the state of an interrupted one
  unasked, and a dry run makes both sides do no more than report.

  \<^bold>\<open>Not modelled.\<close>  Running \<open>ssh\<close> and other processes, progress bars and timings (\<open>progress.rs\<close>,
  both \<open>metrics.rs\<close>), the decoding of command line options and of JSON text, the rendering of parse
  errors, standard error, the build script, and the vendored MySQL driver: input and output around
  the parts above, or libraries they call.
\<close>

end
